(* ===== verification/Kovri_Prelude.thy ===== *)
theory Kovri_Prelude
  imports Main "HOL-Library.Word" "HOL-Library.Monad_Syntax"
begin

text \<open>
  What every component of the development shares: bytes and byte buffers, checked reads and
  writes of a buffer, big-endian values, and the collections of rewrite rules.

  A C++ buffer of \<open>n\<close> bytes is a list of length \<open>n\<close>. A read or a write that leaves the
  buffer is undefined behaviour in C++; here it is the value \<^term>\<open>None\<close>, so a theorem that
  an operation returns \<open>Some\<close> is also a theorem that it stays inside its buffers.
\<close>

unbundle bit_operations_syntax

named_theorems mem_simps \<open>reads and writes of byte buffers\<close>
named_theorems byte_simps \<open>big-endian values and byte lists\<close>

section \<open>Bytes and buffers\<close>

type_synonym byte = "8 word"
type_synonym bytes = "byte list"
type_synonym ident_hash = bytes

definition mem_read :: "bytes \<Rightarrow> nat \<Rightarrow> nat \<Rightarrow> bytes option" where
  "mem_read b off n = (if off + n \<le> length b then Some (take n (drop off b)) else None)"

definition mem_write :: "bytes \<Rightarrow> nat \<Rightarrow> bytes \<Rightarrow> bytes option" where
  "mem_write b off src =
     (if off + length src \<le> length b
      then Some (take off b @ src @ drop (off + length src) b) else None)"

lemma mem_read_Some_iff [mem_simps]:
  "mem_read b off n = Some r \<longleftrightarrow> off + n \<le> length b \<and> r = take n (drop off b)"
  by (auto simp: mem_read_def)

lemma mem_read_length: "mem_read b off n = Some r \<Longrightarrow> length r = n"
  by (auto simp: mem_read_def split: if_splits)

lemma mem_write_Some_iff [mem_simps]:
  "mem_write b off src = Some b' \<longleftrightarrow>
     off + length src \<le> length b \<and> b' = take off b @ src @ drop (off + length src) b"
  by (auto simp: mem_write_def)

lemma mem_write_length: "mem_write b off src = Some b' \<Longrightarrow> length b' = length b"
  by (auto simp: mem_write_def split: if_splits)

lemma mem_write_total: "off + length src \<le> length b \<Longrightarrow> \<exists>b'. mem_write b off src = Some b'"
  by (simp add: mem_write_def)

lemma mem_write_take: "mem_write b off src = Some b' \<Longrightarrow> n \<le> off \<Longrightarrow> take n b' = take n b"
  by (auto simp: mem_write_def min_def split: if_splits)

lemma mem_write_drop:
  "mem_write b off src = Some b' \<Longrightarrow> off + length src \<le> n \<Longrightarrow> drop n b' = drop n b"
  by (auto simp: mem_write_def split: if_splits)

lemma mem_write_here:
  "mem_write b off src = Some b' \<Longrightarrow> take (length src) (drop off b') = src"
  by (auto simp: mem_write_def split: if_splits)

text \<open>Two adjacent writes are one write of the concatenation.\<close>

lemma mem_write_split:
  "mem_write b off (s1 @ s2) =
     Option.bind (mem_write b off s1) (\<lambda>b1. mem_write b1 (off + length s1) s2)"
proof (cases "off + length s1 \<le> length b")
  case True
  then have "take (off + length s1) (take off b @ s1 @ drop (off + length s1) b) = take off b @ s1"
    by simp
  moreover have "drop (off + length s1 + length s2) (take off b @ s1 @ drop (off + length s1) b)
      = drop (off + (length s1 + length s2)) b"
    using True by (simp add: add.assoc [symmetric]) (simp add: add.commute add.left_commute)
  ultimately show ?thesis
    using True by (simp add: mem_write_def add.assoc)
next
  case False
  then show ?thesis by (simp add: mem_write_def)
qed

lemma mem_write_adjacent:
  "mem_write b off s1 = Some b1 \<Longrightarrow> mem_write b1 (off + length s1) s2 = Some b2 \<Longrightarrow>
     mem_write b off (s1 @ s2) = Some b2"
  by (simp add: mem_write_split)

text \<open>The window of \<open>n\<close> bytes at \<open>off\<close>, for statements about what a buffer holds.\<close>

definition window :: "bytes \<Rightarrow> nat \<Rightarrow> nat \<Rightarrow> bytes" where
  "window b off n = take n (drop off b)"

lemma length_window [simp]: "off + n \<le> length b \<Longrightarrow> length (window b off n) = n"
  by (simp add: window_def)

lemma window_write_same:
  "mem_write b off src = Some b' \<Longrightarrow> n = length src \<Longrightarrow> window b' off n = src"
  by (simp add: window_def mem_write_here)

lemma window_write_before:
  "mem_write b off src = Some b' \<Longrightarrow> o' + n \<le> off \<Longrightarrow> window b' o' n = window b o' n"
  by (auto simp: window_def mem_write_def min_def take_drop split: if_splits)

lemma window_write_after:
  "mem_write b off src = Some b' \<Longrightarrow> off + length src \<le> o' \<Longrightarrow> window b' o' n = window b o' n"
  by (simp add: window_def mem_write_drop)

lemma window_add: "window b off (n + m) = window b off n @ window b (off + n) m"
  unfolding window_def by (subst take_add) (simp add: add.commute)

lemma mem_read_window: "off + n \<le> length b \<Longrightarrow> mem_read b off n = Some (window b off n)"
  by (simp add: mem_read_def window_def)

lemma mem_read_written:
  assumes "mem_write b p src = Some b'" and "i + n \<le> length src"
  shows "mem_read b' (p + i) n = Some (take n (drop i src))"
proof -
  have "p + length src \<le> length b" and b': "b' = take p b @ src @ drop (p + length src) b"
    using assms(1) by (auto simp: mem_write_Some_iff)
  then show ?thesis
    using assms(2) by (simp add: mem_read_def)
qed

lemma mem_read_after_write:
  "mem_write b p src = Some b' \<Longrightarrow> p + length src \<le> q \<Longrightarrow> mem_read b' q n = mem_read b q n"
  using mem_write_length [of b p src b'] mem_write_drop [of b p src b' q]
  by (simp add: mem_read_def)

lemma mem_read_before_write:
  "mem_write b p src = Some b' \<Longrightarrow> q + n \<le> p \<Longrightarrow> mem_read b' q n = mem_read b q n"
  using mem_write_length [of b p src b'] window_write_before [of b p src b' q n]
  by (simp add: mem_read_def window_def)

text \<open>The buffer after a write that fits; consecutive adjacent writes collapse into one.\<close>

definition patch :: "bytes \<Rightarrow> nat \<Rightarrow> bytes \<Rightarrow> bytes" where
  "patch b off src = take off b @ src @ drop (off + length src) b"

lemma mem_write_patch: "off + length src \<le> length b \<Longrightarrow> mem_write b off src = Some (patch b off src)"
  by (simp add: mem_write_def patch_def)

lemma mem_write_eq_Some: "mem_write b off src = Some b' \<longleftrightarrow>
    off + length src \<le> length b \<and> b' = patch b off src"
  by (auto simp: mem_write_def patch_def)

lemma length_patch [simp]: "off + length src \<le> length b \<Longrightarrow> length (patch b off src) = length b"
  by (simp add: patch_def)

lemma patch_Nil [simp]: "patch b off [] = b"
  by (simp add: patch_def)

lemma patch_patch [mem_simps]:
  assumes "off' = off + length s1" and "off' + length s2 \<le> length b"
  shows "patch (patch b off s1) off' s2 = patch b off (s1 @ s2)"
proof -
  have "mem_write b off (s1 @ s2) = Some (patch (patch b off s1) off' s2)"
    unfolding mem_write_split using assms by (simp add: mem_write_patch)
  moreover have "mem_write b off (s1 @ s2) = Some (patch b off (s1 @ s2))"
    using assms by (simp add: mem_write_patch)
  ultimately show ?thesis by simp
qed

lemma window_patch_same [simp]:
  "off + length src \<le> length b \<Longrightarrow> n = length src \<Longrightarrow> window (patch b off src) off n = src"
  by (rule window_write_same [OF mem_write_patch])

lemma window_patch_inside:
  assumes "off + length src \<le> length b" and "i + n \<le> length src"
  shows "window (patch b off src) (off + i) n = take n (drop i src)"
proof -
  have "mem_read (patch b off src) (off + i) n = Some (take n (drop i src))"
    by (rule mem_read_written [OF mem_write_patch [OF assms(1)] assms(2)])
  then show ?thesis by (auto simp: mem_read_def window_def split: if_splits)
qed

lemma window_patch_before:
  "off + length src \<le> length b \<Longrightarrow> o' + n \<le> off \<Longrightarrow> window (patch b off src) o' n = window b o' n"
  by (rule window_write_before [OF mem_write_patch])

lemma window_patch_after:
  "off + length src \<le> length b \<Longrightarrow> off + length src \<le> o' \<Longrightarrow>
     window (patch b off src) o' n = window b o' n"
  by (rule window_write_after [OF mem_write_patch])

text \<open>Subtraction on \<open>size_t\<close> (64 bits) wraps around.\<close>

definition size_sub :: "nat \<Rightarrow> nat \<Rightarrow> nat" where
  "size_sub a b = (if b \<le> a then a - b else a + 2 ^ 64 - b)"

lemma size_sub_le [simp]: "b \<le> a \<Longrightarrow> size_sub a b = a - b"
  by (simp add: size_sub_def)

lemma size_sub_add [simp]: "size_sub (a + b) a = b" "size_sub (a + b) b = a"
  by (simp_all add: size_sub_def)

text \<open>Two bytes are equal when their eight bits are.\<close>

lemma byte_bits_eqI: "(\<And>n. n \<in> {0, 1, 2, 3, 4, 5, 6, 7} \<Longrightarrow> bit a n = bit b n) \<Longrightarrow> a = (b :: byte)"
  by (rule bit_word_eqI) (simp add: less_Suc_eq numeral_eq_Suc)

section \<open>Big-endian values\<close>

definition be_val :: "bytes \<Rightarrow> nat" where
  "be_val bs = foldl (\<lambda>a b. a * 256 + unat b) 0 bs"

definition be_bytes :: "nat \<Rightarrow> nat \<Rightarrow> bytes" where
  "be_bytes n v = rev (map (\<lambda>i. word_of_nat (v div 256 ^ i)) [0..<n])"

lemma length_be_bytes [simp]: "length (be_bytes n v) = n"
  by (simp add: be_bytes_def)

lemma be_bytes_0 [simp]: "be_bytes 0 v = []"
  by (simp add: be_bytes_def)

lemma be_bytes_Suc: "be_bytes (Suc n) v = be_bytes n (v div 256) @ [word_of_nat v]"
proof -
  have "[0..<Suc n] = 0 # map Suc [0..<n]"
    by (simp add: map_Suc_upt upt_conv_Cons)
  then show ?thesis
    by (simp add: be_bytes_def div_mult2_eq mult.commute)
qed

lemma be_val_Nil [simp]: "be_val [] = 0"
  by (simp add: be_val_def)

lemma be_val_snoc: "be_val (bs @ [b]) = be_val bs * 256 + unat b"
  by (simp add: be_val_def)

lemma be_val_bound: "be_val bs < 256 ^ length bs"
proof (induction bs rule: rev_induct)
  case Nil
  then show ?case by simp
next
  case (snoc b bs)
  have "unat b < 256" using unsigned_less [of b] by simp
  with snoc show ?case by (simp add: be_val_snoc)
qed

lemma be_val_be_bytes: "be_val (be_bytes n v) = v mod 256 ^ n"
proof (induction n arbitrary: v)
  case 0
  then show ?case by simp
next
  case (Suc n)
  have "unat (word_of_nat v :: byte) = v mod 256"
    by (simp add: unat_of_nat)
  with Suc show ?case
    by (simp add: be_bytes_Suc be_val_snoc mod_mult2_eq)
qed

lemma be_bytes_be_val [byte_simps]: "be_bytes (length bs) (be_val bs) = bs"
proof (induction bs rule: rev_induct)
  case Nil
  then show ?case by simp
next
  case (snoc b bs)
  have "unat b < 256" using unsigned_less [of b] by simp
  then have "(be_val bs * 256 + unat b) div 256 = be_val bs"
    by simp
  moreover have "(word_of_nat (be_val bs * 256 + unat b) :: byte) = b"
    using \<open>unat b < 256\<close>
    by (simp add: word_unat_eq_iff unat_of_nat del: of_nat_add of_nat_mult of_nat_simps)
  ultimately show ?case
    using snoc by (simp add: be_bytes_Suc be_val_snoc)
qed

lemma be_bytes_inject:
  "a < 256 ^ n \<Longrightarrow> b < 256 ^ n \<Longrightarrow> be_bytes n a = be_bytes n b \<longleftrightarrow> a = b"
  by (metis be_val_be_bytes mod_less)

end
