(* ===== verification/Util_Endian.thy ===== *)
theory Util_Endian
  imports Kovri_Prelude
begin

text \<open>
  \<open>src/core/util/LittleBigEndian.h\<close>, \<open>I2PEndian.h\<close> and \<open>I2PEndian.cpp\<close>: the byte order of
  the integers on the wire. \<open>BigEndian<T>\<close> and \<open>LittleEndian<T>\<close> are a union of \<open>T\<close> with
  \<open>sizeof(T)\<close> bytes, filled and read by the shift loops of the header; the reading of the union's
  \<open>raw_value\<close> is the native load of a little-endian host (the host the header's comment assumes).
  The lemmas show that the loops agree with the positional big-endian value of the prelude, so
  the accessors \<open>bufbe16toh\<close> .. \<open>htobe64buf\<close> read and write network order.
\<close>

section \<open>The unions of LittleBigEndian.h\<close>

definition sizeof_t :: "'a::len itself \<Rightarrow> nat" where
  "sizeof_t t = LENGTH('a) div 8"

text \<open>The native load of a little-endian host: byte \<open>i\<close> is worth \<open>256 ^ i\<close>.\<close>

definition raw_value :: "bytes \<Rightarrow> 'a::len word" where
  "raw_value bs = word_of_nat (be_val (rev bs))"

definition raw_bytes :: "'a::len word \<Rightarrow> bytes" where
  "raw_bytes t = rev (be_bytes (sizeof_t TYPE('a)) (unat t))"

text \<open>\<open>for (i = 0; i < sizeof(T); i++) bytes[sizeof(T) - 1 - i] = t >> (i << 3)\<close>\<close>

definition BigEndian_assign :: "'a::len word \<Rightarrow> bytes" where
  "BigEndian_assign t =
     (let n = sizeof_t TYPE('a) in
      fold (\<lambda>i bs. bs[n - 1 - i := ucast (drop_bit (8 * i) t)]) [0..<n] (replicate n 0))"

text \<open>The same loop is the assignment of \<open>LittleEndian<T>\<close>: both classes store big-endian.\<close>

definition LittleEndian_assign :: "'a::len word \<Rightarrow> bytes" where
  "LittleEndian_assign t =
     (let n = sizeof_t TYPE('a) in
      fold (\<lambda>i bs. bs[n - 1 - i := ucast (drop_bit (8 * i) t)]) [0..<n] (replicate n 0))"

section \<open>I2PEndian.cpp\<close>

definition htobe16 :: "16 word \<Rightarrow> 16 word" where
  "htobe16 int16 = raw_value (BigEndian_assign int16)"

definition htobe32 :: "32 word \<Rightarrow> 32 word" where
  "htobe32 int32 = raw_value (BigEndian_assign int32)"

definition htobe64 :: "64 word \<Rightarrow> 64 word" where
  "htobe64 int64 = raw_value (BigEndian_assign int64)"

definition be16toh :: "16 word \<Rightarrow> 16 word" where
  "be16toh big16 = raw_value (LittleEndian_assign big16)"

definition be32toh :: "32 word \<Rightarrow> 32 word" where
  "be32toh big32 = raw_value (LittleEndian_assign big32)"

definition be64toh :: "64 word \<Rightarrow> 64 word" where
  "be64toh big64 = raw_value (LittleEndian_assign big64)"

section \<open>The buffer accessors of I2PEndian.h\<close>

definition buf16toh :: "bytes \<Rightarrow> nat \<Rightarrow> 16 word option" where
  "buf16toh buf p = map_option raw_value (mem_read buf p 2)"

definition buf32toh :: "bytes \<Rightarrow> nat \<Rightarrow> 32 word option" where
  "buf32toh buf p = map_option raw_value (mem_read buf p 4)"

definition buf64toh :: "bytes \<Rightarrow> nat \<Rightarrow> 64 word option" where
  "buf64toh buf p = map_option raw_value (mem_read buf p 8)"

definition bufbe16toh :: "bytes \<Rightarrow> nat \<Rightarrow> 16 word option" where
  "bufbe16toh buf p = map_option be16toh (buf16toh buf p)"

definition bufbe32toh :: "bytes \<Rightarrow> nat \<Rightarrow> 32 word option" where
  "bufbe32toh buf p = map_option be32toh (buf32toh buf p)"

definition bufbe64toh :: "bytes \<Rightarrow> nat \<Rightarrow> 64 word option" where
  "bufbe64toh buf p = map_option be64toh (buf64toh buf p)"

definition htobuf16 :: "bytes \<Rightarrow> nat \<Rightarrow> 16 word \<Rightarrow> bytes option" where
  "htobuf16 buf p b16 = mem_write buf p (raw_bytes b16)"

definition htobuf32 :: "bytes \<Rightarrow> nat \<Rightarrow> 32 word \<Rightarrow> bytes option" where
  "htobuf32 buf p b32 = mem_write buf p (raw_bytes b32)"

definition htobuf64 :: "bytes \<Rightarrow> nat \<Rightarrow> 64 word \<Rightarrow> bytes option" where
  "htobuf64 buf p b64 = mem_write buf p (raw_bytes b64)"

definition htobe16buf :: "bytes \<Rightarrow> nat \<Rightarrow> 16 word \<Rightarrow> bytes option" where
  "htobe16buf buf p big16 = htobuf16 buf p (htobe16 big16)"

definition htobe32buf :: "bytes \<Rightarrow> nat \<Rightarrow> 32 word \<Rightarrow> bytes option" where
  "htobe32buf buf p big32 = htobuf32 buf p (htobe32 big32)"

definition htobe64buf :: "bytes \<Rightarrow> nat \<Rightarrow> 64 word \<Rightarrow> bytes option" where
  "htobe64buf buf p big64 = htobuf64 buf p (htobe64 big64)"

section \<open>The loops compute the big-endian value\<close>

lemma fold_fill_rev:
  "k \<le> n \<Longrightarrow> fold (\<lambda>i bs. bs[n - Suc i := f i]) [0..<k] (replicate n z)
     = replicate (n - k) z @ rev (map f [0..<k])"
proof (induction k)
  case 0
  then show ?case by simp
next
  case (Suc k)
  then have "replicate (n - k) z = replicate (n - Suc k) z @ [z]"
    by (metis Suc_diff_Suc Suc_le_lessD replicate_Suc replicate_append_same)
  with Suc show ?case
    by (simp add: list_update_append)
qed

lemma byte_of_shift:
  "(ucast (drop_bit (8 * i) t) :: byte) = word_of_nat (unat (t :: 'a::len word) div 256 ^ i)"
proof -
  have "unat (drop_bit (8 * i) t) = unat t div 256 ^ i"
    unfolding unat_drop_bit_eq by (simp add: drop_bit_eq_div power_mult)
  then show ?thesis
    by (metis of_nat_unat)
qed

lemma BigEndian_assign_be_bytes [byte_simps]:
  "BigEndian_assign (t :: 'a::len word) = be_bytes (sizeof_t TYPE('a)) (unat t)"
  using fold_fill_rev [of "sizeof_t TYPE('a)" "sizeof_t TYPE('a)"
      "\<lambda>i. word_of_nat (unat t div 256 ^ i)" 0]
  by (simp add: BigEndian_assign_def be_bytes_def Let_def byte_of_shift)

lemma LittleEndian_assign_be_bytes [byte_simps]:
  "LittleEndian_assign (t :: 'a::len word) = be_bytes (sizeof_t TYPE('a)) (unat t)"
  using fold_fill_rev [of "sizeof_t TYPE('a)" "sizeof_t TYPE('a)"
      "\<lambda>i. word_of_nat (unat t div 256 ^ i)" 0]
  by (simp add: LittleEndian_assign_def be_bytes_def Let_def byte_of_shift)

lemma sizeof_words [simp]:
  "sizeof_t TYPE(16) = 2" "sizeof_t TYPE(32) = 4" "sizeof_t TYPE(64) = 8"
  by (simp_all add: sizeof_t_def)

lemma unat_raw_value:
  assumes "8 * length bs = LENGTH('a::len)"
  shows "unat (raw_value bs :: 'a word) = be_val (rev bs)"
proof -
  have "be_val (rev bs) < 2 ^ LENGTH('a)"
    using be_val_bound [of "rev bs"] assms by (simp add: power_mult flip: assms)
  then show ?thesis
    by (simp add: raw_value_def unat_of_nat)
qed

lemma raw_value_be16: "length bs = 2 \<Longrightarrow> be16toh (raw_value bs) = word_of_nat (be_val bs)"
  by (simp add: be16toh_def LittleEndian_assign_be_bytes unat_raw_value)
    (metis be_bytes_be_val length_rev raw_value_def rev_rev_ident)

lemma raw_value_be32: "length bs = 4 \<Longrightarrow> be32toh (raw_value bs) = word_of_nat (be_val bs)"
  by (simp add: be32toh_def LittleEndian_assign_be_bytes unat_raw_value)
    (metis be_bytes_be_val length_rev raw_value_def rev_rev_ident)

lemma raw_value_be64: "length bs = 8 \<Longrightarrow> be64toh (raw_value bs) = word_of_nat (be_val bs)"
  by (simp add: be64toh_def LittleEndian_assign_be_bytes unat_raw_value)
    (metis be_bytes_be_val length_rev raw_value_def rev_rev_ident)

lemma bufbe16toh_be_val [mem_simps]:
  "bufbe16toh buf p = map_option (\<lambda>bs. word_of_nat (be_val bs)) (mem_read buf p 2)"
  by (auto simp: bufbe16toh_def buf16toh_def mem_read_def raw_value_be16)

lemma bufbe32toh_be_val [mem_simps]:
  "bufbe32toh buf p = map_option (\<lambda>bs. word_of_nat (be_val bs)) (mem_read buf p 4)"
  by (auto simp: bufbe32toh_def buf32toh_def mem_read_def raw_value_be32)

lemma bufbe64toh_be_val [mem_simps]:
  "bufbe64toh buf p = map_option (\<lambda>bs. word_of_nat (be_val bs)) (mem_read buf p 8)"
  by (auto simp: bufbe64toh_def buf64toh_def mem_read_def raw_value_be64)

lemma raw_bytes_htobe:
  "raw_bytes (htobe16 a) = be_bytes 2 (unat a)"
  "raw_bytes (htobe32 b) = be_bytes 4 (unat b)"
  "raw_bytes (htobe64 c) = be_bytes 8 (unat c)"
  by (simp_all add: raw_bytes_def htobe16_def htobe32_def htobe64_def BigEndian_assign_be_bytes
      unat_raw_value)
    (metis be_bytes_be_val length_be_bytes length_rev rev_rev_ident)+

lemma htobe16buf_mem_write [mem_simps]: "htobe16buf buf p v = mem_write buf p (be_bytes 2 (unat v))"
  by (simp add: htobe16buf_def htobuf16_def raw_bytes_htobe)

lemma htobe32buf_mem_write [mem_simps]: "htobe32buf buf p v = mem_write buf p (be_bytes 4 (unat v))"
  by (simp add: htobe32buf_def htobuf32_def raw_bytes_htobe)

lemma htobe64buf_mem_write [mem_simps]: "htobe64buf buf p v = mem_write buf p (be_bytes 8 (unat v))"
  by (simp add: htobe64buf_def htobuf64_def raw_bytes_htobe)

text \<open>A value copied as it lies in memory (\<open>memcpy\<close> out, \<open>htobuf32\<close> in) keeps its bytes.\<close>

lemma raw_bytes_raw_value:
  assumes "8 * length bs = LENGTH('a::len)"
  shows "raw_bytes (raw_value bs :: 'a word) = bs"
proof -
  have "sizeof_t TYPE('a) = length (rev bs)"
    using assms by (simp add: sizeof_t_def flip: assms)
  then show ?thesis
    by (simp add: raw_bytes_def unat_raw_value [OF assms] be_bytes_be_val del: length_rev)
qed

text \<open>
  The wire value of a host integer reads back as that integer: the writers and the readers of
  \<open>I2PEndian.h\<close> are inverse on a buffer that holds the field.
\<close>

lemma word_be_bytes_id [byte_simps]:
  "word_of_nat (be_val (be_bytes 2 (unat a))) = (a :: 16 word)"
  "word_of_nat (be_val (be_bytes 4 (unat b))) = (b :: 32 word)"
  "word_of_nat (be_val (be_bytes 8 (unat c))) = (c :: 64 word)"
  using unsigned_less [of a, where 'a = nat] unsigned_less [of b, where 'a = nat]
    unsigned_less [of c, where 'a = nat]
  by (simp_all add: be_val_be_bytes)

text \<open>
  C14: what the writers \<open>htobe16buf\<close>, \<open>htobe32buf\<close> and \<open>htobe64buf\<close> store in network order, the
  readers \<open>bufbe16toh\<close>, \<open>bufbe32toh\<close> and \<open>bufbe64toh\<close> return, at every position where the field
  lies inside the buffer; elsewhere the write leaves the buffer.
\<close>

theorem network_order_read_back:
  "Option.bind (htobe16buf b p v16) (\<lambda>b'. bufbe16toh b' p) =
     (if p + 2 \<le> length b then Some v16 else None) \<and>
   Option.bind (htobe32buf b p v32) (\<lambda>b'. bufbe32toh b' p) =
     (if p + 4 \<le> length b then Some v32 else None) \<and>
   Option.bind (htobe64buf b p v64) (\<lambda>b'. bufbe64toh b' p) =
     (if p + 8 \<le> length b then Some v64 else None)"
  by (auto simp: htobe16buf_mem_write htobe32buf_mem_write htobe64buf_mem_write bufbe16toh_be_val
      bufbe32toh_be_val bufbe64toh_be_val mem_write_def mem_read_def byte_simps)

end
