(* ===== verification/Crypto_ElGamal.thy ===== *)
theory Crypto_ElGamal
  imports Util_Endian
begin

text \<open>
  \<open>src/core/crypto/ElGamal.h\<close> and \<open>HMAC.h\<close>: the public key encryption of build records and garlic
  session keys, and the MAC of SSU packets.

  CryptoPP's \<open>Integer\<close> is a natural number, \<open>Encode\<close> its big-endian bytes, \<open>a_exp_b_mod_c\<close> the
  modular power. The group \<open>elgp\<close>, \<open>elgg\<close> is the parameter \<open>dh_group\<close>; \<open>dh_ok\<close> is what is known of
  the 2048-bit group of the code: \<open>p\<close> has 2048 bits, and \<open>g\<close> to the power \<open>p - 1\<close> is 1 modulo \<open>p\<close>
  (Fermat's theorem for the prime \<open>p\<close>). SHA-256 and MD5 are parameters.
\<close>

section \<open>ElGamal\<close>

record dh_group =
  dh_p :: nat
  dh_g :: nat

definition dh_ok :: "dh_group \<Rightarrow> bool" where
  "dh_ok dh \<longleftrightarrow> 256 ^ 255 < dh_p dh \<and> dh_p dh < 256 ^ 256 \<and> dh_g dh ^ (dh_p dh - 1) mod dh_p dh = 1"

definition a_exp_b_mod_c :: "nat \<Rightarrow> nat \<Rightarrow> nat \<Rightarrow> nat" where
  "a_exp_b_mod_c a b c = a ^ b mod c"

text \<open>The private key \<open>priv\<close> gives the public key \<open>elgg ^ priv mod elgp\<close>.\<close>

definition GenerateElGamalKeyPair :: "dh_group \<Rightarrow> bytes \<Rightarrow> bytes \<times> bytes" where
  "GenerateElGamalKeyPair dh priv =
     (priv, be_bytes 256 (a_exp_b_mod_c (dh_g dh) (be_val priv) (dh_p dh)))"

record ElGamalEncryption =
  elg_a :: nat
  elg_b1 :: nat

definition ElGamalEncryption_new :: "dh_group \<Rightarrow> nat \<Rightarrow> bytes \<Rightarrow> ElGamalEncryption" where
  "ElGamalEncryption_new dh k key =
     (let y = be_val key in
      \<lparr>elg_a = a_exp_b_mod_c (dh_g dh) k (dh_p dh), elg_b1 = a_exp_b_mod_c y k (dh_p dh)\<rparr>)"

text \<open>
  The message \<open>m\<close> has 255 bytes: 0xFF, the digest, and 222 bytes of data. \<open>rest\<close> are the bytes of
  the local array behind \<open>data\<close>, which the code leaves as they are.
\<close>

definition ElGamalEncrypt ::
    "dh_group \<Rightarrow> (bytes \<Rightarrow> bytes) \<Rightarrow> ElGamalEncryption \<Rightarrow> bytes \<Rightarrow> bytes \<Rightarrow> bool \<Rightarrow> bytes" where
  "ElGamalEncrypt dh sha enc data rest zeroPadding =
     (let body = take 222 (data @ rest);
          m = [0xFF] @ sha body @ body;
          b = elg_b1 enc * be_val m mod dh_p dh
      in if zeroPadding then [0] @ be_bytes 256 (elg_a enc) @ [0] @ be_bytes 256 b
         else be_bytes 256 (elg_a enc) @ be_bytes 256 b)"

definition ElGamalDecrypt ::
    "dh_group \<Rightarrow> (bytes \<Rightarrow> bytes) \<Rightarrow> bytes \<Rightarrow> bytes \<Rightarrow> bool \<Rightarrow> bytes option" where
  "ElGamalDecrypt dh sha key encrypted zeroPadding =
     (let x = be_val key;
          a = be_val (take 256 (drop (if zeroPadding then 1 else 0) encrypted));
          b = be_val (take 256 (drop (if zeroPadding then 258 else 256) encrypted));
          m = be_bytes 255 (b * a_exp_b_mod_c a (dh_p dh - x - 1) (dh_p dh) mod dh_p dh)
      in if take 32 (drop 1 m) \<noteq> sha (drop 33 m) then None else Some (drop 33 m))"

lemma be_val_append: "be_val (xs @ ys) = be_val xs * 256 ^ length ys + be_val ys"
proof (induction ys rule: rev_induct)
  case Nil
  then show ?case by simp
next
  case (snoc y ys)
  have "be_val (xs @ ys @ [y]) = be_val (xs @ ys) * 256 + unat y"
    using be_val_snoc [of "xs @ ys" y] by simp
  with snoc show ?case by (simp add: be_val_snoc algebra_simps)
qed

text \<open>The blinding cancels: \<open>y^k * (g^k)^(p - 1 - x) = 1\<close> for \<open>y = g^x\<close>.\<close>

lemma elgamal_cancel:
  assumes dh: "dh_ok dh" and x: "x < dh_p dh" and m: "m < dh_p dh"
  defines "p \<equiv> dh_p dh" and "g \<equiv> dh_g dh"
  shows "(g ^ x mod p) ^ k mod p * m mod p * ((g ^ k mod p) ^ (p - x - 1) mod p) mod p = m"
proof -
  have p1: "g ^ (p - 1) mod p = 1" and p0: "0 < p"
    using dh by (auto simp: dh_ok_def p_def g_def)
  have "x + (p - x - 1) = p - 1" using x by (simp add: p_def)
  then have e: "x * k + k * (p - x - 1) = (p - 1) * k"
    by (metis add_mult_distrib mult.commute)
  have "(g ^ x mod p) ^ k mod p * m mod p * ((g ^ k mod p) ^ (p - x - 1) mod p) mod p
      = ((g ^ x) ^ k * m * ((g ^ k) ^ (p - x - 1))) mod p"
    by (simp add: mod_simps power_mod)
  also have "\<dots> = (m * g ^ ((p - 1) * k)) mod p"
    unfolding e [symmetric] power_add power_mult by (simp only: ac_simps)
  also have "\<dots> = (m * ((g ^ (p - 1)) ^ k mod p)) mod p"
    by (simp only: power_mult mod_mult_right_eq)
  also have "\<dots> = (m * ((g ^ (p - 1) mod p) ^ k mod p)) mod p"
    by (simp only: power_mod)
  also have "\<dots> = m" unfolding p1 using m by (simp add: p_def)
  finally show ?thesis .
qed

lemma elgamal_round_trip:
  assumes dh: "dh_ok dh" and sha: "\<forall>x. length (sha x) = 32"
    and key: "be_val priv < dh_p dh" and body: "222 \<le> length (data @ rest)"
  shows "ElGamalDecrypt dh sha priv (ElGamalEncrypt dh sha
      (ElGamalEncryption_new dh k (snd (GenerateElGamalKeyPair dh priv))) data rest zp) zp
    = Some (take 222 (data @ rest))"
proof -
  let ?p = "dh_p dh" and ?g = "dh_g dh" and ?x = "be_val priv"
  define bd where "bd = take 222 (data @ rest)"
  define m where "m = [0xFF] @ sha bd @ bd"
  have lb: "length bd = 222" using body by (simp add: bd_def)
  have lm: "length m = 255" using sha lb by (simp add: m_def)
  have p: "256 ^ 255 < ?p" "?p < 256 ^ 256" using dh by (auto simp: dh_ok_def)
  have mp: "be_val m < ?p" using be_val_bound [of m] p lm by simp
  have p0: "0 < ?p" using p(1) by linarith
  have enc: "be_val (be_bytes 256 (v mod ?p)) = v mod ?p" for v
  proof -
    have "v mod ?p < 256 ^ 256" using mod_less_divisor [OF p0, of v] p(2) by linarith
    then show ?thesis by (simp only: be_val_be_bytes mod_less)
  qed
  let ?y = "?g ^ ?x mod ?p"
  let ?b = "?y ^ k mod ?p * be_val m mod ?p" and ?a = "?g ^ k mod ?p"
  have e: "ElGamalEncrypt dh sha (ElGamalEncryption_new dh k (snd (GenerateElGamalKeyPair dh priv))) data rest zp =
      (if zp then [0] @ be_bytes 256 ?a @ [0] @ be_bytes 256 ?b else be_bytes 256 ?a @ be_bytes 256 ?b)"
    by (simp add: ElGamalEncrypt_def ElGamalEncryption_new_def GenerateElGamalKeyPair_def Let_def enc
        a_exp_b_mod_c_def m_def bd_def)
  have c: "?b * (?a ^ (?p - ?x - 1) mod ?p) mod ?p = be_val m"
    by (rule elgamal_cancel [OF dh key mp])
  have d: "be_bytes 255 (be_val m) = m" using be_bytes_be_val [of m] lm by simp
  have s: "take 32 (drop 1 m) = sha bd" "drop 33 m = bd"
    using sha by (simp_all add: m_def)
  have "ElGamalDecrypt dh sha priv (if zp then [0] @ be_bytes 256 ?a @ [0] @ be_bytes 256 ?b
      else be_bytes 256 ?a @ be_bytes 256 ?b) zp = Some bd"
    using s by (cases zp) (simp_all add: ElGamalDecrypt_def Let_def a_exp_b_mod_c_def enc c [simplified] d)
  then show ?thesis unfolding e bd_def .
qed

section \<open>HMACMD5Digest\<close>

text \<open>
  The 64-bit words of \<open>IPAD\<close> and \<open>OPAD\<close> are XORed as they lie in memory, so byte by byte. The
  local buffer has 256 words: a message longer than 1984 bytes does not fit.
\<close>

definition IPAD :: byte where "IPAD = 0x36"
definition OPAD :: byte where "OPAD = 0x5C"

definition HMACMD5Digest :: "(bytes \<Rightarrow> bytes) \<Rightarrow> bytes \<Rightarrow> bytes \<Rightarrow> bytes option" where
  "HMACMD5Digest md5 msg key = do {
     let buf = replicate 2048 0;
     buf \<leftarrow> mem_write buf 0 (map ((XOR) IPAD) key);
     buf \<leftarrow> mem_write buf 32 (replicate 32 IPAD);
     buf \<leftarrow> mem_write buf 64 msg;
     inp \<leftarrow> mem_read buf 0 (length msg + 64);
     let hash = md5 inp;
     buf \<leftarrow> mem_write buf 0 (map ((XOR) OPAD) key);
     buf \<leftarrow> mem_write buf 32 (replicate 32 OPAD);
     buf \<leftarrow> mem_write buf 64 hash;
     buf \<leftarrow> mem_write buf 80 (replicate 16 0);
     inp \<leftarrow> mem_read buf 0 96;
     Some (md5 inp)
   }"

lemma HMACMD5Digest_eq:
  assumes "length key = 32" and md5: "\<forall>x. length (md5 x) = 16"
  shows "HMACMD5Digest md5 msg key = (if length msg \<le> 1984 then Some (md5
      (map ((XOR) OPAD) key @ replicate 32 OPAD @ md5 (map ((XOR) IPAD) key @ replicate 32 IPAD @ msg) @
       replicate 16 0)) else None)"
proof (cases "length msg \<le> 1984")
  case False
  then show ?thesis using assms by (auto simp: HMACMD5Digest_def Let_def mem_write_def)
next
  case True
  let ?z = "replicate 2048 (0 :: byte)"
  let ?i = "map ((XOR) IPAD) key @ replicate 32 IPAD @ msg"
  let ?o = "map ((XOR) OPAD) key @ replicate 32 OPAD @ md5 ?i @ replicate 16 0"
  have i: "length ?i = length msg + 64" and o: "length ?o = 96" using assms by simp_all
  define b1 where "b1 = patch ?z 0 ?i"
  define b2 where "b2 = patch b1 0 ?o"
  have l1: "length b1 = 2048" using i True by (simp add: b1_def)
  have r1: "mem_read b1 0 (length msg + 64) = Some ?i"
    using window_patch_same [of 0 ?i ?z "length msg + 64"] i True l1
    by (simp add: mem_read_window b1_def)
  have r2: "mem_read b2 0 96 = Some ?o"
    using window_patch_same [of 0 ?o b1 96] o l1 by (simp add: mem_read_window b2_def)
  have w: "do { buf \<leftarrow> mem_write ?z 0 (map ((XOR) IPAD) key); buf \<leftarrow> mem_write buf 32 (replicate 32 IPAD);
      mem_write buf 64 msg } = Some b1"
    using assms True by (simp add: mem_write_patch patch_patch b1_def)
  have w2: "do { buf \<leftarrow> mem_write b1 0 (map ((XOR) OPAD) key); buf \<leftarrow> mem_write buf 32 (replicate 32 OPAD);
      buf \<leftarrow> mem_write buf 64 (md5 ?i); mem_write buf 80 (replicate 16 0) } = Some b2"
    using assms l1 by (simp add: mem_write_patch patch_patch b2_def)
  have split1: "(do { buf \<leftarrow> mem_write ?z 0 (map ((XOR) IPAD) key); buf \<leftarrow> mem_write buf 32 (replicate 32 IPAD);
      buf \<leftarrow> mem_write buf 64 msg; f buf }) = f b1" for f :: "bytes \<Rightarrow> bytes option"
    using w by (auto split: bind_splits)
  have split2: "(do { buf \<leftarrow> mem_write b1 0 (map ((XOR) OPAD) key); buf \<leftarrow> mem_write buf 32 (replicate 32 OPAD);
      buf \<leftarrow> mem_write buf 64 (md5 ?i); buf \<leftarrow> mem_write buf 80 (replicate 16 0); f buf }) = f b2"
    for f :: "bytes \<Rightarrow> bytes option"
    using w2 by (auto split: bind_splits)
  show ?thesis
    using True r1 r2 by (simp add: HMACMD5Digest_def Let_def split1 split2)
qed

section \<open>Properties\<close>

definition sample_dh :: dh_group where
  "sample_dh = \<lparr>dh_p = 256 ^ 255 + 1, dh_g = 256 ^ 255\<rparr>"

lemma square_minus_1:
  assumes "0 < (n :: nat)"
  shows "n * n mod (n + 1) = 1"
proof -
  obtain k where k: "n = Suc k" using assms by (cases n) auto
  have "n * n = 1 + k * (n + 1)" by (simp add: k)
  then have "n * n mod (n + 1) = (1 + k * (n + 1)) mod (n + 1)" by (simp only:)
  also have "\<dots> = 1" using assms by (simp only: mod_mult_self1) simp
  finally show ?thesis .
qed

lemma even_power_minus_1:
  assumes "n = 2 * h" and "0 < (n :: nat)"
  shows "n ^ n mod (n + 1) = 1"
proof -
  have "n ^ n = (n * n) ^ h" using assms(1) by (metis power2_eq_square power_mult)
  then have "n ^ n mod (n + 1) = (n * n mod (n + 1)) ^ h mod (n + 1)" by (simp only: power_mod)
  then show ?thesis using assms by (simp only: square_minus_1 power_one) simp
qed

lemma dh_ok_minus_1: "n = 2 * h \<Longrightarrow> 256 ^ 255 \<le> n \<Longrightarrow> n + 1 < 256 ^ 256 \<Longrightarrow> dh_ok \<lparr>dh_p = n + 1, dh_g = n\<rparr>"
  using even_power_minus_1 [of n h] zero_less_power [of "256 :: nat" 255]
  unfolding dh_ok_def dh_group.simps add_diff_cancel_right' by linarith

lemma sample_dh_ok: "dh_ok sample_dh"
  unfolding sample_dh_def
proof (rule dh_ok_minus_1)
  show "(256 :: nat) ^ 255 = 2 * (128 * 256 ^ 254)"
    using power_Suc [of "256 :: nat" 254] by simp
  show "(256 :: nat) ^ 255 + 1 < 256 ^ 256"
    using power_Suc [of "256 :: nat" 255] power_increasing [of 1 255 "256 :: nat"] by simp
qed simp



text \<open>
  C19: \<open>HMACMD5Digest\<close> is the keyed MD5 of I2P, with the inner digest padded by 16 zero bytes, for
  every message that fits its buffer; a longer one (more than 1984 bytes) overflows it.
\<close>

theorem HMACMD5Digest_spec:
  assumes "length key = 32" and "\<forall>x. length (md5 x) = 16"
  shows "HMACMD5Digest md5 msg key = (if length msg \<le> 1984 then Some (md5
      (map ((XOR) OPAD) key @ replicate 32 OPAD @ md5 (map ((XOR) IPAD) key @ replicate 32 IPAD @ msg) @
       replicate 16 0)) else None)"
  by (rule HMACMD5Digest_eq [OF assms])

theorem HMACMD5Digest_spec_witness:
  "HMACMD5Digest (\<lambda>_. replicate 16 3) [1, 2] (replicate 32 9) = Some (replicate 16 3)"
  using HMACMD5Digest_spec [of "replicate 32 9" "\<lambda>_. replicate 16 3" "[1, 2]"] by simp

end
