(* ===== verification/I2NP_Message.thy ===== *)
theory I2NP_Message
  imports Util_Endian
begin

text \<open>
  \<open>src/core/I2NPProtocol.h\<close> and the message constructors of \<open>I2NPProtocol.cpp\<close>.

  An \<open>I2NPMessage\<close> is a window \<open>offset .. len\<close> of a buffer: 16 bytes of header, then the payload.
  \<open>msg_base\<close> is the address of the buffer, on which \<open>Align\<close> depends. Reads and writes are checked:
  a constructor that returns \<^term>\<open>None\<close> has left its buffer. The random generator, the clock,
  SHA-256 and Gzip (CryptoPP) are parameters.
\<close>

named_theorems i2np_consts \<open>sizes, offsets and message types\<close>
named_theorems msg_defs \<open>accessors of I2NPMessage\<close>

section \<open>Constants\<close>

definition I2NP_HEADER_TYPEID_OFFSET :: nat where [i2np_consts]: "I2NP_HEADER_TYPEID_OFFSET = 0"
definition I2NP_HEADER_MSGID_OFFSET :: nat where [i2np_consts]:
  "I2NP_HEADER_MSGID_OFFSET = I2NP_HEADER_TYPEID_OFFSET + 1"
definition I2NP_HEADER_EXPIRATION_OFFSET :: nat where [i2np_consts]:
  "I2NP_HEADER_EXPIRATION_OFFSET = I2NP_HEADER_MSGID_OFFSET + 4"
definition I2NP_HEADER_SIZE_OFFSET :: nat where [i2np_consts]:
  "I2NP_HEADER_SIZE_OFFSET = I2NP_HEADER_EXPIRATION_OFFSET + 8"
definition I2NP_HEADER_CHKS_OFFSET :: nat where [i2np_consts]:
  "I2NP_HEADER_CHKS_OFFSET = I2NP_HEADER_SIZE_OFFSET + 2"
definition I2NP_HEADER_SIZE :: nat where [i2np_consts]:
  "I2NP_HEADER_SIZE = I2NP_HEADER_CHKS_OFFSET + 1"
definition I2NP_SHORT_HEADER_SIZE :: nat where [i2np_consts]: "I2NP_SHORT_HEADER_SIZE = 5"
definition TUNNEL_GATEWAY_HEADER_SIZE :: nat where [i2np_consts]: "TUNNEL_GATEWAY_HEADER_SIZE = 6"
definition DELIVERY_STATUS_SIZE :: nat where [i2np_consts]: "DELIVERY_STATUS_SIZE = 12"
definition DATABASE_STORE_HEADER_SIZE :: nat where [i2np_consts]: "DATABASE_STORE_HEADER_SIZE = 37"
definition I2NP_MAX_MESSAGE_SIZE :: nat where [i2np_consts]: "I2NP_MAX_MESSAGE_SIZE = 32768"
definition I2NP_MAX_SHORT_MESSAGE_SIZE :: nat where [i2np_consts]:
  "I2NP_MAX_SHORT_MESSAGE_SIZE = 4096"
definition TUNNEL_DATA_MSG_SIZE :: nat where [i2np_consts]: "TUNNEL_DATA_MSG_SIZE = 1028"
definition TUNNEL_DATA_ENCRYPTED_SIZE :: nat where [i2np_consts]: "TUNNEL_DATA_ENCRYPTED_SIZE = 1008"
definition TUNNEL_DATA_MAX_PAYLOAD_SIZE :: nat where [i2np_consts]:
  "TUNNEL_DATA_MAX_PAYLOAD_SIZE = 1003"

text \<open>The values of \<open>enum I2NPMessageType\<close>, as the byte \<open>SetTypeID\<close> stores.\<close>

definition eI2NPDatabaseStore :: byte where [i2np_consts]: "eI2NPDatabaseStore = 1"
definition eI2NPDatabaseLookup :: byte where [i2np_consts]: "eI2NPDatabaseLookup = 2"
definition eI2NPDatabaseSearchReply :: byte where [i2np_consts]: "eI2NPDatabaseSearchReply = 3"
definition eI2NPDeliveryStatus :: byte where [i2np_consts]: "eI2NPDeliveryStatus = 10"
definition eI2NPGarlic :: byte where [i2np_consts]: "eI2NPGarlic = 11"
definition eI2NPTunnelData :: byte where [i2np_consts]: "eI2NPTunnelData = 18"
definition eI2NPTunnelGateway :: byte where [i2np_consts]: "eI2NPTunnelGateway = 19"
definition eI2NPData :: byte where [i2np_consts]: "eI2NPData = 20"
definition eI2NPTunnelBuild :: byte where [i2np_consts]: "eI2NPTunnelBuild = 21"
definition eI2NPTunnelBuildReply :: byte where [i2np_consts]: "eI2NPTunnelBuildReply = 22"
definition eI2NPVariableTunnelBuild :: byte where [i2np_consts]: "eI2NPVariableTunnelBuild = 23"
definition eI2NPVariableTunnelBuildReply :: byte where [i2np_consts]:
  "eI2NPVariableTunnelBuildReply = 24"

definition DATABASE_LOOKUP_DELIVERY_FLAG :: byte where [i2np_consts]:
  "DATABASE_LOOKUP_DELIVERY_FLAG = 0x01"
definition DATABASE_LOOKUP_ENCYPTION_FLAG :: byte where [i2np_consts]:
  "DATABASE_LOOKUP_ENCYPTION_FLAG = 0x02"
definition DATABASE_LOOKUP_TYPE_LEASESET_LOOKUP :: byte where [i2np_consts]:
  "DATABASE_LOOKUP_TYPE_LEASESET_LOOKUP = 0x04"
definition DATABASE_LOOKUP_TYPE_ROUTERINFO_LOOKUP :: byte where [i2np_consts]:
  "DATABASE_LOOKUP_TYPE_ROUTERINFO_LOOKUP = 0x08"
definition DATABASE_LOOKUP_TYPE_EXPLORATORY_LOOKUP :: byte where [i2np_consts]:
  "DATABASE_LOOKUP_TYPE_EXPLORATORY_LOOKUP = 0x0C"

section \<open>struct I2NPMessage\<close>

record i2np_msg =
  msg_buf :: bytes
  msg_base :: nat
  msg_len :: nat
  msg_offset :: nat
  msg_maxLen :: nat
  msg_from :: "nat option"

text \<open>What the message code takes from CryptoPP and the clock.\<close>

record i2np_env =
  env_now_ms :: "64 word"
  env_sha256 :: "bytes \<Rightarrow> bytes"
  env_gzip :: "bytes \<Rightarrow> bytes"

definition put_at :: "i2np_msg \<Rightarrow> nat \<Rightarrow> bytes \<Rightarrow> i2np_msg option" where [msg_defs]:
  "put_at m off bs = map_option (\<lambda>b. m\<lparr>msg_buf := b\<rparr>) (mem_write (msg_buf m) off bs)"

text \<open>\<open>GetBuffer()\<close> and \<open>GetPayload()\<close> are pointers: here the index into the buffer.\<close>

definition GetBuffer :: "i2np_msg \<Rightarrow> nat" where [msg_defs]: "GetBuffer m = msg_offset m"
definition GetPayload :: "i2np_msg \<Rightarrow> nat" where [msg_defs]:
  "GetPayload m = GetBuffer m + I2NP_HEADER_SIZE"
definition GetLength :: "i2np_msg \<Rightarrow> nat" where [msg_defs]:
  "GetLength m = size_sub (msg_len m) (msg_offset m)"
definition GetPayloadLength :: "i2np_msg \<Rightarrow> nat" where [msg_defs]:
  "GetPayloadLength m = size_sub (GetLength m) I2NP_HEADER_SIZE"

definition SetTypeID :: "i2np_msg \<Rightarrow> byte \<Rightarrow> i2np_msg option" where [msg_defs]:
  "SetTypeID m typeID = put_at m (GetBuffer m + I2NP_HEADER_TYPEID_OFFSET) [typeID]"

definition GetTypeID :: "i2np_msg \<Rightarrow> byte option" where [msg_defs]:
  "GetTypeID m = map_option hd (mem_read (msg_buf m) (GetBuffer m + I2NP_HEADER_TYPEID_OFFSET) 1)"

definition SetMsgID :: "i2np_msg \<Rightarrow> 32 word \<Rightarrow> i2np_msg option" where [msg_defs]:
  "SetMsgID m msgID = map_option (\<lambda>b. m\<lparr>msg_buf := b\<rparr>)
     (htobe32buf (msg_buf m) (GetBuffer m + I2NP_HEADER_MSGID_OFFSET) msgID)"

definition GetMsgID :: "i2np_msg \<Rightarrow> 32 word option" where [msg_defs]:
  "GetMsgID m = bufbe32toh (msg_buf m) (GetBuffer m + I2NP_HEADER_MSGID_OFFSET)"

definition SetExpiration :: "i2np_msg \<Rightarrow> 64 word \<Rightarrow> i2np_msg option" where [msg_defs]:
  "SetExpiration m expiration = map_option (\<lambda>b. m\<lparr>msg_buf := b\<rparr>)
     (htobe64buf (msg_buf m) (GetBuffer m + I2NP_HEADER_EXPIRATION_OFFSET) expiration)"

definition GetExpiration :: "i2np_msg \<Rightarrow> 64 word option" where [msg_defs]:
  "GetExpiration m = bufbe64toh (msg_buf m) (GetBuffer m + I2NP_HEADER_EXPIRATION_OFFSET)"

definition SetSize :: "i2np_msg \<Rightarrow> 16 word \<Rightarrow> i2np_msg option" where [msg_defs]:
  "SetSize m sz = map_option (\<lambda>b. m\<lparr>msg_buf := b\<rparr>)
     (htobe16buf (msg_buf m) (GetBuffer m + I2NP_HEADER_SIZE_OFFSET) sz)"

definition GetSize :: "i2np_msg \<Rightarrow> 16 word option" where [msg_defs]:
  "GetSize m = bufbe16toh (msg_buf m) (GetBuffer m + I2NP_HEADER_SIZE_OFFSET)"

definition UpdateSize :: "i2np_msg \<Rightarrow> i2np_msg option" where [msg_defs]:
  "UpdateSize m = SetSize m (word_of_nat (GetPayloadLength m))"

definition SetChks :: "i2np_msg \<Rightarrow> byte \<Rightarrow> i2np_msg option" where [msg_defs]:
  "SetChks m chks = put_at m (GetBuffer m + I2NP_HEADER_CHKS_OFFSET) [chks]"

definition UpdateChks :: "i2np_env \<Rightarrow> i2np_msg \<Rightarrow> i2np_msg option" where [msg_defs]:
  "UpdateChks env m = do {
     p \<leftarrow> mem_read (msg_buf m) (GetPayload m) (GetPayloadLength m);
     SetChks m (hd (env_sha256 env p))
   }"

text \<open>\<open>Align\<close> looks at the address of \<open>GetBuffer()\<close>.\<close>

definition Align :: "i2np_msg \<Rightarrow> nat \<Rightarrow> i2np_msg" where
  "Align m alignment =
     (if msg_len m + alignment > msg_maxLen m then m
      else let r = (msg_base m + msg_offset m) mod alignment in
        if r \<noteq> 0
        then m\<lparr>msg_offset := msg_offset m + (alignment - r), msg_len := msg_len m + (alignment - r)\<rparr>
        else m)"

text \<open>\<open>operator=\<close> copies the window to the target's own offset, and \<open>from\<close> and \<open>maxLen\<close> with it.\<close>

definition msg_assign :: "i2np_msg \<Rightarrow> i2np_msg \<Rightarrow> i2np_msg option" where
  "msg_assign this other = do {
     src \<leftarrow> mem_read (msg_buf other) (msg_offset other) (GetLength other);
     b \<leftarrow> mem_write (msg_buf this) (msg_offset this) src;
     Some (this\<lparr>msg_buf := b, msg_len := msg_offset this + GetLength other,
       msg_from := msg_from other, msg_maxLen := msg_maxLen other\<rparr>)
   }"

definition GetSSUHeader :: "i2np_msg \<Rightarrow> nat" where [msg_defs]:
  "GetSSUHeader m = msg_offset m + I2NP_HEADER_SIZE - I2NP_SHORT_HEADER_SIZE"

definition FromSSU :: "i2np_msg \<Rightarrow> 32 word \<Rightarrow> i2np_msg option" where
  "FromSSU m msgID = do {
     t \<leftarrow> mem_read (msg_buf m) (GetSSUHeader m) 1;
     m \<leftarrow> put_at m (GetBuffer m + I2NP_HEADER_TYPEID_OFFSET) t;
     m \<leftarrow> SetMsgID m msgID;
     e \<leftarrow> bufbe32toh (msg_buf m) (GetSSUHeader m + 1);
     m \<leftarrow> SetExpiration m (ucast e * 1000);
     m \<leftarrow> SetSize m (word_of_nat (size_sub (size_sub (msg_len m) (msg_offset m)) I2NP_HEADER_SIZE));
     SetChks m 0
   }"

definition ToSSU :: "i2np_msg \<Rightarrow> (i2np_msg \<times> 32 word) option" where
  "ToSSU m = do {
     header \<leftarrow> mem_read (msg_buf m) (GetBuffer m) I2NP_HEADER_SIZE;
     m \<leftarrow> put_at m (GetSSUHeader m) [header ! I2NP_HEADER_TYPEID_OFFSET];
     e \<leftarrow> bufbe64toh header I2NP_HEADER_EXPIRATION_OFFSET;
     b \<leftarrow> htobe32buf (msg_buf m) (GetSSUHeader m + 1) (ucast (e div 1000));
     sz \<leftarrow> bufbe16toh header I2NP_HEADER_SIZE_OFFSET;
     msgID \<leftarrow> bufbe32toh header I2NP_HEADER_MSGID_OFFSET;
     Some (m\<lparr>msg_buf := b, msg_len := msg_offset m + I2NP_SHORT_HEADER_SIZE + unat sz\<rparr>, msgID)
   }"

definition FillI2NPMessageHeader ::
    "i2np_env \<Rightarrow> 32 word \<Rightarrow> i2np_msg \<Rightarrow> byte \<Rightarrow> 32 word \<Rightarrow> i2np_msg option" where
  "FillI2NPMessageHeader env rnd m msgType replyMsgID = do {
     m \<leftarrow> SetTypeID m msgType;
     m \<leftarrow> (if replyMsgID \<noteq> 0 then SetMsgID m replyMsgID else SetMsgID m rnd);
     m \<leftarrow> SetExpiration m (env_now_ms env + 5000);
     m \<leftarrow> UpdateSize m;
     UpdateChks env m
   }"

definition RenewI2NPMessageHeader ::
    "i2np_env \<Rightarrow> 32 word \<Rightarrow> i2np_msg \<Rightarrow> i2np_msg option" where
  "RenewI2NPMessageHeader env rnd m = do {
     m \<leftarrow> SetMsgID m rnd;
     SetExpiration m (env_now_ms env + 5000)
   }"

section \<open>Allocation\<close>

text \<open>\<open>I2NPMessageBuffer<SZ>\<close> holds \<open>SZ + 16\<close> zero bytes and reserves 2 for the NTCP header.\<close>

definition I2NPMessageBuffer :: "nat \<Rightarrow> nat \<Rightarrow> i2np_msg" where
  "I2NPMessageBuffer SZ addr = \<lparr>msg_buf = replicate (SZ + 16) 0, msg_base = addr,
     msg_len = I2NP_HEADER_SIZE + 2, msg_offset = 2, msg_maxLen = SZ, msg_from = None\<rparr>"

definition NewI2NPMessage :: "nat \<Rightarrow> i2np_msg" where
  "NewI2NPMessage addr = I2NPMessageBuffer I2NP_MAX_MESSAGE_SIZE addr"

definition NewI2NPShortMessage :: "nat \<Rightarrow> i2np_msg" where
  "NewI2NPShortMessage addr = I2NPMessageBuffer I2NP_MAX_SHORT_MESSAGE_SIZE addr"

definition NewI2NPMessage_len :: "nat \<Rightarrow> nat \<Rightarrow> i2np_msg" where
  "NewI2NPMessage_len addr len = (if len < I2NP_MAX_SHORT_MESSAGE_SIZE div 2
     then NewI2NPShortMessage addr else NewI2NPMessage addr)"

section \<open>Header lemmas\<close>

text \<open>A message whose window lies inside its buffer, and the bytes it carries.\<close>

definition msg_ok :: "i2np_msg \<Rightarrow> bool" where
  "msg_ok m \<longleftrightarrow> msg_offset m \<le> msg_len m \<and> msg_len m \<le> length (msg_buf m)"

definition has_header :: "i2np_msg \<Rightarrow> bool" where
  "has_header m \<longleftrightarrow> msg_offset m + I2NP_HEADER_SIZE \<le> msg_len m \<and> msg_len m \<le> length (msg_buf m)"

definition msg_content :: "i2np_msg \<Rightarrow> bytes" where
  "msg_content m = window (msg_buf m) (msg_offset m) (msg_len m - msg_offset m)"

definition msg_payload :: "i2np_msg \<Rightarrow> bytes" where
  "msg_payload m = window (msg_buf m) (msg_offset m + I2NP_HEADER_SIZE)
     (msg_len m - msg_offset m - I2NP_HEADER_SIZE)"

definition i2np_header :: "byte \<Rightarrow> 32 word \<Rightarrow> 64 word \<Rightarrow> 16 word \<Rightarrow> byte \<Rightarrow> bytes" where
  "i2np_header t mid e sz ck =
     [t] @ be_bytes 4 (unat mid) @ be_bytes 8 (unat e) @ be_bytes 2 (unat sz) @ [ck]"

lemma length_i2np_header [simp]: "length (i2np_header t mid e sz ck) = 16"
  by (simp add: i2np_header_def)

lemmas i2np_sizes = I2NP_HEADER_SIZE_def I2NP_HEADER_CHKS_OFFSET_def I2NP_HEADER_SIZE_OFFSET_def
  I2NP_HEADER_EXPIRATION_OFFSET_def I2NP_HEADER_MSGID_OFFSET_def I2NP_HEADER_TYPEID_OFFSET_def

lemma I2NP_HEADER_SIZE_16 [simp]: "I2NP_HEADER_SIZE = 16"
  by (simp add: i2np_sizes)

lemma has_header_ok: "has_header m \<Longrightarrow> msg_ok m"
  by (simp add: has_header_def msg_ok_def)

lemma msg_content_header_payload:
  "has_header m \<Longrightarrow> msg_content m = window (msg_buf m) (msg_offset m) 16 @ msg_payload m"
  by (auto simp: has_header_def msg_content_def msg_payload_def simp flip: window_add)

lemma map_option_bind: "map_option f x = Option.bind x (\<lambda>y. Some (f y))"
  by (cases x) auto

text \<open>The five setters of the header write adjacent fields: together one write of the header.\<close>

lemma write_header_chain:
  "mem_write b p (i2np_header t mid e sz ck) =
     do { b \<leftarrow> mem_write b p [t]; b \<leftarrow> mem_write b (p + 1) (be_bytes 4 (unat mid));
          b \<leftarrow> mem_write b (p + 5) (be_bytes 8 (unat e));
          b \<leftarrow> mem_write b (p + 13) (be_bytes 2 (unat sz)); mem_write b (p + 15) [ck] }"
  by (simp only: i2np_header_def mem_write_split)
    (simp add: Option.bind_assoc add.commute)

lemma setters_write:
  "SetTypeID m t = map_option (\<lambda>b. m\<lparr>msg_buf := b\<rparr>) (mem_write (msg_buf m) (msg_offset m) [t])"
  "SetMsgID m mid = map_option (\<lambda>b. m\<lparr>msg_buf := b\<rparr>)
     (mem_write (msg_buf m) (msg_offset m + 1) (be_bytes 4 (unat mid)))"
  "SetExpiration m e = map_option (\<lambda>b. m\<lparr>msg_buf := b\<rparr>)
     (mem_write (msg_buf m) (msg_offset m + 5) (be_bytes 8 (unat e)))"
  "SetSize m sz = map_option (\<lambda>b. m\<lparr>msg_buf := b\<rparr>)
     (mem_write (msg_buf m) (msg_offset m + 13) (be_bytes 2 (unat sz)))"
  "SetChks m ck = map_option (\<lambda>b. m\<lparr>msg_buf := b\<rparr>)
     (mem_write (msg_buf m) (msg_offset m + 15) [ck])"
  by (simp_all add: msg_defs i2np_sizes mem_simps)

theorem Fill_header_eq:
  assumes "has_header m"
  shows "FillI2NPMessageHeader env rnd m t r =
    map_option (\<lambda>b. m\<lparr>msg_buf := b\<rparr>) (mem_write (msg_buf m) (msg_offset m)
      (i2np_header t (if r \<noteq> 0 then r else rnd) (env_now_ms env + 5000)
         (word_of_nat (length (msg_payload m))) (hd (env_sha256 env (msg_payload m)))))"
proof -
  let ?p = "msg_offset m" and ?id = "if r \<noteq> 0 then r else rnd" and ?e = "env_now_ms env + 5000"
    and ?n = "msg_len m - msg_offset m - 16"
  have le: "?p + 16 + ?n = msg_len m" "msg_len m \<le> length (msg_buf m)"
    using assms by (auto simp: has_header_def)
  have lp: "length (msg_payload m) = ?n"
    using le by (simp add: msg_payload_def)
  obtain b1 where b1: "mem_write (msg_buf m) ?p [t] = Some b1"
    using le mem_write_total [of ?p "[t]" "msg_buf m"] by auto
  obtain b2 where b2: "mem_write b1 (?p + 1) (be_bytes 4 (unat ?id)) = Some b2"
    using le mem_write_length [OF b1] mem_write_total [of "?p + 1" "be_bytes 4 (unat ?id)" b1] by auto
  obtain b3 where b3: "mem_write b2 (?p + 5) (be_bytes 8 (unat ?e)) = Some b3"
    using le mem_write_length [OF b1] mem_write_length [OF b2]
      mem_write_total [of "?p + 5" "be_bytes 8 (unat ?e)" b2] by auto
  obtain b4 where b4: "mem_write b3 (?p + 13) (be_bytes 2 (unat (word_of_nat ?n :: 16 word))) = Some b4"
    using le mem_write_length [OF b1] mem_write_length [OF b2] mem_write_length [OF b3]
      mem_write_total [of "?p + 13" "be_bytes 2 (unat (word_of_nat ?n :: 16 word))" b3] by auto
  have len4: "length b4 = length (msg_buf m)"
    using mem_write_length [OF b1] mem_write_length [OF b2] mem_write_length [OF b3]
      mem_write_length [OF b4] by simp
  have "window b4 (?p + 16) ?n = msg_payload m"
    using window_write_after [OF b1, of "?p + 16" ?n] window_write_after [OF b2, of "?p + 16" ?n]
      window_write_after [OF b3, of "?p + 16" ?n] window_write_after [OF b4, of "?p + 16" ?n]
    by (simp add: msg_payload_def)
  then have rd: "mem_read b4 (?p + 16) ?n = Some (msg_payload m)"
    using le len4 by (simp add: mem_read_window)
  have gl: "size_sub (size_sub (msg_len m) ?p) 16 = ?n"
    using le by simp
  show ?thesis
    unfolding write_header_chain lp
    using b1 b2 b3 b4 rd gl
    by (cases "r = 0") (simp_all add: FillI2NPMessageHeader_def UpdateSize_def UpdateChks_def
        setters_write GetPayload_def GetBuffer_def GetPayloadLength_def GetLength_def
        map_option_bind Option.bind_assoc)
qed

section \<open>The getters read what the setters wrote\<close>

lemma header_reads:
  assumes "mem_write b p (i2np_header t mid e sz ck) = Some b'"
  shows "mem_read b' p 1 = Some [t]" "mem_read b' (p + 1) 4 = Some (be_bytes 4 (unat mid))"
    "mem_read b' (p + 5) 8 = Some (be_bytes 8 (unat e))"
    "mem_read b' (p + 13) 2 = Some (be_bytes 2 (unat sz))" "mem_read b' (p + 15) 1 = Some [ck]"
  using mem_read_written [OF assms, of 0 1] mem_read_written [OF assms, of 1 4]
    mem_read_written [OF assms, of 5 8] mem_read_written [OF assms, of 13 2]
    mem_read_written [OF assms, of 15 1]
  by (simp_all add: i2np_header_def)

lemma getters_after_header:
  assumes "mem_write b (msg_offset m) (i2np_header t mid e sz ck) = Some b'"
    and "m' = m\<lparr>msg_buf := b'\<rparr>"
  shows "GetTypeID m' = Some t" "GetMsgID m' = Some mid" "GetExpiration m' = Some e"
    "GetSize m' = Some sz"
  using header_reads [OF assms(1)] assms(2)
  by (simp_all add: msg_defs i2np_sizes mem_simps byte_simps flip: mem_read_Some_iff)

lemma payload_after_header:
  assumes "mem_write (msg_buf m) (msg_offset m) (i2np_header t mid e sz ck) = Some b'"
  shows "msg_payload (m\<lparr>msg_buf := b'\<rparr>) = msg_payload m"
  using window_write_after [OF assms] by (simp add: msg_payload_def)

lemma content_after_header:
  assumes "mem_write (msg_buf m) (msg_offset m) (i2np_header t mid e sz ck) = Some b'"
    and "has_header m"
  shows "msg_content (m\<lparr>msg_buf := b'\<rparr>) = i2np_header t mid e sz ck @ msg_payload m"
proof -
  have "has_header (m\<lparr>msg_buf := b'\<rparr>)"
    using assms mem_write_length [OF assms(1)] by (simp add: has_header_def)
  then show ?thesis
    using window_write_same [OF assms(1)] payload_after_header [OF assms(1)]
    by (simp add: msg_content_header_payload)
qed

lemma Fill_header_Some:
  assumes "has_header m"
  obtains m' where "FillI2NPMessageHeader env rnd m t r = Some m'"
    "msg_content m' = i2np_header t (if r \<noteq> 0 then r else rnd) (env_now_ms env + 5000)
       (word_of_nat (length (msg_payload m))) (hd (env_sha256 env (msg_payload m))) @ msg_payload m"
    "msg_payload m' = msg_payload m" "msg_offset m' = msg_offset m" "msg_len m' = msg_len m"
    "length (msg_buf m') = length (msg_buf m)" "msg_from m' = msg_from m"
    "msg_maxLen m' = msg_maxLen m" "msg_base m' = msg_base m" "has_header m'"
proof -
  let ?h = "i2np_header t (if r \<noteq> 0 then r else rnd) (env_now_ms env + 5000)
       (word_of_nat (length (msg_payload m))) (hd (env_sha256 env (msg_payload m)))"
  obtain b where b: "mem_write (msg_buf m) (msg_offset m) ?h = Some b"
    using assms mem_write_total [of "msg_offset m" ?h "msg_buf m"] by (auto simp: has_header_def)
  show ?thesis
    using that [of "m\<lparr>msg_buf := b\<rparr>"] b content_after_header [OF b assms]
      payload_after_header [OF b] mem_write_length [OF b] assms
    by (simp add: Fill_header_eq [OF assms] has_header_def)
qed

section \<open>The short header of SSU\<close>

lemma FromSSU_eq:
  fixes e :: "32 word"
  assumes len: "msg_offset m + 16 \<le> msg_len m" "msg_len m \<le> length (msg_buf m)"
    and t: "mem_read (msg_buf m) (msg_offset m + 11) 1 = Some [t]"
    and e: "mem_read (msg_buf m) (msg_offset m + 12) 4 = Some (be_bytes 4 (unat e))"
  shows "FromSSU m mid = map_option (\<lambda>b. m\<lparr>msg_buf := b\<rparr>) (mem_write (msg_buf m) (msg_offset m)
     (i2np_header t mid (ucast e * 1000) (word_of_nat (msg_len m - msg_offset m - 16)) 0))"
proof -
  let ?p = "msg_offset m"
  obtain b1 where b1: "mem_write (msg_buf m) ?p [t] = Some b1"
    using len mem_write_total [of ?p "[t]" "msg_buf m"] by auto
  obtain b2 where b2: "mem_write b1 (?p + 1) (be_bytes 4 (unat mid)) = Some b2"
    using len mem_write_length [OF b1] mem_write_total [of "?p + 1" "be_bytes 4 (unat mid)" b1]
    by auto
  have e2: "mem_read b2 (?p + 12) 4 = Some (be_bytes 4 (unat e))"
    using e mem_read_after_write [OF b1, of "?p + 12" 4] mem_read_after_write [OF b2, of "?p + 12" 4]
    by simp
  have gl: "size_sub (size_sub (msg_len m) ?p) 16 = msg_len m - (?p + 16)"
    using len by simp
  have b1': "mem_write (msg_buf m) ?p [t] = Some b1" "mem_write b1 (Suc ?p) (be_bytes 4 (unat mid)) = Some b2"
    using b1 b2 by simp_all
  show ?thesis
    unfolding write_header_chain
    using b1' e2 t gl
    by (simp add: add.commute FromSSU_def setters_write put_at_def GetBuffer_def GetSSUHeader_def
        I2NP_SHORT_HEADER_SIZE_def I2NP_HEADER_TYPEID_OFFSET_def bufbe32toh_be_val
        map_option_bind Option.bind_assoc byte_simps)
qed

lemma ToSSU_eq:
  assumes hh: "has_header m"
    and h: "window (msg_buf m) (msg_offset m) 16 = i2np_header t mid e sz ck"
  shows "ToSSU m = map_option (\<lambda>b. (m\<lparr>msg_buf := b, msg_len := msg_offset m + 5 + unat sz\<rparr>, mid))
     (mem_write (msg_buf m) (msg_offset m + 11)
        (t # be_bytes 4 (unat (ucast (e div 1000) :: 32 word))))"
proof -
  let ?h = "i2np_header t mid e sz ck" and ?p = "msg_offset m"
  have rd: "mem_read (msg_buf m) ?p 16 = Some ?h"
    using hh h by (simp add: has_header_def mem_read_window)
  have w: "mem_write ?h 0 ?h = Some ?h"
    by (simp add: mem_write_def)
  have r: "bufbe64toh ?h I2NP_HEADER_EXPIRATION_OFFSET = Some e"
    "bufbe16toh ?h I2NP_HEADER_SIZE_OFFSET = Some sz"
    "bufbe32toh ?h I2NP_HEADER_MSGID_OFFSET = Some mid" "?h ! I2NP_HEADER_TYPEID_OFFSET = t"
    using header_reads [OF w]
    by (simp_all add: mem_simps byte_simps i2np_sizes i2np_header_def flip: mem_read_Some_iff)
  have sp: "mem_write (msg_buf m) (?p + 11) (t # be_bytes 4 (unat (ucast (e div 1000) :: 32 word))) =
     Option.bind (mem_write (msg_buf m) (?p + 11) [t])
       (\<lambda>b. mem_write b (?p + 12) (be_bytes 4 (unat (ucast (e div 1000) :: 32 word))))"
    using mem_write_split [of "msg_buf m" "?p + 11" "[t]"
        "be_bytes 4 (unat (ucast (e div 1000) :: 32 word))"] by (simp add: add.commute)
  show ?thesis
    unfolding sp using rd r
    by (simp add: ToSSU_def put_at_def GetBuffer_def GetSSUHeader_def I2NP_SHORT_HEADER_SIZE_def
        htobe32buf_mem_write map_option_bind Option.bind_assoc add.commute)
qed

text \<open>
  The round trip of a message through the SSU transport: what the receiver rebuilds is the
  sender's message with the expiration cut to whole seconds and the checksum cleared.
\<close>

lemma SSU_round_trip:
  assumes hh: "has_header m" and sz: "unat sz = length (msg_payload m)"
    and h: "window (msg_buf m) (msg_offset m) 16 = i2np_header t mid e sz ck"
    and snd: "ToSSU m = Some (m1, mid')"
    and rcv: "window (msg_buf m2) (GetSSUHeader m2) (GetLength m1)
                = window (msg_buf m1) (GetSSUHeader m1) (GetLength m1)"
    and len2: "msg_len m2 = GetSSUHeader m2 + GetLength m1" "msg_len m2 \<le> length (msg_buf m2)"
  obtains m3 where "FromSSU m2 mid' = Some m3" "mid' = mid"
    "msg_content m3 =
       i2np_header t mid (ucast (ucast (e div 1000) :: 32 word) * 1000) sz 0 @ msg_payload m"
proof -
  let ?p = "msg_offset m" and ?s = "ucast (e div 1000) :: 32 word"
  let ?sh = "t # be_bytes 4 (unat ?s)"
  obtain b where b: "mem_write (msg_buf m) (?p + 11) ?sh = Some b"
    and m1: "m1 = m\<lparr>msg_buf := b, msg_len := ?p + 5 + unat sz\<rparr>" and mid: "mid' = mid"
    using snd by (auto simp: ToSSU_eq [OF hh h])
  have n: "unat sz = msg_len m - ?p - 16" and le: "?p + 16 + unat sz \<le> length (msg_buf m)"
    using sz hh by (auto simp: has_header_def msg_payload_def)
  have gl: "GetLength m1 = 5 + unat sz" and g1: "GetSSUHeader m1 = ?p + 11"
    and g2: "GetSSUHeader m2 = msg_offset m2 + 11"
    using m1 by (simp_all add: GetLength_def GetSSUHeader_def I2NP_SHORT_HEADER_SIZE_def)
  have "window b (?p + 11) 5 = ?sh"
    using window_write_same [OF b] by simp
  moreover have "window b (?p + 16) (unat sz) = msg_payload m"
    using window_write_after [OF b, of "?p + 16"] n by (simp add: msg_payload_def)
  ultimately have w1: "window b (?p + 11) (5 + unat sz) = ?sh @ msg_payload m"
    using window_add [of b "?p + 11" 5 "unat sz"] by (simp add: add.commute)
  have w2: "window (msg_buf m2) (msg_offset m2 + 11) (5 + unat sz) = ?sh @ msg_payload m"
    using rcv w1 gl g1 g2 m1 by simp
  have "length (msg_buf m2) \<ge> msg_offset m2 + 16 + unat sz"
    using len2 gl g2 by simp
  then have "mem_read (msg_buf m2) (msg_offset m2 + 11) 1 = Some [t]"
    and "mem_read (msg_buf m2) (msg_offset m2 + 12) 4 = Some (be_bytes 4 (unat ?s))"
    using arg_cong [OF w2, of "take 1"] arg_cong [OF w2, of "take 4 \<circ> drop 1"]
    by (simp_all add: mem_read_def window_def drop_take add.commute)
  note F = FromSSU_eq [OF _ _ this, of mid]
  let ?H = "i2np_header t mid (ucast ?s * 1000) sz 0"
  have hh2: "has_header m2" "msg_len m2 - msg_offset m2 - 16 = unat sz"
    using len2 gl g2 by (simp_all add: has_header_def)
  then have F2: "FromSSU m2 mid = map_option (\<lambda>b. m2\<lparr>msg_buf := b\<rparr>)
      (mem_write (msg_buf m2) (msg_offset m2) ?H)"
    using F by (simp add: has_header_def)
  obtain b2 where b2: "mem_write (msg_buf m2) (msg_offset m2) ?H = Some b2"
    using hh2(1) mem_write_total [of "msg_offset m2" ?H "msg_buf m2"] by (auto simp: has_header_def)
  have "msg_payload m2 = window (msg_buf m2) (msg_offset m2 + 11 + 5) (unat sz)"
    using hh2 by (simp add: msg_payload_def add.commute)
  also have "\<dots> = drop 5 (window (msg_buf m2) (msg_offset m2 + 11) (5 + unat sz))"
    by (simp add: window_def drop_take add.commute)
  also have "\<dots> = msg_payload m"
    using w2 by simp
  finally have "msg_payload m2 = msg_payload m" .
  then show ?thesis
    using that [of "m2\<lparr>msg_buf := b2\<rparr>"] F2 b2 content_after_header [OF b2 hh2(1)] mid by simp
qed

section \<open>Properties\<close>

text \<open>A message with a three-byte payload, for the witnesses.\<close>

definition sample_msg :: i2np_msg where
  "sample_msg = \<lparr>msg_buf = [0, 0] @ i2np_header 20 7 1000 3 9 @ [1, 2, 3] @ replicate 100 0,
     msg_base = 0, msg_len = 21, msg_offset = 2, msg_maxLen = 105, msg_from = None\<rparr>"

definition sample_env :: i2np_env where
  "sample_env = \<lparr>env_now_ms = 5, env_sha256 = (\<lambda>x. replicate 32 1), env_gzip = id\<rparr>"

lemma sample_msg_facts:
  "has_header sample_msg" "window (msg_buf sample_msg) (msg_offset sample_msg) 16 = i2np_header 20 7 1000 3 9"
  "msg_payload sample_msg = [1, 2, 3]"
  by (simp_all add: sample_msg_def has_header_def window_def msg_payload_def)

text \<open>
  C9: a message sent over SSU and rebuilt by the receiver is the sender's message. \<open>ToSSU\<close>
  never leaves the buffer of a message with a complete header and returns its message ID; whatever
  message the receiver places the short-header bytes in, \<open>FromSSU\<close> restores type, ID, size and
  payload, with the expiration cut to whole seconds and the checksum cleared.
\<close>

theorem SSU_short_header_round_trip:
  assumes hh: "has_header m" and sz: "unat sz = length (msg_payload m)"
    and h: "window (msg_buf m) (msg_offset m) 16 = i2np_header t mid e sz ck"
  shows "\<exists>m1. ToSSU m = Some (m1, mid) \<and>
    (\<forall>m2. msg_len m2 = GetSSUHeader m2 + GetLength m1 \<and> msg_len m2 \<le> length (msg_buf m2) \<and>
       window (msg_buf m2) (GetSSUHeader m2) (GetLength m1)
         = window (msg_buf m1) (GetSSUHeader m1) (GetLength m1) \<longrightarrow>
       (\<exists>m3. FromSSU m2 mid = Some m3 \<and> msg_content m3 =
          i2np_header t mid (ucast (ucast (e div 1000) :: 32 word) * 1000) sz 0 @ msg_payload m))"
proof -
  have "msg_offset m + 11 + 5 \<le> length (msg_buf m)"
    using hh by (simp add: has_header_def)
  then obtain m1 where m1: "ToSSU m = Some (m1, mid)"
    using mem_write_total [of "msg_offset m + 11"
        "t # be_bytes 4 (unat (ucast (e div 1000) :: 32 word))" "msg_buf m"]
    by (auto simp: ToSSU_eq [OF hh h])
  show ?thesis
    using SSU_round_trip [OF hh sz h m1] m1 by (intro exI [of _ m1]) blast
qed

theorem SSU_short_header_round_trip_witness: "\<exists>m1. ToSSU sample_msg = Some (m1, 7)"
  using SSU_short_header_round_trip [OF sample_msg_facts(1) _ sample_msg_facts(2)]
  by (auto simp: sample_msg_facts(3))

text \<open>
  C13: \<open>FillI2NPMessageHeader\<close> writes the whole header and nothing else: afterwards the getters
  return the type, the reply message ID (the random one when it is 0), an expiration 5000 ms
  ahead (modulo 2^64) and the payload length modulo 2^16; the checksum is the first byte of the
  payload's SHA-256, and the payload is untouched.
\<close>

theorem FillI2NPMessageHeader_getters:
  assumes "has_header m"
  shows "\<exists>m'. FillI2NPMessageHeader env rnd m t r = Some m' \<and> GetTypeID m' = Some t \<and>
    GetMsgID m' = Some (if r \<noteq> 0 then r else rnd) \<and>
    GetExpiration m' = Some (env_now_ms env + 5000) \<and>
    GetSize m' = Some (word_of_nat (GetPayloadLength m)) \<and>
    msg_content m' ! 15 = hd (env_sha256 env (msg_payload m)) \<and> msg_payload m' = msg_payload m"
proof -
  let ?h = "i2np_header t (if r \<noteq> 0 then r else rnd) (env_now_ms env + 5000)
       (word_of_nat (length (msg_payload m))) (hd (env_sha256 env (msg_payload m)))"
  obtain b where b: "mem_write (msg_buf m) (msg_offset m) ?h = Some b"
    using assms mem_write_total [of "msg_offset m" ?h "msg_buf m"] by (auto simp: has_header_def)
  have l: "length (msg_payload m) = GetPayloadLength m"
    using assms by (auto simp: has_header_def msg_payload_def GetPayloadLength_def GetLength_def)
  show ?thesis
    using getters_after_header [OF b refl] payload_after_header [OF b]
      content_after_header [OF b assms] b
    by (intro exI [of _ "m\<lparr>msg_buf := b\<rparr>"])
      (simp add: Fill_header_eq [OF assms] l i2np_header_def nth_append)
qed

theorem FillI2NPMessageHeader_getters_witness:
  "\<exists>m'. FillI2NPMessageHeader sample_env 3 sample_msg 20 0 = Some m' \<and>
     GetMsgID m' = Some 3 \<and> GetExpiration m' = Some 5005"
  using FillI2NPMessageHeader_getters [OF sample_msg_facts(1), of sample_env 3 20 0]
  by (auto simp: sample_env_def)

end
