(* ===== verification/I2NP_Create.thy ===== *)
theory I2NP_Create
  imports I2NP_Message
begin

text \<open>
  The message constructors of \<open>src/core/I2NPProtocol.cpp\<close>. Each allocates a message (at an
  address the allocator chose, the parameter \<open>addr\<close>), writes its payload field by field, sets
  \<open>len\<close>, and fills the header. The lemmas give the payload every constructor puts on the wire.
\<close>

section \<open>Writing a payload\<close>

definition put_be16 :: "i2np_msg \<Rightarrow> nat \<Rightarrow> 16 word \<Rightarrow> i2np_msg option" where [msg_defs]:
  "put_be16 m p v = map_option (\<lambda>b. m\<lparr>msg_buf := b\<rparr>) (htobe16buf (msg_buf m) p v)"

definition put_be32 :: "i2np_msg \<Rightarrow> nat \<Rightarrow> 32 word \<Rightarrow> i2np_msg option" where [msg_defs]:
  "put_be32 m p v = map_option (\<lambda>b. m\<lparr>msg_buf := b\<rparr>) (htobe32buf (msg_buf m) p v)"

definition put_be64 :: "i2np_msg \<Rightarrow> nat \<Rightarrow> 64 word \<Rightarrow> i2np_msg option" where [msg_defs]:
  "put_be64 m p v = map_option (\<lambda>b. m\<lparr>msg_buf := b\<rparr>) (htobe64buf (msg_buf m) p v)"

definition add_len :: "i2np_msg \<Rightarrow> nat \<Rightarrow> i2np_msg" where
  "add_len m n = m\<lparr>msg_len := msg_len m + n\<rparr>"

text \<open>The loops \<open>for (auto& it : peers) { memcpy(buf, it, 32); buf += 32; }\<close>.\<close>

fun put_hashes :: "i2np_msg \<Rightarrow> nat \<Rightarrow> ident_hash list \<Rightarrow> i2np_msg option" where
  "put_hashes m p [] = Some m"
| "put_hashes m p (h # hs) = do { m \<leftarrow> put_at m p h; put_hashes m (p + 32) hs }"

section \<open>The constructors\<close>

definition CreateI2NPMessage ::
    "i2np_env \<Rightarrow> 32 word \<Rightarrow> nat \<Rightarrow> byte \<Rightarrow> bytes \<Rightarrow> 32 word \<Rightarrow> i2np_msg option" where
  "CreateI2NPMessage env rnd addr msgType buf replyMsgID = do {
     let m = NewI2NPMessage_len addr (length buf);
     m \<leftarrow> (if msg_len m + length buf < msg_maxLen m
       then map_option (\<lambda>m. add_len m (length buf)) (put_at m (GetPayload m) buf)
       else Some m);
     FillI2NPMessageHeader env rnd m msgType replyMsgID
   }"

definition CreateI2NPMessage_from ::
    "nat \<Rightarrow> bytes \<Rightarrow> nat option \<Rightarrow> i2np_msg option" where
  "CreateI2NPMessage_from addr buf from = do {
     let m = NewI2NPMessage addr;
     if msg_offset m + length buf < msg_maxLen m
     then map_option (\<lambda>m. m\<lparr>msg_len := msg_offset m + length buf, msg_from := from\<rparr>)
       (put_at m (GetBuffer m) buf)
     else Some m
   }"

definition CreateDeliveryStatusMsg ::
    "i2np_env \<Rightarrow> 32 word \<Rightarrow> 32 word \<Rightarrow> nat \<Rightarrow> 32 word \<Rightarrow> i2np_msg option" where
  "CreateDeliveryStatusMsg env rnd rndID addr msgID = do {
     let m = NewI2NPShortMessage addr;
     let buf = GetPayload m;
     m \<leftarrow> (if msgID \<noteq> 0 then do {
         m \<leftarrow> put_be32 m (buf + 0) msgID;
         put_be64 m (buf + 4) (env_now_ms env) }
       else do {
         m \<leftarrow> put_be32 m (buf + 0) rndID;
         put_be64 m (buf + 4) 2 });
     FillI2NPMessageHeader env rnd (add_len m DELIVERY_STATUS_SIZE) eI2NPDeliveryStatus 0
   }"

definition CreateRouterInfoDatabaseLookupMsg ::
    "i2np_env \<Rightarrow> 32 word \<Rightarrow> nat \<Rightarrow> ident_hash \<Rightarrow> ident_hash \<Rightarrow> 32 word \<Rightarrow> bool \<Rightarrow>
     ident_hash list option \<Rightarrow> i2np_msg option" where
  "CreateRouterInfoDatabaseLookupMsg env rnd addr key from replyTunnelID exploratory excludedPeers = do {
     let m = (if excludedPeers \<noteq> None then NewI2NPMessage addr else NewI2NPShortMessage addr);
     let buf = GetPayload m;
     m \<leftarrow> put_at m buf key;
     m \<leftarrow> put_at m (buf + 32) from;
     let flag = (if exploratory then DATABASE_LOOKUP_TYPE_EXPLORATORY_LOOKUP
                 else DATABASE_LOOKUP_TYPE_ROUTERINFO_LOOKUP);
     (m, buf) \<leftarrow> (if replyTunnelID \<noteq> 0 then do {
         m \<leftarrow> put_at m (buf + 64) [flag OR DATABASE_LOOKUP_DELIVERY_FLAG];
         m \<leftarrow> put_be32 m (buf + 65) replyTunnelID;
         Some (m, buf + 69) }
       else do { m \<leftarrow> put_at m (buf + 64) [flag]; Some (m, buf + 65) });
     (m, buf) \<leftarrow> (case excludedPeers of
         Some peers \<Rightarrow> do {
           m \<leftarrow> put_be16 m buf (word_of_nat (length peers));
           m \<leftarrow> put_hashes m (buf + 2) peers;
           Some (m, buf + 2 + 32 * length peers) }
       | None \<Rightarrow> do { m \<leftarrow> put_at m buf [0, 0]; Some (m, buf + 2) });
     FillI2NPMessageHeader env rnd (add_len m (buf - GetPayload m)) eI2NPDatabaseLookup 0
   }"

definition CreateLeaseSetDatabaseLookupMsg ::
    "i2np_env \<Rightarrow> 32 word \<Rightarrow> nat \<Rightarrow> ident_hash \<Rightarrow> ident_hash list \<Rightarrow> ident_hash \<Rightarrow> 32 word \<Rightarrow>
     bytes \<Rightarrow> bytes \<Rightarrow> i2np_msg option" where
  "CreateLeaseSetDatabaseLookupMsg env rnd addr dest excludedFloodfills nextIdent nextTunnelID
       replyKey replyTag = do {
     let cnt = length excludedFloodfills;
     let m = (if cnt > 0 then NewI2NPMessage addr else NewI2NPShortMessage addr);
     let buf = GetPayload m;
     m \<leftarrow> put_at m buf dest;
     m \<leftarrow> put_at m (buf + 32) nextIdent;
     m \<leftarrow> put_at m (buf + 64) [DATABASE_LOOKUP_DELIVERY_FLAG OR DATABASE_LOOKUP_ENCYPTION_FLAG OR
            DATABASE_LOOKUP_TYPE_LEASESET_LOOKUP];
     m \<leftarrow> put_be32 m (buf + 65) nextTunnelID;
     m \<leftarrow> put_be16 m (buf + 69) (word_of_nat cnt);
     m \<leftarrow> (if cnt > 0 then put_hashes m (buf + 71) excludedFloodfills else Some m);
     let buf = buf + 71 + 32 * cnt;
     m \<leftarrow> put_at m buf replyKey;
     m \<leftarrow> put_at m (buf + 32) [1];
     m \<leftarrow> put_at m (buf + 33) replyTag;
     FillI2NPMessageHeader env rnd (add_len m (buf + 65 - GetPayload m)) eI2NPDatabaseLookup 0
   }"

definition CreateDatabaseSearchReply ::
    "i2np_env \<Rightarrow> 32 word \<Rightarrow> nat \<Rightarrow> ident_hash \<Rightarrow> ident_hash \<Rightarrow> ident_hash list \<Rightarrow> i2np_msg option" where
  "CreateDatabaseSearchReply env rnd addr ourIdent ident routers = do {
     let m = NewI2NPShortMessage addr;
     let buf = GetPayload m;
     m \<leftarrow> put_at m buf ident;
     m \<leftarrow> put_at m (buf + 32) [word_of_nat (length routers)];
     m \<leftarrow> put_hashes m (buf + 33) routers;
     let len = 33 + 32 * length routers;
     m \<leftarrow> put_at m (buf + len) ourIdent;
     FillI2NPMessageHeader env rnd (add_len m (len + 32)) eI2NPDatabaseSearchReply 0
   }"

text \<open>
  The two \<open>CreateDatabaseStoreMsg\<close>. A RouterInfo goes out compressed; when the short buffer is
  too small the message moves to a long one (\<open>addr2\<close>).
\<close>

definition CreateDatabaseStoreMsg_router ::
    "i2np_env \<Rightarrow> 32 word \<Rightarrow> nat \<Rightarrow> nat \<Rightarrow> ident_hash \<Rightarrow> bytes \<Rightarrow> 32 word \<Rightarrow> i2np_msg option" where
  "CreateDatabaseStoreMsg_router env rnd addr addr2 ident routerBuf replyToken = do {
     let m = NewI2NPShortMessage addr;
     let payload = GetPayload m;
     m \<leftarrow> put_at m payload ident;
     m \<leftarrow> put_at m (payload + 32) [0];
     m \<leftarrow> put_be32 m (payload + 33) replyToken;
     let buf = payload + DATABASE_STORE_HEADER_SIZE;
     (m, buf) \<leftarrow> (if replyToken \<noteq> 0 then do {
         m \<leftarrow> put_at m buf [0, 0, 0, 0];
         m \<leftarrow> put_at m (buf + 4) ident;
         Some (m, buf + 36) }
       else Some (m, buf));
     let compressed = env_gzip env routerBuf;
     let size = length compressed;
     m \<leftarrow> put_be16 m buf (word_of_nat size);
     let buf = buf + 2;
     let m = add_len m (buf - payload);
     (m, buf) \<leftarrow> (if msg_len m + size > msg_maxLen m then do {
         newMsg \<leftarrow> msg_assign (NewI2NPMessage addr2) m;
         Some (newMsg, msg_len newMsg) }
       else Some (m, buf));
     m \<leftarrow> put_at m buf compressed;
     FillI2NPMessageHeader env rnd (add_len m size) eI2NPDatabaseStore 0
   }"

definition CreateDatabaseStoreMsg_leaseSet ::
    "i2np_env \<Rightarrow> 32 word \<Rightarrow> nat \<Rightarrow> ident_hash \<Rightarrow> (32 word \<times> ident_hash) list \<Rightarrow> bytes \<Rightarrow> 32 word \<Rightarrow>
     i2np_msg option" where
  "CreateDatabaseStoreMsg_leaseSet env rnd addr ident nonExpiredLeases leaseBuf replyToken = do {
     let m = NewI2NPShortMessage addr;
     let payload = GetPayload m;
     m \<leftarrow> put_at m payload ident;
     m \<leftarrow> put_at m (payload + 32) [1];
     m \<leftarrow> put_be32 m (payload + 33) replyToken;
     let size = DATABASE_STORE_HEADER_SIZE;
     (m, size) \<leftarrow> (if replyToken \<noteq> 0 then (case nonExpiredLeases of
           (tunnelID, tunnelGateway) # _ \<Rightarrow> do {
             m \<leftarrow> put_be32 m (payload + size) tunnelID;
             m \<leftarrow> put_at m (payload + size + 4) tunnelGateway;
             Some (m, size + 36) }
         | [] \<Rightarrow> do { m \<leftarrow> put_be32 m (payload + 33) 0; Some (m, size) })
       else Some (m, size));
     m \<leftarrow> put_at m (payload + size) leaseBuf;
     FillI2NPMessageHeader env rnd (add_len m (size + length leaseBuf)) eI2NPDatabaseStore 0
   }"

definition CreateTunnelDataMsg :: "i2np_env \<Rightarrow> 32 word \<Rightarrow> nat \<Rightarrow> bytes \<Rightarrow> i2np_msg option" where
  "CreateTunnelDataMsg env rnd addr buf = do {
     let m = NewI2NPShortMessage addr;
     src \<leftarrow> mem_read buf 0 TUNNEL_DATA_MSG_SIZE;
     m \<leftarrow> put_at m (GetPayload m) src;
     FillI2NPMessageHeader env rnd (add_len m TUNNEL_DATA_MSG_SIZE) eI2NPTunnelData 0
   }"

definition CreateTunnelDataMsg_id ::
    "i2np_env \<Rightarrow> 32 word \<Rightarrow> nat \<Rightarrow> 32 word \<Rightarrow> bytes \<Rightarrow> i2np_msg option" where
  "CreateTunnelDataMsg_id env rnd addr tunnelID payload = do {
     let m = NewI2NPShortMessage addr;
     src \<leftarrow> mem_read payload 0 (TUNNEL_DATA_MSG_SIZE - 4);
     m \<leftarrow> put_at m (GetPayload m + 4) src;
     m \<leftarrow> put_be32 m (GetPayload m) tunnelID;
     FillI2NPMessageHeader env rnd (add_len m TUNNEL_DATA_MSG_SIZE) eI2NPTunnelData 0
   }"

definition CreateEmptyTunnelDataMsg :: "nat \<Rightarrow> i2np_msg" where
  "CreateEmptyTunnelDataMsg addr = add_len (NewI2NPShortMessage addr) TUNNEL_DATA_MSG_SIZE"

text \<open>The three \<open>CreateTunnelGatewayMsg\<close>.\<close>

definition CreateTunnelGatewayMsg_buf ::
    "i2np_env \<Rightarrow> 32 word \<Rightarrow> nat \<Rightarrow> 32 word \<Rightarrow> bytes \<Rightarrow> i2np_msg option" where
  "CreateTunnelGatewayMsg_buf env rnd addr tunnelID buf = do {
     let m = NewI2NPMessage_len addr (length buf);
     let payload = GetPayload m;
     m \<leftarrow> put_be32 m (payload + 0) tunnelID;
     m \<leftarrow> put_be16 m (payload + 4) (word_of_nat (length buf));
     m \<leftarrow> put_at m (payload + TUNNEL_GATEWAY_HEADER_SIZE) buf;
     FillI2NPMessageHeader env rnd (add_len m (TUNNEL_GATEWAY_HEADER_SIZE + length buf))
       eI2NPTunnelGateway 0
   }"

definition CreateTunnelGatewayMsg ::
    "i2np_env \<Rightarrow> 32 word \<Rightarrow> nat \<Rightarrow> 32 word \<Rightarrow> i2np_msg \<Rightarrow> i2np_msg option" where
  "CreateTunnelGatewayMsg env rnd addr tunnelID m =
     (if msg_offset m \<ge> I2NP_HEADER_SIZE + TUNNEL_GATEWAY_HEADER_SIZE then do {
        let payload = GetBuffer m - TUNNEL_GATEWAY_HEADER_SIZE;
        let len = GetLength m;
        m \<leftarrow> put_be32 m (payload + 0) tunnelID;
        m \<leftarrow> put_be16 m (payload + 4) (word_of_nat len);
        let off = msg_offset m - (I2NP_HEADER_SIZE + TUNNEL_GATEWAY_HEADER_SIZE);
        let m = m\<lparr>msg_offset := off,
                  msg_len := off + I2NP_HEADER_SIZE + TUNNEL_GATEWAY_HEADER_SIZE + len\<rparr>;
        FillI2NPMessageHeader env rnd m eI2NPTunnelGateway 0 }
      else do {
        content \<leftarrow> mem_read (msg_buf m) (GetBuffer m) (GetLength m);
        CreateTunnelGatewayMsg_buf env rnd addr tunnelID content })"

definition CreateTunnelGatewayMsg_type ::
    "i2np_env \<Rightarrow> 32 word \<Rightarrow> 32 word \<Rightarrow> nat \<Rightarrow> 32 word \<Rightarrow> byte \<Rightarrow> bytes \<Rightarrow> 32 word \<Rightarrow> i2np_msg option"
  where
  "CreateTunnelGatewayMsg_type env rnd rnd2 addr tunnelID msgType buf replyMsgID = do {
     let m = NewI2NPMessage_len addr (length buf);
     let gatewayMsgOffset = I2NP_HEADER_SIZE + TUNNEL_GATEWAY_HEADER_SIZE;
     let m = m\<lparr>msg_offset := msg_offset m + gatewayMsgOffset, msg_len := msg_len m + gatewayMsgOffset\<rparr>;
     m \<leftarrow> put_at m (GetPayload m) buf;
     let m = add_len m (length buf);
     m \<leftarrow> FillI2NPMessageHeader env rnd m msgType replyMsgID;
     let len = GetLength m;
     let m = m\<lparr>msg_offset := msg_offset m - gatewayMsgOffset\<rparr>;
     let payload = GetPayload m;
     m \<leftarrow> put_be32 m (payload + 0) tunnelID;
     m \<leftarrow> put_be16 m (payload + 4) (word_of_nat len);
     FillI2NPMessageHeader env rnd2 m eI2NPTunnelGateway 0
   }"

definition GetI2NPMessageLength :: "bytes \<Rightarrow> nat option" where
  "GetI2NPMessageLength msg =
     map_option (\<lambda>sz. unat sz + I2NP_HEADER_SIZE) (bufbe16toh msg I2NP_HEADER_SIZE_OFFSET)"

section \<open>What the constructors put on the wire\<close>

lemma put_at_patch [mem_simps]:
  "p + length bs \<le> length (msg_buf m) \<Longrightarrow>
     put_at m p bs = Some (m\<lparr>msg_buf := patch (msg_buf m) p bs\<rparr>)"
  by (simp add: put_at_def mem_write_patch)

lemma put_be_put_at [mem_simps]:
  "put_be16 m p v16 = put_at m p (be_bytes 2 (unat v16))"
  "put_be32 m p v32 = put_at m p (be_bytes 4 (unat v32))"
  "put_be64 m p v64 = put_at m p (be_bytes 8 (unat v64))"
  by (simp_all add: put_at_def put_be16_def put_be32_def put_be64_def htobe16buf_mem_write
      htobe32buf_mem_write htobe64buf_mem_write)

lemma put_hashes_patch [mem_simps]:
  "\<forall>h \<in> set hs. length h = 32 \<Longrightarrow> p + 32 * length hs \<le> length (msg_buf m) \<Longrightarrow>
     put_hashes m p hs = Some (m\<lparr>msg_buf := patch (msg_buf m) p (concat hs)\<rparr>)"
proof (induction hs arbitrary: m p)
  case Nil
  then show ?case by simp
next
  case (Cons h hs)
  have "length (concat hs) = 32 * length hs"
    using Cons.prems(1) by (induction hs) auto
  with Cons show ?case
    by (simp add: put_at_patch patch_patch)
qed

lemma length_concat_hashes: "\<forall>h \<in> set hs. length h = 32 \<Longrightarrow> length (concat hs) = 32 * length hs"
  by (induction hs) auto

text \<open>
  \<open>carries m t mid e sha bs\<close>: the message is inside its buffer and its bytes are a complete
  I2NP message of type \<open>t\<close> with payload \<open>bs\<close>.
\<close>

definition carries :: "i2np_msg \<Rightarrow> byte \<Rightarrow> 32 word \<Rightarrow> i2np_env \<Rightarrow> bytes \<Rightarrow> bool" where
  "carries m t mid env bs \<longleftrightarrow> has_header m \<and> msg_payload m = bs \<and>
     msg_content m = i2np_header t mid (env_now_ms env + 5000) (word_of_nat (length bs))
        (hd (env_sha256 env bs)) @ bs"

lemma fresh_simps [simp]:
  "msg_offset (NewI2NPMessage a) = 2" "msg_len (NewI2NPMessage a) = 18"
  "length (msg_buf (NewI2NPMessage a)) = 32784" "msg_maxLen (NewI2NPMessage a) = 32768"
  "msg_offset (NewI2NPShortMessage a) = 2" "msg_len (NewI2NPShortMessage a) = 18"
  "length (msg_buf (NewI2NPShortMessage a)) = 4112" "msg_maxLen (NewI2NPShortMessage a) = 4096"
  "msg_from (NewI2NPMessage a) = None" "msg_from (NewI2NPShortMessage a) = None"
  by (simp_all add: NewI2NPMessage_def NewI2NPShortMessage_def I2NPMessageBuffer_def
      I2NP_MAX_MESSAGE_SIZE_def I2NP_MAX_SHORT_MESSAGE_SIZE_def)

lemma GetPayload_16: "GetPayload m = msg_offset m + 16"
  by (simp add: GetPayload_def GetBuffer_def)

text \<open>Filling the header of a message whose payload has just been written.\<close>

lemma fill_carries:
  assumes "msg_len m = msg_offset m + 16 + length bs" and "msg_len m \<le> length (msg_buf m)"
    and "window (msg_buf m) (msg_offset m + 16) (length bs) = bs"
  shows "\<exists>m'. FillI2NPMessageHeader env rnd m t r = Some m' \<and>
     carries m' t (if r \<noteq> 0 then r else rnd) env bs \<and> msg_offset m' = msg_offset m \<and>
     msg_len m' = msg_len m \<and> length (msg_buf m') = length (msg_buf m) \<and> msg_from m' = msg_from m"
proof -
  have h: "has_header m" and p: "msg_payload m = bs"
    using assms by (auto simp: has_header_def msg_payload_def)
  show ?thesis
    by (rule Fill_header_Some [OF h, of env rnd t r]) (auto simp: carries_def p)
qed

lemma fill_patched:
  assumes "msg_offset m + 16 + length bs \<le> length (msg_buf m)"
  shows "\<exists>m'. FillI2NPMessageHeader env rnd (m\<lparr>msg_buf := patch (msg_buf m) (msg_offset m + 16) bs,
        msg_len := msg_offset m + 16 + length bs\<rparr>) t r = Some m' \<and>
     carries m' t (if r \<noteq> 0 then r else rnd) env bs \<and> msg_offset m' = msg_offset m"
  using fill_carries [of "m\<lparr>msg_buf := patch (msg_buf m) (msg_offset m + 16) bs,
        msg_len := msg_offset m + 16 + length bs\<rparr>" bs env rnd t r] assms
  by auto

definition lookup_flags :: "bool \<Rightarrow> 32 word \<Rightarrow> bytes" where
  "lookup_flags exploratory replyTunnelID =
     (let flag = (if exploratory then 0x0C else 0x08) in
      if replyTunnelID \<noteq> 0 then (flag OR 0x01) # be_bytes 4 (unat replyTunnelID) else [flag])"

lemma router_lookup_wire:
  assumes "length key = 32" and "length from = 32"
    and "\<forall>h \<in> set (case excl of Some hs \<Rightarrow> hs | None \<Rightarrow> []). length h = 32"
    and "length (case excl of Some hs \<Rightarrow> hs | None \<Rightarrow> []) \<le> 1018"
  shows "\<exists>m. CreateRouterInfoDatabaseLookupMsg env rnd addr key from rt exploratory excl = Some m \<and>
    carries m eI2NPDatabaseLookup rnd env (key @ from @ lookup_flags exploratory rt @
      (case excl of Some hs \<Rightarrow> be_bytes 2 (length hs) @ concat hs | None \<Rightarrow> [0, 0]))"
proof (cases excl)
  case None
  let ?bs = "key @ from @ lookup_flags exploratory rt @ [0, 0]"
  have "length ?bs \<le> 71" using assms by (simp add: lookup_flags_def)
  then show ?thesis
    using None assms fill_patched [of "NewI2NPShortMessage addr" ?bs env rnd eI2NPDatabaseLookup 0]
    by (auto simp: CreateRouterInfoDatabaseLookupMsg_def GetPayload_16 mem_simps lookup_flags_def
        add_len_def i2np_consts Let_def split: if_splits)
next
  case (Some hs)
  let ?bs = "key @ from @ lookup_flags exploratory rt @ be_bytes 2 (length hs) @ concat hs"
  have l: "length (concat hs) = 32 * length hs" "length hs \<le> 1018"
    using assms Some by (auto simp: length_concat_hashes)
  then have "length ?bs \<le> 71 + 32 * length hs" using assms by (simp add: lookup_flags_def)
  then show ?thesis
    using Some assms l fill_patched [of "NewI2NPMessage addr" ?bs env rnd eI2NPDatabaseLookup 0]
    by (auto simp: CreateRouterInfoDatabaseLookupMsg_def GetPayload_16 mem_simps lookup_flags_def
        add_len_def i2np_consts Let_def unat_of_nat split: if_splits)
qed

lemma CreateDatabaseSearchReply_wire:
  assumes "length ident = 32" "length ours = 32" "\<forall>h \<in> set routers. length h = 32"
    and "length routers \<le> 125"
  shows "\<exists>m. CreateDatabaseSearchReply env rnd addr ours ident routers = Some m \<and>
    carries m eI2NPDatabaseSearchReply rnd env
      (ident @ [word_of_nat (length routers)] @ concat routers @ ours)"
proof -
  let ?bs = "ident @ [word_of_nat (length routers)] @ concat routers @ ours"
  have l: "length (concat routers) = 32 * length routers"
    using assms by (auto simp: length_concat_hashes)
  show ?thesis
    using assms l fill_patched [of "NewI2NPShortMessage addr" ?bs env rnd eI2NPDatabaseSearchReply 0]
    by (auto simp: CreateDatabaseSearchReply_def GetPayload_16 mem_simps add_len_def i2np_consts
        Let_def add.assoc)
qed

lemma put_at_None: "length (msg_buf m) < p + length bs \<Longrightarrow> put_at m p bs = None"
  by (simp add: put_at_def mem_write_def)

lemma put_hashes_None:
  "\<forall>h \<in> set hs. length h = 32 \<Longrightarrow> hs \<noteq> [] \<Longrightarrow> length (msg_buf m) < p + 32 * length hs \<Longrightarrow>
     put_hashes m p hs = None"
proof (induction hs arbitrary: m p)
  case Nil
  then show ?case by simp
next
  case (Cons h hs)
  show ?case
  proof (cases "p + 32 \<le> length (msg_buf m)")
    case True
    then have "hs \<noteq> []" using Cons.prems by auto
    with True Cons show ?thesis by (simp add: put_at_patch)
  next
    case False
    with Cons.prems show ?thesis by (simp add: put_at_None)
  qed
qed

text \<open>
  C12: \<open>CreateDatabaseSearchReply\<close> stays inside its buffer exactly for at most 125 routers: the
  buffer of a short message is the only bound, the code has no check of its own.
\<close>

theorem CreateDatabaseSearchReply_fits:
  assumes "length ident = 32" "length ours = 32" "\<forall>h \<in> set routers. length h = 32"
  shows "(\<exists>m. CreateDatabaseSearchReply env rnd addr ours ident routers = Some m) \<longleftrightarrow>
           length routers \<le> 125"
proof
  assume a: "\<exists>m. CreateDatabaseSearchReply env rnd addr ours ident routers = Some m"
  show "length routers \<le> 125"
  proof (rule ccontr)
    assume n: "\<not> length routers \<le> 125"
    have l: "length (concat routers) = 32 * length routers" "routers \<noteq> []"
      using assms n by (auto simp: length_concat_hashes)
    have "CreateDatabaseSearchReply env rnd addr ours ident routers = None"
      using n assms l put_hashes_None [of routers _ 51]
      by (cases "51 + 32 * length routers \<le> 4112")
        (auto simp: CreateDatabaseSearchReply_def GetPayload_16 mem_simps Let_def put_at_None
          put_hashes_None)
    then show False using a by simp
  qed
next
  assume "length routers \<le> 125"
  then show "\<exists>m. CreateDatabaseSearchReply env rnd addr ours ident routers = Some m"
    using CreateDatabaseSearchReply_wire [OF assms] by blast
qed

lemma CreateDeliveryStatusMsg_wire:
  "\<exists>m. CreateDeliveryStatusMsg env rnd rndID addr msgID = Some m \<and>
    carries m eI2NPDeliveryStatus rnd env (if msgID \<noteq> 0
      then be_bytes 4 (unat msgID) @ be_bytes 8 (unat (env_now_ms env))
      else be_bytes 4 (unat rndID) @ be_bytes 8 2)"
  using fill_patched [of "NewI2NPShortMessage addr"
      "be_bytes 4 (unat msgID) @ be_bytes 8 (unat (env_now_ms env))" env rnd eI2NPDeliveryStatus 0]
    fill_patched [of "NewI2NPShortMessage addr"
      "be_bytes 4 (unat rndID) @ be_bytes 8 2" env rnd eI2NPDeliveryStatus 0]
  by (auto simp: CreateDeliveryStatusMsg_def GetPayload_16 mem_simps add_len_def i2np_consts Let_def)

lemma NewI2NPMessage_len_simps [simp]:
  "msg_offset (NewI2NPMessage_len a n) = 2" "msg_len (NewI2NPMessage_len a n) = 18"
  "msg_from (NewI2NPMessage_len a n) = None"
  "n \<le> 2047 \<Longrightarrow> length (msg_buf (NewI2NPMessage_len a n)) = 4112"
  "2048 \<le> n \<Longrightarrow> length (msg_buf (NewI2NPMessage_len a n)) = 32784"
  by (simp_all add: NewI2NPMessage_len_def i2np_consts)

lemma NewI2NPMessage_len_room:
  "n \<le> 32000 \<Longrightarrow> n + 100 \<le> length (msg_buf (NewI2NPMessage_len a n))"
  by (cases "n \<le> 2047") simp_all

lemma CreateTunnelGatewayMsg_buf_wire:
  assumes "length buf \<le> 32000"
  shows "\<exists>m. CreateTunnelGatewayMsg_buf env rnd addr tunnelID buf = Some m \<and>
    carries m eI2NPTunnelGateway rnd env
      (be_bytes 4 (unat tunnelID) @ be_bytes 2 (length buf) @ buf)"
  using assms NewI2NPMessage_len_room [OF assms, of addr]
    fill_patched [of "NewI2NPMessage_len addr (length buf)"
      "be_bytes 4 (unat tunnelID) @ be_bytes 2 (length buf) @ buf" env rnd eI2NPTunnelGateway 0]
  by (auto simp: CreateTunnelGatewayMsg_buf_def GetPayload_16 mem_simps add_len_def i2np_consts
      Let_def unat_of_nat)

lemma CreateTunnelGatewayMsg_wire:
  assumes "msg_ok m" and "length (msg_content m) \<le> 32000"
  shows "\<exists>m'. CreateTunnelGatewayMsg env rnd addr tunnelID m = Some m' \<and>
    carries m' eI2NPTunnelGateway rnd env
      (be_bytes 4 (unat tunnelID) @ be_bytes 2 (length (msg_content m)) @ msg_content m)"
proof (cases "msg_offset m \<ge> 22")
  case False
  then show ?thesis
    using CreateTunnelGatewayMsg_buf_wire [OF assms(2)] assms(1)
    by (simp add: CreateTunnelGatewayMsg_def i2np_consts GetBuffer_def GetLength_def msg_ok_def
        mem_read_window msg_content_def)
next
  case True
  then obtain p where p: "msg_offset m = p + 22"
    by (metis add.commute le_iff_add)
  moreover from this assms(1) obtain n where n: "msg_len m = p + 22 + n"
    by (metis le_iff_add msg_ok_def)
  ultimately have lens: "p + 22 + n \<le> length (msg_buf m)"
    using assms(1) by (simp add: msg_ok_def)
  let ?c = "msg_content m" and ?h = "be_bytes 4 (unat tunnelID) @ be_bytes 2 n"
  let ?b = "patch (msg_buf m) (p + 16) ?h"
  have c: "?c = window (msg_buf m) (p + 22) n" and lc: "length ?c = n" "n \<le> 32000"
    using assms lens p n by (simp_all add: msg_content_def)
  let ?m = "m\<lparr>msg_buf := ?b, msg_offset := p, msg_len := p + 22 + n\<rparr>"
  have "window ?b (p + 16) (6 + n) = window ?b (p + 16) 6 @ window ?b (p + 22) n"
    using window_add [of ?b "p + 16" 6 n] by (simp add: add.commute)
  also have "\<dots> = ?h @ ?c"
    using lens c by (simp add: window_patch_after)
  finally have w: "window ?b (p + 16) (6 + n) = ?h @ ?c" .
  have "\<exists>m'. FillI2NPMessageHeader env rnd ?m eI2NPTunnelGateway 0 = Some m' \<and>
     carries m' eI2NPTunnelGateway rnd env (?h @ ?c)"
    using fill_carries [of ?m "?h @ ?c" env rnd eI2NPTunnelGateway 0] lens lc w by auto
  moreover have "CreateTunnelGatewayMsg env rnd addr tunnelID m =
      FillI2NPMessageHeader env rnd ?m eI2NPTunnelGateway 0"
    using lens lc(2) p n by (simp add: CreateTunnelGatewayMsg_def i2np_consts GetBuffer_def
        GetLength_def mem_simps Let_def unat_of_nat add.commute [of 16 p] add.commute [of 22 p])
  ultimately show ?thesis
    using lc by simp
qed

section \<open>Properties\<close>

theorem CreateDatabaseSearchReply_fits_witness:
  "CreateDatabaseSearchReply sample_env 7 0 (replicate 32 1) (replicate 32 2)
     (replicate 126 (replicate 32 3)) = None"
  using CreateDatabaseSearchReply_fits [of "replicate 32 2" "replicate 32 1"
      "replicate 126 (replicate 32 3)" sample_env 7 0] by auto

text \<open>
  C11: the wire format of the messages a router creates for the network database and for delivery
  status: a complete I2NP message in its buffer whose payload is laid out as the receivers of
  these messages parse it (key, sender, flags with the reply tunnel, excluded peers; the
  delivery status with the session's message ID and the time).
\<close>

theorem CreateRouterInfoDatabaseLookupMsg_wire:
  assumes "length key = 32" and "length from = 32"
    and "\<forall>h \<in> set (case excl of Some hs \<Rightarrow> hs | None \<Rightarrow> []). length h = 32"
    and "length (case excl of Some hs \<Rightarrow> hs | None \<Rightarrow> []) \<le> 1018"
  shows "\<exists>m. CreateRouterInfoDatabaseLookupMsg env rnd addr key from rt exploratory excl = Some m \<and>
    carries m eI2NPDatabaseLookup rnd env (key @ from @ lookup_flags exploratory rt @
      (case excl of Some hs \<Rightarrow> be_bytes 2 (length hs) @ concat hs | None \<Rightarrow> [0, 0]))"
  by (rule router_lookup_wire [OF assms])

theorem CreateRouterInfoDatabaseLookupMsg_wire_witness:
  "\<exists>m. CreateRouterInfoDatabaseLookupMsg sample_env 7 0 (replicate 32 1) (replicate 32 2) 5 False
      (Some [replicate 32 3]) = Some m \<and> carries m eI2NPDatabaseLookup 7 sample_env
      (replicate 32 1 @ replicate 32 2 @ [9, 0, 0, 0, 5] @ [0, 1] @ replicate 32 3)"
  using CreateRouterInfoDatabaseLookupMsg_wire [of "replicate 32 1" "replicate 32 2"
      "Some [replicate 32 3]" sample_env 7 0 5 False]
  by (simp add: lookup_flags_def be_bytes_def upt_rec)

text \<open>
  C10: \<open>CreateTunnelGatewayMsg\<close> on a message: whether it builds the gateway header in the free
  space in front of the message or copies the message into a new buffer, the result carries the
  tunnel ID, the length and the message's bytes.
\<close>

theorem CreateTunnelGatewayMsg_same_wire:
  assumes "msg_ok m" and "length (msg_content m) \<le> 32000"
  shows "\<exists>m'. CreateTunnelGatewayMsg env rnd addr tunnelID m = Some m' \<and>
    carries m' eI2NPTunnelGateway rnd env
      (be_bytes 4 (unat tunnelID) @ be_bytes 2 (length (msg_content m)) @ msg_content m)"
  by (rule CreateTunnelGatewayMsg_wire [OF assms])

lemma sample_content: "msg_content sample_msg = i2np_header 20 7 1000 3 9 @ [1, 2, 3]"
  using msg_content_header_payload [OF sample_msg_facts(1)] sample_msg_facts(2,3) by simp

theorem CreateTunnelGatewayMsg_same_wire_witness:
  "\<exists>m'. CreateTunnelGatewayMsg sample_env 7 0 5 sample_msg = Some m' \<and>
    carries m' eI2NPTunnelGateway 7 sample_env
      ([0, 0, 0, 5] @ [0, 19] @ i2np_header 20 7 1000 3 9 @ [1, 2, 3])"
  using CreateTunnelGatewayMsg_same_wire [OF has_header_ok [OF sample_msg_facts(1)], of sample_env 7 0 5]
  by (simp add: sample_content be_bytes_def upt_rec)

end
