(* ===== verification/Kovri_Interfaces.thy ===== *)
theory Kovri_Interfaces
  imports Kovri_Prelude
begin

text \<open>
  The interfaces several components share, as locales; each is interpreted in the theories of the
  components that provide it.

  \<open>codec\<close>: a printer and a reader of valid values. \<open>layer_cipher\<close>: a length-preserving cipher that is
  applied in layers, one key of a list after the other.
\<close>

section \<open>Codecs\<close>

locale codec =
  fixes encode :: "'a \<Rightarrow> 'b" and decode :: "'b \<Rightarrow> 'a option" and valid :: "'a \<Rightarrow> bool"
  assumes decode_encode: "valid x \<Longrightarrow> decode (encode x) = Some x"
begin

lemma encode_eq_iff: "valid x \<Longrightarrow> valid y \<Longrightarrow> encode x = encode y \<longleftrightarrow> x = y"
  by (metis decode_encode option.inject)

lemma inj_on_encode: "inj_on encode (Collect valid)"
  by (simp add: inj_on_def encode_eq_iff)

lemma decode_in_image: "valid x \<Longrightarrow> s = encode x \<Longrightarrow> decode s = Some y \<longleftrightarrow> y = x"
  by (auto simp: decode_encode)

end

section \<open>Layered encryption\<close>

locale layer_cipher =
  fixes enc :: "'k \<Rightarrow> bytes \<Rightarrow> bytes" and dec :: "'k \<Rightarrow> bytes \<Rightarrow> bytes" and key_ok :: "'k \<Rightarrow> bool" and size :: nat
  assumes length_enc: "key_ok k \<Longrightarrow> length b = size \<Longrightarrow> length (enc k b) = size"
    and length_dec: "key_ok k \<Longrightarrow> length b = size \<Longrightarrow> length (dec k b) = size"
    and enc_dec: "key_ok k \<Longrightarrow> length b = size \<Longrightarrow> enc k (dec k b) = b"
    and dec_enc: "key_ok k \<Longrightarrow> length b = size \<Longrightarrow> dec k (enc k b) = b"
begin

lemma length_layers:
  assumes "\<forall>k \<in> set ks. key_ok k" and "length b = size"
  shows "length (foldr dec ks b) = size" "length (fold enc ks b) = size"
  using assms by (induction ks arbitrary: b) (auto simp: length_enc length_dec)

lemma layers_removed:
  "\<forall>k \<in> set ks. key_ok k \<Longrightarrow> length b = size \<Longrightarrow> foldr dec ks (fold enc ks b) = b"
  by (induction ks arbitrary: b) (auto simp: length_enc dec_enc)

lemma layers_added:
  "\<forall>k \<in> set ks. key_ok k \<Longrightarrow> length b = size \<Longrightarrow> fold enc ks (foldr dec ks b) = b"
  by (induction ks arbitrary: b) (auto simp: length_layers enc_dec)

text \<open>Every block is the layered encryption of exactly one block.\<close>

lemma layers_inject:
  "\<forall>k \<in> set ks. key_ok k \<Longrightarrow> length a = size \<Longrightarrow> length b = size \<Longrightarrow> fold enc ks a = fold enc ks b \<Longrightarrow> a = b"
  by (metis layers_removed)

end

end
