(* ===== verification/Tunnel_Crypto.thy ===== *)
theory Tunnel_Crypto
  imports I2NP_Create Kovri_Interfaces
begin

text \<open>
  \<open>src/core/crypto/AES.cpp\<close>, \<open>AES.h\<close> and \<open>src/core/crypto/Tunnel\<close> (\<open>tunnel/TunnelCrypto.cpp\<close>):
  CBC chaining on 16-byte blocks and the layer encryption of tunnel messages with its double IV
  encryption. Both the portable path (CryptoPP) and the AES-NI path of the source are modelled.

  The AES-256 block cipher itself (CryptoPP, or the processor's instructions) is the parameter
  \<open>aes_env\<close>; \<open>aes_ok\<close> says what is documented of it: on 16-byte blocks encryption and decryption
  under the same key are inverse.
\<close>

record aes_env =
  aes_enc :: "bytes \<Rightarrow> bytes \<Rightarrow> bytes"
  aes_dec :: "bytes \<Rightarrow> bytes \<Rightarrow> bytes"

definition aes_ok :: "aes_env \<Rightarrow> bool" where
  "aes_ok aes \<longleftrightarrow> (\<forall>k b. length b = 16 \<longrightarrow>
     length (aes_enc aes k b) = 16 \<and> length (aes_dec aes k b) = 16 \<and>
     aes_dec aes k (aes_enc aes k b) = b \<and> aes_enc aes k (aes_dec aes k b) = b)"

section \<open>Blocks\<close>

text \<open>\<open>CipherBlock::operator^=\<close>.\<close>

definition block_xor :: "bytes \<Rightarrow> bytes \<Rightarrow> bytes" where
  "block_xor a b = map2 (XOR) a b"

lemma length_block_xor [simp]: "length (block_xor a b) = min (length a) (length b)"
  by (simp add: block_xor_def)

lemma block_xor_cancel: "length a = length b \<Longrightarrow> block_xor (block_xor a b) b = a"
proof (induction a b rule: list_induct2)
  case Nil
  then show ?case by (simp add: block_xor_def)
next
  case (Cons x xs y ys)
  then show ?case
    by (simp add: block_xor_def bit_eq_iff bit_xor_iff) blast
qed

lemma block_xor_cancel2: "length a = length b \<Longrightarrow> block_xor a (block_xor a b) = b"
proof (induction a b rule: list_induct2)
  case Nil
  then show ?case by (simp add: block_xor_def)
next
  case (Cons x xs y ys)
  then show ?case
    by (simp add: block_xor_def bit_eq_iff bit_xor_iff)
qed

lemma block_xor_commute: "block_xor a b = block_xor b a"
  by (rule nth_equalityI) (auto simp: block_xor_def xor.commute)

text \<open>The \<open>n\<close> blocks at the start of a buffer, \<open>reinterpret_cast<const CipherBlock *>(in)\<close>.\<close>

fun cipher_blocks :: "nat \<Rightarrow> bytes \<Rightarrow> bytes list" where
  "cipher_blocks 0 bs = []"
| "cipher_blocks (Suc n) bs = take 16 bs # cipher_blocks n (drop 16 bs)"

lemma cipher_blocks_length [simp]: "length (cipher_blocks n bs) = n"
  by (induction n bs rule: cipher_blocks.induct) auto

lemma cipher_blocks_16: "length bs = 16 * n \<Longrightarrow> \<forall>b \<in> set (cipher_blocks n bs). length b = 16"
  by (induction n bs rule: cipher_blocks.induct) auto

lemma concat_cipher_blocks: "length bs = 16 * n \<Longrightarrow> concat (cipher_blocks n bs) = bs"
  by (induction n bs rule: cipher_blocks.induct) auto

lemma cipher_blocks_concat: "\<forall>b \<in> set bs. length b = 16 \<Longrightarrow> cipher_blocks (length bs) (concat bs) = bs"
  by (induction bs) auto

section \<open>CBCEncryption and CBCDecryption\<close>

text \<open>
  The chaining loops, with the ECB operation of the set key as argument. The first component is
  \<open>m_LastBlock\<close> respectively \<open>m_IV\<close> afterwards, the second the blocks of \<open>out\<close>. Each round reads
  \<open>in[i]\<close> before it writes \<open>out[i]\<close>, so \<open>in\<close> and \<open>out\<close> may be the same buffer.
\<close>

fun CBCEncryption_Encrypt :: "(bytes \<Rightarrow> bytes) \<Rightarrow> bytes \<Rightarrow> bytes list \<Rightarrow> bytes \<times> bytes list" where
  "CBCEncryption_Encrypt ecb lastBlock [] = (lastBlock, [])"
| "CBCEncryption_Encrypt ecb lastBlock (b # bs) =
     (let lastBlock = ecb (block_xor lastBlock b);
          (l, out) = CBCEncryption_Encrypt ecb lastBlock bs
      in (l, lastBlock # out))"

fun CBCDecryption_Decrypt :: "(bytes \<Rightarrow> bytes) \<Rightarrow> bytes \<Rightarrow> bytes list \<Rightarrow> bytes \<times> bytes list" where
  "CBCDecryption_Decrypt ecb iv [] = (iv, [])"
| "CBCDecryption_Decrypt ecb iv (b # bs) =
     (let tmp = b;
          o1 = block_xor (ecb b) iv;
          (l, out) = CBCDecryption_Decrypt ecb tmp bs
      in (l, o1 # out))"

text \<open>The overloads on a byte buffer of \<open>len\<close> bytes: only whole blocks are processed.\<close>

definition CBCEncryption_Encrypt_buf :: "(bytes \<Rightarrow> bytes) \<Rightarrow> bytes \<Rightarrow> bytes \<Rightarrow> bytes \<times> bytes" where
  "CBCEncryption_Encrypt_buf ecb lastBlock bs =
     (let (l, out) = CBCEncryption_Encrypt ecb lastBlock (cipher_blocks (length bs div 16) bs)
      in (l, concat out @ drop (length bs div 16 * 16) bs))"

definition CBCDecryption_Decrypt_buf :: "(bytes \<Rightarrow> bytes) \<Rightarrow> bytes \<Rightarrow> bytes \<Rightarrow> bytes \<times> bytes" where
  "CBCDecryption_Decrypt_buf ecb iv bs =
     (let (l, out) = CBCDecryption_Decrypt ecb iv (cipher_blocks (length bs div 16) bs)
      in (l, concat out @ drop (length bs div 16 * 16) bs))"

text \<open>
  The AES-NI loop of \<open>CBCEncryption::Encrypt\<close>: \<open>xmm1\<close> is the chaining block, \<open>dec num; jnz 1b\<close>
  runs the body at least once and while the counter is not zero.
\<close>

fun aesni_cbc_encrypt :: "(bytes \<Rightarrow> bytes) \<Rightarrow> nat \<Rightarrow> bytes \<Rightarrow> bytes \<Rightarrow> bytes \<times> bytes" where
  "aesni_cbc_encrypt ecb 0 xmm1 bs = (xmm1, [])"
| "aesni_cbc_encrypt ecb (Suc num) xmm1 bs =
     (let xmm0 = take 16 bs;
          xmm0 = block_xor xmm0 xmm1;
          xmm0 = ecb xmm0;
          xmm1 = xmm0;
          (x, out) = aesni_cbc_encrypt ecb num xmm1 (drop 16 bs)
      in (x, xmm0 @ out))"

fun aesni_cbc_decrypt :: "(bytes \<Rightarrow> bytes) \<Rightarrow> nat \<Rightarrow> bytes \<Rightarrow> bytes \<Rightarrow> bytes \<times> bytes" where
  "aesni_cbc_decrypt ecb 0 xmm1 bs = (xmm1, [])"
| "aesni_cbc_decrypt ecb (Suc num) xmm1 bs =
     (let xmm0 = take 16 bs;
          xmm2 = xmm0;
          xmm0 = ecb xmm0;
          xmm0 = block_xor xmm0 xmm1;
          xmm1 = xmm2;
          (x, out) = aesni_cbc_decrypt ecb num xmm1 (drop 16 bs)
      in (x, xmm0 @ out))"

lemma aesni_cbc_encrypt_eq:
  "aesni_cbc_encrypt ecb n iv bs =
     (let (l, out) = CBCEncryption_Encrypt ecb iv (cipher_blocks n bs) in (l, concat out))"
  by (induction n arbitrary: iv bs) (auto simp: Let_def block_xor_commute split: prod.splits)

lemma aesni_cbc_decrypt_eq:
  "aesni_cbc_decrypt ecb n iv bs =
     (let (l, out) = CBCDecryption_Decrypt ecb iv (cipher_blocks n bs) in (l, concat out))"
  by (induction n arbitrary: iv bs) (auto simp: Let_def split: prod.splits)

section \<open>Chaining is inverted\<close>

definition ecb_inverse :: "(bytes \<Rightarrow> bytes) \<Rightarrow> (bytes \<Rightarrow> bytes) \<Rightarrow> bool" where
  "ecb_inverse f g \<longleftrightarrow> (\<forall>b. length b = 16 \<longrightarrow> length (f b) = 16 \<and> length (g b) = 16 \<and> g (f b) = b)"

lemma aes_ok_inverse:
  "aes_ok aes \<Longrightarrow> ecb_inverse (aes_enc aes k) (aes_dec aes k)"
  "aes_ok aes \<Longrightarrow> ecb_inverse (aes_dec aes k) (aes_enc aes k)"
  by (auto simp: aes_ok_def ecb_inverse_def)

lemma ecb_inverseD:
  "ecb_inverse f g \<Longrightarrow> length b = 16 \<Longrightarrow> g (f b) = b"
  "ecb_inverse f g \<Longrightarrow> length b = 16 \<Longrightarrow> length (f b) = 16"
  by (auto simp: ecb_inverse_def)

lemma cbc_enc_16:
  "ecb_inverse e d \<Longrightarrow> \<forall>b \<in> set bs. length b = 16 \<Longrightarrow> length iv = 16 \<Longrightarrow>
     (\<forall>b \<in> set (snd (CBCEncryption_Encrypt e iv bs)). length b = 16) \<and>
     length (snd (CBCEncryption_Encrypt e iv bs)) = length bs"
  by (induction e iv bs rule: CBCEncryption_Encrypt.induct)
    (auto simp: Let_def ecb_inverseD(2) split: prod.splits)

lemma cbc_dec_16:
  "ecb_inverse d e \<Longrightarrow> \<forall>b \<in> set bs. length b = 16 \<Longrightarrow> length iv = 16 \<Longrightarrow>
     (\<forall>b \<in> set (snd (CBCDecryption_Decrypt d iv bs)). length b = 16) \<and>
     length (snd (CBCDecryption_Decrypt d iv bs)) = length bs"
  by (induction d iv bs rule: CBCDecryption_Decrypt.induct)
    (auto simp: Let_def ecb_inverseD(2) split: prod.splits)

lemma cbc_decrypt_encrypt:
  "ecb_inverse e d \<Longrightarrow> \<forall>b \<in> set bs. length b = 16 \<Longrightarrow> length iv = 16 \<Longrightarrow>
     snd (CBCDecryption_Decrypt d iv (snd (CBCEncryption_Encrypt e iv bs))) = bs"
proof (induction bs arbitrary: iv)
  case Nil
  then show ?case by simp
next
  case (Cons b bs)
  let ?c = "e (block_xor iv b)"
  have c: "length ?c = 16" "d ?c = block_xor iv b"
    using Cons.prems by (simp_all add: ecb_inverseD)
  have "block_xor (block_xor b iv) iv = b"
    by (rule block_xor_cancel) (use Cons.prems in simp)
  then have "block_xor (d ?c) iv = b"
    unfolding c(2) by (simp add: block_xor_commute)
  then show ?case
    using Cons c(1) by (auto simp: Let_def split: prod.splits) (metis snd_conv)+
qed

lemma cbc_encrypt_decrypt:
  "ecb_inverse d e \<Longrightarrow> \<forall>b \<in> set bs. length b = 16 \<Longrightarrow> length iv = 16 \<Longrightarrow>
     snd (CBCEncryption_Encrypt e iv (snd (CBCDecryption_Decrypt d iv bs))) = bs"
proof (induction bs arbitrary: iv)
  case Nil
  then show ?case by simp
next
  case (Cons b bs)
  have "block_xor iv (block_xor (d b) iv) = d b"
    unfolding block_xor_commute [of "d b" iv] by (rule block_xor_cancel2) (use Cons.prems ecb_inverseD(2) in simp)
  then have "e (block_xor iv (block_xor (d b) iv)) = b"
    using Cons.prems by (simp add: ecb_inverseD)
  then show ?case
    using Cons by (auto simp: Let_def split: prod.splits) (metis snd_conv)+
qed

section \<open>CBC on byte buffers\<close>

lemma cbc_buf_blocks:
  assumes "length bs = 16 * n"
  shows "snd (CBCEncryption_Encrypt_buf e iv bs) = concat (snd (CBCEncryption_Encrypt e iv (cipher_blocks n bs)))"
    and "snd (CBCDecryption_Decrypt_buf d iv bs) = concat (snd (CBCDecryption_Decrypt d iv (cipher_blocks n bs)))"
  using assms
  by (simp_all add: CBCEncryption_Encrypt_buf_def CBCDecryption_Decrypt_buf_def split: prod.splits)

lemma cbc_buf_length:
  assumes "length bs = 16 * n" and "length iv = 16"
  shows "ecb_inverse e d \<Longrightarrow> length (snd (CBCEncryption_Encrypt_buf e iv bs)) = 16 * n"
    and "ecb_inverse d e \<Longrightarrow> length (snd (CBCDecryption_Decrypt_buf d iv bs)) = 16 * n"
proof -
  have l: "\<forall>b \<in> set xs. length b = 16 \<Longrightarrow> length (concat xs) = 16 * length xs" for xs :: "bytes list"
    by (induction xs) auto
  show "ecb_inverse e d \<Longrightarrow> length (snd (CBCEncryption_Encrypt_buf e iv bs)) = 16 * n"
    using cbc_enc_16 [OF _ cipher_blocks_16 [OF assms(1)] assms(2), of e d]
    by (simp add: cbc_buf_blocks [OF assms(1)] l)
  show "ecb_inverse d e \<Longrightarrow> length (snd (CBCDecryption_Decrypt_buf d iv bs)) = 16 * n"
    using cbc_dec_16 [OF _ cipher_blocks_16 [OF assms(1)] assms(2), of d e]
    by (simp add: cbc_buf_blocks [OF assms(1)] l)
qed

lemma cbc_buf_inverse:
  assumes bs: "length bs = 16 * n" and iv: "length iv = 16"
  shows "ecb_inverse e d \<Longrightarrow>
      snd (CBCDecryption_Decrypt_buf d iv (snd (CBCEncryption_Encrypt_buf e iv bs))) = bs"
    and "ecb_inverse d e \<Longrightarrow>
      snd (CBCEncryption_Encrypt_buf e iv (snd (CBCDecryption_Decrypt_buf d iv bs))) = bs"
proof -
  let ?bl = "cipher_blocks n bs"
  note bl = cipher_blocks_16 [OF bs]
  { assume e: "ecb_inverse e d"
    note c = cbc_enc_16 [OF e bl iv]
    have "cipher_blocks n (concat (snd (CBCEncryption_Encrypt e iv ?bl))) = snd (CBCEncryption_Encrypt e iv ?bl)"
      using cipher_blocks_concat [of "snd (CBCEncryption_Encrypt e iv ?bl)"] c by simp
    then show "snd (CBCDecryption_Decrypt_buf d iv (snd (CBCEncryption_Encrypt_buf e iv bs))) = bs"
      using cbc_buf_blocks(2) [OF cbc_buf_length(1) [OF bs iv e], of d iv] cbc_decrypt_encrypt [OF e bl iv]
        cbc_buf_blocks(1) [OF bs, of e iv] concat_cipher_blocks [OF bs] by simp }
  { assume d: "ecb_inverse d e"
    note c = cbc_dec_16 [OF d bl iv]
    have "cipher_blocks n (concat (snd (CBCDecryption_Decrypt d iv ?bl))) = snd (CBCDecryption_Decrypt d iv ?bl)"
      using cipher_blocks_concat [of "snd (CBCDecryption_Decrypt d iv ?bl)"] c by simp
    then show "snd (CBCEncryption_Encrypt_buf e iv (snd (CBCDecryption_Decrypt_buf d iv bs))) = bs"
      using cbc_buf_blocks(1) [OF cbc_buf_length(2) [OF bs iv d], of e iv] cbc_encrypt_decrypt [OF d bl iv]
        cbc_buf_blocks(2) [OF bs, of d iv] concat_cipher_blocks [OF bs] by simp }
qed

section \<open>TunnelEncryption and TunnelDecryption\<close>

text \<open>
  1024 bytes: 16 of IV and 1008 of data. The keys are those of \<open>SetKeys\<close>. The portable path
  calls CBC with the once encrypted IV and encrypts the IV a second time afterwards.
\<close>

record tunnel_keys =
  tk_layer :: bytes
  tk_iv :: bytes

definition TunnelEncryption_Encrypt :: "aes_env \<Rightarrow> tunnel_keys \<Rightarrow> bytes \<Rightarrow> bytes" where
  "TunnelEncryption_Encrypt aes keys bs =
     (let ecb = aes_enc aes (tk_iv keys);
          out_iv = ecb (take 16 bs);
          (_, out) = CBCEncryption_Encrypt_buf (aes_enc aes (tk_layer keys)) out_iv (take 1008 (drop 16 bs))
      in ecb out_iv @ out)"

definition TunnelDecryption_Decrypt :: "aes_env \<Rightarrow> tunnel_keys \<Rightarrow> bytes \<Rightarrow> bytes" where
  "TunnelDecryption_Decrypt aes keys bs =
     (let ecb = aes_dec aes (tk_iv keys);
          out_iv = ecb (take 16 bs);
          (_, out) = CBCDecryption_Decrypt_buf (aes_dec aes (tk_layer keys)) out_iv (take 1008 (drop 16 bs))
      in ecb out_iv @ out)"

text \<open>The AES-NI path writes the doubly encrypted IV first and runs 63 blocks.\<close>

definition TunnelEncryption_Encrypt_aesni :: "aes_env \<Rightarrow> tunnel_keys \<Rightarrow> bytes \<Rightarrow> bytes" where
  "TunnelEncryption_Encrypt_aesni aes keys bs =
     (let xmm0 = aes_enc aes (tk_iv keys) (take 16 bs);
          xmm1 = xmm0;
          xmm0 = aes_enc aes (tk_iv keys) xmm0;
          (_, out) = aesni_cbc_encrypt (aes_enc aes (tk_layer keys)) 63 xmm1 (drop 16 bs)
      in xmm0 @ out)"

definition TunnelDecryption_Decrypt_aesni :: "aes_env \<Rightarrow> tunnel_keys \<Rightarrow> bytes \<Rightarrow> bytes" where
  "TunnelDecryption_Decrypt_aesni aes keys bs =
     (let xmm0 = aes_dec aes (tk_iv keys) (take 16 bs);
          xmm1 = xmm0;
          xmm0 = aes_dec aes (tk_iv keys) xmm0;
          (_, out) = aesni_cbc_decrypt (aes_dec aes (tk_layer keys)) 63 xmm1 (drop 16 bs)
      in xmm0 @ out)"

lemma tunnel_crypto_inverse:
  assumes aes: "aes_ok aes" and bs: "length bs = 1024"
  shows "TunnelEncryption_Encrypt aes keys (TunnelDecryption_Decrypt aes keys bs) = bs"
    and "TunnelDecryption_Decrypt aes keys (TunnelEncryption_Encrypt aes keys bs) = bs"
    and "length (TunnelDecryption_Decrypt aes keys bs) = 1024"
    and "length (TunnelEncryption_Encrypt aes keys bs) = 1024"
proof -
  let ?iv = "take 16 bs" and ?d = "take 1008 (drop 16 bs)"
  have l: "length ?iv = 16" "length ?d = 16 * 63" "?iv @ ?d = bs"
    using bs by simp_all
  note iv = aes_ok_inverse [OF aes, of "tk_iv keys"] and ly = aes_ok_inverse [OF aes, of "tk_layer keys"]
  let ?ie = "aes_enc aes (tk_iv keys)" and ?id = "aes_dec aes (tk_iv keys)"
  let ?le = "aes_enc aes (tk_layer keys)" and ?ld = "aes_dec aes (tk_layer keys)"
  have n: "length (?ie ?iv) = 16" "length (?id ?iv) = 16" "length (?ie (?ie ?iv)) = 16" "length (?id (?id ?iv)) = 16"
    using l(1) ecb_inverseD(2) [OF iv(1)] ecb_inverseD(2) [OF iv(2)] by simp_all
  have c: "?ie (?ie (?id (?id ?iv))) = ?iv" "?id (?id (?ie (?ie ?iv))) = ?iv"
    "?ie (?id (?id ?iv)) = ?id ?iv" "?id (?ie (?ie ?iv)) = ?ie ?iv"
    using l(1) n ecb_inverseD(1) [OF iv(1)] ecb_inverseD(1) [OF iv(2)] by simp_all
  define x where "x = snd (CBCDecryption_Decrypt_buf ?ld (?id ?iv) ?d)"
  define y where "y = snd (CBCEncryption_Encrypt_buf ?le (?ie ?iv) ?d)"
  have xy: "length x = 16 * 63" "length y = 16 * 63"
    unfolding x_def y_def by (rule cbc_buf_length [OF l(2) n(2)] cbc_buf_length [OF l(2) n(1)], rule ly)+
  have dec: "TunnelDecryption_Decrypt aes keys bs = ?id (?id ?iv) @ x"
    and enc: "TunnelEncryption_Encrypt aes keys bs = ?ie (?ie ?iv) @ y"
    by (simp_all add: TunnelDecryption_Decrypt_def TunnelEncryption_Encrypt_def Let_def x_def y_def
        split: prod.splits)
  show "length (TunnelDecryption_Decrypt aes keys bs) = 1024" "length (TunnelEncryption_Encrypt aes keys bs) = 1024"
    unfolding dec enc using xy n by simp_all
  have "snd (CBCEncryption_Encrypt_buf ?le (?id ?iv) x) = ?d"
    unfolding x_def by (rule cbc_buf_inverse(2) [OF l(2) n(2) ly(2)])
  then show "TunnelEncryption_Encrypt aes keys (TunnelDecryption_Decrypt aes keys bs) = bs"
    unfolding dec using n c xy l(3)
    by (simp add: TunnelEncryption_Encrypt_def Let_def case_prod_beta)
  have "snd (CBCDecryption_Decrypt_buf ?ld (?ie ?iv) y) = ?d"
    unfolding y_def by (rule cbc_buf_inverse(1) [OF l(2) n(1) ly(1)])
  then show "TunnelDecryption_Decrypt aes keys (TunnelEncryption_Encrypt aes keys bs) = bs"
    unfolding enc using n c xy l(3)
    by (simp add: TunnelDecryption_Decrypt_def Let_def case_prod_beta)
qed

text \<open>The layer encryption of a tunnel is a layered cipher; a key is an AES and the keys of a hop.\<close>

interpretation layer: layer_cipher "\<lambda>(aes, keys). TunnelEncryption_Encrypt aes keys"
  "\<lambda>(aes, keys). TunnelDecryption_Decrypt aes keys" "\<lambda>(aes, keys). aes_ok aes" 1024
  by unfold_locales (auto simp: tunnel_crypto_inverse)

lemma fold_layers:
  "fold (\<lambda>(aes, keys). f aes keys) (map (Pair aes) ks) b = fold (f aes) ks b"
  "foldr (\<lambda>(aes, keys). f aes keys) (map (Pair aes) ks) b = foldr (f aes) ks b"
  by (simp_all add: fold_map foldr_map comp_def)

section \<open>Properties\<close>

text \<open>A block cipher for the witnesses.\<close>

definition xor_aes :: aes_env where
  "xor_aes = \<lparr>aes_enc = (\<lambda>k b. map ((XOR) 165) b), aes_dec = (\<lambda>k b. map ((XOR) 165) b)\<rparr>"

lemma xor_aes_ok: "aes_ok xor_aes"
proof -
  have x: "(165 :: byte) XOR (165 XOR b) = b" for b
    by (simp add: xor.assoc [symmetric] del: bit.xor_left_self) 
  then show ?thesis by (simp add: aes_ok_def xor_aes_def comp_def)
qed

text \<open>
  C5: layer encryption and layer decryption of a tunnel message are inverse in both orders, for
  any keys and any 1024 bytes: what the tunnel's owner takes off, a hop puts on, and conversely.
\<close>

theorem tunnel_layer_inverse:
  assumes "aes_ok aes" and "length bs = 1024"
  shows "TunnelEncryption_Encrypt aes keys (TunnelDecryption_Decrypt aes keys bs) = bs \<and>
    TunnelDecryption_Decrypt aes keys (TunnelEncryption_Encrypt aes keys bs) = bs"
  using tunnel_crypto_inverse [OF assms] by blast

theorem tunnel_layer_inverse_witness:
  "TunnelEncryption_Encrypt xor_aes \<lparr>tk_layer = [], tk_iv = []\<rparr>
     (TunnelDecryption_Decrypt xor_aes \<lparr>tk_layer = [], tk_iv = []\<rparr> (replicate 1024 7)) = replicate 1024 7"
  using tunnel_layer_inverse [OF xor_aes_ok, of "replicate 1024 7" "\<lparr>tk_layer = [], tk_iv = []\<rparr>"] by simp



end
