(* ===== verification/Tunnel_Config.thy ===== *)
theory Tunnel_Config
  imports Crypto_ElGamal Tunnel_Crypto
begin

text \<open>
  \<open>src/core/tunnel/TunnelConfig.h\<close>: the hops of a tunnel and the build request record of a hop.

  The doubly linked list of hops is the list of its records, first hop first. What the random
  generator fills in, and the uninitialised \<open>replyKey\<close>, come from the parameter \<open>hop_rnd\<close>. A
  router is its identity hash and its ElGamal public key.
\<close>

section \<open>Constants\<close>

definition TUNNEL_BUILD_RECORD_SIZE :: nat where [i2np_consts]: "TUNNEL_BUILD_RECORD_SIZE = 528"
definition RECEIVE_TUNNEL_OFFSET :: nat where [i2np_consts]: "RECEIVE_TUNNEL_OFFSET = 0"
definition OUR_IDENT_OFFSET :: nat where [i2np_consts]: "OUR_IDENT_OFFSET = RECEIVE_TUNNEL_OFFSET + 4"
definition NEXT_TUNNEL_OFFSET :: nat where [i2np_consts]: "NEXT_TUNNEL_OFFSET = OUR_IDENT_OFFSET + 32"
definition NEXT_IDENT_OFFSET :: nat where [i2np_consts]: "NEXT_IDENT_OFFSET = NEXT_TUNNEL_OFFSET + 4"
definition LAYER_KEY_OFFSET :: nat where [i2np_consts]: "LAYER_KEY_OFFSET = NEXT_IDENT_OFFSET + 32"
definition IV_KEY_OFFSET :: nat where [i2np_consts]: "IV_KEY_OFFSET = LAYER_KEY_OFFSET + 32"
definition REPLY_KEY_OFFSET :: nat where [i2np_consts]: "REPLY_KEY_OFFSET = IV_KEY_OFFSET + 32"
definition REPLY_IV_OFFSET :: nat where [i2np_consts]: "REPLY_IV_OFFSET = REPLY_KEY_OFFSET + 32"
definition FLAG_OFFSET :: nat where [i2np_consts]: "FLAG_OFFSET = REPLY_IV_OFFSET + 16"
definition REQUEST_TIME_OFFSET :: nat where [i2np_consts]: "REQUEST_TIME_OFFSET = FLAG_OFFSET + 1"
definition SEND_MSG_ID_OFFSET :: nat where [i2np_consts]: "SEND_MSG_ID_OFFSET = REQUEST_TIME_OFFSET + 4"
definition CLEAR_TEXT_SIZE :: nat where [i2np_consts]: "CLEAR_TEXT_SIZE = 222"
definition RESPONSE_PADDING_OFFSET :: nat where [i2np_consts]: "RESPONSE_PADDING_OFFSET = 32"
definition RESPONSE_PADDING_SIZE :: nat where [i2np_consts]: "RESPONSE_PADDING_SIZE = 495"
definition RESPONSE_RET_OFFSET :: nat where [i2np_consts]:
  "RESPONSE_RET_OFFSET = RESPONSE_PADDING_OFFSET + RESPONSE_PADDING_SIZE"

section \<open>TunnelHopConfig\<close>

record router_ref =
  rr_ident :: ident_hash
  rr_encryptionKey :: bytes

record hop_config =
  hop_router :: router_ref
  hop_nextRouter :: "router_ref option"
  hop_tunnelID :: "32 word"
  hop_nextTunnelID :: "32 word"
  hop_layerKey :: bytes
  hop_ivKey :: bytes
  hop_replyKey :: bytes
  hop_replyIV :: bytes
  hop_isGateway :: bool
  hop_isEndpoint :: bool
  hop_recordIndex :: nat

record hop_rnd =
  hr_layerKey :: bytes
  hr_ivKey :: bytes
  hr_replyIV :: bytes
  hr_tunnelID :: "32 word"
  hr_nextTunnelID :: "32 word"
  hr_replyKey :: bytes

definition TunnelHopConfig :: "hop_rnd \<Rightarrow> router_ref \<Rightarrow> hop_config" where
  "TunnelHopConfig rnd r = \<lparr>hop_router = r, hop_nextRouter = None, hop_tunnelID = hr_tunnelID rnd,
     hop_nextTunnelID = 0, hop_layerKey = hr_layerKey rnd, hop_ivKey = hr_ivKey rnd,
     hop_replyKey = hr_replyKey rnd, hop_replyIV = hr_replyIV rnd, hop_isGateway = True,
     hop_isEndpoint = True, hop_recordIndex = 0\<rparr>"

definition SetNextRouter :: "hop_rnd \<Rightarrow> router_ref \<Rightarrow> hop_config \<Rightarrow> hop_config" where
  "SetNextRouter rnd r hop = hop\<lparr>hop_nextRouter := Some r, hop_isEndpoint := False,
     hop_nextTunnelID := hr_nextTunnelID rnd\<rparr>"

definition SetReplyHop :: "hop_config \<Rightarrow> hop_config \<Rightarrow> hop_config" where
  "SetReplyHop replyFirstHop hop = hop\<lparr>hop_nextRouter := Some (hop_router replyFirstHop),
     hop_nextTunnelID := hop_tunnelID replyFirstHop, hop_isEndpoint := True\<rparr>"

text \<open>\<open>SetNext\<close> changes both hops.\<close>

definition SetNext :: "hop_config \<Rightarrow> hop_config \<Rightarrow> hop_config \<times> hop_config" where
  "SetNext hop n = (hop\<lparr>hop_isEndpoint := False, hop_nextRouter := Some (hop_router n),
     hop_nextTunnelID := hop_tunnelID n\<rparr>, n\<lparr>hop_isGateway := False\<rparr>)"

section \<open>TunnelConfig\<close>

text \<open>The loop of the constructor: \<open>prev\<close> is the last hop so far.\<close>

fun link_peers :: "hop_config \<Rightarrow> (hop_rnd \<times> router_ref) list \<Rightarrow> hop_config list" where
  "link_peers prev [] = [prev]"
| "link_peers prev ((rnd, r) # peers) =
     (let (p, n) = SetNext prev (TunnelHopConfig rnd r) in p # link_peers n peers)"

definition map_first :: "('a \<Rightarrow> 'a) \<Rightarrow> 'a list \<Rightarrow> 'a list" where
  "map_first f xs = (case xs of [] \<Rightarrow> [] | x # xs \<Rightarrow> f x # xs)"

definition map_last :: "('a \<Rightarrow> 'a) \<Rightarrow> 'a list \<Rightarrow> 'a list" where
  "map_last f xs = (if xs = [] then [] else butlast xs @ [f (last xs)])"

text \<open>
  \<open>replyTunnelConfig = nullptr\<close> means inbound. An empty list of peers leaves the hop pointers of
  the object uninitialised (\<^term>\<open>None\<close>).
\<close>

definition TunnelConfig :: "router_ref \<Rightarrow> hop_rnd \<Rightarrow> (hop_rnd \<times> router_ref) list \<Rightarrow> hop_config list option \<Rightarrow>
    hop_config list option" where
  "TunnelConfig own rnd peers replyTunnelConfig = (case peers of
       [] \<Rightarrow> None
     | (r1, p1) # rest \<Rightarrow>
         (let hops = link_peers (TunnelHopConfig r1 p1) rest in
          case replyTunnelConfig of
            Some reply \<Rightarrow> Some (map_last (SetReplyHop (hd reply)) (map_first (\<lambda>h. h\<lparr>hop_isGateway := False\<rparr>) hops))
          | None \<Rightarrow> Some (map_last (SetNextRouter rnd own) hops)))"

definition GetNumHops :: "hop_config list \<Rightarrow> nat" where "GetNumHops hops = length hops"

definition IsInbound :: "hop_config list \<Rightarrow> bool" where "IsInbound hops = hop_isGateway (hd hops)"

definition GetPeers :: "hop_config list \<Rightarrow> router_ref list" where "GetPeers hops = map hop_router hops"

definition Invert :: "router_ref \<Rightarrow> hop_rnd \<Rightarrow> hop_rnd list \<Rightarrow> hop_config list \<Rightarrow> hop_config list option" where
  "Invert own rnd rnds hops =
     (let peers = zip rnds (rev (GetPeers hops)) in
      if IsInbound hops then TunnelConfig own rnd peers (Some hops) else TunnelConfig own rnd peers None)"

definition Clone :: "router_ref \<Rightarrow> hop_rnd \<Rightarrow> hop_rnd list \<Rightarrow> hop_config list \<Rightarrow> hop_config list option \<Rightarrow>
    hop_config list option" where
  "Clone own rnd rnds hops replyTunnelConfig = TunnelConfig own rnd (zip rnds (GetPeers hops)) replyTunnelConfig"

section \<open>The chain of hops is well formed\<close>

text \<open>
  Every hop but the last sends to the next one, under the tunnel ID the next one receives; the
  first hop of an inbound tunnel is its only gateway and it has no endpoint, the last hop of an
  outbound tunnel is its only endpoint and it has no gateway.
\<close>

fun chained :: "hop_config list \<Rightarrow> bool" where
  "chained (h # n # hops) \<longleftrightarrow> hop_nextRouter h = Some (hop_router n) \<and> hop_nextTunnelID h = hop_tunnelID n \<and>
     chained (n # hops)"
| "chained _ \<longleftrightarrow> True"

definition wf_hops :: "hop_config list \<Rightarrow> bool" where
  "wf_hops hops \<longleftrightarrow> hops \<noteq> [] \<and> chained hops \<and> (\<forall>h \<in> set (tl hops). \<not> hop_isGateway h) \<and>
     (\<forall>h \<in> set (butlast hops). \<not> hop_isEndpoint h) \<and> hop_isEndpoint (last hops) \<noteq> hop_isGateway (hd hops)"

lemma link_peers_Cons:
  "link_peers prev ((rnd, r) # peers) =
     prev\<lparr>hop_isEndpoint := False, hop_nextRouter := Some r, hop_nextTunnelID := hr_tunnelID rnd\<rparr> #
     link_peers ((TunnelHopConfig rnd r)\<lparr>hop_isGateway := False\<rparr>) peers"
  by (simp add: SetNext_def TunnelHopConfig_def)

declare link_peers.simps(2) [simp del] link_peers_Cons [simp]

lemma link_peers_hd:
  "link_peers prev peers \<noteq> []"
  "hop_tunnelID (hd (link_peers prev peers)) = hop_tunnelID prev"
  "hop_router (hd (link_peers prev peers)) = hop_router prev"
  "hop_isGateway (hd (link_peers prev peers)) = hop_isGateway prev"
  by (cases peers; auto)+

lemma link_peers_routers: "map hop_router (link_peers prev peers) = hop_router prev # map snd peers"
  by (induction peers arbitrary: prev) (auto simp: TunnelHopConfig_def)

lemma link_peers_gateways: "h \<in> set (tl (link_peers prev peers)) \<Longrightarrow> \<not> hop_isGateway h"
proof (induction peers arbitrary: prev)
  case (Cons x peers)
  obtain rnd r where x: "x = (rnd, r)" by (cases x)
  let ?n = "(TunnelHopConfig rnd r)\<lparr>hop_isGateway := False\<rparr>"
  have "h \<in> set (link_peers ?n peers)" using Cons.prems by (simp add: x)
  then have "h = hd (link_peers ?n peers) \<or> h \<in> set (tl (link_peers ?n peers))"
    by (cases "link_peers ?n peers") auto
  then show ?case using Cons.IH link_peers_hd(4) [of ?n peers] by auto
qed simp

lemma link_peers_endpoints: "h \<in> set (butlast (link_peers prev peers)) \<Longrightarrow> \<not> hop_isEndpoint h"
  by (induction peers arbitrary: prev) (auto simp: link_peers_hd(1) split: if_splits)

lemma link_peers_chained: "chained (link_peers prev peers)"
proof (induction peers arbitrary: prev)
  case (Cons x peers)
  obtain rnd r where x: "x = (rnd, r)" by (cases x)
  let ?n = "(TunnelHopConfig rnd r)\<lparr>hop_isGateway := False\<rparr>"
  obtain y ys where y: "link_peers ?n peers = y # ys"
    using link_peers_hd(1) by (cases "link_peers ?n peers") auto
  have "hop_router y = r" "hop_tunnelID y = hr_tunnelID rnd"
    using link_peers_hd(2,3) [of ?n peers] unfolding y by (simp_all add: TunnelHopConfig_def)
  then show ?case using Cons.IH [of ?n] by (simp add: x y)
qed simp

lemma chained_map_last:
  "chained hops \<Longrightarrow> (\<And>h. hop_router (f h) = hop_router h \<and> hop_tunnelID (f h) = hop_tunnelID h) \<Longrightarrow>
     chained (map_last f hops)"
  by (induction hops rule: chained.induct) (auto simp: map_last_def split: if_splits list.splits)

lemma chained_map_first:
  "chained hops \<Longrightarrow> (\<And>h. hop_nextRouter (f h) = hop_nextRouter h \<and> hop_nextTunnelID (f h) = hop_nextTunnelID h) \<Longrightarrow>
     chained (map_first f hops)"
  by (induction hops rule: chained.induct) (auto simp: map_first_def)

lemma TunnelHopConfig_simps:
  "hop_router (TunnelHopConfig r p) = p" "hop_isGateway (TunnelHopConfig r p)"
  by (simp_all add: TunnelHopConfig_def)

lemma map_first_last_simps:
  "xs \<noteq> [] \<Longrightarrow> map_first f xs \<noteq> []" "xs \<noteq> [] \<Longrightarrow> hd (map_first f xs) = f (hd xs)"
  "tl (map_first f xs) = tl xs" "xs \<noteq> [] \<Longrightarrow> map_last f xs \<noteq> []" "xs \<noteq> [] \<Longrightarrow> last (map_last f xs) = f (last xs)"
  "butlast (map_last f xs) = butlast xs"
  by (auto simp: map_first_def map_last_def split: list.splits)

lemma set_tl_map_last: "x \<in> set (tl (map_last f xs)) \<Longrightarrow> x \<in> set (tl xs) \<or> (tl xs \<noteq> [] \<and> x = f (last (tl xs)))"
  by (cases xs) (auto simp: map_last_def split: if_splits dest: in_set_butlastD)

lemma set_butlast_map_first:
  "x \<in> set (butlast (map_first f xs)) \<Longrightarrow> x \<in> set (butlast xs) \<or> (butlast xs \<noteq> [] \<and> x = f (hd (butlast xs)))"
  by (cases xs) (auto simp: map_first_def split: if_splits)

lemma hd_map_last: "xs \<noteq> [] \<Longrightarrow> hd (map_last f xs) = (if tl xs = [] then f (hd xs) else hd xs)"
  by (cases xs) (auto simp: map_last_def hd_append)

lemma routers_map_first_last:
  "(\<And>h. hop_router (f h) = hop_router h) \<Longrightarrow> map hop_router (map_first f xs) = map hop_router xs"
  "(\<And>h. hop_router (f h) = hop_router h) \<Longrightarrow> map hop_router (map_last f xs) = map hop_router xs"
  by (auto simp: map_first_def map_last_def split: list.splits)
    (metis append_butlast_last_id list.simps(8,9) map_append)

lemma TunnelConfig_inbound_wf:
  assumes "peers \<noteq> []"
  shows "\<exists>hops. TunnelConfig own rnd peers None = Some hops \<and> wf_hops hops \<and> IsInbound hops \<and>
    GetPeers hops = map snd peers \<and> hop_nextRouter (last hops) = Some own"
proof -
  obtain r1 p1 rest where ps: "peers = (r1, p1) # rest" using assms by (metis list.exhaust surj_pair)
  define xs where "xs = link_peers (TunnelHopConfig r1 p1) rest"
  note l = link_peers_hd [of "TunnelHopConfig r1 p1" rest, folded xs_def]
    link_peers_routers [of "TunnelHopConfig r1 p1" rest, folded xs_def]
    link_peers_gateways [of _ "TunnelHopConfig r1 p1" rest, folded xs_def]
    link_peers_endpoints [of _ "TunnelHopConfig r1 p1" rest, folded xs_def]
    link_peers_chained [of "TunnelHopConfig r1 p1" rest, folded xs_def]
  let ?f = "SetNextRouter rnd own"
  have f: "hop_router (?f h) = hop_router h" "hop_tunnelID (?f h) = hop_tunnelID h"
    "hop_isGateway (?f h) = hop_isGateway h" "\<not> hop_isEndpoint (?f h)" "hop_nextRouter (?f h) = Some own" for h
    by (simp_all add: SetNextRouter_def)
  have "\<not> hop_isGateway h" if "h \<in> set (tl (map_last ?f xs))" for h
    using set_tl_map_last [OF that] l(6) f(3) by auto
  moreover have "hop_isGateway (hd (map_last ?f xs))"
    using l(1,4) f(3) by (simp add: hd_map_last TunnelHopConfig_simps)
  moreover have "chained (map_last ?f xs)" by (rule chained_map_last) (use l f in simp_all)
  ultimately have "wf_hops (map_last ?f xs)"
    using l(1,7) f by (auto simp: wf_hops_def map_first_last_simps)
  then show ?thesis
    using l f \<open>hop_isGateway (hd (map_last ?f xs))\<close> ps routers_map_first_last(2) [of ?f xs]
    by (simp add: TunnelConfig_def xs_def [symmetric] IsInbound_def GetPeers_def map_first_last_simps
        TunnelHopConfig_simps)
qed

lemma TunnelConfig_outbound_wf:
  assumes "peers \<noteq> []"
  shows "\<exists>hops. TunnelConfig own rnd peers (Some reply) = Some hops \<and> wf_hops hops \<and> \<not> IsInbound hops \<and>
    GetPeers hops = map snd peers \<and> hop_nextRouter (last hops) = Some (hop_router (hd reply)) \<and>
    hop_nextTunnelID (last hops) = hop_tunnelID (hd reply)"
proof -
  obtain r1 p1 rest where ps: "peers = (r1, p1) # rest" using assms by (metis list.exhaust surj_pair)
  define xs where "xs = link_peers (TunnelHopConfig r1 p1) rest"
  note l = link_peers_hd [of "TunnelHopConfig r1 p1" rest, folded xs_def]
    link_peers_routers [of "TunnelHopConfig r1 p1" rest, folded xs_def]
    link_peers_gateways [of _ "TunnelHopConfig r1 p1" rest, folded xs_def]
    link_peers_endpoints [of _ "TunnelHopConfig r1 p1" rest, folded xs_def]
    link_peers_chained [of "TunnelHopConfig r1 p1" rest, folded xs_def]
  let ?f = "SetReplyHop (hd reply)" and ?g = "\<lambda>h. h\<lparr>hop_isGateway := False\<rparr>"
  define ys where "ys = map_first ?g xs"
  have f: "hop_router (?f h) = hop_router h" "hop_tunnelID (?f h) = hop_tunnelID h"
    "hop_isGateway (?f h) = hop_isGateway h" "hop_isEndpoint (?f h)"
    "hop_nextRouter (?f h) = Some (hop_router (hd reply))" "hop_nextTunnelID (?f h) = hop_tunnelID (hd reply)" for h
    by (simp_all add: SetReplyHop_def)
  have ys: "ys \<noteq> []" "\<not> hop_isGateway (hd ys)" "tl ys = tl xs" "map hop_router ys = map hop_router xs"
    using l(1) routers_map_first_last(1) [of ?g xs] by (simp_all add: ys_def map_first_last_simps)
  have "\<not> hop_isGateway h" if "h \<in> set (tl (map_last ?f ys))" for h
    using set_tl_map_last [OF that] l(6) f(3) ys(3) by auto
  moreover have gw: "\<not> hop_isGateway (hd (map_last ?f ys))"
    using ys f(3) by (simp add: hd_map_last)
  moreover have "\<not> hop_isEndpoint h" if "h \<in> set (butlast (map_last ?f ys))" for h
    using that set_butlast_map_first [of h ?g xs] l(7)
    unfolding ys_def map_first_last_simps(6) by (cases "butlast xs") auto
  moreover have "chained (map_last ?f ys)"
    unfolding ys_def by (rule chained_map_last [OF chained_map_first]) (use l f in simp_all)
  ultimately have "wf_hops (map_last ?f ys)"
    using ys f by (auto simp: wf_hops_def map_first_last_simps)
  then show ?thesis
    using l f gw ps ys routers_map_first_last(2) [of ?f ys]
    by (simp add: TunnelConfig_def xs_def [symmetric] ys_def [symmetric] IsInbound_def GetPeers_def
        map_first_last_simps TunnelHopConfig_simps)
qed

section \<open>Properties\<close>

text \<open>
  C16: \<open>TunnelConfig\<close> builds well-formed chains. From any non-empty list of peers the constructor
  makes a chain in which every hop sends to the next one under the ID it receives, with the gateway
  and endpoint flags exactly where they belong; the last hop sends to ourselves (inbound) or into
  the first hop of the reply tunnel (outbound).
\<close>

theorem TunnelConfig_wf:
  assumes "peers \<noteq> []"
  shows "\<exists>hops. TunnelConfig own rnd peers reply = Some hops \<and> wf_hops hops \<and>
    GetPeers hops = map snd peers \<and> IsInbound hops = (reply = None) \<and>
    hop_nextRouter (last hops) = Some (case reply of None \<Rightarrow> own | Some r \<Rightarrow> hop_router (hd r)) \<and>
    hop_nextTunnelID (last hops) = (case reply of None \<Rightarrow> hop_nextTunnelID (last hops)
      | Some r \<Rightarrow> hop_tunnelID (hd r))"
  using TunnelConfig_inbound_wf [OF assms, of own rnd] TunnelConfig_outbound_wf [OF assms, of own rnd]
  by (cases reply) (simp_all, blast+)

definition sample_router :: "byte \<Rightarrow> router_ref" where
  "sample_router n = \<lparr>rr_ident = replicate 32 n, rr_encryptionKey = replicate 256 n\<rparr>"

definition sample_hop_rnd :: "byte \<Rightarrow> hop_rnd" where
  "sample_hop_rnd n = \<lparr>hr_layerKey = replicate 32 n, hr_ivKey = replicate 32 n, hr_replyIV = replicate 16 n,
     hr_tunnelID = ucast n, hr_nextTunnelID = ucast n + 100, hr_replyKey = replicate 32 n\<rparr>"

theorem TunnelConfig_wf_witness:
  "\<exists>hops. TunnelConfig (sample_router 1) (sample_hop_rnd 1)
     [(sample_hop_rnd 2, sample_router 2), (sample_hop_rnd 3, sample_router 3)] None = Some hops \<and> wf_hops hops"
  using TunnelConfig_wf [of "[(sample_hop_rnd 2, sample_router 2), (sample_hop_rnd 3, sample_router 3)]"
      "sample_router 1" "sample_hop_rnd 1" None] by auto

text \<open>
  C17: \<open>Invert\<close> turns the direction of a tunnel round and reverses its peers; inverting the result
  again gives the peers in their original order and the original direction.
\<close>

theorem Invert_twice:
  assumes "hops \<noteq> []" and "length rnds = length hops" and "length rnds' = length hops"
  shows "\<exists>inv inv2. Invert own rnd rnds hops = Some inv \<and> GetPeers inv = rev (GetPeers hops) \<and>
    IsInbound inv = (\<not> IsInbound hops) \<and> wf_hops inv \<and>
    Invert own rnd' rnds' inv = Some inv2 \<and> GetPeers inv2 = GetPeers hops \<and> IsInbound inv2 = IsInbound hops"
proof -
  define reply where "reply = (\<lambda>hs. if IsInbound hs then Some hs else None)"
  have I: "\<exists>i. Invert own r rs hs = Some i \<and> GetPeers i = rev (GetPeers hs) \<and>
      IsInbound i = (\<not> IsInbound hs) \<and> wf_hops i"
    if "hs \<noteq> []" "length rs = length hs" for hs r rs
  proof -
    let ?p = "zip rs (rev (GetPeers hs))"
    have p: "?p \<noteq> []" "map snd ?p = rev (GetPeers hs)"
      using that by (auto simp: GetPeers_def zip_eq_Nil_iff)
    show ?thesis
      using TunnelConfig_wf [OF p(1), of own r "reply hs"] unfolding p(2)
      by (auto simp: Invert_def Let_def reply_def split: if_splits)
  qed
  obtain i where i: "Invert own rnd rnds hops = Some i" "GetPeers i = rev (GetPeers hops)"
    "IsInbound i = (\<not> IsInbound hops)" "wf_hops i"
    using I [OF assms(1,2)] by blast
  have "length i = length hops" using arg_cong [OF i(2), of length] by (simp add: GetPeers_def)
  then have "i \<noteq> []" "length rnds' = length i" using assms by auto
  from I [OF this, of rnd'] i show ?thesis by auto
qed

theorem Invert_twice_witness:
  "\<exists>inv. Invert (sample_router 1) (sample_hop_rnd 1) [sample_hop_rnd 2]
     [TunnelHopConfig (sample_hop_rnd 5) (sample_router 5)] = Some inv \<and> GetPeers inv = [sample_router 5]"
  using Invert_twice [of "[TunnelHopConfig (sample_hop_rnd 5) (sample_router 5)]" "[sample_hop_rnd 2]"
      "[sample_hop_rnd 3]" "sample_router 1" "sample_hop_rnd 1" "sample_hop_rnd 1"]
  by (auto simp: GetPeers_def TunnelHopConfig_def)

end
