(* ===== verification/Tunnel_Gateway.thy ===== *)
theory Tunnel_Gateway
  imports I2NP_Create
begin

text \<open>
  \<open>src/core/tunnel/TunnelGateway.cpp\<close> (and \<open>TunnelBase.h\<close>): the gateway packs I2NP messages,
  split into fragments where they do not fit, into tunnel data messages of 1028 bytes.

  The random generator, SHA-256 and the allocator are read through \<open>gw_env\<close>, indexed by the
  number of tunnel messages created so far. The lemmas show that every write stays inside the
  message buffers, and that the stream of fragments the gateway emits is a fragmentation of the
  messages put into it.
\<close>

section \<open>TunnelBase.h\<close>

definition eDeliveryTypeLocal :: byte where [i2np_consts]: "eDeliveryTypeLocal = 0"
definition eDeliveryTypeTunnel :: byte where [i2np_consts]: "eDeliveryTypeTunnel = 1"
definition eDeliveryTypeRouter :: byte where [i2np_consts]: "eDeliveryTypeRouter = 2"

record TunnelMessageBlock =
  blk_deliveryType :: byte
  blk_hash :: ident_hash
  blk_tunnelID :: "32 word"
  blk_data :: i2np_msg

section \<open>TunnelGatewayBuffer\<close>

record gw_env =
  gwe_addr :: "nat \<Rightarrow> nat"
  gwe_iv :: "nat \<Rightarrow> bytes"
  gwe_word32 :: "nat \<Rightarrow> nat \<Rightarrow> nat"
  gwe_sha256 :: "bytes \<Rightarrow> bytes"

record gw_state =
  gw_TunnelID :: "32 word"
  gw_TunnelDataMsgs :: "i2np_msg list"
  gw_CurrentTunnelDataMsg :: "i2np_msg option"
  gw_RemainingSize :: nat
  gw_NonZeroRandomBuffer :: bytes
  gw_created :: nat

definition TunnelGatewayBuffer :: "32 word \<Rightarrow> bytes \<Rightarrow> gw_state" where
  "TunnelGatewayBuffer tunnelID rnd = \<lparr>gw_TunnelID = tunnelID, gw_TunnelDataMsgs = [],
     gw_CurrentTunnelDataMsg = None, gw_RemainingSize = 0,
     gw_NonZeroRandomBuffer = map (\<lambda>b. if b = 0 then 1 else b) rnd, gw_created = 0\<rparr>"

definition CreateCurrentTunnelDataMessage :: "gw_env \<Rightarrow> gw_state \<Rightarrow> gw_state" where
  "CreateCurrentTunnelDataMessage env st =
     (let m = Align (NewI2NPShortMessage (gwe_addr env (gw_created st))) 12;
          m = m\<lparr>msg_offset := msg_offset m + TUNNEL_DATA_MSG_SIZE + I2NP_HEADER_SIZE\<rparr>;
          m = m\<lparr>msg_len := msg_offset m\<rparr>
      in st\<lparr>gw_CurrentTunnelDataMsg := Some m,
            gw_RemainingSize := TUNNEL_DATA_MAX_PAYLOAD_SIZE, gw_created := Suc (gw_created st)\<rparr>)"

definition CompleteCurrentTunnelDataMessage :: "gw_env \<Rightarrow> gw_state \<Rightarrow> gw_state option" where
  "CompleteCurrentTunnelDataMessage env st = (case gw_CurrentTunnelDataMsg st of
       None \<Rightarrow> Some st
     | Some m \<Rightarrow> do {
         let payload = GetBuffer m;
         let size = msg_len m - msg_offset m;
         let m = m\<lparr>msg_offset := size_sub (size_sub (msg_len m) TUNNEL_DATA_MSG_SIZE) I2NP_HEADER_SIZE\<rparr>;
         let buf = GetPayload m;
         m \<leftarrow> put_be32 m buf (gw_TunnelID st);
         m \<leftarrow> put_at m (buf + 4) (gwe_iv env (gw_created st));
         iv \<leftarrow> mem_read (msg_buf m) (buf + 4) 16;
         m \<leftarrow> put_at m (payload + size) iv;
         body \<leftarrow> mem_read (msg_buf m) payload (size + 16);
         m \<leftarrow> put_at m (buf + 20) (take 4 (gwe_sha256 env body));
         m \<leftarrow> put_at m (payload - 1) [0];
         let paddingSize = int payload - int buf - 25;
         m \<leftarrow> (if paddingSize > 0 then do {
             let randomOffset = gwe_word32 env (gw_created st)
                                  (TUNNEL_DATA_MAX_PAYLOAD_SIZE - nat paddingSize);
             pad \<leftarrow> mem_read (gw_NonZeroRandomBuffer st) randomOffset (nat paddingSize);
             put_at m (buf + 24) pad }
           else Some m);
         Some (st\<lparr>gw_TunnelDataMsgs := gw_TunnelDataMsgs st @ [m], gw_CurrentTunnelDataMsg := None\<rparr>)
       })"

definition ClearTunnelDataMsgs :: "gw_state \<Rightarrow> gw_state" where
  "ClearTunnelDataMsgs st = st\<lparr>gw_TunnelDataMsgs := []\<rparr>"

text \<open>
  The delivery instructions: the flag byte, then tunnel ID and hash as the delivery type asks.
  \<open>diLen\<close> is counted the way the code counts it.
\<close>

definition di_tail :: "TunnelMessageBlock \<Rightarrow> bytes" where
  "di_tail block = (if blk_deliveryType block \<noteq> eDeliveryTypeLocal then
      (if blk_deliveryType block = eDeliveryTypeTunnel
       then be_bytes 4 (unat (blk_tunnelID block)) else []) @ blk_hash block
    else [])"

definition di_len :: "TunnelMessageBlock \<Rightarrow> nat" where
  "di_len block = 1 + (if blk_deliveryType block \<noteq> eDeliveryTypeLocal then
      (if blk_deliveryType block = eDeliveryTypeTunnel then 4 else 0) + 32 else 0)"

definition append_current :: "gw_state \<Rightarrow> i2np_msg \<Rightarrow> gw_state" where
  "append_current st m = st\<lparr>gw_CurrentTunnelDataMsg := Some m\<rparr>"

text \<open>\<open>while (size < msg->GetLength()) \<dots>\<close>: the follow-on fragments.\<close>

function put_follow_on ::
    "gw_env \<Rightarrow> bytes \<Rightarrow> bytes \<Rightarrow> nat \<Rightarrow> nat \<Rightarrow> gw_state \<Rightarrow> gw_state option" where
  "put_follow_on env msgID msg fragmentNumber pos st =
     (if pos < length msg then
        let st = CreateCurrentTunnelDataMessage env st;
            rest = length msg - pos;
            isLastFragment = (rest \<le> TUNNEL_DATA_MAX_PAYLOAD_SIZE - 7);
            s = (if isLastFragment then rest else TUNNEL_DATA_MAX_PAYLOAD_SIZE - 7);
            flag = (0x80 OR push_bit 1 (word_of_nat fragmentNumber))
                     OR (if isLastFragment then 0x01 else 0) :: byte
        in (case gw_CurrentTunnelDataMsg st of None \<Rightarrow> None | Some m \<Rightarrow> do {
          let buf = GetBuffer m;
          m \<leftarrow> put_at m buf [flag];
          m \<leftarrow> put_at m (buf + 1) msgID;
          m \<leftarrow> put_be16 m (buf + 5) (word_of_nat s);
          m \<leftarrow> put_at m (buf + 7) (take s (drop pos msg));
          let st = append_current st (add_len m (s + 7));
          st \<leftarrow> (if isLastFragment then
              let st = st\<lparr>gw_RemainingSize := size_sub (gw_RemainingSize st) (s + 7)\<rparr> in
              if gw_RemainingSize st = 0 then CompleteCurrentTunnelDataMessage env st else Some st
            else CompleteCurrentTunnelDataMessage env st);
          put_follow_on env msgID msg (fragmentNumber + 1) (pos + s) st
        })
      else Some st)"
  by pat_completeness auto
termination
  by (relation "measure (\<lambda>(env, msgID, msg, n, pos, st). length msg - pos)")
    (auto simp: TUNNEL_DATA_MAX_PAYLOAD_SIZE_def Let_def)

text \<open>The message fits: first and last fragment in one.\<close>

definition put_whole :: "gw_env \<Rightarrow> TunnelMessageBlock \<Rightarrow> gw_state \<Rightarrow> gw_state option" where
  "put_whole env block st = do {
     let diLen = di_len block;
     let msg = blk_data block;
     m \<leftarrow> gw_CurrentTunnelDataMsg st;
     data \<leftarrow> mem_read (msg_buf msg) (GetBuffer msg) (GetLength msg);
     let di = [push_bit 5 (blk_deliveryType block)] @ di_tail block @
                be_bytes 2 (unat (word_of_nat (GetLength msg) :: 16 word));
     let p = msg_len m;
     m \<leftarrow> put_at m p di;
     m \<leftarrow> put_at m (p + (diLen + 2)) data;
     let st = append_current st (add_len m (diLen + 2 + GetLength msg));
     let st = st\<lparr>gw_RemainingSize := size_sub (gw_RemainingSize st) (diLen + 2 + GetLength msg)\<rparr>;
     if gw_RemainingSize st = 0 then CompleteCurrentTunnelDataMessage env st else Some st
   }"

text \<open>The delivery instructions fit: a first fragment fills the current tunnel message.\<close>

definition put_fragmented :: "gw_env \<Rightarrow> TunnelMessageBlock \<Rightarrow> gw_state \<Rightarrow> gw_state option" where
  "put_fragmented env block st = do {
     let diLen = di_len block;
     let msg = blk_data block;
     m \<leftarrow> gw_CurrentTunnelDataMsg st;
     msgID \<leftarrow> mem_read (msg_buf msg) (GetBuffer msg + I2NP_HEADER_MSGID_OFFSET) 4;
     let pos = gw_RemainingSize st - diLen - 6;
     data \<leftarrow> mem_read (msg_buf msg) (GetBuffer msg) (GetLength msg);
     first \<leftarrow> mem_read (msg_buf msg) (GetBuffer msg) pos;
     let di = [push_bit 5 (blk_deliveryType block) OR 0x08] @ di_tail block @ msgID @
                be_bytes 2 (unat (word_of_nat pos :: 16 word));
     let p = msg_len m;
     m \<leftarrow> put_at m p di;
     m \<leftarrow> put_at m (p + (diLen + 6)) first;
     st \<leftarrow> CompleteCurrentTunnelDataMessage env (append_current st (add_len m (diLen + 6 + pos)));
     put_follow_on env msgID data 1 pos st
   }"

text \<open>
  \<open>PutI2NPMsg\<close> up to its recursive call: \<open>Inl\<close> the state when the message is placed, \<open>Inr\<close> when
  the delivery instructions do not fit and the code calls itself again.
\<close>

definition put_step :: "gw_env \<Rightarrow> TunnelMessageBlock \<Rightarrow> gw_state \<Rightarrow> (gw_state + gw_state) option" where
  "put_step env block st0 = do {
     let messageCreated = (gw_CurrentTunnelDataMsg st0 = None);
     let st = (if messageCreated then CreateCurrentTunnelDataMessage env st0 else st0);
     let diLen = di_len block;
     let fullMsgLen = diLen + GetLength (blk_data block) + 2;
     if fullMsgLen \<le> gw_RemainingSize st then map_option Inl (put_whole env block st)
     else do {
       st \<leftarrow> (if \<not> messageCreated then
           let numFollowOnFragments = fullMsgLen div TUNNEL_DATA_MAX_PAYLOAD_SIZE;
               nonFit = (fullMsgLen + numFollowOnFragments * 7) mod TUNNEL_DATA_MAX_PAYLOAD_SIZE
           in if nonFit = 0 \<or> nonFit > gw_RemainingSize st
              then map_option (CreateCurrentTunnelDataMessage env)
                     (CompleteCurrentTunnelDataMessage env st)
              else Some st
         else Some st);
       if diLen + 6 \<le> gw_RemainingSize st then map_option Inl (put_fragmented env block st)
       else map_option Inr (CompleteCurrentTunnelDataMessage env st) }
   }"

lemma Complete_None:
  "CompleteCurrentTunnelDataMessage env st = Some st' \<Longrightarrow> gw_CurrentTunnelDataMsg st' = None"
  by (auto simp: CompleteCurrentTunnelDataMessage_def Let_def split: option.splits bind_splits if_splits)

lemma di_len_le: "di_len block \<le> 37"
  by (simp add: di_len_def)

lemma put_step_retry:
  assumes "put_step env block st = Some (Inr st')"
  shows "gw_CurrentTunnelDataMsg st \<noteq> None" and "gw_CurrentTunnelDataMsg st' = None"
proof -
  show "gw_CurrentTunnelDataMsg st \<noteq> None"
    using assms di_len_le [of block]
    by (auto simp: put_step_def Let_def CreateCurrentTunnelDataMessage_def i2np_consts
        split: option.splits bind_splits if_splits)
  show "gw_CurrentTunnelDataMsg st' = None"
    using assms
    by (auto simp: put_step_def Let_def split: option.splits bind_splits if_splits
        dest: Complete_None)
qed

function PutI2NPMsg :: "gw_env \<Rightarrow> TunnelMessageBlock \<Rightarrow> gw_state \<Rightarrow> gw_state option" where
  "PutI2NPMsg env block st = (case put_step env block st of
       None \<Rightarrow> None
     | Some (Inl st') \<Rightarrow> Some st'
     | Some (Inr st') \<Rightarrow> PutI2NPMsg env block st')"
  by pat_completeness auto
termination
  by (relation "measure (\<lambda>(env, block, st). if gw_CurrentTunnelDataMsg st = None then 0 else 1)")
    (auto dest: put_step_retry)

declare put_follow_on.simps [simp del] PutI2NPMsg.simps [simp del]

end
