(* ===== verification/Tunnel_Fragments.thy ===== *)
theory Tunnel_Fragments
  imports Tunnel_Gateway
begin

text \<open>
  The specification between the gateway and the endpoint of a tunnel: the payload of a tunnel
  data message is a sequence of fragments, each with its delivery or follow-on instructions.
  \<open>fragments_of\<close> says which sequences of fragments stand for a message block, and
  \<open>tunnel_plain\<close> how a payload is laid out in the 1028 bytes of a tunnel data message.
\<close>

section \<open>Fragments on the wire\<close>

text \<open>
  \<open>FirstFrag t tid h None data\<close> is an unfragmented message, \<open>FirstFrag t tid h (Some mid) data\<close> the
  first fragment of message \<open>mid\<close> (4 raw bytes), \<open>FollowFrag mid n lst data\<close> its \<open>n\<close>-th follow-on.
\<close>

datatype frag =
    FirstFrag byte "32 word" ident_hash "bytes option" bytes
  | FollowFrag bytes nat bool bytes

definition frag_tail :: "byte \<Rightarrow> 32 word \<Rightarrow> ident_hash \<Rightarrow> bytes" where
  "frag_tail t tid h = (if t \<noteq> eDeliveryTypeLocal then
      (if t = eDeliveryTypeTunnel then be_bytes 4 (unat tid) else []) @ h else [])"

fun encode_frag :: "frag \<Rightarrow> bytes" where
  "encode_frag (FirstFrag t tid h None d) =
     [push_bit 5 t] @ frag_tail t tid h @ be_bytes 2 (length d) @ d"
| "encode_frag (FirstFrag t tid h (Some mid) d) =
     [push_bit 5 t OR 0x08] @ frag_tail t tid h @ mid @ be_bytes 2 (length d) @ d"
| "encode_frag (FollowFrag mid n lst d) =
     [(0x80 OR push_bit 1 (word_of_nat n)) OR (if lst then 0x01 else 0)] @ mid @
        be_bytes 2 (length d) @ d"

definition encode_frags :: "frag list \<Rightarrow> bytes" where
  "encode_frags fs = concat (map encode_frag fs)"

lemma encode_frags_simps [simp]:
  "encode_frags [] = []" "encode_frags (f # fs) = encode_frag f @ encode_frags fs"
  "encode_frags (fs @ gs) = encode_frags fs @ encode_frags gs"
  by (simp_all add: encode_frags_def)

text \<open>The delivery types a sender uses, and the fragments that can be on the wire.\<close>

fun frag_ok :: "frag \<Rightarrow> bool" where
  "frag_ok (FirstFrag t tid h mid d) \<longleftrightarrow>
     t \<in> {eDeliveryTypeLocal, eDeliveryTypeTunnel, eDeliveryTypeRouter} \<and>
     (t \<noteq> eDeliveryTypeLocal \<longrightarrow> length h = 32) \<and>
     (\<forall>i. mid = Some i \<longrightarrow> length i = 4) \<and> length d < 2 ^ 16"
| "frag_ok (FollowFrag mid n lst d) \<longleftrightarrow> length mid = 4 \<and> n < 64 \<and> length d < 2 ^ 16"

section \<open>Fragmentations\<close>

text \<open>The follow-on fragments that carry the chunks \<open>ds\<close>, numbered from \<open>n\<close>, the last one flagged.\<close>

fun follow_frags :: "bytes \<Rightarrow> nat \<Rightarrow> bytes list \<Rightarrow> frag list" where
  "follow_frags mid n [] = []"
| "follow_frags mid n [d] = [FollowFrag mid n True d]"
| "follow_frags mid n (d # d' # ds) = FollowFrag mid n False d # follow_frags mid (Suc n) (d' # ds)"

definition fragments_of :: "byte \<Rightarrow> 32 word \<Rightarrow> ident_hash \<Rightarrow> bytes \<Rightarrow> frag list \<Rightarrow> bool" where
  "fragments_of t tid h c fs \<longleftrightarrow>
     fs = [FirstFrag t tid h None c] \<or>
     (\<exists>d ds. ds \<noteq> [] \<and> c = d @ concat ds \<and> length ds < 64 \<and>
        fs = FirstFrag t tid h (Some (take 4 (drop 1 c))) d # follow_frags (take 4 (drop 1 c)) 1 ds)"

section \<open>The plain tunnel data message\<close>

text \<open>
  4 bytes of tunnel ID, 16 of IV, 4 of checksum over payload and IV, non-zero padding, a zero
  byte, the payload.
\<close>

definition tunnel_plain ::
    "(bytes \<Rightarrow> bytes) \<Rightarrow> 32 word \<Rightarrow> bytes \<Rightarrow> bytes \<Rightarrow> bytes \<Rightarrow> bytes \<Rightarrow> bool" where
  "tunnel_plain sha tid iv pad body pl \<longleftrightarrow>
     pl = be_bytes 4 (unat tid) @ iv @ take 4 (sha (body @ iv)) @ pad @ [0] @ body \<and>
     length iv = 16 \<and> length pad + length body = 1003 \<and> 0 \<notin> set pad \<and>
     length (take 4 (sha (body @ iv))) = 4"

lemma tunnel_plain_length: "tunnel_plain sha tid iv pad body pl \<Longrightarrow> length pl = 1028"
  by (auto simp: tunnel_plain_def)

section \<open>Completing a tunnel data message\<close>

definition gw_env_ok :: "gw_env \<Rightarrow> bool" where
  "gw_env_ok env \<longleftrightarrow> (\<forall>n. length (gwe_iv env n) = 16) \<and> (\<forall>n k. gwe_word32 env n k \<le> k) \<and>
     (\<forall>x. length (gwe_sha256 env x) = 32)"

definition gw_buf_ok :: "gw_state \<Rightarrow> bool" where
  "gw_buf_ok st \<longleftrightarrow> length (gw_NonZeroRandomBuffer st) = 1003 \<and> 0 \<notin> set (gw_NonZeroRandomBuffer st)"

definition cur_msg :: "i2np_msg \<Rightarrow> bytes \<Rightarrow> bool" where
  "cur_msg m body \<longleftrightarrow> length (msg_buf m) = 4112 \<and> 1046 \<le> msg_offset m \<and> msg_offset m \<le> 1057 \<and>
     msg_len m = msg_offset m + length body \<and> length body \<le> 1003 \<and>
     window (msg_buf m) (msg_offset m) (length body) = body"

definition done_msg :: "gw_env \<Rightarrow> 32 word \<Rightarrow> i2np_msg \<Rightarrow> bytes \<Rightarrow> bool" where
  "done_msg env tid m body \<longleftrightarrow> length (msg_buf m) = 4112 \<and> msg_len m = msg_offset m + 1044 \<and>
     2 \<le> msg_offset m \<and> msg_len m \<le> 2060 \<and>
     (\<exists>iv pad. tunnel_plain (gwe_sha256 env) tid iv pad body (msg_payload m))"

text \<open>The five writes of \<open>CompleteCurrentTunnelDataMessage\<close>, on any pieces of the right lengths.\<close>

lemma tunnel_layout:
  assumes "length b = 4112" "length h = 20" "length iv = 16" "length ck = 4" "length pad = k"
    and k: "k + length body = 1003" and q: "q + 1044 \<le> 4112"
    and body: "window b (q + 25 + k) (length body) = body"
  defines "b1 \<equiv> patch b q h" and "b2 \<equiv> patch (patch b q h) (q + 1028) iv"
    and "b5 \<equiv> patch (patch (patch (patch (patch b q h) (q + 1028) iv) (q + 20) ck) (q + 24 + k) [0])
                 (q + 24) pad"
  shows "window b2 (q + 25 + k) (length body + 16) = body @ iv"
    and "window b5 q 1028 = h @ ck @ pad @ [0] @ body"
    and "length b2 = 4112" and "length b5 = 4112"
proof -
  let ?n = "length body"
  have w2: "window b2 (q + 25 + k) ?n = body"
    using assms by (simp add: window_patch_before window_patch_after b2_def)
  have e: "q + 25 + k + ?n = q + 1028" using k by simp
  have "window b2 (q + 1028) 16 = iv"
    using assms by (simp add: b2_def)
  then show "window b2 (q + 25 + k) (length body + 16) = body @ iv"
    unfolding window_add e w2 by simp
  show len2: "length b2 = 4112" and len5: "length b5 = 4112"
    using assms by (simp_all add: b2_def b5_def)
  have v1: "window b5 q 20 = h"
    using assms by (simp add: window_patch_before b5_def)
  have v2: "window b5 (q + 20) 4 = ck"
    using assms by (simp add: window_patch_before b5_def)
  have v3: "window b5 (q + 24) k = pad"
    using assms by (simp add: b5_def)
  have v4: "window b5 (q + 24 + k) 1 = [0]"
    using assms by (simp add: window_patch_after b5_def)
  have v5: "window b5 (q + 25 + k) ?n = body"
    using assms w2 by (simp add: window_patch_after b5_def b2_def)
  have e2: "q + 20 + 4 = q + 24" "q + 24 + k + 1 = q + 25 + k" "1028 = 20 + (4 + (k + (1 + ?n)))"
    using k by simp_all
  show "window b5 q 1028 = h @ ck @ pad @ [0] @ body"
    unfolding e2(3) window_add e2(1) e2(2) v1 v2 v3 v4 v5 by simp
qed

lemma Complete_Some:
  assumes env: "gw_env_ok env" "gw_buf_ok st"
    and cur: "gw_CurrentTunnelDataMsg st = Some m" "cur_msg m body"
  shows "\<exists>m'. CompleteCurrentTunnelDataMessage env st =
      Some (st\<lparr>gw_TunnelDataMsgs := gw_TunnelDataMsgs st @ [m'], gw_CurrentTunnelDataMsg := None\<rparr>) \<and>
    done_msg env (gw_TunnelID st) m' body"
proof -
  let ?n = "length body" and ?b = "msg_buf m"
  obtain k where k: "k + ?n = 1003"
    using cur(2) by (metis cur_msg_def le_add_diff_inverse2)
  obtain q where q: "msg_offset m = q + 25 + k" "msg_len m = q + 1028"
  proof -
    have "25 + k \<le> msg_offset m" using cur(2) k by (simp add: cur_msg_def)
    then obtain q where "msg_offset m = q + 25 + k" by (metis add.assoc add.commute le_iff_add)
    moreover from this have "msg_len m = q + 1028" using cur(2) k by (simp add: cur_msg_def)
    ultimately show ?thesis using that by blast
  qed
  have bnds: "18 \<le> q" "q + 1028 \<le> 2060" "q + 1044 \<le> 4112" "length ?b = 4112"
    using cur(2) q k by (auto simp: cur_msg_def)
  have body: "window ?b (q + 25 + k) ?n = body"
    using cur(2) q by (simp add: cur_msg_def)
  define iv tid where "iv = gwe_iv env (gw_created st)" and "tid = be_bytes 4 (unat (gw_TunnelID st))"
  define ck where "ck = take 4 (gwe_sha256 env (body @ iv))"
  define off where "off = gwe_word32 env (gw_created st) (1003 - k)"
  define pad where "pad = take k (drop off (gw_NonZeroRandomBuffer st))"
  have iv: "length iv = 16" and ck: "length ck = 4" and tid: "length tid = 4"
    using env by (simp_all add: gw_env_ok_def iv_def ck_def tid_def)
  have off: "off + k \<le> 1003"
    using env(1) k by (auto simp: gw_env_ok_def off_def) (metis Nat.le_diff_conv2 le_add1)
  have pad: "length pad = k" "0 \<notin> set pad"
    using off env(2) k by (auto simp: gw_buf_ok_def pad_def dest: in_set_takeD in_set_dropD)
  define b1 where "b1 = patch ?b q (tid @ iv)"
  define b2 where "b2 = patch b1 (q + 1028) iv"
  define b3 where "b3 = patch b2 (q + 20) ck"
  define b4 where "b4 = patch b3 (q + 24 + k) [0]"
  define b5 where "b5 = patch b4 (q + 24) pad"
  have lh: "length (tid @ iv) = 20" using tid iv by simp
  note lay = tunnel_layout [OF bnds(4) lh iv ck pad(1) k bnds(3) body,
      folded b1_def, folded b2_def, folded b3_def, folded b4_def, folded b5_def]
  have lens: "length b1 = 4112" "length b3 = 4112" "length b4 = 4112"
    using bnds lh iv ck k by (simp_all add: b1_def b2_def b3_def b4_def)
  let ?m = "m\<lparr>msg_buf := b5, msg_offset := q - 16\<rparr>"
  have "tunnel_plain (gwe_sha256 env) (gw_TunnelID st) iv pad body (msg_payload ?m)"
    using lay(2) iv ck pad k q bnds by (simp add: tunnel_plain_def msg_payload_def ck_def tid_def)
  then have d: "done_msg env (gw_TunnelID st) ?m body"
    unfolding done_msg_def using lay(4) q bnds by auto
  have w: "mem_write ?b q tid = Some (patch ?b q tid)"
    "mem_write (patch ?b q tid) (q + 4) iv = Some b1" "mem_write b1 (q + 1028) iv = Some b2"
    "mem_write b2 (q + 20) ck = Some b3" "mem_write b3 (q + 24 + k) [0] = Some b4"
    "mem_write b4 (q + 24) pad = Some b5"
    using bnds lens lay(3) tid iv ck pad k
    by (simp_all add: mem_write_patch b1_def b2_def b3_def b4_def b5_def patch_patch)
  have r: "mem_read b1 (q + 4) 16 = Some iv" "mem_read b2 (q + 25 + k) (?n + 16) = Some (body @ iv)"
    "mem_read (gw_NonZeroRandomBuffer st) off k = Some pad"
    using mem_read_window [of "q + 4" 16 b1] window_patch_inside [of q "tid @ iv" ?b 4 16]
      mem_read_window [of "q + 25 + k" "?n + 16" b2] lay bnds lens tid iv k off env(2)
    by (simp_all add: b1_def mem_read_def gw_buf_ok_def pad_def)
  have "CompleteCurrentTunnelDataMessage env st =
      Some (st\<lparr>gw_TunnelDataMsgs := gw_TunnelDataMsgs st @ [?m], gw_CurrentTunnelDataMsg := None\<rparr>)"
  proof -
    have i: "size_sub (size_sub (q + 1028) 1028) 16 = q - 16" "q - 16 + 16 = q"
      "q + 25 + k + ?n = q + 1028" "q + 25 + k - 1 = q + 24 + k"
      "int (q + 25 + k) - int q - 25 = int k" "q + 1028 - (q + 25 + k) = ?n"
      using bnds k by simp_all
    have b5: "k = 0 \<Longrightarrow> b5 = b4" using pad by (simp add: b5_def)
    have sel: "msg_len (m\<lparr>msg_offset := x\<rparr>) = q + 1028" "msg_buf (m\<lparr>msg_offset := x\<rparr>) = ?b"
      "msg_offset (m\<lparr>msg_offset := x\<rparr>) = x" for x
      using q by simp_all
    show ?thesis
      unfolding CompleteCurrentTunnelDataMessage_def cur(1) option.case Let_def put_be_put_at
        put_at_def GetPayload_16 GetBuffer_def q I2NP_HEADER_SIZE_16 TUNNEL_DATA_MSG_SIZE_def
        TUNNEL_DATA_MAX_PAYLOAD_SIZE_def sel i
      using w r b5
      by (cases "k = 0") (simp_all add: iv_def tid_def ck_def off_def)
  qed
  with d show ?thesis by blast
qed

section \<open>The gateway emits fragments\<close>

definition gw_rel :: "gw_env \<Rightarrow> gw_state \<Rightarrow> frag list list \<Rightarrow> frag list \<Rightarrow> bool" where
  "gw_rel env st fss cur \<longleftrightarrow> gw_buf_ok st \<and>
     list_all2 (\<lambda>m fs. done_msg env (gw_TunnelID st) m (encode_frags fs)) (gw_TunnelDataMsgs st) fss \<and>
     (\<forall>f \<in> set (concat fss @ cur). frag_ok f) \<and>
     (case gw_CurrentTunnelDataMsg st of None \<Rightarrow> cur = []
      | Some m \<Rightarrow> cur_msg m (encode_frags cur) \<and>
          gw_RemainingSize st = 1003 - length (encode_frags cur))"

lemma rel_create:
  assumes "gw_rel env st fss []"
  shows "gw_rel env (CreateCurrentTunnelDataMessage env st) fss []"
    and "gw_RemainingSize (CreateCurrentTunnelDataMessage env st) = 1003"
    and "\<exists>m. gw_CurrentTunnelDataMsg (CreateCurrentTunnelDataMessage env st) = Some m"
    and "gw_TunnelID (CreateCurrentTunnelDataMessage env st) = gw_TunnelID st"
proof -
  let ?a = "gwe_addr env (gw_created st)"
  have "length (msg_buf (Align (NewI2NPShortMessage ?a) 12)) = 4112"
    "2 \<le> msg_offset (Align (NewI2NPShortMessage ?a) 12)"
    "msg_offset (Align (NewI2NPShortMessage ?a) 12) \<le> 13"
    by (auto simp: Align_def Let_def)
  then show "gw_rel env (CreateCurrentTunnelDataMessage env st) fss []"
    using assms
    by (auto simp: gw_rel_def CreateCurrentTunnelDataMessage_def Let_def cur_msg_def gw_buf_ok_def
        TUNNEL_DATA_MSG_SIZE_def TUNNEL_DATA_MAX_PAYLOAD_SIZE_def window_def)
qed (auto simp: CreateCurrentTunnelDataMessage_def Let_def TUNNEL_DATA_MAX_PAYLOAD_SIZE_def)

lemma rel_complete:
  assumes "gw_env_ok env" and "gw_rel env st fss cur" and "gw_CurrentTunnelDataMsg st \<noteq> None"
  shows "\<exists>st'. CompleteCurrentTunnelDataMessage env st = Some st' \<and> gw_rel env st' (fss @ [cur]) [] \<and>
    gw_CurrentTunnelDataMsg st' = None \<and> gw_TunnelID st' = gw_TunnelID st"
proof -
  obtain m where m: "gw_CurrentTunnelDataMsg st = Some m" using assms(3) by blast
  then have c: "cur_msg m (encode_frags cur)" and b: "gw_buf_ok st"
    using assms(2) by (auto simp: gw_rel_def)
  from Complete_Some [OF assms(1) b m c] obtain m' where
    "CompleteCurrentTunnelDataMessage env st = Some (st\<lparr>gw_TunnelDataMsgs :=
       gw_TunnelDataMsgs st @ [m'], gw_CurrentTunnelDataMsg := None\<rparr>)"
    "done_msg env (gw_TunnelID st) m' (encode_frags cur)" by blast
  then show ?thesis
    using assms(2) by (auto simp: gw_rel_def gw_buf_ok_def list_all2_appendI)
qed

text \<open>\<open>CompleteCurrentTunnelDataMessage\<close> does not look at the remaining size.\<close>

lemma rel_complete_any:
  assumes "gw_env_ok env" and "gw_rel env (st\<lparr>gw_RemainingSize := r\<rparr>) fss cur"
    and "gw_CurrentTunnelDataMsg st \<noteq> None"
  shows "\<exists>st'. CompleteCurrentTunnelDataMessage env st = Some st' \<and> gw_rel env st' (fss @ [cur]) [] \<and>
    gw_CurrentTunnelDataMsg st' = None \<and> gw_TunnelID st' = gw_TunnelID st"
proof -
  obtain m where m: "gw_CurrentTunnelDataMsg st = Some m" using assms(3) by blast
  have "gw_rel env (st\<lparr>gw_RemainingSize := 1003 - length (encode_frags cur)\<rparr>) fss cur"
    using assms(2) m by (auto simp: gw_rel_def gw_buf_ok_def)
  moreover have b: "gw_buf_ok st" and c: "cur_msg m (encode_frags cur)"
    using assms(2) m by (auto simp: gw_rel_def gw_buf_ok_def)
  moreover obtain m' where
    "CompleteCurrentTunnelDataMessage env st = Some (st\<lparr>gw_TunnelDataMsgs :=
       gw_TunnelDataMsgs st @ [m'], gw_CurrentTunnelDataMsg := None\<rparr>)"
    "done_msg env (gw_TunnelID st) m' (encode_frags cur)"
    using Complete_Some [OF assms(1) b m c] by blast
  ultimately show ?thesis
    by (auto simp: gw_rel_def gw_buf_ok_def list_all2_appendI)
qed

text \<open>Writing one more fragment, in two pieces, behind the payload written so far.\<close>

lemma rel_append:
  assumes rel: "gw_rel env st fss cur" and m: "gw_CurrentTunnelDataMsg st = Some m"
    and f: "frag_ok f" "encode_frag f = a @ b" "length (a @ b) \<le> gw_RemainingSize st"
  defines "m1 \<equiv> m\<lparr>msg_buf := patch (msg_buf m) (msg_len m) a\<rparr>"
    and "m2 \<equiv> m\<lparr>msg_buf := patch (msg_buf m) (msg_len m) (a @ b)\<rparr>"
  shows "put_at m (msg_len m) a = Some m1" "put_at m1 (msg_len m + length a) b = Some m2"
    and "gw_rel env (append_current st (add_len m2 (length (a @ b)))\<lparr>gw_RemainingSize :=
           gw_RemainingSize st - length (a @ b)\<rparr>) fss (cur @ [f])"
proof -
  let ?e = "encode_frags cur"
  have c: "cur_msg m ?e" and r: "gw_RemainingSize st = 1003 - length ?e"
    using rel m by (auto simp: gw_rel_def)
  then have l: "length (msg_buf m) = 4112" "msg_len m + length (a @ b) \<le> 2060"
    "length ?e + length (a @ b) \<le> 1003" "msg_len m = msg_offset m + length ?e"
    using f(3) by (auto simp: cur_msg_def)
  then show "put_at m (msg_len m) a = Some m1" "put_at m1 (msg_len m + length a) b = Some m2"
    by (simp_all add: m1_def m2_def put_at_patch patch_patch)
  have "window (msg_buf m2) (msg_offset m) (length ?e) = ?e"
    using c l by (simp add: m2_def window_patch_before cur_msg_def)
  moreover have "window (msg_buf m2) (msg_offset m + length ?e) (length (a @ b)) = a @ b"
    using l by (simp add: m2_def)
  ultimately have "window (msg_buf m2) (msg_offset m) (length ?e + length (a @ b)) = ?e @ a @ b"
    unfolding window_add by simp
  then have "cur_msg (add_len m2 (length (a @ b))) (encode_frags (cur @ [f]))"
    using c l f(2) by (simp add: cur_msg_def add_len_def m2_def)
  then show "gw_rel env (append_current st (add_len m2 (length (a @ b)))\<lparr>gw_RemainingSize :=
           gw_RemainingSize st - length (a @ b)\<rparr>) fss (cur @ [f])"
    using rel f r l by (auto simp: gw_rel_def append_current_def gw_buf_ok_def)
qed

lemma follow_frags_Cons:
  "ds \<noteq> [] \<Longrightarrow> follow_frags mid n (d # ds) = FollowFrag mid n False d # follow_frags mid (Suc n) ds"
  by (cases ds) auto

lemma put_follow_on_spec:
  assumes "gw_env_ok env" and "gw_rel env st fss []" and "gw_CurrentTunnelDataMsg st = None"
    and "pos < length msg" and "length mid = 4" and "length msg - pos \<le> 996 * (64 - n)"
  shows "\<exists>st' fss' cur' ds. put_follow_on env mid msg n pos st = Some st' \<and>
    gw_rel env st' fss' cur' \<and> gw_TunnelID st' = gw_TunnelID st \<and>
    concat fss' @ cur' = concat fss @ follow_frags mid n ds \<and>
    concat ds = drop pos msg \<and> ds \<noteq> [] \<and> length ds + n \<le> 64"
  using assms
proof (induction "length msg - pos" arbitrary: n pos st fss rule: less_induct)
  case less
  let ?s0 = "CreateCurrentTunnelDataMessage env st"
  obtain m where m: "gw_CurrentTunnelDataMsg ?s0 = Some m"
    using rel_create(3) [OF less.prems(2)] by blast
  have rel0: "gw_rel env ?s0 fss []" and rem: "gw_RemainingSize ?s0 = 1003"
    and tid: "gw_TunnelID ?s0 = gw_TunnelID st"
    using rel_create [OF less.prems(2)] by auto
  have n: "n < 64" using less.prems by (cases "n < 64") auto
  define rest where "rest = length msg - pos"
  define lst where "lst = (rest \<le> 996)"
  define s where "s = (if lst then rest else 996)"
  define d where "d = take s (drop pos msg)"
  define f where "f = FollowFrag mid n lst d"
  have s: "s \<le> 996" "0 < s" "s \<le> rest" "length d = s"
    using less.prems by (auto simp: s_def lst_def rest_def d_def)
  let ?flag = "(0x80 OR push_bit 1 (word_of_nat n)) OR (if lst then 0x01 else 0) :: byte"
  let ?a = "[?flag] @ mid @ be_bytes 2 s"
  have f: "frag_ok f" "encode_frag f = ?a @ d" "length (?a @ d) \<le> gw_RemainingSize ?s0"
    using less.prems n s rem by (simp_all add: f_def)
  note ap = rel_append [OF rel0 m f]
  have lm: "msg_len m = msg_offset m" and bufm: "length (msg_buf m) = 4112" "msg_offset m \<le> 1057"
    using rel0 m by (auto simp: gw_rel_def cur_msg_def)
  let ?m2 = "m\<lparr>msg_buf := patch (msg_buf m) (msg_len m) (?a @ d)\<rparr>"
  let ?s1 = "append_current ?s0 (add_len ?m2 (s + 7))"
  have cur1: "gw_CurrentTunnelDataMsg ?s1 \<noteq> None" by (simp add: append_current_def)
  have la: "length (?a @ d) = s + 7" using less.prems s by simp
  have rel1: "gw_rel env (?s1\<lparr>gw_RemainingSize := 1003 - (s + 7)\<rparr>) fss [f]"
    using ap(3) la rem by (simp del: append_assoc add: add.commute)
  have step: "put_follow_on env mid msg n pos st = do {
      st \<leftarrow> (if lst then
          let st = ?s1\<lparr>gw_RemainingSize := 1003 - (s + 7)\<rparr> in
          if gw_RemainingSize st = 0 then CompleteCurrentTunnelDataMessage env st else Some st
        else CompleteCurrentTunnelDataMessage env ?s1);
      put_follow_on env mid msg (n + 1) (pos + s) st }"
  proof -
    have e: "(1003::nat) - 7 = 996" by simp
    have "put_follow_on env mid msg n pos st = (case gw_CurrentTunnelDataMsg ?s0 of None \<Rightarrow> None
      | Some m \<Rightarrow> do {
          let buf = GetBuffer m;
          m \<leftarrow> put_at m buf [?flag];
          m \<leftarrow> put_at m (buf + 1) mid;
          m \<leftarrow> put_be16 m (buf + 5) (word_of_nat s);
          m \<leftarrow> put_at m (buf + 7) d;
          st \<leftarrow> (if lst then
              let st = append_current ?s0 (add_len m (s + 7))\<lparr>gw_RemainingSize :=
                size_sub (gw_RemainingSize (append_current ?s0 (add_len m (s + 7)))) (s + 7)\<rparr> in
              if gw_RemainingSize st = 0 then CompleteCurrentTunnelDataMessage env st else Some st
            else CompleteCurrentTunnelDataMessage env (append_current ?s0 (add_len m (s + 7))));
          put_follow_on env mid msg (n + 1) (pos + s) st })"
      unfolding d_def s_def lst_def rest_def
      by (subst put_follow_on.simps)
        (simp only: Let_def less.prems(4) if_True TUNNEL_DATA_MAX_PAYLOAD_SIZE_def e)
    then show ?thesis
      using less.prems(5) lm bufm s m rem
      by (simp add: Let_def GetBuffer_def put_be_put_at put_at_patch patch_patch unat_of_nat
          append_current_def)
  qed
  show ?case
  proof (cases lst)
    case True
    then have ps: "pos + s = length msg"
      using less.prems(4) by (simp add: s_def rest_def)
    then have stop: "put_follow_on env mid msg (n + 1) (pos + s) st' = Some st'" for st'
      by (subst put_follow_on.simps) simp
    have ds: "follow_frags mid n [d] = [f]" "concat [d] = drop pos msg"
      using True by (simp_all add: f_def d_def s_def rest_def)
    show ?thesis
    proof (cases "s + 7 < 1003")
      case small: True
      then have "put_follow_on env mid msg n pos st = Some (?s1\<lparr>gw_RemainingSize := 1003 - (s + 7)\<rparr>)"
        using step True stop by simp
      then show ?thesis
        using rel1 tid ds n by (intro exI [of _ "?s1\<lparr>gw_RemainingSize := 1003 - (s + 7)\<rparr>"]
            exI [of _ fss] exI [of _ "[f]"] exI [of _ "[d]"]) (simp add: append_current_def)
    next
      case False
      let ?s2 = "?s1\<lparr>gw_RemainingSize := 1003 - (s + 7)\<rparr>"
      obtain st' where st': "CompleteCurrentTunnelDataMessage env ?s2 = Some st'"
        "gw_rel env st' (fss @ [[f]]) []" "gw_TunnelID st' = gw_TunnelID ?s2"
        using rel_complete [OF less.prems(1) rel1] cur1 by auto
      then have "put_follow_on env mid msg n pos st = Some st'"
        using step True stop False by simp
      then show ?thesis
        using st' tid ds n by (intro exI [of _ st'] exI [of _ "fss @ [[f]]"] exI [of _ "[]"]
            exI [of _ "[d]"]) (simp add: append_current_def)
    qed
  next
    case False
    obtain st1 where st1: "CompleteCurrentTunnelDataMessage env ?s1 = Some st1"
      "gw_rel env st1 (fss @ [[f]]) []" "gw_CurrentTunnelDataMsg st1 = None"
      "gw_TunnelID st1 = gw_TunnelID ?s1"
      using rel_complete_any [OF less.prems(1) rel1 cur1] by auto
    have s996: "s = 996" "996 < length msg - pos" using False by (auto simp: s_def lst_def rest_def)
    have "length msg - (pos + s) \<le> 996 * (64 - (n + 1))"
      using less.prems(6) n s996 by (simp add: algebra_simps)
    then have "\<exists>st' fss' cur' ds. put_follow_on env mid msg (n + 1) (pos + s) st1 = Some st' \<and>
        gw_rel env st' fss' cur' \<and> gw_TunnelID st' = gw_TunnelID st1 \<and>
        concat fss' @ cur' = concat (fss @ [[f]]) @ follow_frags mid (n + 1) ds \<and>
        concat ds = drop (pos + s) msg \<and> ds \<noteq> [] \<and> length ds + (n + 1) \<le> 64"
      using less.prems s996 st1 by (intro less.hyps) auto
    then obtain st' fss' cur' ds where ih: "put_follow_on env mid msg (n + 1) (pos + s) st1 = Some st'"
      "gw_rel env st' fss' cur'" "gw_TunnelID st' = gw_TunnelID st1"
      "concat fss' @ cur' = concat (fss @ [[f]]) @ follow_frags mid (n + 1) ds"
      "concat ds = drop (pos + s) msg" "ds \<noteq> []" "length ds + (n + 1) \<le> 64"
      by blast
    have "put_follow_on env mid msg n pos st = Some st'"
      using step False st1(1) ih(1) by simp
    moreover have "concat (d # ds) = drop pos msg"
      using ih(5) by (simp add: d_def) (metis append_take_drop_id drop_drop add.commute)
    moreover have "follow_frags mid n (d # ds) = f # follow_frags mid (n + 1) ds"
      using ih(6) False by (simp add: follow_frags_Cons f_def)
    ultimately show ?thesis
      using ih tid st1(4) by (intro exI [of _ st'] exI [of _ fss'] exI [of _ cur'] exI [of _ "d # ds"])
        (simp add: append_current_def)
  qed
qed

section \<open>PutI2NPMsg fragments its message\<close>

definition block_ok :: "TunnelMessageBlock \<Rightarrow> bool" where
  "block_ok block \<longleftrightarrow> has_header (blk_data block) \<and> length (msg_content (blk_data block)) \<le> 32768 \<and>
     blk_deliveryType block \<in> {eDeliveryTypeLocal, eDeliveryTypeTunnel, eDeliveryTypeRouter} \<and>
     (blk_deliveryType block \<noteq> eDeliveryTypeLocal \<longrightarrow> length (blk_hash block) = 32)"

abbreviation block_frags :: "TunnelMessageBlock \<Rightarrow> frag list \<Rightarrow> bool" where
  "block_frags block \<equiv> fragments_of (blk_deliveryType block) (blk_tunnelID block) (blk_hash block)
     (msg_content (blk_data block))"

lemma block_reads:
  assumes "block_ok block"
  shows "GetLength (blk_data block) = length (msg_content (blk_data block))"
    and "mem_read (msg_buf (blk_data block)) (GetBuffer (blk_data block)) (GetLength (blk_data block))
           = Some (msg_content (blk_data block))"
    and "mem_read (msg_buf (blk_data block)) (GetBuffer (blk_data block) + 1) 4
           = Some (take 4 (drop 1 (msg_content (blk_data block))))"
    and "k \<le> length (msg_content (blk_data block)) \<Longrightarrow>
         mem_read (msg_buf (blk_data block)) (GetBuffer (blk_data block)) k
           = Some (take k (msg_content (blk_data block)))"
    and "16 \<le> length (msg_content (blk_data block))"
proof -
  let ?m = "blk_data block"
  obtain n where n: "msg_len ?m = msg_offset ?m + n" "16 \<le> n" "msg_offset ?m + n \<le> length (msg_buf ?m)"
    using assms by (auto simp: block_ok_def has_header_def le_iff_add)
  have c: "msg_content ?m = take n (drop (msg_offset ?m) (msg_buf ?m))" "length (msg_content ?m) = n"
    using n by (simp_all add: msg_content_def window_def)
  show "GetLength ?m = length (msg_content ?m)" "16 \<le> length (msg_content ?m)"
    "mem_read (msg_buf ?m) (GetBuffer ?m) (GetLength ?m) = Some (msg_content ?m)"
    using n c by (simp_all add: GetLength_def GetBuffer_def mem_read_def)
  show "mem_read (msg_buf ?m) (GetBuffer ?m + 1) 4 = Some (take 4 (drop 1 (msg_content ?m)))"
    using n c by (simp add: GetBuffer_def mem_read_def drop_take min_def)
  show "mem_read (msg_buf ?m) (GetBuffer ?m) k = Some (take k (msg_content ?m))"
    if "k \<le> length (msg_content ?m)"
    using n c that by (simp add: GetBuffer_def mem_read_def min_def)
qed

lemma di_tail_frag: "di_tail block = frag_tail (blk_deliveryType block) (blk_tunnelID block) (blk_hash block)"
  by (simp add: di_tail_def frag_tail_def)

lemma length_di_tail: "block_ok block \<Longrightarrow> Suc (length (di_tail block)) = di_len block"
  by (simp add: block_ok_def di_tail_def di_len_def)

lemma put_whole_spec:
  assumes env: "gw_env_ok env" and rel: "gw_rel env st fss cur"
    and cur: "gw_CurrentTunnelDataMsg st \<noteq> None" and blk: "block_ok block"
    and fits: "di_len block + GetLength (blk_data block) + 2 \<le> gw_RemainingSize st"
  shows "\<exists>st' fss' cur' fs. put_whole env block st = Some st' \<and> gw_rel env st' fss' cur' \<and>
    gw_TunnelID st' = gw_TunnelID st \<and> concat fss' @ cur' = concat fss @ cur @ fs \<and>
    block_frags block fs"
proof -
  obtain m where m: "gw_CurrentTunnelDataMsg st = Some m" using cur by blast
  let ?c = "msg_content (blk_data block)" and ?t = "blk_deliveryType block"
  define f where "f = FirstFrag ?t (blk_tunnelID block) (blk_hash block) None ?c"
  define a where "a = [push_bit 5 ?t] @ di_tail block @ be_bytes 2 (length ?c)"
  have "gw_RemainingSize st \<le> 1003" using rel m by (auto simp: gw_rel_def)
  then have lc: "length ?c < 65536" using fits block_reads(1) [OF blk] by simp
  have la: "length a = di_len block + 2" using length_di_tail [OF blk] by (simp add: a_def)
  have f: "frag_ok f" "encode_frag f = a @ ?c" "length (a @ ?c) \<le> gw_RemainingSize st"
    using blk lc fits la block_reads(1) [OF blk] by (auto simp: f_def a_def block_ok_def di_tail_frag)
  note ap = rel_append [OF rel m f]
  let ?s = "append_current st (add_len (m\<lparr>msg_buf := patch (msg_buf m) (msg_len m) (a @ ?c)\<rparr>)
     (length (a @ ?c)))\<lparr>gw_RemainingSize := gw_RemainingSize st - length (a @ ?c)\<rparr>"
  have a': "push_bit 5 ?t # di_tail block @ be_bytes 2 (length ?c) = a" by (simp add: a_def)
  have eq: "put_whole env block st = (if gw_RemainingSize ?s = 0
      then CompleteCurrentTunnelDataMessage env ?s else Some ?s)"
    using ap(1,2) la f(3) block_reads(1,2) [OF blk] lc m
    by (simp add: put_whole_def Let_def append_current_def unat_of_nat a')
  show ?thesis
  proof (cases "gw_RemainingSize ?s = 0")
    case False
    then show ?thesis
      using eq ap(3) by (intro exI [of _ ?s] exI [of _ fss] exI [of _ "cur @ [f]"] exI [of _ "[f]"])
        (simp add: fragments_of_def f_def append_current_def)
  next
    case True
    obtain st' where "CompleteCurrentTunnelDataMessage env ?s = Some st'"
      "gw_rel env st' (fss @ [cur @ [f]]) []" "gw_TunnelID st' = gw_TunnelID ?s"
      using rel_complete [OF env ap(3)] by (auto simp: append_current_def)
    then show ?thesis
      using eq True by (intro exI [of _ st'] exI [of _ "fss @ [cur @ [f]]"] exI [of _ "[]"] exI [of _ "[f]"])
        (simp add: fragments_of_def f_def append_current_def)
  qed
qed

lemma put_fragmented_spec:
  assumes env: "gw_env_ok env" and rel: "gw_rel env st fss cur"
    and cur: "gw_CurrentTunnelDataMsg st \<noteq> None" and blk: "block_ok block"
    and di: "di_len block + 6 \<le> gw_RemainingSize st"
    and split: "gw_RemainingSize st - di_len block - 6 < GetLength (blk_data block)"
  shows "\<exists>st' fss' cur' fs. put_fragmented env block st = Some st' \<and> gw_rel env st' fss' cur' \<and>
    gw_TunnelID st' = gw_TunnelID st \<and> concat fss' @ cur' = concat fss @ cur @ fs \<and>
    block_frags block fs"
proof -
  obtain m where m: "gw_CurrentTunnelDataMsg st = Some m" using cur by blast
  let ?c = "msg_content (blk_data block)" and ?t = "blk_deliveryType block"
  define k where "k = gw_RemainingSize st - di_len block - 6"
  define mid where "mid = take 4 (drop 1 ?c)"
  define d where "d = take k ?c"
  define f where "f = FirstFrag ?t (blk_tunnelID block) (blk_hash block) (Some mid) d"
  define a where "a = [push_bit 5 ?t OR 0x08] @ di_tail block @ mid @ be_bytes 2 k"
  note rd = block_reads [OF blk]
  have "gw_RemainingSize st \<le> 1003" using rel m by (auto simp: gw_rel_def)
  then have k: "k < 1003" "k < length ?c" "length d = k" "length mid = 4"
    "gw_RemainingSize st = di_len block + 6 + k"
    using split di rd(1,5) by (simp_all add: k_def d_def mid_def)
  have la: "length a = di_len block + 6" using length_di_tail [OF blk] k by (simp add: a_def)
  have f: "frag_ok f" "encode_frag f = a @ d" "length (a @ d) \<le> gw_RemainingSize st"
    using blk k la by (auto simp: f_def a_def block_ok_def di_tail_frag)
  note ap = rel_append [OF rel m f]
  let ?s = "append_current st (add_len (m\<lparr>msg_buf := patch (msg_buf m) (msg_len m) (a @ d)\<rparr>)
     (length (a @ d)))"
  obtain st1 where st1: "CompleteCurrentTunnelDataMessage env ?s = Some st1"
    "gw_rel env st1 (fss @ [cur @ [f]]) []" "gw_CurrentTunnelDataMsg st1 = None"
    "gw_TunnelID st1 = gw_TunnelID st"
    using rel_complete_any [OF env ap(3)] by (auto simp: append_current_def)
  have a': "(push_bit 5 ?t OR 8) # di_tail block @ mid @ be_bytes 2 k = a" by (simp add: a_def)
  have eq: "put_fragmented env block st = put_follow_on env mid ?c 1 k st1"
    using ap(1,2) la rd(2) rd(3) [folded mid_def] rd(4) [of k, folded d_def] k st1(1) m
    by (simp add: put_fragmented_def Let_def unat_of_nat a' I2NP_HEADER_MSGID_OFFSET_def
        I2NP_HEADER_TYPEID_OFFSET_def add.assoc)
  have "length ?c - k \<le> 996 * (64 - 1)"
    using blk by (auto simp: block_ok_def)
  then obtain st' fss' cur' ds where ih: "put_follow_on env mid ?c 1 k st1 = Some st'"
    "gw_rel env st' fss' cur'" "gw_TunnelID st' = gw_TunnelID st1"
    "concat fss' @ cur' = concat (fss @ [cur @ [f]]) @ follow_frags mid 1 ds"
    "concat ds = drop k ?c" "ds \<noteq> []" "length ds + 1 \<le> 64"
    using put_follow_on_spec [OF env st1(2,3) k(2,4)] by blast
  have "block_frags block (f # follow_frags mid 1 ds)"
    unfolding fragments_of_def using ih(5-7)
    by (intro disjI2 exI [of _ d] exI [of _ ds]) (simp add: f_def d_def mid_def)
  then show ?thesis
    using eq ih st1(4) by (intro exI [of _ st'] exI [of _ fss'] exI [of _ cur']
        exI [of _ "f # follow_frags mid 1 ds"]) simp
qed

text \<open>
  When \<open>PutI2NPMsg\<close> does what it means to do: the current tunnel message is not there yet, or the
  message fits into it, or the message does not fit into a fresh one either.
\<close>

definition put_ok :: "gw_state \<Rightarrow> TunnelMessageBlock \<Rightarrow> bool" where
  "put_ok st block \<longleftrightarrow> gw_CurrentTunnelDataMsg st = None \<or>
     di_len block + GetLength (blk_data block) + 2 \<le> gw_RemainingSize st \<or>
     999 < di_len block + GetLength (blk_data block) + 2"

lemma put_step_spec:
  assumes env: "gw_env_ok env" and rel: "gw_rel env st fss cur" and blk: "block_ok block"
    and ok: "put_ok st block"
  shows "(\<exists>st' fss' cur' fs. put_step env block st = Some (Inl st') \<and> gw_rel env st' fss' cur' \<and>
      gw_TunnelID st' = gw_TunnelID st \<and> concat fss' @ cur' = concat fss @ cur @ fs \<and>
      block_frags block fs) \<or>
    (\<exists>st' fss'. put_step env block st = Some (Inr st') \<and> gw_rel env st' fss' [] \<and>
      gw_TunnelID st' = gw_TunnelID st \<and> concat fss' = concat fss @ cur \<and>
      gw_CurrentTunnelDataMsg st' = None)"
proof (cases "gw_CurrentTunnelDataMsg st")
  case None
  then have "cur = []" using rel by (simp add: gw_rel_def)
  then have rel0: "gw_rel env st fss []" using rel by simp
  let ?s = "CreateCurrentTunnelDataMessage env st"
  note cr = rel_create [OF rel0]
  have c: "gw_CurrentTunnelDataMsg ?s \<noteq> None" using cr(3) by auto
  show ?thesis
  proof (cases "di_len block + GetLength (blk_data block) + 2 \<le> gw_RemainingSize ?s")
    case True
    then show ?thesis
      using put_whole_spec [OF env cr(1) c blk] None cr(4) \<open>cur = []\<close> by (auto simp: put_step_def Let_def)
  next
    case False
    then have "di_len block + 6 \<le> gw_RemainingSize ?s"
      "gw_RemainingSize ?s - di_len block - 6 < GetLength (blk_data block)"
      using cr(2) di_len_le [of block] by auto
    from put_fragmented_spec [OF env cr(1) c blk this] show ?thesis
      using None cr(4) \<open>cur = []\<close> False \<open>di_len block + 6 \<le> gw_RemainingSize ?s\<close>
      by (auto simp: put_step_def Let_def)
  qed
next
  case (Some m)
  let ?full = "di_len block + GetLength (blk_data block) + 2"
  show ?thesis
  proof (cases "?full \<le> gw_RemainingSize st")
    case True
    then show ?thesis
      using put_whole_spec [OF env rel _ blk] Some by (auto simp: put_step_def Let_def)
  next
    case False
    then have big: "999 < ?full" using ok Some by (simp add: put_ok_def)
    let ?nf = "(?full + ?full div 1003 * 7) mod 1003"
    show ?thesis
    proof (cases "?nf = 0 \<or> ?nf > gw_RemainingSize st")
      case True
      obtain s1 where s1: "CompleteCurrentTunnelDataMessage env st = Some s1"
        "gw_rel env s1 (fss @ [cur]) []" "gw_TunnelID s1 = gw_TunnelID st"
        using rel_complete [OF env rel] Some by auto
      let ?s = "CreateCurrentTunnelDataMessage env s1"
      note cr = rel_create [OF s1(2)]
      have c: "gw_CurrentTunnelDataMsg ?s \<noteq> None" using cr(3) by auto
      have "di_len block + 6 \<le> gw_RemainingSize ?s"
        "gw_RemainingSize ?s - di_len block - 6 < GetLength (blk_data block)"
        using cr(2) di_len_le [of block] big by auto
      from put_fragmented_spec [OF env cr(1) c blk this] show ?thesis
        using Some cr(4) False True s1 \<open>di_len block + 6 \<le> gw_RemainingSize ?s\<close>
        by (auto simp: put_step_def Let_def TUNNEL_DATA_MAX_PAYLOAD_SIZE_def)
    next
      case nf: False
      show ?thesis
      proof (cases "di_len block + 6 \<le> gw_RemainingSize st")
        case True
        moreover have "gw_RemainingSize st - di_len block - 6 < GetLength (blk_data block)"
          using False True by simp
        ultimately show ?thesis
          using put_fragmented_spec [OF env rel _ blk] Some False nf
          by (auto simp: put_step_def Let_def TUNNEL_DATA_MAX_PAYLOAD_SIZE_def)
      next
        case small: False
        obtain s1 where "CompleteCurrentTunnelDataMessage env st = Some s1"
          "gw_rel env s1 (fss @ [cur]) []" "gw_TunnelID s1 = gw_TunnelID st"
          "gw_CurrentTunnelDataMsg s1 = None"
          using rel_complete [OF env rel] Some by auto
        then show ?thesis
          using Some False nf small
          by (auto simp: put_step_def Let_def TUNNEL_DATA_MAX_PAYLOAD_SIZE_def)
      qed
    qed
  qed
qed

theorem PutI2NPMsg_spec:
  assumes env: "gw_env_ok env" and rel: "gw_rel env st fss cur" and blk: "block_ok block"
    and ok: "put_ok st block"
  shows "\<exists>st' fss' cur' fs. PutI2NPMsg env block st = Some st' \<and> gw_rel env st' fss' cur' \<and>
    gw_TunnelID st' = gw_TunnelID st \<and> concat fss' @ cur' = concat fss @ cur @ fs \<and>
    block_frags block fs"
  using put_step_spec [OF env rel blk ok]
proof (elim disjE exE conjE)
  fix st' fss' cur' fs
  assume "put_step env block st = Some (Inl st')" "gw_rel env st' fss' cur'"
    "gw_TunnelID st' = gw_TunnelID st" "concat fss' @ cur' = concat fss @ cur @ fs"
    "block_frags block fs"
  then show ?thesis
    by (subst PutI2NPMsg.simps) auto
next
  fix s1 fss1
  assume s1: "put_step env block st = Some (Inr s1)" "gw_rel env s1 fss1 []"
    "gw_TunnelID s1 = gw_TunnelID st" "concat fss1 = concat fss @ cur"
    "gw_CurrentTunnelDataMsg s1 = None"
  have ok1: "put_ok s1 block" using s1(5) by (simp add: put_ok_def)
  have "put_step env block s1 \<noteq> Some (Inr s2)" for s2
    using put_step_retry(1) [of env block s1 s2] s1(5) by auto
  then obtain st' fss' cur' fs where "put_step env block s1 = Some (Inl st')"
    "gw_rel env st' fss' cur'" "gw_TunnelID st' = gw_TunnelID s1"
    "concat fss' @ cur' = concat fss1 @ [] @ fs" "block_frags block fs"
    using put_step_spec [OF env s1(2) blk ok1] by blast
  moreover have "PutI2NPMsg env block st = PutI2NPMsg env block s1"
    using s1(1) by (subst PutI2NPMsg.simps) simp
  moreover have "PutI2NPMsg env block s1 = Some st'" if "put_step env block s1 = Some (Inl st')" for st'
    using that by (subst PutI2NPMsg.simps) simp
  ultimately show ?thesis
    using s1 by (intro exI [of _ st'] exI [of _ fss'] exI [of _ cur'] exI [of _ fs]) simp
qed

section \<open>A message that fits the next tunnel message but not this one\<close>

lemma small_message_lost:
  assumes env: "gw_env_ok env" and rel: "gw_rel env st fss cur" and blk: "block_ok block"
    and cur: "gw_CurrentTunnelDataMsg st \<noteq> None"
    and full: "gw_RemainingSize st < di_len block + GetLength (blk_data block) + 2"
      "di_len block + GetLength (blk_data block) + 2 \<le> 999"
    and room: "msg_offset (blk_data block) + 1003 \<le> length (msg_buf (blk_data block))"
  shows "\<exists>st' d. PutI2NPMsg env block st = Some st' \<and>
    gw_rel env st' (fss @ [cur, [FirstFrag (blk_deliveryType block) (blk_tunnelID block) (blk_hash block)
      (Some (take 4 (drop 1 (msg_content (blk_data block))))) d]]) [] \<and>
    gw_CurrentTunnelDataMsg st' = None \<and> take (length (msg_content (blk_data block))) d = msg_content (blk_data block)"
proof -
  let ?M = "blk_data block"
  let ?c = "msg_content ?M" and ?t = "blk_deliveryType block"
  note rd = block_reads [OF blk]
  obtain s1 where s1: "CompleteCurrentTunnelDataMessage env st = Some s1"
    "gw_rel env s1 (fss @ [cur]) []" "gw_TunnelID s1 = gw_TunnelID st"
    using rel_complete [OF env rel cur] by auto
  let ?s = "CreateCurrentTunnelDataMessage env s1"
  note cr = rel_create [OF s1(2)]
  obtain m where m: "gw_CurrentTunnelDataMsg ?s = Some m" using cr(3) by blast
  define k where "k = 997 - di_len block"
  define d where "d = window (msg_buf ?M) (msg_offset ?M) k"
  define mid where "mid = take 4 (drop 1 ?c)"
  define f where "f = FirstFrag ?t (blk_tunnelID block) (blk_hash block) (Some mid) d"
  define a where "a = [push_bit 5 ?t OR 0x08] @ di_tail block @ mid @ be_bytes 2 k"
  have k: "k \<le> 997" "length ?c \<le> k" "di_len block + 6 + k = 1003"
    using full rd(1) di_len_le [of block] by (simp_all add: k_def)
  have d: "length d = k" "length mid = 4" using room k rd(5) by (simp_all add: d_def mid_def)
  have first: "mem_read (msg_buf ?M) (GetBuffer ?M) k = Some d"
    using room k by (simp add: d_def GetBuffer_def mem_read_window)
  have tk: "take (length ?c) d = ?c"
    using rd(2) k by (simp add: d_def mem_read_def GetBuffer_def rd(1) window_def min_def split: if_splits)
  have la: "length a = di_len block + 6" using length_di_tail [OF blk] d by (simp add: a_def)
  have f: "frag_ok f" "encode_frag f = a @ d" "length (a @ d) \<le> gw_RemainingSize ?s"
    using blk k d la cr(2) by (auto simp: f_def a_def block_ok_def di_tail_frag)
  note ap = rel_append [OF cr(1) m f]
  let ?x = "append_current ?s (add_len (m\<lparr>msg_buf := patch (msg_buf m) (msg_len m) (a @ d)\<rparr>) (length (a @ d)))"
  obtain st1 where st1: "CompleteCurrentTunnelDataMessage env ?x = Some st1"
    "gw_rel env st1 ((fss @ [cur]) @ [[] @ [f]]) []" "gw_CurrentTunnelDataMsg st1 = None"
    using rel_complete_any [OF env ap(3)] by (auto simp: append_current_def)
  have a': "(push_bit 5 ?t OR 8) # di_tail block @ mid @ be_bytes 2 k = a" by (simp add: a_def)
  have pos: "gw_RemainingSize ?s - di_len block - 6 = k" using cr(2) by (simp add: k_def)
  have "put_fragmented env block ?s = put_follow_on env mid ?c 1 k st1"
    using ap(1,2) la rd(2) rd(3) [folded mid_def] first k st1(1) m d pos
    by (simp add: put_fragmented_def Let_def unat_of_nat a' I2NP_HEADER_MSGID_OFFSET_def
        I2NP_HEADER_TYPEID_OFFSET_def add.assoc)
  also have "\<dots> = Some st1" using k by (simp add: put_follow_on.simps)
  finally have pf: "put_fragmented env block ?s = Some st1" .
  have "put_step env block st = Some (Inl st1)"
    using cur full s1(1) pf cr(2) di_len_le [of block]
    by (auto simp: put_step_def Let_def TUNNEL_DATA_MAX_PAYLOAD_SIZE_def)
  then have "PutI2NPMsg env block st = Some st1" by (simp add: PutI2NPMsg.simps)
  then show ?thesis using st1 tk by (auto simp: f_def mid_def)
qed

section \<open>Properties\<close>


text \<open>A gateway state with 503 bytes in the current tunnel message, and messages to put into it.\<close>

definition sample_gw_env :: gw_env where
  "sample_gw_env = \<lparr>gwe_addr = (\<lambda>_. 0), gwe_iv = (\<lambda>_. replicate 16 1), gwe_word32 = (\<lambda>_ _. 0),
     gwe_sha256 = (\<lambda>_. replicate 32 1)\<rparr>"

definition sample_frag :: frag where
  "sample_frag = FirstFrag 0 0 [] None (replicate 500 1)"

definition sample_partial :: gw_state where
  "sample_partial = \<lparr>gw_TunnelID = 5, gw_TunnelDataMsgs = [], gw_CurrentTunnelDataMsg = Some
      \<lparr>msg_buf = replicate 1046 0 @ encode_frag sample_frag @ replicate 2563 0, msg_base = 0, msg_len = 1549,
       msg_offset = 1046, msg_maxLen = 4096, msg_from = None\<rparr>,
     gw_RemainingSize = 500, gw_NonZeroRandomBuffer = replicate 1003 7, gw_created = 1\<rparr>"

definition sample_block :: "nat \<Rightarrow> TunnelMessageBlock" where
  "sample_block n = \<lparr>blk_deliveryType = 0, blk_hash = [], blk_tunnelID = 0,
     blk_data = \<lparr>msg_buf = replicate 2000 5, msg_base = 0, msg_len = 2 + n, msg_offset = 2, msg_maxLen = 2000,
       msg_from = None\<rparr>\<rparr>"

lemma sample_gw_ok:
  "gw_env_ok sample_gw_env" "gw_rel sample_gw_env sample_partial [] [sample_frag]"
  "16 \<le> n \<Longrightarrow> n \<le> 1998 \<Longrightarrow> block_ok (sample_block n)"
  "16 \<le> n \<Longrightarrow> n \<le> 1998 \<Longrightarrow> di_len (sample_block n) = 1 \<and> GetLength (blk_data (sample_block n)) = n"
proof -
  show "gw_env_ok sample_gw_env" by (simp add: gw_env_ok_def sample_gw_env_def)
  have l: "length (encode_frag sample_frag) = 503"
    by (simp add: sample_frag_def frag_tail_def eDeliveryTypeLocal_def)
  show "gw_rel sample_gw_env sample_partial [] [sample_frag]"
    using l by (simp add: gw_rel_def gw_buf_ok_def sample_partial_def cur_msg_def window_def)
      (simp add: sample_frag_def eDeliveryTypeLocal_def)
  show "16 \<le> n \<Longrightarrow> n \<le> 1998 \<Longrightarrow> block_ok (sample_block n)"
    by (simp add: block_ok_def sample_block_def has_header_def msg_content_def eDeliveryTypeLocal_def)
  show "16 \<le> n \<Longrightarrow> n \<le> 1998 \<Longrightarrow> di_len (sample_block n) = 1 \<and> GetLength (blk_data (sample_block n)) = n"
    by (simp add: di_len_def sample_block_def GetLength_def eDeliveryTypeLocal_def)
qed


text \<open>
  C7: the case \<open>put_ok\<close> leaves out. A message that does not fit into the current tunnel message
  but would fit into an empty one is put into a new tunnel message as the first fragment of a
  fragmented message, longer than the message itself (bytes behind the message are copied along),
  and no follow-on fragment is ever sent, so no endpoint can complete it.
\<close>

theorem PutI2NPMsg_small_message_lost:
  assumes env: "gw_env_ok env" and rel: "gw_rel env st fss cur" and blk: "block_ok block"
    and cur: "gw_CurrentTunnelDataMsg st \<noteq> None"
    and full: "gw_RemainingSize st < di_len block + GetLength (blk_data block) + 2"
      "di_len block + GetLength (blk_data block) + 2 \<le> 999"
    and room: "msg_offset (blk_data block) + 1003 \<le> length (msg_buf (blk_data block))"
  shows "\<exists>st' d. PutI2NPMsg env block st = Some st' \<and>
    gw_rel env st' (fss @ [cur, [FirstFrag (blk_deliveryType block) (blk_tunnelID block) (blk_hash block)
      (Some (take 4 (drop 1 (msg_content (blk_data block))))) d]]) [] \<and>
    gw_CurrentTunnelDataMsg st' = None \<and> take (length (msg_content (blk_data block))) d = msg_content (blk_data block)"
  by (rule small_message_lost [OF env rel blk cur full room])

theorem PutI2NPMsg_small_message_lost_witness:
  "\<exists>st'. PutI2NPMsg sample_gw_env (sample_block 700) sample_partial = Some st' \<and>
     gw_CurrentTunnelDataMsg st' = None"
proof -
  have "gw_CurrentTunnelDataMsg sample_partial \<noteq> None" "gw_RemainingSize sample_partial = 500"
    "msg_offset (blk_data (sample_block 700)) + 1003 \<le> length (msg_buf (blk_data (sample_block 700)))"
    by (simp_all add: sample_partial_def sample_block_def)
  then show ?thesis
    using PutI2NPMsg_small_message_lost [OF sample_gw_ok(1,2) sample_gw_ok(3) [of 700]] sample_gw_ok(4) [of 700]
    by auto
qed

end
