(* ===== verification/Tunnel_Endpoint.thy ===== *)
theory Tunnel_Endpoint
  imports Tunnel_Fragments
begin

text \<open>
  \<open>src/core/tunnel/TunnelEndpoint.cpp\<close>: a decrypted tunnel data message is checked and taken
  apart into fragments; fragmented messages are reassembled and handed on.

  The two \<open>std::map\<close>s are maps, the calls out of the component (\<open>HandleI2NPMessage\<close>,
  \<open>transports.SendMessage\<close>) are events appended to \<open>ep_out\<close>. Log output is left out.
\<close>

record TunnelMessageBlockEx = TunnelMessageBlock +
  blk_nextFragmentNum :: byte

record ep_fragment =
  frg_fragmentNum :: byte
  frg_isLastFragment :: bool
  frg_data :: i2np_msg

datatype ep_event =
    EvHandleI2NPMessage i2np_msg
  | EvSendMessage ident_hash i2np_msg

record ep_state =
  ep_IncompleteMessages :: "32 word \<rightharpoonup> TunnelMessageBlockEx"
  ep_OutOfSequenceFragments :: "32 word \<rightharpoonup> ep_fragment"
  ep_IsInbound :: bool
  ep_NumReceivedBytes :: nat
  ep_out :: "ep_event list"

text \<open>The router's own identity, the allocator and the random generator (one draw per event).\<close>

record ep_env =
  epe_i2np :: i2np_env
  epe_ident :: ident_hash
  epe_addr :: "nat \<Rightarrow> nat"
  epe_rnd :: "nat \<Rightarrow> 32 word"

definition TunnelEndpoint :: "bool \<Rightarrow> ep_state" where
  "TunnelEndpoint isInbound = \<lparr>ep_IncompleteMessages = Map.empty,
     ep_OutOfSequenceFragments = Map.empty, ep_IsInbound = isInbound, ep_NumReceivedBytes = 0,
     ep_out = []\<rparr>"

definition emit :: "ep_state \<Rightarrow> ep_event \<Rightarrow> ep_state" where
  "emit st e = st\<lparr>ep_out := ep_out st @ [e]\<rparr>"

definition HandleNextMessage :: "ep_env \<Rightarrow> TunnelMessageBlockEx \<Rightarrow> ep_state \<Rightarrow> ep_state option" where
  "HandleNextMessage env msg st =
     (if blk_deliveryType msg = eDeliveryTypeLocal then Some (emit st (EvHandleI2NPMessage (blk_data msg)))
      else if blk_deliveryType msg = eDeliveryTypeTunnel then do {
        m \<leftarrow> CreateTunnelGatewayMsg (epe_i2np env) (epe_rnd env (length (ep_out st)))
               (epe_addr env (length (ep_out st))) (blk_tunnelID msg) (blk_data msg);
        Some (emit st (EvSendMessage (blk_hash msg) m)) }
      else if blk_deliveryType msg = eDeliveryTypeRouter then
        (if blk_hash msg = epe_ident env then Some (emit st (EvHandleI2NPMessage (blk_data msg)))
         else if \<not> ep_IsInbound st then Some (emit st (EvSendMessage (blk_hash msg) (blk_data msg)))
         else Some st)
      else Some st)"

definition AddOutOfSequenceFragment ::
    "32 word \<Rightarrow> byte \<Rightarrow> bool \<Rightarrow> i2np_msg \<Rightarrow> ep_state \<Rightarrow> ep_state" where
  "AddOutOfSequenceFragment msgID fragmentNum isLastFragment data st =
     (if ep_OutOfSequenceFragments st msgID = None
      then st\<lparr>ep_OutOfSequenceFragments := (ep_OutOfSequenceFragments st)(msgID \<mapsto>
             \<lparr>frg_fragmentNum = fragmentNum, frg_isLastFragment = isLastFragment, frg_data = data\<rparr>)\<rparr>
      else st)"

text \<open>
  Concatenating a fragment: into a longer buffer first when \<open>maxLen\<close> is passed (the assignment
  copies the old \<open>maxLen\<close> along).
\<close>

definition concat_fragment :: "ep_env \<Rightarrow> i2np_msg \<Rightarrow> bytes \<Rightarrow> i2np_msg option" where
  "concat_fragment env data fragment = do {
     data \<leftarrow> (if msg_len data + length fragment > msg_maxLen data
       then msg_assign (NewI2NPMessage (epe_addr env 0)) data else Some data);
     data \<leftarrow> put_at data (msg_len data) fragment;
     Some (add_len data (length fragment))
   }"

definition HandleOutOfSequenceFragment ::
    "ep_env \<Rightarrow> 32 word \<Rightarrow> TunnelMessageBlockEx \<Rightarrow> ep_state \<Rightarrow> ep_state option" where
  "HandleOutOfSequenceFragment env msgID msg st =
     (case ep_OutOfSequenceFragments st msgID of
        None \<Rightarrow> Some st
      | Some f \<Rightarrow>
        if frg_fragmentNum f = blk_nextFragmentNum msg then do {
          fragment \<leftarrow> mem_read (msg_buf (frg_data f)) (GetBuffer (frg_data f)) (GetLength (frg_data f));
          data \<leftarrow> concat_fragment env (blk_data msg) fragment;
          let msg = msg\<lparr>blk_data := data\<rparr>;
          st \<leftarrow> (if frg_isLastFragment f then do {
              st \<leftarrow> HandleNextMessage env msg st;
              Some (st\<lparr>ep_IncompleteMessages := (ep_IncompleteMessages st)(msgID := None)\<rparr>) }
            else Some (st\<lparr>ep_IncompleteMessages := (ep_IncompleteMessages st)(msgID \<mapsto>
                   msg\<lparr>blk_nextFragmentNum := blk_nextFragmentNum msg + 1\<rparr>)\<rparr>));
          Some (st\<lparr>ep_OutOfSequenceFragments := (ep_OutOfSequenceFragments st)(msgID := None)\<rparr>) }
        else Some st)"

definition HandleFollowOnFragment ::
    "ep_env \<Rightarrow> 32 word \<Rightarrow> bool \<Rightarrow> TunnelMessageBlockEx \<Rightarrow> ep_state \<Rightarrow> ep_state option" where
  "HandleFollowOnFragment env msgID isLastFragment m st =
     (case ep_IncompleteMessages st msgID of
        Some msg \<Rightarrow>
          if blk_nextFragmentNum m = blk_nextFragmentNum msg then
            (if msg_len (blk_data msg) + GetLength (blk_data m) < I2NP_MAX_MESSAGE_SIZE then do {
               fragment \<leftarrow> mem_read (msg_buf (blk_data m)) (GetBuffer (blk_data m)) (GetLength (blk_data m));
               data \<leftarrow> concat_fragment env (blk_data msg) fragment;
               let msg = msg\<lparr>blk_data := data\<rparr>;
               if isLastFragment then do {
                 st \<leftarrow> HandleNextMessage env msg st;
                 Some (st\<lparr>ep_IncompleteMessages := (ep_IncompleteMessages st)(msgID := None)\<rparr>) }
               else
                 let msg = msg\<lparr>blk_nextFragmentNum := blk_nextFragmentNum msg + 1\<rparr> in
                 HandleOutOfSequenceFragment env msgID msg
                   (st\<lparr>ep_IncompleteMessages := (ep_IncompleteMessages st)(msgID \<mapsto> msg)\<rparr>) }
             else Some (st\<lparr>ep_IncompleteMessages := (ep_IncompleteMessages st)(msgID := None)\<rparr>))
          else Some (AddOutOfSequenceFragment msgID (blk_nextFragmentNum m) isLastFragment (blk_data m) st)
      | None \<Rightarrow> Some (AddOutOfSequenceFragment msgID (blk_nextFragmentNum m) isLastFragment (blk_data m) st))"

section \<open>HandleDecryptedTunnelDataMsg\<close>

text \<open>What the loop reads in front of a fragment: flags, delivery instructions, IDs and the size.\<close>

record di_info =
  di_isFollowOn :: bool
  di_isLast :: bool
  di_msgID :: "32 word"
  di_fragmentNum :: byte
  di_type :: byte
  di_tunnelID :: "32 word"
  di_hash :: ident_hash
  di_size :: nat

definition parse_first :: "bytes \<Rightarrow> byte \<Rightarrow> nat \<Rightarrow> (di_info \<times> nat) option" where
  "parse_first buf flag p = do {
     let t = drop_bit 5 flag AND 0x03;
     (tid, h, p) \<leftarrow> (if t = eDeliveryTypeTunnel then do {
         tid \<leftarrow> bufbe32toh buf p; h \<leftarrow> mem_read buf (p + 4) 32; Some (tid, h, p + 36) }
       else if t = eDeliveryTypeRouter then do { h \<leftarrow> mem_read buf p 32; Some (0, h, p + 32) }
       else Some (0, [], p));
     let isFragmented = (flag AND 0x08 \<noteq> 0);
     (mid, p) \<leftarrow> (if isFragmented then do { mid \<leftarrow> bufbe32toh buf p; Some (mid, p + 4) }
       else Some (0, p));
     sz \<leftarrow> bufbe16toh buf p;
     Some (\<lparr>di_isFollowOn = False, di_isLast = \<not> isFragmented, di_msgID = mid, di_fragmentNum = 0,
       di_type = t, di_tunnelID = tid, di_hash = h, di_size = unat sz\<rparr>, p + 2)
   }"

definition parse_follow :: "bytes \<Rightarrow> byte \<Rightarrow> nat \<Rightarrow> (di_info \<times> nat) option" where
  "parse_follow buf flag p = do {
     mid \<leftarrow> bufbe32toh buf p;
     sz \<leftarrow> bufbe16toh buf (p + 4);
     Some (\<lparr>di_isFollowOn = True, di_isLast = (flag AND 0x01 \<noteq> 0), di_msgID = mid,
       di_fragmentNum = drop_bit 1 flag AND 0x3F, di_type = 0, di_tunnelID = 0, di_hash = [],
       di_size = unat sz\<rparr>, p + 6)
   }"

definition parse_instructions :: "bytes \<Rightarrow> nat \<Rightarrow> (di_info \<times> nat) option" where
  "parse_instructions buf p = do {
     flag \<leftarrow> map_option hd (mem_read buf p 1);
     if flag AND 0x80 \<noteq> 0 then parse_follow buf flag (p + 1) else parse_first buf flag (p + 1)
   }"

lemma parse_instructions_progress: "parse_instructions buf p = Some (i, p') \<Longrightarrow> p + 3 \<le> p'"
  by (auto simp: parse_instructions_def parse_first_def parse_follow_def Let_def
      split: bind_splits if_splits option.splits)

text \<open>One round of the loop: \<open>limit\<close> is \<open>decrypted + TUNNEL_DATA_ENCRYPTED_SIZE\<close>.\<close>

definition ep_fragment_round ::
    "ep_env \<Rightarrow> i2np_msg \<Rightarrow> nat \<Rightarrow> di_info \<Rightarrow> nat \<Rightarrow> ep_state \<Rightarrow> ep_state option" where
  "ep_fragment_round env msg limit i fragment st = do {
     let msg = msg\<lparr>msg_offset := fragment, msg_len := fragment + di_size i\<rparr>;
     data \<leftarrow> (if fragment + di_size i < limit then
         let d = NewI2NPShortMessage (epe_addr env fragment);
             d = d\<lparr>msg_offset := msg_offset d + TUNNEL_GATEWAY_HEADER_SIZE,
                   msg_len := msg_len d + TUNNEL_GATEWAY_HEADER_SIZE\<rparr>
         in msg_assign d msg
       else Some msg);
     let m = \<lparr>blk_deliveryType = di_type i, blk_hash = di_hash i, blk_tunnelID = di_tunnelID i,
              blk_data = data, blk_nextFragmentNum = 0\<rparr>;
     if \<not> di_isFollowOn i \<and> di_isLast i then HandleNextMessage env m st
     else if di_msgID i \<noteq> 0 then
       (if \<not> di_isFollowOn i then
          let m = m\<lparr>blk_nextFragmentNum := 1\<rparr> in
          if ep_IncompleteMessages st (di_msgID i) = None then
            HandleOutOfSequenceFragment env (di_msgID i) m
              (st\<lparr>ep_IncompleteMessages := (ep_IncompleteMessages st)(di_msgID i \<mapsto> m)\<rparr>)
          else Some st
        else HandleFollowOnFragment env (di_msgID i) (di_isLast i)
               (m\<lparr>blk_nextFragmentNum := di_fragmentNum i\<rparr>) st)
     else Some st
   }"

function ep_fragments :: "ep_env \<Rightarrow> i2np_msg \<Rightarrow> nat \<Rightarrow> nat \<Rightarrow> ep_state \<Rightarrow> ep_state option" where
  "ep_fragments env msg limit fragment st =
     (if fragment < limit then
        (case parse_instructions (msg_buf msg) fragment of
           None \<Rightarrow> None
         | Some (i, fragment') \<Rightarrow>
             (case ep_fragment_round env msg limit i fragment' st of
                None \<Rightarrow> None
              | Some st' \<Rightarrow> ep_fragments env msg limit (fragment' + di_size i) st'))
      else Some st)"
  by pat_completeness auto
termination
  by (relation "measure (\<lambda>(env, msg, limit, fragment, st). limit - fragment)")
    (auto dest!: parse_instructions_progress)

declare ep_fragments.simps [simp del]

text \<open>\<open>memchr(p, 0, n)\<close>.\<close>

definition memchr0 :: "bytes \<Rightarrow> nat \<Rightarrow> nat \<Rightarrow> nat option" where
  "memchr0 buf p n = (let w = takeWhile (\<lambda>b. b \<noteq> 0) (window buf p n) in
     if length w < n then Some (p + length w) else None)"

definition HandleDecryptedTunnelDataMsg :: "ep_env \<Rightarrow> i2np_msg \<Rightarrow> ep_state \<Rightarrow> ep_state option" where
  "HandleDecryptedTunnelDataMsg env msg st = do {
     let st = st\<lparr>ep_NumReceivedBytes := ep_NumReceivedBytes st + TUNNEL_DATA_MSG_SIZE\<rparr>;
     let decrypted = GetPayload msg + 20;
     _ \<leftarrow> mem_read (msg_buf msg) decrypted TUNNEL_DATA_ENCRYPTED_SIZE;
     (case memchr0 (msg_buf msg) (decrypted + 4) (TUNNEL_DATA_ENCRYPTED_SIZE - 4) of
        None \<Rightarrow> Some st
      | Some zero \<Rightarrow> do {
          let fragment = zero + 1;
          iv \<leftarrow> mem_read (msg_buf msg) (GetPayload msg + 4) 16;
          msg \<leftarrow> put_at msg (GetPayload msg + TUNNEL_DATA_MSG_SIZE) iv;
          body \<leftarrow> mem_read (msg_buf msg) fragment
                    (TUNNEL_DATA_MSG_SIZE - (fragment - GetPayload msg) + 16);
          checksum \<leftarrow> mem_read (msg_buf msg) decrypted 4;
          if take 4 (env_sha256 (epe_i2np env) body) \<noteq> checksum then Some st
          else ep_fragments env msg (decrypted + TUNNEL_DATA_ENCRYPTED_SIZE) fragment st })
   }"

end
