(* ===== verification/Tunnel_Reassembly.thy ===== *)
theory Tunnel_Reassembly
  imports Tunnel_Endpoint
begin

text \<open>
  The correctness of the endpoint: the instructions of every fragment on the wire are parsed
  back, and the endpoint's work on buffers refines an assembler on byte strings, \<open>asm_step\<close>.
\<close>

text \<open>The flag byte of a follow-on fragment: 1, six bits of number, last.\<close>

lemma hi_bits: "(w::byte) < 64 \<Longrightarrow> \<not> bit w 6 \<and> \<not> bit w 7"
proof -
  assume a: "w < 64"
  then have "w div 64 = 0" by (metis div_word_less)
  then have "drop_bit 6 w = 0" by (simp add: drop_bit_eq_div)
  then have "\<not> bit (drop_bit 6 w) i" for i by simp
  from this [of 0] this [of 1] show ?thesis by (simp add: bit_drop_bit_eq)
qed

lemma byte_cases: "i < LENGTH(8) \<Longrightarrow> i = 0 \<or> i = 1 \<or> i = 2 \<or> i = 3 \<or> i = 4 \<or> i = 5 \<or> i = 6 \<or> i = 7"
  by auto

lemma follow_flag:
  fixes w :: byte and l :: bool
  assumes w: "w < 64"
  defines "flag \<equiv> (0x80 OR push_bit 1 w) OR (if l then 0x01 else 0)"
  shows "flag AND 0x80 \<noteq> 0" "drop_bit 1 flag AND 0x3F = w" "flag AND 0x01 \<noteq> 0 \<longleftrightarrow> l"
proof -
  define v where "v = push_bit 1 w"
  have v: "\<not> bit v 0" "bit v 1 = bit w 0" "bit v 2 = bit w 1" "bit v 3 = bit w 2" "bit v 4 = bit w 3"
    "bit v 5 = bit w 4" "bit v 6 = bit w 5" "bit v 7 = bit w 6"
    unfolding v_def bit_push_bit_iff by simp_all
  have f: "flag = (0x80 OR v) OR (if l then 0x01 else 0)" by (simp add: flag_def v_def)
  show "drop_bit 1 flag AND 0x3F = w"
  proof (rule bit_word_eqI)
    fix i assume "i < LENGTH(8)"
    from byte_cases [OF this] show "bit (drop_bit 1 flag AND 0x3F) i = bit w i"
      using hi_bits [OF w] v by (elim disjE) (auto simp: f bit_simps numeral_eq_Suc)
  qed
  have "flag AND 0x01 = (if l then 0x01 else 0)"
  proof (rule bit_word_eqI)
    fix i assume "i < LENGTH(8)"
    from byte_cases [OF this] show "bit (flag AND 0x01) i = bit (if l then 0x01 else 0 :: byte) i"
      using hi_bits [OF w] v by (elim disjE) (auto simp: f bit_simps)
  qed
  then show "flag AND 0x01 \<noteq> 0 \<longleftrightarrow> l" by simp
  have "bit (flag AND 0x80) 7" by (simp add: f bit_simps)
  then show "flag AND 0x80 \<noteq> 0" by (metis bit_0_eq bot_apply bot_bool_def)
qed

section \<open>Known bytes at a position\<close>

definition holds_at :: "bytes \<Rightarrow> nat \<Rightarrow> bytes \<Rightarrow> bool" where
  "holds_at b p xs \<longleftrightarrow> p + length xs \<le> length b \<and> window b p (length xs) = xs"

lemma holds_at_append [simp]:
  "holds_at b p (xs @ ys) \<longleftrightarrow> holds_at b p xs \<and> holds_at b (p + length xs) ys"
  by (auto simp: holds_at_def window_add add.assoc)


lemma holds_at_read: "holds_at b p xs \<Longrightarrow> mem_read b p (length xs) = Some xs"
  by (simp add: holds_at_def mem_read_window)

lemma holds_at_reads:
  "holds_at b p [x] \<Longrightarrow> mem_read b p 1 = Some [x]"
  "holds_at b p (be_bytes 2 v) \<Longrightarrow> bufbe16toh b p = Some (word_of_nat (v mod 65536))"
  "holds_at b p (be_bytes 4 v) \<Longrightarrow> bufbe32toh b p = Some (word_of_nat (v mod 4294967296))"
  "holds_at b p xs \<Longrightarrow> length xs = 32 \<Longrightarrow> mem_read b p 32 = Some xs"
  "holds_at b p xs \<Longrightarrow> length xs = 4 \<Longrightarrow> bufbe32toh b p = Some (word_of_nat (be_val xs))"
  using holds_at_read [of b p "[x]"] holds_at_read [of b p "be_bytes 2 v"]
    holds_at_read [of b p "be_bytes 4 v"] holds_at_read [of b p xs]
  by (simp_all add: bufbe16toh_be_val bufbe32toh_be_val be_val_be_bytes)

section \<open>Fragments are parsed back\<close>

fun frag_info :: "frag \<Rightarrow> di_info" where
  "frag_info (FirstFrag t tid h mid d) = \<lparr>di_isFollowOn = False, di_isLast = (mid = None),
     di_msgID = (case mid of None \<Rightarrow> 0 | Some i \<Rightarrow> word_of_nat (be_val i)), di_fragmentNum = 0,
     di_type = t, di_tunnelID = (if t = eDeliveryTypeTunnel then tid else 0),
     di_hash = (if t = eDeliveryTypeLocal then [] else h), di_size = length d\<rparr>"
| "frag_info (FollowFrag mid n lst d) = \<lparr>di_isFollowOn = True, di_isLast = lst,
     di_msgID = word_of_nat (be_val mid), di_fragmentNum = word_of_nat n, di_type = 0,
     di_tunnelID = 0, di_hash = [], di_size = length d\<rparr>"

fun frag_data :: "frag \<Rightarrow> bytes" where
  "frag_data (FirstFrag t tid h mid d) = d"
| "frag_data (FollowFrag mid n lst d) = d"

lemma word32_tid: "(word_of_nat (unat (tid :: 32 word) mod 4294967296) :: 32 word) = tid"
  using unsigned_less [of tid, where 'a = nat] by simp


lemma first_flag:
  assumes "t \<in> {eDeliveryTypeLocal, eDeliveryTypeTunnel, eDeliveryTypeRouter}"
  shows "push_bit 5 t AND 0x80 = 0" "drop_bit 5 (push_bit 5 t) AND 0x03 = t" "push_bit 5 t AND 0x08 = 0"
    "(push_bit 5 t OR 0x08) AND 0x80 = 0" "drop_bit 5 (push_bit 5 t OR 0x08) AND 0x03 = t"
    "(push_bit 5 t OR 0x08) AND 0x08 \<noteq> 0"
  using assms by (auto simp: i2np_consts)

lemma parse_encode_first:
  assumes ok: "frag_ok (FirstFrag t tid h mid d)"
    and w: "holds_at b p (encode_frag (FirstFrag t tid h mid d))"
  shows "parse_instructions b p = Some (frag_info (FirstFrag t tid h mid d),
    p + (length (encode_frag (FirstFrag t tid h mid d)) - length d))"
proof -
  have d: "unat (word_of_nat (length d mod 65536) :: 16 word) = length d" using ok by (simp add: unat_of_nat)
  have t: "t \<in> {eDeliveryTypeLocal, eDeliveryTypeTunnel, eDeliveryTypeRouter}" using ok by simp
  note fl = first_flag [OF t]
  define flag where "flag = (if mid = None then push_bit 5 t else push_bit 5 t OR 0x08)"
  define ids where "ids = (case mid of None \<Rightarrow> [] | Some i \<Rightarrow> i)"
  have e: "encode_frag (FirstFrag t tid h mid d) = [flag] @ frag_tail t tid h @ ids @ be_bytes 2 (length d) @ d"
    by (cases mid) (simp_all add: flag_def ids_def)
  define q where "q = p + 1"
  define r where "r = q + length (frag_tail t tid h)"
  define s where "s = r + length ids"
  have H: "holds_at b p [flag]" "holds_at b q (frag_tail t tid h)" "holds_at b r ids"
    "holds_at b s (be_bytes 2 (length d))"
    using w unfolding e holds_at_append by (simp_all add: q_def r_def s_def)
  have 1: "mem_read b p 1 = Some [flag]" by (rule holds_at_reads(1) [OF H(1)])
  have 4: "bufbe16toh b s = Some (word_of_nat (length d mod 65536))" by (rule holds_at_reads(2) [OF H(4)])
  have 3: "mid = Some i \<Longrightarrow> bufbe32toh b r = Some (word_of_nat (be_val i)) \<and> s = r + 4" for i
    using H(3) ok holds_at_reads(5) [of b r i] by (simp add: ids_def s_def)
  have F: "flag AND 0x80 = 0" "drop_bit 5 flag AND 0x03 = t" "flag AND 0x08 \<noteq> 0 \<longleftrightarrow> mid \<noteq> None"
    using fl by (auto simp: flag_def)
  have 2: "(if t = eDeliveryTypeTunnel then do {
         tid \<leftarrow> bufbe32toh b q; h \<leftarrow> mem_read b (q + 4) 32; Some (tid, h, q + 36) }
       else if t = eDeliveryTypeRouter then do { h \<leftarrow> mem_read b q 32; Some (0, h, q + 32) }
       else Some (0, [], q)) = Some (if t = eDeliveryTypeTunnel then tid else 0,
          if t = eDeliveryTypeLocal then [] else h, r)"
    using H(2) t ok holds_at_reads(3) [of b q "unat tid"] holds_at_reads(4) [of b q h]
      holds_at_reads(4) [of b "q + 4" h]
    by (auto simp: frag_tail_def i2np_consts r_def word32_tid)
  have l: "length (encode_frag (FirstFrag t tid h mid d)) - length d = (s + 2) - p"
    unfolding e by (simp add: s_def r_def q_def)
  have ps: "p \<le> s" by (simp add: s_def r_def q_def)
  show ?thesis
    unfolding parse_instructions_def 1 parse_first_def q_def [symmetric] l
    using F 2 3 4 d ps by (cases mid) (simp_all add: s_def ids_def)
qed

lemma parse_encode_follow:
  assumes ok: "frag_ok (FollowFrag mid n lst d)"
    and w: "holds_at b p (encode_frag (FollowFrag mid n lst d))"
  shows "parse_instructions b p = Some (frag_info (FollowFrag mid n lst d),
    p + (length (encode_frag (FollowFrag mid n lst d)) - length d))"
proof -
  have d: "unat (word_of_nat (length d mod 65536) :: 16 word) = length d" using ok by (simp add: unat_of_nat)
  define flag where "flag = (0x80 OR push_bit 1 (word_of_nat n)) OR (if lst then 0x01 else 0 :: byte)"
  have e: "encode_frag (FollowFrag mid n lst d) = [flag] @ mid @ be_bytes 2 (length d) @ d"
    by (simp add: flag_def)
  have H: "holds_at b p [flag]" "holds_at b (p + 1) mid" "holds_at b (p + 1 + 4) (be_bytes 2 (length d))"
    using w ok unfolding e holds_at_append by simp_all
  have "(word_of_nat n :: byte) < 64"
    using ok by (simp add: word_less_nat_alt unat_of_nat)
  note fl = follow_flag [OF this, of lst, folded flag_def]
  show ?thesis
    using ok unfolding parse_instructions_def holds_at_reads(1) [OF H(1)] parse_follow_def e
    by (simp add: fl fl(2) [simplified] holds_at_reads(5) [OF H(2), simplified]
        holds_at_reads(2) [OF H(3), simplified] unat_of_nat)
qed

lemma parse_encode:
  assumes "frag_ok f" and "holds_at b p (encode_frag f)"
  shows "parse_instructions b p = Some (frag_info f, p + (length (encode_frag f) - length (frag_data f)))"
  using assms parse_encode_first parse_encode_follow by (cases f) auto

section \<open>The abstract assembler\<close>

text \<open>What leaves the endpoint, as byte strings.\<close>

datatype delivery =
    ToLocal bytes
  | ToRouter ident_hash bytes
  | ToTunnel ident_hash "32 word" bytes

definition deliver :: "ident_hash \<Rightarrow> bool \<Rightarrow> byte \<Rightarrow> 32 word \<Rightarrow> ident_hash \<Rightarrow> bytes \<Rightarrow> delivery list" where
  "deliver ident inbound t tid h c =
     (if t = eDeliveryTypeLocal then [ToLocal c]
      else if t = eDeliveryTypeTunnel then [ToTunnel h tid c]
      else if t = eDeliveryTypeRouter then
        (if h = ident then [ToLocal c] else if \<not> inbound then [ToRouter h c] else [])
      else [])"

text \<open>
  The assembler keeps, per message ID, the delivery instructions, the bytes so far and the next
  number, and at most one fragment that came early. It is undefined (\<^term>\<open>None\<close>) for messages
  longer than 30000 bytes, where the endpoint depends on buffer offsets.
\<close>

type_synonym asm_entry = "byte \<times> 32 word \<times> ident_hash \<times> bytes \<times> byte"

record asm =
  asm_inc :: "32 word \<rightharpoonup> asm_entry"
  asm_oos :: "32 word \<rightharpoonup> byte \<times> bool \<times> bytes"

definition asm_max :: nat where "asm_max = 30000"

fun asm_settle :: "ident_hash \<Rightarrow> bool \<Rightarrow> asm \<Rightarrow> 32 word \<Rightarrow> asm_entry \<Rightarrow> (asm \<times> delivery list) option" where
  "asm_settle ident inb A i (t, tid, h, c, n) =
     (case asm_oos A i of
        Some (k, lst, d) \<Rightarrow>
          if k = n then
            (if length c + length d \<le> asm_max then
               (if lst then Some (A\<lparr>asm_inc := (asm_inc A)(i := None), asm_oos := (asm_oos A)(i := None)\<rparr>,
                   deliver ident inb t tid h (c @ d))
                else Some (A\<lparr>asm_inc := (asm_inc A)(i \<mapsto> (t, tid, h, c @ d, n + 1)),
                   asm_oos := (asm_oos A)(i := None)\<rparr>, []))
             else None)
          else Some (A\<lparr>asm_inc := (asm_inc A)(i \<mapsto> (t, tid, h, c, n))\<rparr>, [])
      | None \<Rightarrow> Some (A\<lparr>asm_inc := (asm_inc A)(i \<mapsto> (t, tid, h, c, n))\<rparr>, []))"

definition asm_keep :: "asm \<Rightarrow> 32 word \<Rightarrow> byte \<Rightarrow> bool \<Rightarrow> bytes \<Rightarrow> asm" where
  "asm_keep A i n lst d = (if asm_oos A i = None
     then A\<lparr>asm_oos := (asm_oos A)(i \<mapsto> (n, lst, d))\<rparr> else A)"

definition asm_follow :: "ident_hash \<Rightarrow> bool \<Rightarrow> asm \<Rightarrow> 32 word \<Rightarrow> byte \<Rightarrow> bool \<Rightarrow> bytes \<Rightarrow>
    (asm \<times> delivery list) option" where
  "asm_follow ident inb A i n lst d = (case asm_inc A i of
          Some (t, tid, h, c, k) \<Rightarrow>
            if n = k then
              (if length c + length d \<le> asm_max then
                 (if lst then Some (A\<lparr>asm_inc := (asm_inc A)(i := None)\<rparr>,
                     deliver ident inb t tid h (c @ d))
                  else asm_settle ident inb A i (t, tid, h, c @ d, k + 1))
               else None)
            else Some (asm_keep A i n lst d, [])
        | None \<Rightarrow> Some (asm_keep A i n lst d, []))"

definition asm_step :: "ident_hash \<Rightarrow> bool \<Rightarrow> asm \<Rightarrow> di_info \<Rightarrow> bytes \<Rightarrow> (asm \<times> delivery list) option" where
  "asm_step ident inb A x d =
     (let i = di_msgID x in
      if \<not> di_isFollowOn x \<and> di_isLast x then
        Some (A, deliver ident inb (di_type x) (di_tunnelID x) (di_hash x) d)
      else if i = 0 then Some (A, [])
      else if \<not> di_isFollowOn x then
        (if asm_inc A i = None
         then asm_settle ident inb A i (di_type x, di_tunnelID x, di_hash x, d, 1) else Some (A, []))
      else asm_follow ident inb A i (di_fragmentNum x) (di_isLast x) d)"

section \<open>The relation\<close>

definition asm_msg :: "i2np_msg \<Rightarrow> bytes \<Rightarrow> bool" where
  "asm_msg m c \<longleftrightarrow> msg_ok m \<and> msg_content m = c \<and> msg_offset m \<le> 2100 \<and>
     msg_maxLen m \<le> length (msg_buf m) \<and> msg_maxLen m \<le> 32784 \<and> length c \<le> asm_max"

fun ev_rel :: "ep_env \<Rightarrow> ep_event \<Rightarrow> delivery \<Rightarrow> bool" where
  "ev_rel env (EvHandleI2NPMessage m) (ToLocal c) \<longleftrightarrow> msg_ok m \<and> msg_content m = c"
| "ev_rel env (EvSendMessage h m) (ToRouter h' c) \<longleftrightarrow> h = h' \<and> msg_ok m \<and> msg_content m = c"
| "ev_rel env (EvSendMessage h m) (ToTunnel h' tid c) \<longleftrightarrow> h = h' \<and>
     (\<exists>rnd. carries m eI2NPTunnelGateway rnd (epe_i2np env)
        (be_bytes 4 (unat tid) @ be_bytes 2 (length c) @ c))"
| "ev_rel env _ _ \<longleftrightarrow> False"

definition blk_rel :: "TunnelMessageBlockEx \<Rightarrow> asm_entry \<Rightarrow> bool" where
  "blk_rel msg e \<longleftrightarrow> (case e of (t, tid, h, c, n) \<Rightarrow> blk_deliveryType msg = t \<and> blk_tunnelID msg = tid \<and>
     blk_hash msg = h \<and> blk_nextFragmentNum msg = n \<and> asm_msg (blk_data msg) c)"

definition frg_rel :: "ep_fragment \<Rightarrow> byte \<times> bool \<times> bytes \<Rightarrow> bool" where
  "frg_rel f e \<longleftrightarrow> (case e of (k, lst, d) \<Rightarrow> frg_fragmentNum f = k \<and> frg_isLastFragment f = lst \<and>
     asm_msg (frg_data f) d)"

definition ep_rel :: "ep_env \<Rightarrow> ep_state \<Rightarrow> asm \<Rightarrow> delivery list \<Rightarrow> bool" where
  "ep_rel env st A out \<longleftrightarrow>
     (\<forall>i. rel_option blk_rel (ep_IncompleteMessages st i) (asm_inc A i)) \<and>
     (\<forall>i. rel_option frg_rel (ep_OutOfSequenceFragments st i) (asm_oos A i)) \<and>
     list_all2 (ev_rel env) (ep_out st) out"

lemma asm_msg_reads:
  assumes "asm_msg m c"
  shows "GetLength m = length c" "mem_read (msg_buf m) (GetBuffer m) (GetLength m) = Some c"
    "msg_len m = msg_offset m + length c"
proof -
  obtain n where n: "msg_len m = msg_offset m + n" "msg_offset m + n \<le> length (msg_buf m)"
    using assms by (metis asm_msg_def le_iff_add msg_ok_def)
  have c: "c = window (msg_buf m) (msg_offset m) n"
    using assms n by (simp add: asm_msg_def msg_content_def)
  show "msg_len m = msg_offset m + length c" using n c by simp
  show "GetLength m = length c" "mem_read (msg_buf m) (GetBuffer m) (GetLength m) = Some c"
    using n c by (simp_all add: GetLength_def GetBuffer_def mem_read_window)
qed

lemma list_all2_snocI: "list_all2 P xs ys \<Longrightarrow> P x y \<Longrightarrow> list_all2 P (xs @ [x]) (ys @ [y])"
  by (simp add: list_all2_appendI)

lemma HandleNextMessage_rel:
  assumes rel: "ep_rel env st A out" and c: "asm_msg (blk_data m) c"
  shows "\<exists>st'. HandleNextMessage env m st = Some st' \<and>
    ep_IncompleteMessages st' = ep_IncompleteMessages st \<and>
    ep_OutOfSequenceFragments st' = ep_OutOfSequenceFragments st \<and> ep_IsInbound st' = ep_IsInbound st \<and>
    ep_rel env st' A (out @ deliver (epe_ident env) (ep_IsInbound st) (blk_deliveryType m)
       (blk_tunnelID m) (blk_hash m) c)"
proof -
  have ok: "msg_ok (blk_data m)" "msg_content (blk_data m) = c" "length c \<le> 32000"
    using c by (auto simp: asm_msg_def asm_max_def)
  obtain g where g: "CreateTunnelGatewayMsg (epe_i2np env) (epe_rnd env (length (ep_out st)))
      (epe_addr env (length (ep_out st))) (blk_tunnelID m) (blk_data m) = Some g"
    "carries g eI2NPTunnelGateway (epe_rnd env (length (ep_out st))) (epe_i2np env)
      (be_bytes 4 (unat (blk_tunnelID m)) @ be_bytes 2 (length c) @ c)"
    using CreateTunnelGatewayMsg_wire [OF ok(1), of "epe_i2np env" "epe_rnd env (length (ep_out st))"
        "epe_addr env (length (ep_out st))" "blk_tunnelID m"] ok by auto
  show ?thesis
    using rel ok g
    by (auto simp: HandleNextMessage_def deliver_def emit_def ep_rel_def intro!: list_all2_snocI)
qed

text \<open>Appending a fragment, whether or not the message moves to a longer buffer.\<close>

lemma concat_fragment_rel:
  assumes "asm_msg m c" and "length c + length d \<le> asm_max"
  shows "\<exists>m'. concat_fragment env m d = Some m' \<and> asm_msg m' (c @ d)"
proof -
  note rd = asm_msg_reads [OF assms(1)]
  have len: "length c + length d \<le> 30000" using assms(2) by (simp add: asm_max_def)
  have step: "\<exists>m'. map_option (\<lambda>x. add_len x (length d)) (put_at x (msg_len x) d) = Some m' \<and> asm_msg m' (c @ d)"
    if x: "asm_msg x c" "msg_len x + length d \<le> length (msg_buf x)" for x
  proof -
    note rx = asm_msg_reads [OF x(1)]
    let ?x = "add_len (x\<lparr>msg_buf := patch (msg_buf x) (msg_len x) d\<rparr>) (length d)"
    have "msg_content ?x = window (patch (msg_buf x) (msg_len x) d) (msg_offset x) (length c) @
        window (patch (msg_buf x) (msg_len x) d) (msg_offset x + length c) (length d)"
      using rx by (simp add: msg_content_def add_len_def flip: window_add)
    also have "\<dots> = c @ d"
      using x rx by (auto simp: window_patch_before asm_msg_def msg_content_def)
    finally have "asm_msg ?x (c @ d)"
      using x assms(2) rx by (simp add: asm_msg_def msg_ok_def add_len_def)
    then show ?thesis using x by (simp add: put_at_patch)
  qed
  show ?thesis
  proof (cases "msg_len m + length d > msg_maxLen m")
    case False
    then have "msg_len m + length d \<le> length (msg_buf m)"
      using assms(1) by (simp add: asm_msg_def)
    from step [OF assms(1) this] False show ?thesis
      by (simp add: concat_fragment_def map_option_bind)
  next
    case True
    let ?N = "NewI2NPMessage (epe_addr env 0)"
    let ?x = "?N\<lparr>msg_buf := patch (msg_buf ?N) 2 c, msg_len := 2 + length c,
        msg_from := msg_from m, msg_maxLen := msg_maxLen m\<rparr>"
    have as: "msg_assign ?N m = Some ?x"
      using rd len mem_write_patch [of 2 c "msg_buf ?N"] by (simp add: msg_assign_def GetBuffer_def)
    have "asm_msg ?x c"
      using assms len by (simp add: asm_msg_def msg_ok_def msg_content_def asm_max_def)
    from step [OF this] len True as show ?thesis
      by (simp add: concat_fragment_def map_option_bind)
  qed
qed

section \<open>The endpoint refines the assembler\<close>

lemma ep_rel_inc:
  "ep_rel env st A out \<Longrightarrow> blk_rel msg e \<Longrightarrow>
     ep_rel env (st\<lparr>ep_IncompleteMessages := (ep_IncompleteMessages st)(i \<mapsto> msg)\<rparr>)
       (A\<lparr>asm_inc := (asm_inc A)(i \<mapsto> e)\<rparr>) out"
  "ep_rel env st A out \<Longrightarrow>
     ep_rel env (st\<lparr>ep_IncompleteMessages := (ep_IncompleteMessages st)(i := None)\<rparr>)
       (A\<lparr>asm_inc := (asm_inc A)(i := None)\<rparr>) out"
  "ep_rel env st A out \<Longrightarrow>
     ep_rel env (st\<lparr>ep_OutOfSequenceFragments := (ep_OutOfSequenceFragments st)(i := None)\<rparr>)
       (A\<lparr>asm_oos := (asm_oos A)(i := None)\<rparr>) out"
  "ep_rel env st A out \<Longrightarrow> frg_rel f d \<Longrightarrow>
     ep_rel env (st\<lparr>ep_OutOfSequenceFragments := (ep_OutOfSequenceFragments st)(i \<mapsto> f)\<rparr>)
       (A\<lparr>asm_oos := (asm_oos A)(i \<mapsto> d)\<rparr>) out"
  by (auto simp: ep_rel_def)

lemma ep_rel_lookup:
  assumes "ep_rel env st A out"
  shows "rel_option blk_rel (ep_IncompleteMessages st i) (asm_inc A i)"
    and "rel_option frg_rel (ep_OutOfSequenceFragments st i) (asm_oos A i)"
  using assms by (simp_all add: ep_rel_def)


lemma HandleOutOfSequenceFragment_rel:
  assumes rel: "ep_rel env st (A\<lparr>asm_inc := (asm_inc A)(i \<mapsto> e)\<rparr>) out" and e: "blk_rel msg e"
    and step: "asm_settle (epe_ident env) (ep_IsInbound st) A i e = Some (A', outs)"
  shows "\<exists>st'. HandleOutOfSequenceFragment env i msg st = Some st' \<and> ep_IsInbound st' = ep_IsInbound st \<and>
    ep_rel env st' A' (out @ outs)"
proof -
  obtain t tid h c n where ee: "e = (t, tid, h, c, n)" by (metis prod.exhaust)
  have m: "blk_deliveryType msg = t" "blk_tunnelID msg = tid" "blk_hash msg = h"
    "blk_nextFragmentNum msg = n" "asm_msg (blk_data msg) c"
    using e by (auto simp: blk_rel_def ee)
  have ro: "rel_option frg_rel (ep_OutOfSequenceFragments st i) (asm_oos A i)"
    using ep_rel_lookup(2) [OF rel, of i] by simp
  show ?thesis
  proof (cases "asm_oos A i")
    case None
    then have "ep_OutOfSequenceFragments st i = None" using ro by (cases "ep_OutOfSequenceFragments st i") auto
    then show ?thesis using None step rel by (auto simp: ee HandleOutOfSequenceFragment_def)
  next
    case (Some x)
    obtain k lst d where x: "x = (k, lst, d)" by (metis prod.exhaust)
    obtain f where f: "ep_OutOfSequenceFragments st i = Some f" "frg_rel f x"
      using ro Some by (cases "ep_OutOfSequenceFragments st i") auto
    have fr: "frg_fragmentNum f = k" "frg_isLastFragment f = lst" "asm_msg (frg_data f) d"
      using f(2) by (auto simp: frg_rel_def x)
    show ?thesis
    proof (cases "k = n")
      case False
      then show ?thesis using Some x f fr m step rel by (auto simp: ee HandleOutOfSequenceFragment_def)
    next
      case True
      have len: "length c + length d \<le> asm_max"
        using step Some x True by (auto simp: ee split: if_splits)
      obtain data where data: "concat_fragment env (blk_data msg) d = Some data" "asm_msg data (c @ d)"
        using concat_fragment_rel [OF m(5) len] by blast
      let ?msg = "msg\<lparr>blk_data := data\<rparr>"
      note rd = asm_msg_reads [OF fr(3)]
      show ?thesis
      proof (cases lst)
        case True
        have A': "A' = A\<lparr>asm_inc := (asm_inc A)(i := None), asm_oos := (asm_oos A)(i := None)\<rparr>"
          "outs = deliver (epe_ident env) (ep_IsInbound st) t tid h (c @ d)"
          using step Some x True \<open>k = n\<close> len by (auto simp: ee)
        obtain s where s: "HandleNextMessage env ?msg st = Some s"
          "ep_rel env s (A\<lparr>asm_inc := (asm_inc A)(i \<mapsto> e)\<rparr>) (out @ outs)"
          "ep_IsInbound s = ep_IsInbound st"
          using HandleNextMessage_rel [OF rel, of ?msg "c @ d"] data m A'(2) by auto
        from ep_rel_inc(3) [OF ep_rel_inc(2) [OF s(2), of i], of i] show ?thesis
          using f fr m rd data s True \<open>k = n\<close> A' by (auto simp: HandleOutOfSequenceFragment_def)
      next
        case False
        have A': "A' = A\<lparr>asm_inc := (asm_inc A)(i \<mapsto> (t, tid, h, c @ d, n + 1)),
            asm_oos := (asm_oos A)(i := None)\<rparr>" "outs = []"
          using step Some x False \<open>k = n\<close> len by (auto simp: ee)
        have b: "blk_rel (?msg\<lparr>blk_nextFragmentNum := n + 1\<rparr>) (t, tid, h, c @ d, n + 1)"
          using m data by (simp add: blk_rel_def)
        from ep_rel_inc(3) [OF ep_rel_inc(1) [OF rel b, of i], of i] show ?thesis
          using f fr m rd data False \<open>k = n\<close> A' by (auto simp: HandleOutOfSequenceFragment_def)
      qed
    qed
  qed
qed

lemma AddOutOfSequenceFragment_rel:
  assumes "ep_rel env st A out" and "asm_msg m d"
  shows "ep_rel env (AddOutOfSequenceFragment i n lst m st) (asm_keep A i n lst d) out"
proof -
  have "ep_OutOfSequenceFragments st i = None \<longleftrightarrow> asm_oos A i = None"
    using ep_rel_lookup(2) [OF assms(1), of i]
    by (cases "ep_OutOfSequenceFragments st i"; cases "asm_oos A i") auto
  moreover have "frg_rel \<lparr>frg_fragmentNum = n, frg_isLastFragment = lst, frg_data = m\<rparr> (n, lst, d)"
    using assms(2) by (simp add: frg_rel_def)
  ultimately show ?thesis
    using assms(1) ep_rel_inc(4) by (auto simp: AddOutOfSequenceFragment_def asm_keep_def)
qed

lemma HandleFollowOnFragment_rel:
  assumes rel: "ep_rel env st A out" and d: "asm_msg (blk_data m) d"
    and step: "asm_follow (epe_ident env) (ep_IsInbound st) A i (blk_nextFragmentNum m) lst d = Some (A', outs)"
  shows "\<exists>st'. HandleFollowOnFragment env i lst m st = Some st' \<and> ep_IsInbound st' = ep_IsInbound st \<and>
    ep_rel env st' A' (out @ outs)"
proof -
  let ?n = "blk_nextFragmentNum m"
  have keep: "ep_rel env (AddOutOfSequenceFragment i ?n lst (blk_data m) st) (asm_keep A i ?n lst d) out"
    "ep_IsInbound (AddOutOfSequenceFragment i ?n lst (blk_data m) st) = ep_IsInbound st"
    using AddOutOfSequenceFragment_rel [OF rel d] by (auto simp: AddOutOfSequenceFragment_def)
  note ri = ep_rel_lookup(1) [OF rel, of i]
  show ?thesis
  proof (cases "asm_inc A i")
    case None
    then have "ep_IncompleteMessages st i = None" using ri by (cases "ep_IncompleteMessages st i") auto
    then show ?thesis using None step keep by (auto simp: HandleFollowOnFragment_def asm_follow_def)
  next
    case (Some e)
    obtain t tid h c k where e: "e = (t, tid, h, c, k)" by (metis prod.exhaust)
    obtain msg where msg: "ep_IncompleteMessages st i = Some msg" "blk_rel msg e"
      using ri Some by (cases "ep_IncompleteMessages st i") auto
    have b: "blk_deliveryType msg = t" "blk_tunnelID msg = tid" "blk_hash msg = h"
      "blk_nextFragmentNum msg = k" "asm_msg (blk_data msg) c"
      using msg(2) by (auto simp: blk_rel_def e)
    show ?thesis
    proof (cases "?n = k")
      case False
      then show ?thesis using Some e msg b step keep by (auto simp: HandleFollowOnFragment_def asm_follow_def)
    next
      case True
      have len: "length c + length d \<le> asm_max"
        using step Some e True by (auto simp: asm_follow_def split: if_splits)
      obtain data where data: "concat_fragment env (blk_data msg) d = Some data" "asm_msg data (c @ d)"
        using concat_fragment_rel [OF b(5) len] by blast
      let ?msg = "msg\<lparr>blk_data := data\<rparr>"
      note rd = asm_msg_reads [OF d]
      have fits: "msg_len (blk_data msg) + GetLength (blk_data m) < I2NP_MAX_MESSAGE_SIZE"
        using asm_msg_reads(3) [OF b(5)] rd(1) len b(5)
        by (simp add: asm_msg_def asm_max_def I2NP_MAX_MESSAGE_SIZE_def)
      show ?thesis
      proof (cases lst)
        case True
        have A': "A' = A\<lparr>asm_inc := (asm_inc A)(i := None)\<rparr>"
          "outs = deliver (epe_ident env) (ep_IsInbound st) t tid h (c @ d)"
          using step Some e True \<open>?n = k\<close> len by (auto simp: asm_follow_def)
        obtain s where s: "HandleNextMessage env ?msg st = Some s" "ep_rel env s A (out @ outs)"
          "ep_IsInbound s = ep_IsInbound st"
          using HandleNextMessage_rel [OF rel, of ?msg "c @ d"] data b A'(2) by auto
        from ep_rel_inc(2) [OF s(2), of i] show ?thesis
          using msg b rd data s True \<open>?n = k\<close> A' fits by (auto simp: HandleFollowOnFragment_def)
      next
        case False
        let ?m = "?msg\<lparr>blk_nextFragmentNum := k + 1\<rparr>"
        have b': "blk_rel ?m (t, tid, h, c @ d, k + 1)"
          using b data by (simp add: blk_rel_def)
        let ?st = "st\<lparr>ep_IncompleteMessages := (ep_IncompleteMessages st)(i \<mapsto> ?m)\<rparr>"
        have stp: "asm_settle (epe_ident env) (ep_IsInbound ?st) A i (t, tid, h, c @ d, k + 1) = Some (A', outs)"
          using step Some e False \<open>?n = k\<close> len by (simp add: asm_follow_def)
        from HandleOutOfSequenceFragment_rel [OF ep_rel_inc(1) [OF rel b', of i] b' stp] show ?thesis
          using msg b rd data False \<open>?n = k\<close> fits by (auto simp: HandleFollowOnFragment_def)
      qed
    qed
  qed
qed

text \<open>The message in which the fragment stands: a received tunnel data message.\<close>

definition tunnel_msg :: "i2np_msg \<Rightarrow> nat \<Rightarrow> bool" where
  "tunnel_msg m limit \<longleftrightarrow> limit \<le> length (msg_buf m) \<and> limit \<le> 2100 \<and>
     msg_maxLen m \<le> length (msg_buf m) \<and> msg_maxLen m \<le> 4112"

lemma fragment_copy:
  assumes m: "tunnel_msg msg limit" and d: "holds_at (msg_buf msg) q d" "q + length d \<le> limit"
  shows "asm_msg (msg\<lparr>msg_offset := q, msg_len := q + length d\<rparr>) d"
    and "\<exists>data. msg_assign ((NewI2NPShortMessage a)\<lparr>msg_offset := 8, msg_len := 24\<rparr>)
      (msg\<lparr>msg_offset := q, msg_len := q + length d\<rparr>) = Some data \<and> asm_msg data d"
proof -
  let ?m = "msg\<lparr>msg_offset := q, msg_len := q + length d\<rparr>"
  have len: "length d \<le> 2100" "q + length d \<le> length (msg_buf msg)"
    using m d by (auto simp: tunnel_msg_def)
  show m1: "asm_msg ?m d"
    using m d len by (auto simp: asm_msg_def tunnel_msg_def msg_ok_def msg_content_def holds_at_def asm_max_def)
  note rd = asm_msg_reads [OF m1]
  let ?N = "(NewI2NPShortMessage a)\<lparr>msg_offset := 8, msg_len := 24\<rparr>"
  let ?x = "?N\<lparr>msg_buf := patch (msg_buf ?N) 8 d, msg_len := 8 + length d,
     msg_from := msg_from msg, msg_maxLen := msg_maxLen msg\<rparr>"
  have "msg_assign ?N ?m = Some ?x"
    using rd len mem_write_patch [of 8 d "msg_buf ?N"] by (simp add: msg_assign_def GetBuffer_def)
  moreover have "asm_msg ?x d"
    using m len by (simp add: asm_msg_def tunnel_msg_def msg_ok_def msg_content_def asm_max_def)
  ultimately show "\<exists>data. msg_assign ?N ?m = Some data \<and> asm_msg data d" by blast
qed

lemma ep_fragment_round_rel:
  assumes rel: "ep_rel env st A out" and m: "tunnel_msg msg limit"
    and d: "holds_at (msg_buf msg) q d" "q + length d \<le> limit" "di_size x = length d"
    and step: "asm_step (epe_ident env) (ep_IsInbound st) A x d = Some (A', outs)"
  shows "\<exists>st'. ep_fragment_round env msg limit x q st = Some st' \<and> ep_IsInbound st' = ep_IsInbound st \<and>
    ep_rel env st' A' (out @ outs)"
proof -
  let ?m = "msg\<lparr>msg_offset := q, msg_len := q + length d\<rparr>"
  obtain data where data: "(if q + length d < limit
      then msg_assign ((NewI2NPShortMessage (epe_addr env q))\<lparr>msg_offset := 8, msg_len := 24\<rparr>) ?m
      else Some ?m) = Some data" "asm_msg data d"
    using fragment_copy(1) [OF m d(1,2)] fragment_copy(2) [OF m d(1,2), of "epe_addr env q"] by (cases "q + length d < limit") auto
  define b where "b = \<lparr>blk_deliveryType = di_type x, blk_hash = di_hash x, blk_tunnelID = di_tunnelID x,
              blk_data = data, blk_nextFragmentNum = 0\<rparr>"
  let ?i = "di_msgID x"
  have eq: "ep_fragment_round env msg limit x q st =
    (if \<not> di_isFollowOn x \<and> di_isLast x then HandleNextMessage env b st
     else if ?i \<noteq> 0 then
       (if \<not> di_isFollowOn x then
          if ep_IncompleteMessages st ?i = None then
            HandleOutOfSequenceFragment env ?i (b\<lparr>blk_nextFragmentNum := 1\<rparr>)
              (st\<lparr>ep_IncompleteMessages := (ep_IncompleteMessages st)(?i \<mapsto> b\<lparr>blk_nextFragmentNum := 1\<rparr>)\<rparr>)
          else Some st
        else HandleFollowOnFragment env ?i (di_isLast x)
               (b\<lparr>blk_nextFragmentNum := di_fragmentNum x\<rparr>) st)
     else Some st)"
    using data(1) d(3) unfolding ep_fragment_round_def Let_def b_def
    by (cases "q + length d < limit") (simp_all add: TUNNEL_GATEWAY_HEADER_SIZE_def)
  consider (whole) "\<not> di_isFollowOn x" "di_isLast x"
    | (noid) "di_isFollowOn x \<or> \<not> di_isLast x" "?i = 0"
    | (first) "\<not> di_isFollowOn x" "\<not> di_isLast x" "?i \<noteq> 0"
    | (follow) "di_isFollowOn x" "?i \<noteq> 0" by blast
  then show ?thesis
  proof cases
    case whole
    then show ?thesis
      using step HandleNextMessage_rel [OF rel, of b d] data(2) by (auto simp: eq b_def asm_step_def)
  next
    case noid
    then show ?thesis using step rel by (auto simp: eq asm_step_def)
  next
    case first
    have iff: "ep_IncompleteMessages st ?i = None \<longleftrightarrow> asm_inc A ?i = None"
      using ep_rel_lookup(1) [OF rel, of ?i]
      by (cases "ep_IncompleteMessages st ?i"; cases "asm_inc A ?i") auto
    show ?thesis
    proof (cases "asm_inc A ?i")
      case None
      let ?b = "b\<lparr>blk_nextFragmentNum := 1\<rparr>"
        and ?e = "(di_type x, di_tunnelID x, di_hash x, d, 1)"
      have be: "blk_rel ?b ?e" using data by (simp add: blk_rel_def b_def)
      let ?st = "st\<lparr>ep_IncompleteMessages := (ep_IncompleteMessages st)(?i \<mapsto> ?b)\<rparr>"
      have stp: "asm_settle (epe_ident env) (ep_IsInbound ?st) A ?i ?e = Some (A', outs)"
        using step first None by (simp add: asm_step_def Let_def del: asm_settle.simps)
      from HandleOutOfSequenceFragment_rel [OF ep_rel_inc(1) [OF rel be, of ?i] be stp] show ?thesis
        using first None iff by (auto simp: eq)
    next
      case (Some e)
      then show ?thesis using step first iff rel by (auto simp: eq asm_step_def)
    qed
  next
    case follow
    then have "asm_follow (epe_ident env) (ep_IsInbound st) A ?i
        (blk_nextFragmentNum (b\<lparr>blk_nextFragmentNum := di_fragmentNum x\<rparr>)) (di_isLast x) d = Some (A', outs)"
      using step by (simp add: asm_step_def)
    from HandleFollowOnFragment_rel [OF rel _ this] show ?thesis
      using follow data(2) by (auto simp: eq b_def)
  qed
qed

section \<open>A whole tunnel data message\<close>

fun asm_run :: "ident_hash \<Rightarrow> bool \<Rightarrow> asm \<Rightarrow> frag list \<Rightarrow> (asm \<times> delivery list) option" where
  "asm_run ident inb A [] = Some (A, [])"
| "asm_run ident inb A (f # fs) = do {
     (A1, o1) \<leftarrow> asm_step ident inb A (frag_info f) (frag_data f);
     (A2, o2) \<leftarrow> asm_run ident inb A1 fs;
     Some (A2, o1 @ o2) }"

lemma encode_frag_split: "\<exists>pre. encode_frag f = pre @ frag_data f \<and> 3 \<le> length pre"
proof (cases f)
  case (FirstFrag t tid h mid d)
  then show ?thesis
    by (cases mid) (auto intro!: exI [of _ "[push_bit 5 t] @ frag_tail t tid h @ be_bytes 2 (length d)"]
        exI [of _ "[push_bit 5 t OR 8] @ frag_tail t tid h @ the mid @ be_bytes 2 (length d)"])
next
  case (FollowFrag mid n lst d)
  then show ?thesis
    by (auto intro!: exI [of _ "[(0x80 OR push_bit 1 (word_of_nat n)) OR (if lst then 0x01 else 0)] @ mid @
        be_bytes 2 (length d)"])
qed

lemma di_size_frag: "di_size (frag_info f) = length (frag_data f)"
  by (cases f) auto

lemma ep_fragments_rel:
  assumes m: "tunnel_msg msg limit"
  shows "ep_rel env st A out \<Longrightarrow> \<forall>f \<in> set fs. frag_ok f \<Longrightarrow> holds_at (msg_buf msg) p (encode_frags fs) \<Longrightarrow>
    p + length (encode_frags fs) = limit \<Longrightarrow>
    asm_run (epe_ident env) (ep_IsInbound st) A fs = Some (A', outs) \<Longrightarrow>
    \<exists>st'. ep_fragments env msg limit p st = Some st' \<and> ep_IsInbound st' = ep_IsInbound st \<and>
      ep_rel env st' A' (out @ outs)"
proof (induction fs arbitrary: st A out p outs)
  case Nil
  then show ?case by (simp add: ep_fragments.simps)
next
  case (Cons f fs)
  obtain A1 o1 o2 where st: "asm_step (epe_ident env) (ep_IsInbound st) A (frag_info f) (frag_data f) = Some (A1, o1)"
    "asm_run (epe_ident env) (ep_IsInbound st) A1 fs = Some (A', o2)" "outs = o1 @ o2"
    using Cons.prems(5) by (auto split: bind_splits)
  obtain pre where pre: "encode_frag f = pre @ frag_data f" "3 \<le> length pre"
    using encode_frag_split by blast
  let ?q = "p + length pre" and ?d = "frag_data f"
  have h: "holds_at (msg_buf msg) p (encode_frag f)" "holds_at (msg_buf msg) ?q ?d"
    "holds_at (msg_buf msg) (?q + length ?d) (encode_frags fs)"
    using Cons.prems(3) pre by (simp_all add: add.assoc)
  have lim: "?q + length ?d \<le> limit" "?q + length ?d + length (encode_frags fs) = limit" "p < limit"
    using Cons.prems(4) pre by simp_all
  have parse: "parse_instructions (msg_buf msg) p = Some (frag_info f, ?q)"
    using parse_encode [OF _ h(1)] Cons.prems(2) pre by simp
  obtain st1 where st1: "ep_fragment_round env msg limit (frag_info f) ?q st = Some st1"
    "ep_IsInbound st1 = ep_IsInbound st" "ep_rel env st1 A1 (out @ o1)"
    using ep_fragment_round_rel [OF Cons.prems(1) m h(2) lim(1) di_size_frag st(1)] by blast
  obtain st' where "ep_fragments env msg limit (?q + length ?d) st1 = Some st'"
    "ep_IsInbound st' = ep_IsInbound st1" "ep_rel env st' A' ((out @ o1) @ o2)"
    using Cons.IH [OF st1(3) _ h(3) lim(2), of o2] Cons.prems(2) st(2) st1(2) by auto
  then show ?case
    using parse st1 st(3) lim(3) by (subst ep_fragments.simps) (simp add: di_size_frag)
qed

lemma holds_at_patch_before:
  "holds_at b q xs \<Longrightarrow> q + length xs \<le> p \<Longrightarrow> p + length s \<le> length b \<Longrightarrow> holds_at (patch b p s) q xs"
  by (simp add: holds_at_def window_patch_before)

definition received :: "i2np_msg \<Rightarrow> bool" where
  "received m \<longleftrightarrow> msg_offset m + 1060 \<le> length (msg_buf m) \<and> msg_offset m + 1044 \<le> 2100 \<and>
     msg_maxLen m \<le> length (msg_buf m) \<and> msg_maxLen m \<le> 4112"

lemma memchr0_first:
  assumes "holds_at b p (pad @ [0] @ rest)" and "0 \<notin> set pad"
  shows "memchr0 b p (length pad + 1 + length rest) = Some (p + length pad)"
proof -
  have "window b p (length pad + 1 + length rest) = pad @ [0] @ rest"
    using assms(1) unfolding holds_at_def by (simp only: length_append list.size) simp
  moreover have "takeWhile (\<lambda>b. b \<noteq> 0) (pad @ [0] @ rest) = pad"
    using assms(2) by (subst takeWhile_append2) auto
  ultimately show ?thesis by (simp add: memchr0_def Let_def)
qed

lemma HandleDecrypted_rel:
  assumes rel: "ep_rel env st A out" and m: "received m"
    and pl: "tunnel_plain (env_sha256 (epe_i2np env)) tid iv pad (encode_frags fs)
       (window (msg_buf m) (GetPayload m) 1028)"
    and ok: "\<forall>f \<in> set fs. frag_ok f"
    and run: "asm_run (epe_ident env) (ep_IsInbound st) A fs = Some (A', outs)"
  shows "\<exists>st'. HandleDecryptedTunnelDataMsg env m st = Some st' \<and> ep_IsInbound st' = ep_IsInbound st \<and>
      ep_rel env st' A' (out @ outs)"
proof -
  let ?P = "GetPayload m" and ?b = "msg_buf m" and ?body = "encode_frags fs"
  let ?ck = "take 4 (env_sha256 (epe_i2np env) (?body @ iv))"
  have P: "?P + 1044 \<le> length ?b" "?P + 1028 \<le> 2100"
    using m by (auto simp: received_def GetPayload_16)
  have pl': "window ?b ?P 1028 = be_bytes 4 (unat tid) @ iv @ ?ck @ pad @ [0] @ ?body"
    "length iv = 16" "length pad + length ?body = 1003" "0 \<notin> set pad" "length ?ck = 4"
    using pl by (auto simp: tunnel_plain_def)
  have H0: "holds_at ?b ?P (be_bytes 4 (unat tid) @ iv @ ?ck @ pad @ [0] @ ?body)"
    unfolding holds_at_def pl'(1) [symmetric] using P by simp
  then have H: "holds_at ?b (?P + 4) iv" "holds_at ?b (?P + 20) ?ck" "holds_at ?b (?P + 24) (pad @ [0] @ ?body)"
    using pl' by (simp_all add: add.assoc)
  let ?z = "?P + 24 + length pad"
  have l: "1004 = length pad + 1 + length ?body" using pl'(3) by simp
  have zero: "memchr0 ?b (?P + 24) 1004 = Some ?z"
    unfolding l by (rule memchr0_first [OF H(3) pl'(4)])
  define b1 where "b1 = patch ?b (?P + 1028) iv"
  define m1 where "m1 = m\<lparr>msg_buf := b1\<rparr>"
  have iv: "mem_read ?b (?P + 4) 16 = Some iv" using holds_at_read [OF H(1)] pl'(2) by simp
  have wr: "put_at m (?P + 1028) iv = Some m1"
    using P pl'(2) by (simp add: put_at_patch b1_def m1_def)
  have "holds_at ?b (?z + 1) ?body"
    using H(3) unfolding holds_at_append by simp
  then have keep: "holds_at b1 (?P + 20) ?ck" "holds_at b1 (?z + 1) ?body"
    unfolding b1_def using H(2) pl'(2,3,5) P by (auto intro: holds_at_patch_before)
  have hiv: "holds_at b1 (?P + 1028) iv"
    using P pl'(2) by (simp add: holds_at_def b1_def)
  have e: "?z + 1 + length ?body = ?P + 1028" using pl'(3) by simp
  have "holds_at b1 (?z + 1) (?body @ iv)"
    unfolding holds_at_append e using keep(2) hiv by simp
  from holds_at_read [OF this] have body: "mem_read b1 (?z + 1) (length ?body + 16) = Some (?body @ iv)"
    using pl'(2) by simp
  have n: "1028 - (?z + 1 - ?P) + 16 = length ?body + 16" using pl'(3) by simp
  have ck: "mem_read b1 (?P + 20) 4 = Some ?ck" using holds_at_read [OF keep(1)] pl'(5) by simp
  have rd: "\<exists>x. mem_read ?b (?P + 20) 1008 = Some x"
    using P by (simp add: mem_read_def)
  let ?st = "st\<lparr>ep_NumReceivedBytes := ep_NumReceivedBytes st + 1028\<rparr>"
  have rel1: "ep_rel env ?st A out" using rel by (simp add: ep_rel_def)
  have tm: "tunnel_msg m1 (?P + 1028)"
    using m P pl'(2) by (auto simp: tunnel_msg_def m1_def b1_def received_def)
  obtain st' where "ep_fragments env m1 (?P + 1028) (?z + 1) ?st = Some st'"
    "ep_IsInbound st' = ep_IsInbound st" "ep_rel env st' A' (out @ outs)"
    using ep_fragments_rel [OF tm rel1 ok _ e, of A' outs] keep(2) run by (auto simp: m1_def)
  moreover have "HandleDecryptedTunnelDataMsg env m st = ep_fragments env m1 (?P + 1028) (?z + 1) ?st"
    using rd zero iv wr body ck
    unfolding HandleDecryptedTunnelDataMsg_def Let_def TUNNEL_DATA_ENCRYPTED_SIZE_def TUNNEL_DATA_MSG_SIZE_def
    by (auto simp: m1_def GetPayload_16 n [simplified])
  ultimately show ?thesis by auto
qed

section \<open>Fragmentations are reassembled\<close>

lemma deliver_canonical [simp]:
  "deliver ident inb t (if t = eDeliveryTypeTunnel then tid else 0)
     (if t = eDeliveryTypeLocal then [] else h) c = deliver ident inb t tid h c"
  by (auto simp: deliver_def i2np_consts)

lemma asm_run_append:
  "asm_run ident inb A (fs @ gs) = do {
     (A1, o1) \<leftarrow> asm_run ident inb A fs;
     (A2, o2) \<leftarrow> asm_run ident inb A1 gs;
     Some (A2, o1 @ o2) }"
  by (induction fs arbitrary: A) (auto split: prod.splits bind_splits simp: bind_eq_Some_conv)

lemma asm_run_follow:
  assumes "i = word_of_nat (be_val mid)" "i \<noteq> 0" "ds \<noteq> []"
    "length c + length (concat ds) \<le> asm_max" "asm_oos A i = None"
  shows "asm_run ident inb (A\<lparr>asm_inc := (asm_inc A)(i \<mapsto> (t, tid, h, c, word_of_nat n))\<rparr>)
      (follow_frags mid n ds) =
    Some (A\<lparr>asm_inc := (asm_inc A)(i := None)\<rparr>, deliver ident inb t tid h (c @ concat ds))"
  using assms
proof (induction mid n ds arbitrary: c rule: follow_frags.induct)
  case (1 mid n)
  then show ?case by simp
next
  case (2 mid n d)
  then show ?case by (simp add: asm_step_def asm_follow_def Let_def fun_upd_same del: fun_upd_apply)
next
  case (3 mid n d d' ds)
  let ?A = "A\<lparr>asm_inc := (asm_inc A)(i \<mapsto> (t, tid, h, c, word_of_nat n))\<rparr>"
  have "asm_step ident inb ?A (frag_info (FollowFrag mid n False d)) d =
      Some (A\<lparr>asm_inc := (asm_inc A)(i \<mapsto> (t, tid, h, c @ d, word_of_nat (Suc n)))\<rparr>, [])"
    using 3 by (simp add: asm_step_def asm_follow_def Let_def add.commute)
  then show ?case
    using 3 by (simp add: add.assoc del: fun_upd_apply)
qed

lemma asm_run_block:
  assumes fs: "fragments_of t tid h c fs" and len: "length c \<le> asm_max"
    and mid: "i = word_of_nat (be_val (take 4 (drop 1 c)))" "i \<noteq> 0"
    and A: "asm_inc A i = None" "asm_oos A i = None"
  shows "asm_run ident inb A fs = Some (A, deliver ident inb t tid h c)"
proof -
  have e: "A\<lparr>asm_inc := (asm_inc A)(i := None)\<rparr> = A"
    using A by (simp add: fun_upd_idem)
  from fs consider "fs = [FirstFrag t tid h None c]"
    | d ds where "ds \<noteq> []" "c = d @ concat ds"
      "fs = FirstFrag t tid h (Some (take 4 (drop 1 c))) d # follow_frags (take 4 (drop 1 c)) 1 ds"
    unfolding fragments_of_def by blast
  then show ?thesis
  proof cases
    case 1
    then show ?thesis by (simp add: asm_step_def Let_def)
  next
    case 2
    let ?t = "if t = eDeliveryTypeTunnel then tid else 0" and ?h = "if t = eDeliveryTypeLocal then [] else h"
    have "asm_step ident inb A (frag_info (FirstFrag t tid h (Some (take 4 (drop 1 c))) d)) d =
        Some (A\<lparr>asm_inc := (asm_inc A)(i \<mapsto> (t, ?t, ?h, d, word_of_nat 1))\<rparr>, [])"
      using A mid by (simp add: asm_step_def Let_def)
    then show ?thesis
      using asm_run_follow [OF mid 2(1), of d A ident inb t ?t ?h 1] 2 len A e by simp
  qed
qed

end
