(* ===== verification/Tunnel_Layers.thy ===== *)
theory Tunnel_Layers
  imports Tunnel_Crypto Tunnel_Reassembly
begin

text \<open>
  The tunnels built on the gateway buffer, the endpoint and the layer encryption:
  \<open>TunnelGateway\<close> (\<open>TunnelGateway.cpp\<close>), the transit tunnels (\<open>TransitTunnel.cpp\<close>) and the data
  path of \<open>Tunnel\<close>, \<open>InboundTunnel\<close> and \<open>OutboundTunnel\<close> (\<open>Tunnel.cpp\<close>).

  \<open>transports.SendMessages\<close> is the list of messages an operation returns. The mutexes around the
  gateways are left out: an operation of the model is one critical section.
\<close>

section \<open>EncryptTunnelMsg\<close>

text \<open>One hop puts its layer on; \<open>in\<close> and \<open>out\<close> may be the same message.\<close>

definition TransitTunnel_EncryptTunnelMsg ::
    "aes_env \<Rightarrow> tunnel_keys \<Rightarrow> i2np_msg \<Rightarrow> i2np_msg \<Rightarrow> i2np_msg option" where
  "TransitTunnel_EncryptTunnelMsg aes keys inp out = do {
     bs \<leftarrow> mem_read (msg_buf inp) (GetPayload inp + 4) 1024;
     put_at out (GetPayload out + 4) (TunnelEncryption_Encrypt aes keys bs)
   }"

text \<open>
  The owner of a tunnel takes the layers of all hops off, from the last hop to the first: \<open>hops\<close>
  is the list of their keys in that order. After the first hop the loop works in place.
\<close>

fun decrypt_hops :: "aes_env \<Rightarrow> tunnel_keys list \<Rightarrow> i2np_msg \<Rightarrow> i2np_msg \<Rightarrow> i2np_msg option" where
  "decrypt_hops aes [] inp out = Some out"
| "decrypt_hops aes (keys # hops) inp out = do {
     bs \<leftarrow> mem_read (msg_buf inp) (GetPayload inp + 4) 1024;
     out \<leftarrow> put_at out (GetPayload out + 4) (TunnelDecryption_Decrypt aes keys bs);
     decrypt_hops aes hops out out }"

definition Tunnel_EncryptTunnelMsg ::
    "aes_env \<Rightarrow> tunnel_keys list \<Rightarrow> i2np_msg \<Rightarrow> i2np_msg \<Rightarrow> i2np_msg option" where
  "Tunnel_EncryptTunnelMsg aes hops inp out = decrypt_hops aes (rev hops) inp out"

section \<open>TunnelGateway\<close>

record tunnel_gateway =
  tg_Buffer :: gw_state
  tg_NumSentBytes :: nat

definition TunnelGateway :: "32 word \<Rightarrow> bytes \<Rightarrow> tunnel_gateway" where
  "TunnelGateway nextTunnelID rnd =
     \<lparr>tg_Buffer = TunnelGatewayBuffer nextTunnelID rnd, tg_NumSentBytes = 0\<rparr>"

definition PutTunnelDataMsg :: "gw_env \<Rightarrow> TunnelMessageBlock \<Rightarrow> tunnel_gateway \<Rightarrow> tunnel_gateway option" where
  "PutTunnelDataMsg genv block tg =
     map_option (\<lambda>b. tg\<lparr>tg_Buffer := b\<rparr>) (PutI2NPMsg genv block (tg_Buffer tg))"

text \<open>The loop of \<open>SendBuffer\<close>; \<open>encrypt\<close> is the virtual \<open>EncryptTunnelMsg\<close> of the tunnel.\<close>

fun send_loop :: "i2np_env \<Rightarrow> (nat \<Rightarrow> 32 word) \<Rightarrow> (i2np_msg \<Rightarrow> i2np_msg option) \<Rightarrow> i2np_msg list \<Rightarrow>
    i2np_msg list option" where
  "send_loop env rnd encrypt [] = Some []"
| "send_loop env rnd encrypt (m # ms) = do {
     m \<leftarrow> encrypt m;
     m \<leftarrow> FillI2NPMessageHeader env (rnd (length ms)) m eI2NPTunnelData 0;
     ms \<leftarrow> send_loop env rnd encrypt ms;
     Some (m # ms) }"

definition SendBuffer :: "gw_env \<Rightarrow> i2np_env \<Rightarrow> (nat \<Rightarrow> 32 word) \<Rightarrow> (i2np_msg \<Rightarrow> i2np_msg option) \<Rightarrow>
    tunnel_gateway \<Rightarrow> (tunnel_gateway \<times> i2np_msg list) option" where
  "SendBuffer genv env rnd encrypt tg = do {
     b \<leftarrow> CompleteCurrentTunnelDataMessage genv (tg_Buffer tg);
     msgs \<leftarrow> send_loop env rnd encrypt (gw_TunnelDataMsgs b);
     Some (tg\<lparr>tg_Buffer := ClearTunnelDataMsgs b,
              tg_NumSentBytes := tg_NumSentBytes tg + TUNNEL_DATA_MSG_SIZE * length msgs\<rparr>, msgs)
   }"

definition TunnelGateway_SendTunnelDataMsg :: "gw_env \<Rightarrow> i2np_env \<Rightarrow> (nat \<Rightarrow> 32 word) \<Rightarrow>
    (i2np_msg \<Rightarrow> i2np_msg option) \<Rightarrow> TunnelMessageBlock \<Rightarrow> tunnel_gateway \<Rightarrow>
    (tunnel_gateway \<times> i2np_msg list) option" where
  "TunnelGateway_SendTunnelDataMsg genv env rnd encrypt block tg = do {
     tg \<leftarrow> PutTunnelDataMsg genv block tg;
     SendBuffer genv env rnd encrypt tg }"

section \<open>Transit tunnels\<close>

record transit_tunnel =
  tt_TunnelID :: "32 word"
  tt_NextTunnelID :: "32 word"
  tt_NextIdent :: ident_hash
  tt_Encryption :: tunnel_keys

datatype transit_kind =
    TransitTunnelParticipant nat "i2np_msg list"
  | TransitTunnelGateway tunnel_gateway
  | TransitTunnelEndpoint ep_state

definition TransitTunnel :: "32 word \<Rightarrow> ident_hash \<Rightarrow> 32 word \<Rightarrow> bytes \<Rightarrow> bytes \<Rightarrow> transit_tunnel" where
  "TransitTunnel receiveTunnelID nextIdent nextTunnelID layerKey ivKey =
     \<lparr>tt_TunnelID = receiveTunnelID, tt_NextTunnelID = nextTunnelID, tt_NextIdent = nextIdent,
      tt_Encryption = \<lparr>tk_layer = layerKey, tk_iv = ivKey\<rparr>\<rparr>"

text \<open>\<open>CreateTransitTunnel\<close>; the endpoint of a transit tunnel is always outbound.\<close>

definition CreateTransitTunnel :: "bytes \<Rightarrow> 32 word \<Rightarrow> ident_hash \<Rightarrow> 32 word \<Rightarrow> bytes \<Rightarrow> bytes \<Rightarrow>
    bool \<Rightarrow> bool \<Rightarrow> transit_tunnel \<times> transit_kind" where
  "CreateTransitTunnel rnd receiveTunnelID nextIdent nextTunnelID layerKey ivKey isGateway isEndpoint =
     (TransitTunnel receiveTunnelID nextIdent nextTunnelID layerKey ivKey,
      if isEndpoint then TransitTunnelEndpoint (TunnelEndpoint False)
      else if isGateway then TransitTunnelGateway (TunnelGateway nextTunnelID rnd)
      else TransitTunnelParticipant 0 [])"

definition Participant_HandleTunnelDataMsg :: "aes_env \<Rightarrow> i2np_env \<Rightarrow> 32 word \<Rightarrow> nat \<Rightarrow> transit_tunnel \<Rightarrow>
    i2np_msg \<Rightarrow> nat \<times> i2np_msg list \<Rightarrow> (nat \<times> i2np_msg list) option" where
  "Participant_HandleTunnelDataMsg aes env rnd addr tt tunnelMsg st = do {
     let newMsg = CreateEmptyTunnelDataMsg addr;
     newMsg \<leftarrow> TransitTunnel_EncryptTunnelMsg aes (tt_Encryption tt) tunnelMsg newMsg;
     newMsg \<leftarrow> put_be32 newMsg (GetPayload newMsg) (tt_NextTunnelID tt);
     newMsg \<leftarrow> FillI2NPMessageHeader env rnd newMsg eI2NPTunnelData 0;
     Some (fst st + GetLength tunnelMsg, snd st @ [newMsg])
   }"

text \<open>\<open>FlushTunnelDataMsgs\<close> of a participant: what it sends, and nothing is left.\<close>

definition Participant_FlushTunnelDataMsgs ::
    "nat \<times> i2np_msg list \<Rightarrow> (nat \<times> i2np_msg list) \<times> i2np_msg list" where
  "Participant_FlushTunnelDataMsgs st = ((fst st, []), snd st)"

definition Gateway_SendTunnelDataMsg ::
    "gw_env \<Rightarrow> i2np_msg \<Rightarrow> tunnel_gateway \<Rightarrow> tunnel_gateway option" where
  "Gateway_SendTunnelDataMsg genv msg tg = PutTunnelDataMsg genv
     \<lparr>blk_deliveryType = eDeliveryTypeLocal, blk_hash = [], blk_tunnelID = 0, blk_data = msg\<rparr> tg"

definition Gateway_FlushTunnelDataMsgs :: "gw_env \<Rightarrow> i2np_env \<Rightarrow> (nat \<Rightarrow> 32 word) \<Rightarrow> aes_env \<Rightarrow>
    transit_tunnel \<Rightarrow> tunnel_gateway \<Rightarrow> (tunnel_gateway \<times> i2np_msg list) option" where
  "Gateway_FlushTunnelDataMsgs genv env rnd aes tt tg =
     SendBuffer genv env rnd (\<lambda>m. TransitTunnel_EncryptTunnelMsg aes (tt_Encryption tt) m m) tg"

definition Endpoint_HandleTunnelDataMsg ::
    "aes_env \<Rightarrow> ep_env \<Rightarrow> nat \<Rightarrow> transit_tunnel \<Rightarrow> i2np_msg \<Rightarrow> ep_state \<Rightarrow> ep_state option" where
  "Endpoint_HandleTunnelDataMsg aes env addr tt tunnelMsg st = do {
     let newMsg = CreateEmptyTunnelDataMsg addr;
     newMsg \<leftarrow> TransitTunnel_EncryptTunnelMsg aes (tt_Encryption tt) tunnelMsg newMsg;
     HandleDecryptedTunnelDataMsg env newMsg st
   }"

section \<open>InboundTunnel and OutboundTunnel\<close>

datatype tunnel_state =
    eTunnelStatePending
  | eTunnelStateBuildReplyReceived
  | eTunnelStateBuildFailed
  | eTunnelStateEstablished
  | eTunnelStateTestFailed
  | eTunnelStateFailed
  | eTunnelStateExpiring

text \<open>A message from a failed tunnel shows that it is alive.\<close>

definition InboundTunnel_HandleTunnelDataMsg :: "aes_env \<Rightarrow> ep_env \<Rightarrow> nat \<Rightarrow> nat \<Rightarrow> tunnel_keys list \<Rightarrow>
    i2np_msg \<Rightarrow> tunnel_state \<times> ep_state \<Rightarrow> (tunnel_state \<times> ep_state) option" where
  "InboundTunnel_HandleTunnelDataMsg aes env addr self hops msg st = do {
     let state = (if fst st = eTunnelStateFailed then eTunnelStateEstablished else fst st);
     let newMsg = CreateEmptyTunnelDataMsg addr;
     newMsg \<leftarrow> Tunnel_EncryptTunnelMsg aes hops msg newMsg;
     ep \<leftarrow> HandleDecryptedTunnelDataMsg env (newMsg\<lparr>msg_from := Some self\<rparr>) (snd st);
     Some (state, ep)
   }"

definition outbound_block :: "ident_hash option \<Rightarrow> 32 word \<Rightarrow> i2np_msg \<Rightarrow> TunnelMessageBlock" where
  "outbound_block gwHash gwTunnel msg = (case gwHash of
       Some h \<Rightarrow> (if gwTunnel \<noteq> 0
         then \<lparr>blk_deliveryType = eDeliveryTypeTunnel, blk_hash = h, blk_tunnelID = gwTunnel, blk_data = msg\<rparr>
         else \<lparr>blk_deliveryType = eDeliveryTypeRouter, blk_hash = h, blk_tunnelID = 0, blk_data = msg\<rparr>)
     | None \<Rightarrow> \<lparr>blk_deliveryType = eDeliveryTypeLocal, blk_hash = [], blk_tunnelID = 0, blk_data = msg\<rparr>)"

definition OutboundTunnel_SendTunnelDataMsg :: "gw_env \<Rightarrow> i2np_env \<Rightarrow> (nat \<Rightarrow> 32 word) \<Rightarrow> aes_env \<Rightarrow>
    tunnel_keys list \<Rightarrow> ident_hash option \<Rightarrow> 32 word \<Rightarrow> i2np_msg \<Rightarrow> tunnel_gateway \<Rightarrow>
    (tunnel_gateway \<times> i2np_msg list) option" where
  "OutboundTunnel_SendTunnelDataMsg genv env rnd aes hops gwHash gwTunnel msg tg =
     TunnelGateway_SendTunnelDataMsg genv env rnd (\<lambda>m. Tunnel_EncryptTunnelMsg aes hops m m)
       (outbound_block gwHash gwTunnel msg) tg"

fun put_blocks :: "gw_env \<Rightarrow> TunnelMessageBlock list \<Rightarrow> tunnel_gateway \<Rightarrow> tunnel_gateway option" where
  "put_blocks genv [] tg = Some tg"
| "put_blocks genv (b # bs) tg = do { tg \<leftarrow> PutTunnelDataMsg genv b tg; put_blocks genv bs tg }"

definition OutboundTunnel_SendTunnelDataMsgs :: "gw_env \<Rightarrow> i2np_env \<Rightarrow> (nat \<Rightarrow> 32 word) \<Rightarrow> aes_env \<Rightarrow>
    tunnel_keys list \<Rightarrow> TunnelMessageBlock list \<Rightarrow> tunnel_gateway \<Rightarrow>
    (tunnel_gateway \<times> i2np_msg list) option" where
  "OutboundTunnel_SendTunnelDataMsgs genv env rnd aes hops msgs tg = do {
     tg \<leftarrow> put_blocks genv msgs tg;
     SendBuffer genv env rnd (\<lambda>m. Tunnel_EncryptTunnelMsg aes hops m m) tg }"

end
