(* ===== verification/Tunnel_Build.thy ===== *)
theory Tunnel_Build
  imports Tunnel_Config Tunnel_Layers
begin

text \<open>
  Building a tunnel: the records \<open>Tunnel::Build\<close> puts into a VariableTunnelBuild message, what
  every hop does with them (\<open>HandleBuildRequestRecords\<close> in \<open>I2NPProtocol.cpp\<close>), and how the owner
  reads the answers (\<open>Tunnel::HandleTunnelBuildResponse\<close>).

  The records lie in the message buffer; every access is checked. The loops over records are
  written on the buffer; for the proofs the buffer is a prefix, a list of records and a rest.
\<close>

section \<open>The build request record\<close>

record build_env =
  be_dh :: dh_group
  be_sha256 :: "bytes \<Rightarrow> bytes"
  be_aes :: aes_env

text \<open>\<open>TunnelHopConfig::CreateBuildRequestRecord\<close>: the clear text of 222 bytes, then the record.\<close>

definition request_flag :: "hop_config \<Rightarrow> byte" where
  "request_flag hop = (if hop_isGateway hop then 0x80 else 0) OR (if hop_isEndpoint hop then 0x40 else 0)"

definition request_clear_text :: "32 word \<Rightarrow> hop_config \<Rightarrow> 32 word \<Rightarrow> bytes option" where
  "request_clear_text hours hop replyMsgID = do {
     nextRouter \<leftarrow> hop_nextRouter hop;
     c \<leftarrow> htobe32buf (replicate CLEAR_TEXT_SIZE 0) RECEIVE_TUNNEL_OFFSET (hop_tunnelID hop);
     c \<leftarrow> mem_write c OUR_IDENT_OFFSET (rr_ident (hop_router hop));
     c \<leftarrow> htobe32buf c NEXT_TUNNEL_OFFSET (hop_nextTunnelID hop);
     c \<leftarrow> mem_write c NEXT_IDENT_OFFSET (rr_ident nextRouter);
     c \<leftarrow> mem_write c LAYER_KEY_OFFSET (hop_layerKey hop);
     c \<leftarrow> mem_write c IV_KEY_OFFSET (hop_ivKey hop);
     c \<leftarrow> mem_write c REPLY_KEY_OFFSET (hop_replyKey hop);
     c \<leftarrow> mem_write c REPLY_IV_OFFSET (hop_replyIV hop);
     c \<leftarrow> mem_write c FLAG_OFFSET [request_flag hop];
     c \<leftarrow> htobe32buf c REQUEST_TIME_OFFSET hours;
     htobe32buf c SEND_MSG_ID_OFFSET replyMsgID
   }"

definition CreateBuildRequestRecord :: "build_env \<Rightarrow> nat \<Rightarrow> 32 word \<Rightarrow> hop_config \<Rightarrow> 32 word \<Rightarrow> bytes option" where
  "CreateBuildRequestRecord env k hours hop replyMsgID = do {
     c \<leftarrow> request_clear_text hours hop replyMsgID;
     let enc = ElGamalEncryption_new (be_dh env) k (rr_encryptionKey (hop_router hop));
     Some (take 16 (rr_ident (hop_router hop)) @ ElGamalEncrypt (be_dh env) (be_sha256 env) enc c [] False)
   }"

text \<open>Keys and hashes have the sizes of their arrays.\<close>

definition hop_ok :: "hop_config \<Rightarrow> bool" where
  "hop_ok hop \<longleftrightarrow> length (rr_ident (hop_router hop)) = 32 \<and> length (hop_layerKey hop) = 32 \<and>
     length (hop_ivKey hop) = 32 \<and> length (hop_replyKey hop) = 32 \<and> length (hop_replyIV hop) = 16 \<and>
     (\<exists>r. hop_nextRouter hop = Some r \<and> length (rr_ident r) = 32)"

definition clear_bytes :: "32 word \<Rightarrow> hop_config \<Rightarrow> 32 word \<Rightarrow> bytes" where
  "clear_bytes hours hop mid =
     be_bytes 4 (unat (hop_tunnelID hop)) @ rr_ident (hop_router hop) @ be_bytes 4 (unat (hop_nextTunnelID hop)) @
     rr_ident (the (hop_nextRouter hop)) @ hop_layerKey hop @ hop_ivKey hop @ hop_replyKey hop @ hop_replyIV hop @
     [request_flag hop] @ be_bytes 4 (unat hours) @ be_bytes 4 (unat mid) @ replicate 29 0"

lemmas clear_offsets = RECEIVE_TUNNEL_OFFSET_def OUR_IDENT_OFFSET_def NEXT_TUNNEL_OFFSET_def NEXT_IDENT_OFFSET_def
  LAYER_KEY_OFFSET_def IV_KEY_OFFSET_def REPLY_KEY_OFFSET_def REPLY_IV_OFFSET_def FLAG_OFFSET_def
  REQUEST_TIME_OFFSET_def SEND_MSG_ID_OFFSET_def CLEAR_TEXT_SIZE_def

lemma request_clear_text_bytes:
  assumes "hop_ok hop"
  shows "request_clear_text hours hop mid = Some (clear_bytes hours hop mid)"
proof -
  obtain r where r: "hop_nextRouter hop = Some r" "length (rr_ident r) = 32"
    using assms by (auto simp: hop_ok_def)
  have "request_clear_text hours hop mid = Some (patch (replicate 222 0) 0 (take 193 (clear_bytes hours hop mid)))"
    using assms r by (simp add: request_clear_text_def clear_offsets htobe32buf_mem_write mem_write_patch
        patch_patch hop_ok_def clear_bytes_def)
  also have "patch (replicate 222 0) 0 (take 193 (clear_bytes hours hop mid)) = clear_bytes hours hop mid"
    using assms r by (simp add: patch_def clear_bytes_def hop_ok_def)
  finally show ?thesis .
qed

lemma length_clear_bytes: "hop_ok hop \<Longrightarrow> length (clear_bytes hours hop mid) = 222"
  by (auto simp: clear_bytes_def hop_ok_def)

text \<open>What a hop reads from the clear text.\<close>

lemma clear_bytes_fields:
  fixes hours mid :: "32 word"
  assumes "hop_ok hop"
  defines "c \<equiv> clear_bytes hours hop mid"
  shows "bufbe32toh c RECEIVE_TUNNEL_OFFSET = Some (hop_tunnelID hop)"
    "take 32 (drop NEXT_IDENT_OFFSET c) = rr_ident (the (hop_nextRouter hop))"
    "bufbe32toh c NEXT_TUNNEL_OFFSET = Some (hop_nextTunnelID hop)"
    "take 32 (drop LAYER_KEY_OFFSET c) = hop_layerKey hop" "take 32 (drop IV_KEY_OFFSET c) = hop_ivKey hop"
    "take 32 (drop REPLY_KEY_OFFSET c) = hop_replyKey hop" "take 16 (drop REPLY_IV_OFFSET c) = hop_replyIV hop"
    "c ! FLAG_OFFSET = request_flag hop" "bufbe32toh c SEND_MSG_ID_OFFSET = Some mid"
  using assms by (auto simp: c_def clear_bytes_def clear_offsets hop_ok_def bufbe32toh_be_val mem_read_def
      byte_simps nth_append)

lemma request_flag_bits:
  "request_flag hop AND 0x80 \<noteq> 0 \<longleftrightarrow> hop_isGateway hop" "request_flag hop AND 0x40 \<noteq> 0 \<longleftrightarrow> hop_isEndpoint hop"
  by (auto simp: request_flag_def)

section \<open>HandleBuildRequestRecords\<close>

definition MAX_NUM_TRANSIT_TUNNELS :: nat where [i2np_consts]: "MAX_NUM_TRANSIT_TUNNELS = 2500"

text \<open>What a router knows of itself: identity, ElGamal key, and whether it takes part in tunnels.\<close>

record router_ctx =
  rc_ident :: ident_hash
  rc_priv :: bytes
  rc_acceptsTunnels :: bool
  rc_numTransit :: nat
  rc_bandwidthExceeded :: bool

definition takes_part :: "router_ctx \<Rightarrow> bool" where
  "takes_part ctx \<longleftrightarrow> rc_acceptsTunnels ctx \<and> rc_numTransit ctx \<le> MAX_NUM_TRANSIT_TUNNELS \<and>
     \<not> rc_bandwidthExceeded ctx"

text \<open>The search for our record: the first 16 bytes are the start of our identity hash.\<close>

fun find_ours :: "bytes \<Rightarrow> nat \<Rightarrow> ident_hash \<Rightarrow> nat list \<Rightarrow> nat option option" where
  "find_ours buf off ident [] = Some None"
| "find_ours buf off ident (i # is) = do {
     x \<leftarrow> mem_read buf (off + i * TUNNEL_BUILD_RECORD_SIZE) 16;
     if x = take 16 ident then Some (Some i) else find_ours buf off ident is }"

definition cbc_encrypt_record :: "aes_env \<Rightarrow> bytes \<Rightarrow> bytes \<Rightarrow> bytes \<Rightarrow> bytes" where
  "cbc_encrypt_record aes key iv r = snd (CBCEncryption_Encrypt_buf (aes_enc aes key) iv r)"

definition cbc_decrypt_record :: "aes_env \<Rightarrow> bytes \<Rightarrow> bytes \<Rightarrow> bytes \<Rightarrow> bytes" where
  "cbc_decrypt_record aes key iv r = snd (CBCDecryption_Decrypt_buf (aes_dec aes key) iv r)"

fun encrypt_replies :: "aes_env \<Rightarrow> bytes \<Rightarrow> bytes \<Rightarrow> nat \<Rightarrow> nat list \<Rightarrow> bytes \<Rightarrow> bytes option" where
  "encrypt_replies aes key iv off [] buf = Some buf"
| "encrypt_replies aes key iv off (j # js) buf = do {
     reply \<leftarrow> mem_read buf (off + j * TUNNEL_BUILD_RECORD_SIZE) TUNNEL_BUILD_RECORD_SIZE;
     buf \<leftarrow> mem_write buf (off + j * TUNNEL_BUILD_RECORD_SIZE) (cbc_encrypt_record aes key iv reply);
     encrypt_replies aes key iv off js buf }"

definition transit_of :: "bytes \<Rightarrow> bytes \<Rightarrow> (transit_tunnel \<times> transit_kind) option" where
  "transit_of rnd clearText = do {
     receiveTunnel \<leftarrow> bufbe32toh clearText RECEIVE_TUNNEL_OFFSET;
     nextIdent \<leftarrow> mem_read clearText NEXT_IDENT_OFFSET 32;
     nextTunnel \<leftarrow> bufbe32toh clearText NEXT_TUNNEL_OFFSET;
     layerKey \<leftarrow> mem_read clearText LAYER_KEY_OFFSET 32;
     ivKey \<leftarrow> mem_read clearText IV_KEY_OFFSET 32;
     flag \<leftarrow> map_option hd (mem_read clearText FLAG_OFFSET 1);
     Some (CreateTransitTunnel rnd receiveTunnel nextIdent nextTunnel layerKey ivKey
       (flag AND 0x80 \<noteq> 0) (flag AND 0x40 \<noteq> 0)) }"

text \<open>
  The result: the buffer, the clear text, the transit tunnel handed to \<open>AddTransitTunnel\<close>, and
  whether a record was ours. When the ElGamal digest does not match, \<open>clearText\<close> keeps what it held.
\<close>

definition HandleBuildRequestRecords :: "build_env \<Rightarrow> router_ctx \<Rightarrow> bytes \<Rightarrow> nat \<Rightarrow> nat \<Rightarrow> bytes \<Rightarrow> bytes \<Rightarrow>
    (bytes \<times> bytes \<times> (transit_tunnel \<times> transit_kind) option \<times> bool) option" where
  "HandleBuildRequestRecords env ctx rnd num off buf clearText = do {
     ours \<leftarrow> find_ours buf off (rc_ident ctx) [0..<num];
     (case ours of
        None \<Rightarrow> Some (buf, clearText, None, False)
      | Some i \<Rightarrow> do {
          let record = off + i * TUNNEL_BUILD_RECORD_SIZE;
          encrypted \<leftarrow> mem_read buf (record + 16) 512;
          let clearText = (case ElGamalDecrypt (be_dh env) (be_sha256 env) (rc_priv ctx) encrypted False of
                 Some d \<Rightarrow> d | None \<Rightarrow> clearText);
          (transit, ret) \<leftarrow> (if takes_part ctx
            then map_option (\<lambda>t. (Some t, 0)) (transit_of rnd clearText) else Some (None, 30));
          buf \<leftarrow> mem_write buf (record + RESPONSE_RET_OFFSET) [ret];
          body \<leftarrow> mem_read buf (record + RESPONSE_PADDING_OFFSET) (RESPONSE_PADDING_SIZE + 1);
          buf \<leftarrow> mem_write buf record (be_sha256 env body);
          replyKey \<leftarrow> mem_read clearText REPLY_KEY_OFFSET 32;
          replyIV \<leftarrow> mem_read clearText REPLY_IV_OFFSET 16;
          buf \<leftarrow> encrypt_replies (be_aes env) replyKey replyIV off [0..<num] buf;
          Some (buf, clearText, transit, True) })
   }"

text \<open>
  \<open>HandleVariableTunnelBuildMsg\<close> when no pending inbound tunnel of ours is waiting for the message,
  and \<open>HandleTunnelBuildMsg\<close>: the message sent on, with the identity it goes to.
\<close>

datatype build_forward =
    ForwardToGateway ident_hash "32 word" byte bytes "32 word"
  | ForwardBuild ident_hash byte bytes "32 word"

definition forward_build :: "byte \<Rightarrow> byte \<Rightarrow> bytes \<Rightarrow> bytes \<Rightarrow> build_forward option" where
  "forward_build buildType replyType clearText buf = do {
     flag \<leftarrow> map_option hd (mem_read clearText FLAG_OFFSET 1);
     nextIdent \<leftarrow> mem_read clearText NEXT_IDENT_OFFSET 32;
     nextTunnel \<leftarrow> bufbe32toh clearText NEXT_TUNNEL_OFFSET;
     msgID \<leftarrow> bufbe32toh clearText SEND_MSG_ID_OFFSET;
     Some (if flag AND 0x40 \<noteq> 0 then ForwardToGateway nextIdent nextTunnel replyType buf msgID
           else ForwardBuild nextIdent buildType buf msgID) }"

definition VariableTunnelBuild_forward :: "build_env \<Rightarrow> router_ctx \<Rightarrow> bytes \<Rightarrow> bytes \<Rightarrow> nat \<Rightarrow>
    (bytes \<times> (transit_tunnel \<times> transit_kind) option \<times> build_forward option) option" where
  "VariableTunnelBuild_forward env ctx rnd buf len = do {
     num \<leftarrow> map_option (unat \<circ> hd) (mem_read buf 0 1);
     (buf, clearText, transit, found) \<leftarrow>
       HandleBuildRequestRecords env ctx rnd num 1 buf (replicate CLEAR_TEXT_SIZE 0);
     (if found then do {
        content \<leftarrow> mem_read buf 0 len;
        fwd \<leftarrow> forward_build eI2NPVariableTunnelBuild eI2NPVariableTunnelBuildReply clearText content;
        Some (buf, transit, Some fwd) }
      else Some (buf, transit, None))
   }"

definition NUM_TUNNEL_BUILD_RECORDS :: nat where [i2np_consts]: "NUM_TUNNEL_BUILD_RECORDS = 8"

text \<open>\<open>HandleTunnelBuildMsg\<close> leaves its clear text uninitialised (\<open>garbage\<close>).\<close>

definition HandleTunnelBuildMsg :: "build_env \<Rightarrow> router_ctx \<Rightarrow> bytes \<Rightarrow> bytes \<Rightarrow> bytes \<Rightarrow> nat \<Rightarrow>
    (bytes \<times> (transit_tunnel \<times> transit_kind) option \<times> build_forward option) option" where
  "HandleTunnelBuildMsg env ctx rnd garbage buf len = do {
     (buf, clearText, transit, found) \<leftarrow>
       HandleBuildRequestRecords env ctx rnd NUM_TUNNEL_BUILD_RECORDS 0 buf garbage;
     (if found then do {
        content \<leftarrow> mem_read buf 0 len;
        fwd \<leftarrow> forward_build eI2NPTunnelBuild eI2NPTunnelBuildReply clearText content;
        Some (buf, transit, Some fwd) }
      else Some (buf, transit, None))
   }"

section \<open>Tunnel::Build\<close>

definition STANDARD_NUM_RECORDS :: nat where [i2np_consts]: "STANDARD_NUM_RECORDS = 5"

text \<open>
  The real records, at the shuffled indices; \<open>ks\<close> are the ElGamal exponents and \<open>ws\<close> the words of
  the random generator, used as message ID by all hops but the last one.
\<close>

fun place_records :: "build_env \<Rightarrow> 32 word \<Rightarrow> 32 word \<Rightarrow> nat list \<Rightarrow> nat list \<Rightarrow> 32 word list \<Rightarrow> nat \<Rightarrow>
    hop_config list \<Rightarrow> bytes \<Rightarrow> (hop_config list \<times> bytes) option" where
  "place_records env hours replyMsgID (k # ks) (idx # idxs) (w # ws) off (hop # hops) buf = do {
     record \<leftarrow> CreateBuildRequestRecord env k hours hop (if hops \<noteq> [] then w else replyMsgID);
     buf \<leftarrow> mem_write buf (off + idx * TUNNEL_BUILD_RECORD_SIZE) record;
     (hops, buf) \<leftarrow> place_records env hours replyMsgID ks idxs ws off hops buf;
     Some (hop\<lparr>hop_recordIndex := idx\<rparr> # hops, buf) }"
| "place_records env hours replyMsgID ks idxs ws off [] buf = Some ([], buf)"
| "place_records env hours replyMsgID _ _ _ off _ buf = None"

fun fake_records :: "bytes list \<Rightarrow> nat list \<Rightarrow> nat \<Rightarrow> bytes \<Rightarrow> bytes option" where
  "fake_records (r # rs) (idx # idxs) off buf = do {
     buf \<leftarrow> mem_write buf (off + idx * TUNNEL_BUILD_RECORD_SIZE) r;
     fake_records rs idxs off buf }"
| "fake_records _ _ off buf = Some buf"

definition decrypt_record_at :: "aes_env \<Rightarrow> hop_config \<Rightarrow> nat \<Rightarrow> nat \<Rightarrow> bytes \<Rightarrow> bytes option" where
  "decrypt_record_at aes hop off idx buf = do {
     r \<leftarrow> mem_read buf (off + idx * TUNNEL_BUILD_RECORD_SIZE) TUNNEL_BUILD_RECORD_SIZE;
     mem_write buf (off + idx * TUNNEL_BUILD_RECORD_SIZE)
       (cbc_decrypt_record aes (hop_replyKey hop) (hop_replyIV hop) r) }"

text \<open>\<open>while (hop1) \<dots>\<close>: the records after the current hop; the outer loop goes back to the first.\<close>

fun decrypt_after :: "aes_env \<Rightarrow> hop_config \<Rightarrow> nat \<Rightarrow> hop_config list \<Rightarrow> bytes \<Rightarrow> bytes option" where
  "decrypt_after aes hop off [] buf = Some buf"
| "decrypt_after aes hop off (h1 # hops) buf = do {
     buf \<leftarrow> decrypt_record_at aes hop off (hop_recordIndex h1) buf;
     decrypt_after aes hop off hops buf }"

fun predecrypt :: "aes_env \<Rightarrow> nat \<Rightarrow> hop_config list \<Rightarrow> bytes \<Rightarrow> bytes option" where
  "predecrypt aes off [] buf = Some buf"
| "predecrypt aes off (hop # hops) buf = do {
     buf \<leftarrow> predecrypt aes off hops buf;
     decrypt_after aes hop off hops buf }"

definition num_records :: "nat \<Rightarrow> nat" where
  "num_records numHops = (if numHops \<le> STANDARD_NUM_RECORDS then STANDARD_NUM_RECORDS else numHops)"

definition GetNextIdentHash :: "hop_config list \<Rightarrow> ident_hash" where
  "GetNextIdentHash hops = rr_ident (hop_router (hd hops))"

text \<open>The hops with their record indices, and the message with the identity it is sent to.\<close>

definition Tunnel_Build :: "build_env \<Rightarrow> i2np_env \<Rightarrow> 32 word \<Rightarrow> nat \<Rightarrow> 32 word \<Rightarrow> nat list \<Rightarrow> nat list \<Rightarrow>
    32 word list \<Rightarrow> bytes list \<Rightarrow> 32 word \<Rightarrow> hop_config list \<Rightarrow> (hop_config list \<times> ident_hash \<times> i2np_msg) option" where
  "Tunnel_Build env ienv rnd addr hours ks recordIndicies ws fakes replyMsgID hops = do {
     let numHops = GetNumHops hops;
     let numRecords = num_records numHops;
     let msg = NewI2NPShortMessage addr;
     msg \<leftarrow> put_at msg (GetPayload msg) [word_of_nat numRecords];
     let msg = add_len msg (numRecords * TUNNEL_BUILD_RECORD_SIZE + 1);
     let records = GetPayload msg + 1;
     (hops, buf) \<leftarrow> place_records env hours replyMsgID ks recordIndicies ws records hops (msg_buf msg);
     buf \<leftarrow> fake_records fakes (drop numHops recordIndicies) records buf;
     buf \<leftarrow> predecrypt (be_aes env) records hops buf;
     msg \<leftarrow> FillI2NPMessageHeader ienv rnd (msg\<lparr>msg_buf := buf\<rparr>) eI2NPVariableTunnelBuild 0;
     Some (hops, GetNextIdentHash hops, msg)
   }"

section \<open>Tunnel::HandleTunnelBuildResponse\<close>

text \<open>The inner loop goes from the current hop to the first: \<open>hops\<close> in reverse order.\<close>

fun decrypt_before :: "aes_env \<Rightarrow> hop_config \<Rightarrow> nat \<Rightarrow> nat \<Rightarrow> hop_config list \<Rightarrow> bytes \<Rightarrow> bytes option" where
  "decrypt_before aes hop num off [] buf = Some buf"
| "decrypt_before aes hop num off (h1 # hops) buf = do {
     buf \<leftarrow> (if hop_recordIndex h1 < num then decrypt_record_at aes hop off (hop_recordIndex h1) buf else Some buf);
     decrypt_before aes hop num off hops buf }"

fun decrypt_responses :: "aes_env \<Rightarrow> nat \<Rightarrow> nat \<Rightarrow> hop_config list \<Rightarrow> bytes \<Rightarrow> bytes option" where
  "decrypt_responses aes num off [] buf = Some buf"
| "decrypt_responses aes num off (hop # before) buf = do {
     buf \<leftarrow> decrypt_before aes hop num off (hop # before) buf;
     decrypt_responses aes num off before buf }"

text \<open>The return codes, first hop first (\<open>GetProfile()->TunnelBuildResponse(ret)\<close> for each).\<close>

fun response_codes :: "nat \<Rightarrow> hop_config list \<Rightarrow> bytes \<Rightarrow> byte list option" where
  "response_codes off [] buf = Some []"
| "response_codes off (hop # hops) buf = do {
     ret \<leftarrow> map_option hd (mem_read buf (off + hop_recordIndex hop * TUNNEL_BUILD_RECORD_SIZE + RESPONSE_RET_OFFSET) 1);
     rets \<leftarrow> response_codes off hops buf;
     Some (ret # rets) }"

definition HandleTunnelBuildResponse :: "aes_env \<Rightarrow> hop_config list \<Rightarrow> bytes \<Rightarrow> tunnel_state \<Rightarrow>
    (bool \<times> byte list \<times> tunnel_state) option" where
  "HandleTunnelBuildResponse aes hops msg state = do {
     num \<leftarrow> map_option (unat \<circ> hd) (mem_read msg 0 1);
     buf \<leftarrow> decrypt_responses aes num 1 (rev hops) msg;
     rets \<leftarrow> response_codes 1 hops buf;
     let established = (\<forall>ret \<in> set rets. ret = 0);
     Some (established, rets, if established then eTunnelStateEstablished else state)
   }"

end
