(* ===== verification/Util_Base64.thy ===== *)
theory Util_Base64
  imports Kovri_Interfaces
begin

text \<open>
  \<open>src/core/util/Base64.cpp\<close>: Base64 with the alphabet of I2P, and Base32.

  A \<open>char\<close> is a byte. A buffer handed in with its size is that size; what is written into it is
  the returned list, and a write behind it is \<^term>\<open>None\<close>. The counts \<open>n\<close>, \<open>m\<close> of the code
  are of type \<open>int\<close>, so the inputs are meant to be shorter than \<open>2 ^ 31\<close> groups.
\<close>

section \<open>Base64\<close>

definition T64 :: bytes where
  "T64 = map of_char ''ABCDEFGHIJKLMNOPQRSTUVWXYZabcdefghijklmnopqrstuvwxyz0123456789-~''"

definition P64 :: byte where "P64 = of_char (CHR ''='')"

text \<open>The loop over the triples of the input, with the two cases of the remainder.\<close>

fun encode64 :: "bytes \<Rightarrow> bytes" where
  "encode64 (b1 # b2 # b3 # ps) =
     (let acc_1 = b1;
          acc_2 = push_bit 4 acc_1 AND 0x30;
          acc_1 = drop_bit 2 acc_1;
          d1 = T64 ! unat acc_1;
          acc_1 = b2;
          acc_2 = acc_2 OR drop_bit 4 acc_1;
          d2 = T64 ! unat acc_2;
          acc_1 = push_bit 2 (acc_1 AND 0x0F);
          acc_2 = b3;
          acc_1 = acc_1 OR drop_bit 6 acc_2;
          d3 = T64 ! unat acc_1;
          acc_2 = acc_2 AND 0x3F;
          d4 = T64 ! unat acc_2
      in d1 # d2 # d3 # d4 # encode64 ps)"
| "encode64 [b1] =
     (let acc_1 = b1;
          acc_2 = push_bit 4 acc_1 AND 0x3F;
          acc_1 = drop_bit 2 acc_1
      in [T64 ! unat acc_1, T64 ! unat acc_2, P64, P64])"
| "encode64 [b1, b2] =
     (let acc_1 = b1;
          acc_2 = push_bit 4 acc_1 AND 0x3F;
          acc_1 = drop_bit 2 acc_1;
          d1 = T64 ! unat acc_1;
          acc_1 = b2;
          acc_2 = acc_2 OR drop_bit 4 acc_1;
          d2 = T64 ! unat acc_2;
          acc_1 = push_bit 2 (acc_1 AND 0x0F)
      in [d1, d2, T64 ! unat acc_1, P64])"
| "encode64 [] = []"

definition ByteStreamToBase64 :: "bytes \<Rightarrow> nat \<Rightarrow> nat \<times> bytes" where
  "ByteStreamToBase64 InBuffer len =
     (let n = length InBuffer div 3;
          m = length InBuffer mod 3;
          outCount = (if m = 0 then 4 * n else 4 * (n + 1))
      in if outCount > len then (0, []) else (outCount, encode64 InBuffer))"

text \<open>The reverse table; \<open>-1\<close> in a \<open>char\<close> read as \<open>unsigned char\<close> is 255.\<close>

definition iT64Build :: bytes where
  "iT64Build = (fold (\<lambda>i t. t[unat (T64 ! i) := word_of_nat i]) [0..<64] (replicate 256 255))[unat P64 := 0]"

text \<open>
  \<open>while ( *ps-- == P64 ) outCount--\<close>, on the reversed input. Input that consists of padding
  only makes it read before the buffer.
\<close>

fun count_pads :: "bytes \<Rightarrow> nat option" where
  "count_pads [] = None"
| "count_pads (c # cs) = (if c = P64 then map_option Suc (count_pads cs) else Some 0)"

fun decode64 :: "nat \<Rightarrow> bytes \<Rightarrow> bytes \<Rightarrow> bytes" where
  "decode64 outCount (c1 # c2 # c3 # c4 # ps) out =
     (let acc_1 = iT64Build ! unat c1;
          acc_2 = iT64Build ! unat c2;
          acc_1 = push_bit 2 acc_1;
          acc_1 = acc_1 OR drop_bit 4 acc_2;
          out = out @ [acc_1]
      in if length out \<ge> outCount then out
      else let acc_2 = push_bit 4 acc_2;
          acc_1 = iT64Build ! unat c3;
          acc_2 = acc_2 OR drop_bit 2 acc_1;
          out = out @ [acc_2]
      in if length out \<ge> outCount then out
      else let acc_2 = iT64Build ! unat c4;
          acc_2 = acc_2 OR push_bit 6 acc_1
      in decode64 outCount ps (out @ [acc_2]))"
| "decode64 outCount _ out = out"

definition Base64ToByteStream :: "bytes \<Rightarrow> nat \<Rightarrow> (nat \<times> bytes) option" where
  "Base64ToByteStream InBuffer len =
     (let n = length InBuffer div 4;
          m = length InBuffer mod 4
      in if InBuffer \<noteq> [] \<and> m = 0 then do {
           pads \<leftarrow> count_pads (rev InBuffer);
           let outCount = size_sub (3 * n) pads;
           (if outCount > len then Some (0, [])
            else let out = decode64 outCount InBuffer []
              in if length out \<le> len then Some (outCount, out) else None) }
         else Some (0, []))"

section \<open>Base32\<close>

text \<open>\<open>tmp\<close> is an \<open>int\<close> of 32 bits; only its lowest \<open>bits\<close> bits are ever looked at.\<close>

fun decode32 :: "nat \<Rightarrow> bytes \<Rightarrow> 32 word \<Rightarrow> nat \<Rightarrow> bytes \<Rightarrow> nat \<times> bytes" where
  "decode32 outLen [] tmp bits out = (length out, out)"
| "decode32 outLen (ch # inBuf) tmp bits out =
     (case (if of_char (CHR ''2'') \<le> ch \<and> ch \<le> of_char (CHR ''7'') then Some (ch - of_char (CHR ''2'') + 26)
            else if of_char (CHR ''a'') \<le> ch \<and> ch \<le> of_char (CHR ''z'') then Some (ch - of_char (CHR ''a''))
            else None) of
        None \<Rightarrow> (0, out)
      | Some ch \<Rightarrow>
          (let tmp = tmp OR ucast ch; bits = bits + 5 in
           if bits \<ge> 8 then
             (if length out \<ge> outLen then (length out, out)
              else decode32 outLen inBuf (push_bit 5 tmp) (bits - 8) (out @ [ucast (drop_bit (bits - 8) tmp)]))
           else decode32 outLen inBuf (push_bit 5 tmp) bits out))"

definition Base32ToByteStream :: "bytes \<Rightarrow> nat \<Rightarrow> nat \<times> bytes" where
  "Base32ToByteStream inBuf outLen = decode32 outLen inBuf 0 0 []"

definition digit32 :: "32 word \<Rightarrow> byte" where
  "digit32 ind = (if ind < 26 then ucast ind + of_char (CHR ''a'') else ucast (ind - 26) + of_char (CHR ''2''))"

function encode32 :: "nat \<Rightarrow> bytes \<Rightarrow> 32 word \<Rightarrow> nat \<Rightarrow> bytes \<Rightarrow> bytes" where
  "encode32 outLen inBuf tmp bits out =
     (if length out < outLen \<and> (bits > 0 \<or> inBuf \<noteq> []) then
        (let (inBuf, tmp, bits) =
           (if bits < 5 then
              (case inBuf of
                 b # inBuf \<Rightarrow> (inBuf, push_bit 8 tmp OR (ucast b AND 0xFF), bits + 8)
               | [] \<Rightarrow> ([], push_bit (5 - bits) tmp, 5))
            else (inBuf, tmp, bits));
          bits = bits - 5;
          ind = drop_bit bits tmp AND 0x1F
         in encode32 outLen inBuf tmp bits (out @ [digit32 ind]))
      else out)"
  by pat_completeness auto
termination by (relation "measure (\<lambda>(outLen, _, _, _, out). outLen - length out)") auto

declare encode32.simps [simp del]

definition ByteStreamToBase32 :: "bytes \<Rightarrow> nat \<Rightarrow> nat \<times> bytes" where
  "ByteStreamToBase32 inBuf outLen = (case inBuf of
       [] \<Rightarrow> (0, [])
     | b # rest \<Rightarrow> (let out = encode32 outLen rest (ucast b) 8 [] in (length out, out)))"

section \<open>Base64 is inverted\<close>

lemma fold_update_nth:
  assumes "inj_on f (set is)" and "j \<in> set is" and "\<forall>i \<in> set is. f i < length t"
  shows "fold (\<lambda>i t. t[f i := g i]) is t ! f j = g j"
  using assms
proof (induction "is" rule: rev_induct)
  case (snoc i "is")
  have l: "length (fold (\<lambda>i t. t[f i := g i]) xs t) = length t" for xs
    by (induction xs arbitrary: t) auto
  show ?case
  proof (cases "j = i")
    case True
    then show ?thesis using snoc.prems l by simp
  next
    case False
    then have "j \<in> set is" "f i \<noteq> f j" using snoc.prems by (auto simp: inj_on_def)
    then show ?thesis using snoc by (simp add: inj_on_def)
  qed
qed simp

lemma T64_values:
  "length T64 = 64" "distinct T64" "P64 \<notin> set T64"
  by (simp_all add: T64_def P64_def of_char_def)

lemma T64_inject: "i < 64 \<Longrightarrow> j < 64 \<Longrightarrow> unat (T64 ! i) = unat (T64 ! j) \<longleftrightarrow> i = j"
  using T64_values(1,2) by (simp add: nth_eq_iff_index_eq word_unat_eq_iff [symmetric])

lemma T64_digit:
  assumes "d < (64 :: byte)"
  shows "iT64Build ! unat (T64 ! unat d) = d" "T64 ! unat d \<noteq> P64"
proof -
  have d: "unat d < 64" using assms by (simp add: word_less_nat_alt)
  then have "T64 ! unat d \<in> set T64" using T64_values(1) by simp
  then show p: "T64 ! unat d \<noteq> P64" using T64_values(3) by metis
  have lt: "unat x < 256" for x :: byte using unsigned_less [of x] by simp
  have "fold (\<lambda>i t. t[unat (T64 ! i) := word_of_nat i]) [0..<64] (replicate 256 255 :: bytes) ! unat (T64 ! unat d)
      = word_of_nat (unat d)"
    by (rule fold_update_nth) (use d lt T64_inject in \<open>auto simp: inj_on_def\<close>)
  then show "iT64Build ! unat (T64 ! unat d) = d"
    using p unfolding iT64Build_def by (simp add: word_unat_eq_iff [symmetric])
qed

lemma iT64_P64: "iT64Build ! unat P64 = 0"
proof -
  have l: "length (fold (\<lambda>i t. t[f i := g i]) xs t) = length t" for f g xs and t :: bytes
    by (induction xs arbitrary: t) auto
  have "unat P64 < 256" using unsigned_less [of P64] by simp
  then show ?thesis by (simp add: iT64Build_def l)
qed

lemma six_bits:
  "push_bit 2 (drop_bit 2 a) OR drop_bit 4 (push_bit 4 a AND 0x30 OR drop_bit 4 b) = (a :: byte)"
  "push_bit 4 (push_bit 4 a AND 0x30 OR drop_bit 4 b) OR drop_bit 2 (push_bit 2 (b AND 0x0F) OR drop_bit 6 c) = (b :: byte)"
  "(c AND 0x3F) OR push_bit 6 (push_bit 2 (b AND 0x0F) OR drop_bit 6 c) = (c :: byte)"
  by (rule byte_bits_eqI, elim insertE, auto simp: bit_simps dest: bit_imp_le_length)+

lemma byte_less_64I: "\<not> bit a 6 \<Longrightarrow> \<not> bit a 7 \<Longrightarrow> (a :: byte) < 64"
proof -
  assume "\<not> bit a 6" "\<not> bit a 7"
  then have "a = take_bit 6 a" by (intro byte_bits_eqI) (auto simp: bit_simps)
  then have "unat a = take_bit 6 (unat a)" by (metis unsigned_take_bit_eq)
  then have "unat a < 2 ^ 6" using take_bit_nat_less_exp [of 6 "unat a"] by linarith
  then show ?thesis by (simp add: word_less_nat_alt)
qed

lemma digit_bounds:
  "drop_bit 2 (a :: byte) < 64" "(push_bit 4 a AND 0x30 OR drop_bit 4 b) < (64 :: byte)"
  "(push_bit 4 a AND 0x3F OR drop_bit 4 b) < (64 :: byte)" "(push_bit 4 a AND 0x3F) < (64 :: byte)"
  "push_bit 2 (b AND 0x0F) OR drop_bit 6 c < (64 :: byte)" "push_bit 2 (b AND 0x0F) < (64 :: byte)" "c AND 0x3F < (64 :: byte)"
  by (rule byte_less_64I; auto simp: bit_simps dest: bit_imp_le_length)+

lemma triple_induct [case_names triple one two nil]:
  "(\<And>b1 b2 b3 ps. P ps \<Longrightarrow> P (b1 # b2 # b3 # ps)) \<Longrightarrow> (\<And>b1. P [b1]) \<Longrightarrow> (\<And>b1 b2. P [b1, b2]) \<Longrightarrow>
     P [] \<Longrightarrow> P (bs :: bytes)"
  by (rule encode64.induct [of P]) blast+

lemma div3: "(5 + n) div 3 = Suc (Suc (Suc n) div 3)"
  by simp

lemmas T64_digits = digit_bounds [THEN T64_digit(1)] digit_bounds [THEN T64_digit(2)]

lemma six_bits_last:
  "push_bit 2 (drop_bit 2 a) OR drop_bit 4 (push_bit 4 a AND 0x3F OR drop_bit 4 b) = (a :: byte)"
  "push_bit 2 (drop_bit 2 a) OR drop_bit 4 (push_bit 4 a AND 0x3F) = (a :: byte)"
  "push_bit 4 (push_bit 4 a AND 0x3F OR drop_bit 4 b) OR drop_bit 2 (push_bit 2 (b AND 0x0F)) = (b :: byte)"
  by (rule byte_bits_eqI, elim insertE, auto simp: bit_simps dest: bit_imp_le_length)+

lemma decode_encode64: "decode64 (length out + length bs) (encode64 bs) out = out @ bs"
proof (induction bs arbitrary: out rule: triple_induct)
  case (triple b1 b2 b3 ps)
  have "decode64 (length out + length (b1 # b2 # b3 # ps)) (encode64 (b1 # b2 # b3 # ps)) out =
      decode64 (length (out @ [b1, b2, b3]) + length ps) (encode64 ps) (out @ [b1, b2, b3])"
    by (simp add: Let_def T64_digits six_bits del: push_bit_and push_bit_or drop_bit_and drop_bit_or)
  then show ?case using triple [of "out @ [b1, b2, b3]"] by simp
next
  case (one b1)
  show ?case by (simp add: Let_def T64_digits six_bits_last del: push_bit_and push_bit_or drop_bit_and drop_bit_or)
next
  case (two b1 b2)
  show ?case by (simp add: Let_def T64_digits six_bits_last del: push_bit_and push_bit_or drop_bit_and drop_bit_or)
qed simp

lemma length_encode64: "length (encode64 bs) = 4 * ((length bs + 2) div 3)"
  by (induction bs rule: triple_induct) (simp_all add: Let_def div3)

lemma count_pads_append: "count_pads xs \<noteq> None \<Longrightarrow> count_pads (xs @ ys) = count_pads xs"
  by (induction xs rule: count_pads.induct) auto

lemma pads_encode64:
  "bs \<noteq> [] \<Longrightarrow> count_pads (rev (encode64 bs)) = Some (3 * ((length bs + 2) div 3) - length bs)"
proof (induction bs rule: triple_induct)
  case (triple b1 b2 b3 ps)
  show ?case
  proof (cases "ps = []")
    case True
    then show ?thesis by (simp add: Let_def T64_digits)
  next
    case False
    then show ?thesis using triple by (simp add: Let_def count_pads_append div3)
  qed
qed (simp_all add: Let_def T64_digits del: push_bit_and push_bit_or drop_bit_and drop_bit_or)

lemma base64_length: "(if n mod 3 = 0 then 4 * (n div 3) else 4 * (n div 3 + 1)) = 4 * ((n + 2) div (3 :: nat))"
proof -
  obtain q where q: "n = 3 * q \<or> n = 3 * q + 1 \<or> n = 3 * q + 2"
    using that [of "n div 3"] mult_div_mod_eq [of 3 n] mod_less_divisor [of 3 n] by linarith
  moreover have "(2 + 3 * q) mod 3 = 2" "(1 + 3 * q) mod 3 = 1" "(2 + 3 * q) div 3 = q" "(1 + 3 * q) div 3 = q" "(3 + 3 * q) div 3 = q + 1" "(4 + 3 * q) div 3 = q + 1"
    by (simp_all only: mod_mult_self2 div_mult_self2 zero_neq_numeral not_False_eq_True simp_thms) simp_all
  ultimately show ?thesis by (elim disjE) (simp_all add: add.commute)
qed

lemma base64_round_trip:
  assumes "bs \<noteq> []" and "4 * ((length bs + 2) div 3) \<le> olen" and "length bs \<le> len"
  shows "ByteStreamToBase64 bs olen = (4 * ((length bs + 2) div 3), encode64 bs)"
    "Base64ToByteStream (encode64 bs) len = Some (length bs, bs)"
proof -
  have c: "(if length bs mod 3 = 0 then 4 * (length bs div 3) else 4 * (length bs div 3 + 1))
      = 4 * ((length bs + 2) div 3)"
    by (rule base64_length)
  then show "ByteStreamToBase64 bs olen = (4 * ((length bs + 2) div 3), encode64 bs)"
    using assms(2) by (simp add: ByteStreamToBase64_def Let_def)
  have "length bs \<le> 3 * ((length bs + 2) div 3)" by linarith
  moreover have "encode64 bs \<noteq> []" using assms(1) by (cases bs rule: encode64.cases) (auto simp: Let_def)
  ultimately show "Base64ToByteStream (encode64 bs) len = Some (length bs, bs)"
    using assms pads_encode64 [OF assms(1)] decode_encode64 [of "[]" bs]
    by (simp add: Base64ToByteStream_def Let_def length_encode64)
qed

section \<open>Base32 is inverted\<close>

text \<open>The lowest \<open>n\<close> bits of a word, the highest first.\<close>

definition low_bits :: "nat \<Rightarrow> 'a::len word \<Rightarrow> bool list" where
  "low_bits n w = map (bit w) (rev [0..<n])"

lemma length_low_bits [simp]: "length (low_bits n w) = n"
  by (simp add: low_bits_def)

lemma low_bits_0 [simp]: "low_bits 0 w = []"
  by (simp add: low_bits_def)

lemma nth_low_bits: "i < n \<Longrightarrow> low_bits n w ! i = bit w (n - 1 - i)"
  by (simp add: low_bits_def rev_nth)

lemma low_bits_split: "low_bits (n + m) w = low_bits n (drop_bit m w) @ low_bits m w"
  by (rule nth_equalityI) (auto simp: nth_low_bits nth_append bit_simps add.commute)

lemma low_bits_cong: "(\<And>i. i < n \<Longrightarrow> bit v i = bit w i) \<Longrightarrow> low_bits n v = low_bits n w"
  by (auto simp: low_bits_def)

lemma low_bits_byte_inject: "low_bits 8 a = low_bits 8 (b :: byte) \<Longrightarrow> a = b"
proof (rule bit_word_eqI)
  fix n assume "low_bits 8 a = low_bits 8 b" "n < LENGTH(8)"
  then show "bit a n = bit b n"
    using nth_low_bits [of "7 - n" 8 a] nth_low_bits [of "7 - n" 8 b] by simp
qed

text \<open>The bits pending in \<open>tmp\<close> before and after taking the next byte, respectively the next digit.\<close>

lemma masks: "(0xFF :: 32 word) = mask 8" "(0x1F :: 32 word) = mask 5"
  by (simp_all add: mask_eq_exp_minus_1)

lemma take_byte:
  fixes tmp :: "32 word"
  assumes "bits \<le> 20"
  shows "low_bits (bits + 8) (push_bit 8 tmp OR (ucast (b :: byte) AND 0xFF)) = low_bits bits tmp @ low_bits 8 b"
  unfolding low_bits_split masks
  by (intro arg_cong2 [where f = "(@)"] low_bits_cong)
    (use assms in \<open>auto simp: bit_simps dest: bit_imp_le_length\<close>)

lemma take_digit:
  fixes tmp :: "32 word"
  assumes "bits \<le> 20" "c < 32"
  shows "low_bits (bits + 5) (push_bit 5 tmp OR ucast (c :: byte)) = low_bits bits tmp @ low_bits 5 c"
proof -
  have c: "\<not> bit c (5 + n)" for n
  proof -
    have "unat c < 2 ^ 5" using assms(2) by (simp add: word_less_nat_alt)
    then have "take_bit 5 (unat c) = unat c" by (simp add: take_bit_nat_eq_self)
    then have "take_bit 5 c = c" by (metis unsigned_take_bit_eq word_unat_eq_iff)
    then show ?thesis by (metis bit_take_bit_iff not_add_less1)
  qed
  show ?thesis
    unfolding low_bits_split
    by (intro arg_cong2 [where f = "(@)"] low_bits_cong) (use assms c in \<open>auto simp: bit_simps\<close>)
qed

lemma pad_bits:
  fixes tmp :: "32 word"
  assumes "bits \<le> 5"
  shows "low_bits 5 (push_bit (5 - bits) tmp) = low_bits bits tmp @ replicate (5 - bits) False"
  using assms by (intro nth_equalityI) (auto simp: nth_low_bits nth_append bit_simps)

lemma digit_of_bits:
  fixes tmp :: "32 word"
  shows "low_bits 5 (drop_bit n tmp AND 0x1F) = low_bits 5 (drop_bit n tmp)" "drop_bit n tmp AND 0x1F < 32"
proof -
  show "low_bits 5 (drop_bit n tmp AND 0x1F) = low_bits 5 (drop_bit n tmp)"
    unfolding masks by (intro low_bits_cong) (auto simp: bit_simps)
  have "drop_bit n tmp AND 0x1F = take_bit 5 (drop_bit n tmp)"
    unfolding masks by (simp add: take_bit_eq_mask)
  moreover have "unat (take_bit 5 (drop_bit n tmp)) < 2 ^ 5"
    by (metis take_bit_nat_less_exp unsigned_take_bit_eq)
  ultimately show "drop_bit n tmp AND 0x1F < 32" by (simp add: word_less_nat_alt)
qed

text \<open>A digit and its character.\<close>

definition char_of32 :: "byte \<Rightarrow> byte option" where
  "char_of32 ch = (if of_char (CHR ''2'') \<le> ch \<and> ch \<le> of_char (CHR ''7'') then Some (ch - of_char (CHR ''2'') + 26)
     else if of_char (CHR ''a'') \<le> ch \<and> ch \<le> of_char (CHR ''z'') then Some (ch - of_char (CHR ''a'')) else None)"

lemma char_of_digit32:
  assumes "d < (32 :: 32 word)"
  shows "char_of32 (digit32 d) = Some (ucast d)"
proof -
  have "unat d \<in> set [0..<32]" using assms by (simp add: word_less_nat_alt)
  moreover have "\<forall>n \<in> set [0..<32]. char_of32 (digit32 (word_of_nat n)) = Some (word_of_nat n)"
    by code_simp
  ultimately have "char_of32 (digit32 (word_of_nat (unat d))) = Some (word_of_nat (unat d))" by blast
  then show ?thesis by simp
qed

lemma encode32_bits:
  assumes "bits \<le> 8" and "bits + 8 * length inBuf \<le> 5 * (outLen - length out)"
  shows "\<exists>ds k. encode32 outLen inBuf tmp bits out = out @ map digit32 ds \<and> (\<forall>d \<in> set ds. d < 32) \<and> k < 5 \<and>
    concat (map (low_bits 5) ds) = low_bits bits tmp @ concat (map (low_bits 8) inBuf) @ replicate k False"
  using assms
proof (induction outLen inBuf tmp bits out rule: encode32.induct)
  case (1 outLen inBuf tmp bits out)
  show ?case
  proof (cases "bits = 0 \<and> inBuf = []")
    case True
    then show ?thesis by (intro exI [of _ "[]"] exI [of _ 0]) (simp add: encode32.simps)
  next
    case False
    then have go: "length out < outLen \<and> (bits > 0 \<or> inBuf \<noteq> [])" using "1.prems"(2) by (cases inBuf) auto
    define st where "st = (if bits < 5 then (case inBuf of b # inBuf \<Rightarrow> (inBuf, push_bit 8 tmp OR (ucast b AND 0xFF), bits + 8)
       | [] \<Rightarrow> ([], push_bit (5 - bits) tmp, 5)) else (inBuf, tmp, bits))"
    obtain inBuf' tmp' bits' where st': "st = (inBuf', tmp', bits')" by (cases st)
    have k: "\<exists>k < 5. bits' \<le> 13 \<and> 5 \<le> bits' \<and> (k = 0 \<or> inBuf' = [] \<and> bits' = 5) \<and>
        bits' + 8 * length inBuf' \<le> 5 * (outLen - length out) \<and>
        low_bits bits' tmp' @ concat (map (low_bits 8) inBuf') =
        low_bits bits tmp @ concat (map (low_bits 8) inBuf) @ replicate k False"
    proof (cases "bits < 5")
      case True
      show ?thesis
      proof (cases inBuf)
        case Nil
        then have e: "inBuf' = []" "tmp' = push_bit (5 - bits) tmp" "bits' = 5" using st' True by (auto simp: st_def)
        have "0 < bits" using go Nil by simp
        then show ?thesis
          using True pad_bits [of bits tmp] go unfolding e Nil by (intro exI [of _ "5 - bits"]) auto
      next
        case (Cons b bs)
        then have e: "inBuf' = bs" "tmp' = push_bit 8 tmp OR (ucast b AND 0xFF)" "bits' = bits + 8"
          using st' True by (auto simp: st_def)
        show ?thesis
          using True take_byte [of bits tmp b] "1.prems"(2) Cons unfolding e by (intro exI [of _ 0]) auto
      qed
    next
      case False
      then have "inBuf' = inBuf" "tmp' = tmp" "bits' = bits" using st' by (auto simp: st_def)
      then show ?thesis using False "1.prems" by (intro exI [of _ 0]) auto
    qed
    then obtain k where k: "k < 5" "bits' \<le> 13" "5 \<le> bits'" "k = 0 \<or> inBuf' = [] \<and> bits' = 5"
      "bits' + 8 * length inBuf' \<le> 5 * (outLen - length out)"
      "low_bits bits' tmp' @ concat (map (low_bits 8) inBuf') =
        low_bits bits tmp @ concat (map (low_bits 8) inBuf) @ replicate k False" by blast
    let ?ind = "drop_bit (bits' - 5) tmp' AND 0x1F"
    have rec: "encode32 outLen inBuf tmp bits out = encode32 outLen inBuf' tmp' (bits' - 5) (out @ [digit32 ?ind])"
      using go st' by (subst encode32.simps) (simp add: st_def [symmetric] Let_def)
    have "\<exists>ds k. encode32 outLen inBuf' tmp' (bits' - 5) (out @ [digit32 ?ind]) = (out @ [digit32 ?ind]) @ map digit32 ds \<and>
        (\<forall>d \<in> set ds. d < 32) \<and> k < 5 \<and> concat (map (low_bits 5) ds) =
        low_bits (bits' - 5) tmp' @ concat (map (low_bits 8) inBuf') @ replicate k False"
      by (rule "1.IH" [OF go, of st]) (use st' k in \<open>auto simp: st_def\<close>)
    then obtain ds k' where ds: "encode32 outLen inBuf' tmp' (bits' - 5) (out @ [digit32 ?ind]) = (out @ [digit32 ?ind]) @ map digit32 ds"
      "\<forall>d \<in> set ds. d < 32" "k' < 5"
      "concat (map (low_bits 5) ds) = low_bits (bits' - 5) tmp' @ concat (map (low_bits 8) inBuf') @ replicate k' False" by blast
    have l5: "length (concat (map (low_bits 5) xs)) = 5 * length xs" for xs :: "32 word list" by (induction xs) auto
    have k0: "k' = 0" if "k \<noteq> 0"
    proof -
      have "inBuf' = []" "bits' = 5" using k(4) that by auto
      then have "5 * length ds = k'" using arg_cong [OF ds(4), of length] l5 [of ds] by simp
      then show ?thesis using ds(3) by (cases "length ds") auto
    qed
    have "low_bits 5 ?ind @ low_bits (bits' - 5) tmp' = low_bits bits' tmp'"
      using low_bits_split [of 5 "bits' - 5" tmp'] k(3) digit_of_bits(1) [of "bits' - 5" tmp'] by simp
    then have "concat (map (low_bits 5) (?ind # ds)) =
        low_bits bits tmp @ concat (map (low_bits 8) inBuf) @ replicate (k + k') False"
      using ds(4) k(6) by (simp add: replicate_add) (metis append.assoc)
    moreover have "k + k' < 5" using k(1) k0 ds(3) by (cases "k = 0") auto
    ultimately show ?thesis
      using rec ds(1,2) digit_of_bits(2)
      by (intro exI [of _ "?ind # ds"] exI [of _ "k + k'"]) auto
  qed
qed


lemma decode32_Cons:
  "decode32 outLen (ch # inBuf) tmp bits out = (case char_of32 ch of None \<Rightarrow> (0, out)
     | Some ch \<Rightarrow> (let tmp = tmp OR ucast ch; bits = bits + 5 in
           if bits \<ge> 8 then
             (if length out \<ge> outLen then (length out, out)
              else decode32 outLen inBuf (push_bit 5 tmp) (bits - 8) (out @ [ucast (drop_bit (bits - 8) tmp)]))
           else decode32 outLen inBuf (push_bit 5 tmp) bits out))"
  unfolding char_of32_def by simp

declare decode32.simps(2) [simp del]

lemma length_concat_bits [simp]:
  "length (concat (map (low_bits n) xs)) = n * length xs"
  by (induction xs) auto

lemma concat_bytes_inject:
  assumes "concat (map (low_bits 8) xs) = concat (map (low_bits 8) ys)"
  shows "xs = (ys :: bytes)"
proof -
  have "length xs = length ys" using arg_cong [OF assms, of length] by simp
  then show ?thesis using assms
    by (induction xs ys rule: list_induct2) (auto dest: low_bits_byte_inject)
qed

lemma decode32_bits:
  assumes "\<forall>d \<in> set ds. d < (32 :: 32 word)" and "bits < 8"
    and "concat (map (low_bits 8) out) @ low_bits bits t @ concat (map (low_bits 5) ds) =
      concat (map (low_bits 8) bs) @ replicate k False"
    and "k < 8" and "length bs \<le> outLen"
  shows "decode32 outLen (map digit32 ds) (push_bit 5 t) bits out = (length bs, bs)"
  using assms
proof (induction ds arbitrary: t bits out)
  case Nil
  have "length (concat (map (low_bits 8) out) @ low_bits bits t) = length (concat (map (low_bits 8) bs) @ replicate k False)"
    using arg_cong [OF Nil.prems(3), of length] by simp
  then have "8 * length out + bits = 8 * length bs + k" by simp
  then have "length out = length bs" using Nil.prems(2,4) by presburger
  then have "concat (map (low_bits 8) out) = concat (map (low_bits 8) bs)" using Nil.prems(3) by simp
  then have "out = bs" by (rule concat_bytes_inject)
  then show ?case by simp
next
  case (Cons d ds)
  have d: "d < 32" using Cons.prems(1) by simp
  let ?c = "ucast d :: byte" and ?t = "push_bit 5 t OR ucast (ucast d :: byte)"
  have uc: "unat ?c = unat d" using d by (simp add: unsigned_ucast_eq word_less_nat_alt take_bit_nat_eq_self)
  then have c: "?c < 32" using d by (simp add: word_less_nat_alt)
  have cd: "low_bits 5 ?c = low_bits 5 d" by (rule low_bits_cong) (auto simp: bit_simps)
  have t: "low_bits (bits + 5) ?t = low_bits bits t @ low_bits 5 d"
    using take_digit [of bits ?c t] c cd Cons.prems(2) by simp
  show ?case
  proof (cases "8 \<le> bits + 5")
    case True
    let ?b = "ucast (drop_bit (bits - 3) ?t) :: byte"
    have b: "low_bits 8 ?b = low_bits 8 (drop_bit (bits - 3) ?t)" by (rule low_bits_cong) (auto simp: bit_simps)
    have e: "8 + (bits - 3) = bits + 5" using True by simp
    have sp: "low_bits (bits + 5) ?t = low_bits 8 ?b @ low_bits (bits - 3) ?t"
      using low_bits_split [of 8 "bits - 3" ?t] unfolding e b .
    have eq: "concat (map (low_bits 8) (out @ [?b])) @ low_bits (bits - 3) ?t @ concat (map (low_bits 5) ds) =
        concat (map (low_bits 8) bs) @ replicate k False"
    proof -
      have "concat (map (low_bits 8) (out @ [?b])) @ low_bits (bits - 3) ?t @ concat (map (low_bits 5) ds) =
          concat (map (low_bits 8) out) @ (low_bits 8 ?b @ low_bits (bits - 3) ?t) @ concat (map (low_bits 5) ds)"
        by (simp only: map_append concat_append append_assoc list.map concat.simps append_Nil2)
      also have "\<dots> = concat (map (low_bits 8) out) @ (low_bits bits t @ low_bits 5 d) @ concat (map (low_bits 5) ds)"
        by (simp only: sp [symmetric] t)
      finally have e2: "concat (map (low_bits 8) (out @ [?b])) @ low_bits (bits - 3) ?t @ concat (map (low_bits 5) ds) =
          concat (map (low_bits 8) out) @ (low_bits bits t @ low_bits 5 d) @ concat (map (low_bits 5) ds)" .
      show ?thesis unfolding e2 using Cons.prems(3) by simp
    qed
    have "8 * (length out + 1) + (bits - 3) + 5 * length ds = 8 * length bs + k"
      using arg_cong [OF eq, of length] by simp
    then have "8 * length out + 8 \<le> 8 * length bs + k" by simp
    then have "length out < outLen" using Cons.prems(4,5) by presburger
    then have "decode32 outLen (map digit32 (d # ds)) (push_bit 5 t) bits out =
        decode32 outLen (map digit32 ds) (push_bit 5 ?t) (bits - 3) (out @ [?b])"
      using True by (simp add: decode32_Cons char_of_digit32 [OF d] Let_def)
    then show ?thesis using Cons.IH [OF _ _ eq] Cons.prems by simp
  next
    case False
    have eq: "concat (map (low_bits 8) out) @ low_bits (bits + 5) ?t @ concat (map (low_bits 5) ds) =
        concat (map (low_bits 8) bs) @ replicate k False"
      using Cons.prems(3) t by simp
    have "decode32 outLen (map digit32 (d # ds)) (push_bit 5 t) bits out =
        decode32 outLen (map digit32 ds) (push_bit 5 ?t) (bits + 5) out"
      using False by (simp add: decode32_Cons char_of_digit32 [OF d] Let_def)
    then show ?thesis using Cons.IH [OF _ _ eq] Cons.prems False by simp
  qed
qed

lemma base32_round_trip:
  assumes "bs \<noteq> []" and "8 * length bs \<le> 5 * olen" and "length bs \<le> len"
  obtains s where "ByteStreamToBase32 bs olen = (length s, s)" "Base32ToByteStream s len = (length bs, bs)"
proof -
  obtain b rest where bs: "bs = b # rest" using assms(1) by (cases bs) auto
  let ?s = "encode32 olen rest (ucast b) 8 []"
  obtain ds k where ds: "?s = map digit32 ds" "\<forall>d \<in> set ds. d < 32" "k < 5"
    "concat (map (low_bits 5) ds) = low_bits 8 (ucast b :: 32 word) @ concat (map (low_bits 8) rest) @ replicate k False"
    using encode32_bits [of 8 rest olen "[]" "ucast b"] assms(2) bs by auto
  have "low_bits 8 (ucast b :: 32 word) = low_bits 8 b"
    by (rule low_bits_cong) (auto simp: bit_simps)
  then have "decode32 len (map digit32 ds) (push_bit 5 0) 0 [] = (length bs, bs)"
    by (intro decode32_bits [of _ _ _ _ _ k]) (use ds assms(3) bs in auto)
  then have "Base32ToByteStream ?s len = (length bs, bs)" by (simp add: Base32ToByteStream_def ds(1))
  moreover have "ByteStreamToBase32 bs olen = (length ?s, ?s)" by (simp add: ByteStreamToBase32_def bs Let_def)
  ultimately show thesis by (rule that [rotated])
qed

section \<open>The encodings are codecs\<close>

text \<open>Each with buffers of exactly the size that is needed.\<close>

definition base64_of :: "bytes \<Rightarrow> bytes" where
  "base64_of bs = snd (ByteStreamToBase64 bs (4 * ((length bs + 2) div 3)))"

definition base64_to :: "nat \<Rightarrow> bytes \<Rightarrow> bytes option" where
  "base64_to len s = map_option snd (Base64ToByteStream s len)"

definition base32_of :: "bytes \<Rightarrow> bytes" where
  "base32_of bs = snd (ByteStreamToBase32 bs (2 * length bs))"

definition base32_to :: "nat \<Rightarrow> bytes \<Rightarrow> bytes option" where
  "base32_to len s = Some (snd (Base32ToByteStream s len))"

interpretation base64: codec "\<lambda>(len, bs). (len, base64_of bs)" "\<lambda>(len, s). map_option (Pair len) (base64_to len s)"
  "\<lambda>(len, bs). bs \<noteq> [] \<and> length bs \<le> len"
proof unfold_locales
  fix x :: "nat \<times> bytes" assume "case x of (len, bs) \<Rightarrow> bs \<noteq> [] \<and> length bs \<le> len"
  then obtain len bs where x: "x = (len, bs)" "bs \<noteq> []" "length bs \<le> len" by (cases x) auto
  show "(case (case x of (len, bs) \<Rightarrow> (len, base64_of bs)) of (len, s) \<Rightarrow> map_option (Pair len) (base64_to len s)) = Some x"
    using base64_round_trip [OF x(2) _ x(3), of "4 * ((length bs + 2) div 3)"]
    by (simp add: x(1) base64_of_def base64_to_def)
qed

interpretation base32: codec "\<lambda>(len, bs). (len, base32_of bs)" "\<lambda>(len, s). map_option (Pair len) (base32_to len s)"
  "\<lambda>(len, bs). bs \<noteq> [] \<and> length bs \<le> len"
proof unfold_locales
  fix x :: "nat \<times> bytes" assume "case x of (len, bs) \<Rightarrow> bs \<noteq> [] \<and> length bs \<le> len"
  then obtain len bs where x: "x = (len, bs)" "bs \<noteq> []" "length bs \<le> len" by (cases x) auto
  obtain s where "ByteStreamToBase32 bs (2 * length bs) = (length s, s)" "Base32ToByteStream s len = (length bs, bs)"
    using base32_round_trip [OF x(2) _ x(3), of "2 * length bs"] by auto
  then show "(case (case x of (len, bs) \<Rightarrow> (len, base32_of bs)) of (len, s) \<Rightarrow> map_option (Pair len) (base32_to len s)) = Some x"
    by (simp add: x(1) base32_of_def base32_to_def)
qed

section \<open>Properties\<close>



text \<open>
  C22: the Base32 decoder returns exactly the bytes that were encoded, for every non-empty input and
  every buffer that is large enough.
\<close>

theorem Base32_round_trip:
  assumes "bs \<noteq> []" and "8 * length bs \<le> 5 * olen" and "length bs \<le> len"
  shows "\<exists>s. ByteStreamToBase32 bs olen = (length s, s) \<and> Base32ToByteStream s len = (length bs, bs)"
  using base32_round_trip [OF assms] by blast

theorem Base32_round_trip_witness:
  "\<exists>s. ByteStreamToBase32 (replicate 32 200) 52 = (length s, s) \<and> Base32ToByteStream s 32 = (32, replicate 32 200)"
  by (rule Base32_round_trip [of "replicate 32 200" 52 32, unfolded length_replicate]) simp_all

text \<open>
  C23: the Base64 decoder does not stay inside its buffer: the four characters \<open>A===\<close> announce no
  byte at all and one is written; and input of padding only makes it read in front of its input.
\<close>

theorem Base64ToByteStream_pads:
  "Base64ToByteStream (map of_char ''A==='') 0 = None \<and> Base64ToByteStream (replicate (4 * n) P64) len =
     (if n = 0 then Some (0, []) else None)"
proof -
  have "count_pads (replicate m P64) = None" for m by (induction m) auto
  then have "Base64ToByteStream (replicate (4 * n) P64) len = (if n = 0 then Some (0, []) else None)"
    by (simp add: Base64ToByteStream_def Let_def)
  moreover have "count_pads (rev (map of_char ''A===''))= Some 3"
    by (simp add: P64_def of_char_def)
  then have "Base64ToByteStream (map of_char ''A==='') 0 = None"
    by (simp add: Base64ToByteStream_def Let_def)
  ultimately show ?thesis by blast
qed

end
