(* ===== verification/Core_Identity.thy ===== *)
theory Core_Identity
  imports Util_Base64 Util_Endian "HOL-Library.List_Lexorder"
begin

text \<open>
  \<open>src/core/Identity.h\<close>, \<open>Identity.cpp\<close> and the sizes of \<open>crypto/Signature.h\<close>, \<open>EdDSA25519.h\<close>:
  identities with their certificate, the signing key inside them, private keys, the XOR metric.

  \<open>m_ExtendedBuffer\<close> is a pointer that \<open>FromBuffer\<close> deletes before it knows whether it will set it
  again, so it has three values: null, a buffer, and a buffer that has been deleted. Using or
  deleting a deleted buffer is undefined behaviour, the value \<^term>\<open>None\<close>. SHA-256 and the
  signature schemes are parameters; \<open>m_Verifier\<close> is a cache, and the functions that fill it return
  the identity.
\<close>

named_theorems identity_defs \<open>sizes and field accessors of identities\<close>

section \<open>Signature schemes\<close>

datatype sig_kind = DSA | ECDSAP256 | ECDSAP384 | ECDSAP521 | RSA2048 | RSA3072 | RSA4096 | EDDSA25519

fun public_key_len :: "sig_kind \<Rightarrow> nat" where
  "public_key_len DSA = 128"
| "public_key_len ECDSAP256 = 64"
| "public_key_len ECDSAP384 = 96"
| "public_key_len ECDSAP521 = 132"
| "public_key_len RSA2048 = 256"
| "public_key_len RSA3072 = 384"
| "public_key_len RSA4096 = 512"
| "public_key_len EDDSA25519 = 32"

fun signature_len :: "sig_kind \<Rightarrow> nat" where
  "signature_len DSA = 40"
| "signature_len EDDSA25519 = 64"
| "signature_len k = public_key_len k"

fun private_key_len :: "sig_kind \<Rightarrow> nat" where
  "private_key_len RSA2048 = signature_len RSA2048 * 2"
| "private_key_len RSA3072 = signature_len RSA3072 * 2"
| "private_key_len RSA4096 = signature_len RSA4096 * 2"
| "private_key_len k = signature_len k div 2"

definition kind_of_type :: "16 word \<Rightarrow> sig_kind option" where
  "kind_of_type t =
     (if t = 0 then Some DSA else if t = 1 then Some ECDSAP256 else if t = 2 then Some ECDSAP384
      else if t = 3 then Some ECDSAP521 else if t = 4 then Some RSA2048 else if t = 5 then Some RSA3072
      else if t = 6 then Some RSA4096 else if t = 7 then Some EDDSA25519 else None)"

record verifier =
  v_kind :: sig_kind
  v_key :: bytes

text \<open>What the signature classes compute: kind, private or public key, message, signature.\<close>

record sig_env =
  sig_verify :: "sig_kind \<Rightarrow> bytes \<Rightarrow> bytes \<Rightarrow> bytes \<Rightarrow> bool"
  sig_sign :: "sig_kind \<Rightarrow> bytes \<Rightarrow> bytes \<Rightarrow> bytes"

section \<open>Identity\<close>

record identity =
  id_publicKey :: bytes
  id_signingKey :: bytes
  id_cert_type :: byte
  id_cert_length :: bytes

definition DEFAULT_IDENTITY_SIZE :: nat where [identity_defs]: "DEFAULT_IDENTITY_SIZE = 387"
definition CERTIFICATE_TYPE_NULL :: byte where [identity_defs]: "CERTIFICATE_TYPE_NULL = 0"
definition CERTIFICATE_TYPE_KEY :: byte where [identity_defs]: "CERTIFICATE_TYPE_KEY = 5"
definition CRYPTO_KEY_TYPE_ELGAMAL :: "16 word" where [identity_defs]: "CRYPTO_KEY_TYPE_ELGAMAL = 0"
definition SIGNING_KEY_TYPE_DSA_SHA1 :: "16 word" where [identity_defs]: "SIGNING_KEY_TYPE_DSA_SHA1 = 0"

text \<open>The packed struct as it lies in memory.\<close>

definition identity_bytes :: "identity \<Rightarrow> bytes" where
  "identity_bytes i = id_publicKey i @ id_signingKey i @ [id_cert_type i] @ id_cert_length i"

definition identity_of_bytes :: "bytes \<Rightarrow> identity" where
  "identity_of_bytes b = \<lparr>id_publicKey = take 256 b, id_signingKey = take 128 (drop 256 b),
     id_cert_type = b ! 384, id_cert_length = take 2 (drop 385 b)\<rparr>"

definition identity_ok :: "identity \<Rightarrow> bool" where
  "identity_ok i \<longleftrightarrow> length (id_publicKey i) = 256 \<and> length (id_signingKey i) = 128 \<and> length (id_cert_length i) = 2"

definition Identity_FromBuffer :: "bytes \<Rightarrow> (identity \<times> nat) option" where
  "Identity_FromBuffer buf = do {
     b \<leftarrow> mem_read buf 0 DEFAULT_IDENTITY_SIZE;
     Some (identity_of_bytes b, DEFAULT_IDENTITY_SIZE) }"

definition Identity_Hash :: "(bytes \<Rightarrow> bytes) \<Rightarrow> identity \<Rightarrow> bytes" where
  "Identity_Hash sha i = sha (identity_bytes i)"

record Keys =
  keys_privateKey :: bytes
  keys_signingPrivateKey :: bytes
  keys_publicKey :: bytes
  keys_signingKey :: bytes

definition Identity_of_keys :: "Keys \<Rightarrow> identity" where
  "Identity_of_keys keys = \<lparr>id_publicKey = keys_publicKey keys, id_signingKey = keys_signingKey keys,
     id_cert_type = 0, id_cert_length = [0, 0]\<rparr>"

section \<open>IdentityEx\<close>

datatype ext_buffer = NoBuffer | Buffer bytes | Freed

record IdentityEx =
  ix_standard :: identity
  ix_hash :: bytes
  ix_verifier :: "verifier option"
  ix_ext_len :: nat
  ix_ext :: ext_buffer

text \<open>\<open>delete[] m_ExtendedBuffer\<close>: the pointer keeps its value.\<close>

fun delete_ext :: "ext_buffer \<Rightarrow> ext_buffer option" where
  "delete_ext NoBuffer = Some NoBuffer"
| "delete_ext (Buffer b) = Some Freed"
| "delete_ext Freed = None"

fun read_ext :: "ext_buffer \<Rightarrow> nat \<Rightarrow> nat \<Rightarrow> bytes option" where
  "read_ext (Buffer b) off n = mem_read b off n"
| "read_ext _ off n = None"

definition GetFullLen :: "IdentityEx \<Rightarrow> nat" where [identity_defs]:
  "GetFullLen ix = ix_ext_len ix + DEFAULT_IDENTITY_SIZE"

definition IdentityEx_ToBuffer :: "IdentityEx \<Rightarrow> bytes \<Rightarrow> nat \<Rightarrow> (bytes \<times> nat) option" where
  "IdentityEx_ToBuffer ix buf off = do {
     buf \<leftarrow> mem_write buf off (identity_bytes (ix_standard ix));
     (if ix_ext_len ix > 0 \<and> ix_ext ix \<noteq> NoBuffer then do {
        e \<leftarrow> read_ext (ix_ext ix) 0 (ix_ext_len ix);
        buf \<leftarrow> mem_write buf (off + DEFAULT_IDENTITY_SIZE) e;
        Some (buf, GetFullLen ix) }
      else Some (buf, GetFullLen ix)) }"

definition IdentityEx_FromBuffer :: "(bytes \<Rightarrow> bytes) \<Rightarrow> IdentityEx \<Rightarrow> bytes \<Rightarrow> nat \<Rightarrow> (IdentityEx \<times> nat) option" where
  "IdentityEx_FromBuffer sha ix buf len =
     (if len < DEFAULT_IDENTITY_SIZE then Some (ix, 0)
      else do {
        raw \<leftarrow> mem_read buf 0 DEFAULT_IDENTITY_SIZE;
        ext \<leftarrow> delete_ext (ix_ext ix);
        let ix = ix\<lparr>ix_standard := identity_of_bytes raw, ix_ext := ext\<rparr>;
        certlen \<leftarrow> bufbe16toh (id_cert_length (ix_standard ix)) 0;
        (if certlen \<noteq> 0 \<and> \<not> (unat certlen + DEFAULT_IDENTITY_SIZE \<le> len)
         then Some (ix\<lparr>ix_ext_len := unat certlen\<rparr>, 0)
         else do {
           ix \<leftarrow> (if certlen \<noteq> 0 then do {
                    e \<leftarrow> mem_read buf DEFAULT_IDENTITY_SIZE (unat certlen);
                    Some (ix\<lparr>ix_ext_len := unat certlen, ix_ext := Buffer e\<rparr>) }
                  else Some (ix\<lparr>ix_ext_len := 0, ix_ext := NoBuffer\<rparr>));
           whole \<leftarrow> mem_read buf 0 (GetFullLen ix);
           Some (ix\<lparr>ix_hash := sha whole, ix_verifier := None\<rparr>, GetFullLen ix) }) })"

text \<open>Copying; the copied-to object's buffer is deleted first.\<close>

definition IdentityEx_assign :: "IdentityEx \<Rightarrow> IdentityEx \<Rightarrow> IdentityEx option" where
  "IdentityEx_assign ix other = do {
     ext \<leftarrow> delete_ext (ix_ext ix);
     e \<leftarrow> (if ix_ext_len other > 0 then map_option Buffer (read_ext (ix_ext other) 0 (ix_ext_len other))
           else Some NoBuffer);
     Some \<lparr>ix_standard = ix_standard other, ix_hash = ix_hash other, ix_verifier = None,
       ix_ext_len = ix_ext_len other, ix_ext = e\<rparr> }"

definition IdentityEx_assign_standard :: "(bytes \<Rightarrow> bytes) \<Rightarrow> IdentityEx \<Rightarrow> identity \<Rightarrow> IdentityEx option" where
  "IdentityEx_assign_standard sha ix standard = do {
     ext \<leftarrow> delete_ext (ix_ext ix);
     Some \<lparr>ix_standard = standard, ix_hash = Identity_Hash sha standard, ix_verifier = None,
       ix_ext_len = 0, ix_ext = NoBuffer\<rparr> }"

definition GetSigningKeyType :: "IdentityEx \<Rightarrow> (16 word) option" where
  "GetSigningKeyType ix =
     (if id_cert_type (ix_standard ix) = CERTIFICATE_TYPE_KEY \<and> ix_ext ix \<noteq> NoBuffer
      then do { b \<leftarrow> read_ext (ix_ext ix) 0 2; bufbe16toh b 0 }
      else Some SIGNING_KEY_TYPE_DSA_SHA1)"

definition GetCryptoKeyType :: "IdentityEx \<Rightarrow> (16 word) option" where
  "GetCryptoKeyType ix =
     (if id_cert_type (ix_standard ix) = CERTIFICATE_TYPE_KEY \<and> ix_ext ix \<noteq> NoBuffer
      then do { b \<leftarrow> read_ext (ix_ext ix) 2 2; bufbe16toh b 0 }
      else Some CRYPTO_KEY_TYPE_ELGAMAL)"

text \<open>
  A key of up to 128 bytes lies at the end of \<open>signingKey\<close>; of a longer one \<open>signingKey\<close> holds the
  first 128 bytes and the extended buffer, behind the two types, the rest.
\<close>

definition CreateVerifier :: "IdentityEx \<Rightarrow> verifier option option" where
  "CreateVerifier ix = do {
     keyType \<leftarrow> GetSigningKeyType ix;
     (case kind_of_type keyType of
        None \<Rightarrow> Some None
      | Some k \<Rightarrow>
          (if public_key_len k \<le> 128 then
             let padding = 128 - public_key_len k in
             Some (Some \<lparr>v_kind = k, v_key = drop padding (id_signingKey (ix_standard ix))\<rparr>)
           else do {
             let excessLen = public_key_len k - 128;
             excess \<leftarrow> read_ext (ix_ext ix) 4 excessLen;
             Some (Some \<lparr>v_kind = k, v_key = id_signingKey (ix_standard ix) @ excess\<rparr>) })) }"

definition lazy_verifier :: "IdentityEx \<Rightarrow> IdentityEx option" where
  "lazy_verifier ix = (case ix_verifier ix of
       Some v \<Rightarrow> Some ix
     | None \<Rightarrow> map_option (\<lambda>v. ix\<lparr>ix_verifier := v\<rparr>) (CreateVerifier ix))"

definition GetSigningPublicKeyLen :: "IdentityEx \<Rightarrow> (IdentityEx \<times> nat) option" where
  "GetSigningPublicKeyLen ix = do {
     ix \<leftarrow> lazy_verifier ix;
     Some (ix, case ix_verifier ix of Some v \<Rightarrow> public_key_len (v_kind v) | None \<Rightarrow> 128) }"

definition GetSignatureLen :: "IdentityEx \<Rightarrow> (IdentityEx \<times> nat) option" where
  "GetSignatureLen ix = do {
     ix \<leftarrow> lazy_verifier ix;
     Some (ix, case ix_verifier ix of Some v \<Rightarrow> signature_len (v_kind v) | None \<Rightarrow> 40) }"

definition GetSigningPrivateKeyLen :: "IdentityEx \<Rightarrow> (IdentityEx \<times> nat) option" where
  "GetSigningPrivateKeyLen ix = do {
     ix \<leftarrow> lazy_verifier ix;
     (case ix_verifier ix of
        Some v \<Rightarrow> Some (ix, private_key_len (v_kind v))
      | None \<Rightarrow> map_option (\<lambda>(ix, n). (ix, n div 2)) (GetSignatureLen ix)) }"

definition IdentityEx_Verify :: "sig_env \<Rightarrow> IdentityEx \<Rightarrow> bytes \<Rightarrow> bytes \<Rightarrow> (IdentityEx \<times> bool) option" where
  "IdentityEx_Verify env ix msg signature = do {
     ix \<leftarrow> lazy_verifier ix;
     Some (ix, case ix_verifier ix of
         Some v \<Rightarrow> sig_verify env (v_kind v) (v_key v) msg signature
       | None \<Rightarrow> False) }"

definition DropVerifier :: "IdentityEx \<Rightarrow> IdentityEx" where
  "DropVerifier ix = ix\<lparr>ix_verifier := None\<rparr>"

text \<open>
  The constructor from keys. \<open>rnd\<close> is the random padding. With an unsupported type it leaves
  \<open>signingKey\<close> and \<open>m_Verifier\<close> uninitialised, which is \<^term>\<open>None\<close>.
\<close>

definition IdentityEx_new :: "(bytes \<Rightarrow> bytes) \<Rightarrow> (nat \<Rightarrow> bytes) \<Rightarrow> bytes \<Rightarrow> bytes \<Rightarrow> 16 word \<Rightarrow> IdentityEx option" where
  "IdentityEx_new sha rnd publicKey signingKey type =
     (if type \<noteq> SIGNING_KEY_TYPE_DSA_SHA1 then do {
        k \<leftarrow> kind_of_type type;
        let excessLen = public_key_len k - 128;
        let key = (if public_key_len k \<le> 128
                   then let padding = 128 - public_key_len k in rnd padding @ take (public_key_len k) signingKey
                   else take 128 signingKey);
        let excess = take excessLen (drop 128 signingKey);
        let m_ExtendedLen = 4 + excessLen;
        let ext = be_bytes 2 (unat type) @ be_bytes 2 (unat CRYPTO_KEY_TYPE_ELGAMAL) @ excess;
        let ix = \<lparr>ix_standard = \<lparr>id_publicKey = publicKey, id_signingKey = key,
                   id_cert_type = CERTIFICATE_TYPE_KEY, id_cert_length = be_bytes 2 m_ExtendedLen\<rparr>,
                  ix_hash = [], ix_verifier = None, ix_ext_len = m_ExtendedLen, ix_ext = Buffer ext\<rparr>;
        (buf, n) \<leftarrow> IdentityEx_ToBuffer ix (replicate (GetFullLen ix) 0) 0;
        lazy_verifier (ix\<lparr>ix_hash := sha buf\<rparr>) }
      else
        let standard = \<lparr>id_publicKey = publicKey, id_signingKey = signingKey,
              id_cert_type = CERTIFICATE_TYPE_NULL, id_cert_length = [0, 0]\<rparr> in
        lazy_verifier \<lparr>ix_standard = standard, ix_hash = Identity_Hash sha standard, ix_verifier = None,
          ix_ext_len = 0, ix_ext = NoBuffer\<rparr>)"

definition IdentityEx_ToBase64 :: "IdentityEx \<Rightarrow> bytes option" where
  "IdentityEx_ToBase64 ix = do {
     (buf, l) \<leftarrow> IdentityEx_ToBuffer ix (replicate 1024 0) 0;
     b \<leftarrow> mem_read buf 0 l;
     Some (snd (ByteStreamToBase64 b 1536)) }"

definition IdentityEx_FromBase64 :: "(bytes \<Rightarrow> bytes) \<Rightarrow> IdentityEx \<Rightarrow> bytes \<Rightarrow> (IdentityEx \<times> nat) option" where
  "IdentityEx_FromBase64 sha ix s = do {
     (len, out) \<leftarrow> Base64ToByteStream s 1024;
     IdentityEx_FromBuffer sha ix (out @ replicate (1024 - length out) 0) len }"


section \<open>Well-formed identities\<close>

fun ext_bytes :: "ext_buffer \<Rightarrow> bytes" where
  "ext_bytes (Buffer b) = b"
| "ext_bytes _ = []"

definition ix_ok :: "IdentityEx \<Rightarrow> bool" where
  "ix_ok ix \<longleftrightarrow> identity_ok (ix_standard ix) \<and> ix_ext ix \<noteq> Freed \<and> length (ext_bytes (ix_ext ix)) = ix_ext_len ix \<and>
     be_val (id_cert_length (ix_standard ix)) = ix_ext_len ix \<and> (ix_ext ix = NoBuffer \<longleftrightarrow> ix_ext_len ix = 0)"

definition ix_bytes :: "IdentityEx \<Rightarrow> bytes" where
  "ix_bytes ix = identity_bytes (ix_standard ix) @ ext_bytes (ix_ext ix)"

lemma length_identity_bytes [simp]: "identity_ok i \<Longrightarrow> length (identity_bytes i) = 387"
  by (simp add: identity_ok_def identity_bytes_def)

lemma identity_of_bytes_inverse [simp]: "identity_ok i \<Longrightarrow> identity_of_bytes (identity_bytes i) = i"
  by (cases i) (simp add: identity_ok_def identity_bytes_def identity_of_bytes_def nth_append)

lemma identity_ok_of_bytes: "length b = 387 \<Longrightarrow> identity_ok (identity_of_bytes b)"
  by (simp add: identity_ok_def identity_of_bytes_def)

lemma identity_bytes_of_bytes:
  assumes "length b = 387"
  shows "identity_bytes (identity_of_bytes b) = b"
proof -
  have s: "drop n b = take k (drop n b) @ drop (n + k) b" for n k
    by (metis append_take_drop_id drop_drop add.commute)
  have "take 1 (drop 384 b) = [b ! 384]" using assms by (simp add: take_Suc_conv_app_nth)
  moreover have "take 2 (drop 385 b) = drop 385 b" using assms by simp
  ultimately have "drop 256 b = take 128 (drop 256 b) @ [b ! 384] @ take 2 (drop 385 b)"
    using s [of 256 128] s [of 384 1] by simp
  then show ?thesis
    by (simp add: identity_bytes_def identity_of_bytes_def)
qed

lemma length_ix_bytes: "ix_ok ix \<Longrightarrow> length (ix_bytes ix) = GetFullLen ix"
  by (simp add: ix_ok_def ix_bytes_def identity_defs)

lemma mem_read_append [simp]: "n = length a \<Longrightarrow> mem_read (a @ b) 0 n = Some a"
  by (simp add: mem_read_def)

lemma mem_read_append2 [simp]: "off = length a \<Longrightarrow> mem_read (a @ b) off n = mem_read b 0 n"
  by (simp add: mem_read_def)

lemma IdentityEx_ToBuffer_eq:
  assumes "ix_ok ix" and "off + GetFullLen ix \<le> length buf"
  shows "IdentityEx_ToBuffer ix buf off = Some (patch buf off (ix_bytes ix), GetFullLen ix)"
proof (cases "ix_ext ix")
  case NoBuffer
  then show ?thesis using assms
    by (simp add: IdentityEx_ToBuffer_def ix_ok_def ix_bytes_def identity_defs mem_write_patch)
next
  case (Buffer b)
  then have l: "length b = ix_ext_len ix" "ix_ext_len ix > 0" using assms(1) by (auto simp: ix_ok_def)
  have "patch (patch buf off (identity_bytes (ix_standard ix))) (off + 387) b = patch buf off (ix_bytes ix)"
    unfolding ix_bytes_def Buffer ext_bytes.simps
    by (rule patch_patch) (use assms l in \<open>auto simp: ix_ok_def identity_defs\<close>)
  then show ?thesis using assms l Buffer
    by (simp add: IdentityEx_ToBuffer_def ix_ok_def identity_defs mem_write_patch mem_read_def)
next
  case Freed
  then show ?thesis using assms by (simp add: ix_ok_def)
qed

lemma delete_ext_ok: "e \<noteq> Freed \<Longrightarrow> \<exists>e'. delete_ext e = Some e'"
  by (cases e) auto

lemma IdentityEx_FromBuffer_eq:
  assumes "ix_ok ix" and "ix_ext ix0 \<noteq> Freed" and "GetFullLen ix \<le> len"
  shows "IdentityEx_FromBuffer sha ix0 (ix_bytes ix @ rest) len =
     Some (ix\<lparr>ix_hash := sha (ix_bytes ix), ix_verifier := None\<rparr>, GetFullLen ix)"
proof -
  let ?i = "ix_standard ix"
  have i: "identity_ok ?i" "length (identity_bytes ?i) = 387" using assms(1) by (simp_all add: ix_ok_def)
  obtain e where e: "delete_ext (ix_ext ix0) = Some e" using delete_ext_ok [OF assms(2)] by blast
  have c: "bufbe16toh (id_cert_length ?i) 0 = Some (word_of_nat (ix_ext_len ix))"
    using assms(1) i(1) by (simp add: bufbe16toh_be_val mem_read_def ix_ok_def identity_ok_def)
  have b: "ix_ext_len ix < 65536"
    using assms(1) be_val_bound [of "id_cert_length ?i"] by (simp add: ix_ok_def identity_ok_def)
  then have u: "unat (word_of_nat (ix_ext_len ix) :: 16 word) = ix_ext_len ix" by (simp add: unat_of_nat)
  have z: "(word_of_nat (ix_ext_len ix) :: 16 word) = 0 \<longleftrightarrow> ix_ext_len ix = 0"
    using u by (metis unat_0 unat_eq_zero)
  have r: "mem_read (ix_bytes ix @ rest) 0 387 = Some (identity_bytes ?i)"
    using i by (simp add: ix_bytes_def)
  have w: "mem_read (ix_bytes ix @ rest) 0 (GetFullLen ix) = Some (ix_bytes ix)"
    using length_ix_bytes [OF assms(1)] by simp
  have x: "mem_read (ix_bytes ix @ rest) 387 (ix_ext_len ix) = Some (ext_bytes (ix_ext ix))"
    using i assms(1) by (simp add: ix_bytes_def ix_ok_def)
  have h: "\<not> len < 387" "ix_ext_len ix + 387 \<le> len" using assms(3) by (simp_all add: identity_defs)
  show ?thesis
  proof (cases "ix_ext_len ix = 0")
    case True
    then have n: "ix_ext ix = NoBuffer" using assms(1) by (simp add: ix_ok_def)
    show ?thesis using r e c z True h w n i(1) identity_of_bytes_inverse [OF i(1)]
      by (simp add: IdentityEx_FromBuffer_def identity_defs)
  next
    case False
    then obtain ext where n: "ix_ext ix = Buffer ext" using assms(1) by (cases "ix_ext ix") (auto simp: ix_ok_def)
    show ?thesis using r e c z False h w n i(1) x u
      by (simp add: IdentityEx_FromBuffer_def identity_defs)
  qed
qed


text \<open>The type that was written is the type that is read, and the key is found where it was put.\<close>

lemma be_val_be_bytes_2 [simp]: "n < 65536 \<Longrightarrow> be_val (be_bytes 2 n) = n"
  by (simp add: be_val_be_bytes)

definition ix_key_part :: "(nat \<Rightarrow> bytes) \<Rightarrow> sig_kind \<Rightarrow> bytes \<Rightarrow> bytes" where
  "ix_key_part rnd k signingKey = (if public_key_len k \<le> 128
     then rnd (128 - public_key_len k) @ signingKey else take 128 signingKey)"

lemma kind_of_type_DSA: "kind_of_type t = Some DSA \<longleftrightarrow> t = 0"
  by (simp add: kind_of_type_def)

lemma CreateVerifier_key:
  assumes "ix_ok ix" and "kind_of_type t = Some k" and "t \<noteq> 0"
    and "id_cert_type (ix_standard ix) = CERTIFICATE_TYPE_KEY"
    and "ix_ext ix = Buffer (be_bytes 2 (unat t) @ be_bytes 2 0 @ drop 128 key)"
    and "id_signingKey (ix_standard ix) = ix_key_part rnd k key"
    and "length key = public_key_len k" and "\<And>n. length (rnd n) = n"
  shows "CreateVerifier ix = Some (Some \<lparr>v_kind = k, v_key = key\<rparr>)"
proof -
  have "be_val (be_bytes 2 (unat t)) = unat t" by (rule be_val_be_bytes_2) (use unsigned_less [of t] in simp)
  then have ty: "GetSigningKeyType ix = Some t"
    using assms(4,5) by (simp add: GetSigningKeyType_def bufbe16toh_be_val mem_read_def)
  have "mem_read (be_bytes 2 (unat t) @ be_bytes 2 0 @ drop 128 key) 4 (public_key_len k - 128) = Some (drop 128 key)"
    using assms(7) by (auto simp: mem_read_def)
  then show ?thesis
    using assms(2,3,5-8) ty by (auto simp: CreateVerifier_def ix_key_part_def)
qed

lemma IdentityEx_new_eq:
  assumes "kind_of_type t = Some k" and "length publicKey = 256" and "length key = public_key_len k"
    and rnd: "\<And>n. length (rnd n) = n"
  obtains ix where "IdentityEx_new sha rnd publicKey key t = Some ix" "ix_ok ix" "ix_hash ix = sha (ix_bytes ix)"
    "ix_verifier ix = Some \<lparr>v_kind = k, v_key = key\<rparr>"
    "CreateVerifier (ix\<lparr>ix_verifier := None\<rparr>) = Some (Some \<lparr>v_kind = k, v_key = key\<rparr>)"
proof (cases "t = 0")
  case True
  then have k: "k = DSA" using assms(1) by (simp add: kind_of_type_def)
  let ?i = "\<lparr>id_publicKey = publicKey, id_signingKey = key, id_cert_type = CERTIFICATE_TYPE_NULL, id_cert_length = [0, 0]\<rparr>"
  let ?ix = "\<lparr>ix_standard = ?i, ix_hash = sha (identity_bytes ?i), ix_verifier = Some \<lparr>v_kind = k, v_key = key\<rparr>,
       ix_ext_len = 0, ix_ext = NoBuffer\<rparr>"
  show ?thesis
    by (rule that [of ?ix]) (use assms True k in \<open>simp_all add: IdentityEx_new_def identity_defs Identity_Hash_def
      lazy_verifier_def CreateVerifier_def GetSigningKeyType_def kind_of_type_def ix_ok_def identity_ok_def ix_bytes_def be_val_def Let_def\<close>)
next
  case False
  let ?ext = "be_bytes 2 (unat t) @ be_bytes 2 0 @ drop 128 key"
  let ?i = "\<lparr>id_publicKey = publicKey, id_signingKey = ix_key_part rnd k key, id_cert_type = CERTIFICATE_TYPE_KEY,
       id_cert_length = be_bytes 2 (4 + (public_key_len k - 128))\<rparr>"
  let ?ix = "\<lambda>h v. \<lparr>ix_standard = ?i, ix_hash = h, ix_verifier = v,
       ix_ext_len = 4 + (public_key_len k - 128), ix_ext = Buffer ?ext\<rparr>"
  have kl: "public_key_len k \<le> 512" by (cases k) simp_all
  have ok: "ix_ok (?ix h v)" for h v
    using assms kl by (auto simp: ix_ok_def identity_ok_def ix_key_part_def)
  have tb: "IdentityEx_ToBuffer (?ix h v) (replicate (GetFullLen (?ix h v)) 0) 0 = Some (ix_bytes (?ix h v), GetFullLen (?ix h v))" for h v
    using IdentityEx_ToBuffer_eq [OF ok [of h v], of 0 "replicate (GetFullLen (?ix h v)) 0"] length_ix_bytes [OF ok [of h v]]
    by (simp add: patch_def)
  have cv: "CreateVerifier (?ix h None) = Some (Some \<lparr>v_kind = k, v_key = key\<rparr>)" for h
    by (rule CreateVerifier_key [OF ok assms(1) False]) (use assms in simp_all)
  have kp: "(if public_key_len k \<le> 128 then rnd (128 - public_key_len k) @ take (public_key_len k) key else take 128 key)
      = ix_key_part rnd k key"
    using assms(3) by (simp add: ix_key_part_def)
  have ex: "take (public_key_len k - 128) (drop 128 key) = drop 128 key" using assms(3) by simp
  have n: "t \<noteq> SIGNING_KEY_TYPE_DSA_SHA1" using False by (simp add: SIGNING_KEY_TYPE_DSA_SHA1_def)
  let ?h = "sha (ix_bytes (?ix [] None))"
  have "IdentityEx_new sha rnd publicKey key t = Some (?ix ?h (Some \<lparr>v_kind = k, v_key = key\<rparr>))"
    unfolding IdentityEx_new_def if_P [OF n] assms(1) Let_def Option.bind.bind_lunit kp ex CRYPTO_KEY_TYPE_ELGAMAL_def
    by (simp add: tb cv lazy_verifier_def del: be_bytes_Suc)
  moreover have "ix_bytes (?ix [] None) = ix_bytes (?ix ?h (Some \<lparr>v_kind = k, v_key = key\<rparr>))" by (simp add: ix_bytes_def)
  ultimately show ?thesis
    using that [of "?ix ?h (Some \<lparr>v_kind = k, v_key = key\<rparr>)"] ok cv [of ?h] by simp
qed


section \<open>PrivateKeys\<close>

text \<open>A signer holds the scheme and the private key it was made from.\<close>

record PrivateKeys =
  pk_public :: IdentityEx
  pk_privateKey :: bytes
  pk_signingKey :: bytes
  pk_signer :: "(sig_kind \<times> bytes) option"

definition CreateSigner :: "PrivateKeys \<Rightarrow> PrivateKeys option" where
  "CreateSigner pk = do {
     t \<leftarrow> GetSigningKeyType (pk_public pk);
     (case kind_of_type t of
        None \<Rightarrow> Some pk
      | Some k \<Rightarrow> do {
          key \<leftarrow> mem_read (pk_signingKey pk) 0 (private_key_len k);
          Some (pk\<lparr>pk_signer := Some (k, key)\<rparr>) }) }"

text \<open>The empty object: 1024 bytes for the signing key, no signer.\<close>

definition PrivateKeys_new :: "identity \<Rightarrow> PrivateKeys" where
  "PrivateKeys_new junk = \<lparr>pk_public = \<lparr>ix_standard = junk, ix_hash = [], ix_verifier = None, ix_ext_len = 0, ix_ext = NoBuffer\<rparr>,
     pk_privateKey = replicate 256 0, pk_signingKey = replicate 1024 0, pk_signer = None\<rparr>"

definition set_signing_key :: "PrivateKeys \<Rightarrow> bytes \<Rightarrow> PrivateKeys option" where
  "set_signing_key pk key = do {
     signing \<leftarrow> mem_write (pk_signingKey pk) 0 key;
     CreateSigner (pk\<lparr>pk_signingKey := signing, pk_signer := None\<rparr>) }"

definition PrivateKeys_assign_keys :: "(bytes \<Rightarrow> bytes) \<Rightarrow> PrivateKeys \<Rightarrow> Keys \<Rightarrow> PrivateKeys option" where
  "PrivateKeys_assign_keys sha pk keys = do {
     pub \<leftarrow> IdentityEx_assign_standard sha (pk_public pk) (Identity_of_keys keys);
     (pub, n) \<leftarrow> GetSigningPrivateKeyLen pub;
     key \<leftarrow> mem_read (keys_signingPrivateKey keys) 0 n;
     set_signing_key (pk\<lparr>pk_public := pub, pk_privateKey := keys_privateKey keys\<rparr>) key }"

definition PrivateKeys_assign :: "PrivateKeys \<Rightarrow> PrivateKeys \<Rightarrow> PrivateKeys option" where
  "PrivateKeys_assign pk other = do {
     pub \<leftarrow> IdentityEx_assign (pk_public pk) (pk_public other);
     (pub, n) \<leftarrow> GetSigningPrivateKeyLen pub;
     key \<leftarrow> mem_read (pk_signingKey other) 0 n;
     set_signing_key (pk\<lparr>pk_public := pub, pk_privateKey := pk_privateKey other\<rparr>) key }"

definition PrivateKeys_FromBuffer :: "(bytes \<Rightarrow> bytes) \<Rightarrow> PrivateKeys \<Rightarrow> bytes \<Rightarrow> nat \<Rightarrow> (PrivateKeys \<times> nat) option" where
  "PrivateKeys_FromBuffer sha pk buf len = do {
     (pub, ret) \<leftarrow> IdentityEx_FromBuffer sha (pk_public pk) buf len;
     priv \<leftarrow> mem_read buf ret 256;
     let ret = ret + 256;
     (pub, n) \<leftarrow> GetSigningPrivateKeyLen pub;
     key \<leftarrow> mem_read buf ret n;
     pk \<leftarrow> set_signing_key (pk\<lparr>pk_public := pub, pk_privateKey := priv\<rparr>) key;
     Some (pk, ret + n) }"

definition PrivateKeys_ToBuffer :: "PrivateKeys \<Rightarrow> bytes \<Rightarrow> (bytes \<times> nat) option" where
  "PrivateKeys_ToBuffer pk buf = do {
     (buf, ret) \<leftarrow> IdentityEx_ToBuffer (pk_public pk) buf 0;
     buf \<leftarrow> mem_write buf ret (pk_privateKey pk);
     let ret = ret + 256;
     (pub, n) \<leftarrow> GetSigningPrivateKeyLen (pk_public pk);
     key \<leftarrow> mem_read (pk_signingKey pk) 0 n;
     buf \<leftarrow> mem_write buf ret key;
     Some (buf, ret + n) }"

text \<open>The signature that is written; without a signer nothing is written.\<close>

definition PrivateKeys_Sign :: "sig_env \<Rightarrow> PrivateKeys \<Rightarrow> bytes \<Rightarrow> bytes option" where
  "PrivateKeys_Sign env pk buf = map_option (\<lambda>(k, key). sig_sign env k key buf) (pk_signer pk)"

text \<open>
  \<open>gen\<close> makes a signing key pair of a scheme, private key first; \<open>dh\<close> and \<open>elg\<close> are the pairs
  of the Diffie-Hellman and ElGamal generators.
\<close>

definition CreateRandomKeys :: "(sig_kind \<Rightarrow> bytes \<times> bytes) \<Rightarrow> bytes \<times> bytes \<Rightarrow> Keys" where
  "CreateRandomKeys gen elg = \<lparr>keys_privateKey = fst elg, keys_signingPrivateKey = fst (gen DSA),
     keys_publicKey = snd elg, keys_signingKey = snd (gen DSA)\<rparr>"

definition PrivateKeys_CreateRandomKeys :: "(bytes \<Rightarrow> bytes) \<Rightarrow> (nat \<Rightarrow> bytes) \<Rightarrow> (sig_kind \<Rightarrow> bytes \<times> bytes) \<Rightarrow>
    bytes \<times> bytes \<Rightarrow> bytes \<times> bytes \<Rightarrow> identity \<Rightarrow> 16 word \<Rightarrow> PrivateKeys option" where
  "PrivateKeys_CreateRandomKeys sha rnd gen dh elg junk type =
     (let keys = PrivateKeys_new junk;
          standard = PrivateKeys_assign_keys sha keys (CreateRandomKeys gen elg)
      in if type \<noteq> SIGNING_KEY_TYPE_DSA_SHA1 then
           (case kind_of_type type of
              None \<Rightarrow> standard
            | Some k \<Rightarrow>
                if k = EDDSA25519 then standard
                else do {
                  signing \<leftarrow> mem_write (pk_signingKey keys) 0 (fst (gen k));
                  ix \<leftarrow> IdentityEx_new sha rnd (snd dh) (snd (gen k)) type;
                  pub \<leftarrow> IdentityEx_assign (pk_public keys) ix;
                  CreateSigner (keys\<lparr>pk_signingKey := signing, pk_privateKey := fst dh, pk_public := pub\<rparr>) })
         else standard)"

section \<open>Routing keys and the XOR metric\<close>

record tm =
  tm_year :: nat
  tm_mon :: nat
  tm_mday :: nat

text \<open>\<open>%0wi\<close> of \<open>sprintf\<close> for a number that is not negative: more digits than \<open>w\<close> are kept.\<close>

fun digits :: "nat \<Rightarrow> bytes" where
  "digits n = (if n < 10 then [] else digits (n div 10)) @ [of_char (CHR ''0'') + word_of_nat (n mod 10)]"

declare digits.simps [simp del]

definition print_0 :: "nat \<Rightarrow> nat \<Rightarrow> bytes" where
  "print_0 w n = replicate (w - length (digits n)) (of_char (CHR ''0'')) @ digits n"

definition CreateRoutingKey :: "(bytes \<Rightarrow> bytes) \<Rightarrow> tm \<Rightarrow> ident_hash \<Rightarrow> ident_hash option" where
  "CreateRoutingKey sha t ident = do {
     buf \<leftarrow> mem_write (replicate 41 0) 0 ident;
     buf \<leftarrow> mem_write buf 32 (print_0 4 (tm_year t + 1900) @ print_0 2 (tm_mon t + 1) @ print_0 2 (tm_mday t) @ [0]);
     b \<leftarrow> mem_read buf 0 40;
     Some (sha b) }"

datatype XORMetric = XORMetric (metric: bytes)

definition SetMin :: XORMetric where "SetMin = XORMetric (replicate 32 0)"
definition SetMax :: XORMetric where "SetMax = XORMetric (replicate 32 0xFF)"

text \<open>\<open>memcmp\<close> of the 32 bytes is the lexicographic order.\<close>

instantiation XORMetric :: linorder
begin

definition less_XORMetric :: "XORMetric \<Rightarrow> XORMetric \<Rightarrow> bool" where
  "less_XORMetric a b \<longleftrightarrow> metric a < metric b"

definition less_eq_XORMetric :: "XORMetric \<Rightarrow> XORMetric \<Rightarrow> bool" where
  "less_eq_XORMetric a b \<longleftrightarrow> metric a \<le> metric b"

instance
  by standard (auto simp: less_XORMetric_def less_eq_XORMetric_def XORMetric.expand)

end

definition xor_metric :: "ident_hash \<Rightarrow> ident_hash \<Rightarrow> XORMetric" where
  "xor_metric key1 key2 = XORMetric (map2 (XOR) key1 key2)"

lemma xor_metric_inject:
  "length a = length k \<Longrightarrow> length b = length k \<Longrightarrow> xor_metric k a = xor_metric k b \<longleftrightarrow> a = b"
proof (induction k arbitrary: a b)
  case Nil
  then show ?case by simp
next
  case (Cons c k)
  then obtain x a' y b' where "a = x # a'" "b = y # b'" by (cases a; cases b; simp)
  with Cons show ?case by (auto simp: xor_metric_def) (metis xor.assoc xor.left_neutral xor_self_eq)
qed

lemma xor_metric_self: "xor_metric k k = XORMetric (replicate (length k) 0)"
  by (induction k) (simp_all add: xor_metric_def)

lemma xor_metric_commute: "xor_metric a b = xor_metric b a"
proof -
  have "map2 (XOR) a b = map2 (XOR) b a"
    by (subst zip_commute) (simp add: case_prod_unfold xor.commute comp_def)
  then show ?thesis by (simp add: xor_metric_def)
qed


section \<open>Keys survive serialisation\<close>

lemma CreateVerifier_kind:
  assumes "CreateVerifier ix = Some (Some v)"
  obtains t where "GetSigningKeyType ix = Some t" "kind_of_type t = Some (v_kind v)"
proof -
  obtain t where t: "GetSigningKeyType ix = Some t"
    using assms by (auto simp: CreateVerifier_def bind_eq_Some_conv)
  moreover have "kind_of_type t = Some (v_kind v)"
    using assms t by (auto simp: CreateVerifier_def bind_eq_Some_conv split: option.splits if_splits)
  ultimately show thesis by (rule that)
qed

text \<open>The verifier and the key type depend on the standard identity and the extended buffer only.\<close>

lemma cache_fields:
  "ix_standard (ix\<lparr>ix_verifier := v\<rparr>) = ix_standard ix" "ix_standard (ix\<lparr>ix_hash := h\<rparr>) = ix_standard ix"
  "ix_ext (ix\<lparr>ix_verifier := v\<rparr>) = ix_ext ix" "ix_ext (ix\<lparr>ix_hash := h\<rparr>) = ix_ext ix"
  "ix_ext_len (ix\<lparr>ix_verifier := v\<rparr>) = ix_ext_len ix" "ix_ext_len (ix\<lparr>ix_hash := h\<rparr>) = ix_ext_len ix"
  by simp_all

lemma verifier_fields [simp]:
  "GetSigningKeyType (ix\<lparr>ix_verifier := v\<rparr>) = GetSigningKeyType ix"
  "GetSigningKeyType (ix\<lparr>ix_hash := h\<rparr>) = GetSigningKeyType ix"
  "CreateVerifier (ix\<lparr>ix_verifier := v\<rparr>) = CreateVerifier ix"
  "CreateVerifier (ix\<lparr>ix_hash := h\<rparr>) = CreateVerifier ix"
  "ix_ok (ix\<lparr>ix_verifier := v\<rparr>) = ix_ok ix" "ix_ok (ix\<lparr>ix_hash := h\<rparr>) = ix_ok ix"
  "ix_bytes (ix\<lparr>ix_verifier := v\<rparr>) = ix_bytes ix" "ix_bytes (ix\<lparr>ix_hash := h\<rparr>) = ix_bytes ix"
  unfolding CreateVerifier_def GetSigningKeyType_def ix_ok_def ix_bytes_def cache_fields by (rule refl)+

text \<open>An identity whose verifier, cached or not, is \<open>v\<close>.\<close>

definition verifies_with :: "IdentityEx \<Rightarrow> verifier \<Rightarrow> bool" where
  "verifies_with ix v \<longleftrightarrow> ix_ok ix \<and> CreateVerifier ix = Some (Some v) \<and> (ix_verifier ix = None \<or> ix_verifier ix = Some v)"

lemma verifies_with_lazy:
  assumes "verifies_with ix v"
  shows "lazy_verifier ix = Some (ix\<lparr>ix_verifier := Some v\<rparr>)" "verifies_with (ix\<lparr>ix_verifier := Some v\<rparr>) v"
    "GetSignatureLen ix = Some (ix\<lparr>ix_verifier := Some v\<rparr>, signature_len (v_kind v))"
    "GetSigningPrivateKeyLen ix = Some (ix\<lparr>ix_verifier := Some v\<rparr>, private_key_len (v_kind v))"
    "IdentityEx_Verify env ix m s = Some (ix\<lparr>ix_verifier := Some v\<rparr>, sig_verify env (v_kind v) (v_key v) m s)"
proof -
  show l: "lazy_verifier ix = Some (ix\<lparr>ix_verifier := Some v\<rparr>)"
    using assms by (auto simp: verifies_with_def lazy_verifier_def)
  show "verifies_with (ix\<lparr>ix_verifier := Some v\<rparr>) v" using assms by (simp add: verifies_with_def)
  show "GetSignatureLen ix = Some (ix\<lparr>ix_verifier := Some v\<rparr>, signature_len (v_kind v))"
    "GetSigningPrivateKeyLen ix = Some (ix\<lparr>ix_verifier := Some v\<rparr>, private_key_len (v_kind v))"
    "IdentityEx_Verify env ix m s = Some (ix\<lparr>ix_verifier := Some v\<rparr>, sig_verify env (v_kind v) (v_key v) m s)"
    by (simp_all add: GetSignatureLen_def GetSigningPrivateKeyLen_def IdentityEx_Verify_def l)
qed

lemma verifies_with_received:
  assumes "verifies_with ix v" and "ix_ext ix0 \<noteq> Freed" and "GetFullLen ix \<le> len"
  obtains ix' where "IdentityEx_FromBuffer sha ix0 (ix_bytes ix @ rest) len = Some (ix', GetFullLen ix)"
    "verifies_with ix' v" "ix_bytes ix' = ix_bytes ix" "ix_hash ix' = sha (ix_bytes ix)"
  using assms IdentityEx_FromBuffer_eq [of ix ix0 len sha rest] by (simp add: verifies_with_def)

lemma private_key_len_le: "private_key_len k \<le> 1024"
  by (cases k) simp_all

definition signs_with :: "PrivateKeys \<Rightarrow> sig_kind \<Rightarrow> bytes \<Rightarrow> bytes \<Rightarrow> bool" where
  "signs_with pk k priv pub \<longleftrightarrow> verifies_with (pk_public pk) \<lparr>v_kind = k, v_key = pub\<rparr> \<and> length (pk_privateKey pk) = 256 \<and>
     length (pk_signingKey pk) = 1024 \<and> take (private_key_len k) (pk_signingKey pk) = priv \<and> pk_signer pk = Some (k, priv)"

lemma set_signing_key_signs:
  assumes "verifies_with (pk_public pk) \<lparr>v_kind = k, v_key = pub\<rparr>" and "length (pk_privateKey pk) = 256"
    and "length (pk_signingKey pk) = 1024" and "length priv = private_key_len k"
  obtains pk' where "set_signing_key pk priv = Some pk'" "signs_with pk' k priv pub" "pk_public pk' = pk_public pk"
    "pk_privateKey pk' = pk_privateKey pk"
proof -
  have cv: "CreateVerifier (pk_public pk) = Some (Some \<lparr>v_kind = k, v_key = pub\<rparr>)"
    using assms(1) by (simp add: verifies_with_def)
  obtain t where t: "GetSigningKeyType (pk_public pk) = Some t" "kind_of_type t = Some k"
    using CreateVerifier_kind [OF cv] by auto
  have le: "length priv \<le> 1024" using assms(4) private_key_len_le by simp
  show thesis
    by (rule that [of "pk\<lparr>pk_signingKey := patch (pk_signingKey pk) 0 priv, pk_signer := Some (k, priv)\<rparr>"])
      (use assms t le in \<open>simp_all add: set_signing_key_def CreateSigner_def mem_write_patch mem_read_def signs_with_def patch_def\<close>)
qed

lemma CreateRandomKeys_signs:
  assumes gen: "\<And>k. length (fst (gen k)) = private_key_len k" "\<And>k. length (snd (gen k)) = public_key_len k"
    and dh: "length (fst dh) = 256" "length (snd dh) = 256" and elg: "length (fst elg) = 256" "length (snd elg) = 256"
    and rnd: "\<And>n. length (rnd n) = n"
  obtains pk k where "PrivateKeys_CreateRandomKeys sha rnd gen dh elg junk type = Some pk"
    "signs_with pk k (fst (gen k)) (snd (gen k))"
    "k = (case kind_of_type type of Some k \<Rightarrow> if k = EDDSA25519 then DSA else k | None \<Rightarrow> DSA)"
proof -
  let ?keys = "PrivateKeys_new junk" and ?std = "PrivateKeys_assign_keys sha (PrivateKeys_new junk) (CreateRandomKeys gen elg)"
  let ?i = "Identity_of_keys (CreateRandomKeys gen elg)"
  let ?v = "\<lparr>v_kind = DSA, v_key = snd (gen DSA)\<rparr>"
  let ?ix = "\<lparr>ix_standard = ?i, ix_hash = Identity_Hash sha ?i, ix_verifier = None, ix_ext_len = 0, ix_ext = NoBuffer\<rparr>"
  have v: "verifies_with ?ix ?v"
    using gen(2) [of DSA] elg by (simp add: verifies_with_def ix_ok_def identity_ok_def Identity_of_keys_def
      CreateRandomKeys_def CreateVerifier_def GetSigningKeyType_def identity_defs kind_of_type_def be_val_def)
  have s: "IdentityEx_assign_standard sha (pk_public ?keys) ?i = Some ?ix"
    by (simp add: IdentityEx_assign_standard_def PrivateKeys_new_def)
  obtain pk0 where std: "?std = Some pk0" "signs_with pk0 DSA (fst (gen DSA)) (snd (gen DSA))"
  proof -
    let ?pk = "?keys\<lparr>pk_public := ?ix\<lparr>ix_verifier := Some ?v\<rparr>, pk_privateKey := fst elg\<rparr>"
    obtain pk' where pk': "set_signing_key ?pk (fst (gen DSA)) = Some pk'" "signs_with pk' DSA (fst (gen DSA)) (snd (gen DSA))"
      using set_signing_key_signs [of ?pk DSA "snd (gen DSA)" "fst (gen DSA)"] verifies_with_lazy(2) [OF v] gen(1) [of DSA] elg
      by (auto simp: PrivateKeys_new_def)
    have "mem_read (fst (gen DSA)) 0 (private_key_len DSA) = Some (fst (gen DSA))"
      using gen(1) [of DSA] by (simp add: mem_read_def)
    then have "?std = Some pk'"
      using pk'(1) verifies_with_lazy(4) [OF v] s
      by (simp add: PrivateKeys_assign_keys_def CreateRandomKeys_def)
    then show thesis using that pk'(2) by blast
  qed
  show thesis
  proof (cases "type = 0 \<or> kind_of_type type = None \<or> kind_of_type type = Some EDDSA25519")
    case True
    then have "(case kind_of_type type of Some k \<Rightarrow> if k = EDDSA25519 then DSA else k | None \<Rightarrow> DSA) = DSA"
      by (auto simp: kind_of_type_def)
    moreover have "PrivateKeys_CreateRandomKeys sha rnd gen dh elg junk type = Some pk0"
      using True std by (auto simp: PrivateKeys_CreateRandomKeys_def identity_defs Let_def)
    ultimately show thesis using that std(2) by simp
  next
    case False
    then obtain k where k: "kind_of_type type = Some k" "k \<noteq> EDDSA25519" "type \<noteq> 0" by auto
    let ?w = "\<lparr>v_kind = k, v_key = snd (gen k)\<rparr>"
    obtain ix where ix: "IdentityEx_new sha rnd (snd dh) (snd (gen k)) type = Some ix" "ix_ok ix"
      "CreateVerifier ix = Some (Some ?w)"
      by (rule IdentityEx_new_eq [where sha = sha and rnd = rnd, OF k(1) dh(2) gen(2) rnd]) simp
    obtain pub where pub: "IdentityEx_assign (pk_public ?keys) ix = Some pub" "verifies_with pub ?w"
    proof -
      have "IdentityEx_assign (pk_public ?keys) ix = Some (ix\<lparr>ix_verifier := None\<rparr>)"
        using ix(2) by (cases "ix_ext ix")
          (auto simp: IdentityEx_assign_def PrivateKeys_new_def ix_ok_def mem_read_def intro: IdentityEx.equality)
      then show thesis using that ix by (simp add: verifies_with_def)
    qed
    let ?pk = "?keys\<lparr>pk_public := pub, pk_privateKey := fst dh\<rparr>"
    obtain pk' where pk': "set_signing_key ?pk (fst (gen k)) = Some pk'" "signs_with pk' k (fst (gen k)) (snd (gen k))"
      using set_signing_key_signs [of ?pk k "snd (gen k)" "fst (gen k)"] pub(2) gen(1) dh by (auto simp: PrivateKeys_new_def)
    have "PrivateKeys_CreateRandomKeys sha rnd gen dh elg junk type = Some pk'"
      using k ix(1) pub(1) pk'(1)
      by (simp add: PrivateKeys_CreateRandomKeys_def identity_defs set_signing_key_def PrivateKeys_new_def)
    then show thesis using that pk'(2) k by simp
  qed
qed

lemma PrivateKeys_round_trip_lemma:
  assumes "signs_with pk k priv pub" and "length buf = GetFullLen (pk_public pk) + 256 + private_key_len k"
    and "ix_ext (pk_public pk0) \<noteq> Freed" and "length (pk_signingKey pk0) = 1024"
  obtains b pk' where "PrivateKeys_ToBuffer pk buf = Some (b, length buf)" "length b = length buf"
    "b = ix_bytes (pk_public pk) @ pk_privateKey pk @ priv"
    "PrivateKeys_FromBuffer sha pk0 b (length buf) = Some (pk', length buf)" "signs_with pk' k priv pub"
    "ix_bytes (pk_public pk') = ix_bytes (pk_public pk)" "pk_privateKey pk' = pk_privateKey pk"
proof -
  let ?v = "\<lparr>v_kind = k, v_key = pub\<rparr>" and ?ix = "pk_public pk"
  have v: "verifies_with ?ix ?v" and l: "length (pk_privateKey pk) = 256" "length (pk_signingKey pk) = 1024"
    and p: "take (private_key_len k) (pk_signingKey pk) = priv" using assms(1) by (simp_all add: signs_with_def)
  have lp: "length priv = private_key_len k" using p l private_key_len_le [of k] by auto
  have ok: "ix_ok ?ix" using v by (simp add: verifies_with_def)
  let ?b = "ix_bytes ?ix @ pk_privateKey pk @ priv"
  have lb: "length ?b = length buf" using length_ix_bytes [OF ok] l lp assms(2) by simp
  have tb: "PrivateKeys_ToBuffer pk buf = Some (?b, length buf)"
  proof -
    have "mem_read (pk_signingKey pk) 0 (private_key_len k) = Some priv"
      using p l private_key_len_le [of k] by (simp add: mem_read_def)
    moreover have "mem_write (patch buf 0 (ix_bytes ?ix)) (GetFullLen ?ix) (pk_privateKey pk) = Some (patch buf 0 (ix_bytes ?ix @ pk_privateKey pk))"
      using length_ix_bytes [OF ok] l assms(2) by (simp add: mem_write_patch patch_patch)
    moreover have "mem_write (patch buf 0 (ix_bytes ?ix @ pk_privateKey pk)) (GetFullLen ?ix + 256) priv = Some (patch buf 0 ?b)"
      using length_ix_bytes [OF ok] l lp assms(2) by (simp add: mem_write_patch patch_patch)
    moreover have "patch buf 0 ?b = ?b" using lb by (simp add: patch_def)
    ultimately show ?thesis
      using assms(2) IdentityEx_ToBuffer_eq [OF ok, of 0 buf] verifies_with_lazy(4) [OF v]
      by (simp add: PrivateKeys_ToBuffer_def Let_def)
  qed
  obtain ix' where ix': "IdentityEx_FromBuffer sha (pk_public pk0) (ix_bytes ?ix @ pk_privateKey pk @ priv) (length buf) = Some (ix', GetFullLen ?ix)"
    "verifies_with ix' ?v" "ix_bytes ix' = ix_bytes ?ix"
    using verifies_with_received [OF v assms(3), of "length buf" sha "pk_privateKey pk @ priv"] assms(2) by auto
  let ?pk = "pk0\<lparr>pk_public := ix'\<lparr>ix_verifier := Some ?v\<rparr>, pk_privateKey := pk_privateKey pk\<rparr>"
  obtain pk' where pk': "set_signing_key ?pk priv = Some pk'" "signs_with pk' k priv pub"
    "pk_public pk' = ix'\<lparr>ix_verifier := Some ?v\<rparr>" "pk_privateKey pk' = pk_privateKey pk"
    using set_signing_key_signs [of ?pk k pub priv] verifies_with_lazy(2) [OF ix'(2)] l lp assms(4) by auto
  have "mem_read ?b (GetFullLen ?ix) 256 = Some (pk_privateKey pk)" "mem_read ?b (GetFullLen ?ix + 256) (private_key_len k) = Some priv"
    using length_ix_bytes [OF ok] l lp by (simp_all add: mem_read_def)
  then have "PrivateKeys_FromBuffer sha pk0 ?b (length buf) = Some (pk', length buf)"
    using ix'(1) pk'(1) verifies_with_lazy(4) [OF ix'(2)] assms(2) by (simp add: PrivateKeys_FromBuffer_def)
  then show thesis using that tb lb pk' ix'(3) by simp
qed


text \<open>Identities as a codec: their bytes, and what \<open>FromBuffer\<close> makes of them in a fresh object.\<close>

definition fresh_identity :: IdentityEx where
  "fresh_identity = \<lparr>ix_standard = identity_of_bytes (replicate 387 0), ix_hash = [], ix_verifier = None,
     ix_ext_len = 0, ix_ext = NoBuffer\<rparr>"

definition read_identity :: "(bytes \<Rightarrow> bytes) \<Rightarrow> bytes \<Rightarrow> IdentityEx option" where
  "read_identity sha b = map_option fst (IdentityEx_FromBuffer sha fresh_identity b (length b))"

interpretation identity: codec ix_bytes "read_identity sha" "\<lambda>ix. ix_ok ix \<and> ix_hash ix = sha (ix_bytes ix) \<and> ix_verifier ix = None"
  for sha
proof unfold_locales
  fix x assume x: "ix_ok x \<and> ix_hash x = sha (ix_bytes x) \<and> ix_verifier x = None"
  then have "IdentityEx_FromBuffer sha fresh_identity (ix_bytes x @ []) (length (ix_bytes x)) =
      Some (x\<lparr>ix_hash := sha (ix_bytes x), ix_verifier := None\<rparr>, GetFullLen x)"
    by (intro IdentityEx_FromBuffer_eq) (simp_all add: fresh_identity_def length_ix_bytes)
  moreover have "x\<lparr>ix_hash := sha (ix_bytes x), ix_verifier := None\<rparr> = x"
    using x by (intro IdentityEx.equality) auto
  ultimately show "read_identity sha (ix_bytes x) = Some x" by (simp add: read_identity_def)
qed

text \<open>Base64 of an identity, within the 1024 bytes of the code's buffer.\<close>

lemma IdentityEx_Base64:
  assumes ok: "ix_ok ix" and small: "GetFullLen ix \<le> 1024" and ix0: "ix_ext ix0 \<noteq> Freed"
  obtains s where "IdentityEx_ToBase64 ix = Some s"
    "IdentityEx_FromBase64 sha ix0 s = Some (ix\<lparr>ix_hash := sha (ix_bytes ix), ix_verifier := None\<rparr>, GetFullLen ix)"
proof -
  let ?b = "ix_bytes ix"
  have l: "length ?b = GetFullLen ix" by (rule length_ix_bytes [OF ok])
  have ne: "?b \<noteq> []" using l by (auto simp: identity_defs)
  obtain s where s: "snd (ByteStreamToBase64 ?b 1536) = s" "Base64ToByteStream s 1024 = Some (length ?b, ?b)"
    using base64_round_trip [OF ne, of 1536 1024] l small by auto
  have "IdentityEx_ToBuffer ix (replicate 1024 0) 0 = Some (patch (replicate 1024 0) 0 ?b, GetFullLen ix)"
    by (rule IdentityEx_ToBuffer_eq [OF ok]) (use small in simp)
  then have "IdentityEx_ToBase64 ix = Some s"
    using s(1) l small by (simp add: IdentityEx_ToBase64_def patch_def)
  moreover have "IdentityEx_FromBase64 sha ix0 s = Some (ix\<lparr>ix_hash := sha ?b, ix_verifier := None\<rparr>, GetFullLen ix)"
    using s(2) l IdentityEx_FromBuffer_eq [OF ok ix0 order_refl, of sha "replicate (1024 - length ?b) 0"]
    by (simp add: IdentityEx_FromBase64_def)
  ultimately show thesis by (rule that)
qed

section \<open>Properties\<close>

text \<open>
  C24: keys created by \<open>PrivateKeys::CreateRandomKeys\<close> for any type survive \<open>ToBuffer\<close> and
  \<open>FromBuffer\<close>: what the restored keys sign is accepted by the identity another router reads from
  the serialised public identity, and both have the identity hash of those bytes. For EdDSA and
  unknown types the keys are DSA keys.
\<close>

theorem identity_sign_verify:
  assumes "\<forall>k. length (fst (gen k)) = private_key_len k \<and> length (snd (gen k)) = public_key_len k"
    and "\<forall>k m. sig_verify env k (snd (gen k)) m (sig_sign env k (fst (gen k)) m)"
    and "length (fst dh) = 256 \<and> length (snd dh) = 256 \<and> length (fst elg) = 256 \<and> length (snd elg) = 256"
    and "\<forall>n. length (rnd n) = n"
  shows "\<exists>pk b pk' ix ix' s. PrivateKeys_CreateRandomKeys sha rnd gen dh elg junk type = Some pk \<and>
     PrivateKeys_ToBuffer pk (replicate (GetFullLen (pk_public pk) + 256 +
       private_key_len (case kind_of_type type of Some k \<Rightarrow> if k = EDDSA25519 then DSA else k | None \<Rightarrow> DSA)) 0) = Some (b, length b) \<and>
     PrivateKeys_FromBuffer sha (PrivateKeys_new junk) b (length b) = Some (pk', length b) \<and>
     pk_privateKey pk' = pk_privateKey pk \<and> PrivateKeys_Sign env pk' m = Some s \<and>
     IdentityEx_FromBuffer sha fresh_identity b (length b) = Some (ix, GetFullLen (pk_public pk)) \<and>
     ix_hash ix = sha (ix_bytes (pk_public pk)) \<and> IdentityEx_Verify env ix m s = Some (ix', True)"
proof -
  obtain pk k where pk: "PrivateKeys_CreateRandomKeys sha rnd gen dh elg junk type = Some pk"
    "signs_with pk k (fst (gen k)) (snd (gen k))"
    "k = (case kind_of_type type of Some k \<Rightarrow> if k = EDDSA25519 then DSA else k | None \<Rightarrow> DSA)"
    using CreateRandomKeys_signs [of gen dh elg rnd sha junk type] assms by blast
  let ?buf = "replicate (GetFullLen (pk_public pk) + 256 + private_key_len k) (0 :: byte)"
  obtain b pk' where b: "PrivateKeys_ToBuffer pk ?buf = Some (b, length ?buf)" "length b = length ?buf"
    "b = ix_bytes (pk_public pk) @ pk_privateKey pk @ fst (gen k)"
    "PrivateKeys_FromBuffer sha (PrivateKeys_new junk) b (length ?buf) = Some (pk', length ?buf)"
    "signs_with pk' k (fst (gen k)) (snd (gen k))" "pk_privateKey pk' = pk_privateKey pk"
    by (rule PrivateKeys_round_trip_lemma [where buf = ?buf and sha = sha and ?pk0.0 = "PrivateKeys_new junk", OF pk(2)])
      (simp_all add: PrivateKeys_new_def)
  have v: "verifies_with (pk_public pk) \<lparr>v_kind = k, v_key = snd (gen k)\<rparr>" using pk(2) by (simp add: signs_with_def)
  obtain ix where ix: "IdentityEx_FromBuffer sha fresh_identity b (length b) = Some (ix, GetFullLen (pk_public pk))"
    "verifies_with ix \<lparr>v_kind = k, v_key = snd (gen k)\<rparr>" "ix_hash ix = sha (ix_bytes (pk_public pk))"
    using verifies_with_received [OF v, of fresh_identity "length b" sha "pk_privateKey pk @ fst (gen k)"] b(2,3)
    by (auto simp: fresh_identity_def)
  let ?s = "sig_sign env k (fst (gen k)) m"
  have "PrivateKeys_Sign env pk' m = Some ?s" using b(5) by (simp add: signs_with_def PrivateKeys_Sign_def)
  moreover have "\<exists>ix'. IdentityEx_Verify env ix m ?s = Some (ix', True)"
    using verifies_with_lazy(5) [OF ix(2)] assms(2) by simp
  ultimately show ?thesis using pk(1) b ix(1,3) unfolding pk(3) [symmetric] by fastforce
qed

text \<open>Schemes for the examples: a signature is the private key, the public key starts with it.\<close>

definition toy_sig_env :: sig_env where
  "toy_sig_env = \<lparr>sig_verify = (\<lambda>k pub m s. s = [hd pub]), sig_sign = (\<lambda>k priv m. [hd priv])\<rparr>"

definition toy_gen :: "sig_kind \<Rightarrow> bytes \<times> bytes" where
  "toy_gen k = (replicate (private_key_len k) 9, replicate (public_key_len k) 9)"

lemma toy_gen_ok:
  "\<forall>k. length (fst (toy_gen k)) = private_key_len k \<and> length (snd (toy_gen k)) = public_key_len k"
  "\<forall>k m. sig_verify toy_sig_env k (snd (toy_gen k)) m (sig_sign toy_sig_env k (fst (toy_gen k)) m)"
proof -
  have "0 < private_key_len k \<and> 0 < public_key_len k" for k by (cases k) simp_all
  then show "\<forall>k m. sig_verify toy_sig_env k (snd (toy_gen k)) m (sig_sign toy_sig_env k (fst (toy_gen k)) m)"
    by (simp add: toy_sig_env_def toy_gen_def hd_replicate)
qed (simp add: toy_gen_def)

theorem identity_sign_verify_witness:
  "\<exists>pk b pk' s. PrivateKeys_CreateRandomKeys id (\<lambda>n. replicate n 3) toy_gen (replicate 256 1, replicate 256 2)
       (replicate 256 1, replicate 256 2) (identity_of_bytes []) 6 = Some pk \<and>
     PrivateKeys_FromBuffer id (PrivateKeys_new (identity_of_bytes [])) b (length b) = Some (pk', length b) \<and>
     PrivateKeys_Sign toy_sig_env pk' [1, 2] = Some s"
  using identity_sign_verify [OF toy_gen_ok, of "(replicate 256 1, replicate 256 2)" "(replicate 256 1, replicate 256 2)"
      "\<lambda>n. replicate n 3" id "identity_of_bytes []" 6 "[1, 2]"] by auto

text \<open>
  C25: a certificate that is longer than the buffer it is read from leaves \<open>IdentityEx\<close> with a
  deleted buffer: \<open>FromBuffer\<close> reports failure, and the next \<open>FromBuffer\<close>, copy, \<open>ToBuffer\<close> or
  key type query uses memory that was freed.
\<close>

theorem IdentityEx_FromBuffer_dangling:
  assumes "387 \<le> length raw" and "387 \<le> len" and "len < be_val (take 2 (drop 385 raw)) + 387"
    and "ix_ext ix = Buffer b" and "387 \<le> length raw2" and "387 \<le> len2"
  shows "\<exists>ix'. IdentityEx_FromBuffer sha ix raw len = Some (ix', 0) \<and>
    IdentityEx_FromBuffer sha ix' raw2 len2 = None \<and> IdentityEx_assign ix' other = None \<and>
    IdentityEx_assign other ix' = None \<and> IdentityEx_ToBuffer ix' buf off = None \<and>
    (raw ! 384 = CERTIFICATE_TYPE_KEY \<longrightarrow> GetSigningKeyType ix' = None)"
proof -
  let ?i = "identity_of_bytes (take 387 raw)" and ?n = "be_val (take 2 (drop 385 raw))"
  let ?ix = "ix\<lparr>ix_standard := ?i, ix_ext := Freed, ix_ext_len := ?n\<rparr>"
  have r: "mem_read raw 0 387 = Some (take 387 raw)" "mem_read raw2 0 387 = Some (take 387 raw2)"
    using assms(1,5) by (simp_all add: mem_read_def)
  have cl: "id_cert_length ?i = take 2 (drop 385 raw)" using assms(1) by (simp add: identity_of_bytes_def drop_take min_def)
  have "length (take 2 (drop 385 raw)) = 2" using assms(1) by simp
  then have "?n < 65536" using be_val_bound [of "take 2 (drop 385 raw)"] by simp
  then have u: "unat (word_of_nat ?n :: 16 word) = ?n" by (simp add: unat_of_nat)
  have "0 < ?n" using assms(2,3) by simp
  then have z: "(word_of_nat ?n :: 16 word) \<noteq> 0" using u by (metis unat_0 less_irrefl)
  have c: "bufbe16toh (take 2 (drop 385 raw)) 0 = Some (word_of_nat ?n)"
    using assms(1) by (simp add: bufbe16toh_be_val mem_read_def)
  have "\<not> (?n + 387 \<le> len)" "\<not> len < 387" using assms(2,3) by simp_all
  then have "IdentityEx_FromBuffer sha ix raw len = Some (?ix, 0)"
    using r(1) cl c z u assms(4) by (simp add: IdentityEx_FromBuffer_def identity_defs)
  moreover have "IdentityEx_FromBuffer sha ?ix raw2 len2 = None"
    using r(2) assms(6) by (simp add: IdentityEx_FromBuffer_def identity_defs)
  moreover have "IdentityEx_assign ?ix other = None" by (simp add: IdentityEx_assign_def)
  moreover have "IdentityEx_assign other ?ix = None"
    using \<open>0 < ?n\<close> by (cases "ix_ext other") (simp_all add: IdentityEx_assign_def)
  moreover have "IdentityEx_ToBuffer ?ix buf off = None"
    using \<open>0 < ?n\<close> by (cases "mem_write buf off (identity_bytes ?i)") (simp_all add: IdentityEx_ToBuffer_def)
  moreover have "raw ! 384 = CERTIFICATE_TYPE_KEY \<longrightarrow> GetSigningKeyType ?ix = None"
    using assms(1) by (simp add: GetSigningKeyType_def identity_of_bytes_def)
  ultimately show ?thesis by blast
qed

theorem IdentityEx_FromBuffer_dangling_witness:
  "\<exists>ix'. IdentityEx_FromBuffer id (fresh_identity\<lparr>ix_ext_len := 4, ix_ext := Buffer [0, 1, 0, 0]\<rparr>)
      (replicate 384 0 @ [5, 0, 9]) 387 = Some (ix', 0) \<and>
    IdentityEx_FromBuffer id ix' (replicate 387 0) 387 = None"
  using IdentityEx_FromBuffer_dangling [of "replicate 384 0 @ [5, 0, 9]" 387
      "fresh_identity\<lparr>ix_ext_len := 4, ix_ext := Buffer [0, 1, 0, 0]\<rparr>" "[0, 1, 0, 0]" "replicate 387 0" 387 id fresh_identity "[]" 0]
  by (auto simp: be_val_def)

text \<open>A fresh identity, all zero, verifies with the DSA key of zeros.\<close>

lemma be_val_replicate_0: "be_val (replicate n 0) = 0"
  by (induction n) (simp_all add: be_val_def)

lemma fresh_verifies: "verifies_with (fresh_identity\<lparr>ix_hash := h\<rparr>) \<lparr>v_kind = DSA, v_key = replicate 128 0\<rparr>"
  by (simp add: verifies_with_def fresh_identity_def ix_ok_def identity_of_bytes_def identity_ok_def CreateVerifier_def GetSigningKeyType_def
      identity_defs kind_of_type_def be_val_replicate_0)

end
