(* ===== verification/Core_LeaseSet.thy ===== *)
theory Core_LeaseSet
  imports Core_Identity
begin

text \<open>
  Lease sets, \<open>src/core/LeaseSet.cpp\<close>: the buffer that is published, reading it, the lease set of a local
  destination, and the leases that have not expired.

  \<open>m_Buffer\<close> is a list as long as its allocation. What the network database is asked for while a
  lease set is read is returned as a list of hashes.
\<close>

section \<open>Data\<close>

definition TUNNEL_EXPIRATION_TIMEOUT :: nat where [identity_defs]: "TUNNEL_EXPIRATION_TIMEOUT = 660"
definition TUNNEL_EXPIRATION_THRESHOLD :: nat where [identity_defs]: "TUNNEL_EXPIRATION_THRESHOLD = 60"
definition MAX_LS_BUFFER_SIZE :: nat where [identity_defs]: "MAX_LS_BUFFER_SIZE = 3072"

record lease =
  le_gateway :: ident_hash
  le_tunnelID :: "32 word"
  le_endDate :: "64 word"

text \<open>\<open>Lease::operator<\<close>: the lease that ends last comes first.\<close>

definition lease_less :: "lease \<Rightarrow> lease \<Rightarrow> bool" where
  "lease_less a b \<longleftrightarrow>
     (if le_endDate a \<noteq> le_endDate b then le_endDate a > le_endDate b else le_tunnelID a < le_tunnelID b)"

record LeaseSet =
  ls_IsValid :: bool
  ls_Leases :: "lease list"
  ls_Identity :: IdentityEx
  ls_EncryptionKey :: bytes
  ls_Buffer :: "bytes option"
  ls_BufferLen :: nat

section \<open>Reading\<close>

fun read_leases :: "nat \<Rightarrow> bytes \<Rightarrow> nat \<Rightarrow> (lease list \<times> nat) option" where
  "read_leases 0 buf pos = Some ([], pos)"
| "read_leases (Suc n) buf pos = do {
     gateway \<leftarrow> mem_read buf pos 32;
     tunnelID \<leftarrow> bufbe32toh buf (pos + 32);
     endDate \<leftarrow> bufbe64toh buf (pos + 36);
     (leases, pos) \<leftarrow> read_leases n buf (pos + 44);
     Some (\<lparr>le_gateway = gateway, le_tunnelID = tunnelID, le_endDate = endDate\<rparr> # leases, pos) }"

text \<open>The signature the verifier reads lies behind the leases; without a verifier nothing is read.\<close>

definition verify_at :: "sig_env \<Rightarrow> IdentityEx \<Rightarrow> bytes \<Rightarrow> nat \<Rightarrow> (IdentityEx \<times> bool) option" where
  "verify_at sigs ix buf pos = do {
     ix \<leftarrow> lazy_verifier ix;
     (case ix_verifier ix of
        None \<Rightarrow> Some (ix, False)
      | Some v \<Rightarrow> do {
          signature \<leftarrow> mem_read buf pos (signature_len (v_kind v));
          msg \<leftarrow> mem_read buf 0 pos;
          IdentityEx_Verify sigs ix msg signature }) }"

definition LeaseSet_ReadFromBuffer :: "sig_env \<Rightarrow> (bytes \<Rightarrow> bytes) \<Rightarrow> (ident_hash \<Rightarrow> bool) \<Rightarrow> LeaseSet \<Rightarrow> (LeaseSet \<times> ident_hash list) option" where
  "LeaseSet_ReadFromBuffer sigs sha known ls = do {
     buf \<leftarrow> ls_Buffer ls;
     (ix, size) \<leftarrow> IdentityEx_FromBuffer sha (ls_Identity ls) buf (ls_BufferLen ls);
     key \<leftarrow> mem_read buf size 256;
     (ix, signingKeyLen) \<leftarrow> GetSigningPublicKeyLen ix;
     let size = size + 256 + signingKeyLen;
     num \<leftarrow> map_option (unat \<circ> hd) (mem_read buf size 1);
     (leases, pos) \<leftarrow> read_leases num buf (size + 1);
     (ix, good) \<leftarrow> verify_at sigs ix buf pos;
     Some (ls\<lparr>ls_Identity := ix, ls_EncryptionKey := key, ls_Leases := ls_Leases ls @ leases,
         ls_IsValid := (ls_IsValid ls \<and> num \<noteq> 0 \<and> good)\<rparr>,
       filter (\<lambda>h. \<not> known h) (map le_gateway leases)) }"

text \<open>The constructor from a buffer; \<open>junk\<close> is the identity before it is read.\<close>

definition LeaseSet_received :: "sig_env \<Rightarrow> (bytes \<Rightarrow> bytes) \<Rightarrow> (ident_hash \<Rightarrow> bool) \<Rightarrow> IdentityEx \<Rightarrow> bytes \<Rightarrow> (LeaseSet \<times> ident_hash list) option" where
  "LeaseSet_received sigs sha known junk buf = LeaseSet_ReadFromBuffer sigs sha known
     \<lparr>ls_IsValid = True, ls_Leases = [], ls_Identity = junk, ls_EncryptionKey = replicate 256 0, ls_Buffer = Some buf, ls_BufferLen = length buf\<rparr>"

definition LeaseSet_Update :: "sig_env \<Rightarrow> (bytes \<Rightarrow> bytes) \<Rightarrow> (ident_hash \<Rightarrow> bool) \<Rightarrow> bytes \<Rightarrow> LeaseSet \<Rightarrow> (LeaseSet \<times> ident_hash list) option" where
  "LeaseSet_Update sigs sha known buf ls = do {
     old \<leftarrow> (if length buf > ls_BufferLen ls then Some buf else ls_Buffer ls);
     b \<leftarrow> mem_write old 0 buf;
     LeaseSet_ReadFromBuffer sigs sha known (ls\<lparr>ls_Leases := [], ls_Buffer := Some b, ls_BufferLen := length buf\<rparr>) }"

section \<open>The lease set of a local destination\<close>

text \<open>An inbound tunnel as far as its lease is concerned, and a local destination.\<close>

record lease_tunnel =
  lt_NextIdentHash :: ident_hash
  lt_NextTunnelID :: "32 word"
  lt_CreationTime :: "32 word"

record local_destination =
  ld_keys :: PrivateKeys
  ld_encryptionPublicKey :: bytes

definition lease_end :: "32 word \<Rightarrow> 32 word \<Rightarrow> 64 word" where
  "lease_end creationTime rnd =
     ucast (creationTime + word_of_nat TUNNEL_EXPIRATION_TIMEOUT - word_of_nat TUNNEL_EXPIRATION_THRESHOLD) * 1000 + ucast rnd"

text \<open>\<open>rnds\<close> are the draws of 0 to 5 milliseconds.\<close>

fun write_leases :: "lease_tunnel list \<Rightarrow> 32 word list \<Rightarrow> bytes \<Rightarrow> nat \<Rightarrow> (bytes \<times> nat) option" where
  "write_leases (t # ts) (r # rs) buf pos = do {
     buf \<leftarrow> mem_write buf pos (lt_NextIdentHash t);
     buf \<leftarrow> htobe32buf buf (pos + 32) (lt_NextTunnelID t);
     buf \<leftarrow> htobe64buf buf (pos + 36) (lease_end (lt_CreationTime t) r);
     write_leases ts rs buf (pos + 44) }"
| "write_leases _ _ buf pos = Some (buf, pos)"

definition LeaseSet_local :: "sig_env \<Rightarrow> (bytes \<Rightarrow> bytes) \<Rightarrow> (ident_hash \<Rightarrow> bool) \<Rightarrow> IdentityEx \<Rightarrow> bytes \<Rightarrow> local_destination option \<Rightarrow>
    lease_tunnel list \<Rightarrow> 32 word list \<Rightarrow> (LeaseSet \<times> ident_hash list) option" where
  "LeaseSet_local sigs sha known junk garbage localDestination tunnels rnds = (case localDestination of
       None \<Rightarrow> Some (\<lparr>ls_IsValid = False, ls_Leases = [], ls_Identity = junk, ls_EncryptionKey = replicate 256 0,
                 ls_Buffer = None, ls_BufferLen = 0\<rparr>, [])
     | Some ld \<Rightarrow> do {
         let ident = pk_public (ld_keys ld);
         (buf, len) \<leftarrow> IdentityEx_ToBuffer ident garbage 0;
         buf \<leftarrow> mem_write buf len (ld_encryptionPublicKey ld);
         let len = len + 256;
         (ident, signingKeyLen) \<leftarrow> GetSigningPublicKeyLen ident;
         buf \<leftarrow> mem_write buf len (replicate signingKeyLen 0);
         let len = len + signingKeyLen;
         buf \<leftarrow> mem_write buf len [word_of_nat (length tunnels)];
         (buf, len) \<leftarrow> write_leases tunnels rnds buf (len + 1);
         msg \<leftarrow> mem_read buf 0 len;
         buf \<leftarrow> (case PrivateKeys_Sign sigs (ld_keys ld) msg of Some sig \<Rightarrow> mem_write buf len sig | None \<Rightarrow> Some buf);
         (ident, sigLen) \<leftarrow> GetSignatureLen ident;
         LeaseSet_ReadFromBuffer sigs sha known
           \<lparr>ls_IsValid = True, ls_Leases = [], ls_Identity = junk, ls_EncryptionKey = replicate 256 0,
            ls_Buffer = Some buf, ls_BufferLen = len + sigLen\<rparr> })"

section \<open>Expiration\<close>

definition GetNonExpiredLeases :: "64 word \<Rightarrow> bool \<Rightarrow> LeaseSet \<Rightarrow> lease list" where
  "GetNonExpiredLeases ts withThreshold ls =
     filter (\<lambda>l. ts < (if \<not> withThreshold then le_endDate l - word_of_nat (TUNNEL_EXPIRATION_THRESHOLD * 1000) else le_endDate l)) (ls_Leases ls)"

definition HasExpiredLeases :: "64 word \<Rightarrow> LeaseSet \<Rightarrow> bool" where
  "HasExpiredLeases ts ls \<longleftrightarrow> (\<exists>l \<in> set (ls_Leases ls). ts \<ge> le_endDate l)"

definition HasNonExpiredLeases :: "64 word \<Rightarrow> LeaseSet \<Rightarrow> bool" where
  "HasNonExpiredLeases ts ls \<longleftrightarrow> (\<exists>l \<in> set (ls_Leases ls). ts < le_endDate l)"

section \<open>What is published\<close>

text \<open>The bytes of a lease set of an identity, before its signature.\<close>

definition lease_of :: "lease_tunnel \<Rightarrow> 32 word \<Rightarrow> lease" where
  "lease_of t r = \<lparr>le_gateway = lt_NextIdentHash t, le_tunnelID = lt_NextTunnelID t, le_endDate = lease_end (lt_CreationTime t) r\<rparr>"

definition lease_bytes :: "lease \<Rightarrow> bytes" where
  "lease_bytes l = le_gateway l @ be_bytes 4 (unat (le_tunnelID l)) @ be_bytes 8 (unat (le_endDate l))"

definition leaseset_bytes :: "IdentityEx \<Rightarrow> bytes \<Rightarrow> nat \<Rightarrow> lease list \<Rightarrow> bytes" where
  "leaseset_bytes ix key signingKeyLen leases =
     ix_bytes ix @ key @ replicate signingKeyLen 0 @ [word_of_nat (length leases)] @ concat (map lease_bytes leases)"

lemma length_lease_bytes: "length (le_gateway l) = 32 \<Longrightarrow> length (lease_bytes l) = 44"
  by (simp add: lease_bytes_def)

lemma read_leases_bytes:
  assumes "\<forall>l \<in> set leases. length (le_gateway l) = 32" and "pos = length a"
  shows "read_leases (length leases) (a @ concat (map lease_bytes leases) @ rest) pos = Some (leases, pos + 44 * length leases)"
  using assms
proof (induction leases arbitrary: a pos)
  case (Cons l leases)
  have l: "length (le_gateway l) = 32" using Cons.prems by simp
  let ?b = "a @ concat (map lease_bytes (l # leases)) @ rest"
  have "read_leases (length leases) ((a @ lease_bytes l) @ concat (map lease_bytes leases) @ rest) (pos + 44) = Some (leases, pos + 44 + 44 * length leases)"
    by (rule Cons.IH) (use Cons.prems l in \<open>simp_all add: length_lease_bytes\<close>)
  moreover have "mem_read ?b pos 32 = Some (le_gateway l)" "bufbe32toh ?b (pos + 32) = Some (le_tunnelID l)"
    "bufbe64toh ?b (pos + 36) = Some (le_endDate l)"
    using l Cons.prems(2) by (simp_all add: lease_bytes_def mem_read_def bufbe32toh_be_val bufbe64toh_be_val byte_simps)
  ultimately show ?case by simp
qed simp

lemma write_leases_patch:
  assumes "length rnds = length tunnels" and "\<forall>t \<in> set tunnels. length (lt_NextIdentHash t) = 32"
    and "pos + 44 * length tunnels \<le> length buf"
  shows "write_leases tunnels rnds buf pos =
    Some (patch buf pos (concat (map lease_bytes (map2 lease_of tunnels rnds))), pos + 44 * length tunnels)"
  using assms
proof (induction tunnels arbitrary: rnds buf pos)
  case (Cons t tunnels)
  obtain r rs where r: "rnds = r # rs" using Cons.prems(1) by (cases rnds) auto
  have l: "length (lt_NextIdentHash t) = 32" "length (lease_bytes (lease_of t r)) = 44"
    using Cons.prems(2) by (simp_all add: lease_of_def lease_bytes_def)
  let ?p = "patch buf pos (lease_bytes (lease_of t r))"
  have "write_leases (t # tunnels) (r # rs) buf pos = write_leases tunnels rs ?p (pos + 44)"
    using l Cons.prems(3)
    by (simp add: htobe32buf_mem_write htobe64buf_mem_write mem_write_patch patch_patch lease_bytes_def lease_of_def)
  also have "\<dots> = Some (patch ?p (pos + 44) (concat (map lease_bytes (map2 lease_of tunnels rs))), pos + 44 + 44 * length tunnels)"
    by (rule Cons.IH) (use Cons.prems r l in simp_all)
  also have "patch ?p (pos + 44) (concat (map lease_bytes (map2 lease_of tunnels rs))) =
      patch buf pos (concat (map lease_bytes (map2 lease_of (t # tunnels) (r # rs))))"
  proof -
    have "length (concat (map lease_bytes (map2 lease_of tunnels rs))) = 44 * length tunnels"
    proof -
      have "sum_list (map (length \<circ> lease_bytes) (map2 lease_of tunnels rs)) = sum_list (map (\<lambda>_. 44) (map2 lease_of tunnels rs))"
        using Cons.prems(2) by (intro arg_cong [where f = sum_list] map_cong) (auto simp: lease_of_def lease_bytes_def dest: set_zip_leftD)
      then show ?thesis using Cons.prems(1) r by (simp add: length_concat sum_list_triv comp_def)
    qed
    then show ?thesis using l Cons.prems(3) by (simp add: patch_patch)
  qed
  finally show ?case by (simp add: r)
qed simp


lemma verifies_with_public_key_len:
  assumes "verifies_with ix v"
  shows "GetSigningPublicKeyLen ix = Some (ix\<lparr>ix_verifier := Some v\<rparr>, public_key_len (v_kind v))"
  using verifies_with_lazy(1) [OF assms] by (simp add: GetSigningPublicKeyLen_def)

lemma concat_lease_bytes_length:
  assumes "\<forall>l \<in> set leases. length (le_gateway l) = 32"
  shows "length (concat (map lease_bytes leases)) = 44 * length leases"
  using assms by (induction leases) (simp_all add: length_lease_bytes)

lemma length_leaseset_bytes:
  assumes "ix_ok ix" and "length key = 256" and "\<forall>l \<in> set leases. length (le_gateway l) = 32"
  shows "length (leaseset_bytes ix key n leases) = GetFullLen ix + 257 + n + 44 * length leases"
  using assms by (simp add: leaseset_bytes_def length_ix_bytes concat_lease_bytes_length)

lemma LeaseSet_read:
  assumes v: "verifies_with ix v" and junk: "ix_ext (ls_Identity ls) \<noteq> Freed"
    and key: "length key = 256" and num: "length leases \<le> 255" and gw: "\<forall>l \<in> set leases. length (le_gateway l) = 32"
    and sig: "length sig = signature_len (v_kind v)"
    and buf: "ls_Buffer ls = Some (leaseset_bytes ix key (public_key_len (v_kind v)) leases @ sig @ rest)"
    and len: "GetFullLen ix \<le> ls_BufferLen ls"
  obtains ix' where "ix_bytes ix' = ix_bytes ix" "ix_hash ix' = sha (ix_bytes ix)"
    "LeaseSet_ReadFromBuffer sigs sha known ls = Some (ls\<lparr>ls_Identity := ix', ls_EncryptionKey := key, ls_Leases := ls_Leases ls @ leases,
       ls_IsValid := (ls_IsValid ls \<and> leases \<noteq> [] \<and>
         sig_verify sigs (v_kind v) (v_key v) (leaseset_bytes ix key (public_key_len (v_kind v)) leases) sig)\<rparr>,
       filter (\<lambda>h. \<not> known h) (map le_gateway leases))"
proof -
  let ?n = "public_key_len (v_kind v)" and ?L = "concat (map lease_bytes leases)"
  let ?M = "leaseset_bytes ix key ?n leases" and ?c = "word_of_nat (length leases) :: byte"
  have ok: "ix_ok ix" using v by (simp add: verifies_with_def)
  have li: "length (ix_bytes ix) = GetFullLen ix" using ok by (rule length_ix_bytes)
  have lm: "length ?M = GetFullLen ix + 257 + ?n + 44 * length leases" by (rule length_leaseset_bytes [OF ok key gw])
  obtain ix1 where r: "IdentityEx_FromBuffer sha (ls_Identity ls) (?M @ sig @ rest) (ls_BufferLen ls) = Some (ix1, GetFullLen ix)"
    and v1: "verifies_with ix1 v" and b1: "ix_bytes ix1 = ix_bytes ix" "ix_hash ix1 = sha (ix_bytes ix)"
    using verifies_with_received [OF v junk len, of sha "key @ replicate ?n 0 @ [?c] @ ?L @ sig @ rest"] by (auto simp: leaseset_bytes_def)
  let ?ix = "ix1\<lparr>ix_verifier := Some v\<rparr>"
  have v2: "verifies_with ?ix v" by (rule verifies_with_lazy(2) [OF v1])
  have k: "mem_read (?M @ sig @ rest) (GetFullLen ix) 256 = Some key"
    using li key by (simp add: leaseset_bytes_def mem_read_def)
  have c: "mem_read (?M @ sig @ rest) (GetFullLen ix + 256 + ?n) 1 = Some [?c]"
    using li key by (simp add: leaseset_bytes_def mem_read_def)
  have u: "unat ?c = length leases" using num by (simp add: unat_of_nat)
  have rl: "read_leases (length leases) (?M @ sig @ rest) (GetFullLen ix + 256 + ?n + 1) = Some (leases, length ?M)"
    using read_leases_bytes [OF gw, of "GetFullLen ix + 256 + ?n + 1" "ix_bytes ix @ key @ replicate ?n 0 @ [?c]" "sig @ rest"] li key lm
    by (simp add: leaseset_bytes_def add.commute)
  have s: "mem_read (?M @ sig @ rest) (length ?M) (signature_len (v_kind v)) = Some sig" "mem_read (?M @ sig @ rest) 0 (length ?M) = Some ?M"
    using sig by (simp_all add: mem_read_def)
  have va: "verify_at sigs ?ix (?M @ sig @ rest) (length ?M) = Some (?ix, sig_verify sigs (v_kind v) (v_key v) ?M sig)"
    using verifies_with_lazy(1,5) [OF v2] s by (simp add: verify_at_def)
  show thesis
  proof (rule that [of ?ix])
    show "ix_bytes ?ix = ix_bytes ix" "ix_hash ?ix = sha (ix_bytes ix)" using b1 by simp_all
    show "LeaseSet_ReadFromBuffer sigs sha known ls = Some (ls\<lparr>ls_Identity := ?ix, ls_EncryptionKey := key, ls_Leases := ls_Leases ls @ leases,
       ls_IsValid := (ls_IsValid ls \<and> leases \<noteq> [] \<and> sig_verify sigs (v_kind v) (v_key v) ?M sig)\<rparr>, filter (\<lambda>h. \<not> known h) (map le_gateway leases))"
      by (simp only: LeaseSet_ReadFromBuffer_def buf r k verifies_with_public_key_len [OF v1] c u rl va Let_def option.map comp_apply list.sel
        Option.bind.bind_lunit prod.case) (simp add: conj_ac)
  qed
qed

text \<open>
  C36: the lease set a local destination publishes is read by any router as it was made: the same
  leases (gateway, tunnel ID and end date of at most five inbound tunnels), encryption key and
  identity hash; it is valid on both sides exactly if it has a lease, and the reader asks for exactly
  the gateways it does not know.
\<close>

theorem leaseset_published:
  assumes "signs_with (ld_keys ld) k priv pub"
    and "\<forall>m. length (sig_sign sigs k priv m) = signature_len k \<and> sig_verify sigs k pub m (sig_sign sigs k priv m)"
    and "length (ld_encryptionPublicKey ld) = 256" and "length tunnels \<le> 5" and "length rnds = length tunnels"
    and "\<forall>t \<in> set tunnels. length (lt_NextIdentHash t) = 32" and "ix_ext junk \<noteq> Freed" and "ix_ext junk' \<noteq> Freed"
    and "length garbage = MAX_LS_BUFFER_SIZE"
    and "GetFullLen (pk_public (ld_keys ld)) + 257 + public_key_len k + 44 * length tunnels + signature_len k \<le> MAX_LS_BUFFER_SIZE"
  shows "\<exists>ls requests buf ls' requests'.
    LeaseSet_local sigs sha known junk garbage (Some ld) tunnels rnds = Some (ls, requests) \<and>
    ls_Buffer ls = Some buf \<and> ls_Leases ls = map2 lease_of tunnels rnds \<and> ls_IsValid ls = (tunnels \<noteq> []) \<and>
    LeaseSet_received sigs sha known' junk' (take (ls_BufferLen ls) buf) = Some (ls', requests') \<and>
    ls_Leases ls' = map2 lease_of tunnels rnds \<and> ls_IsValid ls' = (tunnels \<noteq> []) \<and>
    ls_EncryptionKey ls' = ld_encryptionPublicKey ld \<and> ix_hash (ls_Identity ls') = sha (ix_bytes (pk_public (ld_keys ld))) \<and>
    requests' = filter (\<lambda>h. \<not> known' h) (map lt_NextIdentHash tunnels)"
proof -
  let ?ix = "pk_public (ld_keys ld)" and ?v = "\<lparr>v_kind = k, v_key = pub\<rparr>" and ?n = "public_key_len k" and ?key = "ld_encryptionPublicKey ld"
  let ?leases = "map2 lease_of tunnels rnds" and ?c = "word_of_nat (length tunnels) :: byte"
  let ?L = "concat (map lease_bytes ?leases)" and ?a = "ix_bytes ?ix"
  have v: "verifies_with ?ix ?v" and signer: "pk_signer (ld_keys ld) = Some (k, priv)" using assms(1) by (simp_all add: signs_with_def)
  have ok: "ix_ok ?ix" using v by (simp add: verifies_with_def)
  have li: "length ?a = GetFullLen ?ix" by (rule length_ix_bytes [OF ok])
  have gw: "\<forall>l \<in> set ?leases. length (le_gateway l) = 32" using assms(6) by (auto simp: lease_of_def dest: set_zip_leftD)
  have ll: "length ?leases = length tunnels" using assms(5) by simp
  have lL: "length ?L = 44 * length tunnels" using concat_lease_bytes_length [OF gw] ll by simp
  let ?M = "leaseset_bytes ?ix ?key ?n ?leases"
  have M: "?M = ?a @ ?key @ replicate ?n 0 @ [?c] @ ?L" using ll by (simp add: leaseset_bytes_def)
  have lM: "length ?M = GetFullLen ?ix + 257 + ?n + 44 * length tunnels"
    using length_leaseset_bytes [OF ok assms(3) gw] ll by simp
  have fit: "length ?M + signature_len k \<le> length garbage" using assms(9,10) lM by simp
  let ?sig = "sig_sign sigs k priv ?M"
  have sig: "length ?sig = signature_len k" "sig_verify sigs k pub ?M ?sig" using assms(2) by simp_all
  let ?g = garbage
  have w: "IdentityEx_ToBuffer ?ix ?g 0 = Some (patch ?g 0 ?a, GetFullLen ?ix)"
    using IdentityEx_ToBuffer_eq [OF ok, of 0 ?g] fit lM by simp
  have w2: "mem_write (patch ?g 0 ?a) (GetFullLen ?ix) ?key = Some (patch ?g 0 (?a @ ?key))"
    using fit lM li assms(3) by (simp add: mem_write_patch patch_patch)
  have w3: "mem_write (patch ?g 0 (?a @ ?key)) (GetFullLen ?ix + 256) (replicate ?n 0) = Some (patch ?g 0 ((?a @ ?key) @ replicate ?n 0))"
    using fit lM li assms(3) by (simp add: mem_write_patch patch_patch)
  have w4: "mem_write (patch ?g 0 ((?a @ ?key) @ replicate ?n 0)) (GetFullLen ?ix + 256 + ?n) [?c] = Some (patch ?g 0 (((?a @ ?key) @ replicate ?n 0) @ [?c]))"
    using fit lM li assms(3) by (simp add: mem_write_patch patch_patch)
  let ?p = "patch ?g 0 (((?a @ ?key) @ replicate ?n 0) @ [?c])"
  have "write_leases tunnels rnds ?p (GetFullLen ?ix + 256 + ?n + 1) = Some (patch ?p (GetFullLen ?ix + 256 + ?n + 1) ?L, GetFullLen ?ix + 256 + ?n + 1 + 44 * length tunnels)"
    by (rule write_leases_patch [OF assms(5,6)]) (use fit lM li assms(3) in simp)
  moreover have "patch ?p (GetFullLen ?ix + 256 + ?n + 1) ?L = patch ?g 0 ?M"
    using fit lM li assms(3) lL by (simp add: patch_patch M)
  ultimately have w5: "write_leases tunnels rnds ?p (GetFullLen ?ix + 256 + ?n + 1) = Some (patch ?g 0 ?M, length ?M)"
    using lM by simp
  have w6: "mem_read (patch ?g 0 ?M) 0 (length ?M) = Some ?M" using fit by (simp add: mem_read_def patch_def)
  have w7: "mem_write (patch ?g 0 ?M) (length ?M) ?sig = Some (?M @ ?sig @ drop (length ?M + signature_len k) ?g)"
    using fit sig(1) by (simp add: mem_write_def patch_def add.commute)
  have gl: "GetSigningPublicKeyLen ?ix = Some (?ix\<lparr>ix_verifier := Some ?v\<rparr>, ?n)"
    using verifies_with_public_key_len [OF v] by simp
  have gs: "GetSignatureLen (?ix\<lparr>ix_verifier := Some ?v\<rparr>) = Some (?ix\<lparr>ix_verifier := Some ?v\<rparr>, signature_len k)"
    using verifies_with_lazy(3) [OF verifies_with_lazy(2) [OF v]] by simp
  let ?buf = "?M @ ?sig @ drop (length ?M + signature_len k) ?g"
  let ?ls = "\<lparr>ls_IsValid = True, ls_Leases = [], ls_Identity = junk, ls_EncryptionKey = replicate 256 0,
            ls_Buffer = Some (?M @ ?sig @ drop (length ?M + signature_len k) ?g), ls_BufferLen = length ?M + signature_len k\<rparr>"
  have loc: "LeaseSet_local sigs sha known junk garbage (Some ld) tunnels rnds = LeaseSet_ReadFromBuffer sigs sha known ?ls"
    using signer by (simp only: LeaseSet_local_def option.case Let_def w w2 w3 w4 w5 w6 w7 gl gs PrivateKeys_Sign_def option.map prod.case
        Option.bind.bind_lunit)
  have num: "length ?leases \<le> 255" using ll assms(4) by simp
  obtain ix1 where r1: "LeaseSet_ReadFromBuffer sigs sha known ?ls = Some (?ls\<lparr>ls_Identity := ix1, ls_EncryptionKey := ?key, ls_Leases := [] @ ?leases,
       ls_IsValid := (True \<and> ?leases \<noteq> [] \<and> sig_verify sigs k pub ?M ?sig)\<rparr>, filter (\<lambda>h. \<not> known h) (map le_gateway ?leases))"
    by (rule LeaseSet_read [of ?ix ?v ?ls ?key ?leases ?sig "drop (length ?M + signature_len k) ?g" sha sigs known])
      (use v assms(3,7) num gw sig lM in simp_all)
  let ?ls2 = "\<lparr>ls_IsValid = True, ls_Leases = [], ls_Identity = junk', ls_EncryptionKey = replicate 256 0, ls_Buffer = Some (?M @ ?sig),
     ls_BufferLen = length (?M @ ?sig)\<rparr>"
  obtain ix2 where r2: "LeaseSet_ReadFromBuffer sigs sha known' ?ls2 = Some (?ls2\<lparr>ls_Identity := ix2, ls_EncryptionKey := ?key, ls_Leases := [] @ ?leases,
       ls_IsValid := (True \<and> ?leases \<noteq> [] \<and> sig_verify sigs k pub ?M ?sig)\<rparr>, filter (\<lambda>h. \<not> known' h) (map le_gateway ?leases))"
    and h2: "ix_hash ix2 = sha ?a"
    by (rule LeaseSet_read [of ?ix ?v ?ls2 ?key ?leases ?sig "[]" sha sigs known'])
      (use v assms(3,8) num gw sig lM in simp_all)
  have ne: "(?leases \<noteq> []) = (tunnels \<noteq> [])" using ll by (metis length_0_conv)
  have gws: "map le_gateway ?leases = map lt_NextIdentHash tunnels"
    using assms(5) by (simp add: lease_of_def case_prod_unfold comp_def map_fst_zip flip: map_map [of lt_NextIdentHash fst, unfolded comp_def])
  have tk: "take (length ?M + signature_len k) (?M @ ?sig @ drop (length ?M + signature_len k) ?g) = ?M @ ?sig" using sig(1) by simp
  let ?x = "?ls\<lparr>ls_Identity := ix1, ls_EncryptionKey := ?key, ls_Leases := [] @ ?leases,
       ls_IsValid := (True \<and> ?leases \<noteq> [] \<and> sig_verify sigs k pub ?M ?sig)\<rparr>"
  have E: "LeaseSet_local sigs sha known junk garbage (Some ld) tunnels rnds = Some (?x, filter (\<lambda>h. \<not> known h) (map le_gateway ?leases))"
    using loc r1 by (simp only:)
  have R: "LeaseSet_received sigs sha known' junk' (take (ls_BufferLen ?x) ?buf) = LeaseSet_ReadFromBuffer sigs sha known' ?ls2"
    using tk by (simp add: LeaseSet_received_def)
  show ?thesis
    by (rule exI, rule exI, rule exI [of _ ?buf], rule exI, rule exI, rule conjI, rule E, rule conjI, simp, rule conjI, simp, rule conjI,
        use ne sig(2) in simp, rule conjI, rule trans [OF R r2], use ne sig(2) h2 gws in simp)
qed


text \<open>A destination with all zero keys and two inbound tunnels.\<close>

definition sample_ld :: local_destination where
  "sample_ld = \<lparr>ld_keys = \<lparr>pk_public = fresh_identity, pk_privateKey = replicate 256 0, pk_signingKey = replicate 1024 0,
      pk_signer = Some (DSA, replicate (private_key_len DSA) 0)\<rparr>, ld_encryptionPublicKey = replicate 256 9\<rparr>"

definition sample_tunnels :: "lease_tunnel list" where
  "sample_tunnels = [\<lparr>lt_NextIdentHash = replicate 32 1, lt_NextTunnelID = 5, lt_CreationTime = 100000\<rparr>,
     \<lparr>lt_NextIdentHash = replicate 32 2, lt_NextTunnelID = 6, lt_CreationTime = 200000\<rparr>]"

definition sample_sigs :: sig_env where
  "sample_sigs = \<lparr>sig_verify = (\<lambda>k pub m s. s = replicate (signature_len k) 7), sig_sign = (\<lambda>k priv m. replicate (signature_len k) 7)\<rparr>"

theorem leaseset_published_witness:
  "\<exists>ls requests buf ls'. LeaseSet_local sample_sigs (\<lambda>_. replicate 32 0) (\<lambda>_. False) fresh_identity (replicate MAX_LS_BUFFER_SIZE 0) (Some sample_ld) sample_tunnels [3, 4] = Some (ls, requests) \<and>
    ls_Buffer ls = Some buf \<and>
    LeaseSet_received sample_sigs (\<lambda>_. replicate 32 0) (\<lambda>h. h = replicate 32 1) fresh_identity (take (ls_BufferLen ls) buf) = Some (ls', [replicate 32 2]) \<and>
    ls_Leases ls' = [\<lparr>le_gateway = replicate 32 1, le_tunnelID = 5, le_endDate = 100600003\<rparr>, \<lparr>le_gateway = replicate 32 2, le_tunnelID = 6, le_endDate = 200600004\<rparr>] \<and>
    ls_IsValid ls'"
proof -
  have s: "signs_with (ld_keys sample_ld) DSA (replicate (private_key_len DSA) 0) (replicate 128 0)"
    using fresh_verifies [of "[]"] by (auto simp: signs_with_def sample_ld_def fresh_identity_def)
  have l: "map2 lease_of sample_tunnels [3, 4] = [\<lparr>le_gateway = replicate 32 1, le_tunnelID = 5, le_endDate = 100600003\<rparr>, \<lparr>le_gateway = replicate 32 2, le_tunnelID = 6, le_endDate = 200600004\<rparr>]"
    by (simp add: lease_of_def sample_tunnels_def lease_end_def identity_defs)
  have f: "filter (\<lambda>h. h \<noteq> replicate 32 1) (map lt_NextIdentHash sample_tunnels) = [replicate 32 (2::byte)]"
    by (simp add: sample_tunnels_def)
  have v: "\<forall>m. length (sig_sign sample_sigs DSA (replicate (private_key_len DSA) 0) m) = signature_len DSA \<and>
      sig_verify sample_sigs DSA (replicate 128 0) m (sig_sign sample_sigs DSA (replicate (private_key_len DSA) 0) m)"
    by (simp add: sample_sigs_def)
  have g: "GetFullLen (pk_public (ld_keys sample_ld)) + 257 + public_key_len DSA + 44 * length sample_tunnels + signature_len DSA \<le> MAX_LS_BUFFER_SIZE"
    by (simp add: sample_ld_def sample_tunnels_def fresh_identity_def GetFullLen_def identity_defs)
  have t: "length sample_tunnels = 2" "length (ld_encryptionPublicKey sample_ld) = 256" "\<forall>t \<in> set sample_tunnels. length (lt_NextIdentHash t) = 32"
    by (simp_all add: sample_tunnels_def sample_ld_def)
  have j: "ix_ext fresh_identity \<noteq> Freed" by (simp add: fresh_identity_def)
  have g0: "length (replicate MAX_LS_BUFFER_SIZE 0) = MAX_LS_BUFFER_SIZE" by (rule length_replicate)
  have n: "length tunnels = 2 \<Longrightarrow> length tunnels \<le> 5 \<and> length [3, 4 :: 32 word] = length tunnels \<and> tunnels \<noteq> []" for tunnels :: "lease_tunnel list" by auto
  note n = n [OF t(1)]
  show ?thesis
    using leaseset_published [OF s v t(2) _ _ t(3) j j g0 g, of "[3, 4]" "\<lambda>_. replicate 32 0" "\<lambda>_. False" "\<lambda>h. h = replicate 32 1", unfolded l f] n
    by fast
qed

end
