(* ===== verification/Kovri_Containers.thy ===== *)
theory Kovri_Containers
  imports Kovri_Interfaces
begin

text \<open>
  The containers of the C++ standard library that the components use. A \<open>std::map\<close> is iterated in
  the order of its keys, so it is a list sorted by key; where only look-ups matter a HOL map is
  enough. Both are tables in the sense of the locale \<open>table\<close>, and the components use its lemmas.
\<close>

section \<open>Tables\<close>

locale table =
  fixes find :: "'t \<Rightarrow> 'k \<Rightarrow> 'v option" and put :: "'k \<Rightarrow> 'v \<Rightarrow> 't \<Rightarrow> 't" and del :: "'k \<Rightarrow> 't \<Rightarrow> 't"
    and ok :: "'t \<Rightarrow> bool"
  assumes find_put: "ok t \<Longrightarrow> find (put k v t) k' = (if k' = k then Some v else find t k')"
    and find_del: "ok t \<Longrightarrow> find (del k t) k' = (if k' = k then None else find t k')"
    and ok_put: "ok t \<Longrightarrow> ok (put k v t)"
    and ok_del: "ok t \<Longrightarrow> ok (del k t)"
begin

lemma find_put_same: "ok t \<Longrightarrow> find (put k v t) k = Some v"
  by (simp add: find_put)

lemma find_put_other: "ok t \<Longrightarrow> k' \<noteq> k \<Longrightarrow> find (put k v t) k' = find t k'"
  by (simp add: find_put)

lemma del_put: "ok t \<Longrightarrow> find (del k (put k v t)) k' = (if k' = k then None else find t k')"
  by (simp add: find_put find_del ok_put)

text \<open>A sequence of insertions: the last one for a key counts.\<close>

definition puts :: "('k \<times> 'v) list \<Rightarrow> 't \<Rightarrow> 't" where
  "puts kvs t = fold (\<lambda>(k, v). put k v) kvs t"

lemma ok_puts: "ok t \<Longrightarrow> ok (puts kvs t)"
  unfolding puts_def by (induction kvs arbitrary: t) (auto simp: ok_put)

lemma find_puts: "ok t \<Longrightarrow> find (puts kvs t) k = (case map_of (rev kvs) k of Some v \<Rightarrow> Some v | None \<Rightarrow> find t k)"
  unfolding puts_def
proof (induction kvs rule: rev_induct)
  case (snoc kv kvs)
  then show ?case
    using ok_puts [of t kvs] by (cases kv) (auto simp: find_put puts_def)
qed simp

end

section \<open>std::map as a sorted list\<close>

type_synonym ('k, 'v) omap = "('k \<times> 'v) list"

definition omap_ok :: "('k::linorder, 'v) omap \<Rightarrow> bool" where
  "omap_ok m \<longleftrightarrow> sorted_wrt (<) (map fst m)"

fun omap_put :: "'k::linorder \<Rightarrow> 'v \<Rightarrow> ('k, 'v) omap \<Rightarrow> ('k, 'v) omap" where
  "omap_put k v [] = [(k, v)]"
| "omap_put k v ((k', v') # m) =
     (if k < k' then (k, v) # (k', v') # m else if k = k' then (k, v) # m else (k', v') # omap_put k v m)"

definition omap_erase :: "'k \<Rightarrow> ('k, 'v) omap \<Rightarrow> ('k, 'v) omap" where
  "omap_erase k m = filter (\<lambda>kv. fst kv \<noteq> k) m"

abbreviation omap_find :: "('k, 'v) omap \<Rightarrow> 'k \<Rightarrow> 'v option" where
  "omap_find m k \<equiv> map_of m k"

text \<open>\<open>insert\<close> and \<open>emplace\<close> keep the value of a key that is present.\<close>

definition omap_insert :: "'k::linorder \<Rightarrow> 'v \<Rightarrow> ('k, 'v) omap \<Rightarrow> ('k, 'v) omap" where
  "omap_insert k v m = (if map_of m k = None then omap_put k v m else m)"

lemma set_omap_put: "set (omap_put k v m) \<subseteq> insert (k, v) (set m)"
  by (induction k v m rule: omap_put.induct) auto

lemma keys_omap_put: "fst ` set (omap_put k v m) = insert k (fst ` set m)"
  by (induction k v m rule: omap_put.induct) auto

lemma omap_put_ok: "omap_ok m \<Longrightarrow> omap_ok (omap_put k v m)"
proof (induction m)
  case (Cons kv m)
  obtain k' v' where kv: "kv = (k', v')" by (cases kv)
  have ok: "omap_ok m" "\<forall>x \<in> fst ` set m. k' < x" using Cons.prems by (simp_all add: omap_ok_def kv)
  then have "omap_ok (omap_put k v m)" by (simp add: Cons.IH)
  moreover have "\<forall>x \<in> fst ` set (omap_put k v m). k' < x" if "k' < k"
    using ok(2) that keys_omap_put [of k v m] by auto
  ultimately show ?case using ok by (auto simp: omap_ok_def kv)
qed (simp add: omap_ok_def)

lemma omap_erase_ok: "omap_ok m \<Longrightarrow> omap_ok (omap_erase k m)"
  unfolding omap_ok_def omap_erase_def
  by (induction m) auto

lemma map_of_omap_put: "map_of (omap_put k v m) k' = (if k' = k then Some v else map_of m k')"
  by (induction m) auto

lemma map_of_omap_erase: "map_of (omap_erase k m) k' = (if k' = k then None else map_of m k')"
  by (induction m) (auto simp: omap_erase_def)

interpretation omap: table "map_of :: ('k::linorder, 'v) omap \<Rightarrow> _" omap_put omap_erase omap_ok
  by unfold_locales (auto simp: map_of_omap_put map_of_omap_erase omap_put_ok omap_erase_ok)

lemma omap_put_absent: "map_of m k = None \<Longrightarrow> k \<notin> fst ` set m"
  by (simp add: map_of_eq_None_iff)

lemma omap_distinct: "omap_ok m \<Longrightarrow> distinct (map fst m)"
  unfolding omap_ok_def by (metis strict_sorted_iff)

lemma omap_erase_absent: "k \<notin> fst ` set m \<Longrightarrow> omap_erase k m = m"
  unfolding omap_erase_def by (rule filter_True) force

lemma omap_erase_put: "map_of m k = None \<Longrightarrow> omap_erase k (omap_put k v m) = m"
proof (induction m)
  case (Cons kv m)
  then show ?case
    using omap_erase_absent [of k m] by (cases kv) (auto simp: map_of_eq_None_iff omap_erase_def split: if_splits)
qed (simp add: omap_erase_def)

section \<open>Hash tables\<close>

text \<open>Where the order of iteration does not matter: a HOL map.\<close>

interpretation umap: table "\<lambda>t k. t k" "\<lambda>k v t. t(k \<mapsto> v)" "\<lambda>k t. t(k := None)" "\<lambda>_. True"
  by unfold_locales auto

end
