(* ===== verification/Tunnel_Manager.thy ===== *)
theory Tunnel_Manager
  imports Tunnel_Build Core_LeaseSet Kovri_Containers
begin

text \<open>
  The tunnels of the router: \<open>Tunnels\<close> of \<open>src/core/tunnel/Tunnel.cpp\<close> and \<open>src/core/tunnel/TunnelPool.cpp\<close>.

  Tunnels and pools are shared objects, so they live in a store and are referred to by numbers; a
  null pointer that is dereferenced is \<^term>\<open>None\<close>. A \<open>std::map\<close> is a sorted list, a \<open>std::set\<close> of
  tunnels a list in the order of \<open>TunnelCreationTimeCmp\<close>. What the manager tells other parts (messages
  to send, lease sets to publish, profiles) is a list of events. The clock stands still during one
  operation. Random draws, and the routers the network database proposes, are indexed by the number of
  draws so far.
\<close>

section \<open>Data\<close>

definition TUNNEL_RECREATION_THRESHOLD :: nat where [identity_defs]: "TUNNEL_RECREATION_THRESHOLD = 90"
definition TUNNEL_CREATION_TIMEOUT :: nat where [identity_defs]: "TUNNEL_CREATION_TIMEOUT = 30"

text \<open>\<open>tn_received\<close> is what the endpoint of an inbound tunnel has counted.\<close>

record tun =
  tn_hops :: "hop_config list"
  tn_inbound :: bool
  tn_state :: tunnel_state
  tn_recreated :: bool
  tn_pool :: "nat option"
  tn_created :: "32 word"
  tn_received :: nat

text \<open>The local destination of a pool: none, the router itself (0), or a client's destination.\<close>

record pool =
  pl_dest :: "nat option"
  pl_numInboundHops :: int
  pl_numOutboundHops :: int
  pl_numInboundTunnels :: int
  pl_numOutboundTunnels :: int
  pl_explicit :: "ident_hash list option"
  pl_inbound :: "nat list"
  pl_outbound :: "nat list"
  pl_tests :: "(32 word, nat option \<times> nat option) omap"
  pl_active :: bool

datatype tm_event =
    EvSend ident_hash i2np_msg
  | EvSendTunnel nat ident_hash "32 word" i2np_msg
  | EvTest nat nat "32 word"
  | EvLeaseSetUpdated nat
  | EvGarlic nat i2np_msg
  | EvDeliveryStatus nat i2np_msg
  | EvRequestRouter ident_hash
  | EvProfileReply router_ref byte
  | EvProfileNonReplied router_ref

record tmgr =
  tm_now :: "64 word"
  tm_count :: nat
  tm_next :: nat
  tm_mem :: "nat \<Rightarrow> tun"
  tm_inbound :: "(32 word, nat) omap"
  tm_outbound :: "nat list"
  tm_transit :: "(32 word, 32 word \<times> transit_tunnel \<times> transit_kind) omap"
  tm_pendingInbound :: "(32 word, nat) omap"
  tm_pendingOutbound :: "(32 word, nat) omap"
  tm_pools :: "nat list"
  tm_nextPool :: nat
  tm_pool :: "nat \<Rightarrow> pool"
  tm_exploratory :: "nat option"
  tm_numSuccessive :: nat
  tm_numFailed :: nat
  tm_out :: "tm_event list"

text \<open>What one call of \<open>Tunnel::Build\<close> draws.\<close>

record build_draws =
  bd_rnd :: "32 word"
  bd_addr :: nat
  bd_exponents :: "nat list"
  bd_indices :: "nat list"
  bd_words :: "32 word list"
  bd_fakes :: "bytes list"

text \<open>
  \<open>mg_range k n\<close> is \<open>GenerateWord32(0, n)\<close>, \<open>mg_shuffle k n\<close> the shuffled list of the numbers below \<open>n\<close>.
  \<open>mg_router k None\<close> is \<open>GetRandomRouter()\<close>, \<open>mg_router k (Some r)\<close> is \<open>GetRandomRouter(r)\<close>.
\<close>

record mg_env =
  mg_build :: build_env
  mg_i2np :: i2np_env
  mg_own :: router_ref
  mg_addr :: "nat \<Rightarrow> nat"
  mg_draws :: "nat \<Rightarrow> build_draws"
  mg_hop_rnd :: "nat \<Rightarrow> hop_rnd"
  mg_hop_rnds :: "nat \<Rightarrow> nat \<Rightarrow> hop_rnd list"
  mg_word :: "nat \<Rightarrow> 32 word"
  mg_range :: "nat \<Rightarrow> nat \<Rightarrow> nat"
  mg_shuffle :: "nat \<Rightarrow> nat \<Rightarrow> nat list"
  mg_router :: "nat \<Rightarrow> router_ref option \<Rightarrow> router_ref option"
  mg_highBandwidth :: "nat \<Rightarrow> router_ref \<Rightarrow> router_ref option"
  mg_find :: "ident_hash \<Rightarrow> router_ref option"
  mg_isBad :: "router_ref \<Rightarrow> bool"
  mg_numPeers :: nat
  mg_peer :: "nat \<Rightarrow> router_ref option"

definition put_tun :: "nat \<Rightarrow> tun \<Rightarrow> tmgr \<Rightarrow> tmgr" where
  "put_tun r t st = st\<lparr>tm_mem := (tm_mem st)(r := t)\<rparr>"

definition put_pool :: "nat \<Rightarrow> pool \<Rightarrow> tmgr \<Rightarrow> tmgr" where
  "put_pool p pl st = st\<lparr>tm_pool := (tm_pool st)(p := pl)\<rparr>"

definition tm_emit :: "tm_event \<Rightarrow> tmgr \<Rightarrow> tmgr" where
  "tm_emit e st = st\<lparr>tm_out := tm_out st @ [e]\<rparr>"

text \<open>One more draw.\<close>

definition drawn :: "tmgr \<Rightarrow> tmgr" where
  "drawn st = st\<lparr>tm_count := tm_count st + 1\<rparr>"

section \<open>Tunnel\<close>

definition SetState :: "nat \<Rightarrow> tunnel_state \<Rightarrow> tmgr \<Rightarrow> tmgr" where
  "SetState r s st = put_tun r ((tm_mem st r)\<lparr>tn_state := s\<rparr>) st"

definition SetTunnelPool :: "nat \<Rightarrow> nat option \<Rightarrow> tmgr \<Rightarrow> tmgr" where
  "SetTunnelPool r p st = put_tun r ((tm_mem st r)\<lparr>tn_pool := p\<rparr>) st"

definition SetIsRecreated :: "nat \<Rightarrow> tmgr \<Rightarrow> tmgr" where
  "SetIsRecreated r st = put_tun r ((tm_mem st r)\<lparr>tn_recreated := True\<rparr>) st"

definition IsEstablished :: "tmgr \<Rightarrow> nat \<Rightarrow> bool" where
  "IsEstablished st r \<longleftrightarrow> tn_state (tm_mem st r) = eTunnelStateEstablished"

definition IsFailed :: "tmgr \<Rightarrow> nat \<Rightarrow> bool" where
  "IsFailed st r \<longleftrightarrow> tn_state (tm_mem st r) = eTunnelStateFailed"

text \<open>\<open>GetTunnelID\<close>: an inbound tunnel is known by the ID its last hop sends to, an outbound one by its first hop's.\<close>

definition GetTunnelID :: "tun \<Rightarrow> 32 word" where
  "GetTunnelID t = (if tn_inbound t then hop_nextTunnelID (last (tn_hops t)) else hop_tunnelID (hd (tn_hops t)))"

definition TunnelCreationTimeCmp :: "mg_env \<Rightarrow> tmgr \<Rightarrow> nat \<Rightarrow> nat \<Rightarrow> bool" where
  "TunnelCreationTimeCmp env st a b \<longleftrightarrow>
     (let ta = tn_created (tm_mem st a); tb = tn_created (tm_mem st b) in if ta \<noteq> tb then ta > tb else mg_addr env a < mg_addr env b)"

text \<open>\<open>insert\<close> of a \<open>std::set\<close> of tunnels.\<close>

definition set_insert :: "mg_env \<Rightarrow> tmgr \<Rightarrow> nat \<Rightarrow> nat list \<Rightarrow> nat list" where
  "set_insert env st r rs = (if r \<in> set rs then rs
     else takeWhile (\<lambda>x. TunnelCreationTimeCmp env st x r) rs @ [r] @ dropWhile (\<lambda>x. TunnelCreationTimeCmp env st x r) rs)"

definition set_erase :: "nat \<Rightarrow> nat list \<Rightarrow> nat list" where
  "set_erase r rs = filter (\<lambda>x. x \<noteq> r) rs"

section \<open>Selecting tunnels\<close>

text \<open>The loop of \<open>GetNextOutboundTunnel\<close> and \<open>GetNextTunnel\<close>: the last good tunnel once more than \<open>ind\<close> were seen.\<close>

fun pick_tunnel :: "(nat \<Rightarrow> bool) \<Rightarrow> nat \<Rightarrow> nat \<Rightarrow> nat option \<Rightarrow> nat list \<Rightarrow> nat option" where
  "pick_tunnel good ind i tunnel [] = tunnel"
| "pick_tunnel good ind i tunnel (r # rs) =
     (let (tunnel, i) = (if good r then (Some r, i + 1) else (tunnel, i)) in
      if i > ind \<and> tunnel \<noteq> None then tunnel else pick_tunnel good ind i tunnel rs)"

definition Tunnels_GetNextOutboundTunnel :: "mg_env \<Rightarrow> tmgr \<Rightarrow> nat option \<times> tmgr" where
  "Tunnels_GetNextOutboundTunnel env st =
     (let ind = mg_range env (tm_count st) (unat (word_of_nat (length (tm_outbound st)) - 1 :: 32 word)) in
      (pick_tunnel (IsEstablished st) ind 0 None (tm_outbound st), drawn st))"

fun least_received :: "tmgr \<Rightarrow> nat option \<Rightarrow> nat \<Rightarrow> nat list \<Rightarrow> nat option" where
  "least_received st tunnel minReceived [] = tunnel"
| "least_received st tunnel minReceived (r # rs) =
     (if \<not> IsEstablished st r then least_received st tunnel minReceived rs
      else if tunnel = None \<or> tn_received (tm_mem st r) < minReceived
        then least_received st (Some r) (tn_received (tm_mem st r)) rs
      else least_received st tunnel minReceived rs)"

definition Tunnels_GetNextInboundTunnel :: "tmgr \<Rightarrow> nat option" where
  "Tunnels_GetNextInboundTunnel st = least_received st None 0 (map snd (tm_inbound st))"

definition GetNextTunnel :: "mg_env \<Rightarrow> nat list \<Rightarrow> nat option \<Rightarrow> tmgr \<Rightarrow> nat option \<times> tmgr" where
  "GetNextTunnel env tunnels excluded st = (if tunnels = [] then (None, st)
     else (let ind = mg_range env (tm_count st) (length tunnels div 2);
               tunnel = pick_tunnel (\<lambda>r. IsEstablished st r \<and> Some r \<noteq> excluded) ind 0 None tunnels in
       ((case (tunnel, excluded) of
          (None, Some r) \<Rightarrow> if IsEstablished st r then Some r else None
        | _ \<Rightarrow> tunnel), drawn st)))"

definition GetNextOutboundTunnel :: "mg_env \<Rightarrow> nat \<Rightarrow> nat option \<Rightarrow> tmgr \<Rightarrow> nat option \<times> tmgr" where
  "GetNextOutboundTunnel env p excluded st = GetNextTunnel env (pl_outbound (tm_pool st p)) excluded st"

definition GetNextInboundTunnel :: "mg_env \<Rightarrow> nat \<Rightarrow> nat option \<Rightarrow> tmgr \<Rightarrow> nat option \<times> tmgr" where
  "GetNextInboundTunnel env p excluded st = GetNextTunnel env (pl_inbound (tm_pool st p)) excluded st"

text \<open>\<open>GetInboundTunnels(num)\<close>: the first established ones.\<close>

definition GetInboundTunnels :: "nat \<Rightarrow> nat \<Rightarrow> tmgr \<Rightarrow> nat list" where
  "GetInboundTunnels p num st = take num (filter (IsEstablished st) (pl_inbound (tm_pool st p)))"

definition endpoint_ident :: "tmgr \<Rightarrow> nat \<Rightarrow> ident_hash" where
  "endpoint_ident st r = rr_ident (hop_router (last (tn_hops (tm_mem st r))))"

definition GetNewOutboundTunnel :: "mg_env \<Rightarrow> nat \<Rightarrow> nat option \<Rightarrow> tmgr \<Rightarrow> nat option \<times> tmgr" where
  "GetNewOutboundTunnel env p old st = (case old of
       Some r \<Rightarrow> if IsEstablished st r then (Some r, st)
         else (case filter (\<lambda>x. IsEstablished st x \<and> endpoint_ident st r = endpoint_ident st x) (pl_outbound (tm_pool st p)) of
             x # _ \<Rightarrow> (Some x, st)
           | [] \<Rightarrow> GetNextOutboundTunnel env p None st)
     | None \<Rightarrow> GetNextOutboundTunnel env p None st)"

section \<open>Creating tunnels\<close>

text \<open>\<open>AddPendingTunnel\<close>, for both kinds.\<close>

definition AddPendingTunnel :: "32 word \<Rightarrow> nat \<Rightarrow> tmgr \<Rightarrow> tmgr" where
  "AddPendingTunnel replyMsgID r st =
     (if tn_inbound (tm_mem st r) then st\<lparr>tm_pendingInbound := omap_put replyMsgID r (tm_pendingInbound st)\<rparr>
      else st\<lparr>tm_pendingOutbound := omap_put replyMsgID r (tm_pendingOutbound st)\<rparr>)"

text \<open>\<open>Tunnel::Build\<close> of a tunnel in the store: the message goes through an outbound tunnel or directly.\<close>

definition Build :: "mg_env \<Rightarrow> 32 word \<Rightarrow> nat option \<Rightarrow> nat \<Rightarrow> tmgr \<Rightarrow> tmgr option" where
  "Build env replyMsgID outboundTunnel r st = do {
     let d = mg_draws env (tm_count st);
     let hours = ucast (tm_now st div 3600);
     (hops, ident, msg) \<leftarrow> Tunnel_Build (mg_build env) (mg_i2np env) (bd_rnd d) (bd_addr d) hours (bd_exponents d) (bd_indices d)
       (bd_words d) (bd_fakes d) replyMsgID (tn_hops (tm_mem st r));
     let st = drawn (put_tun r ((tm_mem st r)\<lparr>tn_hops := hops\<rparr>) st);
     Some (tm_emit (case outboundTunnel of Some ot \<Rightarrow> EvSendTunnel ot ident 0 msg | None \<Rightarrow> EvSend ident msg) st) }"

text \<open>A tunnel whose configuration has no hops reads uninitialised pointers.\<close>

definition CreateTunnel :: "mg_env \<Rightarrow> bool \<Rightarrow> hop_config list option \<Rightarrow> nat option \<Rightarrow> tmgr \<Rightarrow> (nat \<times> tmgr) option" where
  "CreateTunnel env inbound config outboundTunnel st = do {
     hops \<leftarrow> config;
     let newTunnel = tm_next st;
     let st = put_tun newTunnel \<lparr>tn_hops = hops, tn_inbound = inbound, tn_state = eTunnelStatePending, tn_recreated = False, tn_pool = None,
       tn_created = ucast (tm_now st), tn_received = 0\<rparr> (st\<lparr>tm_next := tm_next st + 1\<rparr>);
     let replyMsgID = mg_word env (tm_count st);
     let st = AddPendingTunnel replyMsgID newTunnel (drawn st);
     st \<leftarrow> Build env replyMsgID outboundTunnel newTunnel st;
     Some (newTunnel, st) }"

text \<open>The configurations, with the random values of their hops.\<close>

definition new_config :: "mg_env \<Rightarrow> tmgr \<Rightarrow> router_ref list \<Rightarrow> hop_config list option \<Rightarrow> hop_config list option" where
  "new_config env st peers reply =
     TunnelConfig (mg_own env) (mg_hop_rnd env (tm_count st)) (zip (mg_hop_rnds env (tm_count st) (length peers)) peers) reply"

definition clone_config :: "mg_env \<Rightarrow> tmgr \<Rightarrow> hop_config list \<Rightarrow> hop_config list option \<Rightarrow> hop_config list option" where
  "clone_config env st hops reply =
     Clone (mg_own env) (mg_hop_rnd env (tm_count st)) (mg_hop_rnds env (tm_count st) (length hops)) hops reply"

definition invert_config :: "mg_env \<Rightarrow> tmgr \<Rightarrow> hop_config list \<Rightarrow> hop_config list option" where
  "invert_config env st hops =
     Invert (mg_own env) (mg_hop_rnd env (tm_count st)) (mg_hop_rnds env (tm_count st) (length hops)) hops"

definition CreateZeroHopsInboundTunnel :: "mg_env \<Rightarrow> tmgr \<Rightarrow> tmgr option" where
  "CreateZeroHopsInboundTunnel env st = map_option snd (CreateTunnel env True (new_config env st [mg_own env] None) None st)"

section \<open>Tunnel pools\<close>

definition new_pool :: "nat option \<Rightarrow> int \<Rightarrow> int \<Rightarrow> int \<Rightarrow> int \<Rightarrow> pool" where
  "new_pool dest numInboundHops numOutboundHops numInboundTunnels numOutboundTunnels =
     \<lparr>pl_dest = dest, pl_numInboundHops = numInboundHops, pl_numOutboundHops = numOutboundHops,
      pl_numInboundTunnels = numInboundTunnels, pl_numOutboundTunnels = numOutboundTunnels, pl_explicit = None,
      pl_inbound = [], pl_outbound = [], pl_tests = [], pl_active = True\<rparr>"

definition SetExplicitPeers :: "ident_hash list option \<Rightarrow> pool \<Rightarrow> pool" where
  "SetExplicitPeers explicitPeers pl = (case explicitPeers of
       None \<Rightarrow> pl\<lparr>pl_explicit := None\<rparr>
     | Some peers \<Rightarrow> pl\<lparr>pl_explicit := Some peers,
         pl_numInboundHops := (if pl_numInboundHops pl > int (length peers) then int (length peers) else pl_numInboundHops pl),
         pl_numOutboundHops := (if pl_numOutboundHops pl > int (length peers) then int (length peers) else pl_numOutboundHops pl),
         pl_numInboundTunnels := 1, pl_numOutboundTunnels := 1\<rparr>)"

text \<open>\<open>SetLeaseSetUpdated\<close> of the local destination, where there is one.\<close>

definition lease_set_updated :: "nat \<Rightarrow> tmgr \<Rightarrow> tmgr" where
  "lease_set_updated p st = (case pl_dest (tm_pool st p) of Some d \<Rightarrow> tm_emit (EvLeaseSetUpdated d) st | None \<Rightarrow> st)"

definition DetachTunnels :: "nat \<Rightarrow> tmgr \<Rightarrow> tmgr" where
  "DetachTunnels p st =
     (let st = fold (\<lambda>r. SetTunnelPool r None) (pl_inbound (tm_pool st p)) st;
          st = fold (\<lambda>r. SetTunnelPool r None) (pl_outbound (tm_pool st p)) st in
      put_pool p ((tm_pool st p)\<lparr>pl_inbound := [], pl_outbound := [], pl_tests := []\<rparr>) st)"

text \<open>Both overloads of \<open>TunnelCreated\<close>.\<close>

definition TunnelCreated :: "mg_env \<Rightarrow> nat \<Rightarrow> nat \<Rightarrow> tmgr \<Rightarrow> tmgr" where
  "TunnelCreated env p r st = (let pl = tm_pool st p in
     if \<not> pl_active pl then st
     else if tn_inbound (tm_mem st r)
       then lease_set_updated p (put_pool p (pl\<lparr>pl_inbound := set_insert env st r (pl_inbound pl)\<rparr>) st)
     else put_pool p (pl\<lparr>pl_outbound := set_insert env st r (pl_outbound pl)\<rparr>) st)"

text \<open>
  Both overloads of \<open>TunnelExpired\<close>. Its loop over \<open>m_Tests\<close> takes every entry by value (\<open>for (auto it : m_Tests)\<close>)
  and clears the tunnel in the copy, so the tests keep the tunnel.
\<close>

definition TunnelExpired :: "nat \<Rightarrow> nat \<Rightarrow> tmgr \<Rightarrow> tmgr" where
  "TunnelExpired p r st =
     (let st = SetTunnelPool r None st; pl = tm_pool st p in
      put_pool p (if tn_inbound (tm_mem st r) then pl\<lparr>pl_inbound := set_erase r (pl_inbound pl)\<rparr>
        else pl\<lparr>pl_outbound := set_erase r (pl_outbound pl)\<rparr>) st)"

subsection \<open>Choosing the hops\<close>

definition SelectNextHop :: "mg_env \<Rightarrow> nat \<Rightarrow> router_ref \<Rightarrow> tmgr \<Rightarrow> router_ref option \<times> tmgr" where
  "SelectNextHop env p prevHop st =
     (let hop = (if pl_dest (tm_pool st p) = Some 0 then mg_router env (tm_count st) (Some prevHop)
            else mg_highBandwidth env (tm_count st) prevHop);
          st = drawn st in
      if (case hop of None \<Rightarrow> True | Some r \<Rightarrow> mg_isBad env r) then (mg_router env (tm_count st) None, drawn st) else (hop, st))"

fun select_hops :: "mg_env \<Rightarrow> nat \<Rightarrow> nat \<Rightarrow> router_ref \<Rightarrow> tmgr \<Rightarrow> router_ref list option \<times> tmgr" where
  "select_hops env p 0 prevHop st = (Some [], st)"
| "select_hops env p (Suc n) prevHop st = (case SelectNextHop env p prevHop st of
       (None, st) \<Rightarrow> (None, st)
     | (Some hop, st) \<Rightarrow> (case select_hops env p n hop st of (hops, st) \<Rightarrow> (map_option ((#) hop) hops, st)))"

text \<open>\<open>SelectExplicitPeers\<close>: the first shuffled peers; an index behind the list is an error.\<close>

fun explicit_hops :: "mg_env \<Rightarrow> ident_hash list \<Rightarrow> nat list \<Rightarrow> tmgr \<Rightarrow> (router_ref list option \<times> tmgr) option" where
  "explicit_hops env peers [] st = Some (Some [], st)"
| "explicit_hops env peers (i # idxs) st = (if i < length peers then
     (case mg_find env (peers ! i) of
        None \<Rightarrow> Some (None, tm_emit (EvRequestRouter (peers ! i)) st)
      | Some r \<Rightarrow> do {
          (hops, st) \<leftarrow> explicit_hops env peers idxs st;
          Some (map_option ((#) r) hops, st) }) else None)"

definition SelectExplicitPeers :: "mg_env \<Rightarrow> ident_hash list \<Rightarrow> int \<Rightarrow> tmgr \<Rightarrow> (router_ref list option \<times> tmgr) option" where
  "SelectExplicitPeers env peers numHops st =
     (let idxs = mg_shuffle env (tm_count st) (length peers); st = drawn st in
      if nat numHops \<le> length idxs then explicit_hops env peers (take (nat numHops) idxs) st else None)"

definition SelectPeers :: "mg_env \<Rightarrow> nat \<Rightarrow> bool \<Rightarrow> tmgr \<Rightarrow> (router_ref list option \<times> tmgr) option" where
  "SelectPeers env p isInbound st =
     (let pl = tm_pool st p; numHops = (if isInbound then pl_numInboundHops pl else pl_numOutboundHops pl) in
      case pl_explicit pl of
        Some peers \<Rightarrow> SelectExplicitPeers env peers numHops st
      | None \<Rightarrow> Some (
          if mg_numPeers env > 25 then
            (case (mg_peer env (tm_count st), drawn st) of
               (Some r, st) \<Rightarrow> if \<not> mg_isBad env r
                 then (case select_hops env p (nat (numHops - 1)) r st of (hops, st) \<Rightarrow> (map_option ((#) r) hops, st))
                 else select_hops env p (nat numHops) (mg_own env) st
             | (None, st) \<Rightarrow> select_hops env p (nat numHops) (mg_own env) st)
          else select_hops env p (nat numHops) (mg_own env) st))"

subsection \<open>Creating the tunnels of a pool\<close>

text \<open>A tunnel of the pool, or one of the router's.\<close>

definition pool_outbound :: "mg_env \<Rightarrow> nat \<Rightarrow> tmgr \<Rightarrow> nat option \<times> tmgr" where
  "pool_outbound env p st = (case GetNextOutboundTunnel env p None st of
       (None, st) \<Rightarrow> Tunnels_GetNextOutboundTunnel env st
     | (Some r, st) \<Rightarrow> (Some r, st))"

definition pool_inbound :: "mg_env \<Rightarrow> nat \<Rightarrow> tmgr \<Rightarrow> nat option \<times> tmgr" where
  "pool_inbound env p st = (case GetNextInboundTunnel env p None st of
       (None, st) \<Rightarrow> (Tunnels_GetNextInboundTunnel st, st)
     | (Some r, st) \<Rightarrow> (Some r, st))"

text \<open>\<open>CreateTunnel\<close> and \<open>SetTunnelPool(shared_from_this())\<close>.\<close>

definition create_for :: "mg_env \<Rightarrow> nat \<Rightarrow> bool \<Rightarrow> hop_config list option \<Rightarrow> nat option \<Rightarrow> tmgr \<Rightarrow> tmgr option" where
  "create_for env p inbound config outboundTunnel st = do {
     (t, st) \<leftarrow> CreateTunnel env inbound config outboundTunnel st;
     Some (SetTunnelPool t (Some p) st) }"

definition CreateInboundTunnel :: "mg_env \<Rightarrow> nat \<Rightarrow> tmgr \<Rightarrow> tmgr option" where
  "CreateInboundTunnel env p st = (case pool_outbound env p st of (outboundTunnel, st) \<Rightarrow> do {
     (hops, st) \<leftarrow> SelectPeers env p True st;
     (case hops of None \<Rightarrow> Some st
      | Some hops \<Rightarrow> create_for env p True (new_config env st (rev hops) None) outboundTunnel st) })"

definition RecreateInboundTunnel :: "mg_env \<Rightarrow> nat \<Rightarrow> nat \<Rightarrow> tmgr \<Rightarrow> tmgr option" where
  "RecreateInboundTunnel env p r st = (case pool_outbound env p st of (outboundTunnel, st) \<Rightarrow>
     create_for env p True (clone_config env st (tn_hops (tm_mem st r)) None) outboundTunnel st)"

definition CreateOutboundTunnel :: "mg_env \<Rightarrow> nat \<Rightarrow> tmgr \<Rightarrow> tmgr option" where
  "CreateOutboundTunnel env p st = (case pool_inbound env p st of
       (None, st) \<Rightarrow> Some st
     | (Some i, st) \<Rightarrow> do {
         (hops, st) \<leftarrow> SelectPeers env p False st;
         (case hops of None \<Rightarrow> Some st
          | Some hops \<Rightarrow> create_for env p False (new_config env st hops (Some (tn_hops (tm_mem st i)))) None st) })"

definition RecreateOutboundTunnel :: "mg_env \<Rightarrow> nat \<Rightarrow> nat \<Rightarrow> tmgr \<Rightarrow> tmgr option" where
  "RecreateOutboundTunnel env p r st = (case pool_inbound env p st of
       (None, st) \<Rightarrow> Some st
     | (Some i, st) \<Rightarrow> create_for env p False (clone_config env st (tn_hops (tm_mem st r)) (Some (tn_hops (tm_mem st i)))) None st)"

text \<open>Nothing calls it.\<close>

definition CreatePairedInboundTunnel :: "mg_env \<Rightarrow> nat \<Rightarrow> nat \<Rightarrow> tmgr \<Rightarrow> tmgr option" where
  "CreatePairedInboundTunnel env p r st = create_for env p True (invert_config env st (tn_hops (tm_mem st r))) (Some r) st"

fun times_op :: "nat \<Rightarrow> ('s \<Rightarrow> 's option) \<Rightarrow> 's \<Rightarrow> 's option" where
  "times_op 0 f st = Some st"
| "times_op (Suc n) f st = f st \<bind> times_op n f"

definition CreateTunnels :: "mg_env \<Rightarrow> nat \<Rightarrow> tmgr \<Rightarrow> tmgr option" where
  "CreateTunnels env p st = do {
     let num = int (length (filter (IsEstablished st) (pl_inbound (tm_pool st p))));
     st \<leftarrow> times_op (nat (pl_numInboundTunnels (tm_pool st p) - num)) (CreateInboundTunnel env p) st;
     let num = int (length (filter (IsEstablished st) (pl_outbound (tm_pool st p))));
     times_op (nat (pl_numOutboundTunnels (tm_pool st p) - num)) (CreateOutboundTunnel env p) st }"

subsection \<open>Testing the tunnels of a pool\<close>

text \<open>A tunnel of a test that was not answered: failed once, or failed for good and removed.\<close>

definition outbound_test_failed :: "nat \<Rightarrow> nat option \<Rightarrow> tmgr \<Rightarrow> tmgr" where
  "outbound_test_failed p o' st = (case o' of None \<Rightarrow> st | Some r \<Rightarrow>
     if tn_state (tm_mem st r) = eTunnelStateTestFailed then
       (let st = SetState r eTunnelStateFailed st; pl = tm_pool st p in put_pool p (pl\<lparr>pl_outbound := set_erase r (pl_outbound pl)\<rparr>) st)
     else SetState r eTunnelStateTestFailed st)"

definition inbound_test_failed :: "nat \<Rightarrow> nat option \<Rightarrow> tmgr \<Rightarrow> tmgr" where
  "inbound_test_failed p i st = (case i of None \<Rightarrow> st | Some r \<Rightarrow>
     if tn_state (tm_mem st r) = eTunnelStateTestFailed then
       (let st = SetState r eTunnelStateFailed st; pl = tm_pool st p in
        lease_set_updated p (put_pool p (pl\<lparr>pl_inbound := set_erase r (pl_inbound pl)\<rparr>) st))
     else SetState r eTunnelStateTestFailed st)"

fun tests_failed :: "nat \<Rightarrow> (32 word \<times> nat option \<times> nat option) list \<Rightarrow> tmgr \<Rightarrow> tmgr" where
  "tests_failed p [] st = st"
| "tests_failed p ((msgID, o', i) # tests) st = tests_failed p tests (inbound_test_failed p i (outbound_test_failed p o' st))"

function new_tests :: "mg_env \<Rightarrow> nat \<Rightarrow> nat list \<Rightarrow> nat list \<Rightarrow> tmgr \<Rightarrow> tmgr" where
  "new_tests env p (r1 # it1) (r2 # it2) st =
     (if IsFailed st r1 \<or> IsFailed st r2
      then new_tests env p (if IsFailed st r1 then it1 else r1 # it1) (if IsFailed st r2 then it2 else r2 # it2) st
      else (let msgID = mg_word env (tm_count st); pl = tm_pool st p;
                st = put_pool p (pl\<lparr>pl_tests := omap_put msgID (Some r1, Some r2) (pl_tests pl)\<rparr>) (drawn st) in
        new_tests env p it1 it2 (tm_emit (EvTest r1 r2 msgID) st)))"
| "new_tests env p [] it2 st = st"
| "new_tests env p it1 [] st = st"
  by pat_completeness auto
termination
  by (relation "measure (\<lambda>(env, p, it1, it2, st). length it1 + length it2)") auto

definition TestTunnels :: "mg_env \<Rightarrow> nat \<Rightarrow> tmgr \<Rightarrow> tmgr" where
  "TestTunnels env p st =
     (let st = tests_failed p (pl_tests (tm_pool st p)) st;
          st = put_pool p ((tm_pool st p)\<lparr>pl_tests := []\<rparr>) st in
      new_tests env p (pl_outbound (tm_pool st p)) (pl_inbound (tm_pool st p)) st)"

text \<open>A test that is answered; both tunnels are dereferenced.\<close>

definition test_answered :: "nat option \<Rightarrow> tmgr \<Rightarrow> tmgr option" where
  "test_answered t st = (case t of None \<Rightarrow> None
     | Some r \<Rightarrow> Some (if tn_state (tm_mem st r) = eTunnelStateTestFailed then SetState r eTunnelStateEstablished st else st))"

definition ProcessDeliveryStatus :: "nat \<Rightarrow> i2np_msg \<Rightarrow> tmgr \<Rightarrow> tmgr option" where
  "ProcessDeliveryStatus p msg st = do {
     msgID \<leftarrow> bufbe32toh (msg_buf msg) (GetPayload msg);
     timestamp \<leftarrow> bufbe64toh (msg_buf msg) (GetPayload msg + 4);
     (case omap_find (pl_tests (tm_pool st p)) msgID of
        Some (o', i) \<Rightarrow> do {
          st \<leftarrow> test_answered o' st;
          st \<leftarrow> test_answered i st;
          Some (put_pool p ((tm_pool st p)\<lparr>pl_tests := omap_erase msgID (pl_tests (tm_pool st p))\<rparr>) st) }
      | None \<Rightarrow> Some (case pl_dest (tm_pool st p) of Some d \<Rightarrow> tm_emit (EvDeliveryStatus d msg) st | None \<Rightarrow> st)) }"

definition ProcessGarlicMessage :: "nat \<Rightarrow> i2np_msg \<Rightarrow> tmgr \<Rightarrow> tmgr" where
  "ProcessGarlicMessage p msg st = (case pl_dest (tm_pool st p) of Some d \<Rightarrow> tm_emit (EvGarlic d msg) st | None \<Rightarrow> st)"

section \<open>Tunnels\<close>

definition Tunnels_new :: "64 word \<Rightarrow> tmgr" where
  "Tunnels_new now = \<lparr>tm_now = now, tm_count = 0, tm_next = 0,
     tm_mem = (\<lambda>_. \<lparr>tn_hops = [], tn_inbound = False, tn_state = eTunnelStatePending, tn_recreated = False, tn_pool = None, tn_created = 0, tn_received = 0\<rparr>),
     tm_inbound = [], tm_outbound = [], tm_transit = [], tm_pendingInbound = [], tm_pendingOutbound = [], tm_pools = [], tm_nextPool = 0,
     tm_pool = (\<lambda>_. new_pool None 0 0 0 0), tm_exploratory = None, tm_numSuccessive = 0, tm_numFailed = 0, tm_out = []\<rparr>"

definition GetInboundTunnel :: "tmgr \<Rightarrow> 32 word \<Rightarrow> nat option" where
  "GetInboundTunnel st tunnelID = omap_find (tm_inbound st) tunnelID"

definition GetTransitTunnel :: "tmgr \<Rightarrow> 32 word \<Rightarrow> (32 word \<times> transit_tunnel \<times> transit_kind) option" where
  "GetTransitTunnel st tunnelID = omap_find (tm_transit st) tunnelID"

text \<open>\<open>GetPendingTunnel\<close>: a pending tunnel is found once.\<close>

definition GetPendingTunnel :: "32 word \<Rightarrow> (32 word, nat) omap \<Rightarrow> tmgr \<Rightarrow> nat option \<times> tmgr" where
  "GetPendingTunnel replyMsgID pendingTunnels st = (case omap_find pendingTunnels replyMsgID of
       Some r \<Rightarrow> if tn_state (tm_mem st r) = eTunnelStatePending then (Some r, SetState r eTunnelStateBuildReplyReceived st) else (None, st)
     | None \<Rightarrow> (None, st))"

definition GetPendingInboundTunnel :: "32 word \<Rightarrow> tmgr \<Rightarrow> nat option \<times> tmgr" where
  "GetPendingInboundTunnel replyMsgID st = GetPendingTunnel replyMsgID (tm_pendingInbound st) st"

definition GetPendingOutboundTunnel :: "32 word \<Rightarrow> tmgr \<Rightarrow> nat option \<times> tmgr" where
  "GetPendingOutboundTunnel replyMsgID st = GetPendingTunnel replyMsgID (tm_pendingOutbound st) st"

subsection \<open>Pools\<close>

definition CreateTunnelPool :: "nat option \<Rightarrow> int \<Rightarrow> int \<Rightarrow> int \<Rightarrow> int \<Rightarrow> tmgr \<Rightarrow> nat \<times> tmgr" where
  "CreateTunnelPool dest numInboundHops numOutboundHops numInboundTunnels numOutboundTunnels st =
     (let p = tm_nextPool st in
      (p, put_pool p (new_pool dest numInboundHops numOutboundHops numInboundTunnels numOutboundTunnels)
            (st\<lparr>tm_nextPool := p + 1, tm_pools := tm_pools st @ [p]\<rparr>)))"

definition StopTunnelPool :: "nat \<Rightarrow> tmgr \<Rightarrow> tmgr" where
  "StopTunnelPool p st = DetachTunnels p (put_pool p ((tm_pool st p)\<lparr>pl_active := False\<rparr>) st)"

definition DeleteTunnelPool :: "nat \<Rightarrow> tmgr \<Rightarrow> tmgr" where
  "DeleteTunnelPool p st = (let st = StopTunnelPool p st in st\<lparr>tm_pools := removeAll p (tm_pools st)\<rparr>)"

definition ManageTunnelPool :: "mg_env \<Rightarrow> nat \<Rightarrow> tmgr \<Rightarrow> tmgr option" where
  "ManageTunnelPool env p st =
     (if pl_active (tm_pool st p) then do { st \<leftarrow> CreateTunnels env p st; Some (TestTunnels env p st) } else Some st)"

fun manage_pools :: "mg_env \<Rightarrow> nat list \<Rightarrow> tmgr \<Rightarrow> tmgr option" where
  "manage_pools env [] st = Some st"
| "manage_pools env (p # ps) st = ManageTunnelPool env p st \<bind> manage_pools env ps"

definition ManageTunnelPools :: "mg_env \<Rightarrow> tmgr \<Rightarrow> tmgr option" where
  "ManageTunnelPools env st = manage_pools env (tm_pools st) st"

subsection \<open>Tunnels that were built\<close>

definition AddTransitTunnel :: "transit_tunnel \<times> transit_kind \<Rightarrow> tmgr \<Rightarrow> tmgr" where
  "AddTransitTunnel tunnel st =
     st\<lparr>tm_transit := omap_insert (tt_TunnelID (fst tunnel)) (ucast (tm_now st), tunnel) (tm_transit st)\<rparr>"

definition AddOutboundTunnel :: "mg_env \<Rightarrow> nat \<Rightarrow> tmgr \<Rightarrow> tmgr" where
  "AddOutboundTunnel env newTunnel st = (let st = st\<lparr>tm_outbound := tm_outbound st @ [newTunnel]\<rparr> in
     case tn_pool (tm_mem st newTunnel) of
       Some p \<Rightarrow> if pl_active (tm_pool st p) then TunnelCreated env p newTunnel st else SetTunnelPool newTunnel None st
     | None \<Rightarrow> SetTunnelPool newTunnel None st)"

definition AddInboundTunnel :: "mg_env \<Rightarrow> nat \<Rightarrow> tmgr \<Rightarrow> tmgr option" where
  "AddInboundTunnel env newTunnel st =
     (let st = st\<lparr>tm_inbound := omap_put (GetTunnelID (tm_mem st newTunnel)) newTunnel (tm_inbound st)\<rparr> in
      case tn_pool (tm_mem st newTunnel) of
        None \<Rightarrow> (case Tunnels_GetNextOutboundTunnel env st of (outboundTunnel, st) \<Rightarrow>
          map_option snd (CreateTunnel env False (invert_config env st (tn_hops (tm_mem st newTunnel))) outboundTunnel st))
      | Some p \<Rightarrow> Some (if pl_active (tm_pool st p) then TunnelCreated env p newTunnel st else SetTunnelPool newTunnel None st))"

text \<open>\<open>HandleTunnelBuildResponse\<close> of a tunnel in the store: the answers go into the profiles of its hops.\<close>

definition build_response :: "mg_env \<Rightarrow> nat \<Rightarrow> bytes \<Rightarrow> tmgr \<Rightarrow> (bool \<times> tmgr) option" where
  "build_response env r msg st = do {
     let t = tm_mem st r;
     (established, rets, state) \<leftarrow> HandleTunnelBuildResponse (be_aes (mg_build env)) (tn_hops t) msg (tn_state t);
     let st = fold (\<lambda>(hop, ret). tm_emit (EvProfileReply (hop_router hop) ret)) (zip (tn_hops t) rets) st;
     Some (established, SetState r state st) }"

definition HandleVariableTunnelBuildReplyMsg :: "mg_env \<Rightarrow> 32 word \<Rightarrow> bytes \<Rightarrow> tmgr \<Rightarrow> tmgr option" where
  "HandleVariableTunnelBuildReplyMsg env replyMsgID buf st = (case GetPendingOutboundTunnel replyMsgID st of
       (Some r, st) \<Rightarrow> do {
         (established, st) \<leftarrow> build_response env r buf st;
         Some (if established then AddOutboundTunnel env r (SetState r eTunnelStateEstablished st) else SetState r eTunnelStateBuildFailed st) }
     | (None, st) \<Rightarrow> Some st)"

text \<open>
  \<open>HandleVariableTunnelBuildMsg\<close>: the answer for an inbound tunnel of ours, or a request for a transit
  tunnel; \<open>ctx\<close> is what the router knows of itself, and the message that goes on is returned.
\<close>

definition HandleVariableTunnelBuildMsg :: "mg_env \<Rightarrow> router_ctx \<Rightarrow> bytes \<Rightarrow> 32 word \<Rightarrow> bytes \<Rightarrow> nat \<Rightarrow> tmgr \<Rightarrow>
    (build_forward option \<times> tmgr) option" where
  "HandleVariableTunnelBuildMsg env ctx rnd replyMsgID buf len st = (case GetPendingInboundTunnel replyMsgID st of
       (Some r, st) \<Rightarrow> do {
         (established, st) \<leftarrow> build_response env r buf st;
         st \<leftarrow> (if established then AddInboundTunnel env r (SetState r eTunnelStateEstablished st)
            else Some (SetState r eTunnelStateBuildFailed st));
         Some (None, st) }
     | (None, st) \<Rightarrow> do {
         (buf, transit, fwd) \<leftarrow> VariableTunnelBuild_forward (mg_build env) (ctx\<lparr>rc_numTransit := length (tm_transit st)\<rparr>) rnd buf len;
         Some (fwd, case transit of Some t \<Rightarrow> AddTransitTunnel t st | None \<Rightarrow> st) })"

text \<open>
  What \<open>InboundTunnel::HandleTunnelDataMsg\<close> does to the tunnel itself: a failed tunnel is alive again, and
  its endpoint counts the bytes (\<open>HandleDecryptedTunnelDataMsg\<close> adds the size of the decrypted data).
\<close>

definition InboundTunnel_data :: "nat \<Rightarrow> tmgr \<Rightarrow> tmgr" where
  "InboundTunnel_data r st = (let st = (if IsFailed st r then SetState r eTunnelStateEstablished st else st); t = tm_mem st r in
     put_tun r (t\<lparr>tn_received := tn_received t + TUNNEL_DATA_MSG_SIZE\<rparr>) st)"

subsection \<open>Managing the tunnels every 15 seconds\<close>

text \<open>\<open>GetCreationTime() + seconds\<close> in 32 bits, compared with the time in 64.\<close>

definition tunnel_deadline :: "tun \<Rightarrow> nat \<Rightarrow> 64 word" where
  "tunnel_deadline t seconds = ucast (tn_created t + word_of_nat seconds)"

fun manage_pending :: "(32 word \<times> nat) list \<Rightarrow> tmgr \<Rightarrow> (32 word \<times> nat) list \<times> tmgr" where
  "manage_pending [] st = ([], st)"
| "manage_pending ((replyMsgID, r) # pending) st = (case tn_state (tm_mem st r) of
       eTunnelStatePending \<Rightarrow>
         if tm_now st > tunnel_deadline (tm_mem st r) TUNNEL_CREATION_TIMEOUT
         then manage_pending pending ((fold (\<lambda>hop. tm_emit (EvProfileNonReplied (hop_router hop))) (tn_hops (tm_mem st r)) st)
             \<lparr>tm_numFailed := tm_numFailed st + 1\<rparr>)
         else (case manage_pending pending st of (kept, st) \<Rightarrow> ((replyMsgID, r) # kept, st))
     | eTunnelStateBuildFailed \<Rightarrow> manage_pending pending (st\<lparr>tm_numFailed := tm_numFailed st + 1\<rparr>)
     | eTunnelStateBuildReplyReceived \<Rightarrow> (case manage_pending pending st of (kept, st) \<Rightarrow> ((replyMsgID, r) # kept, st))
     | _ \<Rightarrow> manage_pending pending (st\<lparr>tm_numSuccessive := tm_numSuccessive st + 1\<rparr>))"

definition ManagePendingTunnels :: "tmgr \<Rightarrow> tmgr" where
  "ManagePendingTunnels st =
     (case manage_pending (tm_pendingInbound st) st of (kept, st) \<Rightarrow>
        let st = st\<lparr>tm_pendingInbound := kept\<rparr> in
        case manage_pending (tm_pendingOutbound st) st of (kept, st) \<Rightarrow> st\<lparr>tm_pendingOutbound := kept\<rparr>)"

text \<open>
  The body of the loops of \<open>ManageOutboundTunnels\<close> and \<open>ManageInboundTunnels\<close>, which differ in the
  kind of the tunnel: whether the tunnel stays, and the state.
\<close>

definition expire_tunnel :: "nat \<Rightarrow> tmgr \<Rightarrow> tmgr" where
  "expire_tunnel r st = (case tn_pool (tm_mem st r) of Some p \<Rightarrow> TunnelExpired p r st | None \<Rightarrow> st)"

definition recreate_tunnel :: "mg_env \<Rightarrow> nat \<Rightarrow> tmgr \<Rightarrow> tmgr option" where
  "recreate_tunnel env r st =
     (if \<not> tn_recreated (tm_mem st r) \<and>
         tm_now st + word_of_nat TUNNEL_RECREATION_THRESHOLD > tunnel_deadline (tm_mem st r) TUNNEL_EXPIRATION_TIMEOUT
      then let st = SetIsRecreated r st in
        (case tn_pool (tm_mem st r) of
           Some p \<Rightarrow> if tn_inbound (tm_mem st r) then RecreateInboundTunnel env p r st else RecreateOutboundTunnel env p r st
         | None \<Rightarrow> Some st)
      else Some st)"

definition manage_tunnel :: "mg_env \<Rightarrow> nat \<Rightarrow> tmgr \<Rightarrow> (bool \<times> tmgr) option" where
  "manage_tunnel env r st =
     (if tm_now st > tunnel_deadline (tm_mem st r) TUNNEL_EXPIRATION_TIMEOUT then Some (False, expire_tunnel r st)
      else if IsEstablished st r then do {
        st \<leftarrow> recreate_tunnel env r st;
        Some (True, if tm_now st + word_of_nat TUNNEL_EXPIRATION_THRESHOLD > tunnel_deadline (tm_mem st r) TUNNEL_EXPIRATION_TIMEOUT
          then SetState r eTunnelStateExpiring st else st) }
      else Some (True, st))"

fun manage_outbound :: "mg_env \<Rightarrow> nat list \<Rightarrow> tmgr \<Rightarrow> (nat list \<times> tmgr) option" where
  "manage_outbound env [] st = Some ([], st)"
| "manage_outbound env (r # rs) st = do {
     (keep, st) \<leftarrow> manage_tunnel env r st;
     (kept, st) \<leftarrow> manage_outbound env rs st;
     Some (if keep then r # kept else kept, st) }"

fun manage_inbound :: "mg_env \<Rightarrow> (32 word \<times> nat) list \<Rightarrow> tmgr \<Rightarrow> ((32 word \<times> nat) list \<times> tmgr) option" where
  "manage_inbound env [] st = Some ([], st)"
| "manage_inbound env ((tunnelID, r) # rs) st = do {
     (keep, st) \<leftarrow> manage_tunnel env r st;
     (kept, st) \<leftarrow> manage_inbound env rs st;
     Some (if keep then (tunnelID, r) # kept else kept, st) }"

definition ManageOutboundTunnels :: "mg_env \<Rightarrow> tmgr \<Rightarrow> tmgr option" where
  "ManageOutboundTunnels env st = do {
     (kept, st) \<leftarrow> manage_outbound env (tm_outbound st) st;
     let st = st\<lparr>tm_outbound := kept\<rparr>;
     if length (tm_outbound st) < 5 then
       (case (Tunnels_GetNextInboundTunnel st, mg_router env (tm_count st) None, drawn st) of
          (Some i, Some r, st) \<Rightarrow> map_option snd (CreateTunnel env False (new_config env st [r] (Some (tn_hops (tm_mem st i)))) None st)
        | (_, _, st) \<Rightarrow> Some st)
     else Some st }"

text \<open>\<open>GetRandomRouter()\<close> of \<open>ManageInboundTunnels\<close> is dereferenced unchecked.\<close>

definition ManageInboundTunnels :: "mg_env \<Rightarrow> tmgr \<Rightarrow> tmgr option" where
  "ManageInboundTunnels env st = do {
     (kept, st) \<leftarrow> manage_inbound env (tm_inbound st) st;
     let st = st\<lparr>tm_inbound := kept\<rparr>;
     if tm_inbound st = [] then do {
       st \<leftarrow> CreateZeroHopsInboundTunnel env st;
       Some (if tm_exploratory st = None
         then (case CreateTunnelPool (Some 0) 2 2 5 5 st of (p, st) \<Rightarrow> st\<lparr>tm_exploratory := Some p\<rparr>) else st) }
     else if tm_outbound st = [] \<or> length (tm_inbound st) < 5 then do {
       router \<leftarrow> mg_router env (tm_count st) None;
       let st = drawn st;
       map_option snd (CreateTunnel env True (new_config env st [router] None) None st) }
     else Some st }"

definition ManageTransitTunnels :: "tmgr \<Rightarrow> tmgr" where
  "ManageTransitTunnels st =
     st\<lparr>tm_transit := filter (\<lambda>(_, created, _). \<not> (ucast (tm_now st) > created + word_of_nat TUNNEL_EXPIRATION_TIMEOUT)) (tm_transit st)\<rparr>"

definition ManageTunnels :: "mg_env \<Rightarrow> tmgr \<Rightarrow> tmgr option" where
  "ManageTunnels env st = do {
     let st = ManagePendingTunnels st;
     st \<leftarrow> ManageInboundTunnels env st;
     st \<leftarrow> ManageOutboundTunnels env st;
     ManageTunnelPools env (ManageTransitTunnels st) }"

definition GetTransitTunnelsExpirationTimeout :: "tmgr \<Rightarrow> int" where
  "GetTransitTunnelsExpirationTimeout st =
     fold (\<lambda>(_, created, _) timeout. max timeout (sint (created + word_of_nat TUNNEL_EXPIRATION_TIMEOUT - ucast (tm_now st))))
       (tm_transit st) 0"

end
