(* ===== verification/Tunnel_ManagerProps.thy ===== *)
theory Tunnel_ManagerProps
  imports Tunnel_Manager
begin

text \<open>
  The invariant of the tunnel manager: what every operation of \<open>Tunnel_Manager\<close> keeps, the manager as
  a state machine, and what follows for the age of the tunnels and for the tests of a pool.
\<close>

section \<open>Fields of the state\<close>

lemma tm_simps [simp]:
  "tm_now (put_tun r t st) = tm_now st" "tm_count (put_tun r t st) = tm_count st" "tm_next (put_tun r t st) = tm_next st"
  "tm_mem (put_tun r t st) = (tm_mem st)(r := t)" "tm_inbound (put_tun r t st) = tm_inbound st" "tm_outbound (put_tun r t st) = tm_outbound st"
  "tm_transit (put_tun r t st) = tm_transit st" "tm_pendingInbound (put_tun r t st) = tm_pendingInbound st"
  "tm_pendingOutbound (put_tun r t st) = tm_pendingOutbound st" "tm_pools (put_tun r t st) = tm_pools st"
  "tm_nextPool (put_tun r t st) = tm_nextPool st" "tm_pool (put_tun r t st) = tm_pool st" "tm_exploratory (put_tun r t st) = tm_exploratory st"
  "tm_now (put_pool p pl st) = tm_now st" "tm_count (put_pool p pl st) = tm_count st" "tm_next (put_pool p pl st) = tm_next st"
  "tm_mem (put_pool p pl st) = tm_mem st" "tm_inbound (put_pool p pl st) = tm_inbound st" "tm_outbound (put_pool p pl st) = tm_outbound st"
  "tm_transit (put_pool p pl st) = tm_transit st" "tm_pendingInbound (put_pool p pl st) = tm_pendingInbound st"
  "tm_pendingOutbound (put_pool p pl st) = tm_pendingOutbound st" "tm_pools (put_pool p pl st) = tm_pools st"
  "tm_nextPool (put_pool p pl st) = tm_nextPool st" "tm_pool (put_pool p pl st) = (tm_pool st)(p := pl)" "tm_exploratory (put_pool p pl st) = tm_exploratory st"
  "tm_now (tm_emit e st) = tm_now st" "tm_count (tm_emit e st) = tm_count st" "tm_next (tm_emit e st) = tm_next st"
  "tm_mem (tm_emit e st) = tm_mem st" "tm_inbound (tm_emit e st) = tm_inbound st" "tm_outbound (tm_emit e st) = tm_outbound st"
  "tm_transit (tm_emit e st) = tm_transit st" "tm_pendingInbound (tm_emit e st) = tm_pendingInbound st"
  "tm_pendingOutbound (tm_emit e st) = tm_pendingOutbound st" "tm_pools (tm_emit e st) = tm_pools st"
  "tm_nextPool (tm_emit e st) = tm_nextPool st" "tm_pool (tm_emit e st) = tm_pool st" "tm_exploratory (tm_emit e st) = tm_exploratory st"
  "tm_now (drawn st) = tm_now st" "tm_count (drawn st) = tm_count st + 1" "tm_next (drawn st) = tm_next st"
  "tm_mem (drawn st) = tm_mem st" "tm_inbound (drawn st) = tm_inbound st" "tm_outbound (drawn st) = tm_outbound st"
  "tm_transit (drawn st) = tm_transit st" "tm_pendingInbound (drawn st) = tm_pendingInbound st"
  "tm_pendingOutbound (drawn st) = tm_pendingOutbound st" "tm_pools (drawn st) = tm_pools st"
  "tm_nextPool (drawn st) = tm_nextPool st" "tm_pool (drawn st) = tm_pool st" "tm_exploratory (drawn st) = tm_exploratory st"
  by (simp_all add: put_tun_def put_pool_def tm_emit_def drawn_def)

section \<open>Well-formed managers\<close>

text \<open>The states of a tunnel that has been built.\<close>

definition live :: "tunnel_state \<Rightarrow> bool" where
  "live s \<longleftrightarrow> s \<in> {eTunnelStateEstablished, eTunnelStateTestFailed, eTunnelStateFailed, eTunnelStateExpiring}"

definition listed :: "tmgr \<Rightarrow> bool \<Rightarrow> nat \<Rightarrow> bool" where
  "listed st inbound r \<longleftrightarrow> r < tm_next st \<and> tn_inbound (tm_mem st r) = inbound \<and> live (tn_state (tm_mem st r))"

definition member_ok :: "tmgr \<Rightarrow> nat \<Rightarrow> bool \<Rightarrow> nat \<Rightarrow> bool" where
  "member_ok st p inbound r \<longleftrightarrow> listed st inbound r \<and> tn_pool (tm_mem st r) = Some p \<and> tn_state (tm_mem st r) \<noteq> eTunnelStateFailed"

definition tested_ok :: "tmgr \<Rightarrow> nat \<Rightarrow> bool \<Rightarrow> nat option \<Rightarrow> bool" where
  "tested_ok st p inbound t \<longleftrightarrow> (case t of Some r \<Rightarrow> listed st inbound r \<and> tn_pool (tm_mem st r) \<in> {None, Some p} | None \<Rightarrow> False)"

definition pool_ok :: "tmgr \<Rightarrow> nat \<Rightarrow> pool \<Rightarrow> bool" where
  "pool_ok st p pl \<longleftrightarrow> (\<forall>r \<in> set (pl_inbound pl). member_ok st p True r) \<and>
     (\<forall>r \<in> set (pl_outbound pl). member_ok st p False r \<and> r \<in> set (tm_outbound st)) \<and>
     (\<forall>(_, o', i) \<in> set (pl_tests pl). tested_ok st p False o' \<and> tested_ok st p True i) \<and>
     (\<not> pl_active pl \<longrightarrow> pl_inbound pl = [] \<and> pl_outbound pl = [] \<and> pl_tests pl = [])"

text \<open>Every tunnel that was created has hops, and belongs to a pool that was created, if to any.\<close>

definition tun_ok :: "tmgr \<Rightarrow> tun \<Rightarrow> bool" where
  "tun_ok st t \<longleftrightarrow> tn_hops t \<noteq> [] \<and> (case tn_pool t of Some p \<Rightarrow> p < tm_nextPool st | None \<Rightarrow> True)"

definition tm_ok :: "tmgr \<Rightarrow> bool" where
  "tm_ok st \<longleftrightarrow> (\<forall>(_, r) \<in> set (tm_inbound st). listed st True r) \<and> (\<forall>r \<in> set (tm_outbound st). listed st False r) \<and>
     (\<forall>(_, r) \<in> set (tm_pendingInbound st). r < tm_next st \<and> tn_inbound (tm_mem st r)) \<and>
     (\<forall>(_, r) \<in> set (tm_pendingOutbound st). r < tm_next st \<and> \<not> tn_inbound (tm_mem st r)) \<and>
     (\<forall>p < tm_nextPool st. pool_ok st p (tm_pool st p)) \<and> (\<forall>r < tm_next st. tun_ok st (tm_mem st r)) \<and>
     (\<forall>p \<in> set (tm_pools st). p < tm_nextPool st)"

lemmas tm_ok_defs = tm_ok_def pool_ok_def member_ok_def tested_ok_def listed_def tun_ok_def

definition in_pool :: "tmgr \<Rightarrow> nat \<Rightarrow> bool" where
  "in_pool st r \<longleftrightarrow> (\<exists>p < tm_nextPool st. r \<in> set (pl_inbound (tm_pool st p)) \<or> r \<in> set (pl_outbound (tm_pool st p)))"

lemma tm_ok_put_tun:
  assumes "tm_ok st" and "r < tm_next st" and "tn_inbound t = tn_inbound (tm_mem st r)" and "tun_ok st t"
    and "live (tn_state (tm_mem st r)) \<Longrightarrow> live (tn_state t)"
    and "tn_pool t = tn_pool (tm_mem st r) \<or> tn_pool t = None \<and> \<not> in_pool st r"
    and "tn_state t = eTunnelStateFailed \<Longrightarrow> \<not> in_pool st r"
  shows "tm_ok (put_tun r t st)"
proof -
  have l: "listed (put_tun r t st) i x" if "listed st i x" for i x
    using that assms(3,5) by (auto simp: listed_def)
  have m: "member_ok (put_tun r t st) p i x" if "member_ok st p i x" "in_pool st x" for p i x
    using that l [of i x] assms(6,7) by (auto simp: member_ok_def)
  have s: "tested_ok (put_tun r t st) p i x" if "tested_ok st p i x" for p i x
    using that l assms(6) by (auto simp: tested_ok_def split: option.splits)
  have p: "pool_ok (put_tun r t st) p (tm_pool st p)" if "p < tm_nextPool st" for p
  proof -
    have "pool_ok st p (tm_pool st p)" using assms(1) that by (simp add: tm_ok_def)
    moreover have "in_pool st x" if "x \<in> set (pl_inbound (tm_pool st p)) \<union> set (pl_outbound (tm_pool st p))" for x
      using that \<open>p < tm_nextPool st\<close> by (auto simp: in_pool_def)
    ultimately show ?thesis using m [of p] s [of p] by (auto simp: pool_ok_def)
  qed
  have t: "tun_ok (put_tun r t st) (tm_mem (put_tun r t st) x)" if "x < tm_next st" for x
    using assms(1,4) that by (simp add: tm_ok_def tun_ok_def cong: option.case_cong)
  have "(\<forall>(_, x) \<in> set (tm_pendingInbound st). x < tm_next st \<and> tn_inbound (((tm_mem st)(r := t)) x)) \<and>
      (\<forall>(_, x) \<in> set (tm_pendingOutbound st). x < tm_next st \<and> \<not> tn_inbound (((tm_mem st)(r := t)) x))"
    using assms(1,3) by (auto simp: tm_ok_def)
  moreover have "(\<forall>(_, x) \<in> set (tm_inbound st). listed (put_tun r t st) True x) \<and> (\<forall>x \<in> set (tm_outbound st). listed (put_tun r t st) False x)"
    using assms(1) l by (auto simp: tm_ok_def)
  ultimately show ?thesis using assms(1) p t by (simp add: tm_ok_def)
qed

lemma pool_ok_cong:
  "tm_next st' = tm_next st \<Longrightarrow> tm_mem st' = tm_mem st \<Longrightarrow> set (tm_outbound st) \<subseteq> set (tm_outbound st') \<Longrightarrow> pool_ok st p pl \<Longrightarrow> pool_ok st' p pl"
  by (auto simp: pool_ok_def member_ok_def tested_ok_def listed_def split: option.splits)

lemma tm_ok_put_pool:
  assumes "tm_ok st" and "p < tm_nextPool st \<Longrightarrow> pool_ok st p pl"
  shows "tm_ok (put_pool p pl st)"
proof -
  have "pool_ok (put_pool p pl st) q (tm_pool (put_pool p pl st) q)" if "q < tm_nextPool st" for q
    by (rule pool_ok_cong [of _ st]) (use assms that in \<open>auto simp: tm_ok_def\<close>)
  then show ?thesis using assms(1) by (simp add: tm_ok_def listed_def tun_ok_def cong: option.case_cong)
qed

lemma tm_ok_emit [simp]: "tm_ok (tm_emit e st) = tm_ok st" and tm_ok_drawn [simp]: "tm_ok (drawn st) = tm_ok st"
  by (simp_all add: tm_ok_defs cong: option.case_cong)

lemma tm_okD:
  assumes "tm_ok st"
  shows "(k, r) \<in> set (tm_inbound st) \<Longrightarrow> listed st True r" "r \<in> set (tm_outbound st) \<Longrightarrow> listed st False r"
    "(k, r) \<in> set (tm_pendingInbound st) \<Longrightarrow> r < tm_next st \<and> tn_inbound (tm_mem st r)"
    "(k, r) \<in> set (tm_pendingOutbound st) \<Longrightarrow> r < tm_next st \<and> \<not> tn_inbound (tm_mem st r)"
    "p < tm_nextPool st \<Longrightarrow> pool_ok st p (tm_pool st p)" "r < tm_next st \<Longrightarrow> tun_ok st (tm_mem st r)"
    "r < tm_next st \<Longrightarrow> tn_pool (tm_mem st r) = Some p \<Longrightarrow> p < tm_nextPool st" "r < tm_next st \<Longrightarrow> tn_hops (tm_mem st r) \<noteq> []"
    "p \<in> set (tm_pools st) \<Longrightarrow> p < tm_nextPool st"
  using assms by (auto simp: tm_ok_def tun_ok_def split: option.splits)

lemma tm_ok_SetState:
  assumes "tm_ok st" and "r < tm_next st" and "live (tn_state (tm_mem st r)) \<Longrightarrow> live s" and "s = eTunnelStateFailed \<Longrightarrow> \<not> in_pool st r"
  shows "tm_ok (SetState r s st)"
  unfolding SetState_def
  by (rule tm_ok_put_tun [OF assms(1,2)]) (use assms tm_okD(6) [OF assms(1,2)] in \<open>auto simp: tun_ok_def\<close>)

lemma tm_ok_SetTunnelPool_None:
  assumes "tm_ok st" and "r < tm_next st" and "\<not> in_pool st r"
  shows "tm_ok (SetTunnelPool r None st)"
  unfolding SetTunnelPool_def
  by (rule tm_ok_put_tun [OF assms(1,2)]) (use assms tm_okD(6) [OF assms(1,2)] in \<open>auto simp: tun_ok_def\<close>)

lemma in_poolD:
  assumes "tm_ok st" and "in_pool st r"
  shows "r < tm_next st" "live (tn_state (tm_mem st r))" "tn_state (tm_mem st r) \<noteq> eTunnelStateFailed" "tn_pool (tm_mem st r) \<noteq> None"
  using assms(2) tm_okD(5) [OF assms(1)] by (auto simp: in_pool_def pool_ok_def member_ok_def listed_def)

lemma tm_ok_SetIsRecreated:
  assumes "tm_ok st" and "r < tm_next st"
  shows "tm_ok (SetIsRecreated r st)"
  unfolding SetIsRecreated_def
  by (rule tm_ok_put_tun [OF assms(1,2)]) (use tm_okD(6) [OF assms] in_poolD(3) [OF assms(1)] in \<open>auto simp: tun_ok_def\<close>)

section \<open>Creating tunnels keeps the rest\<close>

text \<open>Only new tunnels appear; what was there stays.\<close>

definition extends :: "tmgr \<Rightarrow> tmgr \<Rightarrow> bool" where
  "extends st st' \<longleftrightarrow> tm_next st \<le> tm_next st' \<and> (\<forall>r < tm_next st. tm_mem st' r = tm_mem st r) \<and> tm_inbound st' = tm_inbound st \<and>
     tm_outbound st' = tm_outbound st \<and> tm_transit st' = tm_transit st \<and> tm_pools st' = tm_pools st \<and> tm_nextPool st' = tm_nextPool st \<and>
     tm_pool st' = tm_pool st \<and> tm_now st' = tm_now st \<and> tm_exploratory st' = tm_exploratory st"

lemma extends_refl: "extends st st"
  by (simp add: extends_def)

lemma extends_trans: "extends st st' \<Longrightarrow> extends st' st'' \<Longrightarrow> extends st st''"
  unfolding extends_def by auto

lemma extends_drawn [simp]: "extends st (drawn st)" and extends_emit [simp]: "extends st (tm_emit e st)"
  by (simp_all add: extends_def)

definition good_step :: "tmgr \<Rightarrow> tmgr \<Rightarrow> bool" where
  "good_step st st' \<longleftrightarrow> (tm_ok st \<longrightarrow> tm_ok st') \<and> extends st st'"

lemma good_refl: "good_step st st"
  by (simp add: good_step_def extends_refl)

lemma good_trans: "good_step st st' \<Longrightarrow> good_step st' st'' \<Longrightarrow> good_step st st''"
  unfolding good_step_def using extends_trans by blast

lemma good_drawn [simp]: "good_step st (drawn st)" and good_emit [simp]: "good_step st (tm_emit e st)"
  by (simp_all add: good_step_def)

lemma place_records_length:
  "place_records env hours mid ks idxs ws off hops b = Some (hops', b') \<Longrightarrow> length hops' = length hops"
proof (induction env hours mid ks idxs ws off hops b arbitrary: hops' b' rule: place_records.induct)
  case (1 env hours mid k ks idx idxs w ws off hop hops buf)
  from "1.prems"(1) obtain r b1 hops1 where
    "CreateBuildRequestRecord env k hours hop (if hops \<noteq> [] then w else mid) = Some r" "mem_write buf (off + idx * TUNNEL_BUILD_RECORD_SIZE) r = Some b1"
    "place_records env hours mid ks idxs ws off hops b1 = Some (hops1, b')" "hops' = hop\<lparr>hop_recordIndex := idx\<rparr> # hops1"
    by (auto split: Option.bind_splits)
  then show ?case using "1.IH" by simp
qed simp_all

lemma Tunnel_Build_length:
  "Tunnel_Build env ienv rnd addr hours ks idxs ws fakes mid hops = Some (hops', ident, msg) \<Longrightarrow> length hops' = length hops"
  by (auto simp: Tunnel_Build_def Let_def dest: place_records_length split: Option.bind_splits)

lemma TunnelConfig_not_empty: "TunnelConfig own rnd peers reply = Some hops \<Longrightarrow> hops \<noteq> []"
  by (auto simp: TunnelConfig_def Let_def map_first_last_simps link_peers_hd(1) split: list.splits option.splits prod.splits)

lemma configs_not_empty:
  "new_config env st peers reply \<noteq> Some []" "clone_config env st hops reply \<noteq> Some []" "invert_config env st hops \<noteq> Some []"
  by (auto simp: new_config_def clone_config_def invert_config_def Clone_def Invert_def Let_def dest: TunnelConfig_not_empty split: if_splits)

lemma tm_ok_new_tunnel:
  assumes "tm_ok st" and "tn_hops t \<noteq> []" and "tn_pool t = None"
  shows "tm_ok (put_tun (tm_next st) t (st\<lparr>tm_next := tm_next st + 1\<rparr>))" (is "tm_ok ?st")
proof -
  have l: "listed ?st i x" if "listed st i x" for i x
    using that by (auto simp: listed_def)
  have p: "pool_ok ?st p (tm_pool st p)" if "p < tm_nextPool st" for p
  proof -
    have m: "member_ok ?st p i x" if "member_ok st p i x" for i x
      using that l [of i x] by (auto simp: member_ok_def listed_def)
    have s: "tested_ok ?st p i x" if "tested_ok st p i x" for i x
      using that by (auto simp: tested_ok_def listed_def split: option.splits)
    show ?thesis using tm_okD(5) [OF assms(1) that] m s by (auto simp: pool_ok_def)
  qed
  have "(\<forall>(_, x) \<in> set (tm_inbound st). listed ?st True x) \<and> (\<forall>x \<in> set (tm_outbound st). listed ?st False x)"
    using assms(1) l by (auto simp: tm_ok_def)
  moreover have "(\<forall>(_, x) \<in> set (tm_pendingInbound st). x < tm_next ?st \<and> tn_inbound (tm_mem ?st x)) \<and>
      (\<forall>(_, x) \<in> set (tm_pendingOutbound st). x < tm_next ?st \<and> \<not> tn_inbound (tm_mem ?st x))"
    using tm_okD(3,4) [OF assms(1)] by fastforce
  moreover have "tun_ok ?st (tm_mem ?st x)" if "x < tm_next ?st" for x
    using tm_okD(6) [OF assms(1), of x] that assms(2,3) by (auto simp: tun_ok_def less_Suc_eq split: option.splits)
  ultimately show ?thesis using p tm_okD(9) [OF assms(1)] by (simp add: tm_ok_def)
qed

lemma tm_ok_AddPendingTunnel: "tm_ok st \<Longrightarrow> r < tm_next st \<Longrightarrow> tm_ok (AddPendingTunnel mid r st)"
  using set_omap_put [of mid r "tm_pendingInbound st"] set_omap_put [of mid r "tm_pendingOutbound st"]
  by (auto simp: AddPendingTunnel_def tm_ok_def pool_ok_def member_ok_def tested_ok_def listed_def tun_ok_def cong: option.case_cong)

lemma AddPendingTunnel_simps [simp]:
  "tm_now (AddPendingTunnel mid r st) = tm_now st" "tm_next (AddPendingTunnel mid r st) = tm_next st"
  "tm_mem (AddPendingTunnel mid r st) = tm_mem st" "tm_inbound (AddPendingTunnel mid r st) = tm_inbound st"
  "tm_outbound (AddPendingTunnel mid r st) = tm_outbound st" "tm_transit (AddPendingTunnel mid r st) = tm_transit st"
  "tm_pools (AddPendingTunnel mid r st) = tm_pools st" "tm_nextPool (AddPendingTunnel mid r st) = tm_nextPool st"
  "tm_pool (AddPendingTunnel mid r st) = tm_pool st" "tm_exploratory (AddPendingTunnel mid r st) = tm_exploratory st"
  "tm_count (AddPendingTunnel mid r st) = tm_count st"
  by (simp_all add: AddPendingTunnel_def)

lemma Build_cases:
  assumes "Build env mid ot r st = Some st'"
  obtains hops e where "st' = tm_emit e (drawn (put_tun r ((tm_mem st r)\<lparr>tn_hops := hops\<rparr>) st))" "length hops = length (tn_hops (tm_mem st r))"
  using assms by (auto simp: Build_def Let_def dest!: Tunnel_Build_length split: Option.bind_splits prod.splits)

lemma CreateTunnel_good:
  assumes c: "CreateTunnel env inb config ot st = Some (r, st')" and ne: "config \<noteq> Some []"
  shows "good_step st st'" "r = tm_next st" "tm_next st' = Suc r" "tn_pool (tm_mem st' r) = None" "tn_inbound (tm_mem st' r) = inb"
    "tn_state (tm_mem st' r) = eTunnelStatePending"
proof -
  obtain hops where h: "config = Some hops" "hops \<noteq> []" using c ne by (cases config) (auto simp: CreateTunnel_def)
  let ?t = "\<lparr>tn_hops = hops, tn_inbound = inb, tn_state = eTunnelStatePending, tn_recreated = False, tn_pool = None,
       tn_created = ucast (tm_now st), tn_received = 0\<rparr>"
  let ?s1 = "put_tun (tm_next st) ?t (st\<lparr>tm_next := tm_next st + 1\<rparr>)"
  let ?mid = "mg_word env (tm_count st)"
  let ?s2 = "AddPendingTunnel ?mid (tm_next st) (drawn ?s1)"
  have b: "Build env ?mid ot (tm_next st) ?s2 = Some st'" and r: "r = tm_next st"
    using c h(1) by (auto simp: CreateTunnel_def Let_def split: Option.bind_splits)
  obtain hops' e where st': "st' = tm_emit e (drawn (put_tun (tm_next st) (?t\<lparr>tn_hops := hops'\<rparr>) ?s2))" "length hops' = length hops"
    by (rule Build_cases [OF b]) simp
  have "tm_ok st'" if ok: "tm_ok st"
  proof -
    have "tm_ok ?s1" by (rule tm_ok_new_tunnel [OF ok]) (use h in simp_all)
    then have 2: "tm_ok ?s2" by (intro tm_ok_AddPendingTunnel) simp_all
    have "\<not> in_pool ?s2 (tm_next st)" using in_poolD(4) [OF 2, of "tm_next st"] by auto
    then have "tm_ok (put_tun (tm_next st) (?t\<lparr>tn_hops := hops'\<rparr>) ?s2)"
      using h st'(2) by (intro tm_ok_put_tun [OF 2]) (auto simp: tun_ok_def)
    then show ?thesis by (simp add: st')
  qed
  then show "good_step st st'" by (simp add: good_step_def extends_def st')
  show "r = tm_next st" "tm_next st' = Suc r" "tn_pool (tm_mem st' r) = None" "tn_inbound (tm_mem st' r) = inb"
    "tn_state (tm_mem st' r) = eTunnelStatePending" by (simp_all add: r st')
qed

lemma create_for_good:
  assumes "create_for env p inb config ot st = Some st'" and "config \<noteq> Some []" and "p < tm_nextPool st"
  shows "good_step st st'"
proof -
  obtain t st1 where c: "CreateTunnel env inb config ot st = Some (t, st1)" and st': "st' = SetTunnelPool t (Some p) st1"
    using assms(1) by (auto simp: create_for_def split: Option.bind_splits)
  note g = CreateTunnel_good [OF c assms(2)]
  have e: "extends st st1" using g(1) by (simp add: good_step_def)
  have "tm_ok st'" if "tm_ok st"
  proof -
    have 1: "tm_ok st1" using g(1) that by (simp add: good_step_def)
    have np: "\<not> in_pool st1 t" using in_poolD(4) [OF 1, of t] g(4) by auto
    let ?n = "(tm_mem st1 t)\<lparr>tn_pool := Some p\<rparr>"
    have l: "listed st' i x" if "listed st1 i x" for i x using that by (auto simp: listed_def st' SetTunnelPool_def)
    have nl: "\<not> listed st1 i t" for i using g(6) by (simp add: listed_def live_def)
    have p: "pool_ok st' q (tm_pool st1 q)" if "q < tm_nextPool st1" for q
    proof -
      have m: "member_ok st' q i x" if "member_ok st1 q i x" for i x
        using that l [of i x] nl by (auto simp: member_ok_def st' SetTunnelPool_def)
      have s: "tested_ok st' q i x" if "tested_ok st1 q i x" for i x
        using that l nl by (auto simp: tested_ok_def st' SetTunnelPool_def split: option.splits)
      have "tm_outbound st' = tm_outbound st1" by (simp add: st' SetTunnelPool_def)
      then show ?thesis using tm_okD(5) [OF 1 that] m s by (auto simp: pool_ok_def)
    qed
    have "(\<forall>(_, x) \<in> set (tm_inbound st1). listed st' True x) \<and> (\<forall>x \<in> set (tm_outbound st1). listed st' False x)"
      using 1 l by (auto simp: tm_ok_def)
    moreover have "tun_ok st' (tm_mem st' x)" if "x < tm_next st1" for x
      using tm_okD(6) [OF 1 that] assms(3) e by (auto simp: tun_ok_def st' SetTunnelPool_def extends_def cong: option.case_cong)
    ultimately show ?thesis using p 1 by (auto simp: tm_ok_def st' SetTunnelPool_def)
  qed
  moreover have "extends st st'" using e g(2) by (auto simp: extends_def st' SetTunnelPool_def)
  ultimately show ?thesis by (simp add: good_step_def)
qed

lemma selecting_good:
  "Tunnels_GetNextOutboundTunnel env st = (r, st') \<Longrightarrow> good_step st st'"
  "GetNextTunnel env ts ex st = (r, st') \<Longrightarrow> good_step st st'"
  "GetNextOutboundTunnel env p ex st = (r, st') \<Longrightarrow> good_step st st'"
  "GetNextInboundTunnel env p ex st = (r, st') \<Longrightarrow> good_step st st'"
  by (auto simp: Tunnels_GetNextOutboundTunnel_def GetNextTunnel_def GetNextOutboundTunnel_def GetNextInboundTunnel_def Let_def good_refl
      split: if_splits)

lemma pool_selecting_good:
  "pool_outbound env p st = (r, st') \<Longrightarrow> good_step st st'"
  "pool_inbound env p st = (r, st') \<Longrightarrow> good_step st st'"
  by (auto simp: pool_outbound_def pool_inbound_def dest: selecting_good intro: good_trans split: prod.splits option.splits)

lemma SelectNextHop_good: "SelectNextHop env p prev st = (r, st') \<Longrightarrow> good_step st st'"
  by (auto simp: SelectNextHop_def Let_def intro: good_trans [OF good_drawn] split: if_splits)

lemma select_hops_good: "select_hops env p n prev st = (r, st') \<Longrightarrow> good_step st st'"
  by (induction env p n prev st arbitrary: r st' rule: select_hops.induct)
    (auto simp: good_refl dest: SelectNextHop_good intro: good_trans split: prod.splits option.splits)

lemma explicit_hops_good: "explicit_hops env peers idxs st = Some (r, st') \<Longrightarrow> good_step st st'"
  by (induction env peers idxs st arbitrary: r st' rule: explicit_hops.induct)
    (auto simp: good_refl split: if_splits option.splits Option.bind_splits)

lemma SelectPeers_good:
  assumes "SelectPeers env p inb st = Some (r, st')"
  shows "good_step st st'"
proof (cases "pl_explicit (tm_pool st p)")
  case (Some peers)
  then obtain idxs where "explicit_hops env peers idxs (drawn st) = Some (r, st')"
    using assms by (auto simp: SelectPeers_def SelectExplicitPeers_def Let_def split: if_splits)
  then show ?thesis using explicit_hops_good good_trans [OF good_drawn] by blast
next
  case None
  then show ?thesis
    using assms by (auto simp: SelectPeers_def Let_def dest!: select_hops_good intro: good_trans [OF good_drawn] split: if_splits prod.splits option.splits)
qed

lemma good_pools: "good_step st st' \<Longrightarrow> tm_nextPool st' = tm_nextPool st" "good_step st st' \<Longrightarrow> tm_pool st' = tm_pool st"
  "good_step st st' \<Longrightarrow> tm_ok st \<Longrightarrow> tm_ok st'"
  by (simp_all add: good_step_def extends_def)

lemma creating_good:
  assumes "p < tm_nextPool st"
  shows "CreateInboundTunnel env p st = Some st' \<Longrightarrow> good_step st st'" "CreateOutboundTunnel env p st = Some st' \<Longrightarrow> good_step st st'"
    "RecreateInboundTunnel env p r st = Some st' \<Longrightarrow> good_step st st'" "RecreateOutboundTunnel env p r st = Some st' \<Longrightarrow> good_step st st'"
proof -
  assume c: "CreateInboundTunnel env p st = Some st'"
  obtain ot s1 where 1: "pool_outbound env p st = (ot, s1)" by (cases "pool_outbound env p st")
  obtain hops s2 where 2: "SelectPeers env p True s1 = Some (hops, s2)" using c 1 by (auto simp: CreateInboundTunnel_def split: Option.bind_splits)
  have g: "good_step st s2" using pool_selecting_good(1) [OF 1] SelectPeers_good [OF 2] by (rule good_trans)
  show "good_step st st'"
  proof (cases hops)
    case (Some hs)
    then have "create_for env p True (new_config env s2 (rev hs) None) ot s2 = Some st'" using c 1 2 by (simp add: CreateInboundTunnel_def)
    then show ?thesis using create_for_good [OF _ configs_not_empty(1)] g good_pools(1) [OF g] assms good_trans by metis
  qed (use c 1 2 g in \<open>simp add: CreateInboundTunnel_def\<close>)
next
  assume c: "CreateOutboundTunnel env p st = Some st'"
  obtain i s1 where 1: "pool_inbound env p st = (i, s1)" by (cases "pool_inbound env p st")
  note g1 = pool_selecting_good(2) [OF 1]
  show "good_step st st'"
  proof (cases i)
    case (Some i')
    then obtain hops s2 where 2: "SelectPeers env p False s1 = Some (hops, s2)" using c 1 by (auto simp: CreateOutboundTunnel_def split: Option.bind_splits)
    have g: "good_step st s2" using g1 SelectPeers_good [OF 2] by (rule good_trans)
    show ?thesis
    proof (cases hops)
      case (Some hs)
      then have "create_for env p False (new_config env s2 hs (Some (tn_hops (tm_mem s2 i')))) None s2 = Some st'"
        using c 1 2 \<open>i = Some i'\<close> by (simp add: CreateOutboundTunnel_def)
      then show ?thesis using create_for_good [OF _ configs_not_empty(1)] g good_pools(1) [OF g] assms good_trans by metis
    qed (use c 1 2 g \<open>i = Some i'\<close> in \<open>simp add: CreateOutboundTunnel_def\<close>)
  qed (use c 1 g1 in \<open>simp add: CreateOutboundTunnel_def\<close>)
next
  assume c: "RecreateInboundTunnel env p r st = Some st'"
  obtain ot s1 where 1: "pool_outbound env p st = (ot, s1)" by (cases "pool_outbound env p st")
  note g = pool_selecting_good(1) [OF 1]
  have "create_for env p True (clone_config env s1 (tn_hops (tm_mem s1 r)) None) ot s1 = Some st'" using c 1 by (simp add: RecreateInboundTunnel_def)
  then show "good_step st st'" using create_for_good [OF _ configs_not_empty(2)] g good_pools(1) [OF g] assms good_trans by metis
next
  assume c: "RecreateOutboundTunnel env p r st = Some st'"
  obtain i s1 where 1: "pool_inbound env p st = (i, s1)" by (cases "pool_inbound env p st")
  note g = pool_selecting_good(2) [OF 1]
  show "good_step st st'"
  proof (cases i)
    case (Some i')
    then have "create_for env p False (clone_config env s1 (tn_hops (tm_mem s1 r)) (Some (tn_hops (tm_mem s1 i')))) None s1 = Some st'"
      using c 1 by (simp add: RecreateOutboundTunnel_def)
    then show ?thesis using create_for_good [OF _ configs_not_empty(2)] g good_pools(1) [OF g] assms good_trans by metis
  qed (use c 1 g in \<open>simp add: RecreateOutboundTunnel_def\<close>)
qed

lemma times_op_good:
  assumes "\<And>s s'. p < tm_nextPool s \<Longrightarrow> f s = Some s' \<Longrightarrow> good_step s s'"
  shows "times_op n f st = Some st' \<Longrightarrow> p < tm_nextPool st \<Longrightarrow> good_step st st'"
proof (induction n arbitrary: st)
  case (Suc n)
  obtain s where s: "f st = Some s" "times_op n f s = Some st'" using Suc.prems(1) by (auto split: Option.bind_splits)
  have g: "good_step st s" by (rule assms [OF Suc.prems(2) s(1)])
  show ?case using Suc.IH [OF s(2)] g good_pools(1) [OF g] Suc.prems(2) good_trans by metis
qed (simp add: good_refl)

lemma CreateTunnels_good:
  assumes "CreateTunnels env p st = Some st'" and "p < tm_nextPool st"
  shows "good_step st st'"
proof -
  obtain s n m where s: "times_op n (CreateInboundTunnel env p) st = Some s" "times_op m (CreateOutboundTunnel env p) s = Some st'"
    using assms(1) by (auto simp: CreateTunnels_def Let_def split: Option.bind_splits)
  have g: "good_step st s" by (rule times_op_good [OF _ s(1) assms(2)]) (rule creating_good(1))
  have "good_step s st'" by (rule times_op_good [OF _ s(2)]) (use creating_good(2) good_pools(1) [OF g] assms(2) in auto)
  with g show ?thesis by (rule good_trans)
qed

section \<open>Operations that change tunnels\<close>

text \<open>Pools only lose tunnels, and the kind and the age of a tunnel never change.\<close>

definition keeps :: "tmgr \<Rightarrow> tmgr \<Rightarrow> bool" where
  "keeps st st' \<longleftrightarrow> tm_next st \<le> tm_next st' \<and> tm_nextPool st' = tm_nextPool st \<and> tm_now st' = tm_now st \<and> tm_inbound st' = tm_inbound st \<and>
     tm_outbound st' = tm_outbound st \<and> tm_transit st' = tm_transit st \<and> tm_pools st' = tm_pools st \<and> tm_exploratory st' = tm_exploratory st \<and>
     (\<forall>r. in_pool st' r \<longrightarrow> in_pool st r) \<and>
     (\<forall>r < tm_next st. tn_created (tm_mem st' r) = tn_created (tm_mem st r) \<and> tn_inbound (tm_mem st' r) = tn_inbound (tm_mem st r))"

lemma keeps_refl: "keeps st st"
  by (simp add: keeps_def)

lemma keeps_trans: "keeps st st' \<Longrightarrow> keeps st' st'' \<Longrightarrow> keeps st st''"
  unfolding keeps_def by auto

lemma extends_keeps: "extends st st' \<Longrightarrow> keeps st st'"
  by (simp add: extends_def keeps_def in_pool_def)

lemma good_keeps: "good_step st st' \<Longrightarrow> keeps st st'"
  by (simp add: good_step_def extends_keeps)

lemma in_pool_put_tun [simp]: "in_pool (put_tun r t st) x = in_pool st x"
  by (simp add: in_pool_def)

lemma keeps_put_tun: "tn_created t = tn_created (tm_mem st r) \<Longrightarrow> tn_inbound t = tn_inbound (tm_mem st r) \<Longrightarrow> keeps st (put_tun r t st)"
  by (simp add: keeps_def in_pool_def)

lemma keeps_SetState: "keeps st (SetState r s st)" and keeps_SetTunnelPool: "keeps st (SetTunnelPool r q st)"
  and keeps_SetIsRecreated: "keeps st (SetIsRecreated r st)"
  unfolding SetState_def SetTunnelPool_def SetIsRecreated_def by (rule keeps_put_tun; simp)+

lemma keeps_put_pool:
  "set (pl_inbound pl) \<subseteq> set (pl_inbound (tm_pool st p)) \<Longrightarrow> set (pl_outbound pl) \<subseteq> set (pl_outbound (tm_pool st p)) \<Longrightarrow>
     keeps st (put_pool p pl st)"
  by (fastforce simp: keeps_def in_pool_def)

lemma in_pool_kind:
  assumes "tm_ok st" and "q < tm_nextPool st"
  shows "r \<in> set (pl_inbound (tm_pool st q)) \<Longrightarrow> tn_inbound (tm_mem st r) \<and> tn_pool (tm_mem st r) = Some q"
    "r \<in> set (pl_outbound (tm_pool st q)) \<Longrightarrow> \<not> tn_inbound (tm_mem st r) \<and> tn_pool (tm_mem st r) = Some q"
  using tm_okD(5) [OF assms] by (auto simp: pool_ok_def member_ok_def listed_def)

text \<open>A tunnel taken out of its pool, by both ways the code has.\<close>

definition leave_pool :: "nat \<Rightarrow> nat \<Rightarrow> tmgr \<Rightarrow> tmgr" where
  "leave_pool p r st = put_pool p (let pl = tm_pool st p in if tn_inbound (tm_mem st r) then pl\<lparr>pl_inbound := set_erase r (pl_inbound pl)\<rparr>
        else pl\<lparr>pl_outbound := set_erase r (pl_outbound pl)\<rparr>) st"

lemma leave_pool_ok:
  assumes "tm_ok st" and "tn_pool (tm_mem st r) \<in> {None, Some p}"
  shows "tm_ok (leave_pool p r st)" "\<not> in_pool (leave_pool p r st) r" "keeps st (leave_pool p r st)" "tm_mem (leave_pool p r st) = tm_mem st"
    "tm_next (leave_pool p r st) = tm_next st"
proof -
  have p: "pool_ok st p (tm_pool st p)" if "p < tm_nextPool st" using tm_okD(5) [OF assms(1) that] .
  show "tm_ok (leave_pool p r st)"
    unfolding leave_pool_def
    by (rule tm_ok_put_pool [OF assms(1)]) (use p in \<open>auto simp: pool_ok_def set_erase_def Let_def\<close>)
  show "\<not> in_pool (leave_pool p r st) r"
  proof
    assume "in_pool (leave_pool p r st) r"
    then obtain q where q: "q < tm_nextPool st" "r \<in> set (pl_inbound (tm_pool (leave_pool p r st) q)) \<or> r \<in> set (pl_outbound (tm_pool (leave_pool p r st) q))"
      by (auto simp: in_pool_def leave_pool_def)
    then have "r \<in> set (pl_inbound (tm_pool st q)) \<or> r \<in> set (pl_outbound (tm_pool st q))"
      by (auto simp: leave_pool_def set_erase_def Let_def split: if_splits)
    then have "q = p" using in_pool_kind [OF assms(1) q(1), of r] assms(2) by auto
    then show False using q(2) in_pool_kind [OF assms(1) q(1), of r]
      by (auto simp: leave_pool_def set_erase_def Let_def split: if_splits)
  qed
  show "keeps st (leave_pool p r st)"
    unfolding leave_pool_def by (rule keeps_put_pool) (auto simp: set_erase_def Let_def)
qed (simp_all add: leave_pool_def)

lemma TunnelExpired_leave: "TunnelExpired p r st = SetTunnelPool r None (leave_pool p r st)"
  by (simp add: TunnelExpired_def leave_pool_def SetTunnelPool_def put_tun_def put_pool_def Let_def)

lemma expire_tunnel_ok:
  assumes "tm_ok st" and "r < tm_next st"
  shows "tm_ok (expire_tunnel r st)" "\<not> in_pool (expire_tunnel r st) r" "keeps st (expire_tunnel r st)"
    "\<And>x. x \<noteq> r \<Longrightarrow> tm_mem (expire_tunnel r st) x = tm_mem st x"
proof -
  have "tm_ok (expire_tunnel r st) \<and> \<not> in_pool (expire_tunnel r st) r \<and> keeps st (expire_tunnel r st) \<and>
      (\<forall>x. x \<noteq> r \<longrightarrow> tm_mem (expire_tunnel r st) x = tm_mem st x)"
  proof (cases "tn_pool (tm_mem st r)")
    case None
    then show ?thesis using in_poolD(4) [OF assms(1), of r] assms(1) by (auto simp: expire_tunnel_def keeps_refl)
  next
    case (Some p)
    note l = leave_pool_ok [OF assms(1), of r p]
    have "tm_ok (SetTunnelPool r None (leave_pool p r st))"
      by (rule tm_ok_SetTunnelPool_None) (use l Some assms(2) in auto)
    moreover have "keeps st (SetTunnelPool r None (leave_pool p r st))"
      using l(3) Some keeps_SetTunnelPool keeps_trans by blast
    ultimately show ?thesis using l(2,4) Some by (simp add: expire_tunnel_def TunnelExpired_leave SetTunnelPool_def)
  qed
  then show "tm_ok (expire_tunnel r st)" "\<not> in_pool (expire_tunnel r st) r" "keeps st (expire_tunnel r st)"
    "\<And>x. x \<noteq> r \<Longrightarrow> tm_mem (expire_tunnel r st) x = tm_mem st x" by blast+
qed

lemma recreate_tunnel_ok:
  assumes "tm_ok st" and "r < tm_next st" and "recreate_tunnel env r st = Some st'"
  shows "tm_ok st'" "keeps st st'" "\<And>x. x < tm_next st \<Longrightarrow> x \<noteq> r \<Longrightarrow> tm_mem st' x = tm_mem st x"
    "tn_state (tm_mem st' r) = tn_state (tm_mem st r)"
proof -
  let ?s = "SetIsRecreated r st"
  have s: "tm_ok ?s" "keeps st ?s" using tm_ok_SetIsRecreated [OF assms(1,2)] keeps_SetIsRecreated by auto
  have g: "st' = st \<or> good_step ?s st'"
  proof (cases "tn_pool (tm_mem ?s r)")
    case None
    then show ?thesis using assms(3) by (auto simp: recreate_tunnel_def Let_def good_refl split: if_splits)
  next
    case (Some p)
    then have "p < tm_nextPool ?s" using tm_okD(7) [OF s(1), of r p] assms(2) by (simp add: SetIsRecreated_def)
    then show ?thesis using assms(3) Some creating_good(3,4) by (auto simp: recreate_tunnel_def Let_def split: if_splits)
  qed
  have "tm_ok st' \<and> keeps st st' \<and> (\<forall>x. x < tm_next st \<longrightarrow> x \<noteq> r \<longrightarrow> tm_mem st' x = tm_mem st x) \<and> tn_state (tm_mem st' r) = tn_state (tm_mem st r)"
    using g
  proof
    assume g: "good_step ?s st'"
    then have "tm_mem st' x = tm_mem ?s x" if "x < tm_next st" for x using that by (simp add: good_step_def extends_def SetIsRecreated_def)
    then show ?thesis
      using g s good_keeps [OF g] keeps_trans [OF s(2)] good_pools(3) [OF g] assms(2) by (auto simp: SetIsRecreated_def)
  qed (use assms(1) keeps_refl in auto)
  then show "tm_ok st'" "keeps st st'" "\<And>x. x < tm_next st \<Longrightarrow> x \<noteq> r \<Longrightarrow> tm_mem st' x = tm_mem st x"
    "tn_state (tm_mem st' r) = tn_state (tm_mem st r)" by blast+
qed

definition age_ok :: "tmgr \<Rightarrow> nat \<Rightarrow> bool" where
  "age_ok st r \<longleftrightarrow> tm_now st \<le> tunnel_deadline (tm_mem st r) TUNNEL_EXPIRATION_TIMEOUT \<and>
     (IsEstablished st r \<longrightarrow> tm_now st + word_of_nat TUNNEL_EXPIRATION_THRESHOLD \<le> tunnel_deadline (tm_mem st r) TUNNEL_EXPIRATION_TIMEOUT)"

lemma manage_tunnel_ok:
  assumes ok: "tm_ok st" and r: "r < tm_next st" and l: "live (tn_state (tm_mem st r))" and m: "manage_tunnel env r st = Some (keep, st')"
  shows "tm_ok st' \<and> keeps st st' \<and> (\<forall>x < tm_next st. x \<noteq> r \<longrightarrow> tm_mem st' x = tm_mem st x) \<and> (if keep then age_ok st' r else \<not> in_pool st' r)"
proof (cases "tm_now st > tunnel_deadline (tm_mem st r) TUNNEL_EXPIRATION_TIMEOUT")
  case True
  then show ?thesis using m expire_tunnel_ok [OF ok r] by (auto simp: manage_tunnel_def)
next
  case young: False
  show ?thesis
  proof (cases "IsEstablished st r")
    case True
    then obtain s where s: "recreate_tunnel env r st = Some s" and keep
      and st': "st' = (if tm_now s + word_of_nat TUNNEL_EXPIRATION_THRESHOLD > tunnel_deadline (tm_mem s r) TUNNEL_EXPIRATION_TIMEOUT
          then SetState r eTunnelStateExpiring s else s)"
      using m young by (auto simp: manage_tunnel_def split: Option.bind_splits)
    note a = recreate_tunnel_ok [OF ok r s]
    have r': "r < tm_next s" using a(2) r by (simp add: keeps_def)
    have d: "tm_now s = tm_now st" "tunnel_deadline (tm_mem s r) n = tunnel_deadline (tm_mem st r) n" for n
      using a(2) r by (simp_all add: keeps_def tunnel_deadline_def)
    have e: "tm_ok (SetState r eTunnelStateExpiring s)" "keeps s (SetState r eTunnelStateExpiring s)"
      using tm_ok_SetState [OF a(1) r'] keeps_SetState by (auto simp: live_def)
    show ?thesis
    proof (cases "tm_now s + word_of_nat TUNNEL_EXPIRATION_THRESHOLD > tunnel_deadline (tm_mem s r) TUNNEL_EXPIRATION_TIMEOUT")
      case True
      then have st2: "st' = SetState r eTunnelStateExpiring s" using st' by simp
      have "age_ok st' r" using young d(1) d(2) [of TUNNEL_EXPIRATION_TIMEOUT]
        by (simp add: st2 age_ok_def SetState_def IsEstablished_def tunnel_deadline_def)
      then show ?thesis using a(3) e keeps_trans [OF a(2) e(2)] \<open>keep\<close> by (simp add: st2 SetState_def)
    next
      case False
      then have "age_ok s r" using young d by (simp add: age_ok_def not_less)
      then show ?thesis using False a st' \<open>keep\<close> by simp
    qed
  next
    case False
    then have "keep" "st' = st" using m young by (auto simp: manage_tunnel_def)
    then show ?thesis using ok keeps_refl young False by (simp add: age_ok_def not_less)
  qed
qed

definition registered :: "tmgr \<Rightarrow> nat \<Rightarrow> bool" where
  "registered st r \<longleftrightarrow> r \<in> set (tm_outbound st) \<or> r \<in> snd ` set (tm_inbound st)"

lemma registeredD:
  assumes "tm_ok st" and "registered st r"
  shows "r < tm_next st" "live (tn_state (tm_mem st r))"
  using assms(2) tm_okD(1,2) [OF assms(1)] by (auto simp: registered_def listed_def)

lemma keeps_registered: "keeps st st' \<Longrightarrow> registered st' r = registered st r"
  by (simp add: keeps_def registered_def)

lemma age_ok_stable:
  assumes ok: "tm_ok st" and r: "r < tm_next st" "live (tn_state (tm_mem st r))" and m: "manage_tunnel env r st = Some (keep, st')"
    and a: "age_ok st x" "x < tm_next st"
  shows "age_ok st' x"
proof (cases "x = r")
  case True
  have keep using a(1) m True by (auto simp: manage_tunnel_def age_ok_def not_less split: if_splits Option.bind_splits)
  then show ?thesis using manage_tunnel_ok [OF ok r m] True by simp
next
  case False
  then have "tm_mem st' x = tm_mem st x" "tm_now st' = tm_now st" using manage_tunnel_ok [OF ok r m] a(2) by (auto simp: keeps_def)
  then show ?thesis using a(1) by (simp add: age_ok_def IsEstablished_def)
qed

lemma manage_outbound_ok:
  assumes "tm_ok st" and "\<forall>r \<in> set rs. registered st r" and "manage_outbound env rs st = Some (kept, st')"
  shows "tm_ok st' \<and> keeps st st' \<and> set kept \<subseteq> set rs \<and> (\<forall>r \<in> set kept. age_ok st' r) \<and> (\<forall>r \<in> set rs - set kept. \<not> in_pool st' r) \<and>
    (\<forall>x < tm_next st. age_ok st x \<longrightarrow> age_ok st' x)"
  using assms
proof (induction rs arbitrary: st kept)
  case (Cons r rs)
  obtain keep st1 kept1 where m: "manage_tunnel env r st = Some (keep, st1)" and o': "manage_outbound env rs st1 = Some (kept1, st')"
    and k: "kept = (if keep then r # kept1 else kept1)"
    using Cons.prems(3) by (auto split: Option.bind_splits)
  have r: "r < tm_next st" "live (tn_state (tm_mem st r))" using registeredD [OF Cons.prems(1)] Cons.prems(2) by auto
  note s = manage_tunnel_ok [OF Cons.prems(1) r m]
  have i: "tm_ok st' \<and> keeps st1 st' \<and> set kept1 \<subseteq> set rs \<and> (\<forall>r \<in> set kept1. age_ok st' r) \<and> (\<forall>r \<in> set rs - set kept1. \<not> in_pool st' r) \<and>
      (\<forall>x < tm_next st1. age_ok st1 x \<longrightarrow> age_ok st' x)"
    using Cons.IH [OF _ _ o'] s Cons.prems(2) keeps_registered by auto
  have n: "tm_next st \<le> tm_next st1" using s by (simp add: keeps_def)
  have "keeps st st'" using s i keeps_trans by blast
  moreover have "\<not> in_pool st1 x \<Longrightarrow> \<not> in_pool st' x" for x using i by (auto simp: keeps_def)
  moreover have "age_ok st' x" if "age_ok st x" "x < tm_next st" for x
    using age_ok_stable [OF Cons.prems(1) r m that] i that n by auto
  moreover have "keep \<Longrightarrow> age_ok st' r" using s i r(1) n by auto
  ultimately show ?case using s i k by auto
qed (simp add: keeps_refl)

lemma manage_inbound_outbound:
  "manage_inbound env rs st = Some (kept, st') \<Longrightarrow> manage_outbound env (map snd rs) st = Some (map snd kept, st') \<and> set kept \<subseteq> set rs"
  by (induction rs arbitrary: st kept) (fastforce split: Option.bind_splits if_splits)+

lemma tm_ok_drop_outbound:
  assumes "tm_ok st" and "set kept \<subseteq> set (tm_outbound st)" and "\<forall>r \<in> set (tm_outbound st) - set kept. \<not> in_pool st r"
  shows "tm_ok (st\<lparr>tm_outbound := kept\<rparr>)"
proof -
  have "pool_ok (st\<lparr>tm_outbound := kept\<rparr>) p (tm_pool st p)" if p: "p < tm_nextPool st" for p
  proof -
    have "x \<in> set kept" if "x \<in> set (pl_outbound (tm_pool st p))" for x
      using that p assms(3) tm_okD(5) [OF assms(1) p] by (auto simp: in_pool_def pool_ok_def)
    then show ?thesis using tm_okD(5) [OF assms(1) p] by (auto simp: pool_ok_def member_ok_def tested_ok_def listed_def split: option.splits)
  qed
  then show ?thesis using assms(1,2) by (auto simp: tm_ok_def listed_def tun_ok_def cong: option.case_cong)
qed

lemma tm_ok_drop_inbound: "tm_ok st \<Longrightarrow> set kept \<subseteq> set (tm_inbound st) \<Longrightarrow> tm_ok (st\<lparr>tm_inbound := kept\<rparr>)"
  unfolding tm_ok_def pool_ok_def member_ok_def tested_ok_def listed_def tun_ok_def by (auto cong: option.case_cong)

lemma age_ok_update [simp]:
  "age_ok (st\<lparr>tm_outbound := x\<rparr>) r = age_ok st r" "age_ok (st\<lparr>tm_inbound := y\<rparr>) r = age_ok st r"
  "age_ok (st\<lparr>tm_exploratory := e\<rparr>) r = age_ok st r" "age_ok (st\<lparr>tm_transit := t\<rparr>) r = age_ok st r"
  by (simp_all add: age_ok_def IsEstablished_def)

lemma good_age:
  assumes "good_step st st'" and "r < tm_next st" and "age_ok st r"
  shows "age_ok st' r"
  using assms by (simp add: good_step_def extends_def age_ok_def IsEstablished_def)

lemma CreateTunnel_pool:
  assumes "tm_ok st"
  shows "tm_ok (snd (CreateTunnelPool dest a b c d st))" "keeps st ((snd (CreateTunnelPool dest a b c d st))\<lparr>tm_nextPool := tm_nextPool st, tm_pools := tm_pools st\<rparr>)"
proof -
  have "pool_ok st (tm_nextPool st) (new_pool dest a b c d)" by (simp add: pool_ok_def new_pool_def)
  then have "pool_ok st p (((tm_pool st)(tm_nextPool st := new_pool dest a b c d)) p)" if "p \<le> tm_nextPool st" for p
    using tm_okD(5) [OF assms, of p] that by auto
  moreover have "pool_ok (snd (CreateTunnelPool dest a b c d st)) p pl = pool_ok st p pl" for p pl
    by (simp add: CreateTunnelPool_def Let_def pool_ok_def member_ok_def tested_ok_def listed_def cong: option.case_cong)
  ultimately show "tm_ok (snd (CreateTunnelPool dest a b c d st))"
    using assms by (auto simp: tm_ok_def CreateTunnelPool_def Let_def listed_def tun_ok_def less_Suc_eq_le less_Suc_eq split: option.splits)
  show "keeps st ((snd (CreateTunnelPool dest a b c d st))\<lparr>tm_nextPool := tm_nextPool st, tm_pools := tm_pools st\<rparr>)"
    by (auto simp: keeps_def CreateTunnelPool_def Let_def in_pool_def)
qed

lemma CreateTunnel_snd_good:
  assumes "map_option snd (CreateTunnel env inb config ot st) = Some st'" and "config \<noteq> Some []"
  shows "good_step st st'"
  using assms CreateTunnel_good(1) [OF _ assms(2)] by fastforce

lemma CreateTunnel_drawn_good:
  assumes "CreateTunnel env inb (new_config env s peers reply) ot (drawn st) = Some (r, st')"
  shows "good_step st st'"
  using CreateTunnel_good(1) [OF assms configs_not_empty(1)] good_trans [OF good_drawn] by blast

lemma ManageOutboundTunnels_ok:
  assumes ok: "tm_ok st" and m: "ManageOutboundTunnels env st = Some st'"
  shows "tm_ok st'" "\<forall>r \<in> set (tm_outbound st'). age_ok st' r" "tm_inbound st' = tm_inbound st" "tm_transit st' = tm_transit st"
    "tm_now st' = tm_now st" "tm_pools st' = tm_pools st" "tm_nextPool st' = tm_nextPool st"
    "\<And>x. x < tm_next st \<Longrightarrow> age_ok st x \<Longrightarrow> age_ok st' x"
proof -
  obtain kept s1 where k: "manage_outbound env (tm_outbound st) st = Some (kept, s1)"
    using m by (auto simp: ManageOutboundTunnels_def split: Option.bind_splits)
  have a: "tm_ok s1 \<and> keeps st s1 \<and> set kept \<subseteq> set (tm_outbound st) \<and> (\<forall>r \<in> set kept. age_ok s1 r) \<and>
      (\<forall>r \<in> set (tm_outbound st) - set kept. \<not> in_pool s1 r) \<and> (\<forall>x < tm_next st. age_ok st x \<longrightarrow> age_ok s1 x)"
    by (rule manage_outbound_ok [OF ok _ k]) (simp add: registered_def)
  have o': "tm_outbound s1 = tm_outbound st" using a by (simp add: keeps_def)
  let ?s = "s1\<lparr>tm_outbound := kept\<rparr>"
  have s: "tm_ok ?s" by (rule tm_ok_drop_outbound) (use a o' in simp_all)
  have g: "good_step ?s st'"
    using m k by (auto simp: ManageOutboundTunnels_def Let_def good_refl
        intro: CreateTunnel_drawn_good split: if_splits option.splits)
  have e: "extends ?s st'" using g by (simp add: good_step_def)
  have kl: "r < tm_next ?s" if "r \<in> set kept" for r using tm_okD(2) [OF s] that by (simp add: listed_def)
  show "tm_ok st'" using good_pools(3) [OF g s] .
  show "\<forall>r \<in> set (tm_outbound st'). age_ok st' r"
    using good_age [OF g] a kl e by (auto simp: extends_def)
  show "tm_inbound st' = tm_inbound st" "tm_transit st' = tm_transit st" "tm_now st' = tm_now st" "tm_pools st' = tm_pools st"
    "tm_nextPool st' = tm_nextPool st"
    using e a by (simp_all add: extends_def keeps_def)
  show "age_ok st' x" if "x < tm_next st" "age_ok st x" for x
    using good_age [OF g, of x] that a by (auto simp: keeps_def)
qed

lemma ManageInboundTunnels_ok:
  assumes ok: "tm_ok st" and m: "ManageInboundTunnels env st = Some st'"
  shows "tm_ok st'" "\<forall>r \<in> snd ` set (tm_inbound st'). age_ok st' r" "tm_transit st' = tm_transit st" "tm_now st' = tm_now st"
proof -
  obtain kept s1 where k: "manage_inbound env (tm_inbound st) st = Some (kept, s1)"
    using m by (auto simp: ManageInboundTunnels_def split: Option.bind_splits)
  have k': "manage_outbound env (map snd (tm_inbound st)) st = Some (map snd kept, s1)" "set kept \<subseteq> set (tm_inbound st)"
    using manage_inbound_outbound [OF k] by auto
  have a: "tm_ok s1 \<and> keeps st s1 \<and> set (map snd kept) \<subseteq> set (map snd (tm_inbound st)) \<and> (\<forall>r \<in> set (map snd kept). age_ok s1 r) \<and>
      (\<forall>r \<in> set (map snd (tm_inbound st)) - set (map snd kept). \<not> in_pool s1 r) \<and> (\<forall>x < tm_next st. age_ok st x \<longrightarrow> age_ok s1 x)"
    by (rule manage_outbound_ok [OF ok _ k'(1)]) (auto simp: registered_def)
  have o': "tm_inbound s1 = tm_inbound st" using a by (simp add: keeps_def)
  let ?s = "s1\<lparr>tm_inbound := kept\<rparr>"
  have s: "tm_ok ?s" by (rule tm_ok_drop_inbound) (use a o' k'(2) in simp_all)
  have kl: "r < tm_next ?s" if "r \<in> snd ` set kept" for r using tm_okD(1) [OF s] that by (auto simp: listed_def)
  have "\<exists>s2. good_step ?s s2 \<and> (st' = s2 \<or> (\<exists>p s3. CreateTunnelPool (Some 0) 2 2 5 5 s2 = (p, s3) \<and> st' = s3\<lparr>tm_exploratory := Some p\<rparr>))"
  proof (cases "kept = []")
    case True
    obtain s2 where "CreateZeroHopsInboundTunnel env ?s = Some s2"
      and st': "st' = (if tm_exploratory s2 = None then (case CreateTunnelPool (Some 0) 2 2 5 5 s2 of (p, st) \<Rightarrow> st\<lparr>tm_exploratory := Some p\<rparr>) else s2)"
      using m k True by (auto simp: ManageInboundTunnels_def Let_def split: Option.bind_splits)
    then have "good_step ?s s2" using CreateTunnel_snd_good configs_not_empty(1) unfolding CreateZeroHopsInboundTunnel_def by blast
    then show ?thesis using st' by (auto split: if_splits prod.splits)
  next
    case False
    then have "good_step ?s st'"
      using m k by (auto simp: ManageInboundTunnels_def Let_def good_refl
        intro: CreateTunnel_drawn_good split: if_splits Option.bind_splits)
    then show ?thesis by blast
  qed
  then obtain s2 where g: "good_step ?s s2"
    and st': "st' = s2 \<or> (\<exists>p s3. CreateTunnelPool (Some 0) 2 2 5 5 s2 = (p, s3) \<and> st' = s3\<lparr>tm_exploratory := Some p\<rparr>)" by blast
  have s2: "tm_ok s2" using good_pools(3) [OF g s] .
  have e: "extends ?s s2" using g by (simp add: good_step_def)
  have ex: "tm_ok (s\<lparr>tm_exploratory := x\<rparr>) = tm_ok s" for s x by (simp add: tm_ok_defs cong: option.case_cong)
  show "tm_ok st'" using st' s2 CreateTunnel_pool(1) [OF s2, of "Some 0" 2 2 5 5] ex by auto
  have "tm_inbound st' = kept \<and> tm_transit st' = tm_transit st \<and> tm_now st' = tm_now st \<and> tm_mem st' = tm_mem s2"
    using st' e a by (auto simp: extends_def keeps_def CreateTunnelPool_def Let_def)
  moreover have "\<forall>r \<in> snd ` set kept. age_ok s2 r" using good_age [OF g] a kl by auto
  moreover have "tm_now s2 = tm_now st" using e a by (simp add: extends_def keeps_def)
  ultimately show "\<forall>r \<in> snd ` set (tm_inbound st'). age_ok st' r" "tm_transit st' = tm_transit st" "tm_now st' = tm_now st"
    by (simp_all add: age_ok_def IsEstablished_def)
qed

lemma tm_ok_pending:
  assumes "tm_ok st" and "set a \<subseteq> set (tm_pendingInbound st)" and "set b \<subseteq> set (tm_pendingOutbound st)"
  shows "tm_ok (st\<lparr>tm_pendingInbound := a, tm_pendingOutbound := b\<rparr>)"
  using assms by (auto simp: tm_ok_def pool_ok_def member_ok_def tested_ok_def listed_def tun_ok_def cong: option.case_cong)

lemma tm_ok_counters: "tm_ok (st\<lparr>tm_numFailed := a\<rparr>) = tm_ok st" "tm_ok (st\<lparr>tm_numSuccessive := a\<rparr>) = tm_ok st"
  "tm_ok (st\<lparr>tm_transit := t\<rparr>) = tm_ok st" "tm_ok (st\<lparr>tm_now := n\<rparr>) = tm_ok st"
  by (simp_all add: tm_ok_defs cong: option.case_cong)

text \<open>Managing pending tunnels touches only the counters and the events.\<close>

definition reports :: "tmgr \<Rightarrow> tmgr \<Rightarrow> bool" where
  "reports st st' \<longleftrightarrow> st' = st\<lparr>tm_out := tm_out st', tm_numFailed := tm_numFailed st', tm_numSuccessive := tm_numSuccessive st'\<rparr>"

lemma reports_refl: "reports st st"
  by (simp add: reports_def)

lemma reports_trans: "reports st st' \<Longrightarrow> reports st' st'' \<Longrightarrow> reports st st''"
  unfolding reports_def by (cases st; cases st'; cases st'') auto

lemma reports_ok: "reports st st' \<Longrightarrow> tm_ok st' = tm_ok st"
  unfolding reports_def by (cases st; cases st') (simp add: tm_ok_defs cong: option.case_cong)

lemma reports_emits: "reports st (fold (\<lambda>x. tm_emit (f x)) xs st)"
proof (induction xs arbitrary: st)
  case (Cons x xs)
  have "reports st (tm_emit (f x) st)" by (simp add: reports_def tm_emit_def)
  then show ?case using Cons.IH reports_trans by fastforce
qed (simp add: reports_refl)

lemma manage_pending_reports:
  "manage_pending ps st = (kept, st') \<Longrightarrow> reports st st' \<and> set kept \<subseteq> set ps"
proof (induction ps arbitrary: st kept)
  case (Cons x ps)
  obtain mid r where x: "x = (mid, r)" by (cases x)
  have c: "reports s (s\<lparr>tm_numFailed := a\<rparr>)" "reports s (s\<lparr>tm_numSuccessive := a\<rparr>)" for a and s :: tmgr
    by (cases s; simp add: reports_def)+
  have f: "reports st ((fold (\<lambda>hop. tm_emit (EvProfileNonReplied (hop_router hop))) (tn_hops (tm_mem st r)) st)\<lparr>tm_numFailed := tm_numFailed st + 1\<rparr>)"
    using reports_emits [of st "\<lambda>hop. EvProfileNonReplied (hop_router hop)" "tn_hops (tm_mem st r)"] c(1) by (rule reports_trans)
  let ?P = "\<exists>s1 kept1. reports st s1 \<and> manage_pending ps s1 = (kept1, st') \<and> set kept \<subseteq> insert x (set kept1)"
  have w: "manage_pending ps (st\<lparr>tm_numSuccessive := a\<rparr>) = (kept, st') \<Longrightarrow> ?P" "manage_pending ps (st\<lparr>tm_numFailed := a\<rparr>) = (kept, st') \<Longrightarrow> ?P" for a
    using c [of st a] by blast+
  have "\<exists>s1 kept1. reports st s1 \<and> manage_pending ps s1 = (kept1, st') \<and> set kept \<subseteq> insert x (set kept1)"
  proof (cases "tn_state (tm_mem st r)")
    case eTunnelStatePending
    show ?thesis
    proof (cases "tm_now st > tunnel_deadline (tm_mem st r) TUNNEL_CREATION_TIMEOUT")
      case True
      then show ?thesis using Cons.prems eTunnelStatePending f unfolding x by auto
    next
      case False
      then show ?thesis using Cons.prems eTunnelStatePending reports_refl [of st] unfolding x
        by (intro exI [of _ st]) (auto split: prod.splits)
    qed
  next
    case eTunnelStateBuildReplyReceived
    then show ?thesis using Cons.prems reports_refl [of st] unfolding x by (intro exI [of _ st]) (auto split: prod.splits)
  qed (rule w; use Cons.prems in \<open>simp add: x\<close>)+
  then show ?case using Cons.IH reports_trans by fastforce
qed (simp add: reports_refl)

section \<open>Testing\<close>

text \<open>No tunnel becomes established.\<close>

definition calm :: "tmgr \<Rightarrow> tmgr \<Rightarrow> bool" where
  "calm st st' \<longleftrightarrow> keeps st st' \<and> (\<forall>r < tm_next st. IsEstablished st' r \<longrightarrow> IsEstablished st r)"

lemma calm_refl: "calm st st"
  by (simp add: calm_def keeps_refl)

lemma calm_trans: "calm st st' \<Longrightarrow> calm st' st'' \<Longrightarrow> calm st st''"
  unfolding calm_def using keeps_trans by (fastforce simp: keeps_def)

lemma good_calm: "good_step st st' \<Longrightarrow> calm st st'"
  using good_keeps by (simp add: calm_def good_step_def extends_def IsEstablished_def)

lemma calm_SetState: "s \<noteq> eTunnelStateEstablished \<Longrightarrow> calm st (SetState r s st)"
  using keeps_SetState [of st r s] by (auto simp: calm_def SetState_def IsEstablished_def)

lemma calm_same_mem: "keeps st st' \<Longrightarrow> tm_mem st' = tm_mem st \<Longrightarrow> calm st st'"
  by (simp add: calm_def IsEstablished_def)

lemma calm_age: "calm st st' \<Longrightarrow> r < tm_next st \<Longrightarrow> age_ok st r \<Longrightarrow> age_ok st' r"
  by (auto simp: calm_def keeps_def age_ok_def tunnel_deadline_def)

lemma tested_ok_keep:
  assumes "tested_ok st p inb t" and "tm_next st \<le> tm_next st'"
    and "\<And>r. r < tm_next st \<Longrightarrow> tn_inbound (tm_mem st' r) = tn_inbound (tm_mem st r) \<and> tn_pool (tm_mem st' r) = tn_pool (tm_mem st r) \<and>
      (live (tn_state (tm_mem st r)) \<longrightarrow> live (tn_state (tm_mem st' r)))"
  shows "tested_ok st' p inb t"
  using assms by (auto simp: tested_ok_def listed_def split: option.splits)

text \<open>A test that fails: the tunnels of the other tests of the pool stay as they should be.\<close>

definition tunnels_same :: "tmgr \<Rightarrow> tmgr \<Rightarrow> bool" where
  "tunnels_same st st' \<longleftrightarrow> tm_next st' = tm_next st \<and> (\<forall>r < tm_next st. tn_inbound (tm_mem st' r) = tn_inbound (tm_mem st r) \<and>
     tn_pool (tm_mem st' r) = tn_pool (tm_mem st r) \<and> (live (tn_state (tm_mem st r)) \<longrightarrow> live (tn_state (tm_mem st' r))))"

lemma tunnels_same_trans: "tunnels_same st st' \<Longrightarrow> tunnels_same st' st'' \<Longrightarrow> tunnels_same st st''"
  unfolding tunnels_same_def by auto

lemma tests_stay: "tunnels_same st st' \<Longrightarrow> tested_ok st p inb t \<Longrightarrow> tested_ok st' p inb t"
  by (rule tested_ok_keep) (auto simp: tunnels_same_def)

lemma lease_set_updated_simps:
  "tm_ok (lease_set_updated p st) = tm_ok st" "tm_mem (lease_set_updated p st) = tm_mem st" "tm_next (lease_set_updated p st) = tm_next st"
  "calm st (lease_set_updated p st)"
  by (auto simp: lease_set_updated_def calm_refl good_calm split: option.splits)

definition test_failed :: "nat \<Rightarrow> nat \<Rightarrow> tmgr \<Rightarrow> tmgr" where
  "test_failed p r st = (if tn_state (tm_mem st r) = eTunnelStateTestFailed then leave_pool p r (SetState r eTunnelStateFailed st)
     else SetState r eTunnelStateTestFailed st)"

lemma SetState_leave: "leave_pool p r (SetState r s st) = SetState r s (leave_pool p r st)"
  by (simp add: leave_pool_def SetState_def put_tun_def put_pool_def Let_def)

lemma leave_pool_simps [simp]: "tm_mem (leave_pool p r st) = tm_mem st" "tm_next (leave_pool p r st) = tm_next st"
  by (simp_all add: leave_pool_def)

lemma test_failed_ok:
  assumes "tm_ok st" and "tested_ok st p inb (Some r)"
  shows "tm_ok (test_failed p r st)" "calm st (test_failed p r st)" "tunnels_same st (test_failed p r st)"
proof -
  have r: "r < tm_next st" "live (tn_state (tm_mem st r))" "tn_pool (tm_mem st r) \<in> {None, Some p}"
    using assms(2) by (auto simp: tested_ok_def listed_def)
  note l = leave_pool_ok [OF assms(1) r(3)]
  have "tm_ok (SetState r eTunnelStateFailed (leave_pool p r st))"
    by (rule tm_ok_SetState [OF l(1)]) (use r l in \<open>auto simp: live_def\<close>)
  moreover have "tm_ok (SetState r eTunnelStateTestFailed st)"
    by (rule tm_ok_SetState [OF assms(1) r(1)]) (auto simp: live_def)
  ultimately show "tm_ok (test_failed p r st)" by (simp add: test_failed_def SetState_leave)
  show "calm st (test_failed p r st)"
    using calm_trans [OF calm_same_mem [OF l(3,4)] calm_SetState] calm_SetState by (simp add: test_failed_def SetState_leave)
  show "tunnels_same st (test_failed p r st)"
    by (auto simp: tunnels_same_def test_failed_def SetState_def live_def)
qed

lemma outbound_test_failed_eq:
  assumes "tested_ok st p False o'"
  shows "\<exists>r. o' = Some r \<and> outbound_test_failed p o' st = test_failed p r st"
  using assms by (cases o') (auto simp: tested_ok_def listed_def outbound_test_failed_def test_failed_def leave_pool_def SetState_def Let_def)

lemma inbound_test_failed_eq:
  assumes "tested_ok st p True i"
  shows "\<exists>r. i = Some r \<and> (inbound_test_failed p i st = test_failed p r st \<or> inbound_test_failed p i st = lease_set_updated p (test_failed p r st))"
  using assms by (cases i) (auto simp: tested_ok_def listed_def inbound_test_failed_def test_failed_def leave_pool_def SetState_def Let_def)

lemma tests_failed_ok:
  assumes "tm_ok st" and "\<forall>(_, o', i) \<in> set tests. tested_ok st p False o' \<and> tested_ok st p True i"
  shows "tm_ok (tests_failed p tests st) \<and> calm st (tests_failed p tests st) \<and> tunnels_same st (tests_failed p tests st)"
  using assms
proof (induction tests arbitrary: st)
  case Nil
  then show ?case by (simp add: calm_refl tunnels_same_def)
next
  case (Cons x tests)
  obtain mid o' i where x: "x = (mid, o', i)" by (cases x)
  obtain r1 where r1: "o' = Some r1" "outbound_test_failed p o' st = test_failed p r1 st"
    using outbound_test_failed_eq [where st = st and p = p and o' = o'] Cons.prems(2) x by auto
  let ?s1 = "test_failed p r1 st"
  have 1: "tm_ok ?s1" "calm st ?s1" "tunnels_same st ?s1"
    using test_failed_ok [OF Cons.prems(1), of p False r1] Cons.prems(2) x r1(1) by auto
  have i: "tested_ok ?s1 p True i" using tests_stay [OF 1(3)] Cons.prems(2) x by auto
  obtain r2 where r2: "i = Some r2" and e: "inbound_test_failed p i ?s1 = test_failed p r2 ?s1 \<or>
      inbound_test_failed p i ?s1 = lease_set_updated p (test_failed p r2 ?s1)"
    using inbound_test_failed_eq [OF i] by auto
  have 2: "tm_ok (test_failed p r2 ?s1)" "calm ?s1 (test_failed p r2 ?s1)" "tunnels_same ?s1 (test_failed p r2 ?s1)"
    using test_failed_ok [OF 1(1), of p True r2] i r2 by auto
  let ?s2 = "inbound_test_failed p i ?s1"
  have s2: "tm_ok ?s2" "calm ?s1 ?s2" "tunnels_same ?s1 ?s2"
    using e 2 lease_set_updated_simps [where p = p and st = "test_failed p r2 ?s1"] calm_trans by (auto simp: tunnels_same_def)
  have "\<forall>(_, o', i) \<in> set tests. tested_ok ?s2 p False o' \<and> tested_ok ?s2 p True i"
    using Cons.prems(2) tests_stay [OF tunnels_same_trans [OF 1(3) s2(3)]] by fastforce
  from Cons.IH [OF s2(1) this] show ?case
    using 1 s2 calm_trans tunnels_same_trans unfolding x by (simp add: r1(2))
qed

lemma new_tests_ok:
  assumes "tm_ok st" and "p < tm_nextPool st" and "pl_active (tm_pool st p)"
    and "\<forall>r \<in> set os. member_ok st p False r" and "\<forall>r \<in> set ins. member_ok st p True r"
  shows "tm_ok (new_tests env p os ins st) \<and> calm st (new_tests env p os ins st)"
  using assms
proof (induction env p os ins st rule: new_tests.induct)
  case (1 env p r1 it1 r2 it2 st)
  have m: "member_ok st p False r1" "member_ok st p True r2" using "1.prems"(4,5) by auto
  then have nf: "\<not> IsFailed st r1" "\<not> IsFailed st r2" by (auto simp: member_ok_def IsFailed_def)
  let ?mid = "mg_word env (tm_count st)"
  let ?pl = "(tm_pool st p)\<lparr>pl_tests := omap_put ?mid (Some r1, Some r2) (pl_tests (tm_pool st p))\<rparr>"
  let ?s = "tm_emit (EvTest r1 r2 ?mid) (put_pool p ?pl (drawn st))"
  have t: "tested_ok st p False (Some r1)" "tested_ok st p True (Some r2)" using m by (auto simp: tested_ok_def member_ok_def)
  have "pool_ok st p ?pl"
    using tm_okD(5) [OF "1.prems"(1,2)] "1.prems"(3) t set_omap_put [of ?mid "(Some r1, Some r2)" "pl_tests (tm_pool st p)"]
    by (auto simp: pool_ok_def)
  then have "pool_ok (drawn st) p ?pl" by (rule pool_ok_cong [rotated 3]) simp_all
  then have ok: "tm_ok ?s" using tm_ok_put_pool [of "drawn st" p ?pl] "1.prems"(1) by simp
  have c: "calm st ?s"
    by (rule calm_same_mem) (auto simp: keeps_def in_pool_def split: if_splits)
  have "member_ok ?s p i r = member_ok st p i r" for i r by (simp add: member_ok_def listed_def)
  then have "tm_ok (new_tests env p it1 it2 ?s) \<and> calm ?s (new_tests env p it1 it2 ?s)"
    using "1.IH"(2) [of ?mid "tm_pool st p" "put_pool p ?pl (drawn st)"] nf ok "1.prems" by simp
  then show ?case using calm_trans [OF c] nf by (simp add: Let_def)
qed (simp_all add: calm_refl)

lemma TestTunnels_ok:
  assumes "tm_ok st" and "p < tm_nextPool st" and "pl_active (tm_pool st p)"
  shows "tm_ok (TestTunnels env p st) \<and> calm st (TestTunnels env p st)"
proof -
  let ?s1 = "tests_failed p (pl_tests (tm_pool st p)) st"
  let ?s2 = "put_pool p ((tm_pool ?s1 p)\<lparr>pl_tests := []\<rparr>) ?s1"
  have 1: "tm_ok ?s1 \<and> calm st ?s1 \<and> tunnels_same st ?s1"
    by (rule tests_failed_ok [OF assms(1)]) (use tm_okD(5) [OF assms(1,2)] in \<open>simp add: pool_ok_def\<close>)
  have n: "p < tm_nextPool ?s1" using 1 assms(2) by (simp add: calm_def keeps_def)
  have po: "pool_ok ?s1 p (tm_pool ?s1 p)" using tm_okD(5) 1 n by blast
  have a: "pl_active (tm_pool (tests_failed p tests s) q) = pl_active (tm_pool s q)" for tests q s
    by (induction p tests s rule: tests_failed.induct)
      (auto simp: inbound_test_failed_def outbound_test_failed_def lease_set_updated_def SetState_def Let_def split: option.splits)
  have 2: "tm_ok ?s2" by (rule tm_ok_put_pool) (use 1 po in \<open>auto simp: pool_ok_def\<close>)
  have c2: "calm ?s1 ?s2" by (rule calm_same_mem) (auto simp: keeps_def in_pool_def split: if_splits)
  have "tm_ok (new_tests env p (pl_outbound (tm_pool ?s2 p)) (pl_inbound (tm_pool ?s2 p)) ?s2) \<and>
      calm ?s2 (new_tests env p (pl_outbound (tm_pool ?s2 p)) (pl_inbound (tm_pool ?s2 p)) ?s2)"
    by (rule new_tests_ok [OF 2]) (use n a assms(3) po in \<open>auto simp: pool_ok_def member_ok_def listed_def\<close>)
  then show ?thesis using 1 c2 calm_trans unfolding TestTunnels_def Let_def by blast
qed

lemma ManageTunnelPool_ok:
  assumes "tm_ok st" and "p < tm_nextPool st" and "ManageTunnelPool env p st = Some st'"
  shows "tm_ok st' \<and> calm st st'"
proof (cases "pl_active (tm_pool st p)")
  case True
  then obtain s where s: "CreateTunnels env p st = Some s" "st' = TestTunnels env p s"
    using assms(3) by (auto simp: ManageTunnelPool_def split: Option.bind_splits)
  have g: "good_step st s" by (rule CreateTunnels_good [OF s(1) assms(2)])
  have "tm_ok st' \<and> calm s st'"
    unfolding s(2) by (rule TestTunnels_ok) (use g good_pools [OF g] assms(1,2) True in auto)
  then show ?thesis using good_calm [OF g] calm_trans by blast
next
  case False
  then show ?thesis using assms calm_refl by (simp add: ManageTunnelPool_def)
qed

lemma manage_pools_ok:
  assumes "tm_ok st" and "\<forall>p \<in> set ps. p < tm_nextPool st" and "manage_pools env ps st = Some st'"
  shows "tm_ok st' \<and> calm st st'"
  using assms
proof (induction ps arbitrary: st)
  case (Cons p ps)
  obtain s where s: "ManageTunnelPool env p st = Some s" "manage_pools env ps s = Some st'"
    using Cons.prems(3) by (auto split: Option.bind_splits)
  have 1: "tm_ok s \<and> calm st s" using ManageTunnelPool_ok [OF Cons.prems(1) _ s(1)] Cons.prems(2) by simp
  then have "tm_nextPool s = tm_nextPool st" by (simp add: calm_def keeps_def)
  then show ?case using Cons.IH [OF _ _ s(2)] 1 Cons.prems(2) calm_trans by auto
qed (simp add: calm_refl)

lemma reports_fields:
  assumes "reports st st'"
  shows "tm_now st' = tm_now st" "tm_next st' = tm_next st" "tm_mem st' = tm_mem st" "tm_inbound st' = tm_inbound st" "tm_outbound st' = tm_outbound st" "tm_transit st' = tm_transit st" "tm_pendingInbound st' = tm_pendingInbound st" "tm_pendingOutbound st' = tm_pendingOutbound st" "tm_pools st' = tm_pools st" "tm_nextPool st' = tm_nextPool st" "tm_pool st' = tm_pool st"
  subgoal using arg_cong [OF assms [unfolded reports_def], of tm_now] by simp
  subgoal using arg_cong [OF assms [unfolded reports_def], of tm_next] by simp
  subgoal using arg_cong [OF assms [unfolded reports_def], of tm_mem] by simp
  subgoal using arg_cong [OF assms [unfolded reports_def], of tm_inbound] by simp
  subgoal using arg_cong [OF assms [unfolded reports_def], of tm_outbound] by simp
  subgoal using arg_cong [OF assms [unfolded reports_def], of tm_transit] by simp
  subgoal using arg_cong [OF assms [unfolded reports_def], of tm_pendingInbound] by simp
  subgoal using arg_cong [OF assms [unfolded reports_def], of tm_pendingOutbound] by simp
  subgoal using arg_cong [OF assms [unfolded reports_def], of tm_pools] by simp
  subgoal using arg_cong [OF assms [unfolded reports_def], of tm_nextPool] by simp
  subgoal using arg_cong [OF assms [unfolded reports_def], of tm_pool] by simp
  done

lemma ManageTunnels_ok:
  assumes ok: "tm_ok st" and m: "ManageTunnels env st = Some st'"
  shows "tm_ok st' \<and> (\<forall>r \<in> set (tm_outbound st'). age_ok st' r) \<and> (\<forall>r \<in> snd ` set (tm_inbound st'). age_ok st' r) \<and> tm_now st' = tm_now st \<and>
    tm_transit st' = tm_transit (ManageTransitTunnels st)"
proof -
  obtain k1 sa where 1: "manage_pending (tm_pendingInbound st) st = (k1, sa)" by (cases "manage_pending (tm_pendingInbound st) st")
  let ?sb = "sa\<lparr>tm_pendingInbound := k1\<rparr>"
  obtain k2 sc where 2: "manage_pending (tm_pendingOutbound ?sb) ?sb = (k2, sc)" by (cases "manage_pending (tm_pendingOutbound ?sb) ?sb")
  have r1: "reports st sa" "set k1 \<subseteq> set (tm_pendingInbound st)" and r2: "reports ?sb sc" "set k2 \<subseteq> set (tm_pendingOutbound sa)"
    using manage_pending_reports [OF 1] manage_pending_reports [OF 2] by auto
  let ?s0 = "sc\<lparr>tm_pendingOutbound := k2\<rparr>"
  have p0: "ManagePendingTunnels st = ?s0" by (simp add: ManagePendingTunnels_def 1 2 [simplified])
  have rp: "tm_pendingOutbound sa = tm_pendingOutbound st" "tm_pendingInbound sa = tm_pendingInbound st" "tm_transit sa = tm_transit st" "tm_now sa = tm_now st"
    "tm_pendingOutbound sc = tm_pendingOutbound sa" "tm_pendingInbound sc = k1" "tm_transit sc = tm_transit sa" "tm_now sc = tm_now sa"
    using reports_fields [OF r1(1)] reports_fields [OF r2(1)] by simp_all
  have oka: "tm_ok sa" using r1(1) ok reports_ok by blast
  have same: "s\<lparr>tm_pendingInbound := a, tm_pendingOutbound := tm_pendingOutbound s\<rparr> = s\<lparr>tm_pendingInbound := a\<rparr>"
    "s\<lparr>tm_pendingInbound := tm_pendingInbound s, tm_pendingOutbound := a'\<rparr> = s\<lparr>tm_pendingOutbound := a'\<rparr>" for s :: tmgr and a a'
    by (cases s; simp)+
  have "tm_ok ?sb" using tm_ok_pending [OF oka, of k1 "tm_pendingOutbound sa"] r1(2) rp(2) unfolding same by simp
  then have okc: "tm_ok sc" using r2(1) reports_ok by blast
  have ok0: "tm_ok ?s0" using tm_ok_pending [OF okc, of "tm_pendingInbound sc" k2] r2(2) rp(5) unfolding same by simp
  obtain s1 where s1: "ManageInboundTunnels env ?s0 = Some s1" and m2: "ManageOutboundTunnels env s1 \<bind> (\<lambda>st. ManageTunnelPools env (ManageTransitTunnels st)) = Some st'"
    using m by (auto simp: ManageTunnels_def p0 Let_def split: Option.bind_splits)
  obtain s2 where s2: "ManageOutboundTunnels env s1 = Some s2" and m3: "ManageTunnelPools env (ManageTransitTunnels s2) = Some st'"
    using m2 by (auto split: Option.bind_splits)
  note i = ManageInboundTunnels_ok [OF ok0 s1]
  note o' = ManageOutboundTunnels_ok [OF i(1) s2]
  let ?s3 = "ManageTransitTunnels s2"
  have ok3: "tm_ok ?s3" using o'(1) by (simp add: ManageTransitTunnels_def tm_ok_counters)
  have 3: "tm_ok st' \<and> calm ?s3 st'"
    by (rule manage_pools_ok [OF ok3 _ m3 [unfolded ManageTunnelPools_def]]) (use tm_okD(9) [OF ok3] in \<open>simp add: ManageTransitTunnels_def\<close>)
  have ou: "age_ok st' r" if "r \<in> set (tm_outbound s2)" for r
  proof -
    have "r < tm_next ?s3" using tm_okD(2) [OF o'(1) that] by (simp add: listed_def ManageTransitTunnels_def)
    then show ?thesis using calm_age [of ?s3 st' r] 3 o'(2) that by (simp add: ManageTransitTunnels_def)
  qed
  have inb: "age_ok st' r" if r: "r \<in> snd ` set (tm_inbound s2)" for r
  proof -
    have l: "r < tm_next s1" using tm_okD(1) [OF i(1)] r o'(3) by (auto simp: listed_def)
    have "age_ok s2 r" using o'(8) [OF l] i(2) r o'(3) by auto
    moreover have "r < tm_next s2" using tm_okD(1) [OF o'(1)] r by (auto simp: listed_def)
    ultimately show ?thesis using calm_age [of ?s3 st' r] 3 by (simp add: ManageTransitTunnels_def)
  qed
  have k: "tm_outbound st' = tm_outbound s2" "tm_inbound st' = tm_inbound s2" "tm_now st' = tm_now s2" "tm_transit st' = tm_transit ?s3"
    using 3 by (simp_all add: calm_def keeps_def ManageTransitTunnels_def)
  have "tm_transit s2 = tm_transit st" "tm_now s2 = tm_now st" using o'(4,5) i(3,4) rp by simp_all
  then show ?thesis using 3 ou inb k by (simp add: ManageTransitTunnels_def)
qed

section \<open>The other operations\<close>

lemma set_set_insert: "set (set_insert env st r rs) = insert r (set rs)"
proof -
  let ?p = "\<lambda>x. TunnelCreationTimeCmp env st x r"
  have "set (takeWhile ?p rs) \<union> set (dropWhile ?p rs) = set rs" by (metis set_append takeWhile_dropWhile_id)
  then show ?thesis by (auto simp: set_insert_def)
qed

lemma TunnelCreated_ok:
  assumes ok: "tm_ok st" and r: "r < tm_next st" "tn_state (tm_mem st r) = eTunnelStateEstablished" and p: "tn_pool (tm_mem st r) = Some p"
    and o': "\<not> tn_inbound (tm_mem st r) \<Longrightarrow> r \<in> set (tm_outbound st)"
  shows "tm_ok (TunnelCreated env p r st)"
proof (cases "pl_active (tm_pool st p)")
  case True
  have n: "p < tm_nextPool st" using tm_okD(7) [OF ok r(1) p] .
  have m: "member_ok st p (tn_inbound (tm_mem st r)) r" using r p by (simp add: member_ok_def listed_def live_def)
  have po: "pool_ok st p (tm_pool st p)" by (rule tm_okD(5) [OF ok n])
  let ?i = "(tm_pool st p)\<lparr>pl_inbound := set_insert env st r (pl_inbound (tm_pool st p))\<rparr>"
  let ?o = "(tm_pool st p)\<lparr>pl_outbound := set_insert env st r (pl_outbound (tm_pool st p))\<rparr>"
  have i: "tm_ok (put_pool p ?i st)" if "tn_inbound (tm_mem st r)"
    by (rule tm_ok_put_pool [OF ok]) (use po m True that in \<open>auto simp: pool_ok_def set_set_insert\<close>)
  have o2: "tm_ok (put_pool p ?o st)" if "\<not> tn_inbound (tm_mem st r)"
    by (rule tm_ok_put_pool [OF ok]) (use po m True that o' in \<open>auto simp: pool_ok_def set_set_insert\<close>)
  show ?thesis using True i o2 by (simp add: TunnelCreated_def Let_def lease_set_updated_simps)
qed (use ok in \<open>simp add: TunnelCreated_def Let_def\<close>)

lemma not_in_inactive: "tm_ok st \<Longrightarrow> tn_pool (tm_mem st r) = Some p \<Longrightarrow> \<not> pl_active (tm_pool st p) \<Longrightarrow> \<not> in_pool st r"
  using in_pool_kind tm_okD(5) by (fastforce simp: in_pool_def pool_ok_def)

lemma not_in_without: "tm_ok st \<Longrightarrow> tn_pool (tm_mem st r) = None \<Longrightarrow> \<not> in_pool st r"
  using in_poolD(4) by blast

lemma AddOutboundTunnel_ok:
  assumes ok: "tm_ok st" and r: "r < tm_next st" "\<not> tn_inbound (tm_mem st r)" "tn_state (tm_mem st r) = eTunnelStateEstablished"
  shows "tm_ok (AddOutboundTunnel env r st)"
proof -
  let ?s = "st\<lparr>tm_outbound := tm_outbound st @ [r]\<rparr>"
  have pk: "pool_ok ?s p (tm_pool st p)" if "p < tm_nextPool st" for p
    by (rule pool_ok_cong [OF _ _ _ tm_okD(5) [OF ok that]]) auto
  have s: "tm_ok ?s"
    using ok pk r by (auto simp: tm_ok_def listed_def tun_ok_def live_def cong: option.case_cong)
  show ?thesis
  proof (cases "tn_pool (tm_mem st r)")
    case None
    then show ?thesis using tm_ok_SetTunnelPool_None [OF s] r not_in_without [OF s] by (simp add: AddOutboundTunnel_def Let_def)
  next
    case (Some p)
    then show ?thesis
      using TunnelCreated_ok [OF s, of r p] tm_ok_SetTunnelPool_None [OF s] not_in_inactive [OF s] r by (simp add: AddOutboundTunnel_def Let_def)
  qed
qed

lemma AddInboundTunnel_ok:
  assumes ok: "tm_ok st" and r: "r < tm_next st" "tn_inbound (tm_mem st r)" "tn_state (tm_mem st r) = eTunnelStateEstablished"
    and a: "AddInboundTunnel env r st = Some st'"
  shows "tm_ok st'"
proof -
  let ?s = "st\<lparr>tm_inbound := omap_put (GetTunnelID (tm_mem st r)) r (tm_inbound st)\<rparr>"
  have pk: "pool_ok ?s p (tm_pool st p)" if "p < tm_nextPool st" for p
    by (rule pool_ok_cong [OF _ _ _ tm_okD(5) [OF ok that]]) auto
  have s: "tm_ok ?s"
    using ok pk r set_omap_put [of "GetTunnelID (tm_mem st r)" r "tm_inbound st"]
    by (auto simp: tm_ok_def listed_def tun_ok_def live_def cong: option.case_cong)
  show ?thesis
  proof (cases "tn_pool (tm_mem st r)")
    case None
    obtain ot s1 where s1: "Tunnels_GetNextOutboundTunnel env ?s = (ot, s1)" by (cases "Tunnels_GetNextOutboundTunnel env ?s")
    note g = selecting_good(1) [OF s1]
    have "map_option snd (CreateTunnel env False (invert_config env s1 (tn_hops (tm_mem s1 r))) ot s1) = Some st'"
      using a None s1 by (simp add: AddInboundTunnel_def Let_def)
    then have "good_step s1 st'" using CreateTunnel_snd_good configs_not_empty(3) by blast
    then show ?thesis using good_pools(3) good_pools(3) [OF g s] by blast
  next
    case (Some p)
    then show ?thesis
      using a TunnelCreated_ok [OF s, of r p] tm_ok_SetTunnelPool_None [OF s] not_in_inactive [OF s] r
      by (auto simp: AddInboundTunnel_def Let_def split: if_splits)
  qed
qed

text \<open>A pending tunnel that is found was pending: no list holds it, and it may take any state that is not failed.\<close>

lemma GetPendingTunnel_ok:
  assumes ok: "tm_ok st" and g: "GetPendingTunnel mid ps st = (Some r, st')" and ps: "\<And>k x. (k, x) \<in> set ps \<Longrightarrow> x < tm_next st \<and> tn_inbound (tm_mem st x) = inb"
  shows "tm_ok st'" "r < tm_next st'" "tn_inbound (tm_mem st' r) = inb" "\<not> live (tn_state (tm_mem st' r))"
proof -
  have f: "omap_find ps mid = Some r" "tn_state (tm_mem st r) = eTunnelStatePending" and st': "st' = SetState r eTunnelStateBuildReplyReceived st"
    using g by (auto simp: GetPendingTunnel_def split: option.splits if_splits)
  have r: "r < tm_next st \<and> tn_inbound (tm_mem st r) = inb" using ps [OF map_of_SomeD [OF f(1)]] .
  show "tm_ok st'" unfolding st' by (rule tm_ok_SetState [OF ok]) (use r f(2) in \<open>auto simp: live_def\<close>)
  show "r < tm_next st'" "tn_inbound (tm_mem st' r) = inb" "\<not> live (tn_state (tm_mem st' r))" using r by (simp_all add: st' SetState_def live_def)
qed

lemma GetPendingTunnel_None: "GetPendingTunnel mid ps st = (None, st') \<Longrightarrow> st' = st"
  by (auto simp: GetPendingTunnel_def split: option.splits if_splits)

lemma fold_emit_simps:
  "tm_ok (fold (\<lambda>(x, y). tm_emit (f x y)) xs st) = tm_ok st" "tm_mem (fold (\<lambda>(x, y). tm_emit (f x y)) xs st) = tm_mem st"
  "tm_next (fold (\<lambda>(x, y). tm_emit (f x y)) xs st) = tm_next st"
  by (induction xs arbitrary: st) auto

lemma build_response_ok:
  assumes ok: "tm_ok st" and r: "r < tm_next st" "\<not> live (tn_state (tm_mem st r))" and b: "build_response env r buf st = Some (e, st')"
  shows "tm_ok st'" "tm_next st' = tm_next st" "tn_inbound (tm_mem st' r) = tn_inbound (tm_mem st r)"
    "e \<Longrightarrow> tn_state (tm_mem st' r) = eTunnelStateEstablished" "\<not> e \<Longrightarrow> tn_state (tm_mem st' r) = tn_state (tm_mem st r)"
proof -
  obtain rets s where h: "HandleTunnelBuildResponse (be_aes (mg_build env)) (tn_hops (tm_mem st r)) buf (tn_state (tm_mem st r)) = Some (e, rets, s)"
    and st': "st' = SetState r s (fold (\<lambda>(hop, ret). tm_emit (EvProfileReply (hop_router hop) ret)) (zip (tn_hops (tm_mem st r)) rets) st)"
    using b by (auto simp: build_response_def Let_def split: Option.bind_splits)
  have s: "s = (if e then eTunnelStateEstablished else tn_state (tm_mem st r))"
    using h by (clarsimp simp: HandleTunnelBuildResponse_def Let_def split: Option.bind_splits)
  have nf: "s \<noteq> eTunnelStateFailed" using s r(2) by (auto simp: live_def)
  show "tm_ok st'" unfolding st' by (rule tm_ok_SetState) (use ok r nf in \<open>auto simp: fold_emit_simps\<close>)
  show "tm_next st' = tm_next st" "tn_inbound (tm_mem st' r) = tn_inbound (tm_mem st r)"
    "e \<Longrightarrow> tn_state (tm_mem st' r) = eTunnelStateEstablished" "\<not> e \<Longrightarrow> tn_state (tm_mem st' r) = tn_state (tm_mem st r)"
    by (simp_all add: st' SetState_def fold_emit_simps s)
qed

lemma SetState_simps [simp]: "tm_next (SetState r s st) = tm_next st" "tn_inbound (tm_mem (SetState r s st) x) = tn_inbound (tm_mem st x)"
  "tn_state (tm_mem (SetState r s st) r) = s"
  by (simp_all add: SetState_def)

lemma HandleVariableTunnelBuildReplyMsg_ok:
  assumes ok: "tm_ok st" and h: "HandleVariableTunnelBuildReplyMsg env mid buf st = Some st'"
  shows "tm_ok st'"
proof -
  obtain t s where g: "GetPendingTunnel mid (tm_pendingOutbound st) st = (t, s)" by (cases "GetPendingTunnel mid (tm_pendingOutbound st) st")
  show ?thesis
  proof (cases t)
    case None
    then show ?thesis using h g ok GetPendingTunnel_None [of mid "tm_pendingOutbound st" st s]
      by (auto simp: HandleVariableTunnelBuildReplyMsg_def GetPendingOutboundTunnel_def)
  next
    case (Some r)
    then obtain e s2 where b: "build_response env r buf s = Some (e, s2)"
      and st': "st' = (if e then AddOutboundTunnel env r (SetState r eTunnelStateEstablished s2) else SetState r eTunnelStateBuildFailed s2)"
      using h g by (auto simp: HandleVariableTunnelBuildReplyMsg_def GetPendingOutboundTunnel_def split: Option.bind_splits)
    have p: "tm_ok s" "r < tm_next s" "tn_inbound (tm_mem s r) = False" "\<not> live (tn_state (tm_mem s r))"
      using GetPendingTunnel_ok [OF ok g [unfolded Some], of False] tm_okD(4) [OF ok] by blast+
    note q = build_response_ok [OF p(1,2,4) b]
    have "tm_ok (SetState r eTunnelStateEstablished s2)" by (rule tm_ok_SetState [OF q(1)]) (use p q in \<open>auto simp: live_def\<close>)
    then have "tm_ok (AddOutboundTunnel env r (SetState r eTunnelStateEstablished s2))"
      by (rule AddOutboundTunnel_ok) (use p q in simp_all)
    moreover have "tm_ok (SetState r eTunnelStateBuildFailed s2)" if "\<not> e"
      by (rule tm_ok_SetState [OF q(1)]) (use p q that in auto)
    ultimately show ?thesis using st' by simp
  qed
qed

lemma HandleVariableTunnelBuildMsg_ok:
  assumes ok: "tm_ok st" and h: "HandleVariableTunnelBuildMsg env ctx rnd mid buf len st = Some (fwd, st')"
  shows "tm_ok st'"
proof -
  obtain t s where g: "GetPendingTunnel mid (tm_pendingInbound st) st = (t, s)" by (cases "GetPendingTunnel mid (tm_pendingInbound st) st")
  show ?thesis
  proof (cases t)
    case None
    then have "\<exists>tr. st' = (case tr of Some t \<Rightarrow> AddTransitTunnel t st | None \<Rightarrow> st)"
      using h g GetPendingTunnel_None [of mid "tm_pendingInbound st" st s]
      by (auto simp: HandleVariableTunnelBuildMsg_def GetPendingInboundTunnel_def split: Option.bind_splits)
    then show ?thesis using ok by (auto simp: AddTransitTunnel_def tm_ok_counters split: option.splits)
  next
    case (Some r)
    then obtain e s2 where b: "build_response env r buf s = Some (e, s2)"
      and st': "if e then AddInboundTunnel env r (SetState r eTunnelStateEstablished s2) = Some st' else st' = SetState r eTunnelStateBuildFailed s2"
      using h g by (auto simp: HandleVariableTunnelBuildMsg_def GetPendingInboundTunnel_def split: Option.bind_splits if_splits)
    have p: "tm_ok s" "r < tm_next s" "tn_inbound (tm_mem s r) = True" "\<not> live (tn_state (tm_mem s r))"
      using GetPendingTunnel_ok [OF ok g [unfolded Some], of True] tm_okD(3) [OF ok] by blast+
    note q = build_response_ok [OF p(1,2,4) b]
    have e: "tm_ok (SetState r eTunnelStateEstablished s2)" by (rule tm_ok_SetState [OF q(1)]) (use p q in \<open>auto simp: live_def\<close>)
    have "tm_ok (SetState r eTunnelStateBuildFailed s2)" if "\<not> e"
      by (rule tm_ok_SetState [OF q(1)]) (use p q that in auto)
    then show ?thesis using st' AddInboundTunnel_ok [OF e, of r env st'] p q by (auto split: if_splits)
  qed
qed

lemma test_answered_ok:
  assumes "tm_ok st" and "tested_ok st p inb t"
  obtains st' where "test_answered t st = Some st'" "tm_ok st'" "tunnels_same st st'" "tm_nextPool st' = tm_nextPool st" "tm_pool st' = tm_pool st"
proof -
  obtain r where r: "t = Some r" "r < tm_next st" "live (tn_state (tm_mem st r))" using assms(2) by (cases t) (auto simp: tested_ok_def listed_def)
  let ?s = "if tn_state (tm_mem st r) = eTunnelStateTestFailed then SetState r eTunnelStateEstablished st else st"
  have "tm_ok (SetState r eTunnelStateEstablished st)" by (rule tm_ok_SetState [OF assms(1) r(2)]) (simp_all add: live_def)
  moreover have "tunnels_same st ?s" by (auto simp: tunnels_same_def SetState_def live_def)
  ultimately show thesis using that [of ?s] assms(1) by (simp add: test_answered_def r(1) SetState_def)
qed

lemma ProcessDeliveryStatus_ok:
  assumes ok: "tm_ok st" and p: "p < tm_nextPool st" and len: "GetPayload msg + 12 \<le> length (msg_buf msg)"
  shows "\<exists>st'. ProcessDeliveryStatus p msg st = Some st' \<and> tm_ok st'"
proof -
  obtain msgID ts where r: "bufbe32toh (msg_buf msg) (GetPayload msg) = Some msgID" "bufbe64toh (msg_buf msg) (GetPayload msg + 4) = Some ts"
    using len by (auto simp: bufbe32toh_be_val bufbe64toh_be_val mem_read_def)
  show ?thesis
  proof (cases "omap_find (pl_tests (tm_pool st p)) msgID")
    case None
    then show ?thesis using ok r by (auto simp: ProcessDeliveryStatus_def split: option.splits)
  next
    case (Some oi)
    obtain o' i where oi: "oi = (o', i)" by (cases oi)
    have po: "pool_ok st p (tm_pool st p)" by (rule tm_okD(5) [OF ok p])
    then have t: "tested_ok st p False o'" "tested_ok st p True i"
      using map_of_SomeD [OF Some] oi by (auto simp: pool_ok_def)
    obtain s1 where 1: "test_answered o' st = Some s1" "tm_ok s1" "tunnels_same st s1" "tm_nextPool s1 = tm_nextPool st" "tm_pool s1 = tm_pool st"
      by (rule test_answered_ok [OF ok t(1)])
    obtain s2 where 2: "test_answered i s1 = Some s2" "tm_ok s2" "tunnels_same s1 s2" "tm_nextPool s2 = tm_nextPool s1" "tm_pool s2 = tm_pool s1"
      by (rule test_answered_ok [OF 1(2) tests_stay [OF 1(3) t(2)]])
    let ?pl = "(tm_pool s2 p)\<lparr>pl_tests := omap_erase msgID (pl_tests (tm_pool s2 p))\<rparr>"
    have "pool_ok s2 p (tm_pool s2 p)" using tm_okD(5) [OF 2(2)] p 1(4) 2(4) by simp
    then have "pool_ok s2 p ?pl" by (auto simp: pool_ok_def omap_erase_def)
    then have "tm_ok (put_pool p ?pl s2)" by (intro tm_ok_put_pool [OF 2(2)])
    then show ?thesis using r Some oi 1(1) 2(1) by (simp add: ProcessDeliveryStatus_def)
  qed
qed

lemma InboundTunnel_data_ok:
  assumes ok: "tm_ok st" and r: "GetInboundTunnel st k = Some r"
  shows "tm_ok (InboundTunnel_data r st)"
proof -
  have l: "r < tm_next st" "live (tn_state (tm_mem st r))"
    using tm_okD(1) [OF ok, of k r] map_of_SomeD [of "tm_inbound st" k r] r by (auto simp: GetInboundTunnel_def listed_def)
  let ?s = "if IsFailed st r then SetState r eTunnelStateEstablished st else st"
  have s: "tm_ok ?s" using tm_ok_SetState [OF ok l(1), of eTunnelStateEstablished] ok by (auto simp: live_def)
  have n: "tm_next ?s = tm_next st" by simp
  have f: "tn_state (tm_mem ?s r) \<noteq> eTunnelStateFailed" by (auto simp: IsFailed_def)
  have "tm_ok (put_tun r ((tm_mem ?s r)\<lparr>tn_received := x\<rparr>) ?s)" for x
    by (rule tm_ok_put_tun [OF s]) (use l n f tm_okD(6) [OF s, of r] in \<open>auto simp: tun_ok_def\<close>)
  then show ?thesis by (simp add: InboundTunnel_data_def Let_def)
qed

text \<open>A pool whose tunnels are detached, and possibly stopped: the pool is emptied before the tunnels lose it.\<close>

lemma put_pool_SetTunnelPool: "put_pool p pl (SetTunnelPool r q st) = SetTunnelPool r q (put_pool p pl st)"
  by (simp add: put_pool_def SetTunnelPool_def put_tun_def)

lemma put_pool_detach: "put_pool p pl (fold (\<lambda>r. SetTunnelPool r None) rs st) = fold (\<lambda>r. SetTunnelPool r None) rs (put_pool p pl st)"
  by (induction rs arbitrary: st) (simp_all add: put_pool_SetTunnelPool)

lemma tm_pool_detach [simp]: "tm_pool (fold (\<lambda>r. SetTunnelPool r None) rs st) = tm_pool st"
  by (induction rs arbitrary: st) (simp_all add: SetTunnelPool_def)

lemma detach_ok:
  "tm_ok st \<Longrightarrow> \<forall>r \<in> set rs. r < tm_next st \<and> \<not> in_pool st r \<Longrightarrow>
     tm_ok (fold (\<lambda>r. SetTunnelPool r None) rs st) \<and> tm_next (fold (\<lambda>r. SetTunnelPool r None) rs st) = tm_next st \<and>
     (\<forall>x. in_pool (fold (\<lambda>r. SetTunnelPool r None) rs st) x = in_pool st x)"
proof (induction rs arbitrary: st)
  case (Cons r rs)
  have "tm_ok (SetTunnelPool r None st)" by (rule tm_ok_SetTunnelPool_None) (use Cons.prems in auto)
  moreover have "tm_next (SetTunnelPool r None st) = tm_next st" "in_pool (SetTunnelPool r None st) x = in_pool st x" for x
    by (simp_all add: SetTunnelPool_def)
  ultimately show ?case using Cons.IH [of "SetTunnelPool r None st"] Cons.prems by simp
qed simp

lemma empty_pool_ok:
  assumes ok: "tm_ok st" and p: "p < tm_nextPool st" and e: "pl_inbound pl = []" "pl_outbound pl = []" "pl_tests pl = []"
    and rs: "set rs \<subseteq> set (pl_inbound (tm_pool st p)) \<union> set (pl_outbound (tm_pool st p))"
    and rs': "set rs' \<subseteq> set (pl_inbound (tm_pool st p)) \<union> set (pl_outbound (tm_pool st p))"
  shows "tm_ok (fold (\<lambda>r. SetTunnelPool r None) rs' (fold (\<lambda>r. SetTunnelPool r None) rs (put_pool p pl st)))"
proof -
  let ?s = "put_pool p pl st"
  have s: "tm_ok ?s" by (rule tm_ok_put_pool [OF ok]) (simp add: pool_ok_def e)
  have m: "r < tm_next ?s \<and> \<not> in_pool ?s r" if "r \<in> set (pl_inbound (tm_pool st p)) \<union> set (pl_outbound (tm_pool st p))" for r
  proof -
    have pool: "tn_pool (tm_mem st r) = Some p" using in_pool_kind [OF ok p, of r] that by auto
    have "in_pool st r" using that p by (auto simp: in_pool_def)
    then have "r < tm_next st" by (rule in_poolD(1) [OF ok])
    moreover have "\<not> in_pool ?s r" using pool in_pool_kind [OF ok] e by (fastforce simp: in_pool_def split: if_splits)
    ultimately show ?thesis by simp
  qed
  have 1: "tm_ok (fold (\<lambda>r. SetTunnelPool r None) rs ?s) \<and> tm_next (fold (\<lambda>r. SetTunnelPool r None) rs ?s) = tm_next ?s \<and>
     (\<forall>x. in_pool (fold (\<lambda>r. SetTunnelPool r None) rs ?s) x = in_pool ?s x)"
    by (rule detach_ok [OF s]) (use m rs in auto)
  show ?thesis using detach_ok [of "fold (\<lambda>r. SetTunnelPool r None) rs ?s" rs'] 1 m rs' by auto
qed

lemma DetachTunnels_ok:
  assumes "tm_ok st" and "p < tm_nextPool st"
  shows "tm_ok (DetachTunnels p st)"
  unfolding DetachTunnels_def Let_def put_pool_detach
  by (rule empty_pool_ok [OF assms]) auto

lemma put_pool_twice: "put_pool p pl' (put_pool p pl st) = put_pool p pl' st"
  by (simp add: put_pool_def)

lemma StopTunnelPool_ok:
  assumes "tm_ok st" and "p < tm_nextPool st"
  shows "tm_ok (StopTunnelPool p st)"
  unfolding StopTunnelPool_def DetachTunnels_def Let_def put_pool_detach put_pool_twice
  by (rule empty_pool_ok [OF assms]) auto

lemma DeleteTunnelPool_ok:
  assumes "tm_ok st" and "p < tm_nextPool st"
  shows "tm_ok (DeleteTunnelPool p st)"
proof -
  have "tm_ok (s\<lparr>tm_pools := removeAll p (tm_pools s)\<rparr>)" if "tm_ok s" for s
    using that by (auto simp: tm_ok_def pool_ok_def member_ok_def tested_ok_def listed_def tun_ok_def cong: option.case_cong)
  then show ?thesis using StopTunnelPool_ok [OF assms] by (simp add: DeleteTunnelPool_def Let_def)
qed

lemma SetExplicitPeers_ok:
  assumes "tm_ok st" and "p < tm_nextPool st"
  shows "tm_ok (put_pool p (SetExplicitPeers peers (tm_pool st p)) st)"
  by (rule tm_ok_put_pool [OF assms(1)]) (use tm_okD(5) [OF assms] in \<open>auto simp: pool_ok_def SetExplicitPeers_def split: option.splits\<close>)

section \<open>The manager as a state machine\<close>

text \<open>
  What happens to the manager: the clock, the management every 15 seconds, answers to build requests
  and requests of others, data and test replies that arrive, and clients that open, stop and close
  pools.
\<close>

inductive tm_step :: "mg_env \<Rightarrow> tmgr \<Rightarrow> tmgr \<Rightarrow> bool" for env :: mg_env where
  clock: "tm_step env st (st\<lparr>tm_now := now\<rparr>)"
| manage: "ManageTunnels env st = Some st' \<Longrightarrow> tm_step env st st'"
| build_reply: "HandleVariableTunnelBuildReplyMsg env msgID buf st = Some st' \<Longrightarrow> tm_step env st st'"
| build_request: "HandleVariableTunnelBuildMsg env ctx rnd msgID buf len st = Some (fwd, st') \<Longrightarrow> tm_step env st st'"
| data: "GetInboundTunnel st tunnelID = Some r \<Longrightarrow> tm_step env st (InboundTunnel_data r st)"
| delivery_status: "p < tm_nextPool st \<Longrightarrow> GetPayload msg + 12 \<le> length (msg_buf msg) \<Longrightarrow> ProcessDeliveryStatus p msg st = Some st' \<Longrightarrow> tm_step env st st'"
| garlic: "tm_step env st (ProcessGarlicMessage p msg st)"
| open_pool: "tm_step env st (snd (CreateTunnelPool dest a b c d st))"
| explicit_peers: "p < tm_nextPool st \<Longrightarrow> tm_step env st (put_pool p (SetExplicitPeers peers (tm_pool st p)) st)"
| stop_pool: "p < tm_nextPool st \<Longrightarrow> tm_step env st (StopTunnelPool p st)"
| close_pool: "p < tm_nextPool st \<Longrightarrow> tm_step env st (DeleteTunnelPool p st)"

inductive tm_reachable :: "mg_env \<Rightarrow> tmgr \<Rightarrow> bool" for env :: mg_env where
  start: "tm_reachable env (Tunnels_new now)"
| step: "tm_reachable env st \<Longrightarrow> tm_step env st st' \<Longrightarrow> tm_reachable env st'"

lemma tm_step_ok: "tm_step env st st' \<Longrightarrow> tm_ok st \<Longrightarrow> tm_ok st'"
proof (induction rule: tm_step.induct)
  case (delivery_status p st msg st')
  then show ?case using ProcessDeliveryStatus_ok [of st p msg] by simp
next
  case (garlic st p msg)
  then show ?case by (simp add: ProcessGarlicMessage_def split: option.splits)
next
  case (clock st now)
  then show ?case by (simp only: tm_ok_counters)
next
  case (manage st st')
  then show ?case using ManageTunnels_ok by blast
next
  case (data st k r)
  then show ?case by (intro InboundTunnel_data_ok)
qed (blast intro: HandleVariableTunnelBuildReplyMsg_ok HandleVariableTunnelBuildMsg_ok CreateTunnel_pool(1) SetExplicitPeers_ok StopTunnelPool_ok
    DeleteTunnelPool_ok)+

lemma tm_reachable_ok: "tm_reachable env st \<Longrightarrow> tm_ok st"
proof (induction rule: tm_reachable.induct)
  case (start now)
  show ?case by (simp add: Tunnels_new_def tm_ok_def)
qed (rule tm_step_ok)

section \<open>What the manager guarantees\<close>

text \<open>
  C37: whatever happens to the tunnel manager, its collections stay well formed: every tunnel in
  \<open>m_InboundTunnels\<close>, \<open>m_OutboundTunnels\<close> and the pools has been built and is of the right kind, a
  pool holds only tunnels that point back to it and have not failed, its outbound tunnels are all
  managed, a test never holds a null pointer, and every pending tunnel exists. So a delivery status
  message of full length never makes \<open>ProcessDeliveryStatus\<close> dereference a null pointer.
\<close>

theorem tunnel_manager_invariant:
  assumes "tm_reachable env st"
  shows "(\<forall>(_, r) \<in> set (tm_inbound st). listed st True r) \<and> (\<forall>r \<in> set (tm_outbound st). listed st False r) \<and>
    (\<forall>(_, r) \<in> set (tm_pendingInbound st). r < tm_next st \<and> tn_inbound (tm_mem st r)) \<and>
    (\<forall>(_, r) \<in> set (tm_pendingOutbound st). r < tm_next st \<and> \<not> tn_inbound (tm_mem st r)) \<and>
    (\<forall>p < tm_nextPool st. pool_ok st p (tm_pool st p)) \<and> (\<forall>r < tm_next st. tun_ok st (tm_mem st r)) \<and>
    (\<forall>p < tm_nextPool st. \<forall>msg. GetPayload msg + 12 \<le> length (msg_buf msg) \<longrightarrow> ProcessDeliveryStatus p msg st \<noteq> None)"
proof -
  have "ProcessDeliveryStatus p msg st \<noteq> None" if "p < tm_nextPool st" "GetPayload msg + 12 \<le> length (msg_buf msg)" for p msg
    using ProcessDeliveryStatus_ok [OF tm_reachable_ok [OF assms] that] by auto
  then show ?thesis using tm_reachable_ok [OF assms, unfolded tm_ok_def] by blast
qed

theorem tunnel_manager_invariant_witness:
  "\<exists>env st. tm_reachable env st \<and> 0 < tm_nextPool st \<and> pool_ok st 0 (tm_pool st 0) \<and>
     ProcessDeliveryStatus 0 (NewI2NPShortMessage 0) st \<noteq> None"
proof -
  let ?st = "snd (CreateTunnelPool (Some 7) 3 3 5 5 (Tunnels_new 1000))"
  have r: "tm_reachable env ?st" for env by (rule step [OF start open_pool])
  have "0 < tm_nextPool ?st" by (simp add: CreateTunnelPool_def Let_def)
  moreover have "GetPayload (NewI2NPShortMessage 0) + 12 \<le> length (msg_buf (NewI2NPShortMessage 0))"
    by (simp add: NewI2NPShortMessage_def GetPayload_def GetBuffer_def I2NPMessageBuffer_def i2np_consts)
  ultimately show ?thesis using r tunnel_manager_invariant [OF r] by blast
qed

lemma unat_ucast_64: "unat (ucast (w :: 32 word) :: 64 word) = unat w"
proof -
  have "unat w < 2 ^ LENGTH(32)" by (rule unsigned_less)
  then have "unat w < 2 ^ 64" by simp
  then show ?thesis by (simp add: unsigned_ucast_eq take_bit_nat_eq_self)
qed

text \<open>
  C38: after \<open>ManageTunnels\<close> at time \<open>now\<close>, no tunnel of the router is older than eleven minutes, and every
  tunnel that still counts as established has at least a minute to live; the same age limit holds
  for transit tunnels, and for the outbound tunnels of every pool. The clocks are below the 32 bits
  in which the sums are computed.
\<close>

theorem managed_tunnels_fresh:
  assumes "tm_ok st" and "ManageTunnels env st = Some st'" and "unat (tm_now st) + 60 < 2 ^ 32"
    and "\<forall>r < tm_next st'. unat (tn_created (tm_mem st' r)) + 660 < 2 ^ 32"
    and "\<forall>(_, created, _) \<in> set (tm_transit st'). unat created + 660 < 2 ^ 32"
  shows "(\<forall>r \<in> snd ` set (tm_inbound st') \<union> set (tm_outbound st') \<union> (\<Union>p \<in> {..<tm_nextPool st'}. set (pl_outbound (tm_pool st' p))).
      unat (tm_now st) \<le> unat (tn_created (tm_mem st' r)) + 660 \<and>
      (IsEstablished st' r \<longrightarrow> unat (tm_now st) + 60 \<le> unat (tn_created (tm_mem st' r)) + 660)) \<and>
    (\<forall>(_, created, _) \<in> set (tm_transit st'). unat (tm_now st) \<le> unat created + 660)"
proof -
  note m = ManageTunnels_ok [OF assms(1,2)]
  have ok: "tm_ok st'" using m by blast
  have d: "unat (tunnel_deadline (tm_mem st' r) TUNNEL_EXPIRATION_TIMEOUT) = unat (tn_created (tm_mem st' r)) + 660" if "r < tm_next st'" for r
  proof -
    have "unat (tn_created (tm_mem st' r) + 660) = unat (tn_created (tm_mem st' r)) + 660"
      using assms(4) that by (simp add: unat_word_ariths)
    then show ?thesis by (simp add: tunnel_deadline_def identity_defs unat_ucast_64)
  qed
  have n: "unat (tm_now st + word_of_nat TUNNEL_EXPIRATION_THRESHOLD) = unat (tm_now st) + 60"
    using assms(3) by (simp add: identity_defs unat_word_ariths)
  have a: "unat (tm_now st) \<le> unat (tn_created (tm_mem st' r)) + 660 \<and>
      (IsEstablished st' r \<longrightarrow> unat (tm_now st) + 60 \<le> unat (tn_created (tm_mem st' r)) + 660)" if "age_ok st' r" "r < tm_next st'" for r
    using that m d [of r] n by (auto simp: age_ok_def word_le_nat_alt)
  have i: "age_ok st' r \<and> r < tm_next st'" if "r \<in> snd ` set (tm_inbound st')" for r
    using m tm_okD(1) [OF ok] that by (auto simp: listed_def)
  have o': "age_ok st' r \<and> r < tm_next st'" if "r \<in> set (tm_outbound st')" for r
    using m tm_okD(2) [OF ok] that by (auto simp: listed_def)
  have p: "r \<in> set (tm_outbound st')" if "q < tm_nextPool st'" "r \<in> set (pl_outbound (tm_pool st' q))" for q r
    using tm_okD(5) [OF ok that(1)] that(2) by (auto simp: pool_ok_def)
  have t: "unat (tm_now st) \<le> unat created + 660" if "(k, created, x) \<in> set (tm_transit st')" for k created x
  proof -
    have "\<not> (ucast (tm_now st) > created + word_of_nat TUNNEL_EXPIRATION_TIMEOUT)" using that m by (auto simp: ManageTransitTunnels_def)
    moreover have "unat (ucast (tm_now st) :: 32 word) = unat (tm_now st)" using assms(3) by (simp add: unsigned_ucast_eq take_bit_nat_eq_self)
    moreover have "unat (created + word_of_nat TUNNEL_EXPIRATION_TIMEOUT) = unat created + 660"
      using assms(5) that by (auto simp: identity_defs unat_word_ariths)
    ultimately show ?thesis by (simp add: word_le_nat_alt not_less)
  qed
  show ?thesis using a i o' p t by fastforce
qed

text \<open>Six tunnels of each kind at second 1000: one of each has expired, one is about to.\<close>

definition sample_tm :: tmgr where
  "sample_tm = (Tunnels_new 1000)\<lparr>tm_next := 12,
     tm_mem := (\<lambda>r. \<lparr>tn_hops = [TunnelHopConfig \<lparr>hr_layerKey = [], hr_ivKey = [], hr_replyIV = [], hr_tunnelID = word_of_nat r, hr_nextTunnelID = 0, hr_replyKey = []\<rparr>
         \<lparr>rr_ident = [], rr_encryptionKey = []\<rparr>],
       tn_inbound = (r < 6), tn_state = eTunnelStateEstablished, tn_recreated = False, tn_pool = None,
       tn_created = (if r \<in> {0, 6} then 100 else if r \<in> {1, 7} then 350 else 900), tn_received = 0\<rparr>),
     tm_inbound := [(10, 0), (11, 1), (12, 2), (13, 3), (14, 4), (15, 5)], tm_outbound := [6, 7, 8, 9, 10, 11]\<rparr>"

lemma sample_tm_ok: "tm_ok sample_tm"
  by (simp add: sample_tm_def Tunnels_new_def tm_ok_def listed_def live_def tun_ok_def)

lemma manage_sample:
  "\<exists>st'. ManageTunnels env sample_tm = Some st' \<and> tm_inbound st' = [(11, 1), (12, 2), (13, 3), (14, 4), (15, 5)] \<and> tm_outbound st' = [7, 8, 9, 10, 11] \<and>
     tn_state (tm_mem st' 1) = eTunnelStateExpiring \<and> IsEstablished st' 8 \<and> tm_next st' = 12 \<and> tm_transit st' = [] \<and> tm_nextPool st' = 0 \<and>
     (\<forall>r < 12. tn_created (tm_mem st' r) = tn_created (tm_mem sample_tm r))"
  by (simp add: sample_tm_def Tunnels_new_def ManageTunnels_def ManagePendingTunnels_def ManageInboundTunnels_def ManageOutboundTunnels_def Let_def
      manage_tunnel_def tunnel_deadline_def identity_defs expire_tunnel_def IsEstablished_def recreate_tunnel_def SetIsRecreated_def SetState_def
      put_tun_def ManageTunnelPools_def ManageTransitTunnels_def)

theorem managed_tunnels_fresh_witness:
  "\<forall>env. \<exists>st'. ManageTunnels env sample_tm = Some st' \<and> tm_inbound st' = [(11, 1), (12, 2), (13, 3), (14, 4), (15, 5)] \<and>
     (\<forall>r \<in> {1, 2, 3, 4, 5, 7, 8, 9, 10, 11}. 1000 \<le> unat (tn_created (tm_mem st' r)) + 660) \<and>
     IsEstablished st' 8 \<and> 1060 \<le> unat (tn_created (tm_mem st' 8)) + 660"
proof
  fix env
  obtain st' where s: "ManageTunnels env sample_tm = Some st'" "tm_inbound st' = [(11, 1), (12, 2), (13, 3), (14, 4), (15, 5)]"
    "tm_outbound st' = [7, 8, 9, 10, 11]" "IsEstablished st' 8" "tm_next st' = 12" "tm_transit st' = []"
    "\<forall>r < 12. tn_created (tm_mem st' r) = tn_created (tm_mem sample_tm r)"
    using manage_sample by blast
  have n: "unat (tm_now sample_tm) = 1000" by (simp add: sample_tm_def Tunnels_new_def)
  have c: "\<forall>r < 12. unat (tn_created (tm_mem st' r)) + 660 < 2 ^ 32" using s(7) by (simp add: sample_tm_def)
  show "\<exists>st'. ManageTunnels env sample_tm = Some st' \<and> tm_inbound st' = [(11, 1), (12, 2), (13, 3), (14, 4), (15, 5)] \<and>
     (\<forall>r \<in> {1, 2, 3, 4, 5, 7, 8, 9, 10, 11}. 1000 \<le> unat (tn_created (tm_mem st' r)) + 660) \<and>
     IsEstablished st' 8 \<and> 1060 \<le> unat (tn_created (tm_mem st' 8)) + 660"
    using managed_tunnels_fresh [OF sample_tm_ok s(1)] s(1-6) n c by simp
qed

end
