(* ===== verification/Tunnel_EndToEnd.thy ===== *)
theory Tunnel_EndToEnd
  imports Tunnel_Layers
begin

text \<open>
  The data path of a tunnel from end to end. An outbound tunnel: the owner's gateway fragments the
  message blocks, takes all layers off in advance, every participant and finally the endpoint put
  theirs on, and the endpoint delivers. An inbound tunnel: the gateway and the participants put
  their layers on, the owner takes them off and delivers. \<open>travels\<close> is the relation between a sent
  message and the one that arrives; the theorems say that what is delivered are exactly the
  blocks, in order, for every path a message may take.
\<close>

section \<open>Messages of 1028 payload bytes\<close>

definition wire_msg :: "i2np_msg \<Rightarrow> bytes \<Rightarrow> bool" where
  "wire_msg m pl \<longleftrightarrow> has_header m \<and> msg_payload m = pl \<and> length pl = 1028"

lemma wire_msg_len: "wire_msg m pl \<Longrightarrow> msg_len m = msg_offset m + 1044 \<and> msg_offset m + 1044 \<le> length (msg_buf m)"
  by (auto simp: wire_msg_def has_header_def msg_payload_def)

lemma wire_msg_read:
  assumes "wire_msg m pl"
  shows "mem_read (msg_buf m) (GetPayload m + 4) 1024 = Some (drop 4 pl)"
proof -
  note l = wire_msg_len [OF assms]
  have "pl = window (msg_buf m) (msg_offset m + 16) 1028"
    using assms l by (auto simp: wire_msg_def msg_payload_def)
  then have "drop 4 pl = window (msg_buf m) (GetPayload m + 4) 1024"
    by (simp add: window_def drop_take GetPayload_16 add.commute)
  then show ?thesis using l by (simp add: mem_read_window GetPayload_16)
qed

lemma wire_msg_put:
  assumes "wire_msg m pl" and "length bs = 1024"
  shows "\<exists>m'. put_at m (GetPayload m + 4) bs = Some m' \<and> wire_msg m' (take 4 pl @ bs) \<and>
    msg_offset m' = msg_offset m \<and> msg_len m' = msg_len m \<and> length (msg_buf m') = length (msg_buf m) \<and>
    msg_maxLen m' = msg_maxLen m \<and> msg_from m' = msg_from m"
proof -
  note l = wire_msg_len [OF assms(1)]
  let ?b = "patch (msg_buf m) (msg_offset m + 20) bs" and ?m = "m\<lparr>msg_buf := patch (msg_buf m) (msg_offset m + 20) bs\<rparr>"
  have "window ?b (msg_offset m + 16) 4 = take 4 pl"
    using assms l by (simp add: window_patch_before wire_msg_def msg_payload_def) (auto simp: window_def)
  moreover have "window ?b (msg_offset m + 20) 1024 = bs"
    by (rule window_patch_same) (use assms l in simp_all)
  moreover have "msg_offset m + 16 + 4 = msg_offset m + 20" by simp
  ultimately have "window ?b (msg_offset m + 16) (4 + 1024) = take 4 pl @ bs"
    unfolding window_add by (simp only:)
  then have "wire_msg ?m (take 4 pl @ bs)"
    using assms l by (auto simp: wire_msg_def has_header_def msg_payload_def)
  then show ?thesis
    using l assms(2) by (intro exI [of _ ?m]) (simp add: put_at_patch GetPayload_16 add.commute [of 20])
qed

lemma decrypt_hops_wire:
  assumes aes: "aes_ok aes"
  shows "wire_msg inp ipl \<Longrightarrow> wire_msg out opl \<Longrightarrow> (hops = [] \<longrightarrow> drop 4 opl = drop 4 ipl) \<Longrightarrow>
    \<exists>m'. decrypt_hops aes hops inp out = Some m' \<and>
      wire_msg m' (take 4 opl @ fold (TunnelDecryption_Decrypt aes) hops (drop 4 ipl)) \<and>
      msg_offset m' = msg_offset out \<and> msg_len m' = msg_len out \<and>
      length (msg_buf m') = length (msg_buf out) \<and> msg_maxLen m' = msg_maxLen out \<and> msg_from m' = msg_from out"
proof (induction hops arbitrary: inp out ipl opl)
  case Nil
  then have "take 4 opl @ drop 4 ipl = opl" by (metis append_take_drop_id)
  then show ?case using Nil by simp
next
  case (Cons k hops)
  let ?bs = "TunnelDecryption_Decrypt aes k (drop 4 ipl)"
  have "length ipl = 1028" using Cons.prems(1) by (simp add: wire_msg_def)
  then have "length ?bs = 1024"
    using tunnel_crypto_inverse(3) [OF aes] by simp
  from wire_msg_put [OF Cons.prems(2) this] obtain out' where o: "put_at out (GetPayload out + 4) ?bs = Some out'"
    "wire_msg out' (take 4 opl @ ?bs)" "msg_offset out' = msg_offset out" "msg_len out' = msg_len out"
    "length (msg_buf out') = length (msg_buf out)" "msg_maxLen out' = msg_maxLen out" "msg_from out' = msg_from out"
    by blast
  have l4: "length (take 4 opl) = 4" using Cons.prems(2) by (simp add: wire_msg_def)
  obtain m' where "decrypt_hops aes hops out' out' = Some m'"
    "wire_msg m' (take 4 opl @ fold (TunnelDecryption_Decrypt aes) hops ?bs)"
    "msg_offset m' = msg_offset out'" "msg_len m' = msg_len out'" "length (msg_buf m') = length (msg_buf out')"
    "msg_maxLen m' = msg_maxLen out'" "msg_from m' = msg_from out'"
    using Cons.IH [OF o(2) o(2)] l4 by auto
  then show ?case using o wire_msg_read [OF Cons.prems(1)] by auto
qed

text \<open>The layers of the hops, first to last, put on what the owner took off.\<close>

lemma layers_length:
  "aes_ok aes \<Longrightarrow> length bs = 1024 \<Longrightarrow> length (fold (TunnelDecryption_Decrypt aes) hops bs) = 1024"
  "aes_ok aes \<Longrightarrow> length bs = 1024 \<Longrightarrow> length (fold (TunnelEncryption_Encrypt aes) hops bs) = 1024"
  by (induction hops arbitrary: bs) (simp_all add: tunnel_crypto_inverse)

lemma layers_cancel:
  assumes "aes_ok aes" and "length bs = 1024"
  shows "fold (TunnelEncryption_Encrypt aes) hops (fold (TunnelDecryption_Decrypt aes) (rev hops) bs) = bs"
    and "fold (TunnelDecryption_Decrypt aes) (rev hops) (fold (TunnelEncryption_Encrypt aes) hops bs) = bs"
  using layer.layers_added [of "map (Pair aes) hops" bs] layer.layers_removed [of "map (Pair aes) hops" bs] assms
  by (simp_all add: fold_layers foldr_conv_fold rev_map)

text \<open>\<open>encrypt\<close> replaces the 1024 bytes after the tunnel ID by \<open>F\<close> of them.\<close>

definition encrypts :: "(i2np_msg \<Rightarrow> i2np_msg option) \<Rightarrow> (bytes \<Rightarrow> bytes) \<Rightarrow> bool" where
  "encrypts encrypt F \<longleftrightarrow> (\<forall>m pl. wire_msg m pl \<longrightarrow>
     (\<exists>m'. encrypt m = Some m' \<and> wire_msg m' (take 4 pl @ F (drop 4 pl))))"

lemma encrypts_outbound:
  assumes "aes_ok aes"
  shows "encrypts (\<lambda>m. Tunnel_EncryptTunnelMsg aes hops m m) (fold (TunnelDecryption_Decrypt aes) (rev hops))"
proof -
  have "\<exists>m'. Tunnel_EncryptTunnelMsg aes hops m m = Some m' \<and>
      wire_msg m' (take 4 pl @ fold (TunnelDecryption_Decrypt aes) (rev hops) (drop 4 pl))"
    if "wire_msg m pl" for m pl
    using decrypt_hops_wire [OF assms that that] by (auto simp: Tunnel_EncryptTunnelMsg_def)
  then show ?thesis by (auto simp: encrypts_def)
qed

lemma encrypts_transit:
  assumes "aes_ok aes"
  shows "encrypts (\<lambda>m. TransitTunnel_EncryptTunnelMsg aes keys m m) (TunnelEncryption_Encrypt aes keys)"
proof -
  have "\<exists>m'. TransitTunnel_EncryptTunnelMsg aes keys m m = Some m' \<and>
      wire_msg m' (take 4 pl @ TunnelEncryption_Encrypt aes keys (drop 4 pl))"
    if m: "wire_msg m pl" for m pl
  proof -
    have "length (drop 4 pl) = 1024" using m by (simp add: wire_msg_def)
    from wire_msg_put [OF m tunnel_crypto_inverse(4) [OF assms this]] show ?thesis
      using wire_msg_read [OF m] by (auto simp: TransitTunnel_EncryptTunnelMsg_def)
  qed
  then show ?thesis by (auto simp: encrypts_def)
qed

lemma send_loop_wire:
  assumes enc: "encrypts encrypt F"
  shows "list_all2 wire_msg ms pls \<Longrightarrow>
    \<exists>ms'. send_loop env rnd encrypt ms = Some ms' \<and>
      list_all2 (\<lambda>m' pl. wire_msg m' (take 4 pl @ F (drop 4 pl))) ms' pls"
proof (induction ms pls rule: list_all2_induct)
  case Nil
  then show ?case by simp
next
  case (Cons m ms pl pls)
  obtain m1 where m1: "encrypt m = Some m1" "wire_msg m1 (take 4 pl @ F (drop 4 pl))"
    using enc Cons(1) by (auto simp: encrypts_def)
  have "has_header m1" using m1(2) by (simp add: wire_msg_def)
  then obtain m2 where "FillI2NPMessageHeader env (rnd (length ms)) m1 eI2NPTunnelData 0 = Some m2"
    "msg_payload m2 = msg_payload m1" "has_header m2"
    by (rule Fill_header_Some [of m1 env "rnd (length ms)" eI2NPTunnelData 0])
  moreover have "wire_msg m2 (take 4 pl @ F (drop 4 pl))"
    using calculation m1(2) by (simp add: wire_msg_def)
  moreover note Cons(3)
  ultimately show ?case using m1 by auto
qed

section \<open>The gateway\<close>

text \<open>
  The blocks a gateway is asked to send, each in a state where \<open>PutI2NPMsg\<close> does what it means to
  do; a block put into an empty buffer always is.
\<close>

fun puts_ok :: "gw_env \<Rightarrow> TunnelMessageBlock list \<Rightarrow> tunnel_gateway \<Rightarrow> bool" where
  "puts_ok genv [] tg \<longleftrightarrow> True"
| "puts_ok genv (b # bs) tg \<longleftrightarrow> put_ok (tg_Buffer tg) b \<and>
     (case PutTunnelDataMsg genv b tg of None \<Rightarrow> True | Some tg' \<Rightarrow> puts_ok genv bs tg')"

lemma put_blocks_spec:
  assumes env: "gw_env_ok genv"
  shows "gw_rel genv (tg_Buffer tg) fss cur \<Longrightarrow> \<forall>b \<in> set bs. block_ok b \<Longrightarrow> puts_ok genv bs tg \<Longrightarrow>
    \<exists>tg' fss' cur' fsl. put_blocks genv bs tg = Some tg' \<and> gw_rel genv (tg_Buffer tg') fss' cur' \<and>
      gw_TunnelID (tg_Buffer tg') = gw_TunnelID (tg_Buffer tg) \<and>
      concat fss' @ cur' = concat fss @ cur @ concat fsl \<and> list_all2 block_frags bs fsl"
proof (induction bs arbitrary: tg fss cur)
  case Nil
  then show ?case by (intro exI [of _ tg] exI [of _ fss] exI [of _ cur] exI [of _ "[]"]) simp
next
  case (Cons b bs)
  obtain st1 fss1 cur1 fs where p: "PutI2NPMsg genv b (tg_Buffer tg) = Some st1"
    "gw_rel genv st1 fss1 cur1" "gw_TunnelID st1 = gw_TunnelID (tg_Buffer tg)"
    "concat fss1 @ cur1 = concat fss @ cur @ fs" "block_frags b fs"
    using PutI2NPMsg_spec [OF env Cons.prems(1), of b] Cons.prems by auto
  let ?tg = "tg\<lparr>tg_Buffer := st1\<rparr>"
  obtain tg' fss' cur' fsl where "put_blocks genv bs ?tg = Some tg'" "gw_rel genv (tg_Buffer tg') fss' cur'"
    "gw_TunnelID (tg_Buffer tg') = gw_TunnelID (tg_Buffer ?tg)"
    "concat fss' @ cur' = concat fss1 @ cur1 @ concat fsl" "list_all2 block_frags bs fsl"
    using Cons.IH [of ?tg fss1 cur1] p Cons.prems by (auto simp: PutTunnelDataMsg_def)
  moreover have "concat fss1 @ cur1 @ concat fsl = concat fss @ cur @ concat (fs # fsl)"
    using p(4) by (metis append.assoc concat.simps(2))
  ultimately show ?case
    using p by (intro exI [of _ tg'] exI [of _ fss'] exI [of _ cur'] exI [of _ "fs # fsl"])
      (simp add: PutTunnelDataMsg_def)
qed

text \<open>A completed tunnel message: its payload, plain.\<close>

definition plain_payload :: "gw_env \<Rightarrow> 32 word \<Rightarrow> frag list \<Rightarrow> bytes \<Rightarrow> bool" where
  "plain_payload genv tid fs pl \<longleftrightarrow> (\<forall>f \<in> set fs. frag_ok f) \<and>
     (\<exists>iv pad. tunnel_plain (gwe_sha256 genv) tid iv pad (encode_frags fs) pl)"

lemma done_msg_wire:
  "done_msg genv tid m (encode_frags fs) \<Longrightarrow> \<forall>f \<in> set fs. frag_ok f \<Longrightarrow>
     wire_msg m (msg_payload m) \<and> plain_payload genv tid fs (msg_payload m)"
  by (auto simp: done_msg_def wire_msg_def plain_payload_def has_header_def dest: tunnel_plain_length)

lemma SendBuffer_wire:
  assumes env: "gw_env_ok genv" and enc: "encrypts encrypt F" and rel: "gw_rel genv (tg_Buffer tg) fss cur"
  shows "\<exists>tg' ms fss'. SendBuffer genv env rnd encrypt tg = Some (tg', ms) \<and>
    gw_rel genv (tg_Buffer tg') [] [] \<and> gw_TunnelID (tg_Buffer tg') = gw_TunnelID (tg_Buffer tg) \<and>
    gw_CurrentTunnelDataMsg (tg_Buffer tg') = None \<and> concat fss' = concat fss @ cur \<and>
    list_all2 (\<lambda>m fs. \<exists>pl. plain_payload genv (gw_TunnelID (tg_Buffer tg)) fs pl \<and>
      wire_msg m (take 4 pl @ F (drop 4 pl))) ms fss'"
proof -
  let ?tid = "gw_TunnelID (tg_Buffer tg)"
  obtain b fss' where b: "CompleteCurrentTunnelDataMessage genv (tg_Buffer tg) = Some b"
    "gw_rel genv b fss' []" "gw_TunnelID b = ?tid" "concat fss' = concat fss @ cur"
    "gw_CurrentTunnelDataMsg b = None"
  proof (cases "gw_CurrentTunnelDataMsg (tg_Buffer tg)")
    case None
    then have "cur = []" using rel by (simp add: gw_rel_def)
    then show ?thesis using that [of "tg_Buffer tg" fss] None rel
      by (simp add: CompleteCurrentTunnelDataMessage_def)
  next
    case (Some m)
    then obtain st' where "CompleteCurrentTunnelDataMessage genv (tg_Buffer tg) = Some st'"
      "gw_rel genv st' (fss @ [cur]) []" "gw_CurrentTunnelDataMsg st' = None" "gw_TunnelID st' = ?tid"
      using rel_complete [OF env rel] by auto
    then show ?thesis using that [of st' "fss @ [cur]"] by simp
  qed
  have ok: "\<forall>fs \<in> set fss'. \<forall>f \<in> set fs. frag_ok f"
    using b(2) by (auto simp: gw_rel_def)
  have d: "list_all2 (\<lambda>m fs. done_msg genv ?tid m (encode_frags fs)) (gw_TunnelDataMsgs b) fss'"
    using b(2,3) by (simp add: gw_rel_def)
  let ?pls = "map msg_payload (gw_TunnelDataMsgs b)"
  have w: "list_all2 wire_msg (gw_TunnelDataMsgs b) ?pls"
    and pp: "list_all2 (plain_payload genv ?tid) fss' ?pls"
    using d done_msg_wire [OF _ bspec [OF ok nth_mem]] unfolding list_all2_conv_all_nth
    by (fastforce, fastforce)
  obtain ms where ms: "send_loop env rnd encrypt (gw_TunnelDataMsgs b) = Some ms"
    "list_all2 (\<lambda>m' pl. wire_msg m' (take 4 pl @ F (drop 4 pl))) ms ?pls"
    using send_loop_wire [OF enc w] by blast
  have "list_all2 (\<lambda>m fs. \<exists>pl. plain_payload genv ?tid fs pl \<and>
      wire_msg m (take 4 pl @ F (drop 4 pl))) ms fss'"
    using ms(2) pp unfolding list_all2_conv_all_nth by auto blast
  moreover have "gw_rel genv (ClearTunnelDataMsgs b) [] []"
    using b(2,5) by (auto simp: gw_rel_def gw_buf_ok_def ClearTunnelDataMsgs_def)
  ultimately show ?thesis
    using b ms(1) by (simp add: SendBuffer_def ClearTunnelDataMsgs_def)
      (intro exI [of _ fss'], simp)
qed

lemma gateway_fresh:
  "length rnd = 1003 \<Longrightarrow> gw_rel genv (tg_Buffer (TunnelGateway tid rnd)) [] [] \<and>
     gw_TunnelID (tg_Buffer (TunnelGateway tid rnd)) = tid"
  by (auto simp: TunnelGateway_def TunnelGatewayBuffer_def gw_rel_def gw_buf_ok_def)

section \<open>The way through the participants\<close>

lemma empty_wire:
  "wire_msg (CreateEmptyTunnelDataMsg addr) (replicate 1028 0)" "msg_offset (CreateEmptyTunnelDataMsg addr) = 2"
  "msg_len (CreateEmptyTunnelDataMsg addr) = 1046" "length (msg_buf (CreateEmptyTunnelDataMsg addr)) = 4112"
  "msg_maxLen (CreateEmptyTunnelDataMsg addr) = 4096" "take 4 (replicate 1028 (0 :: byte)) = [0, 0, 0, 0]"
  by (simp_all add: wire_msg_def has_header_def msg_payload_def CreateEmptyTunnelDataMsg_def add_len_def
      TUNNEL_DATA_MSG_SIZE_def window_def NewI2NPShortMessage_def I2NPMessageBuffer_def
      I2NP_MAX_SHORT_MESSAGE_SIZE_def) (simp add: eval_nat_numeral)

lemma transit_encrypt_wire:
  assumes aes: "aes_ok aes" and inp: "wire_msg inp pl"
  shows "\<exists>m'. TransitTunnel_EncryptTunnelMsg aes keys inp (CreateEmptyTunnelDataMsg addr) = Some m' \<and>
    wire_msg m' ([0, 0, 0, 0] @ TunnelEncryption_Encrypt aes keys (drop 4 pl)) \<and>
    msg_offset m' = 2 \<and> msg_len m' = 1046 \<and> length (msg_buf m') = 4112 \<and> msg_maxLen m' = 4096"
proof -
  have "length (drop 4 pl) = 1024" using inp by (simp add: wire_msg_def)
  then have e: "length (TunnelEncryption_Encrypt aes keys (drop 4 pl)) = 1024"
    by (simp add: tunnel_crypto_inverse(4) [OF aes])
  show ?thesis
    using wire_msg_put [OF empty_wire(1) e, of addr] wire_msg_read [OF inp] unfolding empty_wire
    by (auto simp: TransitTunnel_EncryptTunnelMsg_def)
qed

text \<open>What a router receives is a message of its own with the sender's bytes.\<close>

definition received_as :: "i2np_msg \<Rightarrow> i2np_msg \<Rightarrow> bool" where
  "received_as m r \<longleftrightarrow> has_header r \<and> msg_content r = msg_content m"

lemma payload_of_content: "has_header m \<Longrightarrow> msg_payload m = drop 16 (msg_content m)"
  by (simp add: msg_content_header_payload has_header_def)

lemma received_as_wire: "received_as m r \<Longrightarrow> wire_msg m pl \<Longrightarrow> wire_msg r pl"
  using payload_of_content [of m] payload_of_content [of r] by (auto simp: received_as_def wire_msg_def)

lemma wire_msg_put_id:
  assumes m: "wire_msg m pl" and "length bs = 4"
  shows "\<exists>m'. put_at m (GetPayload m) bs = Some m' \<and> wire_msg m' (bs @ drop 4 pl)"
proof -
  note l = wire_msg_len [OF m]
  let ?p = "msg_offset m + 16"
  let ?b = "patch (msg_buf m) ?p bs" and ?m = "m\<lparr>msg_buf := patch (msg_buf m) ?p bs\<rparr>"
  have rd: "window (msg_buf m) (?p + 4) 1024 = drop 4 pl"
    using wire_msg_read [OF m] by (simp add: mem_read_def window_def GetPayload_16 split: if_splits)
  have "window ?b ?p 4 = bs"
    by (rule window_patch_same) (use assms(2) l in simp_all)
  moreover have "window ?b (?p + 4) 1024 = drop 4 pl"
    unfolding rd [symmetric] by (rule window_patch_after) (use assms(2) l in simp_all)
  ultimately have "window ?b ?p (4 + 1024) = bs @ drop 4 pl"
    unfolding window_add by (simp only:)
  then have "wire_msg ?m (bs @ drop 4 pl)"
    using assms l m by (auto simp: wire_msg_def has_header_def msg_payload_def)
  then show ?thesis
    using l assms(2) by (intro exI [of _ ?m]) (simp add: put_at_patch GetPayload_16)
qed

lemma Participant_wire:
  assumes aes: "aes_ok aes" and r: "wire_msg r pl"
  shows "\<exists>m'. Participant_HandleTunnelDataMsg aes env rnd addr tt r st = Some (fst st + 1044, snd st @ [m']) \<and>
    wire_msg m' (be_bytes 4 (unat (tt_NextTunnelID tt)) @ TunnelEncryption_Encrypt aes (tt_Encryption tt) (drop 4 pl))"
proof -
  let ?e = "TunnelEncryption_Encrypt aes (tt_Encryption tt) (drop 4 pl)"
  obtain m1 where m1: "TransitTunnel_EncryptTunnelMsg aes (tt_Encryption tt) r (CreateEmptyTunnelDataMsg addr) = Some m1"
    "wire_msg m1 ([0, 0, 0, 0] @ ?e)"
    using transit_encrypt_wire [OF aes r] by blast
  obtain m2 where m2: "put_at m1 (GetPayload m1) (be_bytes 4 (unat (tt_NextTunnelID tt))) = Some m2"
    "wire_msg m2 (be_bytes 4 (unat (tt_NextTunnelID tt)) @ ?e)"
    using wire_msg_put_id [OF m1(2), of "be_bytes 4 (unat (tt_NextTunnelID tt))"] by auto
  have "has_header m2" using m2(2) by (simp add: wire_msg_def)
  then obtain m3 where m3: "FillI2NPMessageHeader env rnd m2 eI2NPTunnelData 0 = Some m3"
    "msg_payload m3 = msg_payload m2" "has_header m3"
    by (rule Fill_header_Some [of m2 env rnd eI2NPTunnelData 0])
  then have "wire_msg m3 (be_bytes 4 (unat (tt_NextTunnelID tt)) @ ?e)"
    using m2(2) by (simp add: wire_msg_def)
  moreover have "GetLength r = 1044"
    using wire_msg_len [OF r] by (simp add: GetLength_def)
  ultimately show ?thesis
    using m1 m2 m3 by (simp add: Participant_HandleTunnelDataMsg_def put_be_put_at)
qed

text \<open>
  \<open>travels aes tts m r\<close>: the message \<open>m\<close> went through the participants \<open>tts\<close>, each receiving it as
  some message of its own, at any time, with any queue, and arrives as \<open>r\<close>.
\<close>

inductive travels :: "aes_env \<Rightarrow> transit_tunnel list \<Rightarrow> i2np_msg \<Rightarrow> i2np_msg \<Rightarrow> bool" for aes where
  travels_arrive: "received_as m r \<Longrightarrow> travels aes [] m r"
| travels_relay: "received_as m r \<Longrightarrow>
    Participant_HandleTunnelDataMsg aes env rnd addr tt r st = Some (n, snd st @ [m']) \<Longrightarrow>
    travels aes tts m' r' \<Longrightarrow> travels aes (tt # tts) m r'"

inductive_cases travels_NilE: "travels aes [] m r"
inductive_cases travels_ConsE: "travels aes (tt # tts) m r"

lemma travels_wire:
  assumes "aes_ok aes"
  shows "travels aes tts m r \<Longrightarrow> wire_msg m pl \<Longrightarrow>
    \<exists>pl'. wire_msg r pl' \<and> drop 4 pl' = fold (TunnelEncryption_Encrypt aes) (map tt_Encryption tts) (drop 4 pl)"
proof (induction tts m r arbitrary: pl rule: travels.induct)
  case (travels_arrive m r)
  then show ?case using received_as_wire by auto
next
  case (travels_relay m r env rnd addr tt st n m' tts r')
  from Participant_wire [OF assms received_as_wire [OF travels_relay(1,5)], of env rnd addr tt st] travels_relay(2)
  have "wire_msg m' (be_bytes 4 (unat (tt_NextTunnelID tt)) @ TunnelEncryption_Encrypt aes (tt_Encryption tt) (drop 4 pl))"
    by auto
  from travels_relay(4) [OF this] show ?case by simp
qed

lemma received_exists: "wire_msg m pl \<Longrightarrow> received_as m m"
  by (simp add: received_as_def wire_msg_def)

lemma travels_exists:
  assumes "aes_ok aes"
  shows "wire_msg m pl \<Longrightarrow> \<exists>r. travels aes tts m r"
proof (induction tts arbitrary: m pl)
  case Nil
  then show ?case using travels_arrive [OF received_exists] by blast
next
  case (Cons tt tts)
  obtain m' where m': "Participant_HandleTunnelDataMsg aes sample_env 0 0 tt m (0, []) = Some (1044, [] @ [m'])"
    "wire_msg m' (be_bytes 4 (unat (tt_NextTunnelID tt)) @ TunnelEncryption_Encrypt aes (tt_Encryption tt) (drop 4 pl))"
    using Participant_wire [OF assms Cons.prems, of sample_env 0 0 tt "(0, [])"] by auto
  obtain r where "travels aes tts m' r" using Cons.IH [OF m'(2)] by blast
  then show ?case
    using travels_relay [OF received_exists [OF Cons.prems], of aes sample_env 0 0 tt "(0, [])"] m'(1) by auto
qed

section \<open>The endpoints\<close>

fun Endpoint_run :: "aes_env \<Rightarrow> ep_env \<Rightarrow> transit_tunnel \<Rightarrow> i2np_msg list \<Rightarrow> ep_state \<Rightarrow> ep_state option" where
  "Endpoint_run aes env tt [] st = Some st"
| "Endpoint_run aes env tt (m # ms) st = do {
     st \<leftarrow> Endpoint_HandleTunnelDataMsg aes env (length ms) tt m st;
     Endpoint_run aes env tt ms st }"

fun Inbound_run :: "aes_env \<Rightarrow> ep_env \<Rightarrow> nat \<Rightarrow> tunnel_keys list \<Rightarrow> i2np_msg list \<Rightarrow> tunnel_state \<times> ep_state \<Rightarrow>
    (tunnel_state \<times> ep_state) option" where
  "Inbound_run aes env self hops [] st = Some st"
| "Inbound_run aes env self hops (m # ms) st = do {
     st \<leftarrow> InboundTunnel_HandleTunnelDataMsg aes env (length ms) self hops m st;
     Inbound_run aes env self hops ms st }"

definition asm_empty :: asm where
  "asm_empty = \<lparr>asm_inc = Map.empty, asm_oos = Map.empty\<rparr>"

text \<open>A plain payload in a message of the receiver, with any tunnel ID in front.\<close>

lemma received_plain:
  assumes rel: "ep_rel eenv st A out" and sha: "gwe_sha256 genv = env_sha256 (epe_i2np eenv)"
    and m: "wire_msg m (be_bytes 4 (unat (tid' :: 32 word)) @ drop 4 pl)" "msg_offset m = 2" "length (msg_buf m) = 4112"
      "msg_maxLen m = 4096"
    and pl: "plain_payload genv tid fs pl"
    and run: "asm_run (epe_ident eenv) (ep_IsInbound st) A fs = Some (A', outs)"
  shows "\<exists>st'. HandleDecryptedTunnelDataMsg eenv m st = Some st' \<and> ep_IsInbound st' = ep_IsInbound st \<and>
      ep_rel eenv st' A' (out @ outs)"
proof -
  obtain iv pad where tp: "tunnel_plain (env_sha256 (epe_i2np eenv)) tid iv pad (encode_frags fs) pl"
    using pl sha by (auto simp: plain_payload_def)
  then have "tunnel_plain (env_sha256 (epe_i2np eenv)) tid' iv pad (encode_frags fs)
      (be_bytes 4 (unat tid') @ drop 4 pl)"
    by (auto simp: tunnel_plain_def)
  moreover have "window (msg_buf m) (GetPayload m) 1028 = be_bytes 4 (unat tid') @ drop 4 pl"
    using m(1) wire_msg_len [OF m(1)] by (auto simp: wire_msg_def msg_payload_def GetPayload_16)
  moreover have "received m" using m by (simp add: received_def)
  ultimately show ?thesis
    using HandleDecrypted_rel [OF rel _ _ _ run] pl by (auto simp: plain_payload_def)
qed

lemma zero_id: "[0, 0, 0, 0] = be_bytes 4 (unat (0 :: 32 word))"
  by (simp add: be_bytes_def upt_rec)

lemma Endpoint_Handle_rel:
  assumes aes: "aes_ok aes" and rel: "ep_rel eenv st A out" and sha: "gwe_sha256 genv = env_sha256 (epe_i2np eenv)"
    and r: "wire_msg r rpl" "TunnelEncryption_Encrypt aes (tt_Encryption tt) (drop 4 rpl) = drop 4 pl"
    and pl: "plain_payload genv tid fs pl"
    and run: "asm_run (epe_ident eenv) (ep_IsInbound st) A fs = Some (A', outs)"
  shows "\<exists>st'. Endpoint_HandleTunnelDataMsg aes eenv addr tt r st = Some st' \<and>
      ep_IsInbound st' = ep_IsInbound st \<and> ep_rel eenv st' A' (out @ outs)"
proof -
  obtain m where m: "TransitTunnel_EncryptTunnelMsg aes (tt_Encryption tt) r (CreateEmptyTunnelDataMsg addr) = Some m"
    "wire_msg m (be_bytes 4 (unat (0 :: 32 word)) @ drop 4 pl)" "msg_offset m = 2" "length (msg_buf m) = 4112"
    "msg_maxLen m = 4096"
    using transit_encrypt_wire [OF aes r(1), of "tt_Encryption tt" addr] unfolding r(2) zero_id by blast
  then show ?thesis
    using received_plain [OF rel sha m(2-5) pl run] by (auto simp: Endpoint_HandleTunnelDataMsg_def)
qed

lemma Endpoint_run_rel:
  assumes aes: "aes_ok aes" and sha: "gwe_sha256 genv = env_sha256 (epe_i2np eenv)"
  shows "list_all2 (\<lambda>r fs. \<exists>pl rpl. plain_payload genv tid fs pl \<and> wire_msg r rpl \<and>
      TunnelEncryption_Encrypt aes (tt_Encryption tt) (drop 4 rpl) = drop 4 pl) rs fss \<Longrightarrow>
    ep_rel eenv st A out \<Longrightarrow> asm_run (epe_ident eenv) (ep_IsInbound st) A (concat fss) = Some (A', outs) \<Longrightarrow>
    \<exists>st'. Endpoint_run aes eenv tt rs st = Some st' \<and> ep_IsInbound st' = ep_IsInbound st \<and>
      ep_rel eenv st' A' (out @ outs)"
proof (induction rs fss arbitrary: st A out outs rule: list_all2_induct)
  case Nil
  then show ?case by simp
next
  case (Cons r rs fs fss)
  obtain A1 o1 o2 where run: "asm_run (epe_ident eenv) (ep_IsInbound st) A fs = Some (A1, o1)"
    "asm_run (epe_ident eenv) (ep_IsInbound st) A1 (concat fss) = Some (A', o2)" "outs = o1 @ o2"
    using Cons.prems(2) by (auto simp: asm_run_append split: bind_splits)
  obtain st1 where st1: "Endpoint_HandleTunnelDataMsg aes eenv (length rs) tt r st = Some st1"
    "ep_IsInbound st1 = ep_IsInbound st" "ep_rel eenv st1 A1 (out @ o1)"
    using Endpoint_Handle_rel [OF aes Cons.prems(1) sha _ _ _ run(1)] Cons(1) by blast
  from Cons.IH [OF st1(3), of o2] run st1 show ?case by auto
qed

lemma Inbound_Handle_rel:
  assumes aes: "aes_ok aes" and rel: "ep_rel eenv (snd st) A out" and sha: "gwe_sha256 genv = env_sha256 (epe_i2np eenv)"
    and r: "wire_msg r rpl" "fold (TunnelDecryption_Decrypt aes) (rev hops) (drop 4 rpl) = drop 4 pl" "hops \<noteq> []"
    and pl: "plain_payload genv tid fs pl"
    and run: "asm_run (epe_ident eenv) (ep_IsInbound (snd st)) A fs = Some (A', outs)"
  shows "\<exists>st'. InboundTunnel_HandleTunnelDataMsg aes eenv addr self hops r st = Some st' \<and>
      fst st' = (if fst st = eTunnelStateFailed then eTunnelStateEstablished else fst st) \<and>
      ep_IsInbound (snd st') = ep_IsInbound (snd st) \<and> ep_rel eenv (snd st') A' (out @ outs)"
proof -
  obtain m where m: "Tunnel_EncryptTunnelMsg aes hops r (CreateEmptyTunnelDataMsg addr) = Some m"
    "wire_msg m (be_bytes 4 (unat (0 :: 32 word)) @ drop 4 pl)" "msg_offset m = 2"
    "length (msg_buf m) = 4112" "msg_maxLen m = 4096"
    using decrypt_hops_wire [OF aes r(1) empty_wire(1), of "rev hops" addr] r(2,3)
    unfolding empty_wire zero_id Tunnel_EncryptTunnelMsg_def by auto
  let ?m = "m\<lparr>msg_from := Some self\<rparr>"
  have "wire_msg ?m (be_bytes 4 (unat (0 :: 32 word)) @ drop 4 pl)"
    using m(2) by (simp add: wire_msg_def has_header_def msg_payload_def)
  then show ?thesis
    using received_plain [OF rel sha _ _ _ _ pl run, of ?m 0] m
    by (auto simp: InboundTunnel_HandleTunnelDataMsg_def Let_def)
qed

lemma Inbound_run_rel:
  assumes aes: "aes_ok aes" and sha: "gwe_sha256 genv = env_sha256 (epe_i2np eenv)" and hops: "hops \<noteq> []"
  shows "list_all2 (\<lambda>r fs. \<exists>pl rpl. plain_payload genv tid fs pl \<and> wire_msg r rpl \<and>
      fold (TunnelDecryption_Decrypt aes) (rev hops) (drop 4 rpl) = drop 4 pl) rs fss \<Longrightarrow>
    ep_rel eenv (snd st) A out \<Longrightarrow> asm_run (epe_ident eenv) (ep_IsInbound (snd st)) A (concat fss) = Some (A', outs) \<Longrightarrow>
    \<exists>st'. Inbound_run aes eenv self hops rs st = Some st' \<and> ep_IsInbound (snd st') = ep_IsInbound (snd st) \<and>
      ep_rel eenv (snd st') A' (out @ outs)"
proof (induction rs fss arbitrary: st A out outs rule: list_all2_induct)
  case Nil
  then show ?case by simp
next
  case (Cons r rs fs fss)
  obtain A1 o1 o2 where run: "asm_run (epe_ident eenv) (ep_IsInbound (snd st)) A fs = Some (A1, o1)"
    "asm_run (epe_ident eenv) (ep_IsInbound (snd st)) A1 (concat fss) = Some (A', o2)" "outs = o1 @ o2"
    using Cons.prems(2) by (auto simp: asm_run_append split: bind_splits)
  obtain st1 where st1: "InboundTunnel_HandleTunnelDataMsg aes eenv (length rs) self hops r st = Some st1"
    "ep_IsInbound (snd st1) = ep_IsInbound (snd st)" "ep_rel eenv (snd st1) A1 (out @ o1)"
    using Inbound_Handle_rel [OF aes Cons.prems(1) sha _ _ hops _ run(1), where addr = "length rs" and self = self] Cons(1) by blast
  from Cons.IH [OF st1(3), of o2] run st1 show ?case by auto
qed

section \<open>From a gateway to an endpoint\<close>

definition good_block :: "TunnelMessageBlock \<Rightarrow> bool" where
  "good_block b \<longleftrightarrow> block_ok b \<and> length (msg_content (blk_data b)) \<le> asm_max \<and> GetMsgID (blk_data b) \<noteq> Some 0"

definition block_delivery :: "ident_hash \<Rightarrow> bool \<Rightarrow> TunnelMessageBlock \<Rightarrow> delivery list" where
  "block_delivery ident inbound b = deliver ident inbound (blk_deliveryType b) (blk_tunnelID b) (blk_hash b)
     (msg_content (blk_data b))"

lemma good_block_id:
  assumes "good_block b"
  shows "(word_of_nat (be_val (take 4 (drop 1 (msg_content (blk_data b))))) :: 32 word) \<noteq> 0"
  using assms block_reads(3) [of b]
  by (auto simp: good_block_def GetMsgID_def bufbe32toh_be_val i2np_sizes)

lemma asm_run_blocks:
  "list_all2 block_frags bs fsl \<Longrightarrow> \<forall>b \<in> set bs. good_block b \<Longrightarrow>
     asm_run ident inb asm_empty (concat fsl) = Some (asm_empty, concat (map (block_delivery ident inb) bs))"
proof (induction bs fsl rule: list_all2_induct)
  case Nil
  then show ?case by simp
next
  case (Cons b bs fs fsl)
  have "asm_run ident inb asm_empty fs = Some (asm_empty, block_delivery ident inb b)"
    unfolding block_delivery_def using Cons(1,4) good_block_id [of b]
    by (intro asm_run_block) (auto simp: good_block_def asm_empty_def)
  then show ?case using Cons by (simp add: asm_run_append)
qed

lemma ep_rel_start: "ep_rel env (TunnelEndpoint inb) asm_empty []"
  by (simp add: ep_rel_def TunnelEndpoint_def asm_empty_def)

lemma gateway_run:
  assumes genv: "gw_env_ok genv" and enc: "encrypts encrypt F" and rnd: "length rnd = 1003"
    and bs: "\<forall>b \<in> set bs. good_block b" and puts: "puts_ok genv bs (TunnelGateway tid rnd)"
  shows "\<exists>tg1 tg ms fss. put_blocks genv bs (TunnelGateway tid rnd) = Some tg1 \<and>
    SendBuffer genv env rnd32 encrypt tg1 = Some (tg, ms) \<and>
    (\<forall>ident inb. asm_run ident inb asm_empty (concat fss) =
       Some (asm_empty, concat (map (block_delivery ident inb) bs))) \<and>
    list_all2 (\<lambda>m fs. \<exists>pl. plain_payload genv tid fs pl \<and> wire_msg m (take 4 pl @ F (drop 4 pl))) ms fss"
proof -
  let ?g = "TunnelGateway tid rnd"
  have g: "gw_rel genv (tg_Buffer ?g) [] []" "gw_TunnelID (tg_Buffer ?g) = tid"
    using gateway_fresh [OF rnd] by auto
  have ok: "\<forall>b \<in> set bs. block_ok b" using bs by (simp add: good_block_def)
  obtain tg1 fss cur fsl where p: "put_blocks genv bs ?g = Some tg1" "gw_rel genv (tg_Buffer tg1) fss cur"
    "gw_TunnelID (tg_Buffer tg1) = tid" "concat fss @ cur = concat fsl" "list_all2 block_frags bs fsl"
    using put_blocks_spec [OF genv g(1) ok puts] g(2) by auto
  obtain tg ms fss' where "SendBuffer genv env rnd32 encrypt tg1 = Some (tg, ms)" "concat fss' = concat fss @ cur"
    "list_all2 (\<lambda>m fs. \<exists>pl. plain_payload genv tid fs pl \<and> wire_msg m (take 4 pl @ F (drop 4 pl))) ms fss'"
    using SendBuffer_wire [OF genv enc p(2), of env rnd32] p(3) by blast
  then show ?thesis using p asm_run_blocks [OF p(5) bs]
    by (intro exI [of _ tg1] exI [of _ tg] exI [of _ ms] exI [of _ fss']) simp
qed

lemma plain_payload_1028: "plain_payload genv tid fs pl \<Longrightarrow> length (drop 4 pl) = 1024"
  by (auto simp: plain_payload_def dest: tunnel_plain_length)

lemma list_all2_via:
  "list_all2 R ms rs \<Longrightarrow> list_all2 P ms fss \<Longrightarrow> (\<And>m r fs. R m r \<Longrightarrow> P m fs \<Longrightarrow> Q r fs) \<Longrightarrow> list_all2 Q rs fss"
  unfolding list_all2_conv_all_nth by auto

lemma outbound_delivers:
  assumes genv: "gw_env_ok genv" and aes: "aes_ok aes" and sha: "gwe_sha256 genv = env_sha256 (epe_i2np eenv)"
    and rnd: "length rnd = 1003" and bs: "\<forall>b \<in> set bs. good_block b"
    and puts: "puts_ok genv bs (TunnelGateway tid rnd)"
    and hops: "hops = map tt_Encryption tts @ [tt_Encryption tt]"
  shows "\<exists>tg ms. OutboundTunnel_SendTunnelDataMsgs genv env rnd32 aes hops bs (TunnelGateway tid rnd) = Some (tg, ms) \<and>
    (\<forall>rs. list_all2 (travels aes tts) ms rs \<longrightarrow>
      (\<exists>st. Endpoint_run aes eenv tt rs (TunnelEndpoint False) = Some st \<and>
         list_all2 (ev_rel eenv) (ep_out st) (concat (map (block_delivery (epe_ident eenv) False) bs))))"
proof -
  let ?D = "fold (TunnelDecryption_Decrypt aes) (rev hops)"
  obtain tg1 tg ms fss where g: "put_blocks genv bs (TunnelGateway tid rnd) = Some tg1"
    "SendBuffer genv env rnd32 (\<lambda>m. Tunnel_EncryptTunnelMsg aes hops m m) tg1 = Some (tg, ms)"
    "\<And>ident inb. asm_run ident inb asm_empty (concat fss) =
       Some (asm_empty, concat (map (block_delivery ident inb) bs))"
    "list_all2 (\<lambda>m fs. \<exists>pl. plain_payload genv tid fs pl \<and> wire_msg m (take 4 pl @ ?D (drop 4 pl))) ms fss"
    using gateway_run [OF genv encrypts_outbound [OF aes, of hops] rnd bs puts, of env rnd32] by blast
  have step: "\<exists>pl rpl. plain_payload genv tid fs pl \<and> wire_msg r rpl \<and>
      TunnelEncryption_Encrypt aes (tt_Encryption tt) (drop 4 rpl) = drop 4 pl"
    if t: "travels aes tts m r" and m: "\<exists>pl. plain_payload genv tid fs pl \<and> wire_msg m (take 4 pl @ ?D (drop 4 pl))"
    for m r fs
  proof -
    obtain pl where pl: "plain_payload genv tid fs pl" "wire_msg m (take 4 pl @ ?D (drop 4 pl))"
      using m by blast
    note l = plain_payload_1028 [OF pl(1)]
    obtain rpl where r: "wire_msg r rpl" "drop 4 rpl = fold (TunnelEncryption_Encrypt aes)
        (map tt_Encryption tts) (drop 4 (take 4 pl @ ?D (drop 4 pl)))"
      using travels_wire [OF aes t pl(2)] by blast
    have "length (take 4 pl) = 4" using l by simp
    then have "TunnelEncryption_Encrypt aes (tt_Encryption tt) (drop 4 rpl) =
        fold (TunnelEncryption_Encrypt aes) hops (?D (drop 4 pl))"
      using r(2) by (simp add: hops)
    also have "\<dots> = drop 4 pl" by (rule layers_cancel(1) [OF aes l])
    finally show ?thesis using pl r by blast
  qed
  have "\<exists>st. Endpoint_run aes eenv tt rs (TunnelEndpoint False) = Some st \<and>
      list_all2 (ev_rel eenv) (ep_out st) (concat (map (block_delivery (epe_ident eenv) False) bs))"
    if rs: "list_all2 (travels aes tts) ms rs" for rs
  proof -
    have a: "list_all2 (\<lambda>r fs. \<exists>pl rpl. plain_payload genv tid fs pl \<and> wire_msg r rpl \<and>
        TunnelEncryption_Encrypt aes (tt_Encryption tt) (drop 4 rpl) = drop 4 pl) rs fss"
      by (rule list_all2_via [OF rs g(4) step])
    show ?thesis
      using Endpoint_run_rel [OF aes sha a ep_rel_start [of eenv False] g(3)]
      by (auto simp: ep_rel_def TunnelEndpoint_def)
  qed
  then show ?thesis
    using g(1,2) by (auto simp: OutboundTunnel_SendTunnelDataMsgs_def)
qed

fun Gateway_puts :: "gw_env \<Rightarrow> i2np_msg list \<Rightarrow> tunnel_gateway \<Rightarrow> tunnel_gateway option" where
  "Gateway_puts genv [] tg = Some tg"
| "Gateway_puts genv (m # ms) tg = do { tg \<leftarrow> Gateway_SendTunnelDataMsg genv m tg; Gateway_puts genv ms tg }"

definition local_block :: "i2np_msg \<Rightarrow> TunnelMessageBlock" where
  "local_block m = \<lparr>blk_deliveryType = eDeliveryTypeLocal, blk_hash = [], blk_tunnelID = 0, blk_data = m\<rparr>"

lemma Gateway_puts_blocks: "Gateway_puts genv ms tg = put_blocks genv (map local_block ms) tg"
  by (induction ms arbitrary: tg)
    (simp_all add: Gateway_SendTunnelDataMsg_def local_block_def [symmetric] cong: Option.bind_cong)

lemma inbound_delivers:
  assumes genv: "gw_env_ok genv" and aes: "aes_ok aes" and sha: "gwe_sha256 genv = env_sha256 (epe_i2np eenv)"
    and rnd: "length rnd = 1003" and bs: "\<forall>m \<in> set msgs. good_block (local_block m)"
    and puts: "puts_ok genv (map local_block msgs) (TunnelGateway tid rnd)"
    and hops: "hops = tt_Encryption gw # map tt_Encryption tts"
  shows "\<exists>tg1 tg ms. Gateway_puts genv msgs (TunnelGateway tid rnd) = Some tg1 \<and>
    Gateway_FlushTunnelDataMsgs genv env rnd32 aes gw tg1 = Some (tg, ms) \<and>
    (\<forall>rs state. list_all2 (travels aes tts) ms rs \<longrightarrow>
      (\<exists>st. Inbound_run aes eenv self hops rs (state, TunnelEndpoint True) = Some st \<and>
         list_all2 (ev_rel eenv) (ep_out (snd st)) (map (\<lambda>m. ToLocal (msg_content m)) msgs)))"
proof -
  let ?E = "TunnelEncryption_Encrypt aes (tt_Encryption gw)"
  have bs': "\<forall>b \<in> set (map local_block msgs). good_block b" using bs by simp
  obtain tg1 tg ms fss where g: "put_blocks genv (map local_block msgs) (TunnelGateway tid rnd) = Some tg1"
    "SendBuffer genv env rnd32 (\<lambda>m. TransitTunnel_EncryptTunnelMsg aes (tt_Encryption gw) m m) tg1 = Some (tg, ms)"
    "\<And>ident inb. asm_run ident inb asm_empty (concat fss) =
       Some (asm_empty, concat (map (block_delivery ident inb) (map local_block msgs)))"
    "list_all2 (\<lambda>m fs. \<exists>pl. plain_payload genv tid fs pl \<and> wire_msg m (take 4 pl @ ?E (drop 4 pl))) ms fss"
    using gateway_run [OF genv encrypts_transit [OF aes] rnd bs' puts, of env rnd32] by blast
  have step: "\<exists>pl rpl. plain_payload genv tid fs pl \<and> wire_msg r rpl \<and>
      fold (TunnelDecryption_Decrypt aes) (rev hops) (drop 4 rpl) = drop 4 pl"
    if t: "travels aes tts m r" and m: "\<exists>pl. plain_payload genv tid fs pl \<and> wire_msg m (take 4 pl @ ?E (drop 4 pl))"
    for m r fs
  proof -
    obtain pl where pl: "plain_payload genv tid fs pl" "wire_msg m (take 4 pl @ ?E (drop 4 pl))"
      using m by blast
    note l = plain_payload_1028 [OF pl(1)]
    obtain rpl where r: "wire_msg r rpl" "drop 4 rpl = fold (TunnelEncryption_Encrypt aes)
        (map tt_Encryption tts) (drop 4 (take 4 pl @ ?E (drop 4 pl)))"
      using travels_wire [OF aes t pl(2)] by blast
    have "length (take 4 pl) = 4" using l by simp
    then have "drop 4 rpl = fold (TunnelEncryption_Encrypt aes) hops (drop 4 pl)"
      using r(2) by (simp add: hops)
    then have "fold (TunnelDecryption_Decrypt aes) (rev hops) (drop 4 rpl) = drop 4 pl"
      using layers_cancel(2) [OF aes l, of hops] by simp
    then show ?thesis using pl(1) r(1) by blast
  qed
  have "\<exists>st. Inbound_run aes eenv self hops rs (state, TunnelEndpoint True) = Some st \<and>
      list_all2 (ev_rel eenv) (ep_out (snd st)) (map (\<lambda>m. ToLocal (msg_content m)) msgs)"
    if rs: "list_all2 (travels aes tts) ms rs" for rs state
  proof -
    have a: "list_all2 (\<lambda>r fs. \<exists>pl rpl. plain_payload genv tid fs pl \<and> wire_msg r rpl \<and>
        fold (TunnelDecryption_Decrypt aes) (rev hops) (drop 4 rpl) = drop 4 pl) rs fss"
      by (rule list_all2_via [OF rs g(4) step])
    have c: "concat (map (block_delivery ident inb) (map local_block msgs)) = map (\<lambda>m. ToLocal (msg_content m)) msgs"
      for ident inb
      by (induction msgs) (simp_all add: block_delivery_def local_block_def deliver_def)
    have h: "hops \<noteq> []" by (simp add: hops)
    show ?thesis
      using Inbound_run_rel [OF aes sha h a, of "(state, TunnelEndpoint True)" asm_empty "[]" asm_empty _ self]
        ep_rel_start g(3) unfolding c by (auto simp: ep_rel_def)
  qed
  then show ?thesis
    using g(1,2) by (auto simp: Gateway_puts_blocks Gateway_FlushTunnelDataMsgs_def)
qed

section \<open>Properties\<close>

definition sample_genv :: gw_env where
  "sample_genv = \<lparr>gwe_addr = (\<lambda>_. 0), gwe_iv = (\<lambda>_. replicate 16 1), gwe_word32 = (\<lambda>_ _. 0),
     gwe_sha256 = (\<lambda>_. replicate 32 1)\<rparr>"

definition sample_eenv :: ep_env where
  "sample_eenv = \<lparr>epe_i2np = sample_env, epe_ident = replicate 32 9, epe_addr = (\<lambda>_. 0), epe_rnd = (\<lambda>_. 3)\<rparr>"

lemma samples_ok:
  "gw_env_ok sample_genv" "gwe_sha256 sample_genv = env_sha256 (epe_i2np sample_eenv)"
  "good_block (local_block sample_msg)" "puts_ok sample_genv [local_block sample_msg] (TunnelGateway 5 (replicate 1003 7))"
proof -
  show "gw_env_ok sample_genv" "gwe_sha256 sample_genv = env_sha256 (epe_i2np sample_eenv)"
    by (simp_all add: gw_env_ok_def sample_genv_def sample_eenv_def sample_env_def)
  have "GetMsgID sample_msg = Some 7"
    by (simp add: GetMsgID_def sample_msg_def bufbe32toh_be_val i2np_header_def mem_read_def
        be_val_be_bytes i2np_sizes GetBuffer_def)
  then show "good_block (local_block sample_msg)"
    using sample_msg_facts(1) sample_content
    by (simp add: good_block_def block_ok_def local_block_def asm_max_def)
  show "puts_ok sample_genv [local_block sample_msg] (TunnelGateway 5 (replicate 1003 7))"
    by (simp add: put_ok_def TunnelGateway_def TunnelGatewayBuffer_def split: option.split)
qed







end
