(* ===== verification/Tunnel_Dispatch.thy ===== *)
theory Tunnel_Dispatch
  imports Tunnel_ManagerProps Tunnel_EndToEnd
begin

text \<open>
  Where I2NP messages go: \<open>HandleI2NPMessage\<close> and \<open>I2NPMessagesHandler\<close> of \<open>src/core/I2NPProtocol.cpp\<close>, and
  the thread of the tunnels, \<open>Tunnels::Run\<close> of \<open>src/core/tunnel/Tunnel.cpp\<close>.

  The thread takes messages off its queue until the queue is empty: that batch is a list here. The
  tunnel of the previous message is a raw pointer: an inbound tunnel of the store, or the entry of a
  transit tunnel.
\<close>

section \<open>HandleI2NPMessage\<close>

text \<open>The destinations; \<open>None\<close> as destination of a garlic or status message is the router itself.\<close>

datatype i2np_route =
    PostTunnelData i2np_msg
  | PostNetDb i2np_msg
  | GarlicTo "nat option" i2np_msg
  | GarlicDropped
  | DeliveryStatusTo "nat option" i2np_msg
  | HandleBuffer i2np_msg

definition HandleI2NPMessage :: "tmgr \<Rightarrow> i2np_msg \<Rightarrow> i2np_route option" where
  "HandleI2NPMessage st msg = do {
     typeID \<leftarrow> GetTypeID msg;
     let pool = (case msg_from msg of Some r \<Rightarrow> tn_pool (tm_mem st r) | None \<Rightarrow> None);
     Some (if typeID = eI2NPTunnelData \<or> typeID = eI2NPTunnelGateway then PostTunnelData msg
       else if typeID = eI2NPGarlic then
         (case msg_from msg of None \<Rightarrow> GarlicTo None msg
          | Some _ \<Rightarrow> (case pool of Some p \<Rightarrow> GarlicTo (Some p) msg | None \<Rightarrow> GarlicDropped))
       else if typeID \<in> {eI2NPDatabaseStore, eI2NPDatabaseSearchReply, eI2NPDatabaseLookup} then PostNetDb msg
       else if typeID = eI2NPDeliveryStatus then DeliveryStatusTo pool msg
       else if typeID \<in> {eI2NPVariableTunnelBuild, eI2NPVariableTunnelBuildReply, eI2NPTunnelBuild, eI2NPTunnelBuildReply} then PostTunnelData msg
       else HandleBuffer msg) }"

text \<open>\<open>I2NPMessagesHandler\<close>: tunnel messages are collected and posted together.\<close>

record messages_handler =
  mh_TunnelMsgs :: "i2np_msg list"
  mh_TunnelGatewayMsgs :: "i2np_msg list"

definition PutNextMessage :: "tmgr \<Rightarrow> i2np_msg \<Rightarrow> messages_handler \<Rightarrow> (messages_handler \<times> i2np_route option) option" where
  "PutNextMessage st msg mh = do {
     typeID \<leftarrow> GetTypeID msg;
     if typeID = eI2NPTunnelData then Some (mh\<lparr>mh_TunnelMsgs := mh_TunnelMsgs mh @ [msg]\<rparr>, None)
     else if typeID = eI2NPTunnelGateway then Some (mh\<lparr>mh_TunnelGatewayMsgs := mh_TunnelGatewayMsgs mh @ [msg]\<rparr>, None)
     else map_option (\<lambda>route. (mh, Some route)) (HandleI2NPMessage st msg) }"

definition I2NPMessagesHandler_Flush :: "messages_handler \<Rightarrow> messages_handler \<times> i2np_msg list" where
  "I2NPMessagesHandler_Flush mh = (\<lparr>mh_TunnelMsgs = [], mh_TunnelGatewayMsgs = []\<rparr>, mh_TunnelMsgs mh @ mh_TunnelGatewayMsgs mh)"

section \<open>The tunnel thread\<close>

definition TUNNEL_GATEWAY_HEADER_LENGTH_OFFSET :: nat where [i2np_consts]: "TUNNEL_GATEWAY_HEADER_LENGTH_OFFSET = 4"

datatype tunnel_ptr = InboundPtr nat | TransitPtr "32 word"

record run_state =
  rs_tm :: tmgr
  rs_endpoint :: "nat \<Rightarrow> ep_state"
  rs_netdb :: "i2np_msg list"
  rs_sent :: "(ident_hash \<times> i2np_msg list) list"
  rs_forward :: "build_forward list"
  rs_count :: nat

record run_env =
  re_mg :: mg_env
  re_ep :: ep_env
  re_gw :: gw_env
  re_ctx :: router_ctx
  re_word :: "nat \<Rightarrow> 32 word"
  re_words :: "nat \<Rightarrow> nat \<Rightarrow> 32 word"
  re_bytes :: "nat \<Rightarrow> bytes"
  re_addr :: "nat \<Rightarrow> nat"

definition tunnel_keys_of :: "hop_config list \<Rightarrow> tunnel_keys list" where
  "tunnel_keys_of hops = map (\<lambda>h. \<lparr>tk_layer = hop_layerKey h, tk_iv = hop_ivKey h\<rparr>) hops"

definition put_transit :: "32 word \<Rightarrow> transit_kind \<Rightarrow> run_state \<Rightarrow> run_state" where
  "put_transit tunnelID kind st = (case omap_find (tm_transit (rs_tm st)) tunnelID of
       Some (created, tt, _) \<Rightarrow> st\<lparr>rs_tm := (rs_tm st)\<lparr>tm_transit := omap_put tunnelID (created, tt, kind) (tm_transit (rs_tm st))\<rparr>\<rparr>
     | None \<Rightarrow> st)"

text \<open>\<open>HandleTunnelDataMsg\<close> of the tunnel; a gateway only logs.\<close>

definition handle_data :: "run_env \<Rightarrow> tunnel_ptr \<Rightarrow> i2np_msg \<Rightarrow> run_state \<Rightarrow> run_state option" where
  "handle_data env tunnel msg st = (let aes = be_aes (mg_build (re_mg env)); k = rs_count st; st = st\<lparr>rs_count := k + 1\<rparr> in
     case tunnel of
       InboundPtr r \<Rightarrow> do {
         (_, ep) \<leftarrow> InboundTunnel_HandleTunnelDataMsg aes (re_ep env) (re_addr env k) r (tunnel_keys_of (tn_hops (tm_mem (rs_tm st) r))) msg
           (tn_state (tm_mem (rs_tm st) r), rs_endpoint st r);
         Some (st\<lparr>rs_tm := InboundTunnel_data r (rs_tm st), rs_endpoint := (rs_endpoint st)(r := ep)\<rparr>) }
     | TransitPtr tunnelID \<Rightarrow> do {
         (_, tt, kind) \<leftarrow> omap_find (tm_transit (rs_tm st)) tunnelID;
         (case kind of
            TransitTunnelParticipant n ms \<Rightarrow> map_option (\<lambda>(n, ms). put_transit tunnelID (TransitTunnelParticipant n ms) st)
              (Participant_HandleTunnelDataMsg aes (mg_i2np (re_mg env)) (re_word env k) (re_addr env k) tt msg (n, ms))
          | TransitTunnelEndpoint ep \<Rightarrow> map_option (\<lambda>ep. put_transit tunnelID (TransitTunnelEndpoint ep) st)
              (Endpoint_HandleTunnelDataMsg aes (re_ep env) (re_addr env k) tt msg ep)
          | TransitTunnelGateway tg \<Rightarrow> Some st) })"

text \<open>
  \<open>HandleTunnelGatewayMsg\<close>: the payload becomes a message of its own, of the length its header says.
  Only a transit gateway sends it; the others log.
\<close>

definition HandleTunnelGatewayMsg :: "run_env \<Rightarrow> tunnel_ptr \<Rightarrow> i2np_msg \<Rightarrow> run_state \<Rightarrow> run_state option" where
  "HandleTunnelGatewayMsg env tunnel msg st = do {
     len \<leftarrow> bufbe16toh (msg_buf msg) (GetPayload msg + TUNNEL_GATEWAY_HEADER_LENGTH_OFFSET);
     let offset = msg_offset msg + I2NP_HEADER_SIZE + TUNNEL_GATEWAY_HEADER_SIZE;
     let msg = msg\<lparr>msg_offset := offset, msg_len := offset + unat len\<rparr>;
     typeID \<leftarrow> GetTypeID msg;
     let st = (if typeID = eI2NPDatabaseStore \<or> typeID = eI2NPDatabaseSearchReply then st\<lparr>rs_netdb := rs_netdb st @ [msg]\<rparr> else st);
     (case tunnel of
        InboundPtr r \<Rightarrow> Some st
      | TransitPtr tunnelID \<Rightarrow> do {
          (_, tt, kind) \<leftarrow> omap_find (tm_transit (rs_tm st)) tunnelID;
          (case kind of
             TransitTunnelGateway tg \<Rightarrow> map_option (\<lambda>tg. put_transit tunnelID (TransitTunnelGateway tg) st) (Gateway_SendTunnelDataMsg (re_gw env) msg tg)
           | _ \<Rightarrow> Some st) }) }"

text \<open>\<open>FlushTunnelDataMsgs\<close>: what a participant or a gateway has collected is sent on.\<close>

definition FlushTunnelDataMsgs :: "run_env \<Rightarrow> tunnel_ptr \<Rightarrow> run_state \<Rightarrow> run_state option" where
  "FlushTunnelDataMsgs env tunnel st = (let k = rs_count st; st = st\<lparr>rs_count := k + 1\<rparr> in
     case tunnel of
       InboundPtr r \<Rightarrow> Some st
     | TransitPtr tunnelID \<Rightarrow> do {
         (_, tt, kind) \<leftarrow> omap_find (tm_transit (rs_tm st)) tunnelID;
         (case kind of
            TransitTunnelParticipant n ms \<Rightarrow>
              (if ms = [] then Some st
               else (case Participant_FlushTunnelDataMsgs (n, ms) of ((n, ms), sent) \<Rightarrow>
                 Some ((put_transit tunnelID (TransitTunnelParticipant n ms) st)\<lparr>rs_sent := rs_sent st @ [(tt_NextIdent tt, sent)]\<rparr>)))
          | TransitTunnelGateway tg \<Rightarrow> do {
              (tg, sent) \<leftarrow> Gateway_FlushTunnelDataMsgs (re_gw env) (mg_i2np (re_mg env)) (re_words env k) (be_aes (mg_build (re_mg env))) tt tg;
              Some ((put_transit tunnelID (TransitTunnelGateway tg) st)\<lparr>rs_sent := rs_sent st @ [(tt_NextIdent tt, sent)]\<rparr>) }
          | TransitTunnelEndpoint ep \<Rightarrow> Some st) })"

text \<open>\<open>HandleI2NPMessage\<close> of a buffer: the build messages; the size is the one in the header.\<close>

definition HandleI2NPBuffer :: "run_env \<Rightarrow> i2np_msg \<Rightarrow> run_state \<Rightarrow> run_state option" where
  "HandleI2NPBuffer env msg st = do {
     typeID \<leftarrow> GetTypeID msg;
     msgID \<leftarrow> GetMsgID msg;
     size \<leftarrow> GetSize msg;
     let buf = drop (GetPayload msg) (msg_buf msg);
     let k = rs_count st;
     let st = st\<lparr>rs_count := k + 1\<rparr>;
     (if typeID = eI2NPVariableTunnelBuild then do {
        (fwd, tm) \<leftarrow> HandleVariableTunnelBuildMsg (re_mg env) (re_ctx env) (re_bytes env k) msgID buf (unat size) (rs_tm st);
        Some (st\<lparr>rs_tm := tm, rs_forward := rs_forward st @ (case fwd of Some f \<Rightarrow> [f] | None \<Rightarrow> [])\<rparr>) }
      else if typeID = eI2NPVariableTunnelBuildReply then do {
        tm \<leftarrow> HandleVariableTunnelBuildReplyMsg (re_mg env) msgID buf (rs_tm st);
        Some (st\<lparr>rs_tm := tm\<rparr>) }
      else if typeID = eI2NPTunnelBuild then do {
        (_, transit, fwd) \<leftarrow> HandleTunnelBuildMsg (mg_build (re_mg env)) ((re_ctx env)\<lparr>rc_numTransit := length (tm_transit (rs_tm st))\<rparr>)
          (re_bytes env k) (take CLEAR_TEXT_SIZE (re_bytes env k)) buf (unat size);
        Some (st\<lparr>rs_tm := (case transit of Some t \<Rightarrow> AddTransitTunnel t (rs_tm st) | None \<Rightarrow> rs_tm st),
          rs_forward := rs_forward st @ (case fwd of Some f \<Rightarrow> [f] | None \<Rightarrow> [])\<rparr>) }
      else Some st) }"

text \<open>One turn of the inner loop of \<open>Run\<close>: the new \<open>tunnelID\<close> and \<open>tunnel\<close>.\<close>

definition run_msg :: "run_env \<Rightarrow> 32 word \<Rightarrow> 32 word \<Rightarrow> tunnel_ptr option \<Rightarrow> i2np_msg \<Rightarrow> run_state \<Rightarrow>
    (32 word \<times> tunnel_ptr option \<times> run_state) option" where
  "run_msg env tunnelID prevTunnelID prevTunnel msg st = do {
     typeID \<leftarrow> GetTypeID msg;
     (if typeID = eI2NPTunnelData \<or> typeID = eI2NPTunnelGateway then do {
        tunnelID \<leftarrow> bufbe32toh (msg_buf msg) (GetPayload msg);
        st \<leftarrow> (if tunnelID = prevTunnelID then Some st
           else (case prevTunnel of Some t \<Rightarrow> FlushTunnelDataMsgs env t st | None \<Rightarrow> Some st));
        let tunnel = (if tunnelID = prevTunnelID then prevTunnel else None);
        let tunnel = (if tunnel = None \<and> typeID = eI2NPTunnelData then map_option InboundPtr (GetInboundTunnel (rs_tm st) tunnelID) else tunnel);
        let tunnel = (if tunnel = None \<and> GetTransitTunnel (rs_tm st) tunnelID \<noteq> None then Some (TransitPtr tunnelID) else tunnel);
        st \<leftarrow> (case tunnel of
             Some t \<Rightarrow> if typeID = eI2NPTunnelData then handle_data env t msg st else HandleTunnelGatewayMsg env t msg st
           | None \<Rightarrow> Some st);
        Some (tunnelID, tunnel, st) }
      else if typeID \<in> {eI2NPVariableTunnelBuild, eI2NPVariableTunnelBuildReply, eI2NPTunnelBuild, eI2NPTunnelBuildReply} then do {
        st \<leftarrow> HandleI2NPBuffer env msg st;
        Some (tunnelID, None, st) }
      else Some (tunnelID, None, st)) }"

text \<open>The inner loop: \<open>prevTunnelID\<close> and \<open>prevTunnel\<close> are set only when another message follows.\<close>

fun run_batch :: "run_env \<Rightarrow> 32 word \<Rightarrow> 32 word \<Rightarrow> tunnel_ptr option \<Rightarrow> i2np_msg list \<Rightarrow> run_state \<Rightarrow> run_state option" where
  "run_batch env tunnelID prevTunnelID prevTunnel [] st = Some st"
| "run_batch env tunnelID prevTunnelID prevTunnel (msg # msgs) st = do {
     (tunnelID, tunnel, st) \<leftarrow> run_msg env tunnelID prevTunnelID prevTunnel msg st;
     if msgs \<noteq> [] then run_batch env tunnelID tunnelID tunnel msgs st
     else (case tunnel of Some t \<Rightarrow> FlushTunnelDataMsgs env t st | None \<Rightarrow> Some st) }"

text \<open>One turn of the outer loop: the batch, and the management every 15 seconds.\<close>

definition run_round :: "run_env \<Rightarrow> i2np_msg list \<Rightarrow> 64 word \<Rightarrow> run_state \<Rightarrow> (64 word \<times> run_state) option" where
  "run_round env msgs lastTs st = do {
     st \<leftarrow> run_batch env 0 0 None msgs st;
     let ts = tm_now (rs_tm st);
     if ts - lastTs \<ge> 15 then do {
       tm \<leftarrow> ManageTunnels (re_mg env) (rs_tm st);
       Some (ts, st\<lparr>rs_tm := tm\<rparr>) }
     else Some (lastTs, st) }"

section \<open>What waits in the transit tunnels\<close>

fun unsent :: "transit_kind \<Rightarrow> bool" where
  "unsent (TransitTunnelParticipant n ms) \<longleftrightarrow> ms \<noteq> []"
| "unsent (TransitTunnelGateway tg) \<longleftrightarrow> gw_TunnelDataMsgs (tg_Buffer tg) \<noteq> [] \<or> gw_CurrentTunnelDataMsg (tg_Buffer tg) \<noteq> None"
| "unsent (TransitTunnelEndpoint ep) \<longleftrightarrow> False"

definition waiting :: "run_state \<Rightarrow> 32 word set" where
  "waiting st = {tunnelID. case omap_find (tm_transit (rs_tm st)) tunnelID of Some (_, _, kind) \<Rightarrow> unsent kind | None \<Rightarrow> False}"

definition ptr_ids :: "tunnel_ptr option \<Rightarrow> 32 word set" where
  "ptr_ids t = (case t of Some (TransitPtr tunnelID) \<Rightarrow> {tunnelID} | _ \<Rightarrow> {})"

lemma waiting_put_transit:
  "waiting (put_transit k kind st) \<subseteq> (if unsent kind then insert k (waiting st) else waiting st - {k})"
  "\<not> unsent kind \<Longrightarrow> k \<notin> waiting (put_transit k kind st)"
  by (auto simp: waiting_def put_transit_def map_of_omap_put split: option.splits if_splits)

lemma waiting_same: "tm_transit (rs_tm st') = tm_transit (rs_tm st) \<Longrightarrow> waiting st' = waiting st"
  by (simp add: waiting_def)

lemma run_state_simps [simp]:
  "waiting (st\<lparr>rs_count := n\<rparr>) = waiting st" "waiting (st\<lparr>rs_netdb := ms\<rparr>) = waiting st" "waiting (st\<lparr>rs_sent := xs\<rparr>) = waiting st"
  "waiting (st\<lparr>rs_forward := fs\<rparr>) = waiting st" "waiting (st\<lparr>rs_endpoint := e\<rparr>) = waiting st"
  by (simp_all add: waiting_def)

lemma tm_transit_data [simp]: "tm_transit (InboundTunnel_data r tm) = tm_transit tm"
  by (simp add: InboundTunnel_data_def SetState_def Let_def)

lemma waiting_sub: "waiting (put_transit k kind st) \<subseteq> insert k (waiting st)"
  using waiting_put_transit(1) [of k kind st] by (auto split: if_splits)

lemma handle_data_waiting:
  assumes "handle_data env t msg st = Some st'"
  shows "waiting st' \<subseteq> waiting st \<union> ptr_ids (Some t)"
proof (cases t)
  case (InboundPtr r)
  then have "tm_transit (rs_tm st') = tm_transit (rs_tm st)" using assms by (auto simp: handle_data_def Let_def split: Option.bind_splits)
  then show ?thesis using waiting_same by blast
next
  case (TransitPtr k)
  then have "st' = st\<lparr>rs_count := rs_count st + 1\<rparr> \<or> (\<exists>kind. st' = put_transit k kind (st\<lparr>rs_count := rs_count st + 1\<rparr>))"
    using assms by (auto simp: handle_data_def Let_def split: Option.bind_splits transit_kind.splits)
  then show ?thesis using waiting_sub [of k _ "st\<lparr>rs_count := rs_count st + 1\<rparr>"] by (auto simp: TransitPtr ptr_ids_def)
qed

lemma HandleTunnelGatewayMsg_waiting:
  assumes "HandleTunnelGatewayMsg env t msg st = Some st'"
  shows "waiting st' \<subseteq> waiting st \<union> ptr_ids (Some t)"
proof
  fix x
  assume "x \<in> waiting st'"
  moreover have "waiting (if b then st\<lparr>rs_netdb := ms\<rparr> else st) = waiting st" for b ms by simp
  ultimately show "x \<in> waiting st \<union> ptr_ids (Some t)"
    using assms by (auto simp: HandleTunnelGatewayMsg_def Let_def ptr_ids_def dest!: waiting_sub [THEN subsetD]
        split: Option.bind_splits transit_kind.splits tunnel_ptr.splits)
qed

lemma SendBuffer_empties: "SendBuffer genv env rnd encrypt tg = Some (tg', ms) \<Longrightarrow> \<not> unsent (TransitTunnelGateway tg')"
  by (auto simp: SendBuffer_def CompleteCurrentTunnelDataMessage_def ClearTunnelDataMsgs_def Let_def split: Option.bind_splits option.splits if_splits)

lemma FlushTunnelDataMsgs_waiting:
  assumes "FlushTunnelDataMsgs env t st = Some st'"
  shows "waiting st' \<subseteq> waiting st - ptr_ids (Some t)"
proof (cases t)
  case (InboundPtr r)
  then show ?thesis using assms by (auto simp: FlushTunnelDataMsgs_def Let_def ptr_ids_def)
next
  case (TransitPtr k)
  let ?s = "st\<lparr>rs_count := rs_count st + 1\<rparr>"
  obtain c tt kind where e: "omap_find (tm_transit (rs_tm st)) k = Some (c, tt, kind)"
    using assms TransitPtr by (auto simp: FlushTunnelDataMsgs_def Let_def split: Option.bind_splits)
  have "st' = ?s \<and> \<not> unsent kind \<or> (\<exists>kind' xs. \<not> unsent kind' \<and> st' = (put_transit k kind' ?s)\<lparr>rs_sent := xs\<rparr>)"
  proof (cases kind)
    case (TransitTunnelGateway tg)
    then obtain tg' sent where g: "Gateway_FlushTunnelDataMsgs (re_gw env) (mg_i2np (re_mg env)) (re_words env (rs_count st))
        (be_aes (mg_build (re_mg env))) tt tg = Some (tg', sent)"
      and st': "st' = (put_transit k (TransitTunnelGateway tg') ?s)\<lparr>rs_sent := rs_sent st @ [(tt_NextIdent tt, sent)]\<rparr>"
      using assms e TransitPtr by (auto simp: FlushTunnelDataMsgs_def Let_def split: Option.bind_splits)
    have "\<not> unsent (TransitTunnelGateway tg')" using g unfolding Gateway_FlushTunnelDataMsgs_def by (rule SendBuffer_empties)
    then show ?thesis using st' by blast
  next
    case (TransitTunnelParticipant n ms)
    have "\<not> unsent (TransitTunnelParticipant n [])" by simp
    then show ?thesis using assms e TransitPtr TransitTunnelParticipant
      by (fastforce simp: FlushTunnelDataMsgs_def Let_def Participant_FlushTunnelDataMsgs_def split: if_splits)
  qed (use assms e TransitPtr in \<open>simp add: FlushTunnelDataMsgs_def Let_def\<close>)
  then show ?thesis
  proof
    assume a: "st' = ?s \<and> \<not> unsent kind"
    then have "k \<notin> waiting st" using e by (simp add: waiting_def)
    then show ?thesis using a by (simp add: ptr_ids_def TransitPtr)
  next
    assume "\<exists>kind' xs. \<not> unsent kind' \<and> st' = (put_transit k kind' ?s)\<lparr>rs_sent := xs\<rparr>"
    then obtain kind' xs where k: "\<not> unsent kind'" "st' = (put_transit k kind' ?s)\<lparr>rs_sent := xs\<rparr>" by blast
    have "waiting st' = waiting (put_transit k kind' ?s)" using k(2) by simp
    also have "\<dots> \<subseteq> waiting ?s - {k}" using waiting_put_transit(1) [of k kind' ?s] k(1) by simp
    finally show ?thesis by (simp add: ptr_ids_def TransitPtr)
  qed
qed

definition tunnel_msg :: "i2np_msg \<Rightarrow> bool" where
  "tunnel_msg msg \<longleftrightarrow> GetTypeID msg = Some eI2NPTunnelData \<or> GetTypeID msg = Some eI2NPTunnelGateway"

lemma run_msg_waiting:
  assumes "tunnel_msg msg" and "run_msg env tunnelID prevID prev msg st = Some (tunnelID', tunnel, st')" and "waiting st \<subseteq> ptr_ids prev"
  shows "waiting st' \<subseteq> ptr_ids tunnel"
proof -
  obtain typeID where ty: "GetTypeID msg = Some typeID" "typeID = eI2NPTunnelData \<or> typeID = eI2NPTunnelGateway"
    using assms(1) by (auto simp: tunnel_msg_def)
  obtain tid s where tid: "bufbe32toh (msg_buf msg) (GetPayload msg) = Some tid"
    and s: "(if tid = prevID then Some st else (case prev of Some t \<Rightarrow> FlushTunnelDataMsgs env t st | None \<Rightarrow> Some st)) = Some s"
    using assms(2) ty by (auto simp only: run_msg_def Let_def if_True simp_thms split: Option.bind_splits)
  define t0 where "t0 = (if tid = prevID then prev else None)"
  define t1 where "t1 = (if t0 = None \<and> typeID = eI2NPTunnelData then map_option InboundPtr (GetInboundTunnel (rs_tm s) tid) else t0)"
  define t where "t = (if t1 = None \<and> GetTransitTunnel (rs_tm s) tid \<noteq> None then Some (TransitPtr tid) else t1)"
  have t: "tunnel = t" "tid = prevID \<Longrightarrow> prev \<noteq> None \<Longrightarrow> t = prev"
    and st': "(case t of Some t \<Rightarrow> if typeID = eI2NPTunnelData then handle_data env t msg s else HandleTunnelGatewayMsg env t msg s | None \<Rightarrow> Some s) = Some st'"
    using assms(2) unfolding run_msg_def ty(1) tid Option.bind.bind_lunit if_P [OF ty(2)] s Let_def t0_def [symmetric] t1_def [symmetric] t_def [symmetric]
    by (auto simp: t_def t1_def t0_def split: Option.bind_splits)
  have w: "waiting s \<subseteq> (if tid = prevID then ptr_ids prev else {})"
  proof (cases "tid = prevID")
    case False
    show ?thesis
    proof (cases prev)
      case None
      then show ?thesis using s False assms(3) by (simp add: ptr_ids_def)
    next
      case (Some p)
      then show ?thesis using s False assms(3) FlushTunnelDataMsgs_waiting [of env p st s] by auto
    qed
  qed (use s assms(3) in simp)
  have w2: "waiting s \<subseteq> ptr_ids t"
  proof (cases "tid = prevID \<and> prev \<noteq> None")
    case True
    then show ?thesis using w t(2) by simp
  next
    case False
    then show ?thesis using w by (auto simp: ptr_ids_def split: if_splits)
  qed
  show ?thesis
  proof (cases t)
    case (Some u)
    then show ?thesis using st' w2 handle_data_waiting [of env u msg s st'] HandleTunnelGatewayMsg_waiting [of env u msg s st'] t(1)
      by (auto split: if_splits)
  qed (use st' w2 t(1) in simp)
qed

lemma run_batch_waiting:
  assumes "\<forall>msg \<in> set msgs. tunnel_msg msg" and "run_batch env tunnelID prevID prev msgs st = Some st'" and "waiting st \<subseteq> ptr_ids prev"
    and "msgs = [] \<Longrightarrow> waiting st = {}"
  shows "waiting st' = {}"
  using assms
proof (induction msgs arbitrary: tunnelID prevID prev st)
  case (Cons msg msgs)
  obtain tid t s where m: "run_msg env tunnelID prevID prev msg st = Some (tid, t, s)"
    and r: "(if msgs \<noteq> [] then run_batch env tid tid t msgs s else (case t of Some t \<Rightarrow> FlushTunnelDataMsgs env t s | None \<Rightarrow> Some s)) = Some st'"
    using Cons.prems(2) by (auto split: Option.bind_splits)
  have w: "waiting s \<subseteq> ptr_ids t" by (rule run_msg_waiting [OF _ m Cons.prems(3)]) (use Cons.prems(1) in simp)
  show ?case
  proof (cases "msgs = []")
    case True
    show ?thesis
    proof (cases t)
      case None
      then show ?thesis using r True w by (simp add: ptr_ids_def)
    next
      case (Some u)
      then show ?thesis using r True w FlushTunnelDataMsgs_waiting [of env u s st'] by auto
    qed
  qed (use Cons.IH [OF _ _ w] Cons.prems(1) r in auto)
qed simp

section \<open>Relaying\<close>

text \<open>The participants of the router, with what they have collected.\<close>

definition participant :: "run_state \<Rightarrow> 32 word \<Rightarrow> (transit_tunnel \<times> i2np_msg list) option" where
  "participant st k = (case omap_find (tm_transit (rs_tm st)) k of Some (_, tt, TransitTunnelParticipant n ms) \<Rightarrow> Some (tt, ms) | _ \<Rightarrow> None)"

definition routes :: "run_state \<Rightarrow> 32 word \<Rightarrow> transit_tunnel option" where
  "routes st k = map_option fst (participant st k)"

text \<open>What is sent, message by message, with the router it goes to; and what is still collected for the current tunnel.\<close>

definition flat :: "(ident_hash \<times> i2np_msg list) list \<Rightarrow> (ident_hash \<times> i2np_msg) list" where
  "flat xs = concat (map (\<lambda>(i, ms). map (Pair i) ms) xs)"

definition collected :: "run_state \<Rightarrow> tunnel_ptr option \<Rightarrow> (ident_hash \<times> i2np_msg) list" where
  "collected st t = (case t of Some (TransitPtr k) \<Rightarrow> (case participant st k of Some (tt, q) \<Rightarrow> map (Pair (tt_NextIdent tt)) q | None \<Rightarrow> []) | _ \<Rightarrow> [])"

definition relayed :: "aes_env \<Rightarrow> (32 word \<Rightarrow> transit_tunnel option) \<Rightarrow> i2np_msg \<Rightarrow> ident_hash \<times> i2np_msg \<Rightarrow> bool" where
  "relayed aes R msg out \<longleftrightarrow> (\<exists>k tt pl. bufbe32toh (msg_buf msg) (GetPayload msg) = Some k \<and> R k = Some tt \<and> fst out = tt_NextIdent tt \<and>
     wire_msg msg pl \<and> wire_msg (snd out) (be_bytes 4 (unat (tt_NextTunnelID tt)) @ TunnelEncryption_Encrypt aes (tt_Encryption tt) (drop 4 pl)))"

text \<open>A tunnel data message for a participant.\<close>

definition for_participant :: "(32 word \<Rightarrow> transit_tunnel option) \<Rightarrow> (32 word \<Rightarrow> nat option) \<Rightarrow> i2np_msg \<Rightarrow> bool" where
  "for_participant R N msg \<longleftrightarrow> GetTypeID msg = Some eI2NPTunnelData \<and> (\<exists>pl. wire_msg msg pl) \<and>
     (\<exists>k. bufbe32toh (msg_buf msg) (GetPayload msg) = Some k \<and> R k \<noteq> None \<and> N k = None)"

lemma participant_put:
  assumes "participant st k = Some (tt, q)"
  shows "participant (put_transit k (TransitTunnelParticipant n ms) st) = (participant st)(k \<mapsto> (tt, ms))"
  using assms by (auto simp: participant_def put_transit_def map_of_omap_put fun_eq_iff split: option.splits transit_kind.splits)

lemma participant_simps [simp]:
  "participant (st\<lparr>rs_count := n\<rparr>) = participant st" "participant (st\<lparr>rs_sent := xs\<rparr>) = participant st"
  "rs_sent (put_transit k kind st) = rs_sent st" "tm_inbound (rs_tm (put_transit k kind st)) = tm_inbound (rs_tm st)"
  by (auto simp: participant_def put_transit_def fun_eq_iff split: option.splits)

lemma handle_data_relay:
  assumes aes: "aes_ok (be_aes (mg_build (re_mg env)))" and p: "participant st k = Some (tt, q)" and m: "wire_msg msg pl"
  shows "\<exists>st' m'. handle_data env (TransitPtr k) msg st = Some st' \<and> participant st' = (participant st)(k \<mapsto> (tt, q @ [m'])) \<and>
    rs_sent st' = rs_sent st \<and> tm_inbound (rs_tm st') = tm_inbound (rs_tm st) \<and>
    wire_msg m' (be_bytes 4 (unat (tt_NextTunnelID tt)) @ TunnelEncryption_Encrypt (be_aes (mg_build (re_mg env))) (tt_Encryption tt) (drop 4 pl))"
proof -
  obtain c n where e: "omap_find (tm_transit (rs_tm st)) k = Some (c, tt, TransitTunnelParticipant n q)"
    using p by (auto simp: participant_def split: option.splits transit_kind.splits)
  obtain m' where m': "Participant_HandleTunnelDataMsg (be_aes (mg_build (re_mg env))) (mg_i2np (re_mg env)) (re_word env (rs_count st)) (re_addr env (rs_count st)) tt msg (n, q)
      = Some (n + 1044, q @ [m'])"
    "wire_msg m' (be_bytes 4 (unat (tt_NextTunnelID tt)) @ TunnelEncryption_Encrypt (be_aes (mg_build (re_mg env))) (tt_Encryption tt) (drop 4 pl))"
    using Participant_wire [OF aes m, of "mg_i2np (re_mg env)" "re_word env (rs_count st)" "re_addr env (rs_count st)" tt "(n, q)"] by auto
  have "participant (st\<lparr>rs_count := rs_count st + 1\<rparr>) k = Some (tt, q)" using p by simp
  note pp = participant_put [OF this]
  show ?thesis
    by (rule exI [of _ "put_transit k (TransitTunnelParticipant (n + 1044) (q @ [m'])) (st\<lparr>rs_count := rs_count st + 1\<rparr>)"], rule exI [of _ m'])
      (use e m' pp in \<open>simp add: handle_data_def Let_def\<close>)
qed

lemma Flush_relay:
  assumes p: "participant st k = Some (tt, q)"
  shows "\<exists>st'. FlushTunnelDataMsgs env (TransitPtr k) st = Some st' \<and> participant st' = (participant st)(k \<mapsto> (tt, [])) \<and>
    flat (rs_sent st') = flat (rs_sent st) @ map (Pair (tt_NextIdent tt)) q \<and> tm_inbound (rs_tm st') = tm_inbound (rs_tm st)"
proof -
  obtain c n where e: "omap_find (tm_transit (rs_tm st)) k = Some (c, tt, TransitTunnelParticipant n q)"
    using p by (auto simp: participant_def split: option.splits transit_kind.splits)
  let ?s = "st\<lparr>rs_count := rs_count st + 1\<rparr>"
  have "participant ?s k = Some (tt, q)" using p by simp
  note pp = participant_put [OF this, of n "[]"]
  show ?thesis
  proof (cases "q = []")
    case True
    then have "(participant st)(k \<mapsto> (tt, [])) = participant st" using p by auto
    then show ?thesis using e True by (simp add: FlushTunnelDataMsgs_def Let_def)
  next
    case False
    then show ?thesis using e pp by (simp add: FlushTunnelDataMsgs_def Let_def Participant_FlushTunnelDataMsgs_def flat_def)
  qed
qed

definition relaying :: "(32 word \<Rightarrow> transit_tunnel option) \<Rightarrow> (32 word \<Rightarrow> nat option) \<Rightarrow> 32 word \<Rightarrow> tunnel_ptr option \<Rightarrow> run_state \<Rightarrow> bool" where
  "relaying R N prevID prev st \<longleftrightarrow> routes st = R \<and> GetInboundTunnel (rs_tm st) = N \<and>
     (\<forall>k tt q. participant st k = Some (tt, q) \<longrightarrow> q \<noteq> [] \<longrightarrow> prev = Some (TransitPtr k)) \<and>
     (\<forall>t. prev = Some t \<longrightarrow> t = TransitPtr prevID \<and> R prevID \<noteq> None)"

lemma relaying_flush:
  assumes r: "relaying R N prevID prev st"
  shows "\<exists>s. (case prev of Some t \<Rightarrow> FlushTunnelDataMsgs env t st | None \<Rightarrow> Some st) = Some s \<and> relaying R N prevID None s \<and>
    flat (rs_sent s) = flat (rs_sent st) @ collected st prev"
proof (cases prev)
  case None
  then show ?thesis using r by (auto simp: relaying_def collected_def)
next
  case (Some t)
  then have t: "t = TransitPtr prevID" and "R prevID \<noteq> None" using r by (auto simp: relaying_def)
  then obtain tt q where p: "participant st prevID = Some (tt, q)" using r by (auto simp: relaying_def routes_def)
  obtain s where s: "FlushTunnelDataMsgs env (TransitPtr prevID) st = Some s" "participant s = (participant st)(prevID \<mapsto> (tt, []))"
    "flat (rs_sent s) = flat (rs_sent st) @ map (Pair (tt_NextIdent tt)) q" "tm_inbound (rs_tm s) = tm_inbound (rs_tm st)"
    using Flush_relay [OF p] by blast
  have "routes s = routes st" using p by (auto simp: routes_def s(2) fun_eq_iff)
  moreover have "q' = []" if "participant s k = Some (tt', q')" for k tt' q'
    using that r Some t by (auto simp: s(2) relaying_def split: if_splits)
  ultimately have "relaying R N prevID None s" using r s(4) by (auto simp: relaying_def GetInboundTunnel_def fun_eq_iff)
  then show ?thesis using s Some t p by (simp add: collected_def)
qed

lemma run_msg_relay:
  assumes aes: "aes_ok (be_aes (mg_build (re_mg env)))" and r: "relaying R N prevID prev st" and m: "for_participant R N msg"
  shows "\<exists>k st' out. run_msg env tunnelID prevID prev msg st = Some (k, Some (TransitPtr k), st') \<and> relaying R N k (Some (TransitPtr k)) st' \<and>
    flat (rs_sent st') @ collected st' (Some (TransitPtr k)) = flat (rs_sent st) @ collected st prev @ [out] \<and>
    relayed (be_aes (mg_build (re_mg env))) R msg out"
proof -
  obtain k pl where ty: "GetTypeID msg = Some eI2NPTunnelData" and w: "wire_msg msg pl"
    and k: "bufbe32toh (msg_buf msg) (GetPayload msg) = Some k" "R k \<noteq> None" "N k = None"
    using m by (auto simp: for_participant_def)
  obtain s where s: "(if k = prevID then Some st else (case prev of Some t \<Rightarrow> FlushTunnelDataMsgs env t st | None \<Rightarrow> Some st)) = Some s"
    and rs: "relaying R N k (if k = prevID then prev else None) s"
    and fl: "flat (rs_sent s) @ collected s (if k = prevID then prev else None) = flat (rs_sent st) @ collected st prev"
  proof (cases "k = prevID")
    case True
    then show ?thesis using that [of st] r by simp
  next
    case False
    obtain s where "(case prev of Some t \<Rightarrow> FlushTunnelDataMsgs env t st | None \<Rightarrow> Some st) = Some s" "relaying R N prevID None s"
      "flat (rs_sent s) = flat (rs_sent st) @ collected st prev"
      using relaying_flush [OF r] by blast
    then show ?thesis using that [of s] False by (simp add: relaying_def collected_def)
  qed
  obtain tt q where p: "participant s k = Some (tt, q)" using rs k(2) by (auto simp: relaying_def routes_def)
  let ?prev = "if k = prevID then prev else None"
  have tr: "GetTransitTunnel (rs_tm s) k \<noteq> None" using p by (auto simp: participant_def GetTransitTunnel_def split: option.splits)
  have ni: "GetInboundTunnel (rs_tm s) k = None" using rs k(3) by (simp add: relaying_def)
  have pv: "?prev = None \<or> ?prev = Some (TransitPtr k)" using rs by (cases ?prev) (auto simp: relaying_def)
  have q0: "?prev = None \<Longrightarrow> q = []" using rs p by (auto simp: relaying_def)
  obtain st' m' where h: "handle_data env (TransitPtr k) msg s = Some st'" "participant st' = (participant s)(k \<mapsto> (tt, q @ [m']))"
    "rs_sent st' = rs_sent s" "tm_inbound (rs_tm st') = tm_inbound (rs_tm s)"
    "wire_msg m' (be_bytes 4 (unat (tt_NextTunnelID tt)) @ TunnelEncryption_Encrypt (be_aes (mg_build (re_mg env))) (tt_Encryption tt) (drop 4 pl))"
    using handle_data_relay [OF aes p w] by blast
  have run: "run_msg env tunnelID prevID prev msg st = Some (k, Some (TransitPtr k), st')"
    unfolding run_msg_def ty k(1) Option.bind.bind_lunit s if_P [OF disjI1 [OF refl [of eI2NPTunnelData]]] Let_def
    using pv ni tr h(1) by auto
  have "routes st' = routes s" using p by (auto simp: routes_def h(2) fun_eq_iff)
  then have rel: "relaying R N k (Some (TransitPtr k)) st'"
    using rs h(4) k(2) pv by (auto simp: relaying_def GetInboundTunnel_def h(2) fun_eq_iff split: if_splits)
  have "collected st' (Some (TransitPtr k)) = collected s ?prev @ [(tt_NextIdent tt, m')]"
    using pv q0 p by (auto simp: collected_def h(2))
  moreover have "R k = Some tt" using rs p by (auto simp: relaying_def routes_def)
  then have "relayed (be_aes (mg_build (re_mg env))) R msg (tt_NextIdent tt, m')"
    using k(1) w h(5) by (auto simp: relayed_def)
  ultimately show ?thesis using run rel fl h(3) by (metis append.assoc)
qed

lemma run_batch_relay:
  assumes aes: "aes_ok (be_aes (mg_build (re_mg env)))" and "relaying R N prevID prev st" and "\<forall>msg \<in> set msgs. for_participant R N msg" and "msgs \<noteq> []"
  shows "\<exists>st' outs. run_batch env tunnelID prevID prev msgs st = Some st' \<and> relaying R N 0 None st' \<and>
    flat (rs_sent st') = flat (rs_sent st) @ collected st prev @ outs \<and> list_all2 (relayed (be_aes (mg_build (re_mg env))) R) msgs outs"
  using assms(2-)
proof (induction msgs arbitrary: tunnelID prevID prev st)
  case (Cons msg msgs)
  obtain k s out where m: "run_msg env tunnelID prevID prev msg st = Some (k, Some (TransitPtr k), s)" and r: "relaying R N k (Some (TransitPtr k)) s"
    and f: "flat (rs_sent s) @ collected s (Some (TransitPtr k)) = flat (rs_sent st) @ collected st prev @ [out]"
    and o': "relayed (be_aes (mg_build (re_mg env))) R msg out"
    using run_msg_relay [OF aes Cons.prems(1), of msg tunnelID] Cons.prems(2) by auto
  show ?case
  proof (cases "msgs = []")
    case True
    obtain s' where "FlushTunnelDataMsgs env (TransitPtr k) s = Some s'" "relaying R N k None s'"
      "flat (rs_sent s') = flat (rs_sent s) @ collected s (Some (TransitPtr k))"
      using relaying_flush [OF r] by auto
    then show ?thesis using m True f o' by (intro exI [of _ s'] exI [of _ "[out]"]) (simp add: relaying_def)
  next
    case False
    obtain st' outs where "run_batch env k k (Some (TransitPtr k)) msgs s = Some st'" "relaying R N 0 None st'"
      "flat (rs_sent st') = flat (rs_sent s) @ collected s (Some (TransitPtr k)) @ outs" "list_all2 (relayed (be_aes (mg_build (re_mg env))) R) msgs outs"
      using Cons.IH [OF r _ False, of k] Cons.prems(2) by auto
    then show ?thesis using m False f o' by (intro exI [of _ st'] exI [of _ "out # outs"]) simp
  qed
qed simp

lemma tm_transit_simps [simp]:
  "tm_transit (SetState r s st) = tm_transit st" "tm_transit (SetTunnelPool r q st) = tm_transit st"
  "tm_transit (TunnelCreated env p r st) = tm_transit st" "tm_transit (AddOutboundTunnel env r st) = tm_transit st"
  by (auto simp: SetState_def SetTunnelPool_def TunnelCreated_def AddOutboundTunnel_def lease_set_updated_def Let_def split: option.splits)

lemma fold_emit_transit: "tm_transit (fold (\<lambda>(x, y). tm_emit (f x y)) xs st) = tm_transit st"
  by (induction xs arbitrary: st) auto

lemma build_response_transit: "build_response env r buf st = Some (e, st') \<Longrightarrow> tm_transit st' = tm_transit st"
  by (auto simp: build_response_def Let_def fold_emit_transit split: Option.bind_splits)

lemma GetPendingTunnel_transit: "GetPendingTunnel mid ps st = (t, st') \<Longrightarrow> tm_transit st' = tm_transit st"
  by (auto simp: GetPendingTunnel_def split: option.splits if_splits)

lemma AddInboundTunnel_transit:
  assumes "AddInboundTunnel env r st = Some st'"
  shows "tm_transit st' = tm_transit st"
proof -
  let ?s = "st\<lparr>tm_inbound := omap_put (GetTunnelID (tm_mem st r)) r (tm_inbound st)\<rparr>"
  show ?thesis
  proof (cases "tn_pool (tm_mem st r)")
    case None
    obtain ot s1 where s1: "Tunnels_GetNextOutboundTunnel env ?s = (ot, s1)" by (cases "Tunnels_GetNextOutboundTunnel env ?s")
    have "map_option snd (CreateTunnel env False (invert_config env s1 (tn_hops (tm_mem s1 r))) ot s1) = Some st'"
      using assms None s1 by (simp add: AddInboundTunnel_def Let_def)
    then have "good_step s1 st'" using CreateTunnel_snd_good configs_not_empty(3) by blast
    then show ?thesis using selecting_good(1) [OF s1] by (simp add: good_step_def extends_def)
  qed (use assms in \<open>auto simp: AddInboundTunnel_def Let_def split: if_splits\<close>)
qed

lemma map_of_omap_insert: "map_of m k = Some v \<Longrightarrow> map_of (omap_insert k' v' m) k = Some v"
  by (auto simp: omap_insert_def map_of_omap_put)

lemma HandleVariableTunnelBuildReplyMsg_transit:
  assumes "HandleVariableTunnelBuildReplyMsg env mid buf st = Some st'"
  shows "tm_transit st' = tm_transit st"
proof -
  obtain t s where g: "GetPendingTunnel mid (tm_pendingOutbound st) st = (t, s)" by (cases "GetPendingTunnel mid (tm_pendingOutbound st) st")
  show ?thesis
    using assms g GetPendingTunnel_transit [OF g]
    by (auto simp: HandleVariableTunnelBuildReplyMsg_def GetPendingOutboundTunnel_def dest!: build_response_transit split: option.splits Option.bind_splits)
qed

lemma HandleVariableTunnelBuildMsg_transit:
  assumes "HandleVariableTunnelBuildMsg env ctx rnd mid buf len st = Some (fwd, st')" and "map_of (tm_transit st) k = Some v"
  shows "map_of (tm_transit st') k = Some v"
proof -
  obtain t s where g: "GetPendingTunnel mid (tm_pendingInbound st) st = (t, s)" by (cases "GetPendingTunnel mid (tm_pendingInbound st) st")
  show ?thesis
    using assms g GetPendingTunnel_transit [OF g]
    by (auto simp: HandleVariableTunnelBuildMsg_def GetPendingInboundTunnel_def AddTransitTunnel_def dest!: build_response_transit AddInboundTunnel_transit
        intro: map_of_omap_insert split: option.splits Option.bind_splits if_splits)
qed

lemma HandleI2NPBuffer_transit:
  assumes "HandleI2NPBuffer env msg st = Some st'" and "map_of (tm_transit (rs_tm st)) k = Some v"
  shows "map_of (tm_transit (rs_tm st')) k = Some v" "rs_sent st' = rs_sent st"
  using assms
  by (auto simp: HandleI2NPBuffer_def Let_def AddTransitTunnel_def dest!: HandleVariableTunnelBuildReplyMsg_transit
      intro: HandleVariableTunnelBuildMsg_transit map_of_omap_insert split: option.splits Option.bind_splits if_splits)

section \<open>What the tunnel thread guarantees\<close>


text \<open>A participant and a message for it.\<close>

definition relay_transit :: transit_tunnel where "relay_transit = TransitTunnel 5 (replicate 32 2) 6 [1] [2]"

definition relay_state :: run_state where
  "relay_state = \<lparr>rs_tm = (Tunnels_new 1000)\<lparr>tm_transit := [(5, 900, relay_transit, TransitTunnelParticipant 0 [])]\<rparr>,
     rs_endpoint = (\<lambda>_. TunnelEndpoint True), rs_netdb = [], rs_sent = [], rs_forward = [], rs_count = 0\<rparr>"

definition relay_env :: run_env where
  "relay_env = \<lparr>re_mg = \<lparr>mg_build = \<lparr>be_dh = \<lparr>dh_p = 1, dh_g = 0\<rparr>, be_sha256 = (\<lambda>_. replicate 32 9), be_aes = xor_aes\<rparr>, mg_i2np = sample_env,
       mg_own = \<lparr>rr_ident = [], rr_encryptionKey = []\<rparr>, mg_addr = id, mg_draws = (\<lambda>_. \<lparr>bd_rnd = 0, bd_addr = 0, bd_exponents = [], bd_indices = [], bd_words = [], bd_fakes = []\<rparr>),
       mg_hop_rnd = (\<lambda>_. \<lparr>hr_layerKey = [], hr_ivKey = [], hr_replyIV = [], hr_tunnelID = 0, hr_nextTunnelID = 0, hr_replyKey = []\<rparr>), mg_hop_rnds = (\<lambda>_ _. []),
       mg_word = (\<lambda>_. 0), mg_range = (\<lambda>_ _. 0), mg_shuffle = (\<lambda>_ _. []), mg_router = (\<lambda>_ _. None), mg_highBandwidth = (\<lambda>_ _. None),
       mg_find = (\<lambda>_. None), mg_isBad = (\<lambda>_. False), mg_numPeers = 0, mg_peer = (\<lambda>_. None)\<rparr>,
     re_ep = sample_eenv, re_gw = sample_genv, re_ctx = \<lparr>rc_ident = [], rc_priv = [], rc_acceptsTunnels = False, rc_numTransit = 0, rc_bandwidthExceeded = False\<rparr>,
     re_word = (\<lambda>_. 0), re_words = (\<lambda>_ _. 0), re_bytes = (\<lambda>_. []), re_addr = (\<lambda>_. 0)\<rparr>"

definition relay_message :: "byte \<Rightarrow> i2np_msg" where
  "relay_message typeID = \<lparr>msg_buf = [typeID] @ replicate 15 0 @ [0, 0, 0, 5] @ replicate 1024 7, msg_base = 0, msg_len = 1044, msg_offset = 0,
     msg_maxLen = 1044, msg_from = None\<rparr>"

lemma relay_samples:
  "aes_ok (be_aes (mg_build (re_mg relay_env)))" "participant relay_state k = (if k = 5 then Some (relay_transit, []) else None)"
  "for_participant (routes relay_state) (GetInboundTunnel (rs_tm relay_state)) (relay_message 18)"
proof -
  show "aes_ok (be_aes (mg_build (re_mg relay_env)))" by (simp add: relay_env_def xor_aes_ok)
  show "participant relay_state k = (if k = 5 then Some (relay_transit, []) else None)" for k
    by (simp add: participant_def relay_state_def)
  then have r: "routes relay_state 5 \<noteq> None" by (simp add: routes_def)
  have w: "wire_msg (relay_message 18) ([0, 0, 0, 5] @ replicate 1024 7)"
    by (simp add: wire_msg_def has_header_def msg_payload_def relay_message_def window_def I2NP_HEADER_SIZE_def i2np_consts)
  have t: "GetTypeID (relay_message 18) = Some eI2NPTunnelData"
    by (simp add: GetTypeID_def relay_message_def mem_read_def i2np_consts GetBuffer_def)
  have k: "bufbe32toh (msg_buf (relay_message 18)) (GetPayload (relay_message 18)) = Some 5"
    by (simp add: relay_message_def bufbe32toh_be_val mem_read_def GetPayload_def GetBuffer_def i2np_consts be_val_def)
  show "for_participant (routes relay_state) (GetInboundTunnel (rs_tm relay_state)) (relay_message 18)"
    using r w t k by (auto simp: for_participant_def GetInboundTunnel_def relay_state_def Tunnels_new_def)
qed


text \<open>
  C40: a message that follows another kind of message in the same batch is late. After a message for a
  participant, a build message (or one of an unexpected type) makes the thread forget the tunnel
  without flushing it: when the batch ends, nothing has been sent and the message is still in the
  tunnel.
\<close>

theorem build_message_delays:
  assumes "aes_ok (be_aes (mg_build (re_mg env)))" and "for_participant (routes st) (GetInboundTunnel (rs_tm st)) msg"
    and "bufbe32toh (msg_buf msg) (GetPayload msg) = Some k" and "GetTypeID other = Some t" and "t \<notin> {eI2NPTunnelData, eI2NPTunnelGateway}"
    and "run_batch env 0 0 None [msg, other] st = Some st'" and "\<forall>k tt q. participant st k = Some (tt, q) \<longrightarrow> q = []"
  shows "rs_sent st' = rs_sent st \<and> (\<exists>tt m. participant st' k = Some (tt, [m]))"
proof -
  have r: "relaying (routes st) (GetInboundTunnel (rs_tm st)) 0 None st" using assms(7) by (auto simp: relaying_def)
  obtain tt where tt: "participant st k = Some (tt, [])" using assms(2,3,7) by (auto simp: for_participant_def routes_def)
  have ty: "GetTypeID msg = Some eI2NPTunnelData" and ni: "GetInboundTunnel (rs_tm st) k = None"
    using assms(2,3) by (auto simp: for_participant_def)
  obtain pl where w: "wire_msg msg pl" using assms(2) by (auto simp: for_participant_def)
  obtain s m where h: "handle_data env (TransitPtr k) msg st = Some s" "participant s = (participant st)(k \<mapsto> (tt, [m]))" "rs_sent s = rs_sent st"
    using handle_data_relay [OF assms(1) tt w] by auto
  have tr: "GetTransitTunnel (rs_tm st) k \<noteq> None" using tt by (auto simp: participant_def GetTransitTunnel_def split: option.splits)
  have m: "run_msg env 0 0 None msg st = Some (k, Some (TransitPtr k), s)"
    unfolding run_msg_def ty assms(3) Option.bind.bind_lunit if_P [OF disjI1 [OF refl [of eI2NPTunnelData]]] Let_def
    using ni tr h(1) by auto
  obtain s' where o': "run_msg env k k (Some (TransitPtr k)) other s = Some (k, None, s')" and st': "st' = s'" and s': "s' = s \<or> HandleI2NPBuffer env other s = Some s'"
    using assms(4,5,6) m by (auto simp: run_msg_def split: Option.bind_splits if_splits)
  have "participant s k = Some (tt, [m])" by (simp add: h(2))
  then obtain c n where e: "map_of (tm_transit (rs_tm s)) k = Some (c, tt, TransitTunnelParticipant n [m])"
    by (auto simp: participant_def split: option.splits transit_kind.splits)
  have "map_of (tm_transit (rs_tm s')) k = Some (c, tt, TransitTunnelParticipant n [m]) \<and> rs_sent s' = rs_sent s"
    using s' HandleI2NPBuffer_transit [OF _ e] e by auto
  then show ?thesis using st' h(3) by (auto simp: participant_def)
qed

theorem build_message_delays_witness:
  "\<exists>st' tt m. run_batch relay_env 0 0 None [relay_message 18, relay_message 22] relay_state = Some st' \<and> rs_sent st' = [] \<and>
     participant st' 5 = Some (tt, [m])"
proof -
  have k: "bufbe32toh (msg_buf (relay_message 18)) (GetPayload (relay_message 18)) = Some 5"
    by (simp add: relay_message_def bufbe32toh_be_val mem_read_def GetPayload_def GetBuffer_def i2np_consts be_val_def)
  have t: "GetTypeID (relay_message 22) = Some 22" by (simp add: GetTypeID_def relay_message_def mem_read_def i2np_consts GetBuffer_def)
  have e: "\<forall>k tt q. participant relay_state k = Some (tt, q) \<longrightarrow> q = []" by (simp add: relay_samples(2) split: if_splits)
  have r: "relaying (routes relay_state) (GetInboundTunnel (rs_tm relay_state)) 0 None relay_state" using e by (auto simp: relaying_def)
  obtain k1 s out where s: "run_msg relay_env 0 0 None (relay_message 18) relay_state = Some (k1, Some (TransitPtr k1), s)"
    using run_msg_relay [OF relay_samples(1) r relay_samples(3)] by blast
  have "\<exists>id sz. GetMsgID (relay_message 22) = Some id \<and> GetSize (relay_message 22) = Some sz"
    by (simp add: relay_message_def GetMsgID_def GetSize_def bufbe32toh_be_val bufbe16toh_be_val mem_read_def i2np_consts GetBuffer_def)
  then have "run_msg relay_env k1 k1 (Some (TransitPtr k1)) (relay_message 22) s = Some (k1, None, s\<lparr>rs_count := rs_count s + 1\<rparr>)"
    using t by (auto simp: run_msg_def HandleI2NPBuffer_def i2np_consts)
  then obtain st' where st': "run_batch relay_env 0 0 None [relay_message 18, relay_message 22] relay_state = Some st'" using s by simp
  show ?thesis
    using build_message_delays [OF relay_samples(1) relay_samples(3) k t _ st' e] st' by (auto simp: i2np_consts relay_state_def)
qed

end
