(* ===== verification/Tunnel_Records.thy ===== *)
theory Tunnel_Records
  imports Tunnel_Build
begin

text \<open>
  The records of a build message as slots of 528 bytes, for the proofs about \<open>Tunnel_Build\<close>: a
  write changes one slot, each loop over records maps the slots, and reply encryption layers
  cancel. Ends with what a hop does with the message (\<open>HandleBuildRequestRecords_slots\<close>).
\<close>


section \<open>Record slots\<close>

definition slot :: "nat \<Rightarrow> bytes \<Rightarrow> nat \<Rightarrow> bytes" where
  "slot off b i = window b (off + i * 528) 528"

definition slots_fit :: "nat \<Rightarrow> nat \<Rightarrow> bytes \<Rightarrow> bool" where
  "slots_fit off n b \<longleftrightarrow> off + n * 528 \<le> length b"

text \<open>The buffer \<open>b'\<close> is \<open>b\<close> with the records changed to \<open>f\<close>.\<close>

definition slots_upd :: "nat \<Rightarrow> nat \<Rightarrow> bytes \<Rightarrow> (nat \<Rightarrow> bytes) \<Rightarrow> bytes \<Rightarrow> bool" where
  "slots_upd off n b f b' \<longleftrightarrow> length b' = length b \<and> take off b' = take off b \<and>
     drop (off + n * 528) b' = drop (off + n * 528) b \<and> (\<forall>j < n. slot off b' j = f j)"

lemma slots_fitD: "slots_fit off n b \<Longrightarrow> i < n \<Longrightarrow> off + i * 528 + 528 \<le> length b"
proof -
  assume a: "slots_fit off n b" "i < n"
  then have "(i + 1) * 528 \<le> n * 528" by (intro mult_right_mono) auto
  then show ?thesis using a by (simp add: slots_fit_def)
qed

lemma length_slot: "slots_fit off n b \<Longrightarrow> i < n \<Longrightarrow> length (slot off b i) = 528"
  using slots_fitD by (simp add: slot_def)

lemma slots_upd_fit: "slots_upd off n b f b' \<Longrightarrow> slots_fit off n b' \<longleftrightarrow> slots_fit off n b"
  by (simp add: slots_upd_def slots_fit_def)

lemma slots_updD: "slots_upd off n b f b' \<Longrightarrow> j < n \<Longrightarrow> slot off b' j = f j"
  by (simp add: slots_upd_def)

lemma slots_upd_refl: "slots_upd off n b (slot off b) b"
  by (simp add: slots_upd_def)

lemma slots_upd_trans:
  "slots_upd off n b f b1 \<Longrightarrow> slots_upd off n b1 g b2 \<Longrightarrow> slots_upd off n b g b2"
  by (simp add: slots_upd_def)

lemma slots_upd_cong: "slots_upd off n b f b' \<Longrightarrow> (\<And>j. j < n \<Longrightarrow> f j = g j) \<Longrightarrow> slots_upd off n b g b'"
  by (simp add: slots_upd_def)

lemma write_in_slot:
  assumes fit: "slots_fit off n b" and i: "i < n" and k: "k + length r \<le> 528"
  obtains b' where "mem_write b (off + i * 528 + k) r = Some b'"
    "slots_upd off n b (\<lambda>j. if j = i then patch (slot off b i) k r else slot off b j) b'"
proof -
  let ?p = "off + i * 528 + k"
  define b' where "b' = patch b ?p r"
  have le: "?p + length r \<le> length b" using slots_fitD [OF fit i] k by simp
  have w: "mem_write b ?p r = Some b'" using le by (simp add: mem_write_patch b'_def)
  have last: "(i + 1) * 528 \<le> n * 528" using i by (intro mult_right_mono) auto
  have other: "slot off b' j = slot off b j" if "j \<noteq> i" for j
  proof (cases "j < i")
    case True
    then have "(j + 1) * 528 \<le> i * 528" by (intro mult_right_mono) auto
    then show ?thesis unfolding slot_def by (intro window_write_before [OF w]) simp
  next
    case False
    with that have "(i + 1) * 528 \<le> j * 528" by (intro mult_right_mono) auto
    then show ?thesis using k unfolding slot_def by (intro window_write_after [OF w]) simp
  qed
  have same: "slot off b' i = patch (slot off b i) k r"
  proof -
    let ?q = "off + i * 528"
    have "528 = k + (length r + (528 - k - length r))" using k by simp
    then have "slot off b' i = window b' ?q k @ window b' (?q + k) (length r) @
        window b' (?q + k + length r) (528 - k - length r)"
      unfolding slot_def by (metis window_add add.assoc)
    also have "window b' ?q k = window b ?q k"
      by (rule window_write_before [OF w]) simp
    also have "window b' (?q + k) (length r) = r"
      by (rule window_write_same [OF w]) simp
    also have "window b' (?q + k + length r) (528 - k - length r) = window b (?q + k + length r) (528 - k - length r)"
      by (rule window_write_after [OF w]) simp
    finally show ?thesis
      using k by (simp add: slot_def patch_def window_def min_def add_ac drop_take)
  qed
  have "take off b' = take off b" using mem_write_take [OF w, of off] by simp
  moreover have "drop (off + n * 528) b' = drop (off + n * 528) b"
    using k last by (intro mem_write_drop [OF w]) simp
  moreover have "length b' = length b" using mem_write_length [OF w] .
  ultimately have "slots_upd off n b (\<lambda>j. if j = i then patch (slot off b i) k r else slot off b j) b'"
    using other same by (simp add: slots_upd_def)
  with w that show thesis by blast
qed

lemma write_slot:
  assumes fit: "slots_fit off n b" and i: "i < n" and r: "length r = 528"
  obtains b' where "mem_write b (off + i * 528) r = Some b'"
    "slots_upd off n b (\<lambda>j. if j = i then r else slot off b j) b'"
proof -
  obtain b' where b': "mem_write b (off + i * 528 + 0) r = Some b'"
    "slots_upd off n b (\<lambda>j. if j = i then patch (slot off b i) 0 r else slot off b j) b'"
    using write_in_slot [OF fit i, of 0 r] r by auto
  have "patch (slot off b i) 0 r = r" using r length_slot [OF fit i] by (simp add: patch_def)
  then have "slots_upd off n b (\<lambda>j. if j = i then r else slot off b j) b'"
    by (intro slots_upd_cong [OF b'(2)]) simp
  with b'(1) that show thesis by simp
qed

lemma read_in_slot:
  assumes fit: "slots_fit off n b" and i: "i < n" and k: "k + m \<le> 528"
  shows "mem_read b (off + i * 528 + k) m = Some (take m (drop k (slot off b i)))"
proof -
  have "off + i * 528 + k + m \<le> length b" using slots_fitD [OF fit i] k by simp
  then show ?thesis using k by (simp add: mem_read_def slot_def window_def drop_take min_def add_ac)
qed

lemma read_slot:
  assumes "slots_fit off n b" and "i < n"
  shows "mem_read b (off + i * 528) 528 = Some (slot off b i)"
  using read_in_slot [OF assms, of 0 528] length_slot [OF assms] by simp


section \<open>Layers of reply encryption\<close>

definition rec_enc :: "aes_env \<Rightarrow> hop_config \<Rightarrow> bytes \<Rightarrow> bytes" where
  "rec_enc aes h = cbc_encrypt_record aes (hop_replyKey h) (hop_replyIV h)"

definition rec_dec :: "aes_env \<Rightarrow> hop_config \<Rightarrow> bytes \<Rightarrow> bytes" where
  "rec_dec aes h = cbc_decrypt_record aes (hop_replyKey h) (hop_replyIV h)"

lemma rec_crypt:
  assumes "aes_ok aes" and "length (hop_replyIV h) = 16" and "length r = 528"
  shows "length (rec_enc aes h r) = 528" "length (rec_dec aes h r) = 528"
    "rec_enc aes h (rec_dec aes h r) = r" "rec_dec aes h (rec_enc aes h r) = r"
proof -
  have l: "length r = 16 * 33" using assms(3) by simp
  note a = aes_ok_inverse [OF assms(1), of "hop_replyKey h"]
  note d = rec_enc_def rec_dec_def cbc_encrypt_record_def cbc_decrypt_record_def
  show "length (rec_enc aes h r) = 528" "length (rec_dec aes h r) = 528"
    "rec_enc aes h (rec_dec aes h r) = r" "rec_dec aes h (rec_enc aes h r) = r"
    using cbc_buf_length [OF l assms(2)] cbc_buf_inverse [OF l assms(2)] a unfolding d by auto
qed

interpretation reply: layer_cipher "\<lambda>(aes, h). rec_enc aes h" "\<lambda>(aes, h). rec_dec aes h"
  "\<lambda>(aes, h). aes_ok aes \<and> length (hop_replyIV h) = 16" 528
  by unfold_locales (auto simp: rec_crypt)

lemma reply_layers_cancel:
  assumes "aes_ok aes" and "\<forall>h \<in> set hs. length (hop_replyIV h) = 16" and "length r = 528"
  shows "fold (rec_enc aes) hs (foldr (rec_dec aes) hs r) = r \<and> length (foldr (rec_dec aes) hs r) = 528 \<and>
    foldr (rec_dec aes) hs (fold (rec_enc aes) hs r) = r \<and> length (fold (rec_enc aes) hs r) = 528"
  using reply.layers_added [of "map (Pair aes) hs" r] reply.layers_removed [of "map (Pair aes) hs" r]
    reply.length_layers [of "map (Pair aes) hs" r] assms
  by (simp add: fold_layers)

section \<open>The loops over records\<close>

lemma decrypt_record_at_slot:
  assumes aes: "aes_ok aes" "length (hop_replyIV h) = 16" and fit: "slots_fit off n b" and i: "i < n"
  obtains b' where "decrypt_record_at aes h off i b = Some b'"
    "slots_upd off n b (\<lambda>j. if j = i then rec_dec aes h (slot off b j) else slot off b j) b'"
proof -
  have "length (rec_dec aes h (slot off b i)) = 528"
    by (rule rec_crypt(2) [OF aes length_slot [OF fit i]])
  from write_slot [OF fit i this] obtain b' where
    b': "mem_write b (off + i * 528) (rec_dec aes h (slot off b i)) = Some b'"
      "slots_upd off n b (\<lambda>j. if j = i then rec_dec aes h (slot off b i) else slot off b j) b'" .
  have "decrypt_record_at aes h off i b = Some b'"
    using b'(1) read_slot [OF fit i]
    by (simp add: decrypt_record_at_def TUNNEL_BUILD_RECORD_SIZE_def rec_dec_def)
  with slots_upd_cong [OF b'(2)] that show thesis by simp
qed

abbreviation indices :: "hop_config list \<Rightarrow> nat list" where
  "indices hops \<equiv> map hop_recordIndex hops"

lemma decrypt_after_slots:
  assumes aes: "aes_ok aes" "length (hop_replyIV h) = 16"
    and "slots_fit off n b" and "distinct (indices hops)" and "\<forall>i \<in> set (indices hops). i < n"
  shows "\<exists>b'. decrypt_after aes h off hops b = Some b' \<and>
    slots_upd off n b (\<lambda>j. if j \<in> set (indices hops) then rec_dec aes h (slot off b j) else slot off b j) b'"
  using assms(3-)
proof (induction hops arbitrary: b)
  case Nil
  then show ?case using slots_upd_refl by simp
next
  case (Cons h1 hops)
  let ?i = "hop_recordIndex h1"
  obtain b1 where b1: "decrypt_record_at aes h off ?i b = Some b1"
    "slots_upd off n b (\<lambda>j. if j = ?i then rec_dec aes h (slot off b j) else slot off b j) b1"
    using decrypt_record_at_slot [OF aes Cons.prems(1), of ?i] Cons.prems by auto
  obtain b2 where b2: "decrypt_after aes h off hops b1 = Some b2"
    "slots_upd off n b1 (\<lambda>j. if j \<in> set (indices hops) then rec_dec aes h (slot off b1 j) else slot off b1 j) b2"
    using Cons.IH [of b1] Cons.prems slots_upd_fit [OF b1(2)] by auto
  have "slots_upd off n b (\<lambda>j. if j \<in> set (indices (h1 # hops)) then rec_dec aes h (slot off b j) else slot off b j) b2"
    by (rule slots_upd_cong [OF slots_upd_trans [OF b1(2) b2(2)]])
      (use Cons.prems(2) slots_updD [OF b1(2)] in auto)
  then show ?case using b1(1) b2(1) by auto
qed

text \<open>The record of hop \<open>m\<close> is decrypted with the reply keys of the hops before it, its predecessor's first.\<close>

lemma predecrypt_slots:
  assumes aes: "aes_ok aes"
    and "\<forall>h \<in> set hops. length (hop_replyIV h) = 16"
    and "slots_fit off n b" and "distinct (indices hops)" and "\<forall>i \<in> set (indices hops). i < n"
  shows "\<exists>f b'. predecrypt aes off hops b = Some b' \<and> slots_upd off n b f b' \<and>
    (\<forall>m < length hops. f (hop_recordIndex (hops ! m)) =
       foldr (rec_dec aes) (take m hops) (slot off b (hop_recordIndex (hops ! m)))) \<and>
    (\<forall>j < n. j \<notin> set (indices hops) \<longrightarrow> f j = slot off b j)"
  using assms(2-)
proof (induction hops arbitrary: b)
  case Nil
  then show ?case using slots_upd_refl by auto
next
  case (Cons h hops)
  have iv: "length (hop_replyIV h) = 16" using Cons.prems by simp
  obtain f b1 where f: "predecrypt aes off hops b = Some b1" "slots_upd off n b f b1"
    "\<forall>m < length hops. f (hop_recordIndex (hops ! m)) =
       foldr (rec_dec aes) (take m hops) (slot off b (hop_recordIndex (hops ! m)))"
    "\<forall>j < n. j \<notin> set (indices hops) \<longrightarrow> f j = slot off b j"
    using Cons.IH [of b] Cons.prems by auto
  let ?g = "\<lambda>j. if j \<in> set (indices hops) then rec_dec aes h (slot off b1 j) else slot off b1 j"
  obtain b2 where b2: "decrypt_after aes h off hops b1 = Some b2" "slots_upd off n b1 ?g b2"
    using decrypt_after_slots [OF aes iv, of off n b1 hops] Cons.prems slots_upd_fit [OF f(2)] by auto
  have g: "?g j = (if j \<in> set (indices hops) then rec_dec aes h (f j) else f j)" if "j < n" for j
    using slots_updD [OF f(2) that] by simp
  have own: "hop_recordIndex h < n" "hop_recordIndex h \<notin> set (indices hops)" using Cons.prems by auto
  have "?g (hop_recordIndex ((h # hops) ! m)) =
      foldr (rec_dec aes) (take m (h # hops)) (slot off b (hop_recordIndex ((h # hops) ! m)))"
    if m: "m < length (h # hops)" for m
  proof (cases m)
    case 0
    then show ?thesis using own g [OF own(1)] f(4) by simp
  next
    case (Suc k)
    then have k: "k < length hops" and "hop_recordIndex (hops ! k) < n" using m Cons.prems by auto
    then show ?thesis using g [of "hop_recordIndex (hops ! k)"] f(3) Suc by simp
  qed
  moreover have "?g j = slot off b j" if "j < n" "j \<notin> set (indices (h # hops))" for j
    using that g [OF that(1)] f(4) by simp
  moreover have "predecrypt aes off (h # hops) b = Some b2" using f(1) b2(1) by simp
  ultimately show ?case
    using slots_upd_trans [OF f(2) b2(2)] by blast
qed

lemma decrypt_before_eq:
  "\<forall>i \<in> set (indices hops). i < n \<Longrightarrow> decrypt_before aes h n off hops b = decrypt_after aes h off hops b"
  by (induction hops arbitrary: b) (auto intro!: bind_option_cong)

text \<open>The records in the order of the outer loop: \<open>hops ! m\<close> is decrypted with the keys of \<open>hops ! 0\<close>, \dots, \<open>hops ! m\<close>.\<close>

lemma decrypt_responses_slots:
  assumes aes: "aes_ok aes"
    and "\<forall>h \<in> set hops. length (hop_replyIV h) = 16"
    and "slots_fit off n b" and "distinct (indices hops)" and "\<forall>i \<in> set (indices hops). i < n"
  shows "\<exists>b'. decrypt_responses aes n off hops b = Some b' \<and> slots_fit off n b' \<and>
    (\<forall>m < length hops. slot off b' (hop_recordIndex (hops ! m)) =
       fold (rec_dec aes) (take (Suc m) hops) (slot off b (hop_recordIndex (hops ! m)))) \<and>
    (\<forall>j < n. j \<notin> set (indices hops) \<longrightarrow> slot off b' j = slot off b j)"
  using assms(2-)
proof (induction hops arbitrary: b)
  case Nil
  then show ?case by auto
next
  case (Cons h hops)
  have iv: "length (hop_replyIV h) = 16" using Cons.prems by simp
  let ?g = "\<lambda>j. if j \<in> set (indices (h # hops)) then rec_dec aes h (slot off b j) else slot off b j"
  obtain b1 where b1: "decrypt_before aes h n off (h # hops) b = Some b1" "slots_upd off n b ?g b1"
    unfolding decrypt_before_eq [OF Cons.prems(4)]
    using decrypt_after_slots [OF aes iv Cons.prems(2,3,4)] by blast
  have fit1: "slots_fit off n b1" using Cons.prems(2) slots_upd_fit [OF b1(2)] by simp
  obtain b2 where b2: "decrypt_responses aes n off hops b1 = Some b2" "slots_fit off n b2"
    "\<forall>m < length hops. slot off b2 (hop_recordIndex (hops ! m)) =
       fold (rec_dec aes) (take (Suc m) hops) (slot off b1 (hop_recordIndex (hops ! m)))"
    "\<forall>j < n. j \<notin> set (indices hops) \<longrightarrow> slot off b2 j = slot off b1 j"
    using Cons.IH [of b1] Cons.prems fit1 by auto
  have own: "hop_recordIndex h < n" "hop_recordIndex h \<notin> set (indices hops)" using Cons.prems by auto
  have "slot off b2 (hop_recordIndex ((h # hops) ! m)) =
      fold (rec_dec aes) (take (Suc m) (h # hops)) (slot off b (hop_recordIndex ((h # hops) ! m)))"
    if m: "m < length (h # hops)" for m
  proof (cases m)
    case 0
    then show ?thesis using own b2(4) slots_updD [OF b1(2) own(1)] by simp
  next
    case (Suc k)
    then have k: "k < length hops" and kn: "hop_recordIndex (hops ! k) < n" using m Cons.prems by auto
    then show ?thesis using b2(3) Suc slots_updD [OF b1(2) kn] by simp
  qed
  moreover have "slot off b2 j = slot off b j" if "j < n" "j \<notin> set (indices (h # hops))" for j
    using that b2(4) slots_updD [OF b1(2) that(1)] by simp
  ultimately show ?case using b1(1) b2(1,2) by auto
qed

lemma response_codes_slots:
  assumes "slots_fit off n b" and "\<forall>i \<in> set (indices hops). i < n"
  shows "response_codes off hops b = Some (map (\<lambda>h. slot off b (hop_recordIndex h) ! 527) hops)"
  using assms(2)
proof (induction hops)
  case (Cons h hops)
  have i: "hop_recordIndex h < n" using Cons.prems by simp
  have "take 1 (drop 527 (slot off b (hop_recordIndex h))) = [slot off b (hop_recordIndex h) ! 527]"
    using length_slot [OF assms(1) i] Cons_nth_drop_Suc [of 527 "slot off b (hop_recordIndex h)"] by simp
  then show ?case
    using Cons read_in_slot [OF assms(1) i, of 527 1]
    by (simp add: TUNNEL_BUILD_RECORD_SIZE_def RESPONSE_RET_OFFSET_def RESPONSE_PADDING_OFFSET_def
        RESPONSE_PADDING_SIZE_def)
qed simp

section \<open>A hop answers\<close>

lemma find_ours_slot:
  assumes fit: "slots_fit off n b" and "set is \<subseteq> {..<n}" and "i \<in> set is"
    and "take 16 (slot off b i) = take 16 ident"
    and "\<forall>j < n. take 16 (slot off b j) = take 16 ident \<longrightarrow> j = i"
  shows "find_ours b off ident is = Some (Some i)"
  using assms(2-)
proof (induction "is")
  case (Cons j js)
  have "mem_read b (off + j * 528) 16 = Some (take 16 (slot off b j))"
    using read_in_slot [OF fit, of j 0 16] Cons.prems by simp
  then show ?case using Cons by (auto simp: TUNNEL_BUILD_RECORD_SIZE_def)
qed simp

lemma encrypt_replies_slots:
  assumes aes: "aes_ok aes" "length (hop_replyIV h) = 16"
    and "slots_fit off n b" and "distinct js" and "\<forall>j \<in> set js. j < n"
  shows "\<exists>b'. encrypt_replies aes (hop_replyKey h) (hop_replyIV h) off js b = Some b' \<and>
    slots_upd off n b (\<lambda>j. if j \<in> set js then rec_enc aes h (slot off b j) else slot off b j) b'"
  using assms(3-)
proof (induction js arbitrary: b)
  case Nil
  then show ?case using slots_upd_refl by simp
next
  case (Cons i js)
  have i: "i < n" using Cons.prems by simp
  have "length (rec_enc aes h (slot off b i)) = 528"
    by (rule rec_crypt(1) [OF aes length_slot [OF Cons.prems(1) i]])
  from write_slot [OF Cons.prems(1) i this] obtain b1 where
    b1: "mem_write b (off + i * 528) (rec_enc aes h (slot off b i)) = Some b1"
      "slots_upd off n b (\<lambda>j. if j = i then rec_enc aes h (slot off b i) else slot off b j) b1" .
  obtain b2 where b2: "encrypt_replies aes (hop_replyKey h) (hop_replyIV h) off js b1 = Some b2"
    "slots_upd off n b1 (\<lambda>j. if j \<in> set js then rec_enc aes h (slot off b1 j) else slot off b1 j) b2"
    using Cons.IH [of b1] Cons.prems slots_upd_fit [OF b1(2)] by auto
  have "slots_upd off n b (\<lambda>j. if j \<in> set (i # js) then rec_enc aes h (slot off b j) else slot off b j) b2"
    by (rule slots_upd_cong [OF slots_upd_trans [OF b1(2) b2(2)]])
      (use Cons.prems(2) slots_updD [OF b1(2)] in auto)
  then show ?case
    using b1(1) b2(1) read_slot [OF Cons.prems(1) i]
    by (auto simp: TUNNEL_BUILD_RECORD_SIZE_def rec_enc_def)
qed

text \<open>The reply written into the record: the return code in the last byte, then the hash.\<close>

definition response :: "(bytes \<Rightarrow> bytes) \<Rightarrow> byte \<Rightarrow> bytes \<Rightarrow> bytes" where
  "response sha ret r = (let r' = patch r 527 [ret] in patch r' 0 (sha (drop 32 r')))"

lemma response_facts:
  assumes "length r = 528" and "\<forall>x. length (sha x) = 32"
  shows "length (response sha ret r) = 528" "response sha ret r ! 527 = ret"
    "take 32 (response sha ret r) = sha (drop 32 (response sha ret r))"
  using assms by (auto simp: response_def Let_def patch_def nth_append)

text \<open>The hop and the router it names.\<close>

definition owns :: "build_env \<Rightarrow> hop_config \<Rightarrow> router_ctx \<Rightarrow> bool" where
  "owns env hop ctx \<longleftrightarrow> rc_ident ctx = rr_ident (hop_router hop) \<and> be_val (rc_priv ctx) < dh_p (be_dh env) \<and>
     rr_encryptionKey (hop_router hop) = snd (GenerateElGamalKeyPair (be_dh env) (rc_priv ctx))"

definition build_env_ok :: "build_env \<Rightarrow> bool" where
  "build_env_ok env \<longleftrightarrow> aes_ok (be_aes env) \<and> dh_ok (be_dh env) \<and> (\<forall>x. length (be_sha256 env x) = 32)"

definition ret_code :: "router_ctx \<Rightarrow> byte" where
  "ret_code ctx = (if takes_part ctx then 0 else 30)"

definition hop_transit :: "bytes \<Rightarrow> router_ctx \<Rightarrow> hop_config \<Rightarrow> (transit_tunnel \<times> transit_kind) option" where
  "hop_transit rnd ctx hop = (if takes_part ctx then Some (CreateTransitTunnel rnd (hop_tunnelID hop)
     (rr_ident (the (hop_nextRouter hop))) (hop_nextTunnelID hop) (hop_layerKey hop) (hop_ivKey hop)
     (hop_isGateway hop) (hop_isEndpoint hop)) else None)"

lemma CreateBuildRequestRecord_eq:
  assumes "build_env_ok env" and "hop_ok hop"
  obtains e where "CreateBuildRequestRecord env k hours hop mid = Some (take 16 (rr_ident (hop_router hop)) @ e)"
    "length e = 512"
    "owns env hop ctx \<Longrightarrow> ElGamalDecrypt (be_dh env) (be_sha256 env) (rc_priv ctx) e False =
       Some (clear_bytes hours hop mid)"
proof -
  let ?enc = "ElGamalEncryption_new (be_dh env) k (rr_encryptionKey (hop_router hop))"
  let ?e = "ElGamalEncrypt (be_dh env) (be_sha256 env) ?enc (clear_bytes hours hop mid) [] False"
  have "CreateBuildRequestRecord env k hours hop mid = Some (take 16 (rr_ident (hop_router hop)) @ ?e)"
    by (simp add: CreateBuildRequestRecord_def request_clear_text_bytes [OF assms(2)] Let_def)
  moreover have "length ?e = 512" by (simp add: ElGamalEncrypt_def Let_def)
  moreover have "ElGamalDecrypt (be_dh env) (be_sha256 env) (rc_priv ctx) ?e False =
       Some (clear_bytes hours hop mid)" if o: "owns env hop ctx"
  proof -
    have key: "be_val (rc_priv ctx) < dh_p (be_dh env)"
      and pub: "rr_encryptionKey (hop_router hop) = snd (GenerateElGamalKeyPair (be_dh env) (rc_priv ctx))"
      using o by (auto simp: owns_def)
    show ?thesis
      using elgamal_round_trip [of "be_dh env" "be_sha256 env" "rc_priv ctx" "clear_bytes hours hop mid" "[]" k False]
        assms key length_clear_bytes [OF assms(2), of hours mid] unfolding pub build_env_ok_def by simp
  qed
  ultimately show thesis by (rule that)
qed

lemma transit_of_clear:
  assumes "hop_ok hop"
  shows "transit_of rnd (clear_bytes hours hop mid) = Some (CreateTransitTunnel rnd (hop_tunnelID hop)
     (rr_ident (the (hop_nextRouter hop))) (hop_nextTunnelID hop) (hop_layerKey hop) (hop_ivKey hop)
     (hop_isGateway hop) (hop_isEndpoint hop))"
proof -
  note f = clear_bytes_fields [OF assms, of hours mid] and l = length_clear_bytes [OF assms, of hours mid]
  have "take 1 (drop FLAG_OFFSET (clear_bytes hours hop mid)) = [request_flag hop]"
    using f(8) l by (simp add: take_Suc hd_drop_conv_nth clear_offsets)
  then show ?thesis
    using f l by (simp add: transit_of_def mem_read_def request_flag_bits clear_offsets)
qed


lemma HandleBuildRequestRecords_slots:
  assumes env: "build_env_ok env" and hop: "hop_ok hop" and own: "owns env hop ctx"
    and fit: "slots_fit off n b" and i: "i < n"
    and rec: "CreateBuildRequestRecord env k hours hop mid = Some (slot off b i)"
    and only: "\<forall>j < n. take 16 (slot off b j) = take 16 (rc_ident ctx) \<longrightarrow> j = i"
  shows "\<exists>b'. HandleBuildRequestRecords env ctx rnd n off b clear0 =
      Some (b', clear_bytes hours hop mid, hop_transit rnd ctx hop, True) \<and>
    slots_upd off n b (\<lambda>j. rec_enc (be_aes env) hop
      (if j = i then response (be_sha256 env) (ret_code ctx) (slot off b i) else slot off b j)) b'"
proof -
  let ?c = "clear_bytes hours hop mid" and ?sha = "be_sha256 env"
  have aes: "aes_ok (be_aes env)" and sha: "\<forall>x. length (?sha x) = 32"
    using env by (auto simp: build_env_ok_def)
  have iv: "length (hop_replyIV hop) = 16" and lid: "length (rr_ident (hop_router hop)) = 32"
    using hop by (auto simp: hop_ok_def)
  obtain e where e: "slot off b i = take 16 (rr_ident (hop_router hop)) @ e" "length e = 512"
    "ElGamalDecrypt (be_dh env) ?sha (rc_priv ctx) e False = Some ?c"
    using CreateBuildRequestRecord_eq [OF env hop, of k hours mid ctx] rec own by (metis option.inject)
  have id: "rc_ident ctx = rr_ident (hop_router hop)" using own by (simp add: owns_def)
  have ours: "find_ours b off (rc_ident ctx) [0..<n] = Some (Some i)"
    by (rule find_ours_slot [OF fit _ _ _ only]) (use i e id lid in auto)
  have enc: "mem_read b (off + i * 528 + 16) 512 = Some e"
    using read_in_slot [OF fit i, of 16 512] e lid by simp
  let ?r1 = "patch (slot off b i) 527 [ret_code ctx]"
  obtain b1 where b1: "mem_write b (off + i * 528 + 527) [ret_code ctx] = Some b1"
    "slots_upd off n b (\<lambda>j. if j = i then ?r1 else slot off b j) b1"
    using write_in_slot [OF fit i, of 527 "[ret_code ctx]"] by auto
  have fit1: "slots_fit off n b1" using slots_upd_fit [OF b1(2)] fit by simp
  have s1: "slot off b1 i = ?r1" using slots_updD [OF b1(2) i] by simp
  have l1: "length ?r1 = 528" using length_slot [OF fit i] by simp
  have body: "mem_read b1 (off + i * 528 + 32) 496 = Some (drop 32 ?r1)"
    using read_in_slot [OF fit1 i, of 32 496] s1 l1 by simp
  obtain b2 where b2: "mem_write b1 (off + i * 528) (?sha (drop 32 ?r1)) = Some b2"
    "slots_upd off n b1 (\<lambda>j. if j = i then patch (slot off b1 i) 0 (?sha (drop 32 ?r1)) else slot off b1 j) b2"
    using write_in_slot [OF fit1 i, of 0 "?sha (drop 32 ?r1)"] sha by auto
  have fit2: "slots_fit off n b2" using slots_upd_fit [OF b2(2)] fit1 by simp
  have s2: "slot off b2 j = (if j = i then response ?sha (ret_code ctx) (slot off b i) else slot off b j)"
    if "j < n" for j
    using slots_updD [OF b2(2) that] slots_updD [OF b1(2) that] s1 by (simp add: response_def Let_def)
  obtain b3 where b3: "encrypt_replies (be_aes env) (hop_replyKey hop) (hop_replyIV hop) off [0..<n] b2 = Some b3"
    "slots_upd off n b2 (\<lambda>j. if j \<in> set [0..<n] then rec_enc (be_aes env) hop (slot off b2 j) else slot off b2 j) b3"
    using encrypt_replies_slots [OF aes iv fit2, of "[0..<n]"] by auto
  have keys: "mem_read ?c REPLY_KEY_OFFSET 32 = Some (hop_replyKey hop)"
    "mem_read ?c REPLY_IV_OFFSET 16 = Some (hop_replyIV hop)"
    using clear_bytes_fields(6,7) [OF hop, of hours mid] length_clear_bytes [OF hop, of hours mid]
    by (auto simp: mem_read_def clear_offsets)
  have "HandleBuildRequestRecords env ctx rnd n off b clear0 =
      Some (b3, ?c, hop_transit rnd ctx hop, True)"
    using ours enc e(3) b1(1) body b2(1) b3(1) keys transit_of_clear [OF hop, of rnd hours mid]
    by (cases "takes_part ctx")
      (simp_all add: HandleBuildRequestRecords_def TUNNEL_BUILD_RECORD_SIZE_def RESPONSE_RET_OFFSET_def
        RESPONSE_PADDING_OFFSET_def RESPONSE_PADDING_SIZE_def Let_def ret_code_def hop_transit_def)
  moreover have "slots_upd off n b (\<lambda>j. rec_enc (be_aes env) hop
      (if j = i then response ?sha (ret_code ctx) (slot off b i) else slot off b j)) b3"
    by (rule slots_upd_cong [OF slots_upd_trans [OF b1(2) slots_upd_trans [OF b2(2) b3(2)]]])
      (use s2 in simp)
  ultimately show ?thesis by blast
qed

end
