(* ===== verification/Tunnel_BuildRun.thy ===== *)
theory Tunnel_BuildRun
  imports Tunnel_Records
begin

text \<open>
  The build message of a tunnel travels through its hops: what every hop reads, does and sends
  on, what the owner's \<open>Tunnel::Build\<close> has to put into it for that, and what it reads from the
  reply (\<open>build_and_reply\<close>).
\<close>


section \<open>The message goes from hop to hop\<close>

definition the_forward :: "hop_config \<Rightarrow> bytes \<Rightarrow> 32 word \<Rightarrow> build_forward" where
  "the_forward hop content mid = (if hop_isEndpoint hop
     then ForwardToGateway (rr_ident (the (hop_nextRouter hop))) (hop_nextTunnelID hop) eI2NPVariableTunnelBuildReply content mid
     else ForwardBuild (rr_ident (the (hop_nextRouter hop))) eI2NPVariableTunnelBuild content mid)"

lemma forward_build_clear:
  assumes "hop_ok hop"
  shows "forward_build eI2NPVariableTunnelBuild eI2NPVariableTunnelBuildReply (clear_bytes hours hop mid) content =
    Some (the_forward hop content mid)"
proof -
  note f = clear_bytes_fields [OF assms, of hours mid] and l = length_clear_bytes [OF assms, of hours mid]
  have "take 1 (drop FLAG_OFFSET (clear_bytes hours hop mid)) = [request_flag hop]"
    using f(8) l by (simp add: take_Suc hd_drop_conv_nth clear_offsets)
  then show ?thesis
    using f l by (simp add: forward_build_def mem_read_def request_flag_bits clear_offsets the_forward_def)
qed

text \<open>A build message body of \<open>n\<close> records.\<close>

definition build_body :: "nat \<Rightarrow> bytes \<Rightarrow> bool" where
  "build_body n b \<longleftrightarrow> n < 256 \<and> length b = 1 + n * 528 \<and> take 1 b = [word_of_nat n]"

lemma build_body_fit: "build_body n b \<Longrightarrow> slots_fit 1 n b"
  by (simp add: build_body_def slots_fit_def)

lemma build_body_upd: "build_body n b \<Longrightarrow> slots_upd 1 n b f b' \<Longrightarrow> build_body n b'"
  by (simp add: build_body_def slots_upd_def)

lemma build_body_num: "build_body n b \<Longrightarrow> map_option (unat \<circ> hd) (mem_read b 0 1) = Some n"
  by (auto simp: build_body_def mem_read_def unat_of_nat)

definition one_record :: "ident_hash \<Rightarrow> bytes \<Rightarrow> bool" where
  "one_record ident b \<longleftrightarrow> (let n = (length b - 1) div 528 in \<forall>i < n. \<forall>j < n.
     take 16 (slot 1 b i) = take 16 ident \<and> take 16 (slot 1 b j) = take 16 ident \<longrightarrow> i = j)"

lemma VariableTunnelBuild_forward_slots:
  assumes env: "build_env_ok env" and hop: "hop_ok hop" and own: "owns env hop ctx"
    and body: "build_body n b" and i: "hop_recordIndex hop < n"
    and rec: "CreateBuildRequestRecord env k hours hop mid = Some (slot 1 b (hop_recordIndex hop))"
    and one: "one_record (rc_ident ctx) b"
  shows "\<exists>b'. VariableTunnelBuild_forward env ctx rnd b (length b) =
      Some (b', hop_transit rnd ctx hop, Some (the_forward hop b' mid)) \<and> build_body n b' \<and>
    slots_upd 1 n b (\<lambda>j. rec_enc (be_aes env) hop (if j = hop_recordIndex hop
      then response (be_sha256 env) (ret_code ctx) (slot 1 b (hop_recordIndex hop)) else slot 1 b j)) b'"
proof -
  let ?i = "hop_recordIndex hop"
  have lid: "length (rr_ident (hop_router hop)) = 32" using hop by (auto simp: hop_ok_def)
  obtain e where "slot 1 b ?i = take 16 (rr_ident (hop_router hop)) @ e"
    using CreateBuildRequestRecord_eq [OF env hop, of k hours mid ctx] rec by (metis option.inject)
  then have "take 16 (slot 1 b ?i) = take 16 (rc_ident ctx)" using own lid by (simp add: owns_def)
  then have only: "\<forall>j < n. take 16 (slot 1 b j) = take 16 (rc_ident ctx) \<longrightarrow> j = ?i"
    using one i body unfolding one_record_def build_body_def Let_def by auto
  obtain b' where b': "HandleBuildRequestRecords env ctx rnd n 1 b (replicate CLEAR_TEXT_SIZE 0) =
      Some (b', clear_bytes hours hop mid, hop_transit rnd ctx hop, True)"
    "slots_upd 1 n b (\<lambda>j. rec_enc (be_aes env) hop
      (if j = ?i then response (be_sha256 env) (ret_code ctx) (slot 1 b ?i) else slot 1 b j)) b'"
    using HandleBuildRequestRecords_slots [OF env hop own build_body_fit [OF body] i rec only] by blast
  have "length b' = length b" using b'(2) by (simp add: slots_upd_def)
  then have "mem_read b' 0 (length b) = Some b'" by (simp add: mem_read_def)
  then have "VariableTunnelBuild_forward env ctx rnd b (length b) =
      Some (b', hop_transit rnd ctx hop, Some (the_forward hop b' mid))"
    unfolding VariableTunnelBuild_forward_def build_body_num [OF body]
    using b'(1) forward_build_clear [OF hop, of hours mid b'] by simp
  with b'(2) build_body_upd [OF body b'(2)] show ?thesis by blast
qed

text \<open>
  The routers of the hops handle the message one after the other, each one what its predecessor
  sent it; none of them waits for the message ID.
\<close>

fun build_run :: "build_env \<Rightarrow> (router_ctx \<times> bytes) list \<Rightarrow> bytes \<Rightarrow>
    ((transit_tunnel \<times> transit_kind) option list \<times> build_forward) option" where
  "build_run env [] content = None"
| "build_run env ((ctx, rnd) # ctxs) content = do {
     (_, transit, fwd) \<leftarrow> VariableTunnelBuild_forward env ctx rnd content (length content);
     f \<leftarrow> fwd;
     (case (ctxs, f) of
        ([], f) \<Rightarrow> Some ([transit], f)
      | ((ctx', _) # _, ForwardBuild nextIdent typ content' _) \<Rightarrow>
          if nextIdent = rc_ident ctx' \<and> typ = eI2NPVariableTunnelBuild
          then map_option (\<lambda>(ts, f'). (transit # ts, f')) (build_run env ctxs content') else None
      | _ \<Rightarrow> None) }"

text \<open>No router meets a second record that starts with its own identity.\<close>

fun no_clash :: "build_env \<Rightarrow> (router_ctx \<times> bytes) list \<Rightarrow> bytes \<Rightarrow> bool" where
  "no_clash env [] content \<longleftrightarrow> True"
| "no_clash env ((ctx, rnd) # ctxs) content \<longleftrightarrow> one_record (rc_ident ctx) content \<and>
     (case VariableTunnelBuild_forward env ctx rnd content (length content) of
        Some (content', _) \<Rightarrow> no_clash env ctxs content' | None \<Rightarrow> True)"

fun request_records :: "build_env \<Rightarrow> 32 word \<Rightarrow> 32 word \<Rightarrow> nat list \<Rightarrow> 32 word list \<Rightarrow> hop_config list \<Rightarrow>
    bytes list option" where
  "request_records env hours mid (k # ks) (w # ws) (hop # hops) = do {
     r \<leftarrow> CreateBuildRequestRecord env k hours hop (if hops \<noteq> [] then w else mid);
     rs \<leftarrow> request_records env hours mid ks ws hops;
     Some (r # rs) }"
| "request_records env hours mid ks ws [] = Some []"
| "request_records env hours mid _ _ _ = None"

lemma request_records_length:
  assumes env: "build_env_ok env"
  shows "request_records env hours mid ks ws hops = Some rs \<Longrightarrow> \<forall>h \<in> set hops. hop_ok h \<Longrightarrow>
     length rs = length hops \<and> (\<forall>r \<in> set rs. length r = 528)"
proof (induction hops arbitrary: ks ws rs)
  case (Cons hop hops)
  obtain k ks' w ws' r rs' where rs: "rs = r # rs'" "ks = k # ks'" "ws = w # ws'"
    and rec: "CreateBuildRequestRecord env k hours hop (if hops \<noteq> [] then w else mid) = Some r"
    and recs: "request_records env hours mid ks' ws' hops = Some rs'"
    using Cons.prems(1) by (cases ks; cases ws) (auto split: bind_splits)
  have hop: "hop_ok hop" using Cons.prems by simp
  then have "length (take 16 (rr_ident (hop_router hop))) = 16" by (auto simp: hop_ok_def)
  then have "length r = 528"
    using rec CreateBuildRequestRecord_eq [OF env hop, of k hours "if hops \<noteq> [] then w else mid"]
    by (metis length_append numeral_plus_numeral option.inject add_num_simps)
  then show ?case using Cons.IH [OF recs] Cons.prems rs(1) by simp
qed simp


text \<open>\<open>hops\<close> are the hops still to come, \<open>rs\<close> their records under the layers of those hops.\<close>

lemma build_run_slots:
  assumes env: "build_env_ok env"
    and "hops \<noteq> []" and "\<forall>h \<in> set hops. hop_ok h" and "list_all2 (owns env) hops (map fst ctxs)"
    and "chained hops" and "\<forall>h \<in> set (butlast hops). \<not> hop_isEndpoint h"
    and "distinct (indices hops)" and "\<forall>i \<in> set (indices hops). i < n" and "build_body n b"
    and "request_records env hours mid ks ws hops = Some rs"
    and "\<forall>p < length hops. slot 1 b (hop_recordIndex (hops ! p)) = foldr (rec_dec (be_aes env)) (take p hops) (rs ! p)"
    and "no_clash env ctxs b"
  shows "\<exists>b'. build_run env ctxs b = Some (map2 (\<lambda>(ctx, rnd) h. hop_transit rnd ctx h) ctxs hops,
      the_forward (last hops) b' mid) \<and> build_body n b' \<and>
    (\<forall>p < length hops. slot 1 b' (hop_recordIndex (hops ! p)) =
       fold (rec_enc (be_aes env)) (drop p hops) (response (be_sha256 env) (ret_code (fst (ctxs ! p))) (rs ! p))) \<and>
    (\<forall>j < n. j \<notin> set (indices hops) \<longrightarrow> slot 1 b' j = fold (rec_enc (be_aes env)) hops (slot 1 b j))"
  using assms(2-)
proof (induction hops arbitrary: ctxs ks ws rs b)
  case Nil
  then show ?case by simp
next
  case (Cons h hops)
  let ?E = "rec_enc (be_aes env)" and ?D = "rec_dec (be_aes env)"
  have aes: "aes_ok (be_aes env)" using env by (simp add: build_env_ok_def)
  have hop: "hop_ok h" and iv: "length (hop_replyIV h) = 16" using Cons.prems(2) by (auto simp: hop_ok_def)
  obtain ctx rnd cs where cs: "ctxs = (ctx, rnd) # cs" and own: "owns env h ctx"
    and owns: "list_all2 (owns env) hops (map fst cs)"
    using Cons.prems(3) by (auto simp: list_all2_Cons1 map_eq_Cons_conv)
  obtain k ks' w ws' r rs' where rs: "rs = r # rs'" "ks = k # ks'" "ws = w # ws'"
    and rec: "CreateBuildRequestRecord env k hours h (if hops \<noteq> [] then w else mid) = Some r"
    and recs: "request_records env hours mid ks' ws' hops = Some rs'"
    using Cons.prems(9) by (cases ks; cases ws) (auto split: bind_splits)
  have i: "hop_recordIndex h < n" "hop_recordIndex h \<notin> set (indices hops)" using Cons.prems(6,7) by auto
  have s0: "slot 1 b (hop_recordIndex h) = r" using Cons.prems(10) rs by force
  have clash: "one_record (rc_ident ctx) b" using Cons.prems(11) cs by simp
  let ?mid = "if hops \<noteq> [] then w else mid"
  let ?f = "\<lambda>j. ?E h (if j = hop_recordIndex h then response (be_sha256 env) (ret_code ctx) r else slot 1 b j)"
  have rec': "CreateBuildRequestRecord env k hours h ?mid = Some (slot 1 b (hop_recordIndex h))"
    using rec s0 by simp
  obtain b1 where b1: "VariableTunnelBuild_forward env ctx rnd b (length b) =
      Some (b1, hop_transit rnd ctx h, Some (the_forward h b1 ?mid))"
    "build_body n b1" "slots_upd 1 n b ?f b1"
    using VariableTunnelBuild_forward_slots [OF env hop own Cons.prems(8) i(1) rec' clash, of rnd]
    unfolding s0 by blast
  note s1 = slots_updD [OF b1(3)]
  have lrs: "length rs' = length hops \<and> (\<forall>r \<in> set rs'. length r = 528)"
    by (rule request_records_length [OF env recs]) (use Cons.prems(2) in simp)
  show ?case
  proof (cases hops)
    case Nil
    have "build_run env ctxs b = Some (map2 (\<lambda>(ctx, rnd) h. hop_transit rnd ctx h) ctxs [h], the_forward h b1 mid)"
      using b1(1) cs owns by (simp add: Nil)
    moreover have "slot 1 b1 (hop_recordIndex h) = ?E h (response (be_sha256 env) (ret_code ctx) r)"
      using s1 [OF i(1)] by simp
    moreover have "slot 1 b1 j = ?E h (slot 1 b j)" if "j < n" "j \<noteq> hop_recordIndex h" for j
      using s1 [OF that(1)] that(2) by simp
    ultimately show ?thesis
      using b1(2) cs rs(1) by (intro exI [of _ b1]) (simp add: Nil)
  next
    case (Cons h' hops')
    have nx: "the (hop_nextRouter h) = hop_router h'" "\<not> hop_isEndpoint h"
      using Cons.prems(4,5) Cons by auto
    obtain ctx' rnd' cs' where cs': "cs = (ctx', rnd') # cs'" "owns env h' ctx'"
      using owns Cons by (auto simp: list_all2_Cons1 map_eq_Cons_conv)
    have fwd: "the_forward h b1 w = ForwardBuild (rc_ident ctx') eI2NPVariableTunnelBuild b1 w"
      using nx cs' by (simp add: the_forward_def owns_def)
    have lay: "slot 1 b1 (hop_recordIndex (hops ! p)) = foldr ?D (take p hops) (rs' ! p)" if p: "p < length hops" for p
    proof -
      have ip: "hop_recordIndex (hops ! p) < n" "hop_recordIndex (hops ! p) \<noteq> hop_recordIndex h"
      proof -
        have "hop_recordIndex (hops ! p) \<in> set (indices hops)" using p by simp
        then show "hop_recordIndex (hops ! p) < n" "hop_recordIndex (hops ! p) \<noteq> hop_recordIndex h"
          using i Cons.prems(7) by (metis list.set_intros(2) list.simps(9))+
      qed
      have "slot 1 b (hop_recordIndex (hops ! p)) = ?D h (foldr ?D (take p hops) (rs' ! p))"
        using Cons.prems(10) [rule_format, of "Suc p"] p rs by simp
      moreover have "length (foldr ?D (take p hops) (rs' ! p)) = 528"
      proof -
        have "length (rs' ! p) = 528" using lrs p by auto
        moreover have "\<forall>h \<in> set (take p hops). length (hop_replyIV h) = 16"
          using Cons.prems(2) by (auto simp: hop_ok_def dest: in_set_takeD)
        ultimately show ?thesis using reply_layers_cancel [OF aes] by blast
      qed
      ultimately show ?thesis using s1 [OF ip(1)] ip(2) rec_crypt(3) [OF aes iv] by simp
    qed
    have ch: "chained hops" "\<forall>h \<in> set (butlast hops). \<not> hop_isEndpoint h"
      using Cons.prems(4,5) Cons by auto
    have cl: "no_clash env cs b1" using Cons.prems(11) b1(1) cs by simp
    obtain b' where b': "build_run env cs b1 = Some (map2 (\<lambda>(ctx, rnd) h. hop_transit rnd ctx h) cs hops,
        the_forward (last hops) b' mid)" "build_body n b'"
      "\<forall>p < length hops. slot 1 b' (hop_recordIndex (hops ! p)) =
         fold ?E (drop p hops) (response (be_sha256 env) (ret_code (fst (cs ! p))) (rs' ! p))"
      "\<forall>j < n. j \<notin> set (indices hops) \<longrightarrow> slot 1 b' j = fold ?E hops (slot 1 b1 j)"
      using Cons.IH [OF _ _ owns ch _ _ b1(2) recs _ cl] lay Cons.prems(2,6,7) Cons by auto
    have "build_run env ctxs b = Some (map2 (\<lambda>(ctx, rnd) h. hop_transit rnd ctx h) ctxs (h # hops),
        the_forward (last (h # hops)) b' mid)"
      using b1(1) b'(1) fwd cs cs' Cons by simp
    moreover have "slot 1 b' (hop_recordIndex ((h # hops) ! p)) =
        fold ?E (drop p (h # hops)) (response (be_sha256 env) (ret_code (fst (ctxs ! p))) (rs ! p))"
      if p: "p < length (h # hops)" for p
    proof (cases p)
      case 0
      then show ?thesis using b'(4) i s1 [OF i(1)] rs cs by simp
    next
      case (Suc q)
      then show ?thesis using b'(3) p rs cs by simp
    qed
    moreover have "slot 1 b' j = fold ?E (h # hops) (slot 1 b j)" if "j < n" "j \<notin> set (indices (h # hops))" for j
      using that b'(4) s1 [OF that(1)] by simp
    ultimately show ?thesis using b'(2) by blast
  qed
qed

section \<open>The message Tunnel::Build sends\<close>

definition with_indices :: "nat list \<Rightarrow> hop_config list \<Rightarrow> hop_config list" where
  "with_indices idxs hops = map2 (\<lambda>i h. h\<lparr>hop_recordIndex := i\<rparr>) idxs hops"

lemma record_index_irrelevant [simp]:
  "CreateBuildRequestRecord env k hours (hop\<lparr>hop_recordIndex := i\<rparr>) mid = CreateBuildRequestRecord env k hours hop mid"
  "hop_ok (hop\<lparr>hop_recordIndex := i\<rparr>) = hop_ok hop"
  "owns env (hop\<lparr>hop_recordIndex := i\<rparr>) ctx = owns env hop ctx"
  by (simp_all add: CreateBuildRequestRecord_def request_clear_text_def request_flag_def hop_ok_def owns_def)

lemma with_indices_simps:
  "with_indices (i # idxs) (h # hops) = h\<lparr>hop_recordIndex := i\<rparr> # with_indices idxs hops"
  "with_indices idxs [] = []"
  "length hops \<le> length idxs \<Longrightarrow> length (with_indices idxs hops) = length hops"
  "length hops \<le> length idxs \<Longrightarrow> indices (with_indices idxs hops) = take (length hops) idxs"
proof -
  show "length hops \<le> length idxs \<Longrightarrow> indices (with_indices idxs hops) = take (length hops) idxs"
  proof (induction hops arbitrary: idxs)
    case (Cons h hops)
    then show ?case by (cases idxs) (auto simp: with_indices_def)
  qed (simp add: with_indices_def)
qed (simp_all add: with_indices_def)

lemma with_indices_Nil_iff: "length hops \<le> length idxs \<Longrightarrow> with_indices idxs hops = [] \<longleftrightarrow> hops = []"
  using with_indices_simps(3) by fastforce

lemma with_indices_hop_ok:
  "\<forall>h \<in> set hops. hop_ok h \<Longrightarrow> h \<in> set (with_indices idxs hops) \<Longrightarrow> hop_ok h"
  by (auto simp: with_indices_def dest: set_zip_rightD)

lemma with_indices_owns:
  "list_all2 (owns env) hops ctxs \<Longrightarrow> length hops \<le> length idxs \<Longrightarrow> list_all2 (owns env) (with_indices idxs hops) ctxs"
proof (induction hops ctxs arbitrary: idxs rule: list_all2_induct)
  case (Cons h hops c ctxs)
  then show ?case by (cases idxs) (auto simp: with_indices_simps)
qed (simp add: with_indices_simps)

lemma place_records_slots:
  assumes env: "build_env_ok env"
    and "\<forall>h \<in> set hops. hop_ok h" and "length hops \<le> length ks" and "length hops \<le> length idxs"
    and "length hops \<le> length ws" and "distinct idxs" and "\<forall>i \<in> set idxs. i < n" and "slots_fit off n b"
  shows "\<exists>b' rs. place_records env hours mid ks idxs ws off hops b = Some (with_indices idxs hops, b') \<and>
    request_records env hours mid ks ws (with_indices idxs hops) = Some rs \<and>
    slots_upd off n b (slot off b') b' \<and>
    (\<forall>p < length hops. slot off b' (idxs ! p) = rs ! p) \<and>
    (\<forall>j < n. j \<notin> set (take (length hops) idxs) \<longrightarrow> slot off b' j = slot off b j)"
  using assms(2-)
proof (induction hops arbitrary: ks idxs ws b)
  case Nil
  then show ?case using slots_upd_refl by (auto simp: with_indices_simps)
next
  case (Cons hop hops)
  obtain k ks' i idxs' w ws' where c: "ks = k # ks'" "idxs = i # idxs'" "ws = w # ws'"
    using Cons.prems(2-4) by (cases ks; cases idxs; cases ws) auto
  have hop: "hop_ok hop" and i: "i < n" using Cons.prems c by auto
  let ?mid = "if hops \<noteq> [] then w else mid"
  obtain e where e: "CreateBuildRequestRecord env k hours hop ?mid = Some (take 16 (rr_ident (hop_router hop)) @ e)"
    "length e = 512"
    using CreateBuildRequestRecord_eq [OF env hop, of k hours ?mid] by metis
  let ?r = "take 16 (rr_ident (hop_router hop)) @ e"
  have lr: "length ?r = 528" using e(2) hop by (auto simp: hop_ok_def)
  obtain b1 where b1: "mem_write b (off + i * 528) ?r = Some b1"
    "slots_upd off n b (\<lambda>j. if j = i then ?r else slot off b j) b1"
    using write_slot [OF Cons.prems(7) i lr] .
  have fit1: "slots_fit off n b1" using slots_upd_fit [OF b1(2)] Cons.prems(7) by simp
  obtain b' rs where b': "place_records env hours mid ks' idxs' ws' off hops b1 = Some (with_indices idxs' hops, b')"
    "request_records env hours mid ks' ws' (with_indices idxs' hops) = Some rs"
    "slots_upd off n b1 (slot off b') b'"
    "\<forall>p < length hops. slot off b' (idxs' ! p) = rs ! p"
    "\<forall>j < n. j \<notin> set (take (length hops) idxs') \<longrightarrow> slot off b' j = slot off b1 j"
    using Cons.IH [of ks' idxs' ws' b1] Cons.prems(1-6) c fit1 by auto
  have "i \<notin> set (take (length hops) idxs')" using Cons.prems(5) c by (auto dest: in_set_takeD)
  then have own: "slot off b' i = ?r" using b'(5) i slots_updD [OF b1(2) i] by simp
  have "place_records env hours mid ks idxs ws off (hop # hops) b = Some (with_indices idxs (hop # hops), b')"
    using e(1) b1(1) b'(1) c by (simp add: TUNNEL_BUILD_RECORD_SIZE_def with_indices_simps)
  moreover have "request_records env hours mid ks ws (with_indices idxs (hop # hops)) = Some (?r # rs)"
    using e(1) b'(2) c Cons.prems(3) by (simp add: with_indices_simps with_indices_Nil_iff)
  moreover have "slot off b' (idxs ! p) = (?r # rs) ! p" if "p < length (hop # hops)" for p
    using that own b'(4) c by (cases p) auto
  moreover have "slot off b' j = slot off b j" if "j < n" "j \<notin> set (take (length (hop # hops)) idxs)" for j
    using that b'(5) slots_updD [OF b1(2) that(1)] c by simp
  ultimately show ?case using slots_upd_trans [OF b1(2) b'(3)] by blast
qed

lemma fake_records_slots:
  assumes "\<forall>r \<in> set fakes. length r = 528" and "length fakes = length idxs"
    and "distinct idxs" and "\<forall>i \<in> set idxs. i < n" and "slots_fit off n b"
  shows "\<exists>b'. fake_records fakes idxs off b = Some b' \<and> slots_upd off n b (slot off b') b' \<and>
    (\<forall>p < length idxs. slot off b' (idxs ! p) = fakes ! p) \<and>
    (\<forall>j < n. j \<notin> set idxs \<longrightarrow> slot off b' j = slot off b j)"
  using assms
proof (induction fakes arbitrary: idxs b)
  case Nil
  then show ?case using slots_upd_refl by auto
next
  case (Cons r fakes)
  obtain i idxs' where c: "idxs = i # idxs'" using Cons.prems(2) by (cases idxs) auto
  have i: "i < n" "i \<notin> set idxs'" and lr: "length r = 528" using Cons.prems c by auto
  obtain b1 where b1: "mem_write b (off + i * 528) r = Some b1"
    "slots_upd off n b (\<lambda>j. if j = i then r else slot off b j) b1"
    using write_slot [OF Cons.prems(5) i(1) lr] .
  obtain b' where b': "fake_records fakes idxs' off b1 = Some b'" "slots_upd off n b1 (slot off b') b'"
    "\<forall>p < length idxs'. slot off b' (idxs' ! p) = fakes ! p"
    "\<forall>j < n. j \<notin> set idxs' \<longrightarrow> slot off b' j = slot off b1 j"
    using Cons.IH [of idxs' b1] Cons.prems c slots_upd_fit [OF b1(2)] by auto
  have own: "slot off b' i = r" using b'(4) i slots_updD [OF b1(2) i(1)] by simp
  have "slot off b' (idxs ! p) = (r # fakes) ! p" if "p < length idxs" for p
    using that own b'(3) c by (cases p) auto
  moreover have "slot off b' j = slot off b j" if "j < n" "j \<notin> set idxs" for j
    using that b'(4) slots_updD [OF b1(2) that(1)] c by simp
  moreover have "fake_records (r # fakes) idxs off b = Some b'"
    using b1(1) b'(1) c by (simp add: TUNNEL_BUILD_RECORD_SIZE_def)
  ultimately show ?case using slots_upd_trans [OF b1(2) b'(2)] by blast
qed

text \<open>What the random generator and the shuffle give \<open>Tunnel::Build\<close>.\<close>

definition build_choices :: "hop_config list \<Rightarrow> nat list \<Rightarrow> nat list \<Rightarrow> 32 word list \<Rightarrow> bytes list \<Rightarrow> bool" where
  "build_choices hops ks idxs ws fakes \<longleftrightarrow> (let n = num_records (length hops) in
     length ks = length hops \<and> length ws = length hops \<and> length idxs = n \<and> set idxs = {..<n} \<and>
     length fakes = n - length hops \<and> (\<forall>r \<in> set fakes. length r = 528))"

lemma num_records_bounds: "length hops \<le> num_records (length hops)" "length hops \<le> 7 \<Longrightarrow> num_records (length hops) \<le> 7"
  by (auto simp: num_records_def STANDARD_NUM_RECORDS_def)

lemma slot_of_payload:
  "slots_fit 19 n b \<Longrightarrow> j < n \<Longrightarrow> slot 1 (window b 18 (1 + n * 528)) j = slot 19 b j"
proof -
  assume a: "slots_fit 19 n b" "j < n"
  then have "(j + 1) * 528 \<le> n * 528" by (intro mult_right_mono) auto
  then have "min (528 :: nat) (n * 528 - j * 528) = 528" by simp
  then show ?thesis by (simp add: slot_def window_def drop_take add_ac)
qed

lemma Fill_header_type:
  assumes "has_header m" and "FillI2NPMessageHeader env rnd m t r = Some m'"
  shows "GetTypeID m' = Some t"
  using assms(2) getters_after_header(1) unfolding Fill_header_eq [OF assms(1)] by auto

lemma Tunnel_Build_slots:
  assumes env: "build_env_ok env" and ok: "\<forall>h \<in> set hops. hop_ok h" and l7: "length hops \<le> 7"
    and ch: "build_choices hops ks idxs ws fakes"
  defines "n \<equiv> num_records (length hops)"
  obtains msg rs where
    "Tunnel_Build env ienv rnd addr hours ks idxs ws fakes mid hops =
       Some (with_indices idxs hops, GetNextIdentHash (with_indices idxs hops), msg)"
    "build_body n (msg_payload msg)" "GetTypeID msg = Some eI2NPVariableTunnelBuild"
    "request_records env hours mid ks ws (with_indices idxs hops) = Some rs"
    "\<forall>p < length hops. slot 1 (msg_payload msg) (hop_recordIndex (with_indices idxs hops ! p)) =
       foldr (rec_dec (be_aes env)) (take p (with_indices idxs hops)) (rs ! p)"
    "\<forall>p < length fakes. slot 1 (msg_payload msg) (idxs ! (length hops + p)) = fakes ! p"
proof -
  let ?hops = "with_indices idxs hops"
  have aes: "aes_ok (be_aes env)" using env by (simp add: build_env_ok_def)
  have n7: "n \<le> 7" and nl: "length hops \<le> n" using num_records_bounds l7 by (auto simp: n_def)
  have c: "length ks = length hops" "length ws = length hops" "length idxs = n" "set idxs = {..<n}"
    "length fakes = n - length hops" "\<forall>r \<in> set fakes. length r = 528"
    using ch by (auto simp: build_choices_def n_def Let_def)
  have di: "distinct idxs" using c(3,4) by (simp add: card_distinct)
  have n8: "n * 528 \<le> 3696" using n7 by simp
  define m0 where "m0 = NewI2NPShortMessage addr"
  define b0 where "b0 = patch (msg_buf m0) 18 [word_of_nat n]"
  define m1 where "m1 = add_len (m0\<lparr>msg_buf := b0\<rparr>) (Suc (n * 528))"
  have m0: "msg_offset m0 = 2" "msg_len m0 = 18" "length (msg_buf m0) = 4112"
    by (simp_all add: m0_def NewI2NPShortMessage_def I2NPMessageBuffer_def I2NP_MAX_SHORT_MESSAGE_SIZE_def)
  have p1: "put_at m0 (GetPayload m0) [word_of_nat n] = Some (m0\<lparr>msg_buf := b0\<rparr>)"
    using m0 by (simp add: put_at_def GetPayload_def GetBuffer_def mem_write_patch b0_def)
  have m1: "msg_offset m1 = 2" "msg_len m1 = 19 + n * 528" "msg_buf m1 = b0" "GetPayload m1 = 18"
    using m0 by (simp_all add: m1_def add_len_def GetPayload_def GetBuffer_def)
  have l0: "length b0 = 4112" using m0 by (simp add: b0_def)
  have fit0: "slots_fit 19 n b0" using l0 n8 by (simp add: slots_fit_def)
  obtain b1 rs where b1: "place_records env hours mid ks idxs ws 19 hops b0 = Some (?hops, b1)"
    "request_records env hours mid ks ws ?hops = Some rs" "slots_upd 19 n b0 (slot 19 b1) b1"
    "\<forall>p < length hops. slot 19 b1 (idxs ! p) = rs ! p"
    using place_records_slots [OF env ok, of ks idxs ws n 19 b0 hours mid] c nl di fit0 by auto
  have fit1: "slots_fit 19 n b1" using slots_upd_fit [OF b1(3)] fit0 by simp
  have dt: "distinct (drop (length hops) idxs)" using di by (rule distinct_drop)
  have st: "\<forall>i \<in> set (drop (length hops) idxs). i < n" using c(4) by (auto dest: in_set_dropD)
  obtain b2 where b2: "fake_records fakes (drop (length hops) idxs) 19 b1 = Some b2"
    "slots_upd 19 n b1 (slot 19 b2) b2"
    "\<forall>p < length (drop (length hops) idxs). slot 19 b2 (drop (length hops) idxs ! p) = fakes ! p"
    "\<forall>j < n. j \<notin> set (drop (length hops) idxs) \<longrightarrow> slot 19 b2 j = slot 19 b1 j"
    using fake_records_slots [OF c(6) _ dt st fit1] c(3,5) by auto
  have fit2: "slots_fit 19 n b2" using slots_upd_fit [OF b2(2)] fit1 by simp
  have ix: "indices ?hops = take (length hops) idxs" using with_indices_simps(4) nl c(3) by simp
  have disj: "set (take (length hops) idxs) \<inter> set (drop (length hops) idxs) = {}"
    using di set_take_disj_set_drop_if_distinct [of idxs "length hops" "length hops"] by simp
  have iv: "\<forall>h \<in> set ?hops. length (hop_replyIV h) = 16"
    using with_indices_hop_ok [OF ok] by (auto simp: hop_ok_def)
  have ib: "\<forall>i \<in> set (indices ?hops). i < n" unfolding ix using c(4) by (auto dest: in_set_takeD)
  have id: "distinct (indices ?hops)" unfolding ix using di by (rule distinct_take)
  obtain f b3 where b3: "predecrypt (be_aes env) 19 ?hops b2 = Some b3" "slots_upd 19 n b2 f b3"
    "\<forall>m < length ?hops. f (hop_recordIndex (?hops ! m)) =
       foldr (rec_dec (be_aes env)) (take m ?hops) (slot 19 b2 (hop_recordIndex (?hops ! m)))"
    "\<forall>j < n. j \<notin> set (indices ?hops) \<longrightarrow> f j = slot 19 b2 j"
    using predecrypt_slots [OF aes iv fit2 id ib] by blast
  have fit3: "slots_fit 19 n b3" using slots_upd_fit [OF b3(2)] fit2 by simp
  have l3: "length b3 = 4112" using b1(3) b2(2) b3(2) l0 by (simp add: slots_upd_def)
  have t3: "take 19 b3 = take 19 b0" using b1(3) b2(2) b3(2) by (simp add: slots_upd_def)
  define m3 where "m3 = m1\<lparr>msg_buf := b3\<rparr>"
  have h3: "has_header m3" using m1 l3 n8 by (simp add: has_header_def m3_def)
  obtain msg where msg: "FillI2NPMessageHeader ienv rnd m3 eI2NPVariableTunnelBuild 0 = Some msg"
    "msg_payload msg = msg_payload m3"
    using Fill_header_Some [OF h3] by metis
  have pl: "msg_payload m3 = window b3 18 (1 + n * 528)"
    using m1 by (simp add: msg_payload_def m3_def)
  have "Tunnel_Build env ienv rnd addr hours ks idxs ws fakes mid hops =
      Some (?hops, GetNextIdentHash ?hops, msg)"
    using p1 b1(1) b2(1) b3(1) msg(1) m1
    by (simp add: Tunnel_Build_def GetNumHops_def TUNNEL_BUILD_RECORD_SIZE_def Let_def
        n_def [symmetric] m0_def [symmetric] m1_def [symmetric] m3_def [symmetric])
  moreover have "build_body n (msg_payload msg)"
  proof -
    have "take 1 (window b3 18 (1 + n * 528)) = drop 18 (take 19 b3)"
      by (simp add: window_def drop_take)
    also have "\<dots> = [word_of_nat n]" unfolding t3 using m0 by (simp add: b0_def patch_def)
    finally show ?thesis using n7 n8 l3 msg(2) pl by (simp add: build_body_def)
  qed
  moreover have "GetTypeID msg = Some eI2NPVariableTunnelBuild"
    by (rule Fill_header_type [OF h3 msg(1)])
  moreover have sl: "slot 1 (msg_payload msg) j = f j" if "j < n" for j
    using slot_of_payload [OF fit3 that] slots_updD [OF b3(2) that] msg(2) pl by simp
  moreover have "slot 1 (msg_payload msg) (hop_recordIndex (?hops ! p)) =
      foldr (rec_dec (be_aes env)) (take p ?hops) (rs ! p)" if p: "p < length hops" for p
  proof -
    have lh: "length ?hops = length hops" using with_indices_simps(3) nl c(3) by simp
    have i: "hop_recordIndex (?hops ! p) = idxs ! p"
      using arg_cong [OF ix, of "\<lambda>xs. xs ! p"] p lh by simp
    have "idxs ! p \<in> set (take (length hops) idxs)" using p nl c(3) by (auto simp: in_set_conv_nth)
    then have "idxs ! p < n" "idxs ! p \<notin> set (drop (length hops) idxs)"
      using ib disj unfolding ix by auto
    then show ?thesis using sl b3(3) [rule_format, of p] b2(4) b1(4) p lh i by simp
  qed
  moreover have "slot 1 (msg_payload msg) (idxs ! (length hops + p)) = fakes ! p" if p: "p < length fakes" for p
  proof -
    have q: "drop (length hops) idxs ! p = idxs ! (length hops + p)" "p < length (drop (length hops) idxs)"
      using p c(3,5) nl by auto
    then have "idxs ! (length hops + p) \<in> set (drop (length hops) idxs)" by (metis nth_mem)
    then have "idxs ! (length hops + p) < n" "idxs ! (length hops + p) \<notin> set (indices ?hops)"
      using st disj unfolding ix by auto
    then show ?thesis using sl b3(4) b2(3) q by simp
  qed
  ultimately show thesis using that b1(2) by blast
qed


lemma CreateBuildRequestRecord_length:
  assumes env: "build_env_ok env" and hop: "hop_ok hop" and rec: "CreateBuildRequestRecord env k hours hop mid = Some r"
  shows "length r = 528"
proof -
  have "length (take 16 (rr_ident (hop_router hop))) = 16" using hop by (auto simp: hop_ok_def)
  moreover obtain e where "r = take 16 (rr_ident (hop_router hop)) @ e" "length e = 512"
    using CreateBuildRequestRecord_eq [OF env hop, of k hours mid] rec by (metis option.inject)
  ultimately show ?thesis by simp
qed

text \<open>More than seven records do not fit into the short message.\<close>

lemma place_records_fit:
  "place_records env hours mid ks idxs ws off hops b = Some (hops', b') \<Longrightarrow> i \<in> set (take (length hops) idxs) \<Longrightarrow>
     (\<And>k h m r. CreateBuildRequestRecord env k hours h m = Some r \<Longrightarrow> h \<in> set hops \<Longrightarrow> length r = 528) \<Longrightarrow>
     off + i * 528 + 528 \<le> length b"
proof (induction env hours mid ks idxs ws off hops b arbitrary: hops' b' rule: place_records.induct)
  case (1 env hours mid k ks idx idxs w ws off hop hops buf)
  from "1.prems"(1) obtain r b1 hops1 where
    r: "CreateBuildRequestRecord env k hours hop (if hops \<noteq> [] then w else mid) = Some r"
      "mem_write buf (off + idx * TUNNEL_BUILD_RECORD_SIZE) r = Some b1"
      "place_records env hours mid ks idxs ws off hops b1 = Some (hops1, b')"
    by (auto split: bind_splits)
  have l: "length r = 528" using "1.prems"(3) [OF r(1)] by simp
  have lb: "length b1 = length buf" by (rule mem_write_length [OF r(2)])
  have "off + idx * 528 + 528 \<le> length buf" using r(2) l by (simp add: mem_write_def TUNNEL_BUILD_RECORD_SIZE_def split: if_splits)
  moreover have "off + i * 528 + 528 \<le> length buf" if "i \<in> set (take (length hops) idxs)"
    using "1.IH" [OF r(1,2,3) that "1.prems"(3)] lb by simp
  ultimately show ?case using "1.prems"(2) by auto
qed auto

lemma Tunnel_Build_overflow:
  assumes env: "build_env_ok env" and ok: "\<forall>h \<in> set hops. hop_ok h" and l7: "7 < length hops"
    and ch: "build_choices hops ks idxs ws fakes"
  shows "Tunnel_Build env ienv rnd addr hours ks idxs ws fakes mid hops = None"
proof (rule ccontr)
  let ?n = "num_records (length hops)"
  assume "Tunnel_Build env ienv rnd addr hours ks idxs ws fakes mid hops \<noteq> None"
  then obtain x where x: "Tunnel_Build env ienv rnd addr hours ks idxs ws fakes mid hops = Some x" by blast
  define m0 where "m0 = NewI2NPShortMessage addr"
  have m0: "msg_offset m0 = 2" "msg_len m0 = 18" "length (msg_buf m0) = 4112"
    by (simp_all add: m0_def NewI2NPShortMessage_def I2NPMessageBuffer_def I2NP_MAX_SHORT_MESSAGE_SIZE_def)
  have n: "?n = length hops" using l7 by (simp add: num_records_def STANDARD_NUM_RECORDS_def)
  obtain b0 hops' b1 where b0: "mem_write (msg_buf m0) 18 [word_of_nat ?n] = Some b0"
    and pl: "place_records env hours mid ks idxs ws 19 hops b0 = Some (hops', b1)"
    using x m0 by (auto simp: Tunnel_Build_def GetNumHops_def Let_def put_at_def GetPayload_def GetBuffer_def
        add_len_def m0_def [symmetric] split: bind_splits)
  have "set (take (length hops) idxs) = {..<?n}" using ch n by (simp add: build_choices_def Let_def)
  then have "7 \<in> set (take (length hops) idxs)" using n l7 by simp
  from place_records_fit [OF pl this] have "19 + 7 * 528 + 528 \<le> length b0"
    using CreateBuildRequestRecord_length [OF env] ok by blast
  then show False using mem_write_length [OF b0] m0 by simp
qed

lemma chained_with_indices:
  "chained hops \<Longrightarrow> length hops \<le> length idxs \<Longrightarrow> chained (with_indices idxs hops)"
proof (induction hops arbitrary: idxs)
  case (Cons h hops)
  obtain i idxs' where i: "idxs = i # idxs'" using Cons.prems(2) by (cases idxs) auto
  show ?case
  proof (cases hops)
    case Nil
    then show ?thesis by (simp add: i with_indices_simps)
  next
    case c: (Cons n hops')
    obtain j idxs'' where j: "idxs' = j # idxs''" using Cons.prems(2) i c by (cases idxs') auto
    show ?thesis using Cons.IH [of idxs'] Cons.prems i j c by (auto simp: with_indices_simps)
  qed
qed (auto simp: with_indices_simps)

lemma nth_with_indices:
  "length hops \<le> length idxs \<Longrightarrow> p < length hops \<Longrightarrow> with_indices idxs hops ! p = (hops ! p)\<lparr>hop_recordIndex := idxs ! p\<rparr>"
  by (simp add: with_indices_def)

lemma endpoints_with_indices:
  assumes "\<forall>h \<in> set (butlast hops). \<not> hop_isEndpoint h" and "length hops \<le> length idxs"
  shows "\<forall>h \<in> set (butlast (with_indices idxs hops)). \<not> hop_isEndpoint h"
proof
  fix h assume "h \<in> set (butlast (with_indices idxs hops))"
  then obtain p where p: "p < length (butlast (with_indices idxs hops))" "h = butlast (with_indices idxs hops) ! p"
    by (auto simp: in_set_conv_nth)
  then have q: "p < length hops - 1" using with_indices_simps(3) [OF assms(2)] by simp
  then have "h = (hops ! p)\<lparr>hop_recordIndex := idxs ! p\<rparr>"
    using p nth_with_indices [OF assms(2), of p] by (simp add: nth_butlast)
  moreover have "hops ! p \<in> set (butlast hops)" using q by (auto simp: in_set_conv_nth nth_butlast)
  ultimately show "\<not> hop_isEndpoint h" using assms(1) by simp
qed

lemma last_with_indices:
  "length hops \<le> length idxs \<Longrightarrow> hops \<noteq> [] \<Longrightarrow>
     the_forward (last (with_indices idxs hops)) content mid = the_forward (last hops) content mid"
  using with_indices_simps(3) [of hops idxs] with_indices_Nil_iff [of hops idxs]
  by (simp add: last_conv_nth nth_with_indices the_forward_def)

lemma transits_with_indices:
  assumes "length hops \<le> length idxs"
  shows "map2 (\<lambda>(ctx, rnd) h. hop_transit rnd ctx h) ctxs (with_indices idxs hops) =
    map2 (\<lambda>(ctx, rnd) h. hop_transit rnd ctx h) ctxs hops"
  using with_indices_simps(3) [OF assms] assms
  by (intro nth_equalityI) (auto simp: nth_with_indices hop_transit_def split: prod.splits)

lemma HandleTunnelBuildResponse_slots:
  assumes env: "build_env_ok env" and body: "build_body n b"
    and iv: "\<forall>h \<in> set hops. length (hop_replyIV h) = 16"
    and ix: "distinct (indices hops)" "\<forall>i \<in> set (indices hops). i < n"
    and rs: "\<forall>p < length hops. length (rs p) = 528"
    and sl: "\<forall>p < length hops. slot 1 b (hop_recordIndex (hops ! p)) =
       fold (rec_enc (be_aes env)) (drop p hops) (response (be_sha256 env) (rets p) (rs p))"
  shows "HandleTunnelBuildResponse (be_aes env) hops b st = Some ((\<forall>p < length hops. rets p = 0),
    map rets [0..<length hops], if \<forall>p < length hops. rets p = 0 then eTunnelStateEstablished else st)"
proof -
  let ?D = "rec_dec (be_aes env)" and ?L = "length hops"
  have aes: "aes_ok (be_aes env)" and sha: "\<forall>x. length (be_sha256 env x) = 32"
    using env by (auto simp: build_env_ok_def)
  have ri: "distinct (indices (rev hops))" "\<forall>i \<in> set (indices (rev hops)). i < n"
    "\<forall>h \<in> set (rev hops). length (hop_replyIV h) = 16"
    using ix iv by (auto simp: rev_map [symmetric])
  obtain b' where b': "decrypt_responses (be_aes env) n 1 (rev hops) b = Some b'" "slots_fit 1 n b'"
    "\<forall>m < length (rev hops). slot 1 b' (hop_recordIndex (rev hops ! m)) =
       fold ?D (take (Suc m) (rev hops)) (slot 1 b (hop_recordIndex (rev hops ! m)))"
    using decrypt_responses_slots [OF aes ri(3) build_body_fit [OF body] ri(1,2)] by blast
  have res: "slot 1 b' (hop_recordIndex (hops ! p)) = response (be_sha256 env) (rets p) (rs p)" if p: "p < ?L" for p
  proof -
    let ?m = "?L - 1 - p" and ?r = "response (be_sha256 env) (rets p) (rs p)"
    have m: "?m < length (rev hops)" "rev hops ! ?m = hops ! p" using p by (auto simp: rev_nth)
    have "take (Suc ?m) (rev hops) = rev (drop p hops)" using p by (simp add: take_rev Suc_diff_Suc)
    then have "slot 1 b' (hop_recordIndex (hops ! p)) = foldr ?D (drop p hops) (fold (rec_enc (be_aes env)) (drop p hops) ?r)"
      using b'(3) [rule_format, OF m(1)] m(2) sl p by (simp add: foldr_conv_fold)
    also have "\<dots> = ?r"
      using reply_layers_cancel [OF aes, of "drop p hops" ?r] iv response_facts(1) [OF _ sha, of "rs p"] rs p
      by (auto dest: in_set_dropD)
    finally show ?thesis .
  qed
  have "map (\<lambda>h. slot 1 b' (hop_recordIndex h) ! 527) hops = map rets [0..<?L]"
    using res response_facts(2) [OF _ sha] rs by (intro nth_equalityI) auto
  then have codes: "response_codes 1 hops b' = Some (map rets [0..<?L])"
    using response_codes_slots [OF b'(2) ix(2)] by simp
  have all: "(\<forall>ret \<in> set (map rets [0..<?L]). ret = 0) \<longleftrightarrow> (\<forall>p < ?L. rets p = 0)" by auto
  show ?thesis
    unfolding HandleTunnelBuildResponse_def build_body_num [OF body] Option.bind.bind_lunit b'(1) codes Let_def all
    by simp
qed

lemma ret_code_0: "ret_code ctx = 0 \<longleftrightarrow> takes_part ctx"
  by (simp add: ret_code_def)

lemma build_and_reply:
  assumes env: "build_env_ok env" and wf: "wf_hops hops" and ok: "\<forall>h \<in> set hops. hop_ok h"
    and l7: "length hops \<le> 7" and ch: "build_choices hops ks idxs ws fakes"
    and own: "list_all2 (owns env) hops (map fst ctxs)"
  shows "\<exists>msg. Tunnel_Build env ienv rnd addr hours ks idxs ws fakes mid hops =
      Some (with_indices idxs hops, rr_ident (hop_router (hd hops)), msg) \<and>
    (no_clash env ctxs (msg_payload msg) \<longrightarrow> (\<exists>content.
       build_run env ctxs (msg_payload msg) =
         Some (map2 (\<lambda>(ctx, rnd) h. hop_transit rnd ctx h) ctxs hops, the_forward (last hops) content mid) \<and>
       HandleTunnelBuildResponse (be_aes env) (with_indices idxs hops) content st =
         Some ((\<forall>(ctx, _) \<in> set ctxs. takes_part ctx), map (\<lambda>(ctx, _). ret_code ctx) ctxs,
           if \<forall>(ctx, _) \<in> set ctxs. takes_part ctx then eTunnelStateEstablished else st)))"
proof -
  let ?hops = "with_indices idxs hops" and ?n = "num_records (length hops)"
  have ne: "hops \<noteq> []" "chained hops" "\<forall>h \<in> set (butlast hops). \<not> hop_isEndpoint h"
    using wf by (auto simp: wf_hops_def)
  have li: "length hops \<le> length idxs" "set idxs = {..<?n}" "length idxs = ?n"
    using ch num_records_bounds(1) [of hops] by (auto simp: build_choices_def Let_def)
  obtain msg rs where msg: "Tunnel_Build env ienv rnd addr hours ks idxs ws fakes mid hops =
       Some (?hops, GetNextIdentHash ?hops, msg)"
    "build_body ?n (msg_payload msg)"
    "request_records env hours mid ks ws ?hops = Some rs"
    "\<forall>p < length hops. slot 1 (msg_payload msg) (hop_recordIndex (?hops ! p)) =
       foldr (rec_dec (be_aes env)) (take p ?hops) (rs ! p)"
    using Tunnel_Build_slots [OF env ok l7 ch] by metis
  have lh: "length ?hops = length hops" using with_indices_simps(3) [OF li(1)] .
  have hd: "GetNextIdentHash ?hops = rr_ident (hop_router (hd hops))"
    using ne(1) lh nth_with_indices [OF li(1), of 0] by (simp add: GetNextIdentHash_def hd_conv_nth flip: length_greater_0_conv)
  have ok': "\<forall>h \<in> set ?hops. hop_ok h" using with_indices_hop_ok [OF ok] by blast
  have iv: "\<forall>h \<in> set ?hops. length (hop_replyIV h) = 16" using ok' by (auto simp: hop_ok_def)
  have ix: "indices ?hops = take (length hops) idxs" by (rule with_indices_simps(4) [OF li(1)])
  have di: "distinct (indices ?hops)" "\<forall>i \<in> set (indices ?hops). i < ?n"
    unfolding ix using li(2,3) by (auto simp: card_distinct distinct_take dest: in_set_takeD)
  have lrs: "length rs = length hops \<and> (\<forall>r \<in> set rs. length r = 528)"
    using request_records_length [OF env msg(3) ok'] lh by simp
  show ?thesis
  proof (intro exI [of _ msg] conjI impI)
    show "Tunnel_Build env ienv rnd addr hours ks idxs ws fakes mid hops =
      Some (?hops, rr_ident (hop_router (hd hops)), msg)"
      using msg(1) hd by simp
    assume clash: "no_clash env ctxs (msg_payload msg)"
    obtain content where c: "build_run env ctxs (msg_payload msg) =
        Some (map2 (\<lambda>(ctx, rnd) h. hop_transit rnd ctx h) ctxs ?hops, the_forward (last ?hops) content mid)"
      "build_body ?n content"
      "\<forall>p < length ?hops. slot 1 content (hop_recordIndex (?hops ! p)) =
         fold (rec_enc (be_aes env)) (drop p ?hops) (response (be_sha256 env) (ret_code (fst (ctxs ! p))) (rs ! p))"
      using build_run_slots [OF env _ ok' with_indices_owns [OF own li(1)] chained_with_indices [OF ne(2) li(1)]
          endpoints_with_indices [OF ne(3) li(1)] di msg(2,3) _ clash] msg(4) lh ne(1) with_indices_Nil_iff [OF li(1)]
      by auto
    have lc: "length ctxs = length hops" using list_all2_lengthD [OF own] by simp
    have "\<forall>p < length ?hops. length (rs ! p) = 528" using lrs lh by auto
    note r = HandleTunnelBuildResponse_slots [OF env c(2) iv di this c(3), of st]
    have all: "(\<forall>p < length ?hops. ret_code (fst (ctxs ! p)) = 0) \<longleftrightarrow> (\<forall>(ctx, _) \<in> set ctxs. takes_part ctx)"
      using lc lh by (simp add: ret_code_0 all_set_conv_all_nth case_prod_beta)
    have codes: "map (\<lambda>p. ret_code (fst (ctxs ! p))) [0..<length ?hops] = map (\<lambda>(ctx, _). ret_code ctx) ctxs"
      using lc lh by (intro nth_equalityI) (auto split: prod.splits)
    show "\<exists>content. build_run env ctxs (msg_payload msg) =
         Some (map2 (\<lambda>(ctx, rnd) h. hop_transit rnd ctx h) ctxs hops, the_forward (last hops) content mid) \<and>
       HandleTunnelBuildResponse (be_aes env) ?hops content st =
         Some ((\<forall>(ctx, _) \<in> set ctxs. takes_part ctx), map (\<lambda>(ctx, _). ret_code ctx) ctxs,
           if \<forall>(ctx, _) \<in> set ctxs. takes_part ctx then eTunnelStateEstablished else st)"
      using c(1) r unfolding all codes transits_with_indices [OF li(1)] last_with_indices [OF li(1) ne(1)]
      by blast
  qed
qed


section \<open>Properties\<close>

text \<open>
  C3: a tunnel of up to seven hops is built as intended. \<open>Tunnel::Build\<close> sends its message to the
  first hop; every hop decrypts its own record, creates exactly the transit tunnel its hop
  configuration describes (or answers 30 when it does not take part) and sends the message to the
  next hop, the last one to the reply tunnel of an outbound tunnel or back to the owner; and
  \<open>HandleTunnelBuildResponse\<close> removes all layers, reads exactly the hops' return codes, and
  establishes the tunnel if and only if all hops accepted.
\<close>

theorem tunnel_build_round_trip:
  assumes "build_env_ok env" and "wf_hops hops" and "\<forall>h \<in> set hops. hop_ok h"
    and "length hops \<le> 7" and "build_choices hops ks idxs ws fakes"
    and "list_all2 (owns env) hops (map fst ctxs)"
  shows "\<exists>msg. Tunnel_Build env ienv rnd addr hours ks idxs ws fakes mid hops =
      Some (with_indices idxs hops, rr_ident (hop_router (hd hops)), msg) \<and>
    (no_clash env ctxs (msg_payload msg) \<longrightarrow> (\<exists>content.
       build_run env ctxs (msg_payload msg) =
         Some (map2 (\<lambda>(ctx, rnd) h. hop_transit rnd ctx h) ctxs hops, the_forward (last hops) content mid) \<and>
       HandleTunnelBuildResponse (be_aes env) (with_indices idxs hops) content st =
         Some ((\<forall>(ctx, _) \<in> set ctxs. takes_part ctx), map (\<lambda>(ctx, _). ret_code ctx) ctxs,
           if \<forall>(ctx, _) \<in> set ctxs. takes_part ctx then eTunnelStateEstablished else st)))"
  by (rule build_and_reply [OF assms])

definition sample_benv :: build_env where
  "sample_benv = \<lparr>be_dh = sample_dh, be_sha256 = \<lambda>_. replicate 32 9, be_aes = xor_aes\<rparr>"

definition sample_hop_router :: "byte \<Rightarrow> router_ref" where
  "sample_hop_router n = \<lparr>rr_ident = replicate 32 n, rr_encryptionKey = snd (GenerateElGamalKeyPair sample_dh [n])\<rparr>"

definition sample_rctx :: "byte \<Rightarrow> bool \<Rightarrow> router_ctx" where
  "sample_rctx n acc = \<lparr>rc_ident = replicate 32 n, rc_priv = [n], rc_acceptsTunnels = acc, rc_numTransit = 3,
     rc_bandwidthExceeded = False\<rparr>"

definition sample_hops :: "hop_config list" where
  "sample_hops = the (TunnelConfig (sample_hop_router 8) (sample_hop_rnd 8)
     [(sample_hop_rnd 1, sample_hop_router 1), (sample_hop_rnd 2, sample_hop_router 2)] None)"

lemma rec_crypt_first:
  assumes "length r = 528" and "length (hop_replyIV h) = 16" and "aes_ok aes"
  shows "take 16 (rec_enc aes h r) = aes_enc aes (hop_replyKey h) (block_xor (hop_replyIV h) (take 16 r))"
    and "take 16 (rec_dec aes h r) = block_xor (aes_dec aes (hop_replyKey h) (take 16 r)) (hop_replyIV h)"
proof -
  have c: "cipher_blocks 33 r = take 16 r # cipher_blocks 32 (drop 16 r)"
    by (simp add: numeral_eq_Suc)
  have l: "length r = 16 * 33" using assms(1) by simp
  have k: "length (aes_enc aes key (block_xor (hop_replyIV h) (take 16 r))) = 16"
    "length (aes_dec aes key (take 16 r)) = 16" for key
    using assms by (simp_all add: aes_ok_def)
  show "take 16 (rec_enc aes h r) = aes_enc aes (hop_replyKey h) (block_xor (hop_replyIV h) (take 16 r))"
    using assms(1) k by (simp add: rec_enc_def cbc_encrypt_record_def cbc_buf_blocks(1) [OF l] c Let_def split: prod.splits)
  show "take 16 (rec_dec aes h r) = block_xor (aes_dec aes (hop_replyKey h) (take 16 r)) (hop_replyIV h)"
    using assms k by (simp add: rec_dec_def cbc_decrypt_record_def cbc_buf_blocks(2) [OF l] c Let_def split: prod.splits)
qed

lemma one_recordI:
  "build_body n b \<Longrightarrow> (\<And>j. j < n \<Longrightarrow> take 16 (slot 1 b j) = take 16 ident \<Longrightarrow> j = i) \<Longrightarrow> one_record ident b"
  by (auto simp: one_record_def build_body_def Let_def)

lemma sample_hops_eq:
  "sample_hops = [
     \<lparr>hop_router = sample_hop_router 1, hop_nextRouter = Some (sample_hop_router 2), hop_tunnelID = 1,
      hop_nextTunnelID = 2, hop_layerKey = replicate 32 1, hop_ivKey = replicate 32 1, hop_replyKey = replicate 32 1,
      hop_replyIV = replicate 16 1, hop_isGateway = True, hop_isEndpoint = False, hop_recordIndex = 0\<rparr>,
     \<lparr>hop_router = sample_hop_router 2, hop_nextRouter = Some (sample_hop_router 8), hop_tunnelID = 2,
      hop_nextTunnelID = 108, hop_layerKey = replicate 32 2, hop_ivKey = replicate 32 2, hop_replyKey = replicate 32 2,
      hop_replyIV = replicate 16 2, hop_isGateway = False, hop_isEndpoint = False, hop_recordIndex = 0\<rparr>]"
  by (simp add: sample_hops_def TunnelConfig_def TunnelHopConfig_def map_last_def SetNextRouter_def sample_hop_rnd_def)

lemma sample_build:
  "build_env_ok sample_benv" "wf_hops sample_hops" "\<forall>h \<in> set sample_hops. hop_ok h" "length sample_hops = 2"
  "list_all2 (owns sample_benv) sample_hops [sample_rctx 1 a, sample_rctx 2 b]"
proof -
  show "build_env_ok sample_benv"
    using sample_dh_ok xor_aes_ok by (simp add: build_env_ok_def sample_benv_def)
  show "wf_hops sample_hops" by (simp add: sample_hops_eq wf_hops_def)
  show "\<forall>h \<in> set sample_hops. hop_ok h" by (simp add: sample_hops_eq hop_ok_def sample_hop_router_def)
  show "length sample_hops = 2" by (simp add: sample_hops_eq)
  have k: "be_val [x] < dh_p sample_dh" for x
  proof -
    have "be_val [x] < 256 ^ 1" using be_val_bound [of "[x]"] by simp
    also have "(256 :: nat) ^ 1 \<le> 256 ^ 255" by (rule power_increasing) simp_all
    also have "256 ^ 255 < dh_p sample_dh" using sample_dh_ok unfolding dh_ok_def by blast
    finally show ?thesis .
  qed
  have "be_dh sample_benv = sample_dh" by (simp add: sample_benv_def)
  with k have o: "owns sample_benv h (sample_rctx x a)" if "hop_router h = sample_hop_router x" for h x a
    unfolding owns_def that sample_rctx_def sample_hop_router_def router_ctx.simps router_ref.simps by simp
  show "list_all2 (owns sample_benv) sample_hops [sample_rctx 1 a, sample_rctx 2 b]"
    using o [of _ 1 a] o [of _ 2 b] unfolding sample_hops_eq by simp
qed

lemma sample_choices: "build_choices sample_hops [3, 4] [0, 1, 2, 3, 4] [5, 6] (replicate 3 (replicate 528 7))"
  by (auto simp: build_choices_def sample_build(4) num_records_def STANDARD_NUM_RECORDS_def Let_def
      numeral_eq_Suc less_Suc_eq)

lemma less_5: "(j :: nat) < 5 \<longleftrightarrow> j = 0 \<or> j = 1 \<or> j = 2 \<or> j = 3 \<or> j = 4"
  by auto

text \<open>In the sample tunnel no record is mistaken for another one.\<close>

lemma CreateBuildRequestRecord_first:
  assumes "build_env_ok env" and "hop_ok hop" and "CreateBuildRequestRecord env k hours hop mid = Some r"
  shows "take 16 r = take 16 (rr_ident (hop_router hop))"
proof -
  obtain e where "r = take 16 (rr_ident (hop_router hop)) @ e"
    using CreateBuildRequestRecord_eq [OF assms(1,2), of k hours mid] assms(3) by (metis option.inject)
  moreover have "length (take 16 (rr_ident (hop_router hop))) = 16" using assms(2) by (auto simp: hop_ok_def)
  ultimately show ?thesis by simp
qed

lemma sample_crypt_first:
  assumes "length r = 528" and "take 16 r = replicate 16 x" and "hop_replyIV h = replicate 16 n"
  shows "take 16 (rec_enc xor_aes h r) = replicate 16 (165 XOR (n XOR x))"
    and "take 16 (rec_dec xor_aes h r) = replicate 16 ((165 XOR x) XOR n)"
  using rec_crypt_first [OF assms(1) _ xor_aes_ok, of h] assms(2,3)
  by (simp_all add: xor_aes_def block_xor_def)

lemma sample_no_clash:
  assumes "Tunnel_Build sample_benv ienv rnd addr hours [3, 4] [0, 1, 2, 3, 4] [5, 6] (replicate 3 (replicate 528 7)) mid
      sample_hops = Some (hops', ident, msg)"
  shows "no_clash sample_benv [(sample_rctx 1 a, []), (sample_rctx 2 b, [])] (msg_payload msg)"
proof -
  define hops where "hops = with_indices [0, 1, 2, 3, 4] sample_hops"
  obtain A B where AB: "hops = [A, B]" "hop_recordIndex A = 0" "hop_recordIndex B = 1"
    "hop_replyIV A = replicate 16 1" "hop_replyIV B = replicate 16 2" "hop_router A = sample_hop_router 1"
    "hop_router B = sample_hop_router 2"
    by (simp add: hops_def sample_hops_eq with_indices_simps)
  have ok: "hop_ok A" "hop_ok B"
    using with_indices_hop_ok [OF sample_build(3), of _ "[0, 1, 2, 3, 4]"] AB(1) by (auto simp: hops_def)
  have own: "owns sample_benv A (sample_rctx 1 a)"
    using with_indices_owns [OF sample_build(5) [of a b], of "[0, 1, 2, 3, 4]"] sample_build(4)
    unfolding hops_def [symmetric] AB(1) by simp
  have env: "build_env_ok sample_benv" "be_aes sample_benv = xor_aes" "be_sha256 sample_benv = (\<lambda>_. replicate 32 9)"
    using sample_build(1) by (auto simp: sample_benv_def)
  have l7: "length sample_hops \<le> 7" using sample_build(4) by simp
  have n5: "num_records (length sample_hops) = 5" by (simp add: sample_build(4) num_records_def STANDARD_NUM_RECORDS_def)
  obtain msg' rs where m: "msg' = msg" "build_body 5 (msg_payload msg')"
    "request_records sample_benv hours mid [3, 4] [5, 6] hops = Some rs"
    "\<forall>p < length sample_hops. slot 1 (msg_payload msg') (hop_recordIndex (hops ! p)) =
       foldr (rec_dec xor_aes) (take p hops) (rs ! p)"
    "\<forall>p < length (replicate 3 (replicate 528 (7 :: byte))). slot 1 (msg_payload msg') ([0, 1, 2, 3, 4] ! (length sample_hops + p)) =
       replicate 3 (replicate 528 7) ! p"
  proof (rule Tunnel_Build_slots [OF sample_build(1,3) l7 sample_choices, of ienv rnd addr hours mid])
    fix msg' rs
    assume "Tunnel_Build sample_benv ienv rnd addr hours [3, 4] [0, 1, 2, 3, 4] [5, 6] (replicate 3 (replicate 528 7)) mid
      sample_hops = Some (with_indices [0, 1, 2, 3, 4] sample_hops, GetNextIdentHash (with_indices [0, 1, 2, 3, 4] sample_hops), msg')"
    then have eq: "msg' = msg" using assms by simp
    assume a: "build_body (num_records (length sample_hops)) (msg_payload msg')"
      "request_records sample_benv hours mid [3, 4] [5, 6] (with_indices [0, 1, 2, 3, 4] sample_hops) = Some rs"
      "\<forall>p < length sample_hops. slot 1 (msg_payload msg') (hop_recordIndex (with_indices [0, 1, 2, 3, 4] sample_hops ! p)) =
       foldr (rec_dec (be_aes sample_benv)) (take p (with_indices [0, 1, 2, 3, 4] sample_hops)) (rs ! p)"
      "\<forall>p < length (replicate 3 (replicate 528 (7 :: byte))). slot 1 (msg_payload msg') ([0, 1, 2, 3, 4] ! (length sample_hops + p)) =
       replicate 3 (replicate 528 7) ! p"
    show thesis
      by (rule that [OF eq a [unfolded n5 env(2), folded hops_def]])
  qed
  let ?p = "msg_payload msg"
  obtain r0 r1 where rs: "rs = [r0, r1]" "CreateBuildRequestRecord sample_benv 3 hours A 5 = Some r0"
    "CreateBuildRequestRecord sample_benv 4 hours B mid = Some r1"
    using m(3) AB(1) by (auto split: bind_splits)
  have r: "length r0 = 528" "length r1 = 528" "take 16 r0 = replicate 16 1" "take 16 r1 = replicate 16 2"
    using CreateBuildRequestRecord_length [OF env(1) ok(1) rs(2)] CreateBuildRequestRecord_length [OF env(1) ok(2) rs(3)]
      CreateBuildRequestRecord_first [OF env(1) ok(1) rs(2)] CreateBuildRequestRecord_first [OF env(1) ok(2) rs(3)]
    by (simp_all add: AB sample_hop_router_def)
  have s: "slot 1 ?p 0 = r0" "slot 1 ?p 1 = rec_dec xor_aes A r1"
    using m(4) [rule_format, of 0] m(4) [rule_format, of 1] m(1) AB rs(1) sample_build(4) by simp_all
  have sf: "slot 1 ?p j = replicate 528 7" if "2 \<le> j" "j < 5" for j
  proof -
    have c: "[0, 1, 2, 3, 4] ! (2 + 0) = (2 :: nat)" "[0, 1, 2, 3, 4] ! (2 + 1) = (3 :: nat)"
      "[0, 1, 2, 3, 4] ! (2 + 2) = (4 :: nat)" by simp_all
    have k: "slot 1 ?p ([0, 1, 2, 3, 4] ! (2 + k)) = replicate 528 7" if "k < 3" for k
      using m(5) [rule_format, of k] that unfolding m(1) sample_build(4) by simp
    have "j = 2 \<or> j = 3 \<or> j = 4" using that by linarith
    then show ?thesis using k [of 0] k [of 1] k [of 2] unfolding c by auto
  qed
  have id: "rc_ident (sample_rctx 1 a) = replicate 32 1" "rc_ident (sample_rctx 2 b) = replicate 32 2"
    by (simp_all add: sample_rctx_def)
  have f0: "take 16 (slot 1 ?p 1) = replicate 16 ((165 XOR 2) XOR 1)" "length (slot 1 ?p 1) = 528"
    unfolding s(2) using sample_crypt_first(2) [OF r(2,4), of A 1] rec_crypt(2) [OF xor_aes_ok _ r(2), of A] AB(4) by simp_all
  have one: "one_record (rc_ident (sample_rctx 1 a)) ?p"
  proof (rule one_recordI [of 5 _ _ 0])
    show "build_body 5 ?p" using m(1,2) by simp
    fix j assume "j < (5 :: nat)" "take 16 (slot 1 ?p j) = take 16 (rc_ident (sample_rctx 1 a))"
    then show "j = 0" using f0 sf [of j] unfolding id by (cases "j < 2") (auto simp: less_2_cases_iff)
  qed
  have rec: "CreateBuildRequestRecord sample_benv 3 hours A 5 = Some (slot 1 ?p (hop_recordIndex A))"
    using rs(2) s(1) AB(2) by simp
  obtain b1 where b1: "VariableTunnelBuild_forward sample_benv (sample_rctx 1 a) [] ?p (length ?p) =
      Some (b1, hop_transit [] (sample_rctx 1 a) A, Some (the_forward A b1 5))" "build_body 5 b1"
    "slots_upd 1 5 ?p (\<lambda>j. rec_enc (be_aes sample_benv) A (if j = hop_recordIndex A
      then response (be_sha256 sample_benv) (ret_code (sample_rctx 1 a)) (slot 1 ?p (hop_recordIndex A)) else slot 1 ?p j)) b1"
    using VariableTunnelBuild_forward_slots [OF env(1) ok(1) own _ _ rec one, of 5 "[]"] m(1,2) AB(2) by auto
  let ?resp = "response (\<lambda>_. replicate 32 9) (ret_code (sample_rctx 1 a)) r0"
  have t: "slot 1 b1 j = rec_enc xor_aes A (if j = 0 then ?resp else slot 1 ?p j)" if "j < 5" for j
    using slots_updD [OF b1(3) that] unfolding env(2,3) AB(2) s(1) .
  have resp: "length ?resp = 528" "take 16 ?resp = replicate 16 9"
  proof -
    have l: "\<forall>x :: bytes. length ((\<lambda>_. replicate 32 (9 :: byte)) x) = 32" by simp
    show "length ?resp = 528" by (rule response_facts(1) [OF r(1) l])
    have "take 16 ?resp = take 16 (take 32 ?resp)" by simp
    also have "\<dots> = take 16 (replicate 32 9)"
      using response_facts(3) [OF r(1) l, of "ret_code (sample_rctx 1 a)"] by (simp only:)
    finally show "take 16 ?resp = replicate 16 9" by simp
  qed
  have two: "one_record (rc_ident (sample_rctx 2 b)) b1"
  proof (rule one_recordI [OF b1(2), of _ 1])
    fix j assume j: "j < (5 :: nat)" "take 16 (slot 1 b1 j) = take 16 (rc_ident (sample_rctx 2 b))"
    consider "j = 0" | "j = 1" | "2 \<le> j" by linarith
    then show "j = 1"
    proof cases
      case 1
      then show ?thesis using j t [of j] sample_crypt_first(1) [OF resp AB(4)] unfolding id by simp
    next
      case 3
      have "take 16 (slot 1 b1 j) = replicate 16 (165 XOR (1 XOR 7))"
        using t [OF j(1)] sf [OF 3 j(1)] 3 sample_crypt_first(1) [OF _ _ AB(4), of "replicate 528 7" 7] by simp
      then show ?thesis using j(2) unfolding id by simp
    qed
  qed
  show ?thesis using one two b1(1) by (auto split: option.splits)
qed

theorem tunnel_build_round_trip_witness:
  "\<exists>msg content. Tunnel_Build sample_benv sample_env 1 0 4000 [3, 4] [0, 1, 2, 3, 4] [5, 6] (replicate 3 (replicate 528 7)) 77
      sample_hops = Some (with_indices [0, 1, 2, 3, 4] sample_hops, replicate 32 1, msg) \<and>
    build_run sample_benv [(sample_rctx 1 True, []), (sample_rctx 2 False, [])] (msg_payload msg) =
      Some ([Some (CreateTransitTunnel [] 1 (replicate 32 2) 2 (replicate 32 1) (replicate 32 1) True False), None],
        ForwardBuild (replicate 32 8) eI2NPVariableTunnelBuild content 77) \<and>
    HandleTunnelBuildResponse xor_aes (with_indices [0, 1, 2, 3, 4] sample_hops) content eTunnelStatePending =
      Some (False, [0, 30], eTunnelStatePending)"
proof -
  have l7: "length sample_hops \<le> 7" using sample_build(4) by simp
  obtain msg where msg: "Tunnel_Build sample_benv sample_env 1 0 4000 [3, 4] [0, 1, 2, 3, 4] [5, 6]
      (replicate 3 (replicate 528 7)) 77 sample_hops =
      Some (with_indices [0, 1, 2, 3, 4] sample_hops, rr_ident (hop_router (hd sample_hops)), msg)"
    "no_clash sample_benv [(sample_rctx 1 True, []), (sample_rctx 2 False, [])] (msg_payload msg) \<longrightarrow> (\<exists>content.
       build_run sample_benv [(sample_rctx 1 True, []), (sample_rctx 2 False, [])] (msg_payload msg) =
         Some (map2 (\<lambda>(ctx, rnd) h. hop_transit rnd ctx h) [(sample_rctx 1 True, []), (sample_rctx 2 False, [])] sample_hops,
           the_forward (last sample_hops) content 77) \<and>
       HandleTunnelBuildResponse (be_aes sample_benv) (with_indices [0, 1, 2, 3, 4] sample_hops) content eTunnelStatePending =
         Some ((\<forall>(ctx, _) \<in> set [(sample_rctx 1 True, []), (sample_rctx 2 False, [] :: bytes)]. takes_part ctx),
           map (\<lambda>(ctx, _). ret_code ctx) [(sample_rctx 1 True, []), (sample_rctx 2 False, [] :: bytes)],
           if \<forall>(ctx, _) \<in> set [(sample_rctx 1 True, []), (sample_rctx 2 False, [] :: bytes)]. takes_part ctx
           then eTunnelStateEstablished else eTunnelStatePending))"
    using tunnel_build_round_trip [OF sample_build(1-3) l7 sample_choices,
        of "[(sample_rctx 1 True, []), (sample_rctx 2 False, [])]" sample_env 1 0 4000 77 eTunnelStatePending]
      sample_build(5) [of True False] by auto
  have tp: "takes_part (sample_rctx 1 True)" "\<not> takes_part (sample_rctx 2 False)"
    by (simp_all add: takes_part_def sample_rctx_def MAX_NUM_TRANSIT_TUNNELS_def)
  show ?thesis
    using msg(1) mp [OF msg(2) sample_no_clash [OF msg(1)]] tp
    by (auto simp: sample_hops_eq sample_hop_router_def ret_code_def hop_transit_def the_forward_def sample_benv_def)
qed

text \<open>
  C15: a tunnel of more than seven hops makes \<open>Tunnel::Build\<close> write behind the 4112 bytes of its
  short message.
\<close>

theorem Tunnel_Build_eight_hops_overflow:
  assumes "build_env_ok env" and "\<forall>h \<in> set hops. hop_ok h" and "7 < length hops"
    and "build_choices hops ks idxs ws fakes"
  shows "Tunnel_Build env ienv rnd addr hours ks idxs ws fakes mid hops = None"
  by (rule Tunnel_Build_overflow [OF assms])

theorem Tunnel_Build_eight_hops_overflow_witness:
  "Tunnel_Build sample_benv sample_env 1 0 4000 (replicate 8 3) [0..<8] (replicate 8 5) [] 77 (replicate 8 (hd sample_hops)) = None"
  by (rule Tunnel_Build_eight_hops_overflow)
    (use sample_build in \<open>auto simp: sample_hops_eq build_choices_def Let_def num_records_def STANDARD_NUM_RECORDS_def\<close>)

end
