(* ===== verification/SSU_Packet.thy ===== *)
theory SSU_Packet
  imports Crypto_ElGamal Tunnel_Crypto
begin

text \<open>
  SSU packets: \<open>SSUSessionPacket\<close>, and \<open>FillHeaderAndEncrypt\<close>, \<open>Validate\<close>, \<open>Decrypt\<close> of
  \<open>src/core/transport/SSUSession.cpp\<close>.

  A packet is the buffer it lies in and its length; the buffer is 18 bytes longer, the room the
  code uses behind the packet for the IV and the length when it computes the MAC. AES, MD5 and the
  clock are the parameter \<open>ssu_env\<close>.
\<close>

section \<open>SSUSessionPacket\<close>

definition SSU_HEADER_SIZE_MIN :: nat where [i2np_consts]: "SSU_HEADER_SIZE_MIN = 37"
definition SSU_KEYING_MATERIAL_SIZE :: nat where [i2np_consts]: "SSU_KEYING_MATERIAL_SIZE = 64"
definition SSU_FLAG_REKEY :: byte where [i2np_consts]: "SSU_FLAG_REKEY = 0x08"
definition SSU_FLAG_EXTENDED_OPTIONS :: byte where [i2np_consts]: "SSU_FLAG_EXTENDED_OPTIONS = 0x04"

definition PAYLOAD_TYPE_SESSION_REQUEST :: byte where "PAYLOAD_TYPE_SESSION_REQUEST = 0"
definition PAYLOAD_TYPE_SESSION_CREATED :: byte where "PAYLOAD_TYPE_SESSION_CREATED = 1"
definition PAYLOAD_TYPE_SESSION_CONFIRMED :: byte where "PAYLOAD_TYPE_SESSION_CONFIRMED = 2"
definition PAYLOAD_TYPE_RELAY_REQUEST :: byte where "PAYLOAD_TYPE_RELAY_REQUEST = 3"
definition PAYLOAD_TYPE_RELAY_RESPONSE :: byte where "PAYLOAD_TYPE_RELAY_RESPONSE = 4"
definition PAYLOAD_TYPE_RELAY_INTRO :: byte where "PAYLOAD_TYPE_RELAY_INTRO = 5"
definition PAYLOAD_TYPE_DATA :: byte where "PAYLOAD_TYPE_DATA = 6"
definition PAYLOAD_TYPE_PEER_TEST :: byte where "PAYLOAD_TYPE_PEER_TEST = 7"
definition PAYLOAD_TYPE_SESSION_DESTROYED :: byte where "PAYLOAD_TYPE_SESSION_DESTROYED = 8"

lemmas payload_types = PAYLOAD_TYPE_SESSION_REQUEST_def PAYLOAD_TYPE_SESSION_CREATED_def
  PAYLOAD_TYPE_SESSION_CONFIRMED_def PAYLOAD_TYPE_RELAY_REQUEST_def PAYLOAD_TYPE_RELAY_RESPONSE_def
  PAYLOAD_TYPE_RELAY_INTRO_def PAYLOAD_TYPE_DATA_def PAYLOAD_TYPE_PEER_TEST_def
  PAYLOAD_TYPE_SESSION_DESTROYED_def

record ssu_packet =
  pkt_data :: bytes
  pkt_datalen :: nat
  pkt_headerlen :: nat
  pkt_body :: nat
  pkt_bodylen :: nat

definition SSUSessionPacket :: "bytes \<Rightarrow> nat \<Rightarrow> ssu_packet" where
  "SSUSessionPacket buf len = \<lparr>pkt_data = buf, pkt_datalen = len, pkt_headerlen = 0, pkt_body = 0, pkt_bodylen = 0\<rparr>"

definition read_byte :: "bytes \<Rightarrow> nat \<Rightarrow> byte option" where
  "read_byte buf i = map_option hd (mem_read buf i 1)"

definition pkt_Flag :: "ssu_packet \<Rightarrow> byte option" where
  "pkt_Flag pkt = read_byte (pkt_data pkt) 32"

definition pkt_Time :: "ssu_packet \<Rightarrow> 32 word option" where
  "pkt_Time pkt = bufbe32toh (pkt_data pkt) 33"

definition pkt_MAC :: "ssu_packet \<Rightarrow> bytes option" where
  "pkt_MAC pkt = mem_read (pkt_data pkt) 0 16"

definition pkt_IV :: "ssu_packet \<Rightarrow> bytes option" where
  "pkt_IV pkt = mem_read (pkt_data pkt) 16 16"

definition pkt_Rekey :: "ssu_packet \<Rightarrow> bool option" where
  "pkt_Rekey pkt = map_option (\<lambda>f. f AND SSU_FLAG_REKEY \<noteq> 0) (pkt_Flag pkt)"

definition pkt_HasExtendedOptions :: "ssu_packet \<Rightarrow> bool option" where
  "pkt_HasExtendedOptions pkt = map_option (\<lambda>f. f AND SSU_FLAG_EXTENDED_OPTIONS \<noteq> 0) (pkt_Flag pkt)"

definition GetPayloadType :: "ssu_packet \<Rightarrow> byte option" where
  "GetPayloadType pkt = map_option (drop_bit 4) (pkt_Flag pkt)"

definition ComputeHeaderSize :: "ssu_packet \<Rightarrow> nat option" where
  "ComputeHeaderSize pkt = do {
     rekey \<leftarrow> pkt_Rekey pkt;
     let hdr_size = SSU_HEADER_SIZE_MIN + (if rekey then SSU_KEYING_MATERIAL_SIZE else 0);
     let opts_idx = SSU_HEADER_SIZE_MIN + (if rekey then SSU_KEYING_MATERIAL_SIZE else 0);
     ext \<leftarrow> pkt_HasExtendedOptions pkt;
     (if ext \<and> opts_idx < pkt_datalen pkt
      then map_option (\<lambda>n. hdr_size + unat n + 1) (read_byte (pkt_data pkt) opts_idx)
      else Some hdr_size) }"

text \<open>The extended options: where they start, and their length.\<close>

definition ExtractExtendedOptions :: "ssu_packet \<Rightarrow> (nat \<times> nat) option option" where
  "ExtractExtendedOptions pkt = do {
     rekey \<leftarrow> pkt_Rekey pkt;
     let opts_idx = SSU_HEADER_SIZE_MIN + (if rekey then SSU_KEYING_MATERIAL_SIZE else 0);
     (if opts_idx + 1 \<ge> pkt_datalen pkt then Some None
      else map_option (\<lambda>n. Some (opts_idx + 1, unat n)) (read_byte (pkt_data pkt) opts_idx)) }"

text \<open>\<open>bodylen\<close> is a \<open>size_t\<close>: a header longer than the packet makes it wrap around.\<close>

definition ParseHeader :: "ssu_packet \<Rightarrow> (ssu_packet \<times> bool) option" where
  "ParseHeader pkt = do {
     headerlen \<leftarrow> ComputeHeaderSize pkt;
     let pkt = pkt\<lparr>pkt_headerlen := headerlen\<rparr>;
     Some (if headerlen = 0 then (pkt, False)
       else (pkt\<lparr>pkt_body := headerlen, pkt_bodylen := size_sub (pkt_datalen pkt) headerlen\<rparr>, True)) }"

section \<open>Encryption and authentication\<close>

record ssu_env =
  se_aes :: aes_env
  se_md5 :: "bytes \<Rightarrow> bytes"
  se_now :: "32 word"

definition FillHeaderAndEncrypt :: "ssu_env \<Rightarrow> byte \<Rightarrow> bytes \<Rightarrow> nat \<Rightarrow> bytes \<Rightarrow> bytes \<Rightarrow> bytes \<Rightarrow> bytes option" where
  "FillHeaderAndEncrypt env payloadType buf len aesKey iv macKey =
     (if len < SSU_HEADER_SIZE_MIN then Some buf
      else do {
        buf \<leftarrow> mem_write buf 16 iv;
        buf \<leftarrow> mem_write buf 32 [push_bit 4 payloadType];
        buf \<leftarrow> htobe32buf buf 33 (se_now env);
        let encryptedLen = (word_of_nat (len - 32) :: 16 word);
        encrypted \<leftarrow> mem_read buf 32 (unat encryptedLen);
        buf \<leftarrow> mem_write buf 32 (snd (CBCEncryption_Encrypt_buf (aes_enc (se_aes env) aesKey) iv encrypted));
        buf \<leftarrow> mem_write buf len iv;
        buf \<leftarrow> htobe16buf buf (len + 16) encryptedLen;
        msg \<leftarrow> mem_read buf 32 (unat encryptedLen + 18);
        digest \<leftarrow> HMACMD5Digest (se_md5 env) msg macKey;
        mem_write buf 0 digest })"

text \<open>The overload with the session key: the random IV is generated into the packet.\<close>

definition FillHeaderAndEncrypt_session :: "ssu_env \<Rightarrow> bytes \<Rightarrow> bytes \<Rightarrow> bytes \<Rightarrow> byte \<Rightarrow> bytes \<Rightarrow> nat \<Rightarrow> bytes option" where
  "FillHeaderAndEncrypt_session env m_SessionKey m_MacKey rnd payloadType buf len =
     (if len < SSU_HEADER_SIZE_MIN then Some buf
      else do {
        buf \<leftarrow> mem_write buf 16 rnd;
        iv \<leftarrow> mem_read buf 16 16;
        buf \<leftarrow> mem_write buf 32 [push_bit 4 payloadType];
        buf \<leftarrow> htobe32buf buf 33 (se_now env);
        let encryptedLen = (word_of_nat (len - 32) :: 16 word);
        encrypted \<leftarrow> mem_read buf 32 (unat encryptedLen);
        buf \<leftarrow> mem_write buf 32 (snd (CBCEncryption_Encrypt_buf (aes_enc (se_aes env) m_SessionKey) iv encrypted));
        iv' \<leftarrow> mem_read buf 16 16;
        buf \<leftarrow> mem_write buf len iv';
        buf \<leftarrow> htobe16buf buf (len + 16) encryptedLen;
        msg \<leftarrow> mem_read buf 32 (unat encryptedLen + 18);
        digest \<leftarrow> HMACMD5Digest (se_md5 env) msg m_MacKey;
        mem_write buf 0 digest })"

definition ssu_Decrypt :: "ssu_env \<Rightarrow> bytes \<Rightarrow> nat \<Rightarrow> bytes \<Rightarrow> bytes option" where
  "ssu_Decrypt env buf len aesKey =
     (if len < SSU_HEADER_SIZE_MIN then Some buf
      else do {
        let encryptedLen = (word_of_nat (len - 32) :: 16 word);
        iv \<leftarrow> mem_read buf 16 16;
        encrypted \<leftarrow> mem_read buf 32 (unat encryptedLen);
        mem_write buf 32 (snd (CBCDecryption_Decrypt_buf (aes_dec (se_aes env) aesKey) iv encrypted)) })"

definition DecryptSessionKey :: "ssu_env \<Rightarrow> bytes \<Rightarrow> bytes \<Rightarrow> nat \<Rightarrow> bytes option" where
  "DecryptSessionKey env m_SessionKey buf len =
     (if len < SSU_HEADER_SIZE_MIN then Some buf
      else let encryptedLen = (word_of_nat (len - 32) :: 16 word) in
        if unat encryptedLen > 0 then do {
          iv \<leftarrow> mem_read buf 16 16;
          encrypted \<leftarrow> mem_read buf 32 (unat encryptedLen);
          mem_write buf 32 (snd (CBCDecryption_Decrypt_buf (aes_dec (se_aes env) m_SessionKey) iv encrypted)) }
        else Some buf)"

definition ssu_Validate :: "ssu_env \<Rightarrow> bytes \<Rightarrow> nat \<Rightarrow> bytes \<Rightarrow> (bytes \<times> bool) option" where
  "ssu_Validate env buf len macKey =
     (if len < SSU_HEADER_SIZE_MIN then Some (buf, False)
      else do {
        let encryptedLen = (word_of_nat (len - 32) :: 16 word);
        iv \<leftarrow> mem_read buf 16 16;
        buf \<leftarrow> mem_write buf len iv;
        buf \<leftarrow> htobe16buf buf (len + 16) encryptedLen;
        msg \<leftarrow> mem_read buf 32 (unat encryptedLen + 18);
        digest \<leftarrow> HMACMD5Digest (se_md5 env) msg macKey;
        mac \<leftarrow> mem_read buf 0 16;
        Some (buf, mac = digest) })"

text \<open>The padding of \<open>SSUSession::Send(type, payload, len)\<close>; too long a payload is not sent (\<^term>\<open>None\<close>).\<close>

definition SSU_MTU_V4 :: nat where [i2np_consts]: "SSU_MTU_V4 = 1484"

definition padded_16 :: "nat \<Rightarrow> nat" where
  "padded_16 n = (if n mod 16 > 0 then n + (16 - n mod 16) else n)"

lemma padded_16_mult: "padded_16 n = 16 * ((n + 15) div 16)"
proof -
  have "n = 16 * (n div 16) + n mod 16" "n mod 16 < 16" by simp_all
  then obtain q r where n: "n = 16 * q + r" "r < 16" by blast
  show ?thesis
  proof (cases r)
    case (Suc k)
    have "(n + 15) div 16 = (16 * (q + 1) + k) div 16" using n Suc by simp
    also have "\<dots> = q + 1" using n Suc by (simp only: div_mult_self2) simp
    finally show ?thesis using n Suc by (simp add: padded_16_def)
  qed (use n in \<open>simp add: padded_16_def\<close>)
qed

lemma padded_16_ge: "n \<le> padded_16 n"
  unfolding padded_16_def by (simp add: trans_le_add1 less_imp_le)

lemma padded_16_le: "n \<le> 16 * k \<Longrightarrow> padded_16 n \<le> 16 * k"
  unfolding padded_16_mult using div_le_mono [of "n + 15" "16 * k + 15" 16] by simp

lemma whole_blocks_ge: "16 * k \<le> len \<Longrightarrow> 16 * k \<le> len - len mod (16 :: nat)"
  using div_le_mono [of "16 * k" len 16] by (simp add: minus_mod_eq_mult_div)

definition SSUSession_Send :: "ssu_env \<Rightarrow> bytes \<Rightarrow> bytes \<Rightarrow> bytes \<Rightarrow> byte \<Rightarrow> bytes \<Rightarrow> (bytes \<times> nat) option option" where
  "SSUSession_Send env m_SessionKey m_MacKey rnd type payload =
     (let msgSize = padded_16 (length payload + SSU_HEADER_SIZE_MIN) in
      if msgSize > SSU_MTU_V4 then Some None
      else do {
        buf \<leftarrow> mem_write (replicate (SSU_MTU_V4 + 18) 0) SSU_HEADER_SIZE_MIN payload;
        buf \<leftarrow> FillHeaderAndEncrypt_session env m_SessionKey m_MacKey rnd type buf msgSize;
        Some (Some (buf, msgSize)) })"


section \<open>What is sealed is opened\<close>

lemma cbc_buf_any:
  assumes iv: "length iv = 16"
  shows "ecb_inverse e d \<Longrightarrow> length (snd (CBCEncryption_Encrypt_buf e iv bs)) = length bs \<and>
      snd (CBCDecryption_Decrypt_buf d iv (snd (CBCEncryption_Encrypt_buf e iv bs))) = bs"
proof -
  assume e: "ecb_inverse e d"
  let ?n = "length bs div 16" and ?w = "take (16 * (length bs div 16)) bs" and ?r = "drop (16 * (length bs div 16)) bs"
  have "16 * ?n \<le> length bs" by presburger
  then have w: "length ?w = 16 * ?n" by simp
  have cb: "cipher_blocks n (take (16 * n) xs) = cipher_blocks n xs" for n xs
    by (induction n arbitrary: xs) (auto simp: drop_take)
  have en: "snd (CBCEncryption_Encrypt_buf e iv bs) = snd (CBCEncryption_Encrypt_buf e iv ?w) @ ?r"
    by (simp add: cbc_buf_blocks(1) [OF w] cb CBCEncryption_Encrypt_buf_def mult.commute split: prod.splits)
  let ?E = "snd (CBCEncryption_Encrypt_buf e iv ?w)"
  have lE: "length ?E = 16 * ?n" by (rule cbc_buf_length(1) [OF w iv e])
  have lr: "length ?r < 16" by simp
  have dv: "length (?E @ ?r) div 16 = ?n" using lE lr by (simp add: div_add1_eq)
  have c2: "cipher_blocks ?n (?E @ ?r) = cipher_blocks ?n ?E"
    using cb [of ?n "?E @ ?r"] lE by simp
  have de: "snd (CBCDecryption_Decrypt_buf d iv (?E @ ?r)) = snd (CBCDecryption_Decrypt_buf d iv ?E) @ ?r"
    using lE dv c2 by (simp add: cbc_buf_blocks(2) [OF lE] CBCDecryption_Decrypt_buf_def mult.commute split: prod.splits)
  show ?thesis
    unfolding en de using lE cbc_buf_inverse(1) [OF w iv e] by simp
qed

text \<open>The bytes that are encrypted, and the packet afterwards.\<close>

definition plain_part :: "ssu_env \<Rightarrow> byte \<Rightarrow> bytes \<Rightarrow> nat \<Rightarrow> bytes" where
  "plain_part env t buf len = [push_bit 4 t] @ be_bytes 4 (unat (se_now env)) @ window buf 37 (len - 37)"

definition sealed_part :: "ssu_env \<Rightarrow> bytes \<Rightarrow> bytes \<Rightarrow> bytes \<Rightarrow> bytes" where
  "sealed_part env key iv plain = snd (CBCEncryption_Encrypt_buf (aes_enc (se_aes env) key) iv plain)"

definition tag_input :: "bytes \<Rightarrow> bytes \<Rightarrow> bytes" where
  "tag_input sealed iv = sealed @ iv @ be_bytes 2 (length sealed)"

definition ssu_env_ok :: "ssu_env \<Rightarrow> bool" where
  "ssu_env_ok env \<longleftrightarrow> aes_ok (se_aes env) \<and> (\<forall>x. length (se_md5 env x) = 16)"

text \<open>Lengths a packet can have: more than the header, at most what the MAC buffer holds.\<close>

definition packet_size :: "nat \<Rightarrow> bytes \<Rightarrow> bool" where
  "packet_size len buf \<longleftrightarrow> 37 \<le> len \<and> len + 18 \<le> length buf \<and> len \<le> 1998"

lemma mac_exists:
  assumes "ssu_env_ok env" and "length mac = 32" and "length m \<le> 1984"
  obtains d where "HMACMD5Digest (se_md5 env) m mac = Some d" "length d = 16"
  using HMACMD5Digest_eq [OF assms(2), of "se_md5 env" m] assms by (auto simp: ssu_env_ok_def)

lemma enc_len: "packet_size len buf \<Longrightarrow> unat (word_of_nat (len - 32) :: 16 word) = len - 32"
  unfolding packet_size_def unat_of_nat by auto

lemma length_sealed:
  "ssu_env_ok env \<Longrightarrow> length iv = 16 \<Longrightarrow> length (sealed_part env key iv p) = length p"
  using cbc_buf_any [of iv "aes_enc (se_aes env) key" "aes_dec (se_aes env) key" p]
  by (simp add: sealed_part_def ssu_env_ok_def aes_ok_inverse)

lemma FillHeaderAndEncrypt_sealed:
  fixes t :: byte and key :: bytes
  assumes env: "ssu_env_ok env" and iv: "length iv = 16" and mac: "length mac = 32" and size: "packet_size len buf"
  defines "E \<equiv> sealed_part env key iv (plain_part env t buf len)"
  obtains b d where "FillHeaderAndEncrypt env t buf len key iv mac = Some b"
    "FillHeaderAndEncrypt_session env key mac iv t buf len = Some b"
    "HMACMD5Digest (se_md5 env) (tag_input E iv) mac = Some d" "length d = 16"
    "length b = length buf" "window b 0 (len + 18) = d @ iv @ tag_input E iv"
proof -
  have s: "37 \<le> len" "len + 18 \<le> length buf" "len \<le> 1998" using size by (auto simp: packet_size_def)
  have lp: "length (plain_part env t buf len) = len - 32" using s by (simp add: plain_part_def)
  have lE: "length E = len - 32" unfolding E_def using length_sealed [OF env iv] lp by simp
  have lt: "length (tag_input E iv) = len - 14" using lE iv s by (simp add: tag_input_def)
  have "length (tag_input E iv) \<le> 1984" using lt s by simp
  from mac_exists [OF env mac this] obtain d where
    d: "HMACMD5Digest (se_md5 env) (tag_input E iv) mac = Some d" "length d = 16" .
  define b1 where "b1 = patch buf 16 (iv @ [push_bit 4 t] @ be_bytes 4 (unat (se_now env)))"
  define b2 where "b2 = patch b1 32 (tag_input E iv)"
  define b where "b = patch b2 0 d"
  have l1: "length b1 = length buf" using s iv by (simp add: b1_def)
  have l2: "length b2 = length buf" using s iv lt l1 by (simp add: b2_def)
  have w1: "mem_write buf 16 iv = Some (patch buf 16 iv)"
    "mem_write (patch buf 16 iv) 32 [push_bit 4 t] = Some (patch buf 16 (iv @ [push_bit 4 t]))"
    "mem_write (patch buf 16 (iv @ [push_bit 4 t])) 33 (be_bytes 4 (unat (se_now env))) = Some b1"
    using s iv by (simp_all add: mem_write_patch patch_patch b1_def)
  have p1: "window b1 32 (len - 32) = plain_part env t buf len"
  proof -
    have e: "len - 32 = 5 + (len - 37)" using s by simp
    have "window b1 32 (len - 32) = window b1 (16 + 16) 5 @ window b1 37 (len - 37)"
      unfolding e window_add by simp
    also have "window b1 (16 + 16) 5 = take 5 (drop 16 (iv @ [push_bit 4 t] @ be_bytes 4 (unat (se_now env))))"
      unfolding b1_def by (rule window_patch_inside) (use s iv in simp_all)
    also have "window b1 37 (len - 37) = window buf 37 (len - 37)"
      unfolding b1_def by (rule window_patch_after) (use s iv in simp_all)
    finally show ?thesis using iv by (simp add: plain_part_def)
  qed
  have r1: "mem_read b1 32 (len - 32) = Some (plain_part env t buf len)"
    using p1 l1 s by (simp add: mem_read_window)
  have w2: "mem_write b1 32 E = Some (patch b1 32 E)" "mem_write (patch b1 32 E) len iv = Some (patch b1 32 (E @ iv))"
    "mem_write (patch b1 32 (E @ iv)) (len + 16) (be_bytes 2 (len - 32)) = Some b2"
    using s iv lE l1 by (simp_all add: mem_write_patch patch_patch b2_def tag_input_def)
  have iv1: "mem_read (patch buf 16 iv) 16 16 = Some iv"
    using s iv by (simp add: mem_read_window)
  have iv2: "mem_read (patch b1 32 E) 16 16 = Some iv"
  proof -
    have "window (patch b1 32 E) 16 16 = window b1 (16 + 0) 16"
      using window_patch_before [of 32 E b1 16 16] s lE l1 by simp
    also have "\<dots> = iv"
      unfolding b1_def by (subst window_patch_inside) (use s iv in simp_all)
    finally show ?thesis using s lE l1 by (simp add: mem_read_window)
  qed
  have r2: "mem_read b2 32 (len - 32 + 18) = Some (tag_input E iv)"
    using s lt l1 l2 window_patch_same [of 32 "tag_input E iv" b1 "len - 32 + 18"]
    by (simp add: mem_read_window b2_def)
  have w3: "mem_write b2 0 d = Some b" using d(2) l2 s by (simp add: mem_write_patch b_def)
  note el = enc_len [OF size]
  have "FillHeaderAndEncrypt env t buf len key iv mac = Some b"
    unfolding FillHeaderAndEncrypt_def SSU_HEADER_SIZE_MIN_def htobe32buf_mem_write htobe16buf_mem_write Let_def el
    using s(1) by (simp only: w1 r1 w2 r2 w3 d Option.bind.bind_lunit E_def [unfolded sealed_part_def, symmetric]
        not_less [symmetric] if_False)
  moreover have "FillHeaderAndEncrypt_session env key mac iv t buf len = Some b"
    unfolding FillHeaderAndEncrypt_session_def SSU_HEADER_SIZE_MIN_def htobe32buf_mem_write htobe16buf_mem_write Let_def el
    using s(1) by (simp only: w1 r1 w2 r2 w3 d iv1 iv2 Option.bind.bind_lunit E_def [unfolded sealed_part_def, symmetric]
        not_less [symmetric] if_False)
  moreover have "window b 0 (len + 18) = d @ iv @ tag_input E iv"
  proof -
    have e: "len + 18 = 16 + (16 + (len - 14))" using s by simp
    have "window b 0 (len + 18) = window b 0 16 @ window b 16 16 @ window b 32 (len - 14)"
      unfolding e by (simp only: window_add) simp
    moreover have "window b 0 16 = d" using d(2) l2 s by (simp add: b_def)
    moreover have "window b 16 16 = iv"
    proof -
      have "window b 16 16 = window b2 16 16" unfolding b_def by (rule window_patch_after) (use d(2) l2 s in simp_all)
      also have "\<dots> = window b1 (16 + 0) 16"
        unfolding b2_def using window_patch_before [of 32 "tag_input E iv" b1 16 16] s lt l1 by simp
      also have "\<dots> = iv" unfolding b1_def by (subst window_patch_inside) (use s iv in simp_all)
      finally show ?thesis .
    qed
    moreover have "window b 32 (len - 14) = tag_input E iv"
    proof -
      have "window b 32 (len - 14) = window b2 32 (len - 14)"
        unfolding b_def by (rule window_patch_after) (use d(2) l2 s in simp_all)
      then show ?thesis using s lt l1 by (simp add: b2_def)
    qed
    ultimately show ?thesis by simp
  qed
  moreover have "length b = length buf" using d(2) l2 s by (simp add: b_def)
  ultimately show thesis using that d by blast
qed


text \<open>What \<open>Validate\<close> decides, for every packet.\<close>

lemma ssu_Validate_eq:
  assumes env: "ssu_env_ok env" and mac: "length mac = 32" and size: "packet_size len r"
  obtains r' d where "ssu_Validate env r len mac = Some (r', window r 0 16 = d)"
    "HMACMD5Digest (se_md5 env) (tag_input (window r 32 (len - 32)) (window r 16 16)) mac = Some d"
    "length r' = length r" "window r' 0 len = window r 0 len"
proof -
  have s: "37 \<le> len" "len + 18 \<le> length r" "len \<le> 1998" using size by (auto simp: packet_size_def)
  let ?iv = "window r 16 16" and ?E = "window r 32 (len - 32)"
  have l: "length ?iv = 16" "length ?E = len - 32" using s by simp_all
  have "length (tag_input ?E ?iv) \<le> 1984" using l s by (simp add: tag_input_def)
  from mac_exists [OF env mac this] obtain d where
    d: "HMACMD5Digest (se_md5 env) (tag_input ?E ?iv) mac = Some d" "length d = 16" .
  define r' where "r' = patch r len (?iv @ be_bytes 2 (len - 32))"
  have w: "mem_write r len ?iv = Some (patch r len ?iv)"
    "mem_write (patch r len ?iv) (len + 16) (be_bytes 2 (len - 32)) = Some r'"
    using s l by (simp_all add: mem_write_patch patch_patch r'_def)
  have before: "window r' i n = window r i n" if "i + n \<le> len" for i n
    unfolding r'_def by (rule window_patch_before) (use s l that in simp_all)
  have lr: "length r' = length r" using s l by (simp add: r'_def)
  have iv: "mem_read r 16 16 = Some ?iv" using s by (simp add: mem_read_window)
  have msg: "mem_read r' 32 (len - 32 + 18) = Some (tag_input ?E ?iv)"
  proof -
    have e: "32 + (len - 32) = len" using s by simp
    have "window r' 32 (len - 32 + 18) = window r' 32 (len - 32) @ window r' len 18"
      by (simp only: window_add e)
    also have "window r' 32 (len - 32) = ?E" by (rule before) (use s in simp)
    also have "window r' len 18 = ?iv @ be_bytes 2 (len - 32)" unfolding r'_def using s l by simp
    finally show ?thesis using s lr l by (simp add: mem_read_window tag_input_def)
  qed
  have m: "mem_read r' 0 16 = Some (window r 0 16)"
    using before [of 0 16] s lr by (simp add: mem_read_window)
  have "ssu_Validate env r len mac = Some (r', window r 0 16 = d)"
    unfolding ssu_Validate_def SSU_HEADER_SIZE_MIN_def htobe16buf_mem_write Let_def enc_len [OF size]
    using s(1) by (simp only: iv w msg d m Option.bind.bind_lunit not_less [symmetric] if_False)
  moreover have "window r' 0 len = window r 0 len" by (rule before) simp
  ultimately show thesis using that d(1) lr by blast
qed

lemma ssu_Decrypt_sealed:
  assumes env: "ssu_env_ok env" and size: "packet_size len r" and iv: "window r 16 16 = iv"
    and E: "window r 32 (len - 32) = sealed_part env key iv plain"
  obtains r' where "ssu_Decrypt env r len key = Some r'" "DecryptSessionKey env key r len = Some r'"
    "length r' = length r" "window r' 32 (len - 32) = plain"
proof -
  have s: "37 \<le> len" "len + 18 \<le> length r" "len \<le> 1998" using size by (auto simp: packet_size_def)
  have liv: "length iv = 16" using iv s by auto
  have a: "ecb_inverse (aes_enc (se_aes env) key) (aes_dec (se_aes env) key)"
    using env by (simp add: ssu_env_ok_def aes_ok_inverse)
  have lp: "length plain = len - 32"
    using arg_cong [OF E, of length] length_sealed [OF env liv, of key plain] s by simp
  have dec: "snd (CBCDecryption_Decrypt_buf (aes_dec (se_aes env) key) iv (sealed_part env key iv plain)) = plain"
    unfolding sealed_part_def using cbc_buf_any [OF liv a] by blast
  let ?r = "patch r 32 plain"
  have e: "mem_read r 16 16 = Some iv" "mem_read r 32 (len - 32) = Some (sealed_part env key iv plain)"
    using s iv E by (simp_all add: mem_read_window)
  have w: "mem_write r 32 plain = Some ?r" using s lp by (simp add: mem_write_patch)
  have "ssu_Decrypt env r len key = Some ?r"
    unfolding ssu_Decrypt_def SSU_HEADER_SIZE_MIN_def Let_def enc_len [OF size]
    using s(1) by (simp only: e w dec Option.bind.bind_lunit not_less [symmetric] if_False)
  moreover have "DecryptSessionKey env key r len = Some ?r"
    unfolding DecryptSessionKey_def SSU_HEADER_SIZE_MIN_def Let_def enc_len [OF size]
    using s(1) by (simp add: e w dec)
  moreover have "window ?r 32 (len - 32) = plain" using s lp by simp
  ultimately show thesis using that s lp by simp
qed

text \<open>A packet that was sealed is accepted by a receiver that sees its \<open>len\<close> bytes, and opened.\<close>

lemma sealed_packet_opens:
  fixes t :: byte and key :: bytes
  assumes env: "ssu_env_ok env" and iv: "length iv = 16" and mac: "length mac = 32"
    and size: "packet_size len buf" "packet_size len r"
    and b: "FillHeaderAndEncrypt env t buf len key iv mac = Some b" and r: "window r 0 len = window b 0 len"
  obtains r1 r2 where "ssu_Validate env r len mac = Some (r1, True)" "ssu_Decrypt env r1 len key = Some r2"
    "DecryptSessionKey env key r1 len = Some r2" "length r1 = length r" "length r2 = length r"
    "window r2 32 (len - 32) = plain_part env t buf len"
proof -
  let ?E = "sealed_part env key iv (plain_part env t buf len)"
  have s: "37 \<le> len" using size by (simp add: packet_size_def)
  obtain d where d: "HMACMD5Digest (se_md5 env) (tag_input ?E iv) mac = Some d" "length d = 16"
    "window b 0 (len + 18) = d @ iv @ tag_input ?E iv"
    using FillHeaderAndEncrypt_sealed [OF env iv mac size(1), of t key] b by (metis option.inject)
  have lE: "length ?E = len - 32"
    using length_sealed [OF env iv] s size(1) by (simp add: plain_part_def packet_size_def)
  have "window b 0 len = take len (window b 0 (len + 18))" by (simp add: window_def min_def)
  then have w: "window r 0 len = d @ iv @ ?E"
    using r d(2,3) iv lE s by (simp add: tag_input_def)
  have sub: "window x i n = take n (drop i (window x 0 len))" if "i + n \<le> len" for x i n
    using that by (simp add: window_def drop_take min_def)
  have c: "take 16 (drop 0 (d @ iv @ ?E)) = d" "take 16 (drop 16 (d @ iv @ ?E)) = iv"
    "take (len - 32) (drop 32 (d @ iv @ ?E)) = ?E"
    by (simp_all add: iv d(2) lE)
  have le: "0 + 16 \<le> len" "16 + 16 \<le> len" "32 + (len - 32) \<le> len" using s by simp_all
  have p: "window r 0 16 = d" "window r 16 16 = iv" "window r 32 (len - 32) = ?E"
    using sub [OF le(1), of r] sub [OF le(2), of r] sub [OF le(3), of r] unfolding w c .
  obtain r1 d' where v: "ssu_Validate env r len mac = Some (r1, window r 0 16 = d')"
    "HMACMD5Digest (se_md5 env) (tag_input (window r 32 (len - 32)) (window r 16 16)) mac = Some d'"
    "length r1 = length r" "window r1 0 len = window r 0 len"
    by (rule ssu_Validate_eq [OF env mac size(2)])
  have "d' = d" using v(2) d(1) unfolding p by simp
  then have r1: "ssu_Validate env r len mac = Some (r1, True)" "length r1 = length r" "window r1 0 len = window r 0 len"
    using v p(1) by simp_all
  have p1: "window r1 16 16 = iv" "window r1 32 (len - 32) = ?E"
    using sub [OF le(2), of r1] sub [OF le(3), of r1] unfolding r1(3) w c .
  have size1: "packet_size len r1" using size(2) r1(2) by (simp add: packet_size_def)
  obtain r2 where "ssu_Decrypt env r1 len key = Some r2" "DecryptSessionKey env key r1 len = Some r2"
    "length r2 = length r1" "window r2 32 (len - 32) = plain_part env t buf len"
    by (rule ssu_Decrypt_sealed [OF env size1 p1])
  then show thesis using that r1 by simp
qed

lemma plain_part_reads:
  assumes size: "packet_size len r" and w: "window r 32 (len - 32) = plain_part env t buf len"
  shows "pkt_Flag (SSUSessionPacket r len) = Some (push_bit 4 t)" "pkt_Time (SSUSessionPacket r len) = Some (se_now env)"
    "window r 37 (len - 37) = window buf 37 (len - 37)"
proof -
  have s: "37 \<le> len" "len + 18 \<le> length r" using size by (auto simp: packet_size_def)
  have sub: "window r (32 + i) n = take n (drop i (window r 32 (len - 32)))" if "i + n \<le> len - 32" for i n
    using that by (simp add: window_def drop_take min_def add.commute)
  have w1: "window r 32 1 = [push_bit 4 t]" using sub [of 0 1] s unfolding w by (simp add: plain_part_def)
  have w2: "window r 33 4 = be_bytes 4 (unat (se_now env))" using sub [of 1 4] s unfolding w by (simp add: plain_part_def)
  have "length (window r 32 (len - 32)) = len - 32" using s by simp
  then have "length (window buf 37 (len - 37)) = len - 37" unfolding w by (simp add: plain_part_def)
  then show "window r 37 (len - 37) = window buf 37 (len - 37)"
    using sub [of 5 "len - 37"] s unfolding w by (simp add: plain_part_def)
  show "pkt_Flag (SSUSessionPacket r len) = Some (push_bit 4 t)"
    using w1 s by (simp add: pkt_Flag_def SSUSessionPacket_def read_byte_def mem_read_window)
  show "pkt_Time (SSUSessionPacket r len) = Some (se_now env)"
    using w2 s by (simp add: pkt_Time_def SSUSessionPacket_def bufbe32toh_be_val mem_read_window byte_simps)
qed

section \<open>Properties\<close>

text \<open>
  C20: a packet that \<open>FillHeaderAndEncrypt\<close> has sealed, with the session key or an intro key, passes
  \<open>Validate\<close> at a receiver that has the keys, whatever its buffer holds behind the packet, and
  \<open>Decrypt\<close> recovers the payload type, the time and the whole body; no step leaves its buffer.
\<close>

theorem SSU_packet_round_trip:
  fixes t :: byte and key :: bytes
  assumes "ssu_env_ok env" and "length iv = 16" and "length mac = 32" and "t < 16"
    and "packet_size len buf" and "packet_size len r"
  shows "\<exists>b. FillHeaderAndEncrypt env t buf len key iv mac = Some b \<and>
    FillHeaderAndEncrypt_session env key mac iv t buf len = Some b \<and>
    (window r 0 len = window b 0 len \<longrightarrow> (\<exists>r1 r2. ssu_Validate env r len mac = Some (r1, True) \<and>
       ssu_Decrypt env r1 len key = Some r2 \<and> DecryptSessionKey env key r1 len = Some r2 \<and>
       GetPayloadType (SSUSessionPacket r2 len) = Some t \<and> pkt_Time (SSUSessionPacket r2 len) = Some (se_now env) \<and>
       window r2 37 (len - 37) = window buf 37 (len - 37)))"
proof -
  obtain b where b: "FillHeaderAndEncrypt env t buf len key iv mac = Some b"
    "FillHeaderAndEncrypt_session env key mac iv t buf len = Some b"
    using FillHeaderAndEncrypt_sealed [OF assms(1-3,5), of t key] by metis
  have t: "drop_bit 4 (push_bit 4 t) = t"
  proof (rule byte_bits_eqI)
    fix n :: nat assume n: "n \<in> {0, 1, 2, 3, 4, 5, 6, 7}"
    have "unat t < 2 ^ 4" using assms(4) by (simp add: word_less_nat_alt)
    then have "take_bit 4 t = t" by (metis take_bit_nat_eq_self unsigned_take_bit_eq word_unat_eq_iff)
    then have t: "\<not> bit t k" if "4 \<le> k" for k
      using that by (metis bit_take_bit_iff leD)
    show "bit (drop_bit 4 (push_bit 4 t)) n = bit t n"
      using n t [of n] by (auto simp: bit_simps dest: bit_imp_le_length)
  qed
  have "\<exists>r1 r2. ssu_Validate env r len mac = Some (r1, True) \<and>
       ssu_Decrypt env r1 len key = Some r2 \<and> DecryptSessionKey env key r1 len = Some r2 \<and>
       GetPayloadType (SSUSessionPacket r2 len) = Some t \<and> pkt_Time (SSUSessionPacket r2 len) = Some (se_now env) \<and>
       window r2 37 (len - 37) = window buf 37 (len - 37)" if r: "window r 0 len = window b 0 len"
  proof -
    obtain r1 r2 where o: "ssu_Validate env r len mac = Some (r1, True)" "ssu_Decrypt env r1 len key = Some r2"
      "DecryptSessionKey env key r1 len = Some r2" "length r1 = length r" "length r2 = length r"
      "window r2 32 (len - 32) = plain_part env t buf len"
      by (rule sealed_packet_opens [OF assms(1-3,5,6) b(1) r])
    have "packet_size len r2" using assms(6) o(5) by (simp add: packet_size_def)
    from plain_part_reads [OF this o(6)] show ?thesis
      using o(1-3) t by (simp add: GetPayloadType_def)
  qed
  then show ?thesis using b by blast
qed

text \<open>A test environment: the toy AES of the tunnel theories and a constant digest.\<close>

definition test_ssu_env :: ssu_env where
  "test_ssu_env = \<lparr>se_aes = xor_aes, se_md5 = (\<lambda>_. replicate 16 3), se_now = 100\<rparr>"

theorem SSU_packet_round_trip_witness:
  "\<exists>b r1 r2. FillHeaderAndEncrypt test_ssu_env 6 (replicate 100 7) 48 (replicate 32 1) (replicate 16 2) (replicate 32 5) = Some b \<and>
    ssu_Validate test_ssu_env b 48 (replicate 32 5) = Some (r1, True) \<and>
    ssu_Decrypt test_ssu_env r1 48 (replicate 32 1) = Some r2 \<and> GetPayloadType (SSUSessionPacket r2 48) = Some 6"
proof -
  have env: "ssu_env_ok test_ssu_env" by (simp add: ssu_env_ok_def test_ssu_env_def xor_aes_ok)
  have l: "length (replicate 16 2 :: bytes) = 16" "length (replicate 32 5 :: bytes) = 32" "(6 :: byte) < 16"
    "packet_size 48 (replicate 100 7 :: bytes)" by (simp_all add: packet_size_def)
  note T = SSU_packet_round_trip [OF env l]
  obtain b where b: "FillHeaderAndEncrypt test_ssu_env 6 (replicate 100 7) 48 (replicate 32 1) (replicate 16 2) (replicate 32 5) = Some b"
    using T [OF l(4), of "replicate 32 1"] by blast
  obtain b' where "FillHeaderAndEncrypt test_ssu_env 6 (replicate 100 7) 48 (replicate 32 1) (replicate 16 2) (replicate 32 5) = Some b'"
    "length b' = length (replicate 100 7 :: bytes)"
    by (rule FillHeaderAndEncrypt_sealed [OF env l(1,2,4)])
  then have "packet_size 48 b" using b by (simp add: packet_size_def)
  from T [OF this, of "replicate 32 1"] b show ?thesis by auto
qed

end
