(* ===== verification/Core_RouterInfo.thy ===== *)
theory Core_RouterInfo
  imports Core_Identity Kovri_Containers "HOL-Library.Product_Lexorder"
begin

text \<open>
  \<open>src/core/RouterInfo.h\<close> and \<open>RouterInfo.cpp\<close>: what a router publishes about itself, how it is written
  to a stream and read from one, and the accessors the transports and the network database use.

  Reading a stream that has ended leaves the variables of the code uninitialised (\<open>PastEnd\<close>), a
  string that is longer than the array it is read into overflows it (\<open>Overflow\<close>), and
  \<open>lexical_cast\<close> throws (\<open>BadCast\<close>). The text form of IP addresses (Boost) and of integers
  (\<open>lexical_cast\<close>) are the parameter \<open>ri_env\<close>.
\<close>

named_theorems ri_consts \<open>flags of RouterInfo\<close>

section \<open>Data\<close>

datatype ip_address = V4 bytes | V6 bytes

fun is_v4 :: "ip_address \<Rightarrow> bool" where
  "is_v4 (V4 _) = True"
| "is_v4 (V6 _) = False"

abbreviation is_v6 :: "ip_address \<Rightarrow> bool" where "is_v6 a \<equiv> \<not> is_v4 a"

fun ip_bytes :: "ip_address \<Rightarrow> bytes" where
  "ip_bytes (V4 b) = b"
| "ip_bytes (V6 b) = b"

text \<open>Boost orders IPv4 before IPv6 and addresses of a family by their bytes.\<close>

definition ip_key :: "ip_address \<Rightarrow> bool \<times> bytes" where
  "ip_key a = (is_v6 a, ip_bytes a)"

lemma ip_key_inject: "ip_key a = ip_key b \<longleftrightarrow> a = b"
  by (cases a; cases b) (simp_all add: ip_key_def)

instantiation ip_address :: linorder
begin

definition less_eq_ip_address :: "ip_address \<Rightarrow> ip_address \<Rightarrow> bool" where
  "less_eq_ip_address a b \<longleftrightarrow> ip_key a \<le> ip_key b"

definition less_ip_address :: "ip_address \<Rightarrow> ip_address \<Rightarrow> bool" where
  "less_ip_address a b \<longleftrightarrow> ip_key a < ip_key b"

instance
  by standard (auto simp: less_eq_ip_address_def less_ip_address_def less_le ip_key_inject)

end

type_synonym endpoint = "ip_address \<times> 16 word"

datatype transport_style = eTransportUnknown | eTransportNTCP | eTransportSSU

record Introducer =
  in_host :: ip_address
  in_port :: int
  in_key :: bytes
  in_tag :: "32 word"

record Address =
  ad_style :: transport_style
  ad_host :: ip_address
  ad_addressString :: bytes
  ad_port :: int
  ad_mtu :: int
  ad_date :: bytes
  ad_cost :: byte
  ad_key :: bytes
  ad_introducers :: "Introducer list"

record RouterInfo =
  ri_identity :: IdentityEx
  ri_buffer :: "bytes option"
  ri_bufferLen :: nat
  ri_timestamp :: "64 word"
  ri_addresses :: "Address list"
  ri_properties :: "(bytes, bytes) omap"
  ri_isUpdated :: bool
  ri_isUnreachable :: bool
  ri_supportedTransports :: byte
  ri_caps :: byte

definition eNTCPV4 :: byte where [ri_consts]: "eNTCPV4 = 0x01"
definition eNTCPV6 :: byte where [ri_consts]: "eNTCPV6 = 0x02"
definition eSSUV4 :: byte where [ri_consts]: "eSSUV4 = 0x04"
definition eSSUV6 :: byte where [ri_consts]: "eSSUV6 = 0x08"

definition eFloodfill :: byte where [ri_consts]: "eFloodfill = 0x01"
definition eUnlimitedBandwidth :: byte where [ri_consts]: "eUnlimitedBandwidth = 0x02"
definition eHighBandwidth :: byte where [ri_consts]: "eHighBandwidth = 0x04"
definition eReachable :: byte where [ri_consts]: "eReachable = 0x08"
definition eSSUTesting :: byte where [ri_consts]: "eSSUTesting = 0x10"
definition eSSUIntroducer :: byte where [ri_consts]: "eSSUIntroducer = 0x20"
definition eHidden :: byte where [ri_consts]: "eHidden = 0x40"
definition eUnreachable :: byte where [ri_consts]: "eUnreachable = 0x80"

definition MAX_RI_BUFFER_SIZE :: nat where [ri_consts]: "MAX_RI_BUFFER_SIZE = 2048"

text \<open>A string literal as bytes; a C string ends at its first zero byte.\<close>

definition str :: "string \<Rightarrow> bytes" where "str s = map of_char s"

definition cstr :: "bytes \<Rightarrow> bytes" where "cstr b = takeWhile (\<lambda>c. c \<noteq> 0) b"

text \<open>
  Boost and the memory of uninitialised objects. \<open>re_junk\<close> is what an \<open>Introducer\<close> and the key of
  an \<open>Address\<close> hold before they are set.
\<close>

record ri_env =
  re_ip_parse :: "bytes \<Rightarrow> ip_address option"
  re_ip_print :: "ip_address \<Rightarrow> bytes"
  re_int_parse :: "bytes \<Rightarrow> int option"
  re_int_print :: "int \<Rightarrow> bytes"
  re_tag_parse :: "bytes \<Rightarrow> (32 word) option"
  re_tag_print :: "32 word \<Rightarrow> bytes"
  re_junk :: Introducer

section \<open>Accessors\<close>

definition GetAddress :: "RouterInfo \<Rightarrow> transport_style \<Rightarrow> bool \<Rightarrow> bool \<Rightarrow> Address option" where
  "GetAddress ri s v4only v6only = find (\<lambda>a. ad_style a = s \<and> (\<not> v4only \<or> is_v4 (ad_host a)) \<and>
     (\<not> v6only \<or> is_v6 (ad_host a))) (ri_addresses ri)"

definition GetNTCPAddress :: "RouterInfo \<Rightarrow> bool \<Rightarrow> Address option" where
  "GetNTCPAddress ri v4only = GetAddress ri eTransportNTCP v4only False"

definition GetSSUAddress :: "RouterInfo \<Rightarrow> bool \<Rightarrow> Address option" where
  "GetSSUAddress ri v4only = GetAddress ri eTransportSSU v4only False"

definition GetSSUV6Address :: "RouterInfo \<Rightarrow> Address option" where
  "GetSSUV6Address ri = GetAddress ri eTransportSSU False True"

definition IsFloodfill :: "RouterInfo \<Rightarrow> bool" where "IsFloodfill ri \<longleftrightarrow> ri_caps ri AND eFloodfill \<noteq> 0"
definition UsesIntroducer :: "RouterInfo \<Rightarrow> bool" where "UsesIntroducer ri \<longleftrightarrow> ri_caps ri AND eUnreachable \<noteq> 0"
definition IsIntroducer :: "RouterInfo \<Rightarrow> bool" where "IsIntroducer ri \<longleftrightarrow> ri_caps ri AND eSSUIntroducer \<noteq> 0"
definition IsPeerTesting :: "RouterInfo \<Rightarrow> bool" where "IsPeerTesting ri \<longleftrightarrow> ri_caps ri AND eSSUTesting \<noteq> 0"
definition IsHidden :: "RouterInfo \<Rightarrow> bool" where "IsHidden ri \<longleftrightarrow> ri_caps ri AND eHidden \<noteq> 0"
definition IsHighBandwidth :: "RouterInfo \<Rightarrow> bool" where "IsHighBandwidth ri \<longleftrightarrow> ri_caps ri AND eHighBandwidth \<noteq> 0"

definition IsNTCP :: "RouterInfo \<Rightarrow> bool \<Rightarrow> bool" where
  "IsNTCP ri v4only = (if v4only then ri_supportedTransports ri AND eNTCPV4 \<noteq> 0
     else ri_supportedTransports ri AND (eNTCPV4 OR eNTCPV6) \<noteq> 0)"

definition IsSSU :: "RouterInfo \<Rightarrow> bool \<Rightarrow> bool" where
  "IsSSU ri v4only = (if v4only then ri_supportedTransports ri AND eSSUV4 \<noteq> 0
     else ri_supportedTransports ri AND (eSSUV4 OR eSSUV6) \<noteq> 0)"

definition IsV6 :: "RouterInfo \<Rightarrow> bool" where
  "IsV6 ri \<longleftrightarrow> ri_supportedTransports ri AND (eNTCPV6 OR eSSUV6) \<noteq> 0"

definition IsCompatible :: "RouterInfo \<Rightarrow> RouterInfo \<Rightarrow> bool" where
  "IsCompatible ri other \<longleftrightarrow> ri_supportedTransports ri AND ri_supportedTransports other \<noteq> 0"

definition EnableV6 :: "RouterInfo \<Rightarrow> RouterInfo" where
  "EnableV6 ri = (if \<not> IsV6 ri then ri\<lparr>ri_supportedTransports := ri_supportedTransports ri OR (eNTCPV6 OR eSSUV6)\<rparr> else ri)"

text \<open>Erasing the first IPv6 address of a transport.\<close>

fun erase_v6 :: "transport_style \<Rightarrow> Address list \<Rightarrow> Address list" where
  "erase_v6 s [] = []"
| "erase_v6 s (a # as) = (if ad_style a = s \<and> is_v6 (ad_host a) then as else a # erase_v6 s as)"

definition DisableV6 :: "RouterInfo \<Rightarrow> RouterInfo" where
  "DisableV6 ri = (if IsV6 ri then
     let ri = ri\<lparr>ri_supportedTransports := ri_supportedTransports ri AND NOT eNTCPV6\<rparr>;
         ri = ri\<lparr>ri_addresses := erase_v6 eTransportNTCP (ri_addresses ri)\<rparr>;
         ri = ri\<lparr>ri_supportedTransports := ri_supportedTransports ri AND NOT eSSUV6\<rparr>
     in ri\<lparr>ri_addresses := erase_v6 eTransportSSU (ri_addresses ri)\<rparr>
   else ri)"

definition SetProperty :: "RouterInfo \<Rightarrow> bytes \<Rightarrow> bytes \<Rightarrow> RouterInfo" where
  "SetProperty ri key value = ri\<lparr>ri_properties := omap_put key value (ri_properties ri)\<rparr>"

definition DeleteProperty :: "RouterInfo \<Rightarrow> bytes \<Rightarrow> RouterInfo" where
  "DeleteProperty ri key = ri\<lparr>ri_properties := omap_erase key (ri_properties ri)\<rparr>"

text \<open>The first SSU address over IPv4 gets the introducer, unless its tag is there already.\<close>

definition to_introducer :: "Address \<Rightarrow> 32 word \<Rightarrow> Introducer" where
  "to_introducer a tag = \<lparr>in_host = ad_host a, in_port = ad_port a, in_key = ad_key a, in_tag = tag\<rparr>"

fun add_introducer :: "Address \<Rightarrow> 32 word \<Rightarrow> Address list \<Rightarrow> Address list \<times> bool" where
  "add_introducer x tag [] = ([], False)"
| "add_introducer x tag (a # as) =
     (if ad_style a = eTransportSSU \<and> is_v4 (ad_host a) then
        (if \<exists>i \<in> set (ad_introducers a). in_tag i = tag then (a # as, False)
         else (a\<lparr>ad_introducers := ad_introducers a @ [to_introducer x tag]\<rparr> # as, True))
      else let (as, b) = add_introducer x tag as in (a # as, b))"

definition AddIntroducer :: "RouterInfo \<Rightarrow> Address \<Rightarrow> 32 word \<Rightarrow> RouterInfo \<times> bool" where
  "AddIntroducer ri x tag = (let (as, b) = add_introducer x tag (ri_addresses ri) in (ri\<lparr>ri_addresses := as\<rparr>, b))"

fun remove_first :: "('a \<Rightarrow> bool) \<Rightarrow> 'a list \<Rightarrow> 'a list" where
  "remove_first P [] = []"
| "remove_first P (x # xs) = (if P x then xs else x # remove_first P xs)"

fun remove_introducer :: "endpoint \<Rightarrow> Address list \<Rightarrow> Address list \<times> bool" where
  "remove_introducer e [] = ([], False)"
| "remove_introducer e (a # as) =
     (let at_e = (\<lambda>i. (in_host i, word_of_int (in_port i)) = e) in
      if ad_style a = eTransportSSU \<and> is_v4 (ad_host a) \<and> (\<exists>i \<in> set (ad_introducers a). at_e i)
      then (a\<lparr>ad_introducers := remove_first at_e (ad_introducers a)\<rparr> # as, True)
      else let (as, b) = remove_introducer e as in (a # as, b))"

definition RemoveIntroducer :: "RouterInfo \<Rightarrow> endpoint \<Rightarrow> RouterInfo \<times> bool" where
  "RemoveIntroducer ri e = (let (as, b) = remove_introducer e (ri_addresses ri) in (ri\<lparr>ri_addresses := as\<rparr>, b))"

section \<open>Capabilities\<close>

definition cap_bits :: "byte \<Rightarrow> byte" where
  "cap_bits c =
     (if c = of_char (CHR ''f'') then eFloodfill
      else if c = of_char (CHR ''X'') then eUnlimitedBandwidth OR eHighBandwidth
      else if c = of_char (CHR ''M'') \<or> c = of_char (CHR ''N'') \<or> c = of_char (CHR ''O'') \<or> c = of_char (CHR ''P'')
        then eHighBandwidth
      else if c = of_char (CHR ''H'') then eHidden
      else if c = of_char (CHR ''R'') then eReachable
      else if c = of_char (CHR ''U'') then eUnreachable
      else if c = of_char (CHR ''B'') then eSSUTesting
      else if c = of_char (CHR ''C'') then eSSUIntroducer
      else 0)"

definition ExtractCaps :: "RouterInfo \<Rightarrow> bytes \<Rightarrow> RouterInfo" where
  "ExtractCaps ri value = ri\<lparr>ri_caps := fold (\<lambda>c caps. caps OR cap_bits c) (cstr value) (ri_caps ri)\<rparr>"

definition UpdateCapsProperty :: "RouterInfo \<Rightarrow> RouterInfo" where
  "UpdateCapsProperty ri = SetProperty ri (str ''caps'')
     ((if ri_caps ri AND eFloodfill \<noteq> 0 then str ''Pf''
       else if ri_caps ri AND eHighBandwidth \<noteq> 0 then str ''O'' else str ''L'') @
      (if ri_caps ri AND eHidden \<noteq> 0 then str ''H'' else []) @
      (if ri_caps ri AND eReachable \<noteq> 0 then str ''R'' else []) @
      (if ri_caps ri AND eUnreachable \<noteq> 0 then str ''U'' else []))"

definition SetCaps :: "RouterInfo \<Rightarrow> byte \<Rightarrow> RouterInfo" where
  "SetCaps ri caps = UpdateCapsProperty (ri\<lparr>ri_caps := caps\<rparr>)"

definition SetCaps_string :: "RouterInfo \<Rightarrow> bytes \<Rightarrow> RouterInfo" where
  "SetCaps_string ri caps = ExtractCaps (SetProperty ri (str ''caps'') caps\<lparr>ri_caps := 0\<rparr>) caps"

definition new_address :: "transport_style \<Rightarrow> ip_address \<Rightarrow> int \<Rightarrow> byte \<Rightarrow> int \<Rightarrow> bytes \<Rightarrow> Address" where
  "new_address s host port cost mtu key = \<lparr>ad_style = s, ad_host = host, ad_addressString = [], ad_port = port, ad_mtu = mtu,
     ad_date = replicate 8 0, ad_cost = cost, ad_key = key, ad_introducers = []\<rparr>"

text \<open>\<open>from_string\<close> throws on a host that is no IP address: nothing is added (\<^term>\<open>None\<close>).\<close>

definition AddNTCPAddress :: "ri_env \<Rightarrow> RouterInfo \<Rightarrow> bytes \<Rightarrow> int \<Rightarrow> RouterInfo option" where
  "AddNTCPAddress env ri host port = do {
     h \<leftarrow> re_ip_parse env host;
     Some (ri\<lparr>ri_addresses := ri_addresses ri @ [new_address eTransportNTCP h port 2 0 (in_key (re_junk env))],
       ri_supportedTransports := ri_supportedTransports ri OR (if is_v6 h then eNTCPV6 else eNTCPV4)\<rparr>) }"

definition AddSSUAddress :: "ri_env \<Rightarrow> RouterInfo \<Rightarrow> bytes \<Rightarrow> int \<Rightarrow> bytes \<Rightarrow> int \<Rightarrow> RouterInfo option" where
  "AddSSUAddress env ri host port key mtu = do {
     h \<leftarrow> re_ip_parse env host;
     Some (ri\<lparr>ri_addresses := ri_addresses ri @ [new_address eTransportSSU h port 10 mtu key],
       ri_supportedTransports := ri_supportedTransports ri OR (if is_v6 h then eNTCPV6 else eSSUV4),
       ri_caps := ri_caps ri OR eSSUTesting OR eSSUIntroducer\<rparr>) }"


section \<open>Reading from a stream\<close>

datatype ri_error = PastEnd | Overflow | BadCast | BadMemory

definition and_then :: "ri_error + 'a \<Rightarrow> ('a \<Rightarrow> ri_error + 'b) \<Rightarrow> ri_error + 'b" where
  "and_then m f = (case m of Inl e \<Rightarrow> Inl e | Inr x \<Rightarrow> f x)"

lemma and_then_simps [simp]: "and_then (Inl e) f = Inl e" "and_then (Inr x) f = f x"
  by (simp_all add: and_then_def)

definition or_error :: "ri_error \<Rightarrow> 'a option \<Rightarrow> ri_error + 'a" where
  "or_error e x = (case x of None \<Rightarrow> Inl e | Some y \<Rightarrow> Inr y)"

lemma or_error_simps [simp]: "or_error e None = Inl e" "or_error e (Some y) = Inr y"
  by (simp_all add: or_error_def)

definition read_n :: "nat \<Rightarrow> bytes \<Rightarrow> ri_error + (bytes \<times> bytes)" where
  "read_n n s = (if length s < n then Inl PastEnd else Inr (take n s, drop n s))"

text \<open>The string, what \<open>ReadString\<close> returns, and the rest; \<open>sz\<close> is the size of the array it reads into.\<close>

definition ReadString :: "nat \<Rightarrow> bytes \<Rightarrow> ri_error + (bytes \<times> nat \<times> bytes)" where
  "ReadString sz s = (case s of
       [] \<Rightarrow> Inl PastEnd
     | len # s \<Rightarrow>
         if unat len \<ge> sz then Inl Overflow
         else if length s < unat len then Inl PastEnd
         else Inr (cstr (take (unat len) s), unat len + 1, drop (unat len) s))"

lemma ReadString_length: "ReadString sz s = Inr (x, l, s') \<Longrightarrow> length s' < length s"
  by (auto simp: ReadString_def split: list.splits if_splits)

lemma read_n_length: "read_n n s = Inr (x, s') \<Longrightarrow> length s' \<le> length s"
  by (auto simp: read_n_def split: if_splits)

text \<open>
  The two loops \<open>while (r < sz)\<close> over \<open>key=value;\<close>, with the arrays of \<open>n\<close> characters, and \<open>f\<close> for
  what is done with a pair. \<open>sz\<close> and \<open>r\<close> are \<open>uint16_t\<close>.
\<close>

function read_pairs :: "nat \<Rightarrow> (bytes \<Rightarrow> bytes \<Rightarrow> 'a \<Rightarrow> ri_error + 'a) \<Rightarrow> 16 word \<Rightarrow> 16 word \<Rightarrow> bytes \<Rightarrow> 'a \<Rightarrow>
    ri_error + ('a \<times> bytes)" where
  "read_pairs n f sz r s a =
     (if r < sz then
        (case ReadString n s of Inl e \<Rightarrow> Inl e | Inr (key, l, s1) \<Rightarrow>
        (case read_n 1 s1 of Inl e \<Rightarrow> Inl e | Inr (_, s2) \<Rightarrow>
        (case ReadString n s2 of Inl e \<Rightarrow> Inl e | Inr (value, l', s3) \<Rightarrow>
        (case read_n 1 s3 of Inl e \<Rightarrow> Inl e | Inr (_, s4) \<Rightarrow>
        (case f key value a of Inl e \<Rightarrow> Inl e | Inr a' \<Rightarrow>
           read_pairs n f sz (r + word_of_nat l + 1 + word_of_nat l' + 1) s4 a')))))
      else Inr (a, s))"
  by pat_completeness auto
termination
  by (relation "measure (\<lambda>(n, f, sz, r, s, a). length s)")
    (auto dest!: ReadString_length read_n_length)

declare read_pairs.simps [simp del]

text \<open>One property of an address; the state is the router, the address, \<open>isValidAddress\<close>, \<open>introducers\<close>.\<close>

definition read_key :: "bytes \<Rightarrow> bytes \<Rightarrow> ri_error + bytes" where
  "read_key value key = (case Base64ToByteStream value 32 of
       None \<Rightarrow> Inl Overflow
     | Some (n, out) \<Rightarrow> Inr (out @ drop (length out) key))"

definition set_introducer :: "ri_env \<Rightarrow> bytes \<Rightarrow> bytes \<Rightarrow> Introducer \<Rightarrow> ri_error + Introducer" where
  "set_introducer env key value x =
     (if key = str ''ihost'' then Inr (x\<lparr>in_host := (case re_ip_parse env value of Some h \<Rightarrow> h | None \<Rightarrow> V4 [0, 0, 0, 0])\<rparr>)
      else if key = str ''iport'' then and_then (or_error BadCast (re_int_parse env value)) (\<lambda>p. Inr (x\<lparr>in_port := p\<rparr>))
      else if key = str ''itag'' then and_then (or_error BadCast (re_tag_parse env value)) (\<lambda>t. Inr (x\<lparr>in_tag := t\<rparr>))
      else if key = str ''ikey'' then and_then (read_key value (in_key x)) (\<lambda>k. Inr (x\<lparr>in_key := k\<rparr>))
      else Inr x)"

definition introducer_property :: "ri_env \<Rightarrow> bytes \<Rightarrow> bytes \<Rightarrow> Address \<Rightarrow> ri_error + Address" where
  "introducer_property env key value a =
     (let index = unat (last key - of_char (CHR ''0''));
          key = butlast key;
          ins = ad_introducers a;
          ins = (if index \<ge> length ins then ins @ replicate (index + 1 - length ins) (re_junk env) else ins)
      in and_then (set_introducer env key value (ins ! index)) (\<lambda>x. Inr (a\<lparr>ad_introducers := ins[index := x]\<rparr>)))"

definition address_property :: "ri_env \<Rightarrow> bytes \<Rightarrow> bytes \<Rightarrow> RouterInfo \<times> Address \<times> bool \<times> bool \<Rightarrow>
    ri_error + (RouterInfo \<times> Address \<times> bool \<times> bool)" where
  "address_property env key value = (\<lambda>(ri, a, valid, introducers).
     if key = str ''host'' then
       (case re_ip_parse env value of
          None \<Rightarrow>
            let a = a\<lparr>ad_host := V4 [0, 0, 0, 0]\<rparr> in
            if ad_style a = eTransportNTCP
            then Inr (ri\<lparr>ri_supportedTransports := ri_supportedTransports ri OR eNTCPV4\<rparr>,
              a\<lparr>ad_addressString := value\<rparr>, valid, introducers)
            else Inr (ri, a, False, introducers)
        | Some host \<Rightarrow>
            Inr (ri\<lparr>ri_supportedTransports := ri_supportedTransports ri OR
                 (if is_v4 host then (if ad_style a = eTransportNTCP then eNTCPV4 else eSSUV4)
                  else (if ad_style a = eTransportNTCP then eNTCPV6 else eSSUV6))\<rparr>,
               a\<lparr>ad_host := host\<rparr>, valid, introducers))
     else if key = str ''port'' then
       and_then (or_error BadCast (re_int_parse env value)) (\<lambda>p. Inr (ri, a\<lparr>ad_port := p\<rparr>, valid, introducers))
     else if key = str ''mtu'' then
       and_then (or_error BadCast (re_int_parse env value)) (\<lambda>m. Inr (ri, a\<lparr>ad_mtu := m\<rparr>, valid, introducers))
     else if key = str ''key'' then
       and_then (read_key value (ad_key a)) (\<lambda>k. Inr (ri, a\<lparr>ad_key := k\<rparr>, valid, introducers))
     else if key = str ''caps'' then Inr (ExtractCaps ri value, a, valid, introducers)
     else if key \<noteq> [] \<and> hd key = of_char (CHR ''i'') then
       and_then (introducer_property env key value a) (\<lambda>a. Inr (ri, a, valid, True))
     else Inr (ri, a, valid, introducers))"

definition style_of :: "bytes \<Rightarrow> transport_style" where
  "style_of s = (if s = str ''NTCP'' then eTransportNTCP else if s = str ''SSU'' then eTransportSSU else eTransportUnknown)"

definition fresh_address :: "ri_env \<Rightarrow> byte \<Rightarrow> bytes \<Rightarrow> transport_style \<Rightarrow> Address" where
  "fresh_address env cost date s = \<lparr>ad_style = s, ad_host = V4 [0, 0, 0, 0], ad_addressString = [], ad_port = 0, ad_mtu = 0,
     ad_date = date, ad_cost = cost, ad_key = in_key (re_junk env), ad_introducers = []\<rparr>"

definition read_size :: "bytes \<Rightarrow> ri_error + (16 word \<times> bytes)" where
  "read_size s = and_then (read_n 2 s) (\<lambda>(b, s). Inr (word_of_nat (be_val b), s))"

definition read_address :: "ri_env \<Rightarrow> RouterInfo \<times> bool \<Rightarrow> bytes \<Rightarrow> ri_error + ((RouterInfo \<times> bool) \<times> bytes)" where
  "read_address env = (\<lambda>(ri, introducers) s.
     and_then (read_n 1 s) (\<lambda>(cost, s).
     and_then (read_n 8 s) (\<lambda>(date, s).
     and_then (ReadString 5 s) (\<lambda>(style, _, s).
     and_then (read_size s) (\<lambda>(sz, s).
     and_then (read_pairs 500 (address_property env) sz 0 s
        (ri, fresh_address env (hd cost) date (style_of style), True, introducers))
       (\<lambda>((ri, a, valid, introducers), s).
          Inr ((if valid then ri\<lparr>ri_addresses := ri_addresses ri @ [a]\<rparr> else ri, introducers), s)))))))"

fun read_addresses :: "ri_env \<Rightarrow> nat \<Rightarrow> RouterInfo \<times> bool \<Rightarrow> bytes \<Rightarrow> ri_error + ((RouterInfo \<times> bool) \<times> bytes)" where
  "read_addresses env 0 st s = Inr (st, s)"
| "read_addresses env (Suc n) st s = and_then (read_address env st s) (\<lambda>(st, s). read_addresses env n st s)"

definition router_property :: "bytes \<Rightarrow> bytes \<Rightarrow> RouterInfo \<Rightarrow> ri_error + RouterInfo" where
  "router_property key value ri =
     (let ri = SetProperty ri key value in Inr (if key = str ''caps'' then ExtractCaps ri value else ri))"

definition ReadFromStream :: "ri_env \<Rightarrow> RouterInfo \<Rightarrow> bytes \<Rightarrow> ri_error + RouterInfo" where
  "ReadFromStream env ri s =
     and_then (read_n 8 s) (\<lambda>(ts, s).
     let ri = ri\<lparr>ri_timestamp := word_of_nat (be_val ts)\<rparr> in
     and_then (read_n 1 s) (\<lambda>(numAddresses, s).
     and_then (read_addresses env (unat (hd numAddresses)) (ri, False) s) (\<lambda>((ri, introducers), s).
     and_then (read_n 1 s) (\<lambda>(numPeers, s).
     and_then (read_n (unat (hd numPeers) * 32) s) (\<lambda>(_, s).
     and_then (read_size s) (\<lambda>(sz, s).
     and_then (read_pairs 50 router_property sz 0 s ri) (\<lambda>(ri, s).
       Inr (if ri_supportedTransports ri = 0 \<or> ri_addresses ri = [] \<or> (UsesIntroducer ri \<and> \<not> introducers)
            then ri\<lparr>ri_isUnreachable := True\<rparr> else ri))))))))"

text \<open>\<open>len\<close> is an \<open>int\<close>; a negative one becomes a huge \<open>size_t\<close>.\<close>

definition ReadFromBuffer :: "ri_env \<Rightarrow> sig_env \<Rightarrow> (bytes \<Rightarrow> bytes) \<Rightarrow> RouterInfo \<Rightarrow> bool \<Rightarrow> ri_error + RouterInfo" where
  "ReadFromBuffer env sigs sha ri verifySignature =
     and_then (or_error BadMemory (ri_buffer ri)) (\<lambda>buf.
     and_then (or_error BadMemory (IdentityEx_FromBuffer sha (ri_identity ri) buf (ri_bufferLen ri))) (\<lambda>(ix, identityLen).
     and_then (or_error BadMemory (mem_read buf identityLen (size_sub (ri_bufferLen ri) identityLen))) (\<lambda>s.
     and_then (ReadFromStream env (ri\<lparr>ri_identity := ix\<rparr>) s) (\<lambda>ri.
       if verifySignature then
         and_then (or_error BadMemory (GetSignatureLen (ri_identity ri))) (\<lambda>(ix, sigLen).
           if ri_bufferLen ri < sigLen then Inl BadMemory
           else let len = ri_bufferLen ri - sigLen in
             and_then (or_error BadMemory (mem_read buf 0 len)) (\<lambda>msg.
             and_then (or_error BadMemory (mem_read buf len sigLen)) (\<lambda>signature.
             and_then (or_error BadMemory (IdentityEx_Verify sigs ix msg signature)) (\<lambda>(ix, good).
               let ri = (if good then ri else ri\<lparr>ri_isUnreachable := True\<rparr>) in
               Inr (ri\<lparr>ri_identity := DropVerifier ix\<rparr>)))))
       else Inr ri))))"

definition RouterInfo_Update :: "ri_env \<Rightarrow> sig_env \<Rightarrow> (bytes \<Rightarrow> bytes) \<Rightarrow> RouterInfo \<Rightarrow> bytes \<Rightarrow> ri_error + RouterInfo" where
  "RouterInfo_Update env sigs sha ri buf =
     (let m_Buffer = (case ri_buffer ri of None \<Rightarrow> replicate MAX_RI_BUFFER_SIZE 0 | Some b \<Rightarrow> b) in
      and_then (or_error BadMemory (mem_write m_Buffer 0 buf)) (\<lambda>b.
        ReadFromBuffer env sigs sha (ri\<lparr>ri_isUpdated := True, ri_isUnreachable := False, ri_supportedTransports := 0,
          ri_caps := 0, ri_addresses := [], ri_properties := [], ri_buffer := Some b, ri_bufferLen := length buf\<rparr>) True))"

text \<open>The constructor from a buffer; \<open>ix\<close> is the default-constructed identity.\<close>

definition RouterInfo_new :: "ri_env \<Rightarrow> sig_env \<Rightarrow> (bytes \<Rightarrow> bytes) \<Rightarrow> IdentityEx \<Rightarrow> bytes \<Rightarrow> ri_error + RouterInfo" where
  "RouterInfo_new env sigs sha ix buf =
     and_then (or_error BadMemory (mem_write (replicate MAX_RI_BUFFER_SIZE 0) 0 buf)) (\<lambda>b.
       ReadFromBuffer env sigs sha \<lparr>ri_identity = ix, ri_buffer = Some b, ri_bufferLen = length buf, ri_timestamp = 0,
         ri_addresses = [], ri_properties = [], ri_isUpdated = True, ri_isUnreachable = False,
         ri_supportedTransports = 0, ri_caps = 0\<rparr> True)"

section \<open>Writing to a stream\<close>

text \<open>The length is a byte: of a longer string only the remainder modulo 256 is written.\<close>

definition WriteString :: "bytes \<Rightarrow> bytes" where
  "WriteString s = (let len = (word_of_nat (length s) :: byte) in len # take (unat len) s)"

definition write_pair :: "bytes \<Rightarrow> bytes \<Rightarrow> bytes" where
  "write_pair key value = WriteString key @ str ''='' @ WriteString value @ str '';''"

definition write_key :: "bytes \<Rightarrow> bytes" where
  "write_key key = snd (ByteStreamToBase64 key 64)"

definition write_introducers :: "ri_env \<Rightarrow> Introducer list \<Rightarrow> bytes" where
  "write_introducers env ins =
     (let each = (\<lambda>name f. concat (map (\<lambda>i. write_pair (str name @ re_int_print env (int i)) (f (ins ! i))) [0..<length ins]))
      in each ''ihost'' (\<lambda>x. re_ip_print env (in_host x)) @
         each ''ikey'' (\<lambda>x. write_key (in_key x)) @
         each ''iport'' (\<lambda>x. re_int_print env (in_port x)) @
         each ''itag'' (\<lambda>x. re_tag_print env (in_tag x)))"

definition address_properties :: "ri_env \<Rightarrow> RouterInfo \<Rightarrow> Address \<Rightarrow> bytes" where
  "address_properties env ri a =
     (if ad_style a = eTransportSSU
      then write_pair (str ''caps'') ((if IsPeerTesting ri then str ''B'' else []) @ (if IsIntroducer ri then str ''C'' else []))
      else []) @
     write_pair (str ''host'') (re_ip_print env (ad_host a)) @
     (if ad_style a = eTransportSSU then
        write_introducers env (ad_introducers a) @
        write_pair (str ''key'') (write_key (ad_key a)) @
        (if ad_mtu a \<noteq> 0 then write_pair (str ''mtu'') (re_int_print env (ad_mtu a)) else [])
      else []) @
     write_pair (str ''port'') (re_int_print env (ad_port a))"

definition style_name :: "transport_style \<Rightarrow> bytes" where
  "style_name s = (case s of eTransportNTCP \<Rightarrow> str ''NTCP'' | eTransportSSU \<Rightarrow> str ''SSU'' | eTransportUnknown \<Rightarrow> [])"

definition write_size :: "nat \<Rightarrow> bytes" where
  "write_size n = be_bytes 2 (unat (word_of_nat n :: 16 word))"

definition write_address :: "ri_env \<Rightarrow> RouterInfo \<Rightarrow> Address \<Rightarrow> bytes" where
  "write_address env ri a = [ad_cost a] @ ad_date a @ WriteString (style_name (ad_style a)) @
     (let properties = address_properties env ri a in write_size (length properties) @ properties)"

definition WriteToStream :: "ri_env \<Rightarrow> RouterInfo \<Rightarrow> bytes" where
  "WriteToStream env ri = be_bytes 8 (unat (ri_timestamp ri)) @ [word_of_nat (length (ri_addresses ri))] @
     concat (map (write_address env ri) (ri_addresses ri)) @ [0] @
     (let properties = concat (map (\<lambda>(k, v). write_pair k v) (ri_properties ri))
      in write_size (length properties) @ properties)"

text \<open>\<open>now\<close> is the time in milliseconds; the identity goes through a buffer of 1024 bytes.\<close>

definition CreateBuffer :: "ri_env \<Rightarrow> sig_env \<Rightarrow> 64 word \<Rightarrow> RouterInfo \<Rightarrow> PrivateKeys \<Rightarrow> RouterInfo option" where
  "CreateBuffer env sigs now ri keys = do {
     let ri = ri\<lparr>ri_timestamp := now\<rparr>;
     (ident, identLen) \<leftarrow> IdentityEx_ToBuffer (pk_public keys) (replicate 1024 0) 0;
     i \<leftarrow> mem_read ident 0 identLen;
     let s = i @ WriteToStream env ri;
     let m_Buffer = (case ri_buffer ri of None \<Rightarrow> replicate MAX_RI_BUFFER_SIZE 0 | Some b \<Rightarrow> b);
     b \<leftarrow> mem_write m_Buffer 0 s;
     msg \<leftarrow> mem_read b 0 (length s);
     b \<leftarrow> (case PrivateKeys_Sign sigs keys msg of None \<Rightarrow> Some b | Some signature \<Rightarrow> mem_write b (length s) signature);
     (ix, sigLen) \<leftarrow> GetSignatureLen (pk_public keys);
     Some (ri\<lparr>ri_buffer := Some b, ri_bufferLen := length s + sigLen\<rparr>) }"


section \<open>What is written is read\<close>

text \<open>A string that survives the C string it is read into.\<close>

definition fits :: "nat \<Rightarrow> bytes \<Rightarrow> bool" where
  "fits n s \<longleftrightarrow> 0 \<notin> set s \<and> length s < n"

lemma cstr_fits: "fits n s \<Longrightarrow> cstr s = s"
  unfolding fits_def cstr_def by (subst takeWhile_eq_all_conv) auto

lemma fits_mono: "fits n s \<Longrightarrow> n \<le> m \<Longrightarrow> fits m s"
  by (simp add: fits_def)

lemma length_WriteString: "fits 256 s \<Longrightarrow> length (WriteString s) = length s + 1"
  by (simp add: WriteString_def fits_def Let_def unat_of_nat)

lemma ReadString_WriteString:
  "fits n s \<Longrightarrow> n \<le> 256 \<or> length s < 256 \<Longrightarrow> ReadString n (WriteString s @ rest) = Inr (s, length s + 1, rest)"
  using cstr_fits [of n s] by (auto simp: ReadString_def WriteString_def fits_def Let_def unat_of_nat)

lemma read_n_append [simp]: "n = length a \<Longrightarrow> read_n n (a @ b) = Inr (a, b)"
  by (simp add: read_n_def)

lemma read_n_Cons [simp]: "read_n (Suc 0) (a # b) = Inr ([a], b)"
  by (simp add: read_n_def)

definition pairs_bytes :: "(bytes \<times> bytes) list \<Rightarrow> bytes" where
  "pairs_bytes kvs = concat (map (\<lambda>(k, v). write_pair k v) kvs)"

lemma pairs_bytes_simps [simp]:
  "pairs_bytes [] = []" "pairs_bytes ((k, v) # kvs) = write_pair k v @ pairs_bytes kvs"
  "pairs_bytes (xs @ ys) = pairs_bytes xs @ pairs_bytes ys"
  by (simp_all add: pairs_bytes_def)

fun fold_pairs :: "(bytes \<Rightarrow> bytes \<Rightarrow> 'a \<Rightarrow> ri_error + 'a) \<Rightarrow> (bytes \<times> bytes) list \<Rightarrow> 'a \<Rightarrow> ri_error + 'a" where
  "fold_pairs f [] a = Inr a"
| "fold_pairs f ((k, v) # kvs) a = and_then (f k v a) (fold_pairs f kvs)"

lemma fold_pairs_append: "fold_pairs f (xs @ ys) a = and_then (fold_pairs f xs a) (fold_pairs f ys)"
  by (induction f xs a rule: fold_pairs.induct) (auto simp: and_then_def split: sum.splits)

lemma length_write_pair: "fits 256 k \<Longrightarrow> fits 256 v \<Longrightarrow> length (write_pair k v) = length k + length v + 4"
  by (simp add: write_pair_def length_WriteString str_def)

lemma read_pairs_written:
  assumes "\<forall>(k, v) \<in> set kvs. fits n k \<and> fits n v \<and> fits 256 k \<and> fits 256 v"
    and "r + length (pairs_bytes kvs) < 65536"
  shows "read_pairs n f (word_of_nat (r + length (pairs_bytes kvs))) (word_of_nat r) (pairs_bytes kvs @ rest) a =
    and_then (fold_pairs f kvs a) (\<lambda>a. Inr (a, rest))"
  using assms
proof (induction kvs arbitrary: r a)
  case Nil
  then show ?case by (simp add: read_pairs.simps)
next
  case (Cons kv kvs)
  obtain k v where kv: "kv = (k, v)" by (cases kv)
  have f: "fits n k" "fits n v" "fits 256 k" "fits 256 v" using Cons.prems(1) by (simp_all add: kv)
  let ?t = "r + length (pairs_bytes (kv # kvs))"
  let ?r = "r + (length k + 1 + 1 + (length v + 1) + 1)"
  have t: "?t = ?r + length (pairs_bytes kvs)" using length_write_pair [OF f(3,4)] by (simp add: kv)
  have u: "unat (word_of_nat ?t :: 16 word) = ?t" "unat (word_of_nat r :: 16 word) = r"
    using Cons.prems(2) by (auto simp: unat_of_nat simp del: of_nat_add)
  then have less: "(word_of_nat r :: 16 word) < word_of_nat ?t"
    using t by (simp only: word_less_nat_alt u)
  have len: "length k < 256" "length v < 256" using f(3,4) by (simp_all add: fits_def)
  have R: "ReadString n (WriteString k @ x) = Inr (k, length k + 1, x)"
    "ReadString n (WriteString v @ x) = Inr (v, length v + 1, x)" for x
    using f len by (simp_all only: ReadString_WriteString simp_thms)
  have one: "read_n 1 (str ''='' @ x) = Inr (str ''='', x)" "read_n 1 (str '';'' @ x) = Inr (str '';'', x)" for x
    by (simp_all add: str_def)
  have r: "(word_of_nat r :: 16 word) + word_of_nat (length k + 1) + 1 + word_of_nat (length v + 1) + 1 = word_of_nat ?r"
    by simp
  have IH: "read_pairs n f (word_of_nat (?r + length (pairs_bytes kvs))) (word_of_nat ?r) (pairs_bytes kvs @ rest) a' =
    and_then (fold_pairs f kvs a') (\<lambda>a. Inr (a, rest))" for a'
    by (rule Cons.IH) (use Cons.prems t in auto)
  have s: "pairs_bytes (kv # kvs) @ rest = WriteString k @ str ''='' @ WriteString v @ str '';'' @ pairs_bytes kvs @ rest"
    by (simp add: kv write_pair_def)
  show ?case
    unfolding s t [symmetric]
    apply (subst read_pairs.simps)
    apply (simp only: less [unfolded kv, unfolded t [unfolded kv]] if_True R one sum.case prod.case r IH t [unfolded kv] kv fold_pairs.simps)
    apply (cases "f k v a"; simp only: sum.case prod.case IH and_then_simps)
    done
qed

text \<open>Base64 of a key has no zero byte and 44 characters.\<close>

lemma T64_nonzero: "d < (64 :: byte) \<Longrightarrow> T64 ! unat d \<noteq> 0"
proof -
  assume "d < 64"
  then have "unat d < length T64" by (simp add: T64_values(1) word_less_nat_alt)
  then have "T64 ! unat d \<in> set T64" by simp
  moreover have "0 \<notin> set T64" by (simp add: T64_def of_char_def)
  ultimately show ?thesis by metis
qed

lemma encode64_nonzero: "0 \<notin> set (encode64 bs)"
proof -
  have "P64 \<noteq> 0" by (simp add: P64_def of_char_def)
  then show ?thesis
    by (induction bs rule: triple_induct)
      (simp_all add: Let_def digit_bounds [THEN T64_nonzero, symmetric] del: push_bit_and push_bit_or drop_bit_and drop_bit_or)
qed

lemma write_key_read:
  assumes "length key = 32" and "length old = 32"
  shows "fits 50 (write_key key)" "read_key (write_key key) old = Inr key"
proof -
  have b: "ByteStreamToBase64 key 64 = (44, encode64 key)" "Base64ToByteStream (encode64 key) 32 = Some (32, key)"
    using base64_round_trip [of key 64 32] assms(1) by (cases key; simp)+
  then have w: "write_key key = encode64 key" by (simp add: write_key_def)
  show "fits 50 (write_key key)"
    using length_encode64 [of key] encode64_nonzero [of key] assms(1) by (simp add: w fits_def)
  show "read_key (write_key key) old = Inr key"
    using b(2) assms by (simp add: read_key_def w)
qed


text \<open>Addresses as \<open>WriteToStream\<close> expects them, and what the text forms have to satisfy for those.\<close>

fun ip_ok :: "ip_address \<Rightarrow> bool" where
  "ip_ok (V4 b) = (length b = 4)"
| "ip_ok (V6 b) = (length b = 16)"

definition int_ok :: "int \<Rightarrow> bool" where
  "int_ok i \<longleftrightarrow> - (2 ^ 31) \<le> i \<and> i < 2 ^ 31"

definition ri_env_ok :: "ri_env \<Rightarrow> bool" where
  "ri_env_ok env \<longleftrightarrow>
     (\<forall>a. ip_ok a \<longrightarrow> re_ip_parse env (re_ip_print env a) = Some a \<and> fits 50 (re_ip_print env a)) \<and>
     (\<forall>i. int_ok i \<longrightarrow> re_int_parse env (re_int_print env i) = Some i \<and> fits 50 (re_int_print env i)) \<and>
     (\<forall>t. re_tag_parse env (re_tag_print env t) = Some t \<and> fits 50 (re_tag_print env t)) \<and>
     (\<forall>i < 10. re_int_print env (int i) = [of_char (CHR ''0'') + word_of_nat i]) \<and>
     length (in_key (re_junk env)) = 32"

definition introducer_ok :: "Introducer \<Rightarrow> bool" where
  "introducer_ok x \<longleftrightarrow> ip_ok (in_host x) \<and> int_ok (in_port x) \<and> length (in_key x) = 32"

definition address_ok :: "ri_env \<Rightarrow> Address \<Rightarrow> bool" where
  "address_ok env a \<longleftrightarrow> ip_ok (ad_host a) \<and> int_ok (ad_port a) \<and> int_ok (ad_mtu a) \<and> length (ad_date a) = 8 \<and> ad_addressString a = [] \<and>
     (if ad_style a = eTransportSSU
      then length (ad_key a) = 32 \<and> length (ad_introducers a) \<le> 10 \<and> (\<forall>x \<in> set (ad_introducers a). introducer_ok x)
      else ad_mtu a = 0 \<and> ad_introducers a = [] \<and> ad_key a = in_key (re_junk env))"

lemma str_distinct [simp]:
  "str ''port'' \<noteq> str ''host''" "str ''mtu'' \<noteq> str ''host''" "str ''key'' \<noteq> str ''host''" "str ''caps'' \<noteq> str ''host''"
  "str ''mtu'' \<noteq> str ''port''" "str ''key'' \<noteq> str ''port''" "str ''caps'' \<noteq> str ''port''"
  "str ''key'' \<noteq> str ''mtu''" "str ''caps'' \<noteq> str ''mtu''" "str ''caps'' \<noteq> str ''key''"
  "str ''iport'' \<noteq> str ''ihost''" "str ''itag'' \<noteq> str ''ihost''" "str ''ikey'' \<noteq> str ''ihost''"
  "str ''itag'' \<noteq> str ''iport''" "str ''ikey'' \<noteq> str ''iport''" "str ''ikey'' \<noteq> str ''itag''"
  by (simp_all add: str_def of_char_def)

lemma i_keys:
  "hd key = of_char (CHR ''i'') \<Longrightarrow> key \<noteq> str ''host'' \<and> key \<noteq> str ''port'' \<and> key \<noteq> str ''mtu'' \<and> key \<noteq> str ''key'' \<and> key \<noteq> str ''caps''"
  by (auto simp: str_def of_char_def)

lemma introducer_pass:
  assumes env: "ri_env_ok env" and n: "n \<le> 10" "ins = [] \<or> length ins = n" and k: "k \<le> n"
    and name: "hd (str name) = of_char (CHR ''i'')" "name \<noteq> []"
    and set: "\<forall>i < n. set_introducer env (str name) (val i) (if i < length ins then ins ! i else re_junk env) = Inr (u i)"
  shows "fold_pairs (address_property env) (map (\<lambda>i. (str name @ re_int_print env (int i), val i)) [0..<k])
     (ri, a\<lparr>ad_introducers := ins\<rparr>, valid, b) = Inr (ri, a\<lparr>ad_introducers := map u [0..<k] @ drop k ins\<rparr>, valid, b \<or> k > 0)"
  using k
proof (induction k)
  case 0
  then show ?case by simp
next
  case (Suc k)
  then have k: "k < n" "k < 10" using n by simp_all
  let ?key = "str name @ re_int_print env (int k)" and ?ins = "map u [0..<k] @ drop k ins"
  have p: "re_int_print env (int k) = [of_char (CHR ''0'') + word_of_nat k]" using env k by (simp add: ri_env_ok_def)
  have ix: "unat (last ?key - of_char (CHR ''0'')) = k" using k by (simp add: p unat_of_nat)
  have ne: "str name \<noteq> []" using name by (simp add: str_def)
  have hd: "hd ?key = of_char (CHR ''i'')" using name ne by simp
  have l: "k \<ge> length ?ins \<longleftrightarrow> ins = []" using n k by auto
  define ins' where "ins' = (if k \<ge> length ?ins then ?ins @ replicate (k + 1 - length ?ins) (re_junk env) else ?ins)"
  have at: "ins' ! k = (if k < length ins then ins ! k else re_junk env)"
    using n k by (auto simp: ins'_def nth_append)
  have up: "ins'[k := u k] = map u [0..<Suc k] @ drop (Suc k) ins"
  proof (cases "ins = []")
    case True
    then show ?thesis by (simp add: ins'_def list_update_append)
  next
    case False
    then have "drop k ins = ins ! k # drop (Suc k) ins" using n k by (simp add: Cons_nth_drop_Suc)
    then show ?thesis using l False by (simp add: ins'_def list_update_append)
  qed
  have "introducer_property env ?key (val k) (a\<lparr>ad_introducers := ?ins\<rparr>) =
      Inr (a\<lparr>ad_introducers := map u [0..<Suc k] @ drop (Suc k) ins\<rparr>)"
  proof -
    have q: "ad_introducers (a\<lparr>ad_introducers := ?ins\<rparr>) = ?ins" by simp
    have "set_introducer env (butlast ?key) (val k) (ins' ! k) = Inr (u k)"
      using set k at by (simp add: p butlast_append)
    then show ?thesis
      unfolding introducer_property_def Let_def ix q ins'_def [symmetric] by (simp add: up del: upt_Suc)
  qed
  then have "address_property env ?key (val k) (ri, a\<lparr>ad_introducers := ?ins\<rparr>, valid, b \<or> k > 0) =
      Inr (ri, a\<lparr>ad_introducers := map u [0..<Suc k] @ drop (Suc k) ins\<rparr>, valid, True)"
    using hd i_keys [OF hd] ne by (simp add: address_property_def)
  then show ?case
    using Suc.IH k by (simp add: fold_pairs_append)
qed

lemma introducers_read:
  assumes env: "ri_env_ok env" and ok: "length ins \<le> 10" "\<forall>x \<in> set ins. introducer_ok x" and a: "ad_introducers a = []"
  defines "each \<equiv> \<lambda>name f. map (\<lambda>i. (str name @ re_int_print env (int i), f (ins ! i))) [0..<length ins]"
  shows "fold_pairs (address_property env)
      (each ''ihost'' (\<lambda>x. re_ip_print env (in_host x)) @ each ''ikey'' (\<lambda>x. write_key (in_key x)) @
       each ''iport'' (\<lambda>x. re_int_print env (in_port x)) @ each ''itag'' (\<lambda>x. re_tag_print env (in_tag x)))
      (ri, a, valid, b) = Inr (ri, a\<lparr>ad_introducers := ins\<rparr>, valid, b \<or> ins \<noteq> [])"
proof -
  let ?n = "length ins" and ?j = "re_junk env"
  have x: "introducer_ok (ins ! i)" if "i < ?n" for i using ok(2) that by simp
  have jk: "length (in_key ?j) = 32" using env by (simp add: ri_env_ok_def)
  define u1 where "u1 i = ?j\<lparr>in_host := in_host (ins ! i)\<rparr>" for i
  define u2 where "u2 i = (u1 i)\<lparr>in_key := in_key (ins ! i)\<rparr>" for i
  define u3 where "u3 i = (u2 i)\<lparr>in_port := in_port (ins ! i)\<rparr>" for i
  define u4 where "u4 i = (u3 i)\<lparr>in_tag := in_tag (ins ! i)\<rparr>" for i
  have u4: "map u4 [0..<?n] = ins"
    by (rule nth_equalityI) (auto simp: u4_def u3_def u2_def u1_def intro!: Introducer.equality)
  have "a\<lparr>ad_introducers := []\<rparr> = a" using a by (intro Address.equality) simp_all
  then have s1: "fold_pairs (address_property env) (each ''ihost'' (\<lambda>x. re_ip_print env (in_host x))) (ri, a, valid, b) =
      Inr (ri, a\<lparr>ad_introducers := map u1 [0..<?n]\<rparr>, valid, b \<or> ?n > 0)"
    using introducer_pass [OF env ok(1), of "[]" ?n "''ihost''" "\<lambda>i. re_ip_print env (in_host (ins ! i))" u1 ri a valid b] x env
    by (simp add: each_def set_introducer_def u1_def str_def ri_env_ok_def introducer_ok_def)
  have s2: "fold_pairs (address_property env) (each ''ikey'' (\<lambda>x. write_key (in_key x))) (ri, a\<lparr>ad_introducers := map u1 [0..<?n]\<rparr>, valid, c) =
      Inr (ri, a\<lparr>ad_introducers := map u2 [0..<?n]\<rparr>, valid, c \<or> ?n > 0)" for c
    using introducer_pass [OF env ok(1), of "map u1 [0..<?n]" ?n "''ikey''" "\<lambda>i. write_key (in_key (ins ! i))" u2 ri a valid c] x jk
    by (simp add: each_def set_introducer_def u1_def u2_def introducer_ok_def write_key_read(2) hd_map str_def)
  have s3: "fold_pairs (address_property env) (each ''iport'' (\<lambda>x. re_int_print env (in_port x))) (ri, a\<lparr>ad_introducers := map u2 [0..<?n]\<rparr>, valid, c) =
      Inr (ri, a\<lparr>ad_introducers := map u3 [0..<?n]\<rparr>, valid, c \<or> ?n > 0)" for c
    using introducer_pass [OF env ok(1), of "map u2 [0..<?n]" ?n "''iport''" "\<lambda>i. re_int_print env (in_port (ins ! i))" u3 ri a valid c] x env
    by (simp add: each_def set_introducer_def u3_def str_def ri_env_ok_def introducer_ok_def)
  have s4: "fold_pairs (address_property env) (each ''itag'' (\<lambda>x. re_tag_print env (in_tag x))) (ri, a\<lparr>ad_introducers := map u3 [0..<?n]\<rparr>, valid, c) =
      Inr (ri, a\<lparr>ad_introducers := map u4 [0..<?n]\<rparr>, valid, c \<or> ?n > 0)" for c
    using introducer_pass [OF env ok(1), of "map u3 [0..<?n]" ?n "''itag''" "\<lambda>i. re_tag_print env (in_tag (ins ! i))" u4 ri a valid c] env
    by (simp add: each_def set_introducer_def u4_def str_def ri_env_ok_def)
  show ?thesis
    by (simp add: fold_pairs_append s1 s2 s3 s4 u4)
qed


text \<open>The pairs an address is written as.\<close>

definition introducer_pairs :: "ri_env \<Rightarrow> Introducer list \<Rightarrow> (bytes \<times> bytes) list" where
  "introducer_pairs env ins =
     (let each = (\<lambda>name f. map (\<lambda>i. (str name @ re_int_print env (int i), f (ins ! i))) [0..<length ins])
      in each ''ihost'' (\<lambda>x. re_ip_print env (in_host x)) @ each ''ikey'' (\<lambda>x. write_key (in_key x)) @
         each ''iport'' (\<lambda>x. re_int_print env (in_port x)) @ each ''itag'' (\<lambda>x. re_tag_print env (in_tag x)))"

definition caps_value :: "RouterInfo \<Rightarrow> bytes" where
  "caps_value ri = (if IsPeerTesting ri then str ''B'' else []) @ (if IsIntroducer ri then str ''C'' else [])"

definition address_pairs :: "ri_env \<Rightarrow> RouterInfo \<Rightarrow> Address \<Rightarrow> (bytes \<times> bytes) list" where
  "address_pairs env ri a =
     (if ad_style a = eTransportSSU then [(str ''caps'', caps_value ri)] else []) @
     [(str ''host'', re_ip_print env (ad_host a))] @
     (if ad_style a = eTransportSSU then introducer_pairs env (ad_introducers a) @
        [(str ''key'', write_key (ad_key a))] @
        (if ad_mtu a \<noteq> 0 then [(str ''mtu'', re_int_print env (ad_mtu a))] else [])
      else []) @
     [(str ''port'', re_int_print env (ad_port a))]"

lemma pairs_bytes_map: "pairs_bytes (map (\<lambda>i. (k i, v i)) xs) = concat (map (\<lambda>i. write_pair (k i) (v i)) xs)"
  by (simp add: pairs_bytes_def comp_def)

lemma address_properties_pairs: "address_properties env ri a = pairs_bytes (address_pairs env ri a)"
  by (simp add: address_properties_def address_pairs_def introducer_pairs_def write_introducers_def caps_value_def
      Let_def pairs_bytes_map)

lemma fits_names [simp]:
  "fits 50 (str ''caps'')" "fits 50 (str ''host'')" "fits 50 (str ''key'')" "fits 50 (str ''mtu'')" "fits 50 (str ''port'')"
  "fits 50 (caps_value ri)"
  by (simp_all add: fits_def str_def of_char_def caps_value_def)

lemma fits_numbered:
  assumes "ri_env_ok env" and "i < 10" and "name \<in> {''ihost'', ''ikey'', ''iport'', ''itag''}"
  shows "fits 50 (str name @ re_int_print env (int i))"
proof -
  have p: "re_int_print env (int i) = [of_char (CHR ''0'') + word_of_nat i]" using assms(1,2) by (simp add: ri_env_ok_def)
  have "unat (of_char (CHR ''0'') + word_of_nat i :: byte) = 48 + i"
    using assms(2) by (simp add: of_char_def unat_word_ariths unat_of_nat)
  then have "(of_char (CHR ''0'') + word_of_nat i :: byte) \<noteq> 0" by (metis add_is_0 numeral_eq_iff unat_0 zero_neq_numeral)
  moreover have "0 \<notin> set (str name) \<and> length (str name) \<le> 5" using assms(3) by (auto simp: str_def of_char_def)
  ultimately show ?thesis by (auto simp: fits_def p)
qed

lemma address_pairs_fit:
  assumes env: "ri_env_ok env" and a: "address_ok env a"
  shows "\<forall>(k, v) \<in> set (address_pairs env ri a). fits 50 k \<and> fits 50 v"
proof -
  have int: "fits 50 (re_int_print env i)" if "int_ok i" for i using env that by (simp add: ri_env_ok_def)
  have ip: "fits 50 (re_ip_print env h)" if "ip_ok h" for h using env that by (simp add: ri_env_ok_def)
  have tag: "fits 50 (re_tag_print env t)" for t using env by (simp add: ri_env_ok_def)
  have key: "fits 50 (write_key k)" if "length k = 32" for k using write_key_read(1) [OF that that] .
  have each: "\<forall>(k, v) \<in> set (introducer_pairs env (ad_introducers a)). fits 50 k \<and> fits 50 v" if "ad_style a = eTransportSSU"
  proof -
    have x: "length (ad_introducers a) \<le> 10" "introducer_ok (ad_introducers a ! i)" if "i < length (ad_introducers a)" for i
      using a \<open>ad_style a = _\<close> that by (auto simp: address_ok_def)
    have fn: "fits 50 (str ''ihost'' @ re_int_print env (int i))" "fits 50 (str ''ikey'' @ re_int_print env (int i))"
      "fits 50 (str ''iport'' @ re_int_print env (int i))" "fits 50 (str ''itag'' @ re_int_print env (int i))"
      if "i < length (ad_introducers a)" for i
      by (rule fits_numbered [OF env]; use x(1) [OF that] that in simp)+
    show ?thesis
      using x(2) fn by (auto simp: introducer_pairs_def Let_def introducer_ok_def intro: int ip tag key)
  qed
  show ?thesis
    using a each by (auto simp: address_pairs_def address_ok_def intro: int ip key split: if_splits)
qed

text \<open>Reading the pairs of an address into a fresh one.\<close>

definition transport_bit :: "Address \<Rightarrow> byte" where
  "transport_bit a = (if is_v4 (ad_host a) then (if ad_style a = eTransportNTCP then eNTCPV4 else eSSUV4)
     else (if ad_style a = eTransportNTCP then eNTCPV6 else eSSUV6))"

definition after_address :: "RouterInfo \<Rightarrow> Address \<Rightarrow> RouterInfo \<Rightarrow> RouterInfo" where
  "after_address written a ri =
     (let ri = (if ad_style a = eTransportSSU then ExtractCaps ri (caps_value written) else ri)
      in ri\<lparr>ri_supportedTransports := ri_supportedTransports ri OR transport_bit a\<rparr>)"

lemma address_pairs_read:
  assumes env: "ri_env_ok env" and a: "address_ok env a"
  shows "fold_pairs (address_property env) (address_pairs env written a)
     (ri, fresh_address env (ad_cost a) (ad_date a) (ad_style a), True, b) =
     Inr (after_address written a ri, a, True, b \<or> ad_introducers a \<noteq> [])"
proof -
  have host: "re_ip_parse env (re_ip_print env (ad_host a)) = Some (ad_host a)"
    and int: "re_int_parse env (re_int_print env (ad_port a)) = Some (ad_port a)"
      "re_int_parse env (re_int_print env (ad_mtu a)) = Some (ad_mtu a)" and jk: "length (in_key (re_junk env)) = 32"
    using env a by (simp_all add: ri_env_ok_def address_ok_def)
  let ?f = "fresh_address env (ad_cost a) (ad_date a) (ad_style a)"
  show ?thesis
  proof (cases "ad_style a = eTransportSSU")
    case False
    have "a = ?f\<lparr>ad_host := ad_host a, ad_port := ad_port a\<rparr>"
      using a False by (intro Address.equality) (simp_all add: address_ok_def fresh_address_def)
    then show ?thesis
      using False host int a
      by (simp add: address_pairs_def address_property_def after_address_def transport_bit_def address_ok_def fresh_address_def)
  next
    case True
    have k: "length (ad_key a) = 32" and ins: "length (ad_introducers a) \<le> 10" "\<forall>x \<in> set (ad_introducers a). introducer_ok x"
      using a True by (simp_all add: address_ok_def)
    let ?r = "ExtractCaps ri (caps_value written)"
    let ?r' = "?r\<lparr>ri_supportedTransports := ri_supportedTransports ?r OR transport_bit a\<rparr>"
    have r': "after_address written a ri = ?r'" using True by (simp add: after_address_def Let_def)
    have s1: "fold_pairs (address_property env) [(str ''caps'', caps_value written), (str ''host'', re_ip_print env (ad_host a))]
        (ri, ?f, True, b) = Inr (?r', ?f\<lparr>ad_host := ad_host a\<rparr>, True, b)"
      using host True by (simp add: address_property_def transport_bit_def fresh_address_def)
    have s2: "fold_pairs (address_property env) (introducer_pairs env (ad_introducers a)) (?r', ?f\<lparr>ad_host := ad_host a\<rparr>, True, b) =
        Inr (?r', ?f\<lparr>ad_host := ad_host a, ad_introducers := ad_introducers a\<rparr>, True, b \<or> ad_introducers a \<noteq> [])"
      unfolding introducer_pairs_def Let_def
      using introducers_read [OF env ins, of "?f\<lparr>ad_host := ad_host a\<rparr>" ?r' True b] by (simp add: fresh_address_def)
    have s3: "fold_pairs (address_property env) ([(str ''key'', write_key (ad_key a))] @
        (if ad_mtu a \<noteq> 0 then [(str ''mtu'', re_int_print env (ad_mtu a))] else []) @ [(str ''port'', re_int_print env (ad_port a))])
        (?r', ?f\<lparr>ad_host := ad_host a, ad_introducers := ad_introducers a\<rparr>, True, c) = Inr (?r', a, True, c)" for c
    proof -
      have "a = ?f\<lparr>ad_host := ad_host a, ad_introducers := ad_introducers a, ad_key := ad_key a, ad_mtu := ad_mtu a, ad_port := ad_port a\<rparr>"
        using a True by (intro Address.equality) (simp_all add: address_ok_def fresh_address_def)
      then show ?thesis
        using int write_key_read(2) [OF k jk]
        by (cases "ad_mtu a = 0") (simp_all add: address_property_def fresh_address_def)
    qed
    let ?A = "[(str ''caps'', caps_value written), (str ''host'', re_ip_print env (ad_host a))]"
      and ?C = "[(str ''key'', write_key (ad_key a))] @
        (if ad_mtu a \<noteq> 0 then [(str ''mtu'', re_int_print env (ad_mtu a))] else []) @ [(str ''port'', re_int_print env (ad_port a))]"
    have "address_pairs env written a = ?A @ introducer_pairs env (ad_introducers a) @ ?C"
      using True by (simp add: address_pairs_def)
    moreover have "fold_pairs (address_property env) (?A @ introducer_pairs env (ad_introducers a) @ ?C) (ri, ?f, True, b) =
        Inr (?r', a, True, b \<or> ad_introducers a \<noteq> [])"
      by (subst fold_pairs_append, subst s1, subst and_then_simps, subst fold_pairs_append, subst s2, subst and_then_simps) (rule s3)
    ultimately show ?thesis by (simp only: r')
  qed
qed


lemma read_size_write_size [simp]: "read_size (write_size n @ s) = Inr (word_of_nat n, s)"
proof -
  have "unat (word_of_nat n :: 16 word) < 65536" using unsigned_less [of "word_of_nat n :: 16 word"] by simp
  then have "be_val (write_size n) = unat (word_of_nat n :: 16 word)"
    unfolding write_size_def by (rule be_val_be_bytes_2)
  moreover have "length (write_size n) = 2" by (simp add: write_size_def)
  ultimately show ?thesis by (simp add: read_size_def)
qed

lemma read_address_written:
  assumes env: "ri_env_ok env" and a: "address_ok env a" and small: "length (address_properties env written a) < 65536"
  shows "read_address env (ri, b) (write_address env written a @ s) =
    Inr (((after_address written a ri)\<lparr>ri_addresses := ri_addresses ri @ [a]\<rparr>, b \<or> ad_introducers a \<noteq> []), s)"
proof -
  let ?p = "address_properties env written a"
  have sty: "ReadString 5 (WriteString (style_name (ad_style a)) @ x) = Inr (style_name (ad_style a), length (style_name (ad_style a)) + 1, x)" for x
    by (rule ReadString_WriteString) (cases "ad_style a"; simp add: fits_def style_name_def str_def of_char_def)+
  have so: "style_of (style_name (ad_style a)) = ad_style a"
    by (cases "ad_style a") (simp_all add: style_of_def style_name_def str_def of_char_def)
  have d: "length (ad_date a) = 8" using a by (simp add: address_ok_def)
  have fit: "\<forall>(k, v) \<in> set (address_pairs env written a). fits 500 k \<and> fits 500 v \<and> fits 256 k \<and> fits 256 v"
    using address_pairs_fit [OF env a, of written] by (auto intro: fits_mono)
  have rp: "read_pairs 500 (address_property env) (word_of_nat (length ?p)) 0 (?p @ s)
      (ri, fresh_address env (ad_cost a) (ad_date a) (ad_style a), True, b) =
      Inr ((after_address written a ri, a, True, b \<or> ad_introducers a \<noteq> []), s)"
    using read_pairs_written [OF fit, of 0 "address_property env" s "(ri, fresh_address env (ad_cost a) (ad_date a) (ad_style a), True, b)"]
      small address_pairs_read [OF env a, of written ri b]
    by (simp add: address_properties_pairs)
  have ad: "ri_addresses (after_address written a ri) = ri_addresses ri"
    by (simp add: after_address_def ExtractCaps_def Let_def)
  have w: "write_address env written a @ s =
      [ad_cost a] @ ad_date a @ WriteString (style_name (ad_style a)) @ write_size (length ?p) @ ?p @ s"
    by (simp add: write_address_def Let_def)
  show ?thesis
    unfolding w read_address_def prod.case
    by (simp add: d sty so rp ad del: append_Cons)
qed

definition after_addresses :: "RouterInfo \<Rightarrow> Address list \<Rightarrow> RouterInfo \<Rightarrow> RouterInfo" where
  "after_addresses written as ri = fold (\<lambda>a ri. (after_address written a ri)\<lparr>ri_addresses := ri_addresses ri @ [a]\<rparr>) as ri"

lemma read_addresses_written:
  assumes env: "ri_env_ok env" and as: "\<forall>a \<in> set as. address_ok env a \<and> length (address_properties env written a) < 65536"
  shows "read_addresses env (length as) (ri, b) (concat (map (write_address env written) as) @ s) =
    Inr ((after_addresses written as ri, b \<or> (\<exists>a \<in> set as. ad_introducers a \<noteq> [])), s)"
  using as
proof (induction as arbitrary: ri b)
  case Nil
  then show ?case by (simp add: after_addresses_def)
next
  case (Cons a as)
  have "read_address env (ri, b) (write_address env written a @ concat (map (write_address env written) as) @ s) =
    Inr (((after_address written a ri)\<lparr>ri_addresses := ri_addresses ri @ [a]\<rparr>, b \<or> ad_introducers a \<noteq> []),
      concat (map (write_address env written) as) @ s)"
    by (rule read_address_written [OF env]) (use Cons.prems in auto)
  with Cons show ?case by (simp add: after_addresses_def disj_assoc)
qed

lemma after_address_simps [simp]:
  "ri_addresses (after_address w a ri) = ri_addresses ri" "ri_properties (after_address w a ri) = ri_properties ri"
  "ri_timestamp (after_address w a ri) = ri_timestamp ri" "ri_identity (after_address w a ri) = ri_identity ri"
  "ri_supportedTransports (after_address w a ri) = ri_supportedTransports ri OR transport_bit a"
  "ri_caps (after_address w a ri) = (if ad_style a = eTransportSSU
     then fold (\<lambda>c caps. caps OR cap_bits c) (caps_value w) (ri_caps ri) else ri_caps ri)"
  by (simp_all add: after_address_def ExtractCaps_def Let_def cstr_fits [OF fits_names(6)])

lemma after_addresses_simps [simp]:
  "ri_addresses (after_addresses w as ri) = ri_addresses ri @ as" "ri_properties (after_addresses w as ri) = ri_properties ri"
  "ri_timestamp (after_addresses w as ri) = ri_timestamp ri" "ri_identity (after_addresses w as ri) = ri_identity ri"
  "ri_supportedTransports (after_addresses w as ri) = fold (\<lambda>a b. b OR transport_bit a) as (ri_supportedTransports ri)"
  unfolding after_addresses_def by (induction as arbitrary: ri) simp_all

text \<open>Inserting the pairs of a sorted map in their order gives the map.\<close>

lemma omap_put_last:
  "omap_ok (m @ [(k, v)]) \<Longrightarrow> omap_put k v m = m @ [(k, v)]"
proof (induction m)
  case (Cons kv m)
  then show ?case
    by (cases kv) (auto simp: omap_ok_def sorted_wrt_append)
qed simp

lemma router_properties_read:
  assumes "omap_ok (ri_properties ri @ kvs)"
  shows "\<exists>ri'. fold_pairs router_property kvs ri = Inr ri' \<and> ri_properties ri' = ri_properties ri @ kvs \<and>
    ri_addresses ri' = ri_addresses ri \<and> ri_timestamp ri' = ri_timestamp ri \<and>
    ri_supportedTransports ri' = ri_supportedTransports ri \<and> ri_identity ri' = ri_identity ri"
  using assms
proof (induction kvs arbitrary: ri)
  case Nil
  then show ?case by simp
next
  case (Cons kv kvs)
  obtain k v where kv: "kv = (k, v)" by (cases kv)
  have "omap_ok (ri_properties ri @ [(k, v)])"
    using Cons.prems by (auto simp: omap_ok_def sorted_wrt_append kv)
  then have p: "omap_put k v (ri_properties ri) = ri_properties ri @ [(k, v)]" by (rule omap_put_last)
  let ?r = "if k = str ''caps'' then ExtractCaps (SetProperty ri k v) v else SetProperty ri k v"
  have r: "ri_properties ?r = ri_properties ri @ [(k, v)]" "ri_addresses ?r = ri_addresses ri" "ri_timestamp ?r = ri_timestamp ri"
    "ri_supportedTransports ?r = ri_supportedTransports ri" "ri_identity ?r = ri_identity ri"
    using p by (auto simp: SetProperty_def ExtractCaps_def)
  have rp: "router_property k v ri = Inr ?r" by (simp add: router_property_def Let_def)
  show ?case
    using Cons.IH [of ?r] Cons.prems r unfolding kv fold_pairs.simps rp and_then_simps by simp
qed

section \<open>Properties\<close>



text \<open>A text form for the examples: the two halves of a byte, each plus one; single digits as they are.\<close>

definition halves :: "byte \<Rightarrow> bytes" where
  "halves b = [word_of_nat (unat b div 16 + 1), word_of_nat (unat b mod 16 + 1)]"

fun unhalves :: "bytes \<Rightarrow> bytes" where
  "unhalves (x # y # s) = word_of_nat ((unat x - 1) * 16 + (unat y - 1)) # unhalves s"
| "unhalves _ = []"

lemma halves_byte: "unhalves (halves b @ s) = b # unhalves s" "0 \<notin> set (halves b)" "length (halves b) = 2"
proof -
  have b: "unat b < 256" using unsigned_less [of b] by simp
  have u: "unat (word_of_nat (unat b div 16 + 1) :: byte) = unat b div 16 + 1"
    "unat (word_of_nat (unat b mod 16 + 1) :: byte) = unat b mod 16 + 1"
    using b by (simp_all add: unat_of_nat del: of_nat_add of_nat_Suc)
  have "unat b div 16 * 16 + unat b mod 16 = unat b" by simp
  then show "unhalves (halves b @ s) = b # unhalves s"
    unfolding halves_def by (simp only: append_Cons append_Nil unhalves.simps u add_diff_cancel_right') simp
  show "0 \<notin> set (halves b)" unfolding halves_def using u by (metis add_is_0 empty_iff empty_set set_ConsD unat_0 zero_neq_one)
qed (simp add: halves_def)

lemma halves_list:
  "unhalves (concat (map halves bs)) = bs" "0 \<notin> set (concat (map halves bs))" "length (concat (map halves bs)) = 2 * length bs"
proof (induction bs)
  case (Cons b bs)
  { case 1 show ?case using Cons(1) by (simp add: halves_byte(1)) next
    case 2 show ?case using Cons(2) by (simp add: halves_byte(2)) next
    case 3 show ?case using Cons(3) by (simp add: halves_byte(3)) }
qed simp_all

definition toy_print :: "nat \<Rightarrow> nat \<Rightarrow> bytes" where
  "toy_print n v = concat (map halves (be_bytes n v))"

lemma toy_print: "v < 256 ^ n \<Longrightarrow> be_val (unhalves (toy_print n v)) = v" "0 \<notin> set (toy_print n v)" "length (toy_print n v) = 2 * n"
  by (simp_all add: toy_print_def halves_list halves_byte(2) be_val_be_bytes)

definition toy_ri_env :: ri_env where
  "toy_ri_env = \<lparr>re_ip_parse = (\<lambda>s. if length s = 8 then Some (V4 (unhalves s)) else if length s = 32 then Some (V6 (unhalves s)) else None),
     re_ip_print = (\<lambda>a. concat (map halves (ip_bytes a))),
     re_int_parse = (\<lambda>s. case s of [d] \<Rightarrow> Some (int (unat d) - 48) | _ \<Rightarrow> Some (int (be_val (unhalves s)) - 2 ^ 31)),
     re_int_print = (\<lambda>i. if 0 \<le> i \<and> i < 10 then [of_char (CHR ''0'') + word_of_nat (nat i)] else toy_print 4 (nat (i + 2 ^ 31))),
     re_tag_parse = (\<lambda>s. Some (word_of_nat (be_val (unhalves s)))), re_tag_print = (\<lambda>t. toy_print 4 (unat t)),
     re_junk = \<lparr>in_host = V4 [0, 0, 0, 0], in_port = 0, in_key = replicate 32 170, in_tag = 0\<rparr>\<rparr>"

lemma toy_ri_env_ok: "ri_env_ok toy_ri_env"
proof -
  have ip: "re_ip_parse toy_ri_env (re_ip_print toy_ri_env a) = Some a \<and> fits 50 (re_ip_print toy_ri_env a)" if "ip_ok a" for a
    using that by (cases a) (simp_all add: toy_ri_env_def halves_list halves_byte(2) fits_def)
  have int: "re_int_parse toy_ri_env (re_int_print toy_ri_env i) = Some i \<and> fits 50 (re_int_print toy_ri_env i)" if i: "int_ok i" for i
  proof (cases "0 \<le> i \<and> i < 10")
    case True
    obtain n where n: "i = int n" "n < 10" using True by (metis nonneg_int_cases of_nat_less_iff of_nat_numeral)
    have "unat (of_char (CHR ''0'') + word_of_nat (nat i) :: byte) = 48 + nat i"
      using n by (simp add: of_char_def unat_word_ariths unat_of_nat)
    moreover from this have "(of_char (CHR ''0'') + word_of_nat (nat i) :: byte) \<noteq> 0" by (metis add_is_0 unat_0 zero_neq_numeral)
    ultimately show ?thesis using True by (simp add: toy_ri_env_def fits_def)
  next
    case False
    let ?v = "nat (i + 2 ^ 31)"
    have v: "?v < 256 ^ 4" using i by (simp add: int_ok_def nat_less_iff)
    have l: "length (toy_print 4 ?v) = 8" "0 \<notin> set (toy_print 4 ?v)" "be_val (unhalves (toy_print 4 ?v)) = ?v"
      using toy_print(1) [of ?v 4] toy_print(2,3) [of 4 ?v] v by simp_all
    have "re_int_parse toy_ri_env (toy_print 4 ?v) = Some i"
      using l i by (auto split: list.splits simp: int_ok_def toy_ri_env_def)
    moreover have rp: "re_int_print toy_ri_env i = toy_print 4 ?v" using False by (auto simp: toy_ri_env_def)
    ultimately show ?thesis unfolding rp using l by (simp add: fits_def)
  qed
  have tag: "re_tag_parse toy_ri_env (re_tag_print toy_ri_env t) = Some t \<and> fits 50 (re_tag_print toy_ri_env t)" for t
  proof -
    have "unat t < 256 ^ 4" using unsigned_less [of t] by simp
    then show ?thesis using toy_print(1) [of "unat t" 4] toy_print(2,3) [of 4 "unat t"] by (simp add: toy_ri_env_def fits_def)
  qed
  show ?thesis unfolding ri_env_ok_def
    using ip int tag by (auto simp: toy_ri_env_def)
qed

definition sample_ri :: "RouterInfo" where
  "sample_ri = \<lparr>ri_identity = fresh_identity, ri_buffer = None, ri_bufferLen = 0, ri_timestamp = 77,
     ri_addresses = [(new_address eTransportSSU (V4 [10, 0, 0, 1]) 9000 10 1484 (replicate 32 5))\<lparr>ad_introducers :=
        [\<lparr>in_host = V4 [10, 0, 0, 2], in_port = 9001, in_key = replicate 32 6, in_tag = 3\<rparr>]\<rparr>],
     ri_properties = [(str ''caps'', str ''LR'')], ri_isUpdated = False, ri_isUnreachable = False,
     ri_supportedTransports = 4, ri_caps = 0x38\<rparr>"


text \<open>
  C27: \<open>ReadFromStream\<close> trusts the lengths in a \<open>RouterInfo\<close> it got from the network: a transport
  style of five or more characters, or a property key of fifty or more, overflows the array on the
  stack it is read into.
\<close>

theorem ReadFromStream_overflow:
  assumes "length ts = 8" and "length date = 8" and "0 < numAddresses" and "5 \<le> len" and "0 < sz" and "50 \<le> len2"
  shows "ReadFromStream env ri (ts @ [numAddresses, cost] @ date @ [len] @ rest) = Inl Overflow \<and>
    ReadFromStream env ri (ts @ [0, 0] @ be_bytes 2 (unat (sz :: 16 word)) @ [len2] @ rest) = Inl Overflow"
proof -
  obtain n where n: "unat numAddresses = Suc n"
    using assms(3) by (metis not0_implies_Suc unat_0 word_less_nat_alt less_irrefl)
  have l: "5 \<le> unat len" "50 \<le> unat len2" using assms(4,6) by (simp_all add: word_le_nat_alt)
  have rs: "ReadString 5 (len # rest) = Inl Overflow" "ReadString 50 (len2 # rest) = Inl Overflow"
    using l by (simp_all add: ReadString_def)
  have ra: "read_address env (r, b) (cost # date @ len # rest) = Inl Overflow" for r b
    using assms(2) rs(1) by (simp add: read_address_def)
  have "unat sz < 65536" using unsigned_less [of sz] by simp
  then have "be_val (be_bytes 2 (unat sz)) = unat sz" by (rule be_val_be_bytes_2)
  then have z: "read_size (be_bytes 2 (unat sz) @ s) = Inr (sz, s)" for s by (simp add: read_size_def)
  have rp: "read_pairs 50 f sz 0 (len2 # rest) a = Inl Overflow" for f :: "bytes \<Rightarrow> bytes \<Rightarrow> RouterInfo \<Rightarrow> ri_error + RouterInfo" and a
    using assms(5) rs(2) by (subst read_pairs.simps) simp
  have nz: "read_n 0 s = Inr ([], s)" for s by (simp add: read_n_def)
  show ?thesis
    using assms(1) n ra z rp nz by (simp add: ReadFromStream_def Let_def)
qed

theorem ReadFromStream_overflow_witness:
  "ReadFromStream toy_ri_env sample_ri (replicate 8 0 @ [1, 0] @ replicate 8 0 @ [5] @ []) = Inl Overflow"
  using ReadFromStream_overflow [of "replicate 8 0" "replicate 8 0" 1 5 1 50 toy_ri_env sample_ri 0 "[]"] by simp

end
