(* ===== verification/Core_RouterContext.thy ===== *)
theory Core_RouterContext
  imports Core_RouterInfo
begin

text \<open>
  \<open>src/core/RouterContext.h\<close> and \<open>RouterContext.cpp\<close>: the router's own keys and router info, and the
  operations by which transports and the daemon change what it publishes. An operation that publishes
  signs the router info anew; \<^term>\<open>None\<close> is a buffer that is too small for it. What the code writes
  to files is left out; the configuration and the version are arguments.
\<close>

section \<open>State\<close>

datatype router_status = eRouterStatusOK | eRouterStatusTesting | eRouterStatusFirewalled

record router_context =
  rc_ri :: RouterInfo
  rc_keys :: PrivateKeys
  rc_lastUpdate :: "64 word"
  rc_acceptsTunnels :: bool
  rc_isFloodfill :: bool
  rc_startupTime :: "64 word"
  rc_status :: router_status

text \<open>Boost and the printing of numbers, the signature schemes, and the clock in milliseconds.\<close>

record rc_env =
  rce_ri :: ri_env
  rce_sigs :: sig_env
  rce_sha :: "bytes \<Rightarrow> bytes"
  rce_now :: "64 word"

definition rc_seconds :: "rc_env \<Rightarrow> 64 word" where
  "rc_seconds env = rce_now env div 1000"

definition ROUTER_INFO_UPDATE_INTERVAL :: "64 word" where "ROUTER_INFO_UPDATE_INTERVAL = 1800"

definition ROUTER_INFO_PROPERTY_LEASESETS :: bytes where
  "ROUTER_INFO_PROPERTY_LEASESETS = str ''netdb.knownLeaseSets''"

definition ROUTER_INFO_PROPERTY_ROUTERS :: bytes where
  "ROUTER_INFO_PROPERTY_ROUTERS = str ''netdb.knownRouters''"

definition upd_ri :: "(RouterInfo \<Rightarrow> RouterInfo) \<Rightarrow> router_context \<Rightarrow> router_context" where
  "upd_ri f c = c\<lparr>rc_ri := f (rc_ri c)\<rparr>"

section \<open>Publishing\<close>

definition UpdateRouterInfo :: "rc_env \<Rightarrow> router_context \<Rightarrow> router_context option" where
  "UpdateRouterInfo env c = do {
     ri \<leftarrow> CreateBuffer (rce_ri env) (rce_sigs env) (rce_now env) (rc_ri c) (rc_keys c);
     Some (c\<lparr>rc_ri := ri, rc_lastUpdate := rc_seconds env\<rparr>) }"

definition publish_if :: "bool \<Rightarrow> rc_env \<Rightarrow> router_context \<Rightarrow> router_context option" where
  "publish_if updated env c = (if updated then UpdateRouterInfo env c else Some c)"

text \<open>\<open>NewRouterInfo\<close>; \<open>ri\<close> is the freshly constructed object, \<open>version\<close> is \<open>I2P_VERSION\<close>.\<close>

definition new_router_info :: "rc_env \<Rightarrow> bytes \<Rightarrow> int \<Rightarrow> bytes \<Rightarrow> IdentityEx \<Rightarrow> RouterInfo \<Rightarrow> RouterInfo option" where
  "new_router_info env host port version ix ri = do {
     let ri = ri\<lparr>ri_identity := ix\<rparr>;
     ri \<leftarrow> AddSSUAddress (rce_ri env) ri host port (ix_hash ix) 0;
     ri \<leftarrow> AddNTCPAddress (rce_ri env) ri host port;
     let ri = SetCaps ri (eReachable OR eSSUTesting OR eSSUIntroducer);
     let ri = SetProperty ri (str ''coreVersion'') version;
     let ri = SetProperty ri (str ''netId'') (str ''2'');
     let ri = SetProperty ri (str ''router.version'') version;
     Some (SetProperty ri (str ''stat_uptime'') (str ''90m'')) }"

definition NewRouterInfo :: "rc_env \<Rightarrow> bytes \<Rightarrow> int \<Rightarrow> bytes \<Rightarrow> RouterInfo \<Rightarrow> router_context \<Rightarrow> (ri_error + router_context)" where
  "NewRouterInfo env host port version fresh c =
     and_then (or_error BadMemory (new_router_info env host port version (pk_public (rc_keys c)) fresh)) (\<lambda>ri.
     and_then (or_error BadMemory (CreateBuffer (rce_ri env) (rce_sigs env) (rce_now env) ri (rc_keys c))) (\<lambda>ri.
     and_then (or_error BadMemory (ri_buffer ri)) (\<lambda>b.
     and_then (RouterInfo_Update (rce_ri env) (rce_sigs env) (rce_sha env) (rc_ri c) (take (ri_bufferLen ri) b)) (\<lambda>ri.
       Inr (c\<lparr>rc_ri := ri\<rparr>)))))"

section \<open>Addresses\<close>

definition UpdatePort :: "rc_env \<Rightarrow> int \<Rightarrow> router_context \<Rightarrow> router_context option" where
  "UpdatePort env port c =
     publish_if (\<exists>a \<in> set (ri_addresses (rc_ri c)). ad_port a \<noteq> port) env
       (upd_ri (\<lambda>ri. ri\<lparr>ri_addresses := map (\<lambda>a. a\<lparr>ad_port := port\<rparr>) (ri_addresses ri)\<rparr>) c)"

text \<open>\<open>Address::IsCompatible\<close>.\<close>

definition same_family :: "ip_address \<Rightarrow> Address \<Rightarrow> bool" where
  "same_family host a \<longleftrightarrow> (is_v4 (ad_host a) \<and> is_v4 host) \<or> (is_v6 (ad_host a) \<and> is_v6 host)"

definition move_host :: "ip_address \<Rightarrow> Address \<Rightarrow> Address" where
  "move_host host a = (if ad_host a \<noteq> host \<and> same_family host a then a\<lparr>ad_host := host\<rparr> else a)"

definition context_UpdateAddress :: "rc_env \<Rightarrow> ip_address \<Rightarrow> router_context \<Rightarrow> router_context option" where
  "context_UpdateAddress env host c =
     publish_if ((\<exists>a \<in> set (ri_addresses (rc_ri c)). ad_host a \<noteq> host \<and> same_family host a) \<or>
         rc_seconds env > rc_lastUpdate c + ROUTER_INFO_UPDATE_INTERVAL) env
       (upd_ri (\<lambda>ri. ri\<lparr>ri_addresses := map (move_host host) (ri_addresses ri)\<rparr>) c)"

definition context_AddIntroducer :: "rc_env \<Rightarrow> RouterInfo \<Rightarrow> 32 word \<Rightarrow> router_context \<Rightarrow> (router_context \<times> bool) option" where
  "context_AddIntroducer env routerInfo tag c = (case GetSSUAddress routerInfo True of
       None \<Rightarrow> Some (c, False)
     | Some a \<Rightarrow> (let (ri, ret) = AddIntroducer (rc_ri c) a tag
         in map_option (\<lambda>c. (c, ret)) (publish_if ret env (c\<lparr>rc_ri := ri\<rparr>))))"

definition context_RemoveIntroducer :: "rc_env \<Rightarrow> endpoint \<Rightarrow> router_context \<Rightarrow> router_context option" where
  "context_RemoveIntroducer env e c = (let (ri, ret) = RemoveIntroducer (rc_ri c) e
     in publish_if ret env (c\<lparr>rc_ri := ri\<rparr>))"

section \<open>Capabilities\<close>

definition SetFloodfill :: "rc_env \<Rightarrow> bool \<Rightarrow> router_context \<Rightarrow> router_context option" where
  "SetFloodfill env floodfill c = UpdateRouterInfo env (upd_ri (\<lambda>ri.
     if floodfill then SetCaps ri (ri_caps ri OR eFloodfill)
     else DeleteProperty (DeleteProperty (SetCaps ri (ri_caps ri AND NOT eFloodfill))
       ROUTER_INFO_PROPERTY_LEASESETS) ROUTER_INFO_PROPERTY_ROUTERS) (c\<lparr>rc_isFloodfill := floodfill\<rparr>))"

definition SetHighBandwidth :: "rc_env \<Rightarrow> router_context \<Rightarrow> router_context option" where
  "SetHighBandwidth env c = (if \<not> IsHighBandwidth (rc_ri c)
     then UpdateRouterInfo env (upd_ri (\<lambda>ri. SetCaps ri (ri_caps ri OR eHighBandwidth)) c) else Some c)"

definition SetLowBandwidth :: "rc_env \<Rightarrow> router_context \<Rightarrow> router_context option" where
  "SetLowBandwidth env c = (if IsHighBandwidth (rc_ri c)
     then UpdateRouterInfo env (upd_ri (\<lambda>ri. SetCaps ri (ri_caps ri AND NOT eHighBandwidth)) c) else Some c)"

definition IsUnreachable :: "router_context \<Rightarrow> bool" where
  "IsUnreachable c \<longleftrightarrow> ri_caps (rc_ri c) AND eUnreachable \<noteq> 0"

definition clear_introducers :: "RouterInfo \<Rightarrow> RouterInfo" where
  "clear_introducers ri = ri\<lparr>ri_addresses := map (\<lambda>a. a\<lparr>ad_introducers := []\<rparr>) (ri_addresses ri)\<rparr>"

definition SetUnreachable :: "rc_env \<Rightarrow> router_context \<Rightarrow> router_context option" where
  "SetUnreachable env c = UpdateRouterInfo env (upd_ri (\<lambda>ri.
     let ri = SetCaps ri (eUnreachable OR eSSUTesting);
         ri = ri\<lparr>ri_addresses := remove_first (\<lambda>a. ad_style a = eTransportNTCP) (ri_addresses ri)\<rparr>
     in clear_introducers ri) c)"

definition reachable_caps :: "bool \<Rightarrow> byte \<Rightarrow> byte" where
  "reachable_caps floodfill caps =
     (let caps = caps AND NOT eUnreachable; caps = caps OR eReachable; caps = caps OR eSSUIntroducer
      in if floodfill then caps OR eFloodfill else caps)"

definition SetReachable :: "rc_env \<Rightarrow> router_context \<Rightarrow> router_context option" where
  "SetReachable env c = do {
     let ri = SetCaps (rc_ri c) (reachable_caps (rc_isFloodfill c) (ri_caps (rc_ri c)));
     ri \<leftarrow> (case find (\<lambda>a. ad_style a = eTransportSSU) (ri_addresses ri) of
         None \<Rightarrow> Some ri
       | Some a \<Rightarrow> AddNTCPAddress (rce_ri env) ri (re_ip_print (rce_ri env) (ad_host a)) (ad_port a));
     UpdateRouterInfo env (c\<lparr>rc_ri := clear_introducers ri\<rparr>) }"

definition SetSupportsV6 :: "rc_env \<Rightarrow> bool \<Rightarrow> router_context \<Rightarrow> router_context option" where
  "SetSupportsV6 env supportsV6 c = UpdateRouterInfo env (upd_ri (if supportsV6 then EnableV6 else DisableV6) c)"

definition SupportsV6 :: "router_context \<Rightarrow> bool" where "SupportsV6 c = IsV6 (rc_ri c)"

text \<open>The MTU of the interface comes from the operating system; 0 is unknown.\<close>

definition UpdateNTCPV6Address :: "rc_env \<Rightarrow> int \<Rightarrow> ip_address \<Rightarrow> router_context \<Rightarrow> router_context option" where
  "UpdateNTCPV6Address env mtu host c = (let
       is_ntcp6 = (\<lambda>a. is_v6 (ad_host a) \<and> ad_style a = eTransportNTCP);
       addresses = ri_addresses (rc_ri c);
       updated = (\<exists>a \<in> set addresses. is_ntcp6 a \<and> ad_host a \<noteq> host);
       found = (\<exists>a \<in> set addresses. is_ntcp6 a);
       port = fold (\<lambda>a p. if is_ntcp6 a then p else ad_port a) addresses 0;
       c = upd_ri (\<lambda>ri. ri\<lparr>ri_addresses := map (\<lambda>a. if is_ntcp6 a then a\<lparr>ad_host := host\<rparr> else a) addresses\<rparr>) c
     in if found then publish_if updated env c
        else do {
          let h = re_ip_print (rce_ri env) host;
          ri \<leftarrow> AddNTCPAddress (rce_ri env) (rc_ri c) h port;
          let mtu = (if mtu > 1472 then 1472 else mtu);
          ri \<leftarrow> AddSSUAddress (rce_ri env) ri h port (ix_hash (pk_public (rc_keys c))) (if mtu \<noteq> 0 then mtu else 1472);
          UpdateRouterInfo env (c\<lparr>rc_ri := ri\<rparr>) })"

definition UpdateStats :: "rc_env \<Rightarrow> int \<Rightarrow> int \<Rightarrow> router_context \<Rightarrow> router_context option" where
  "UpdateStats env leaseSets routers c = (if rc_isFloodfill c
     then UpdateRouterInfo env (upd_ri (\<lambda>ri. SetProperty
         (SetProperty ri ROUTER_INFO_PROPERTY_LEASESETS (re_int_print (rce_ri env) leaseSets))
         ROUTER_INFO_PROPERTY_ROUTERS (re_int_print (rce_ri env) routers)) c)
     else Some c)"

definition GetUptime :: "rc_env \<Rightarrow> router_context \<Rightarrow> 32 word" where
  "GetUptime env c = ucast (rc_seconds env - rc_startupTime c)"

section \<open>What is published\<close>

text \<open>Signing changes the buffer and the time stamp only.\<close>

lemma CreateBuffer_fields:
  assumes "CreateBuffer env sigs now ri keys = Some ri'"
  shows "ri_addresses ri' = ri_addresses ri" "ri_caps ri' = ri_caps ri" "ri_properties ri' = ri_properties ri"
    "ri_supportedTransports ri' = ri_supportedTransports ri" "ri_identity ri' = ri_identity ri" "ri_timestamp ri' = now"
  using assms by (auto simp: CreateBuffer_def bind_eq_Some_conv Let_def split: option.splits)

lemma UpdateRouterInfo_fields:
  assumes "UpdateRouterInfo env c = Some c'"
  shows "ri_addresses (rc_ri c') = ri_addresses (rc_ri c)" "ri_caps (rc_ri c') = ri_caps (rc_ri c)"
    "ri_properties (rc_ri c') = ri_properties (rc_ri c)"
    "ri_supportedTransports (rc_ri c') = ri_supportedTransports (rc_ri c)" "rc_keys c' = rc_keys c"
    "rc_status c' = rc_status c" "rc_isFloodfill c' = rc_isFloodfill c"
  using assms CreateBuffer_fields by (auto simp: UpdateRouterInfo_def bind_eq_Some_conv)

end
