(* ===== verification/SSU_State.thy ===== *)
theory SSU_State
  imports SSU_Packet Core_RouterContext I2NP_Create
begin

text \<open>
  The state of an SSU session and what its operations share: \<open>SSUSession.h\<close>, \<open>TransportSession.h\<close>, the
  data of \<open>SSUData.h\<close>, and the sending half of \<open>SSUData.cpp\<close>.

  An operation of a session maps \<open>ssu_session \<times> ssu_net\<close>, the session with its \<open>SSUData\<close> and what it
  reaches outside: clock, random bytes, own keys and addresses, the tables of the server, and the
  effects so far (\<open>n_out\<close>). \<^term>\<open>None\<close> is a read or write outside a buffer, or a loop that does not end.
  Memory the code leaves uninitialised holds \<open>n_garbage\<close>.
\<close>

named_theorems ssu_defs \<open>accessors and constants of SSU sessions\<close>

section \<open>Data\<close>

record ssu_fragment =
  fr_num :: nat
  fr_len :: nat
  fr_last :: bool
  fr_buf :: bytes

record incomplete_msg =
  im_msg :: i2np_msg
  im_next :: nat
  im_lastInsert :: "32 word"
  im_saved :: "ssu_fragment list"

record sent_msg =
  sm_fragments :: "ssu_fragment option list"
  sm_nextResend :: "32 word"
  sm_numResends :: nat

text \<open>The handlers that wait on \<open>m_ResendTimer\<close>; \<open>ScheduleDecay\<close> waits on it too.\<close>

datatype resend_waiter = WaitResend | WaitDecay

record ssu_data =
  d_Incomplete :: "(32 word, incomplete_msg) omap"
  d_Sent :: "(32 word, sent_msg) omap"
  d_Received :: "32 word list"
  d_ResendTimer :: "resend_waiter list"
  d_CleanupTimer :: bool
  d_MaxPacketSize :: int
  d_PacketSize :: int

datatype session_state = eSessionStateUnknown | eSessionStateIntroduced | eSessionStateEstablished |
  eSessionStateClosed | eSessionStateFailed

datatype peer_role = ePeerTestParticipantUnknown | ePeerTestParticipantAlice1 | ePeerTestParticipantAlice2 |
  ePeerTestParticipantBob | ePeerTestParticipantCharlie

datatype session_timer = ConnectTimer | TerminationTimer

record dh_pair =
  dh_publicKey :: bytes
  dh_privateKey :: bytes

record ssu_session =
  s_RemoteRouter :: "RouterInfo option"
  s_RemoteIdentity :: IdentityEx
  s_DHKeysPair :: "dh_pair option"
  s_NumSentBytes :: nat
  s_NumReceivedBytes :: nat
  s_RemoteEndpoint :: endpoint
  s_Timer :: "session_timer option"
  s_PeerTest :: bool
  s_State :: session_state
  s_IsSessionKey :: bool
  s_RelayTag :: "32 word"
  s_SessionKey :: bytes
  s_MacKey :: bytes
  s_CreationTime :: "32 word"
  s_Data :: ssu_data
  s_ConfirmData :: "bytes option"
  s_IsDataReceived :: bool

definition IsOutbound :: "ssu_session \<Rightarrow> bool" where
  "IsOutbound s \<longleftrightarrow> s_RemoteRouter s \<noteq> None"

definition session_IsV6 :: "ssu_session \<Rightarrow> bool" where
  "session_IsV6 s \<longleftrightarrow> is_v6 (fst (s_RemoteEndpoint s))"

text \<open>Sessions are named by numbers, their addresses in the heap.\<close>

record peer_test =
  pt_creationTime :: "64 word"
  pt_role :: peer_role
  pt_session :: "nat option"

datatype ssu_event =
    SendTo bytes endpoint
  | PutNextMessage i2np_msg
  | HandlerFlush
  | PeerConnected
  | PeerDisconnected
  | PostFailed

record ssu_net =
  n_env :: ssu_env
  n_i2np :: i2np_env
  n_garbage :: byte
  n_rnd16 :: "nat \<Rightarrow> bytes"
  n_rnd32 :: "nat \<Rightarrow> 32 word"
  n_alloc :: "nat \<Rightarrow> nat"
  n_dh :: "nat \<Rightarrow> dh_pair"
  n_count :: nat
  n_agree :: "bytes \<Rightarrow> bytes \<Rightarrow> bytes option"
  n_sigs :: sig_env
  n_rienv :: ri_env
  n_ctx :: router_context
  n_netdb :: "ident_hash \<Rightarrow> RouterInfo option"
  n_out :: "ssu_event list"
  n_sessions :: "(endpoint, nat) omap"
  n_relays :: "32 word \<Rightarrow> endpoint option"
  n_peerTests :: "(32 word, peer_test) omap"
  n_introducers :: "endpoint list"

abbreviation n_ri :: "ssu_net \<Rightarrow> RouterInfo" where "n_ri n \<equiv> rc_ri (n_ctx n)"
abbreviation n_keys :: "ssu_net \<Rightarrow> PrivateKeys" where "n_keys n \<equiv> rc_keys (n_ctx n)"

text \<open>\<open>i2p::context\<close> as an operation of it sees its surroundings.\<close>

definition n_rcenv :: "ssu_net \<Rightarrow> rc_env" where
  "n_rcenv n = \<lparr>rce_ri = n_rienv n, rce_sigs = n_sigs n, rce_sha = env_sha256 (n_i2np n), rce_now = env_now_ms (n_i2np n)\<rparr>"

definition upd_ctx :: "(rc_env \<Rightarrow> router_context \<Rightarrow> router_context option) \<Rightarrow> ssu_net \<Rightarrow> ssu_net option" where
  "upd_ctx f n = map_option (\<lambda>c. n\<lparr>n_ctx := c\<rparr>) (f (n_rcenv n) (n_ctx n))"

type_synonym ssu_st = "ssu_session \<times> ssu_net"

text \<open>Draws from the random generator, the allocator and the key supplier.\<close>

definition rnd_block :: "ssu_net \<Rightarrow> bytes \<times> ssu_net" where
  "rnd_block n = (n_rnd16 n (n_count n), n\<lparr>n_count := n_count n + 1\<rparr>)"

definition rnd_word :: "ssu_net \<Rightarrow> 32 word \<times> ssu_net" where
  "rnd_word n = (n_rnd32 n (n_count n), n\<lparr>n_count := n_count n + 1\<rparr>)"

definition new_addr :: "ssu_net \<Rightarrow> nat \<times> ssu_net" where
  "new_addr n = (n_alloc n (n_count n), n\<lparr>n_count := n_count n + 1\<rparr>)"

definition GetNextDHKeysPair :: "ssu_net \<Rightarrow> dh_pair \<times> ssu_net" where
  "GetNextDHKeysPair n = (n_dh n (n_count n), n\<lparr>n_count := n_count n + 1\<rparr>)"

definition emit :: "ssu_event \<Rightarrow> ssu_net \<Rightarrow> ssu_net" where
  "emit e n = n\<lparr>n_out := n_out n @ [e]\<rparr>"

definition now_s :: "ssu_net \<Rightarrow> 32 word" where "now_s n = se_now (n_env n)"

definition upd_data :: "(ssu_data \<Rightarrow> ssu_data) \<Rightarrow> ssu_st \<Rightarrow> ssu_st" where
  "upd_data f st = ((fst st)\<lparr>s_Data := f (s_Data (fst st))\<rparr>, snd st)"

definition data_of :: "ssu_st \<Rightarrow> ssu_data" where "data_of st = s_Data (fst st)"

section \<open>Packets of a session\<close>

text \<open>\<open>FillHeaderAndEncrypt\<close> with the session key and \<open>Send(buf, size)\<close>.\<close>

definition session_encrypt :: "byte \<Rightarrow> bytes \<Rightarrow> nat \<Rightarrow> ssu_st \<Rightarrow> (bytes \<times> ssu_st) option" where
  "session_encrypt payloadType buf len st = (case st of (s, n) \<Rightarrow>
     if len < SSU_HEADER_SIZE_MIN then Some (buf, st)
     else let (iv, n) = rnd_block n in
       map_option (\<lambda>b. (b, (s, n)))
         (FillHeaderAndEncrypt_session (n_env n) (s_SessionKey s) (s_MacKey s) iv payloadType buf len))"

definition session_send :: "bytes \<Rightarrow> nat \<Rightarrow> ssu_st \<Rightarrow> ssu_st option" where
  "session_send buf len st = (case st of (s, n) \<Rightarrow> do {
     b \<leftarrow> mem_read buf 0 len;
     Some (s\<lparr>s_NumSentBytes := s_NumSentBytes s + len\<rparr>, emit (SendTo b (s_RemoteEndpoint s)) n) })"

text \<open>\<open>Send(type, payload, len)\<close>.\<close>

definition session_Send :: "byte \<Rightarrow> bytes \<Rightarrow> ssu_st \<Rightarrow> ssu_st option" where
  "session_Send type payload st =
     (let msgSize = padded_16 (length payload + SSU_HEADER_SIZE_MIN) in
      if msgSize > SSU_MTU_V4 then Some st
      else do {
        buf \<leftarrow> mem_write (replicate (SSU_MTU_V4 + 18) 0) SSU_HEADER_SIZE_MIN payload;
        (buf, st) \<leftarrow> session_encrypt type buf msgSize st;
        session_send buf msgSize st })"

section \<open>SSUData: packet size and sending\<close>

definition IPV4_HEADER_SIZE :: nat where [ssu_defs]: "IPV4_HEADER_SIZE = 20"
definition IPV6_HEADER_SIZE :: nat where [ssu_defs]: "IPV6_HEADER_SIZE = 40"
definition UDP_HEADER_SIZE :: nat where [ssu_defs]: "UDP_HEADER_SIZE = 8"
definition SSU_MTU_V6 :: nat where [ssu_defs]: "SSU_MTU_V6 = 1472"
definition SSU_V4_MAX_PACKET_SIZE :: nat where [ssu_defs]:
  "SSU_V4_MAX_PACKET_SIZE = SSU_MTU_V4 - IPV4_HEADER_SIZE - UDP_HEADER_SIZE"
definition SSU_V6_MAX_PACKET_SIZE :: nat where [ssu_defs]:
  "SSU_V6_MAX_PACKET_SIZE = SSU_MTU_V6 - IPV6_HEADER_SIZE - UDP_HEADER_SIZE"
definition RESEND_INTERVAL :: "32 word" where [ssu_defs]: "RESEND_INTERVAL = 3"
definition MAX_NUM_RESENDS :: nat where [ssu_defs]: "MAX_NUM_RESENDS = 5"
definition MAX_NUM_RECEIVED_MESSAGES :: nat where [ssu_defs]: "MAX_NUM_RECEIVED_MESSAGES = 1000"
definition INCOMPLETE_MESSAGES_CLEANUP_TIMEOUT :: "32 word" where [ssu_defs]: "INCOMPLETE_MESSAGES_CLEANUP_TIMEOUT = 30"
definition DATA_FLAG_EXTENDED_DATA_INCLUDED :: byte where [ssu_defs]: "DATA_FLAG_EXTENDED_DATA_INCLUDED = 0x02"
definition DATA_FLAG_WANT_REPLY :: byte where [ssu_defs]: "DATA_FLAG_WANT_REPLY = 0x04"
definition DATA_FLAG_ACK_BITFIELDS_INCLUDED :: byte where [ssu_defs]: "DATA_FLAG_ACK_BITFIELDS_INCLUDED = 0x40"
definition DATA_FLAG_EXPLICIT_ACKS_INCLUDED :: byte where [ssu_defs]: "DATA_FLAG_EXPLICIT_ACKS_INCLUDED = 0x80"

text \<open>\<open>mtu\<close> minus the headers is a \<open>size_t\<close> that is stored in an \<open>int\<close>.\<close>

definition AdjustPacketSize :: "bool \<Rightarrow> RouterInfo \<Rightarrow> ssu_data \<Rightarrow> ssu_data" where
  "AdjustPacketSize v6 remoteRouter d =
     (case GetSSUAddress remoteRouter True of
        None \<Rightarrow> d
      | Some a \<Rightarrow>
          if ad_mtu a \<noteq> 0 then
            let p = ad_mtu a - int (if v6 then IPV6_HEADER_SIZE else IPV4_HEADER_SIZE) - int UDP_HEADER_SIZE in
            if p > 0 then
              let p = p div 16 * 16
              in d\<lparr>d_PacketSize := (if p > d_MaxPacketSize d then d_MaxPacketSize d else p)\<rparr>
            else d\<lparr>d_PacketSize := d_MaxPacketSize d\<rparr>
          else d)"

definition SSUData_new :: "bool \<Rightarrow> RouterInfo option \<Rightarrow> ssu_data" where
  "SSUData_new v6 remoteRouter =
     (let m = int (if v6 then SSU_V6_MAX_PACKET_SIZE else SSU_V4_MAX_PACKET_SIZE);
          d = \<lparr>d_Incomplete = [], d_Sent = [], d_Received = [], d_ResendTimer = [], d_CleanupTimer = False,
               d_MaxPacketSize = m, d_PacketSize = m\<rparr>
      in case remoteRouter of None \<Rightarrow> d | Some r \<Rightarrow> AdjustPacketSize v6 r d)"

definition UpdatePacketSize :: "ident_hash \<Rightarrow> ssu_st \<Rightarrow> ssu_st" where
  "UpdatePacketSize remoteIdent st = (case n_netdb (snd st) remoteIdent of
       None \<Rightarrow> st
     | Some r \<Rightarrow> upd_data (AdjustPacketSize (session_IsV6 (fst st)) r) st)"

text \<open>Cancelling a timer runs its handlers with \<open>operation_aborted\<close>, on which they do nothing.\<close>

definition ScheduleResend :: "ssu_data \<Rightarrow> ssu_data" where
  "ScheduleResend d = d\<lparr>d_ResendTimer := [WaitResend]\<rparr>"

definition ScheduleDecay :: "ssu_data \<Rightarrow> ssu_data" where
  "ScheduleDecay d = d\<lparr>d_ResendTimer := d_ResendTimer d @ [WaitDecay]\<rparr>"

definition ScheduleIncompleteMessagesCleanup :: "ssu_data \<Rightarrow> ssu_data" where
  "ScheduleIncompleteMessagesCleanup d = d\<lparr>d_CleanupTimer := True\<rparr>"

definition SSUData_Start :: "ssu_data \<Rightarrow> ssu_data" where
  "SSUData_Start d = ScheduleIncompleteMessagesCleanup d"

definition SSUData_Stop :: "ssu_data \<Rightarrow> ssu_data" where
  "SSUData_Stop d = d\<lparr>d_ResendTimer := [], d_CleanupTimer := False\<rparr>"

text \<open>One fragment: flag, number of fragments, message ID, and the 24 bits of the fragment info.\<close>

definition fragment_info :: "nat \<Rightarrow> bool \<Rightarrow> nat \<Rightarrow> 32 word" where
  "fragment_info num isLast sz =
     (let info = push_bit 17 (word_of_nat num); info = (if isLast then info OR 0x010000 else info)
      in info OR word_of_nat sz)"

definition fragment_header :: "32 word \<Rightarrow> 32 word \<Rightarrow> bytes" where
  "fragment_header msgID info = [DATA_FLAG_WANT_REPLY, 1] @ be_bytes 4 (unat msgID) @ drop 1 (be_bytes 4 (unat info))"

definition make_fragment :: "32 word \<Rightarrow> nat \<Rightarrow> bool \<Rightarrow> bytes \<Rightarrow> ssu_st \<Rightarrow> (ssu_fragment \<times> ssu_st) option" where
  "make_fragment msgID fragmentNum isLast part st = do {
     let buf = replicate (SSU_V4_MAX_PACKET_SIZE + 18) (n_garbage (snd st));
     buf \<leftarrow> mem_write buf SSU_HEADER_SIZE_MIN (fragment_header msgID (fragment_info fragmentNum isLast (length part)));
     buf \<leftarrow> mem_write buf (SSU_HEADER_SIZE_MIN + 9) part;
     let sz = padded_16 (length part + (SSU_HEADER_SIZE_MIN + 9));
     (buf, st) \<leftarrow> session_encrypt PAYLOAD_TYPE_DATA buf sz st;
     Some (\<lparr>fr_num = fragmentNum, fr_len = sz, fr_last = isLast, fr_buf = buf\<rparr>, st) }"

partial_function (option) send_fragments :: "nat \<Rightarrow> 32 word \<Rightarrow> bytes \<Rightarrow> nat \<Rightarrow> nat \<Rightarrow> nat \<Rightarrow> ssu_fragment option list \<Rightarrow> ssu_st \<Rightarrow>
    (ssu_fragment option list \<times> ssu_st) option" where
  "send_fragments payloadSize msgID msgBuf pos len fragmentNum fragments st =
     (if len > 0 then do {
        let isLast = len \<le> payloadSize;
        part \<leftarrow> mem_read msgBuf pos (if isLast then len else payloadSize);
        (fragment, st) \<leftarrow> make_fragment msgID fragmentNum isLast part st;
        st \<leftarrow> session_send (fr_buf fragment) (fr_len fragment) st;
        send_fragments payloadSize msgID msgBuf (pos + payloadSize) (if isLast then 0 else len - payloadSize)
          (fragmentNum + 1) (fragments @ [Some fragment]) st }
      else Some (fragments, st))"

definition SSUData_Send :: "i2np_msg \<Rightarrow> ssu_st \<Rightarrow> ssu_st option" where
  "SSUData_Send msg st = do {
     (msg, msgID) \<leftarrow> ToSSU msg;
     (if map_of (d_Sent (data_of st)) msgID \<noteq> None then Some st
      else do {
        let st = (if d_Sent (data_of st) = [] then upd_data ScheduleResend st else st);
        let sent = \<lparr>sm_fragments = [], sm_nextResend = now_s (snd st) + RESEND_INTERVAL, sm_numResends = 0\<rparr>;
        let payloadSize = nat ((d_PacketSize (data_of st) - int SSU_HEADER_SIZE_MIN - 9) mod 2 ^ 64);
        (fragments, st) \<leftarrow> send_fragments payloadSize msgID (msg_buf msg) (GetSSUHeader msg) (GetLength msg) 0 [] st;
        Some (upd_data (\<lambda>d. d\<lparr>d_Sent := omap_put msgID (sent\<lparr>sm_fragments := fragments\<rparr>) (d_Sent d)\<rparr>) st) }) }"

definition SendMsgAck :: "32 word \<Rightarrow> ssu_st \<Rightarrow> ssu_st option" where
  "SendMsgAck msgID st = do {
     let buf = replicate (48 + 18) (n_garbage (snd st));
     buf \<leftarrow> mem_write buf SSU_HEADER_SIZE_MIN ([DATA_FLAG_EXPLICIT_ACKS_INCLUDED, 1] @ be_bytes 4 (unat msgID) @ [0]);
     (buf, st) \<leftarrow> session_encrypt PAYLOAD_TYPE_DATA buf 48 st;
     session_send buf 48 st }"

definition SendFragmentAck :: "32 word \<Rightarrow> nat \<Rightarrow> ssu_st \<Rightarrow> ssu_st option" where
  "SendFragmentAck msgID fragmentNum st =
     (if fragmentNum > 64 then Some st
      else do {
        let buf = replicate (64 + 18) (n_garbage (snd st));
        let quot = fragmentNum div 7;
        buf \<leftarrow> mem_write buf SSU_HEADER_SIZE_MIN ([DATA_FLAG_ACK_BITFIELDS_INCLUDED, 1] @ be_bytes 4 (unat msgID) @
          replicate quot 0x80 @ [push_bit (fragmentNum mod 7) 0x01] @ [0]);
        let len = (if quot < 4 then 48 else 64);
        (buf, st) \<leftarrow> session_encrypt PAYLOAD_TYPE_DATA buf len st;
        session_send buf len st })"

section \<open>Acknowledgements and resending\<close>

definition ProcessSentMessageAck :: "32 word \<Rightarrow> ssu_data \<Rightarrow> ssu_data" where
  "ProcessSentMessageAck msgID d =
     (if map_of (d_Sent d) msgID \<noteq> None then
        let d = d\<lparr>d_Sent := omap_erase msgID (d_Sent d)\<rparr>
        in if d_Sent d = [] then d\<lparr>d_ResendTimer := []\<rparr> else d
      else d)"

fun explicit_acks :: "nat \<Rightarrow> bytes \<Rightarrow> ssu_data \<Rightarrow> (bytes \<times> ssu_data) option" where
  "explicit_acks 0 buf d = Some (buf, d)"
| "explicit_acks (Suc i) buf d = do {
     msgID \<leftarrow> bufbe32toh buf 0;
     explicit_acks i (drop 4 buf) (ProcessSentMessageAck msgID d) }"

text \<open>The seven bits of a bitfield; \<open>fragment\<close> is the number of the first.\<close>

fun reset_bits :: "nat \<Rightarrow> byte \<Rightarrow> nat \<Rightarrow> ssu_fragment option list \<Rightarrow> ssu_fragment option list" where
  "reset_bits 0 bitfield fragment fragments = fragments"
| "reset_bits (Suc j) bitfield fragment fragments =
     reset_bits j (drop_bit 1 bitfield) (fragment + 1)
       (if bit bitfield 0 \<and> fragment < length fragments then fragments[fragment := None] else fragments)"

fun ack_bitfields :: "32 word \<Rightarrow> nat \<Rightarrow> bytes \<Rightarrow> ssu_data \<Rightarrow> (bytes \<times> ssu_data) option" where
  "ack_bitfields msgID fragment [] d = None"
| "ack_bitfields msgID fragment (b # buf) d =
     (let isNonLast = (b AND 0x80 \<noteq> 0);
          bitfield = b AND 0x7F;
          (fragment, d) = (case map_of (d_Sent d) msgID of
              Some sent \<Rightarrow>
                if bitfield \<noteq> 0
                then (fragment + 7, d\<lparr>d_Sent := omap_put msgID
                       (sent\<lparr>sm_fragments := reset_bits 7 bitfield fragment (sm_fragments sent)\<rparr>) (d_Sent d)\<rparr>)
                else (fragment, d)
            | None \<Rightarrow> (fragment, d))
      in if isNonLast then ack_bitfields msgID fragment buf d else Some (buf, d))"

fun bitfield_acks :: "nat \<Rightarrow> bytes \<Rightarrow> ssu_data \<Rightarrow> (bytes \<times> ssu_data) option" where
  "bitfield_acks 0 buf d = Some (buf, d)"
| "bitfield_acks (Suc i) buf d = do {
     msgID \<leftarrow> bufbe32toh buf 0;
     (buf, d) \<leftarrow> ack_bitfields msgID 0 (drop 4 buf) d;
     bitfield_acks i buf d }"

definition ProcessAcks :: "bytes \<Rightarrow> byte \<Rightarrow> ssu_data \<Rightarrow> (bytes \<times> ssu_data) option" where
  "ProcessAcks buf flag d = do {
     (buf, d) \<leftarrow> (if flag AND DATA_FLAG_EXPLICIT_ACKS_INCLUDED \<noteq> 0 then do {
         numAcks \<leftarrow> read_byte buf 0;
         explicit_acks (unat numAcks) (drop 1 buf) d }
       else Some (buf, d));
     (if flag AND DATA_FLAG_ACK_BITFIELDS_INCLUDED \<noteq> 0 then do {
        numBitfields \<leftarrow> read_byte buf 0;
        bitfield_acks (unat numBitfields) (drop 1 buf) d }
      else Some (buf, d)) }"

fun resend_fragments :: "ssu_fragment option list \<Rightarrow> ssu_st \<Rightarrow> ssu_st option" where
  "resend_fragments [] st = Some st"
| "resend_fragments (None # fs) st = resend_fragments fs st"
| "resend_fragments (Some f # fs) st = do {
     st \<leftarrow> session_send (fr_buf f) (fr_len f) st;
     resend_fragments fs st }"

text \<open>The loop over \<open>m_SentMessages\<close>: the messages that stay, in their order.\<close>

fun resend_messages :: "32 word \<Rightarrow> (32 word, sent_msg) omap \<Rightarrow> ssu_st \<Rightarrow> ((32 word, sent_msg) omap \<times> ssu_st) option" where
  "resend_messages ts [] st = Some ([], st)"
| "resend_messages ts ((msgID, sent) # rest) st =
     (if ts \<ge> sm_nextResend sent then
        if sm_numResends sent < MAX_NUM_RESENDS then do {
          st \<leftarrow> resend_fragments (sm_fragments sent) st;
          let num = sm_numResends sent + 1;
          let sent = sent\<lparr>sm_numResends := num, sm_nextResend := sm_nextResend sent + word_of_nat num * RESEND_INTERVAL\<rparr>;
          (rest, st) \<leftarrow> resend_messages ts rest st;
          Some ((msgID, sent) # rest, st) }
        else resend_messages ts rest st
      else do {
        (rest, st) \<leftarrow> resend_messages ts rest st;
        Some ((msgID, sent) # rest, st) })"

definition HandleResendTimer :: "ssu_st \<Rightarrow> ssu_st option" where
  "HandleResendTimer st = do {
     (sent, st) \<leftarrow> resend_messages (now_s (snd st)) (d_Sent (data_of st)) st;
     Some (upd_data (\<lambda>d. ScheduleResend (d\<lparr>d_Sent := sent\<rparr>)) st) }"

definition HandleDecayTimer :: "ssu_data \<Rightarrow> ssu_data" where
  "HandleDecayTimer d = d\<lparr>d_Received := []\<rparr>"

text \<open>\<open>m_ResendTimer\<close> expires: every handler that waits on it runs.\<close>

fun run_waiters :: "resend_waiter list \<Rightarrow> ssu_st \<Rightarrow> ssu_st option" where
  "run_waiters [] st = Some st"
| "run_waiters (WaitResend # ws) st = do { st \<leftarrow> HandleResendTimer st; run_waiters ws st }"
| "run_waiters (WaitDecay # ws) st = run_waiters ws (upd_data HandleDecayTimer st)"

definition ResendTimer_expires :: "ssu_st \<Rightarrow> ssu_st option" where
  "ResendTimer_expires st = (let ws = d_ResendTimer (data_of st)
     in run_waiters ws (upd_data (\<lambda>d. d\<lparr>d_ResendTimer := []\<rparr>) st))"

definition HandleIncompleteMessagesCleanupTimer :: "32 word \<Rightarrow> ssu_data \<Rightarrow> ssu_data" where
  "HandleIncompleteMessagesCleanupTimer ts d = ScheduleIncompleteMessagesCleanup
     (d\<lparr>d_Incomplete := filter (\<lambda>(msgID, m). \<not> ts > im_lastInsert m + INCOMPLETE_MESSAGES_CLEANUP_TIMEOUT) (d_Incomplete d)\<rparr>)"

end
