(* ===== verification/SSU_Data.thy ===== *)
theory SSU_Data
  imports SSU_State
begin

text \<open>
  The receiving half of \<open>SSUData.cpp\<close>, and \<open>Established\<close> and \<open>SendPeerTest\<close> of \<open>SSUSession.cpp\<close>, which it
  calls when the first \<open>DeliveryStatus\<close> arrives. The pointer into the packet is the list of bytes from
  there to the end of the buffer.
\<close>

section \<open>Peer tests and the established session\<close>

definition NewPeerTest :: "32 word \<Rightarrow> peer_role \<Rightarrow> nat option \<Rightarrow> ssu_net \<Rightarrow> ssu_net" where
  "NewPeerTest nonce role session n =
     n\<lparr>n_peerTests := omap_put nonce \<lparr>pt_creationTime = env_now_ms (n_i2np n), pt_role = role, pt_session = session\<rparr> (n_peerTests n)\<rparr>"

definition own_SSUAddress :: "ssu_net \<Rightarrow> Address option" where
  "own_SSUAddress n = GetSSUAddress (n_ri n) True"

definition to_endpoint :: "32 word \<Rightarrow> 16 word \<Rightarrow> endpoint" where
  "to_endpoint address port = (V4 (be_bytes 4 (unat address)), port)"

definition SendPeerTest_to :: "32 word \<Rightarrow> 32 word \<Rightarrow> 16 word \<Rightarrow> bytes \<Rightarrow> bool \<Rightarrow> bool \<Rightarrow> ssu_st \<Rightarrow> ssu_st option" where
  "SendPeerTest_to nonce address port introKey toAddress sendAddress st = do {
     let n = snd st;
     let addr = (if sendAddress \<and> address \<noteq> 0 then [4] @ be_bytes 4 (unat address) else [0]);
     key \<leftarrow> (if toAddress
            then Some (case own_SSUAddress n of Some a \<Rightarrow> ad_key a | None \<Rightarrow> [])
            else mem_read introKey 0 32);
     buf \<leftarrow> mem_write (replicate (80 + 18) 0) SSU_HEADER_SIZE_MIN
       (be_bytes 4 (unat nonce) @ addr @ be_bytes 2 (unat port) @ key);
     let (iv, n) = rnd_block n;
     (if toAddress then do {
        ik \<leftarrow> mem_read introKey 0 32;
        buf \<leftarrow> FillHeaderAndEncrypt (n_env n) PAYLOAD_TYPE_PEER_TEST buf 80 ik iv ik;
        b \<leftarrow> mem_read buf 0 80;
        Some (fst st, emit (SendTo b (to_endpoint address port)) n) }
      else do {
        (buf, st) \<leftarrow> session_encrypt PAYLOAD_TYPE_PEER_TEST buf 80 (fst st, n);
        session_send buf 80 st }) }"

definition SendPeerTest :: "ssu_st \<Rightarrow> ssu_st option" where
  "SendPeerTest st = (case own_SSUAddress (snd st) of
       None \<Rightarrow> Some st
     | Some a \<Rightarrow> do {
         let (nonce, n) = rnd_word (snd st);
         let nonce = (if nonce = 0 then 1 else nonce);
         let s = (fst st)\<lparr>s_PeerTest := False\<rparr>;
         let n = NewPeerTest nonce ePeerTestParticipantAlice1 None n;
         SendPeerTest_to nonce 0 0 (ad_key a) False False (s, n) })"

definition ScheduleTermination :: "ssu_session \<Rightarrow> ssu_session" where
  "ScheduleTermination s = s\<lparr>s_Timer := Some TerminationTimer\<rparr>"

text \<open>The messages \<open>Established\<close> sends: a delivery status and the own router info.\<close>

definition established_messages :: "ssu_net \<Rightarrow> (i2np_msg \<times> i2np_msg \<times> ssu_net) option" where
  "established_messages n = do {
     let (addr, n) = new_addr n;
     let (rndID, n) = rnd_word n;
     let (rnd, n) = rnd_word n;
     m1 \<leftarrow> CreateDeliveryStatusMsg (n_i2np n) rnd rndID addr 0;
     let (addr, n) = new_addr n;
     let (addr2, n) = new_addr n;
     let (rnd, n) = rnd_word n;
     ribuf \<leftarrow> ri_buffer (n_ri n);
     ribuf \<leftarrow> mem_read ribuf 0 (ri_bufferLen (n_ri n));
     m2 \<leftarrow> CreateDatabaseStoreMsg_router (n_i2np n) rnd addr addr2 (ix_hash (ri_identity (n_ri n))) ribuf 0;
     Some (m1, m2, n) }"

definition Established :: "ssu_st \<Rightarrow> ssu_st option" where
  "Established st = do {
     let st = ((fst st)\<lparr>s_ConfirmData := None, s_State := eSessionStateEstablished, s_DHKeysPair := None\<rparr>, snd st);
     let st = upd_data SSUData_Start st;
     (m1, m2, n) \<leftarrow> established_messages (snd st);
     st \<leftarrow> SSUData_Send m1 (fst st, n);
     st \<leftarrow> SSUData_Send m2 st;
     let st = (fst st, emit PeerConnected (snd st));
     st \<leftarrow> (if s_PeerTest (fst st) \<and> (case s_RemoteRouter (fst st) of Some r \<Rightarrow> IsPeerTesting r | None \<Rightarrow> False)
           then SendPeerTest st else Some st);
     Some (ScheduleTermination (fst st), snd st) }"

section \<open>Reassembly\<close>

definition AttachNextFragment :: "nat \<Rightarrow> bytes \<Rightarrow> incomplete_msg \<Rightarrow> incomplete_msg option" where
  "AttachNextFragment addr fragment im = do {
     let msg = im_msg im;
     msg \<leftarrow> (if msg_len msg + length fragment > msg_maxLen msg then msg_assign (NewI2NPMessage addr) msg else Some msg);
     b \<leftarrow> mem_write (msg_buf msg) (msg_len msg) fragment;
     Some (im\<lparr>im_msg := msg\<lparr>msg_buf := b, msg_len := msg_len msg + length fragment\<rparr>, im_next := im_next im + 1\<rparr>) }"

text \<open>
  The saved fragments that follow are attached, as far as they are there; \<open>addrs\<close> are the addresses
  of messages that may be allocated.
\<close>

fun attach_saved :: "(nat \<Rightarrow> nat) \<Rightarrow> nat \<Rightarrow> ssu_fragment list \<Rightarrow> bool \<Rightarrow> incomplete_msg \<Rightarrow> (incomplete_msg \<times> bool) option" where
  "attach_saved addrs k [] isLast im = Some (im\<lparr>im_saved := []\<rparr>, isLast)"
| "attach_saved addrs k (f # fs) isLast im =
     (if fr_num f = im_next im then do {
        part \<leftarrow> mem_read (fr_buf f) 0 (fr_len f);
        im \<leftarrow> AttachNextFragment (addrs k) part im;
        attach_saved addrs (k + 1) fs (fr_last f) im }
      else Some (im\<lparr>im_saved := f # fs\<rparr>, isLast))"

text \<open>\<open>savedFragments.insert\<close>: a set ordered by the number; a number that is there stays.\<close>

fun insert_fragment :: "ssu_fragment \<Rightarrow> ssu_fragment list \<Rightarrow> ssu_fragment list \<times> bool" where
  "insert_fragment f [] = ([f], True)"
| "insert_fragment f (g # gs) =
     (if fr_num f < fr_num g then (f # g # gs, True)
      else if fr_num f = fr_num g then (g # gs, False)
      else let (gs, b) = insert_fragment f gs in (g # gs, b))"

definition new_incomplete :: "nat \<Rightarrow> incomplete_msg" where
  "new_incomplete addr = \<lparr>im_msg = (let m = NewI2NPShortMessage addr in m\<lparr>msg_len := msg_len m - I2NP_SHORT_HEADER_SIZE\<rparr>),
     im_next = 0, im_lastInsert = 0, im_saved = []\<rparr>"

text \<open>What a fragment does to its message: the message, and \<open>isLast\<close> afterwards.\<close>

definition handle_fragment :: "(nat \<Rightarrow> nat) \<Rightarrow> nat \<Rightarrow> 32 word \<Rightarrow> nat \<Rightarrow> bool \<Rightarrow> bytes \<Rightarrow> incomplete_msg \<Rightarrow> (incomplete_msg \<times> bool) option" where
  "handle_fragment addrs k ts fragmentNum isLast part im =
     (if fragmentNum = im_next im then do {
        im \<leftarrow> AttachNextFragment (addrs k) part im;
        (if \<not> isLast \<and> im_saved im \<noteq> [] then attach_saved addrs (k + 1) (im_saved im) isLast im else Some (im, isLast)) }
      else if fragmentNum < im_next im then Some (im, False)
      else
        let (saved, new) = insert_fragment \<lparr>fr_num = fragmentNum, fr_len = length part, fr_last = isLast, fr_buf = part\<rparr> (im_saved im)
        in Some (im\<lparr>im_saved := saved, im_lastInsert := (if new then ts else im_lastInsert im)\<rparr>, False))"

text \<open>A complete message: acknowledged, and handed on unless it is a duplicate.\<close>

definition deliver_message :: "32 word \<Rightarrow> i2np_msg \<Rightarrow> ssu_st \<Rightarrow> ssu_st option" where
  "deliver_message msgID msg st = do {
     st \<leftarrow> SendMsgAck msgID st;
     msg \<leftarrow> FromSSU msg msgID;
     (if s_State (fst st) = eSessionStateEstablished then
        Some (if msgID \<notin> set (d_Received (data_of st)) then
            let st = upd_data (\<lambda>d. if length (d_Received d) > MAX_NUM_RECEIVED_MESSAGES
                then d\<lparr>d_Received := []\<rparr> else ScheduleDecay d) st;
                st = upd_data (\<lambda>d. d\<lparr>d_Received := msgID # d_Received d\<rparr>) st
            in (fst st, emit (PutNextMessage msg) (snd st))
          else st)
      else do {
        i2np_type \<leftarrow> GetTypeID msg;
        (if i2np_type = eI2NPDeliveryStatus then Established st
         else if i2np_type = eI2NPDatabaseStore then
           let st = upd_data (\<lambda>d. d\<lparr>d_Received := List.insert msgID (d_Received d)\<rparr>) st
           in Some (fst st, emit (PutNextMessage msg) (snd st))
         else Some st) }) }"

text \<open>What \<open>ProcessFragments\<close> does with the content of one fragment.\<close>

definition store_fragment :: "32 word \<Rightarrow> nat \<Rightarrow> bool \<Rightarrow> bytes \<Rightarrow> ssu_st \<Rightarrow> ssu_st option" where
  "store_fragment msgID fragmentNum isLast part st = do {
     let n = snd st;
     let im = (case map_of (d_Incomplete (data_of st)) msgID of Some im \<Rightarrow> im | None \<Rightarrow> new_incomplete (n_alloc n (n_count n)));
     let fresh = n_count n + 2 + length (im_saved im);
     (im, isLast) \<leftarrow> handle_fragment (n_alloc n) (n_count n + 1) (now_s n) fragmentNum isLast part im;
     let st = (fst st, n\<lparr>n_count := fresh\<rparr>);
     (if isLast
      then deliver_message msgID (im_msg im) (upd_data (\<lambda>d. d\<lparr>d_Incomplete := omap_erase msgID (d_Incomplete d)\<rparr>) st)
      else SendFragmentAck msgID fragmentNum (upd_data (\<lambda>d. d\<lparr>d_Incomplete := omap_put msgID im (d_Incomplete d)\<rparr>) st)) }"

fun process_fragments :: "nat \<Rightarrow> bytes \<Rightarrow> ssu_st \<Rightarrow> ssu_st option" where
  "process_fragments 0 buf st = Some st"
| "process_fragments (Suc i) buf st = do {
     msgID \<leftarrow> bufbe32toh buf 0;
     frag \<leftarrow> mem_read buf 4 3;
     fragmentInfo \<leftarrow> bufbe32toh (0 # frag) 0;
     let buf = drop 7 buf;
     let fragmentSize = unat (fragmentInfo AND 0x1FFF);
     let isLast = (fragmentInfo AND 0x010000 \<noteq> 0);
     let fragmentNum = unat (ucast (drop_bit 17 fragmentInfo) :: byte);
     (if fragmentSize \<ge> SSU_V4_MAX_PACKET_SIZE then Some st
      else do {
        part \<leftarrow> mem_read buf 0 fragmentSize;
        st \<leftarrow> store_fragment msgID fragmentNum isLast part st;
        process_fragments i (drop fragmentSize buf) st }) }"

definition ProcessFragments :: "bytes \<Rightarrow> ssu_st \<Rightarrow> ssu_st option" where
  "ProcessFragments buf st = do {
     numFragments \<leftarrow> read_byte buf 0;
     process_fragments (unat numFragments) (drop 1 buf) st }"

text \<open>The acknowledgements of a message, if its flags announce some.\<close>

definition message_acks :: "byte \<Rightarrow> bytes \<Rightarrow> ssu_st \<Rightarrow> (bytes \<times> ssu_st) option" where
  "message_acks flag buf st =
     (if flag AND (DATA_FLAG_ACK_BITFIELDS_INCLUDED OR DATA_FLAG_EXPLICIT_ACKS_INCLUDED) \<noteq> 0
      then do {
        (buf, d) \<leftarrow> ProcessAcks buf flag (data_of st);
        Some (buf, upd_data (\<lambda>_. d) st) }
      else Some (buf, st))"

definition ProcessMessage :: "bytes \<Rightarrow> ssu_st \<Rightarrow> ssu_st option" where
  "ProcessMessage buf st = do {
     flag \<leftarrow> read_byte buf 0;
     (buf, st) \<leftarrow> message_acks flag (drop 1 buf) st;
     (if flag AND DATA_FLAG_EXTENDED_DATA_INCLUDED \<noteq> 0 then do {
        extendedDataSize \<leftarrow> read_byte buf 0;
        mem_read (drop 1 buf) 0 (unat extendedDataSize);
        ProcessFragments (drop (unat extendedDataSize) (drop 1 buf)) st }
      else ProcessFragments buf st) }"

definition FlushReceivedMessage :: "ssu_st \<Rightarrow> ssu_st" where
  "FlushReceivedMessage st = (fst st, emit HandlerFlush (snd st))"

end
