(* ===== verification/SSU_Session.thy ===== *)
theory SSU_Session
  imports SSU_Data
begin

text \<open>
  One SSU session, \<open>src/core/transport/SSUSession.cpp\<close>: the constructor, the keys, the handshake
  (session request, created, confirmed), relaying, peer tests as far as one session is concerned,
  the timers, and closing. Operations map \<open>ssu_st\<close>; what reaches other sessions is in \<open>SSU_Server\<close>.

  The pointers into a packet are the list of bytes from there to the end of its buffer. The
  decryption of the signature in a session created message works on a copy here, as nothing reads
  that part of the buffer again.
\<close>

section \<open>Construction and keys\<close>

definition SSUSession_new :: "endpoint \<Rightarrow> RouterInfo option \<Rightarrow> bool \<Rightarrow> IdentityEx \<Rightarrow> ssu_net \<Rightarrow> ssu_session" where
  "SSUSession_new remoteEndpoint router peerTest fresh n =
     \<lparr>s_RemoteRouter = router, s_RemoteIdentity = (case router of Some r \<Rightarrow> ri_identity r | None \<Rightarrow> fresh),
      s_DHKeysPair = None, s_NumSentBytes = 0, s_NumReceivedBytes = 0, s_RemoteEndpoint = remoteEndpoint, s_Timer = None,
      s_PeerTest = peerTest, s_State = eSessionStateUnknown, s_IsSessionKey = False, s_RelayTag = 0,
      s_SessionKey = replicate 32 (n_garbage n), s_MacKey = replicate 32 (n_garbage n), s_CreationTime = now_s n,
      s_Data = SSUData_new (is_v6 (fst remoteEndpoint)) router, s_ConfirmData = None, s_IsDataReceived = False\<rparr>"

text \<open>The first byte of the shared key that is not zero, among the positions 1 to 32.\<close>

fun skip_zeros :: "nat \<Rightarrow> bytes \<Rightarrow> nat option" where
  "skip_zeros i [] = None"
| "skip_zeros i (b # bs) = (if b \<noteq> 0 then Some i else if i + 1 > 32 then None else skip_zeros (i + 1) bs)"

definition session_keys :: "(bytes \<Rightarrow> bytes) \<Rightarrow> bytes \<Rightarrow> (bytes \<times> bytes) option" where
  "session_keys sha sharedKey =
     (if hd sharedKey AND 0x80 \<noteq> 0 then Some (0 # take 31 sharedKey, take 32 (drop 31 sharedKey))
      else if hd sharedKey \<noteq> 0 then Some (take 32 sharedKey, take 32 (drop 32 sharedKey))
      else map_option (\<lambda>nonZero. (take 32 (drop nonZero sharedKey), sha (take (64 - nonZero) (drop nonZero sharedKey))))
        (skip_zeros 1 (drop 1 sharedKey)))"

definition CreateAESandMacKey :: "bytes \<Rightarrow> ssu_st \<Rightarrow> ssu_st option" where
  "CreateAESandMacKey pubKey st = (case st of (s, n) \<Rightarrow> do {
     pub \<leftarrow> mem_read pubKey 0 256;
     dh \<leftarrow> s_DHKeysPair s;
     Some (case n_agree n (dh_privateKey dh) pub of
         None \<Rightarrow> (s, n)
       | Some sharedKey \<Rightarrow> (case session_keys (env_sha256 (n_i2np n)) sharedKey of
             None \<Rightarrow> (s, n)
           | Some (sessionKey, macKey) \<Rightarrow>
               (s\<lparr>s_SessionKey := sessionKey, s_MacKey := macKey, s_IsSessionKey := True\<rparr>, n))) })"

definition GetIntroKey :: "ssu_st \<Rightarrow> bytes option" where
  "GetIntroKey st = (case st of (s, n) \<Rightarrow>
     map_option ad_key (GetSSUAddress (case s_RemoteRouter s of Some r \<Rightarrow> r | None \<Rightarrow> n_ri n) True))"

definition ip_size :: "ip_address \<Rightarrow> byte" where
  "ip_size a = (if is_v4 a then 4 else 16)"

definition port_bytes :: "16 word \<Rightarrow> bytes" where "port_bytes p = be_bytes 2 (unat p)"
definition word_bytes :: "32 word \<Rightarrow> bytes" where "word_bytes w = be_bytes 4 (unat w)"

text \<open>\<open>m_Server.Send\<close>; \<open>Send(buf, size)\<close> of the session also counts.\<close>

definition server_Send :: "bytes \<Rightarrow> nat \<Rightarrow> endpoint \<Rightarrow> ssu_net \<Rightarrow> ssu_net option" where
  "server_Send buf len to n = map_option (\<lambda>b. emit (SendTo b to) n) (mem_read buf 0 len)"

text \<open>A packet that is sealed with the keys given, a fresh IV, in a buffer of \<open>sz + 18\<close> zeros.\<close>

definition sealed :: "byte \<Rightarrow> nat \<Rightarrow> bytes \<Rightarrow> nat \<Rightarrow> bytes \<Rightarrow> bytes \<Rightarrow> bytes \<Rightarrow> ssu_net \<Rightarrow> bytes option" where
  "sealed type sz payload len aesKey iv macKey n = do {
     buf \<leftarrow> mem_write (replicate (sz + 18) 0) SSU_HEADER_SIZE_MIN payload;
     ik \<leftarrow> mem_read aesKey 0 32;
     mk \<leftarrow> mem_read macKey 0 32;
     FillHeaderAndEncrypt (n_env n) type buf len ik iv mk }"

section \<open>Timers and closing\<close>

definition ScheduleConnectTimer :: "ssu_session \<Rightarrow> ssu_session" where
  "ScheduleConnectTimer s = s\<lparr>s_Timer := Some ConnectTimer\<rparr>"

definition WaitForConnect :: "ssu_session \<Rightarrow> ssu_session" where
  "WaitForConnect s = (if IsOutbound s then s else ScheduleConnectTimer s)"

definition SendSesionDestroyed :: "ssu_st \<Rightarrow> ssu_st option" where
  "SendSesionDestroyed st =
     (if s_IsSessionKey (fst st) then do {
        (buf, st) \<leftarrow> session_encrypt PAYLOAD_TYPE_SESSION_DESTROYED (replicate (48 + 18) 0) 48 st;
        session_send buf 48 st }
      else Some st)"

definition SSUSession_Close :: "ssu_st \<Rightarrow> ssu_st option" where
  "SSUSession_Close st = do {
     st \<leftarrow> SendSesionDestroyed ((fst st)\<lparr>s_State := eSessionStateClosed\<rparr>, snd st);
     let st = (fst st, emit PeerDisconnected (snd st));
     let st = upd_data SSUData_Stop st;
     Some ((fst st)\<lparr>s_Timer := None\<rparr>, snd st) }"

text \<open>\<open>SSUServer::DeleteSession\<close>.\<close>

definition DeleteSession :: "ssu_st \<Rightarrow> ssu_st option" where
  "DeleteSession st = do {
     (s, n) \<leftarrow> SSUSession_Close st;
     Some (s, n\<lparr>n_sessions := omap_erase (s_RemoteEndpoint s) (n_sessions n)\<rparr>) }"

definition SSUSession_Failed :: "ssu_st \<Rightarrow> ssu_st option" where
  "SSUSession_Failed st =
     (if s_State (fst st) \<noteq> eSessionStateFailed
      then DeleteSession ((fst st)\<lparr>s_State := eSessionStateFailed\<rparr>, snd st) else Some st)"

text \<open>The session's timer expires; both handlers end in \<open>Failed\<close>.\<close>

definition HandleSessionTimer :: "ssu_st \<Rightarrow> ssu_st option" where
  "HandleSessionTimer st = (case s_Timer (fst st) of
       None \<Rightarrow> Some st
     | Some _ \<Rightarrow> SSUSession_Failed ((fst st)\<lparr>s_Timer := None\<rparr>, snd st))"

definition SendKeepAlive :: "ssu_st \<Rightarrow> ssu_st option" where
  "SendKeepAlive st =
     (if s_State (fst st) = eSessionStateEstablished then do {
        buf \<leftarrow> mem_write (replicate (48 + 18) 0) SSU_HEADER_SIZE_MIN [0, 0];
        (buf, st) \<leftarrow> session_encrypt PAYLOAD_TYPE_DATA buf 48 st;
        st \<leftarrow> session_send buf 48 st;
        Some (ScheduleTermination (fst st), snd st) }
      else Some st)"

fun PostI2NPMessages :: "i2np_msg list \<Rightarrow> ssu_st \<Rightarrow> ssu_st option" where
  "PostI2NPMessages [] st = Some st"
| "PostI2NPMessages (m # ms) st =
     (if s_State (fst st) = eSessionStateEstablished
      then do { st \<leftarrow> SSUData_Send m st; PostI2NPMessages ms st } else Some st)"

section \<open>The handshake\<close>

definition SendSessionRequest :: "ssu_st \<Rightarrow> ssu_st option" where
  "SendSessionRequest st = (case GetIntroKey st of
       None \<Rightarrow> Some st
     | Some introKey \<Rightarrow> do {
         let (s, n) = st;
         dh \<leftarrow> s_DHKeysPair s;
         x \<leftarrow> mem_read (dh_publicKey dh) 0 256;
         let ip = fst (s_RemoteEndpoint s);
         let len = (if is_v4 ip then 304 else 320);
         let (iv, n) = rnd_block n;
         buf \<leftarrow> sealed PAYLOAD_TYPE_SESSION_REQUEST 320 (x @ [ip_size ip] @ ip_bytes ip) len introKey iv introKey n;
         n \<leftarrow> server_Send buf len (s_RemoteEndpoint s) n;
         Some (s, n) })"

definition SSUSession_Connect :: "ssu_st \<Rightarrow> ssu_st option" where
  "SSUSession_Connect st =
     (if s_State (fst st) = eSessionStateUnknown then
        let (dh, n) = GetNextDHKeysPair (snd st)
        in SendSessionRequest ((ScheduleConnectTimer (fst st))\<lparr>s_DHKeysPair := Some dh\<rparr>, n)
      else Some st)"

text \<open>The relay tag of an introducer, which the server remembers.\<close>

definition new_relay_tag :: "endpoint \<Rightarrow> ssu_net \<Rightarrow> 32 word \<times> ssu_net" where
  "new_relay_tag remote n =
     (if IsIntroducer (n_ri n) then
        let (tag, n) = rnd_word n; tag = (if tag = 0 then 1 else tag)
        in (tag, n\<lparr>n_relays := (n_relays n)(tag \<mapsto> remote)\<rparr>)
      else (0, n))"

text \<open>The signature and its padding, CBC encrypted in place with the session key; \<open>pos\<close> is where it lies.\<close>

definition put_signature :: "ssu_st \<Rightarrow> bytes \<Rightarrow> nat \<Rightarrow> bytes \<Rightarrow> bytes \<Rightarrow> (bytes \<times> nat) option" where
  "put_signature st buf pos sdata iv = (case st of (s, n) \<Rightarrow> do {
     buf \<leftarrow> (case PrivateKeys_Sign (n_sigs n) (n_keys n) sdata of
         Some sig \<Rightarrow> mem_write buf pos sig | None \<Rightarrow> Some buf);
     (ix, sigLen) \<leftarrow> GetSignatureLen (pk_public (n_keys n));
     plain \<leftarrow> mem_read buf pos (padded_16 sigLen);
     buf \<leftarrow> mem_write buf pos (snd (CBCEncryption_Encrypt_buf (aes_enc (se_aes (n_env n)) (s_SessionKey s)) iv plain));
     Some (buf, pos + padded_16 sigLen) })"

definition SendSessionCreated :: "bytes \<Rightarrow> ssu_st \<Rightarrow> ssu_st option" where
  "SendSessionCreated x st =
     (case (GetIntroKey st, if session_IsV6 (fst st) then GetSSUV6Address (n_ri (snd st)) else GetSSUAddress (n_ri (snd st)) True) of
        (Some introKey, Some address) \<Rightarrow> do {
          let (s, n) = st;
          let remote = s_RemoteEndpoint s;
          x \<leftarrow> mem_read x 0 256;
          dh \<leftarrow> s_DHKeysPair s;
          y \<leftarrow> mem_read (dh_publicKey dh) 0 256;
          let (relayTag, n) = new_relay_tag remote n;
          let sdata = x @ y @ ip_bytes (fst remote) @ port_bytes (snd remote) @
            ip_bytes (ad_host address) @ port_bytes (word_of_int (ad_port address)) @ word_bytes relayTag;
          let payload = y @ [ip_size (fst remote)] @ ip_bytes (fst remote) @ port_bytes (snd remote) @
            word_bytes relayTag @ word_bytes (now_s n);
          let s = s\<lparr>s_ConfirmData := Some sdata\<rparr>;
          buf \<leftarrow> mem_write (replicate (384 + 18) 0) SSU_HEADER_SIZE_MIN payload;
          let (iv, n) = rnd_block n;
          (buf, msgLen) \<leftarrow> put_signature (s, n) buf (SSU_HEADER_SIZE_MIN + length payload) (sdata @ word_bytes (now_s n)) iv;
          ik \<leftarrow> mem_read introKey 0 32;
          buf \<leftarrow> FillHeaderAndEncrypt (n_env n) PAYLOAD_TYPE_SESSION_CREATED buf msgLen ik iv ik;
          session_send buf msgLen (s, n) }
      | _ \<Rightarrow> Some st)"

definition ProcessSessionRequest :: "ssu_packet \<Rightarrow> endpoint \<Rightarrow> ssu_st \<Rightarrow> ssu_st option" where
  "ProcessSessionRequest pkt senderEndpoint st =
     (if IsOutbound (fst st) then Some st
      else do {
        let (s, n) = ((fst st)\<lparr>s_RemoteEndpoint := senderEndpoint\<rparr>, snd st);
        let (s, n) = (case s_DHKeysPair s of
            Some _ \<Rightarrow> (s, n)
          | None \<Rightarrow> (let (dh, n) = GetNextDHKeysPair n in (s\<lparr>s_DHKeysPair := Some dh\<rparr>, n)));
        let body = drop (pkt_body pkt) (pkt_data pkt);
        st \<leftarrow> CreateAESandMacKey body (s, n);
        SendSessionCreated body st })"

definition SendSessionConfirmed :: "bytes \<Rightarrow> bytes \<Rightarrow> nat \<Rightarrow> ssu_st \<Rightarrow> ssu_st option" where
  "SendSessionConfirmed y ourAddress ourAddressLen st = do {
     let (s, n) = st;
     let remote = s_RemoteEndpoint s;
     let identLen = GetFullLen (pk_public (n_keys n));
     buf \<leftarrow> mem_write (replicate (512 + 18) 0) SSU_HEADER_SIZE_MIN ([1] @ be_bytes 2 (unat (word_of_nat identLen :: 16 word)));
     (buf, _) \<leftarrow> IdentityEx_ToBuffer (pk_public (n_keys n)) buf (SSU_HEADER_SIZE_MIN + 3);
     let pos = SSU_HEADER_SIZE_MIN + 3 + identLen;
     let signedOnTime = now_s n;
     buf \<leftarrow> mem_write buf pos (word_bytes signedOnTime);
     (ix, signatureLen) \<leftarrow> GetSignatureLen (pk_public (n_keys n));
     let paddingSize = (pos + 4 + signatureLen) mod 16;
     let paddingSize = (if paddingSize > 0 then 16 - paddingSize else 0);
     let pos = pos + 4 + paddingSize;
     dh \<leftarrow> s_DHKeysPair s;
     x \<leftarrow> mem_read (dh_publicKey dh) 0 256;
     y \<leftarrow> mem_read y 0 256;
     our \<leftarrow> mem_read ourAddress 0 ourAddressLen;
     let sdata = x @ y @ our @ ip_bytes (fst remote) @ port_bytes (snd remote) @ word_bytes (s_RelayTag s) @ word_bytes signedOnTime;
     buf \<leftarrow> (case PrivateKeys_Sign (n_sigs n) (n_keys n) sdata of
         Some sig \<Rightarrow> mem_write buf pos sig | None \<Rightarrow> Some buf);
     let msgLen = pos + signatureLen;
     let (iv, n) = rnd_block n;
     buf \<leftarrow> FillHeaderAndEncrypt (n_env n) PAYLOAD_TYPE_SESSION_CONFIRMED buf msgLen (s_SessionKey s) iv (s_MacKey s);
     session_send buf msgLen (s, n) }"

text \<open>An IP address of a size that is not 4 is read as one of 16 bytes.\<close>

definition read_ip :: "byte \<Rightarrow> bytes \<Rightarrow> ip_address option" where
  "read_ip sz buf = (if sz = 4 then map_option V4 (mem_read buf 0 4) else map_option V6 (mem_read buf 0 16))"

definition ProcessSessionCreated :: "ssu_packet \<Rightarrow> ssu_st \<Rightarrow> ssu_st option" where
  "ProcessSessionCreated pkt st =
     (if s_RemoteRouter (fst st) = None \<or> s_DHKeysPair (fst st) = None then Some st
      else do {
        let y = drop (pkt_body pkt) (pkt_data pkt);
        (s, n) \<leftarrow> CreateAESandMacKey y ((fst st)\<lparr>s_Timer := None\<rparr>, snd st);
        dh \<leftarrow> s_DHKeysPair s;
        x \<leftarrow> mem_read (dh_publicKey dh) 0 256;
        yb \<leftarrow> mem_read y 0 256;
        addressSize \<leftarrow> read_byte y 256;
        let ourAddress = drop 257 y;
        ourIP \<leftarrow> read_ip addressSize ourAddress;
        addr \<leftarrow> mem_read ourAddress 0 (unat addressSize);
        let payload = drop (unat addressSize) ourAddress;
        port \<leftarrow> mem_read payload 0 2;
        n \<leftarrow> upd_ctx (\<lambda>env. context_UpdateAddress env ourIP) n;
        let payload = drop 2 payload;
        tagtime \<leftarrow> mem_read payload 0 8;
        let sdata = x @ yb @ addr @ port @ ip_bytes (fst (s_RemoteEndpoint s)) @ port_bytes (snd (s_RemoteEndpoint s)) @ tagtime;
        relayTag \<leftarrow> bufbe32toh payload 0;
        let s = s\<lparr>s_RelayTag := relayTag\<rparr>;
        let payload = drop 8 payload;
        (ix, signatureLen) \<leftarrow> GetSignatureLen (s_RemoteIdentity s);
        iv \<leftarrow> pkt_IV pkt;
        encrypted \<leftarrow> mem_read payload 0 (padded_16 signatureLen);
        let signature = take signatureLen (snd (CBCDecryption_Decrypt_buf (aes_dec (se_aes (n_env n)) (s_SessionKey s)) iv encrypted));
        (ix, good) \<leftarrow> IdentityEx_Verify (n_sigs n) ix sdata signature;
        let s = s\<lparr>s_RemoteIdentity := ix\<rparr>;
        (if good then SendSessionConfirmed y ourAddress (unat addressSize + 2) (s, n) else Some (s, n)) })"

definition ProcessSessionConfirmed :: "ssu_packet \<Rightarrow> ssu_st \<Rightarrow> ssu_st option" where
  "ProcessSessionConfirmed pkt st = (case s_ConfirmData (fst st) of
       None \<Rightarrow> Some st
     | Some confirmData \<Rightarrow> do {
         let (s, n) = st;
         let payload = drop (pkt_body pkt + 1) (pkt_data pkt);
         identitySize \<leftarrow> bufbe16toh payload 0;
         let payload = drop 2 payload;
         (ix, _) \<leftarrow> IdentityEx_FromBuffer (env_sha256 (n_i2np n)) (s_RemoteIdentity s) payload (unat identitySize);
         let st = UpdatePacketSize (ix_hash ix) (s\<lparr>s_RemoteIdentity := ix\<rparr>, n);
         let payload = drop (unat identitySize) payload;
         time \<leftarrow> mem_read payload 0 4;
         let confirmData = confirmData @ time;
         (ix, sigLen) \<leftarrow> GetSignatureLen ix;
         let paddingSize = (pkt_body pkt + 3 + unat identitySize + 4 + sigLen) mod 16;
         let paddingSize = (if paddingSize > 0 then 16 - paddingSize else 0);
         signature \<leftarrow> mem_read payload (4 + paddingSize) sigLen;
         (ix, good) \<leftarrow> IdentityEx_Verify (n_sigs n) ix confirmData signature;
         let st = ((fst st)\<lparr>s_RemoteIdentity := ix, s_ConfirmData := Some confirmData\<rparr>, snd st);
         (if good then Established st else Some st) })"

end
