(* ===== verification/SSU_Server.thy ===== *)
theory SSU_Server
  imports SSU_Session
begin

text \<open>
  All sessions of the SSU server: \<open>src/core/transport/SSU.cpp\<close>, and the parts of \<open>SSUSession.cpp\<close>
  that reach other sessions (relaying, peer tests) or dispatch a packet. The sessions lie in a heap;
  \<open>n_sessions\<close> maps endpoints to their addresses. \<^term>\<open>None\<close> is undefined behaviour. Where the code
  can throw, the result says whether it ran to its end. Threads and sockets are left out: a batch of
  datagrams is an argument, a datagram sent is an event.
\<close>

section \<open>Worlds\<close>

type_synonym ssu_world = "(nat \<Rightarrow> ssu_session) \<times> ssu_net"

text \<open>An operation of the session at an address.\<close>

definition on_session :: "nat \<Rightarrow> (ssu_st \<Rightarrow> ssu_st option) \<Rightarrow> ssu_world \<Rightarrow> ssu_world option" where
  "on_session a f w = (case f (fst w a, snd w) of None \<Rightarrow> None | Some (s, n) \<Rightarrow> Some ((fst w)(a := s), n))"

definition upd_session :: "nat \<Rightarrow> (ssu_session \<Rightarrow> ssu_session) \<Rightarrow> ssu_world \<Rightarrow> ssu_world" where
  "upd_session a f w = ((fst w)(a := f (fst w a)), snd w)"

definition upd_net :: "(ssu_net \<Rightarrow> ssu_net) \<Rightarrow> ssu_world \<Rightarrow> ssu_world" where
  "upd_net f w = (fst w, f (snd w))"

definition finished :: "ssu_world option \<Rightarrow> (bool \<times> ssu_world) option" where
  "finished = map_option (Pair True)"

section \<open>Sessions and relays of the server\<close>

definition FindSession :: "endpoint \<Rightarrow> ssu_world \<Rightarrow> nat option" where
  "FindSession e w = omap_find (n_sessions (snd w)) e"

definition address_endpoint :: "Address \<Rightarrow> endpoint" where
  "address_endpoint a = (ad_host a, word_of_int (ad_port a))"

definition introducer_endpoint :: "Introducer \<Rightarrow> endpoint" where
  "introducer_endpoint i = (in_host i, word_of_int (in_port i))"

definition FindSession_router :: "RouterInfo option \<Rightarrow> ssu_world \<Rightarrow> nat option" where
  "FindSession_router router w = do {
     router \<leftarrow> router;
     address \<leftarrow> GetSSUAddress router True;
     (case FindSession (address_endpoint address) w of
        Some a \<Rightarrow> Some a
      | None \<Rightarrow> if \<not> SupportsV6 (n_ctx (snd w)) then None
          else do { address \<leftarrow> GetSSUV6Address router; FindSession (address_endpoint address) w }) }"

definition FindRelaySession :: "32 word \<Rightarrow> ssu_world \<Rightarrow> nat option" where
  "FindRelaySession tag w = (case n_relays (snd w) tag of Some e \<Rightarrow> FindSession e w | None \<Rightarrow> None)"

definition DeleteAllSessions :: "ssu_world \<Rightarrow> ssu_world option" where
  "DeleteAllSessions w =
     map_option (upd_net (\<lambda>n. n\<lparr>n_sessions := []\<rparr>))
       (fold (\<lambda>(e, a) w. Option.bind w (on_session a SSUSession_Close)) (n_sessions (snd w)) (Some w))"

text \<open>A random one of the sessions a filter admits, in the order of the map.\<close>

definition GetRandomSession :: "(nat \<Rightarrow> bool) \<Rightarrow> ssu_net \<Rightarrow> nat option \<times> ssu_net" where
  "GetRandomSession P n = (let filtered = filter P (map snd (n_sessions n)) in
     if filtered = [] then (None, n)
     else let (r, n) = rnd_word n in (Some (filtered ! (unat r mod length filtered)), n))"

definition GetRandomEstablishedSession :: "nat \<Rightarrow> ssu_world \<Rightarrow> nat option \<times> ssu_net" where
  "GetRandomEstablishedSession excluded w = GetRandomSession
     (\<lambda>a. s_State (fst w a) = eSessionStateEstablished \<and> \<not> session_IsV6 (fst w a) \<and> a \<noteq> excluded) (snd w)"

section \<open>Peer tests of the server\<close>

definition GetPeerTestParticipant :: "32 word \<Rightarrow> ssu_net \<Rightarrow> peer_role" where
  "GetPeerTestParticipant nonce n =
     (case omap_find (n_peerTests n) nonce of Some t \<Rightarrow> pt_role t | None \<Rightarrow> ePeerTestParticipantUnknown)"

definition GetPeerTestSession :: "32 word \<Rightarrow> ssu_net \<Rightarrow> nat option" where
  "GetPeerTestSession nonce n = (case omap_find (n_peerTests n) nonce of Some t \<Rightarrow> pt_session t | None \<Rightarrow> None)"

definition UpdatePeerTest :: "32 word \<Rightarrow> peer_role \<Rightarrow> ssu_net \<Rightarrow> ssu_net" where
  "UpdatePeerTest nonce role n = (case omap_find (n_peerTests n) nonce of
       Some t \<Rightarrow> n\<lparr>n_peerTests := omap_put nonce (t\<lparr>pt_role := role\<rparr>) (n_peerTests n)\<rparr>
     | None \<Rightarrow> n)"

definition RemovePeerTest :: "32 word \<Rightarrow> ssu_net \<Rightarrow> ssu_net" where
  "RemovePeerTest nonce n = n\<lparr>n_peerTests := omap_erase nonce (n_peerTests n)\<rparr>"

definition SSU_PEER_TEST_TIMEOUT :: "64 word" where "SSU_PEER_TEST_TIMEOUT = 60"

definition HandlePeerTestsCleanupTimer :: "ssu_net \<Rightarrow> ssu_net" where
  "HandlePeerTestsCleanupTimer n = n\<lparr>n_peerTests :=
     filter (\<lambda>(nonce, t). \<not> env_now_ms (n_i2np n) > pt_creationTime t + SSU_PEER_TEST_TIMEOUT * 1000) (n_peerTests n)\<rparr>"

section \<open>Relaying\<close>

text \<open>\<open>to_v4().to_ulong()\<close>.\<close>

definition v4_word :: "ip_address \<Rightarrow> 32 word" where
  "v4_word a = word_of_nat (be_val (ip_bytes a))"

definition SendRelayResponse :: "32 word \<Rightarrow> endpoint \<Rightarrow> bytes \<Rightarrow> endpoint \<Rightarrow> ssu_st \<Rightarrow> ssu_st option" where
  "SendRelayResponse nonce from introKey to st =
     (if is_v6 (fst to) then Some st
      else do {
        let payload = [4] @ word_bytes (v4_word (fst to)) @ port_bytes (snd to) @
          [ip_size (fst from)] @ ip_bytes (fst from) @ port_bytes (snd from) @ word_bytes nonce;
        let len = (if is_v4 (fst from) then 64 else 80);
        (if s_State (fst st) = eSessionStateEstablished then do {
           buf \<leftarrow> mem_write (replicate (80 + 18) 0) SSU_HEADER_SIZE_MIN payload;
           (buf, st) \<leftarrow> session_encrypt PAYLOAD_TYPE_RELAY_RESPONSE buf len st;
           session_send buf len st }
         else do {
           let (iv, n) = rnd_block (snd st);
           buf \<leftarrow> sealed PAYLOAD_TYPE_RELAY_RESPONSE 80 payload len introKey iv introKey n;
           n \<leftarrow> server_Send buf len from n;
           Some (fst st, n) }) })"

text \<open>\<open>session\<close> is the session with Charlie.\<close>

definition SendRelayIntro :: "ssu_session \<Rightarrow> endpoint \<Rightarrow> ssu_net \<Rightarrow> ssu_net option" where
  "SendRelayIntro session from n =
     (if is_v6 (fst from) then Some n
      else do {
        let (iv, n) = rnd_block n;
        buf \<leftarrow> sealed PAYLOAD_TYPE_RELAY_INTRO 48 ([4] @ word_bytes (v4_word (fst from)) @ port_bytes (snd from) @ [0]) 48
          (s_SessionKey session) iv (s_MacKey session) n;
        server_Send buf 48 (s_RemoteEndpoint session) n })"

definition ProcessRelayRequest :: "nat \<Rightarrow> ssu_packet \<Rightarrow> endpoint \<Rightarrow> ssu_world \<Rightarrow> ssu_world option" where
  "ProcessRelayRequest a pkt from w = do {
     let buf = drop (pkt_body pkt) (pkt_data pkt);
     relayTag \<leftarrow> bufbe32toh buf 0;
     (case FindRelaySession relayTag w of
        None \<Rightarrow> Some w
      | Some b \<Rightarrow> do {
          sz \<leftarrow> read_byte buf 4;
          let buf = drop (5 + unat sz + 2) buf;
          challengeSize \<leftarrow> read_byte buf 0;
          let introKey = drop (1 + unat challengeSize) buf;
          nonce \<leftarrow> bufbe32toh introKey 32;
          w \<leftarrow> on_session a (SendRelayResponse nonce from introKey (s_RemoteEndpoint (fst w b))) w;
          n \<leftarrow> SendRelayIntro (fst w b) from (snd w);
          Some (fst w, n) }) }"

definition ProcessRelayResponse :: "ssu_packet \<Rightarrow> ssu_st \<Rightarrow> ssu_st option" where
  "ProcessRelayResponse pkt st = do {
     let payload = drop (pkt_body pkt) (pkt_data pkt);
     remoteSize \<leftarrow> read_byte payload 0;
     let payload = drop (1 + unat remoteSize + 2) payload;
     ourSize \<leftarrow> read_byte payload 0;
     ourIP \<leftarrow> read_ip ourSize (drop 1 payload);
     ourPort \<leftarrow> bufbe16toh (drop (1 + unat ourSize) payload) 0;
     n \<leftarrow> upd_ctx (\<lambda>env. context_UpdateAddress env ourIP) (snd st);
     Some (fst st, n) }"

definition ProcessRelayIntro :: "ssu_packet \<Rightarrow> ssu_net \<Rightarrow> ssu_net option" where
  "ProcessRelayIntro pkt n = do {
     let buf = drop (pkt_body pkt) (pkt_data pkt);
     sz \<leftarrow> read_byte buf 0;
     (if sz = 4 then do {
        address \<leftarrow> mem_read buf 1 4;
        port \<leftarrow> bufbe16toh buf 5;
        server_Send [] 0 (V4 address, port) n }
      else Some n) }"

definition SendRelayRequest :: "32 word \<Rightarrow> bytes \<Rightarrow> ssu_st \<Rightarrow> ssu_st option" where
  "SendRelayRequest iTag iKey st = (case own_SSUAddress (snd st) of
       None \<Rightarrow> Some st
     | Some address \<Rightarrow> do {
         let (s, n) = st;
         key \<leftarrow> mem_read (ad_key address) 0 32;
         let (nonce, n) = rnd_word n;
         let (iv, n) = rnd_block n;
         let payload = word_bytes iTag @ [0] @ [0, 0] @ [0] @ key @ word_bytes nonce;
         buf \<leftarrow> (if s_State s = eSessionStateEstablished
           then sealed PAYLOAD_TYPE_RELAY_REQUEST 96 payload 96 (s_SessionKey s) iv (s_MacKey s) n
           else sealed PAYLOAD_TYPE_RELAY_REQUEST 96 payload 96 iKey iv iKey n);
         n \<leftarrow> server_Send buf 96 (s_RemoteEndpoint s) n;
         Some (s, n) })"

definition Introduce :: "32 word \<Rightarrow> bytes \<Rightarrow> ssu_st \<Rightarrow> ssu_st option" where
  "Introduce iTag iKey st = SendRelayRequest iTag iKey
     (if s_State (fst st) = eSessionStateUnknown then (ScheduleConnectTimer (fst st), snd st) else st)"

definition WaitForIntroduction :: "ssu_session \<Rightarrow> ssu_session" where
  "WaitForIntroduction s = ScheduleConnectTimer (s\<lparr>s_State := eSessionStateIntroduced\<rparr>)"

section \<open>Peer tests of a session\<close>

text \<open>\<open>Send(type, payload, len)\<close> with a pointer; the sum of the sizes is a \<open>size_t\<close>.\<close>

definition session_Send_ptr :: "byte \<Rightarrow> bytes \<Rightarrow> nat \<Rightarrow> ssu_st \<Rightarrow> ssu_st option" where
  "session_Send_ptr type buf len st =
     (if padded_16 ((len + SSU_HEADER_SIZE_MIN) mod 2 ^ 64) > SSU_MTU_V4 then Some st
      else do { payload \<leftarrow> mem_read buf 0 len; session_Send type payload st })"

text \<open>The sender's address as a number; of an IPv6 address \<open>to_v4\<close> throws.\<close>

definition with_v4 :: "endpoint \<Rightarrow> (32 word \<Rightarrow> ssu_world \<Rightarrow> ssu_world option) \<Rightarrow> ssu_world \<Rightarrow> (bool \<times> ssu_world) option" where
  "with_v4 e f w = (if is_v4 (fst e) then finished (f (v4_word (fst e)) w) else Some (False, w))"

definition upd_status :: "router_status \<Rightarrow> ssu_world \<Rightarrow> ssu_world" where
  "upd_status s = upd_net (\<lambda>n. n\<lparr>n_ctx := (n_ctx n)\<lparr>rc_status := s\<rparr>\<rparr>)"

definition new_peer_test :: "nat \<Rightarrow> bytes \<Rightarrow> nat \<Rightarrow> 32 word \<Rightarrow> 32 word \<Rightarrow> 16 word \<Rightarrow> bytes \<Rightarrow> endpoint \<Rightarrow> ssu_world \<Rightarrow> (bool \<times> ssu_world) option" where
  "new_peer_test a buf len nonce address port introKey sender w =
     (if port \<noteq> 0 then finished (do {
        let w = upd_net (NewPeerTest nonce ePeerTestParticipantCharlie None) w;
        w \<leftarrow> on_session a (session_Send_ptr PAYLOAD_TYPE_PEER_TEST buf len) w;
        on_session a (SendPeerTest_to nonce (be32toh address) (be16toh port) introKey True True) w })
      else (case GetRandomEstablishedSession a w of
          (None, n) \<Rightarrow> Some (True, (fst w, n))
        | (Some b, n) \<Rightarrow>
            with_v4 sender (\<lambda>v4. on_session b (SendPeerTest_to nonce v4 (snd sender) introKey False True))
              (fst w, NewPeerTest nonce ePeerTestParticipantBob (Some a) n)))"

definition ProcessPeerTest :: "nat \<Rightarrow> ssu_packet \<Rightarrow> endpoint \<Rightarrow> ssu_world \<Rightarrow> (bool \<times> ssu_world) option" where
  "ProcessPeerTest a pkt sender w = do {
     let buf = drop (pkt_body pkt) (pkt_data pkt);
     let len = pkt_bodylen pkt;
     nonce \<leftarrow> bufbe32toh buf 0;
     sz \<leftarrow> read_byte buf 4;
     address \<leftarrow> (if sz = 4 then buf32toh buf 5 else Some 0);
     port \<leftarrow> buf16toh buf (unat sz + 5);
     let introKey = drop (unat sz + 7) buf;
     let established = (s_State (fst w a) = eSessionStateEstablished);
     (if port \<noteq> 0 \<and> address = 0 then Some (True, w)
      else (case GetPeerTestParticipant nonce (snd w) of
          ePeerTestParticipantAlice1 \<Rightarrow>
            if established then
              Some (True, if rc_status (n_ctx (snd w)) = eRouterStatusTesting then upd_status eRouterStatusFirewalled w else w)
            else with_v4 sender (\<lambda>v4. on_session a (SendPeerTest_to nonce v4 (snd sender) introKey True False))
              (upd_net (UpdatePeerTest nonce ePeerTestParticipantAlice2) (upd_status eRouterStatusOK w))
        | ePeerTestParticipantAlice2 \<Rightarrow>
            Some (True, if established then w else upd_net (RemovePeerTest nonce) (upd_status eRouterStatusOK w))
        | ePeerTestParticipantBob \<Rightarrow> finished (do {
            w \<leftarrow> (case GetPeerTestSession nonce (snd w) of
                Some b \<Rightarrow> if s_State (fst w b) = eSessionStateEstablished
                  then on_session b (session_Send_ptr PAYLOAD_TYPE_PEER_TEST buf len) w else Some w
              | None \<Rightarrow> Some w);
            Some (upd_net (RemovePeerTest nonce) w) })
        | ePeerTestParticipantCharlie \<Rightarrow>
            with_v4 sender (\<lambda>v4 w. map_option (upd_net (RemovePeerTest nonce))
              (on_session a (SendPeerTest_to nonce v4 (snd sender) introKey True True) w)) w
        | ePeerTestParticipantUnknown \<Rightarrow>
            if established then new_peer_test a buf len nonce address port introKey sender w else Some (True, w))) }"

section \<open>Incoming packets\<close>

definition ProcessData :: "ssu_packet \<Rightarrow> ssu_st \<Rightarrow> ssu_st option" where
  "ProcessData pkt st = do {
     st \<leftarrow> ProcessMessage (drop (pkt_body pkt) (pkt_data pkt)) st;
     Some ((fst st)\<lparr>s_IsDataReceived := True\<rparr>, snd st) }"

definition FlushData :: "ssu_st \<Rightarrow> ssu_st" where
  "FlushData st = (if s_IsDataReceived (fst st)
     then (let st = FlushReceivedMessage st in ((fst st)\<lparr>s_IsDataReceived := False\<rparr>, snd st)) else st)"

text \<open>The switch over the payload type.\<close>

definition process_payload :: "nat \<Rightarrow> byte \<Rightarrow> ssu_packet \<Rightarrow> endpoint \<Rightarrow> ssu_world \<Rightarrow> (bool \<times> ssu_world) option" where
  "process_payload a type pkt sender w =
     (if type = PAYLOAD_TYPE_DATA then finished (on_session a (ProcessData pkt) w)
      else if type = PAYLOAD_TYPE_SESSION_REQUEST then finished (on_session a (ProcessSessionRequest pkt sender) w)
      else if type = PAYLOAD_TYPE_SESSION_CREATED then finished (on_session a (ProcessSessionCreated pkt) w)
      else if type = PAYLOAD_TYPE_SESSION_CONFIRMED then finished (on_session a (ProcessSessionConfirmed pkt) w)
      else if type = PAYLOAD_TYPE_PEER_TEST then ProcessPeerTest a pkt sender w
      else if type = PAYLOAD_TYPE_SESSION_DESTROYED then finished (on_session a DeleteSession w)
      else if type = PAYLOAD_TYPE_RELAY_RESPONSE then finished (do {
        w \<leftarrow> on_session a (ProcessRelayResponse pkt) w;
        (if s_State (fst w a) \<noteq> eSessionStateEstablished then on_session a DeleteSession w else Some w) })
      else if type = PAYLOAD_TYPE_RELAY_REQUEST then finished (ProcessRelayRequest a pkt sender w)
      else if type = PAYLOAD_TYPE_RELAY_INTRO then finished (map_option (Pair (fst w)) (ProcessRelayIntro pkt (snd w)))
      else Some (True, w))"

definition ProcessDecryptedMessage :: "nat \<Rightarrow> bytes \<Rightarrow> nat \<Rightarrow> endpoint \<Rightarrow> ssu_world \<Rightarrow> (bool \<times> ssu_world) option" where
  "ProcessDecryptedMessage a buf len sender w =
     (let len = len - len mod 16 in
      if len \<le> SSU_HEADER_SIZE_MIN then Some (True, w)
      else do {
        (pkt, parsed) \<leftarrow> ParseHeader (SSUSessionPacket buf len);
        (if \<not> parsed then Some (True, w)
         else do { type \<leftarrow> GetPayloadType pkt; process_payload a type pkt sender w }) })"

text \<open>Which key opens a packet; the buffer that is processed, or \<open>None\<close> if the session is deleted.\<close>

datatype opened = Process bytes | Ignore | Reject

definition open_packet :: "bytes \<Rightarrow> nat \<Rightarrow> ssu_st \<Rightarrow> opened option" where
  "open_packet buf len st = (case st of (s, n) \<Rightarrow>
     if s_IsSessionKey s then do {
       (buf, good) \<leftarrow> ssu_Validate (n_env n) buf len (s_MacKey s);
       (if good then map_option Process (DecryptSessionKey (n_env n) (s_SessionKey s) buf len) else Some (Process buf)) }
     else (case GetIntroKey st of
       Some introKey \<Rightarrow> do {
         (buf, good) \<leftarrow> ssu_Validate (n_env n) buf len introKey;
         (if good then map_option Process (ssu_Decrypt (n_env n) buf len introKey) else Some (Process buf)) }
     | None \<Rightarrow> (case own_SSUAddress n of
         None \<Rightarrow> Some Ignore
       | Some address \<Rightarrow> do {
           (buf, good) \<leftarrow> ssu_Validate (n_env n) buf len (ad_key address);
           (if good then map_option Process (ssu_Decrypt (n_env n) buf len (ad_key address)) else Some Reject) })))"

definition ProcessNextMessage :: "nat \<Rightarrow> bytes \<Rightarrow> nat \<Rightarrow> endpoint \<Rightarrow> ssu_world \<Rightarrow> (bool \<times> ssu_world) option" where
  "ProcessNextMessage a buf len sender w =
     (let w = upd_session a (\<lambda>s. s\<lparr>s_NumReceivedBytes := s_NumReceivedBytes s + len\<rparr>) w in
      if s_State (fst w a) = eSessionStateIntroduced
      then finished (on_session a SSUSession_Connect (upd_session a (\<lambda>s. s\<lparr>s_State := eSessionStateUnknown\<rparr>) w))
      else if len = 0 then Some (True, w)
      else do {
        let w = (if s_State (fst w a) = eSessionStateEstablished then upd_session a ScheduleTermination w else w);
        r \<leftarrow> open_packet buf len (fst w a, snd w);
        (case r of
           Process buf \<Rightarrow> ProcessDecryptedMessage a buf len sender w
         | Ignore \<Rightarrow> Some (True, w)
         | Reject \<Rightarrow> finished (on_session a DeleteSession w)) })"

definition flush_session :: "nat option \<Rightarrow> ssu_world \<Rightarrow> ssu_world" where
  "flush_session session w = (case session of
       Some a \<Rightarrow> (let (s, n) = FlushData (fst w a, snd w) in ((fst w)(a := s), n)) | None \<Rightarrow> w)"

text \<open>
  \<open>HandleReceivedPackets\<close>: the session a packet goes to, given that of the packet before it; a new
  session gets the next address of the allocator.
\<close>

definition session_for :: "endpoint \<Rightarrow> IdentityEx \<Rightarrow> nat option \<Rightarrow> ssu_world \<Rightarrow> nat \<times> ssu_world" where
  "session_for from fresh session w =
     (if session \<noteq> None \<and> s_RemoteEndpoint (fst w (the session)) = from then (the session, w)
      else
        let w = flush_session session w;
            session = (case FindSession from w of Some b \<Rightarrow> Some b | None \<Rightarrow> session)
        in (case session of
              Some b \<Rightarrow> (b, w)
            | None \<Rightarrow>
                let (b, n) = new_addr (snd w);
                    s = WaitForConnect (SSUSession_new from None False fresh n)
                in (b, ((fst w)(b := s), n\<lparr>n_sessions := omap_put from b (n_sessions n)\<rparr>))))"

fun receive_packets :: "IdentityEx \<Rightarrow> (bytes \<times> nat \<times> endpoint) list \<Rightarrow> nat option \<Rightarrow> ssu_world \<Rightarrow> ssu_world option" where
  "receive_packets fresh [] session w = Some (flush_session session w)"
| "receive_packets fresh ((buf, len, from) # packets) session w = do {
     let (b, w) = session_for from fresh session w;
     (fin, w) \<leftarrow> ProcessNextMessage b buf len from w;
     (if fin then receive_packets fresh packets (Some b) w
      else receive_packets fresh packets None (flush_session (Some b) w)) }"

definition HandleReceivedPackets :: "IdentityEx \<Rightarrow> (bytes \<times> nat \<times> endpoint) list \<Rightarrow> ssu_world \<Rightarrow> ssu_world option" where
  "HandleReceivedPackets fresh packets w = receive_packets fresh packets None w"

section \<open>Outgoing sessions\<close>

definition new_session :: "endpoint \<Rightarrow> RouterInfo \<Rightarrow> bool \<Rightarrow> IdentityEx \<Rightarrow> ssu_world \<Rightarrow> nat \<times> ssu_world" where
  "new_session e router peerTest fresh w =
     (let (b, n) = new_addr (snd w);
          s = SSUSession_new e (Some router) peerTest fresh n
      in (b, ((fst w)(b := s), n\<lparr>n_sessions := omap_put e b (n_sessions n)\<rparr>)))"

text \<open>The first introducer there is a session with, or the first one and a new session.\<close>

definition introducer_session :: "Introducer list \<Rightarrow> RouterInfo \<Rightarrow> IdentityEx \<Rightarrow> ssu_world \<Rightarrow> Introducer \<times> nat \<times> ssu_world" where
  "introducer_session ins router fresh w =
     (case find (\<lambda>i. FindSession (introducer_endpoint i) w \<noteq> None) ins of
        Some i \<Rightarrow> (i, the (FindSession (introducer_endpoint i) w), w)
      | None \<Rightarrow> (hd ins, new_session (introducer_endpoint (hd ins)) router False fresh w))"

definition GetSession :: "RouterInfo option \<Rightarrow> bool \<Rightarrow> IdentityEx \<Rightarrow> ssu_world \<Rightarrow> (nat option \<times> ssu_world) option" where
  "GetSession router peerTest fresh w = (case router of
       None \<Rightarrow> Some (None, w)
     | Some router \<Rightarrow>
       (case GetSSUAddress router (\<not> SupportsV6 (n_ctx (snd w))) of
          None \<Rightarrow> Some (None, w)
        | Some address \<Rightarrow>
          (let e = address_endpoint address in
           case FindSession e w of
             Some a \<Rightarrow> Some (Some a, w)
           | None \<Rightarrow>
             (let (a, w) = new_session e router peerTest fresh w in
              if \<not> UsesIntroducer router then map_option (Pair (Some a)) (on_session a SSUSession_Connect w)
              else if ad_introducers address \<noteq> [] then do {
                let (i, b, w) = introducer_session (ad_introducers address) router fresh w;
                let w = upd_session a WaitForIntroduction w;
                n \<leftarrow> (if UsesIntroducer (n_ri (snd w)) then server_Send [] 0 e (snd w) else Some (snd w));
                w \<leftarrow> on_session b (Introduce (in_tag i) (in_key i)) (fst w, n);
                Some (Some a, w) }
              else Some (None, upd_net (\<lambda>n. n\<lparr>n_sessions := omap_erase e (n_sessions n)\<rparr>) w)))))"

section \<open>Introducers\<close>

definition SSU_MAX_NUM_INTRODUCERS :: nat where "SSU_MAX_NUM_INTRODUCERS = 3"
definition SSU_TO_INTRODUCER_SESSION_DURATION :: "32 word" where "SSU_TO_INTRODUCER_SESSION_DURATION = 3600"

definition young_session :: "ssu_net \<Rightarrow> ssu_session \<Rightarrow> bool" where
  "young_session n s \<longleftrightarrow> now_s n < s_CreationTime s + SSU_TO_INTRODUCER_SESSION_DURATION"

text \<open>The loop ends with the first session it finds.\<close>

fun FindIntroducers :: "nat \<Rightarrow> ssu_world \<Rightarrow> nat list \<times> ssu_net" where
  "FindIntroducers 0 w = ([], snd w)"
| "FindIntroducers (Suc k) w =
     (case GetRandomSession (\<lambda>a. s_RelayTag (fst w a) \<noteq> 0 \<and> s_State (fst w a) = eSessionStateEstablished \<and>
          young_session (snd w) (fst w a)) (snd w) of
        (Some a, n) \<Rightarrow> ([a], n)
      | (None, n) \<Rightarrow> FindIntroducers k (fst w, n))"

text \<open>The introducers that stay.\<close>

fun keep_introducers :: "endpoint list \<Rightarrow> ssu_world \<Rightarrow> (endpoint list \<times> ssu_world) option" where
  "keep_introducers [] w = Some ([], w)"
| "keep_introducers (e # es) w =
     (case FindSession e w of
        Some a \<Rightarrow>
          if young_session (snd w) (fst w a) then do {
            w \<leftarrow> on_session a SendKeepAlive w;
            (l, w) \<leftarrow> keep_introducers es w;
            Some (e # l, w) }
          else do {
            n \<leftarrow> upd_ctx (\<lambda>env. context_RemoveIntroducer env e) (snd w);
            keep_introducers es (fst w, n) }
      | None \<Rightarrow> do {
            n \<leftarrow> upd_ctx (\<lambda>env. context_RemoveIntroducer env e) (snd w);
            keep_introducers es (fst w, n) })"

fun add_introducers :: "nat list \<Rightarrow> endpoint list \<Rightarrow> ssu_world \<Rightarrow> (endpoint list \<times> ssu_world) option" where
  "add_introducers [] l w = Some (l, w)"
| "add_introducers (a # as) l w =
     (case s_RemoteRouter (fst w a) of
        None \<Rightarrow> add_introducers as l w
      | Some router \<Rightarrow> do {
          (c, added) \<leftarrow> context_AddIntroducer (n_rcenv (snd w)) router (s_RelayTag (fst w a)) (n_ctx (snd w));
          let w = upd_net (\<lambda>n. n\<lparr>n_ctx := c\<rparr>) w;
          (if added then
             let l = l @ [s_RemoteEndpoint (fst w a)]
             in if length l \<ge> SSU_MAX_NUM_INTRODUCERS then Some (l, w) else add_introducers as l w
           else add_introducers as l w) })"

text \<open>\<open>randomIntroducer\<close> is what the network database returns.\<close>

definition HandleIntroducersUpdateTimer :: "RouterInfo option \<Rightarrow> IdentityEx \<Rightarrow> ssu_world \<Rightarrow> ssu_world option" where
  "HandleIntroducersUpdateTimer randomIntroducer fresh w =
     (if rc_status (n_ctx (snd w)) \<noteq> eRouterStatusFirewalled then Some w
      else do {
        n \<leftarrow> (if \<not> IsUnreachable (n_ctx (snd w)) then upd_ctx SetUnreachable (snd w) else Some (snd w));
        (newList, w) \<leftarrow> keep_introducers (n_introducers n) (fst w, n);
        (newList, w) \<leftarrow> (if length newList < SSU_MAX_NUM_INTRODUCERS
          then let (as, n) = FindIntroducers SSU_MAX_NUM_INTRODUCERS w in add_introducers as newList (fst w, n)
          else Some (newList, w));
        let w = upd_net (\<lambda>n. n\<lparr>n_introducers := newList\<rparr>) w;
        (if newList = [] \<and> randomIntroducer \<noteq> None
         then map_option snd (GetSession randomIntroducer False fresh w) else Some w) })"

end
