(* ===== verification/SSU_DataProps.thy ===== *)
theory SSU_DataProps
  imports SSU_Data
begin

text \<open>
  What \<open>SSUData\<close> guarantees: acknowledgements and the fragments they reset, the invariant of its
  state under every operation, reassembly in any order, and the bounds of a packet.
\<close>


section \<open>Acknowledging fragments\<close>

lemma reset_bits_none: "(\<And>i. i < j \<Longrightarrow> \<not> bit b i) \<Longrightarrow> reset_bits j b k fs = fs"
proof (induction j b k fs rule: reset_bits.induct)
  case (2 j b k fs)
  have "\<not> bit b 0" using "2.prems" [of 0] by simp
  moreover have "\<not> bit (drop_bit 1 b) i" if "i < j" for i
    using "2.prems" [of "Suc i"] that by (simp add: bit_drop_bit_eq)
  ultimately show ?case using "2.IH" by simp
qed simp

text \<open>A bitfield with one bit resets one fragment, if there is one.\<close>

lemma reset_bits_one:
  assumes "\<And>i. i < j \<Longrightarrow> bit b i \<longleftrightarrow> i = r" and "r < j"
  shows "reset_bits j b k fs = (if k + r < length fs then fs[k + r := None] else fs)"
  using assms
proof (induction j b k fs arbitrary: r rule: reset_bits.induct)
  case (2 j b k fs)
  show ?case
  proof (cases r)
    case 0
    have "\<not> bit (drop_bit 1 b) i" if "i < j" for i
      using "2.prems"(1) [of "Suc i"] that 0 by (simp add: bit_drop_bit_eq)
    then have n: "reset_bits j (drop_bit 1 b) k' gs = gs" for k' gs by (rule reset_bits_none)
    have "bit b 0" using "2.prems"(1) [of 0] 0 by simp
    then show ?thesis using 0 n [simplified] by simp
  next
    case (Suc r')
    have z: "\<not> bit b 0" using "2.prems"(1) [of 0] Suc by simp
    have "reset_bits j (drop_bit 1 b) (k + 1) fs = (if k + 1 + r' < length fs then fs[k + 1 + r' := None] else fs)"
    proof -
      have "(if bit b 0 \<and> k < length fs then fs[k := None] else fs) = fs" using z by simp
      moreover have "bit (drop_bit 1 b) i \<longleftrightarrow> i = r'" if "i < j" for i
        using "2.prems"(1) [of "Suc i"] that Suc by (simp add: bit_drop_bit_eq)
      moreover have "r' < j" using "2.prems"(2) Suc by simp
      ultimately show ?thesis using "2.IH" [of r'] z by simp
    qed
    then show ?thesis using z Suc by simp
  qed
qed simp

text \<open>
  The acknowledgement of fragment \<open>k\<close> is \<open>k div 7\<close> bitfields without a bit and one with bit \<open>k mod 7\<close>.
  The reader does not count the empty bitfields.
\<close>

definition fragment_ack :: "32 word \<Rightarrow> nat \<Rightarrow> bytes" where
  "fragment_ack msgID k = [1] @ be_bytes 4 (unat msgID) @ replicate (k div 7) 0x80 @ [push_bit (k mod 7) 0x01]"

lemma ack_bitfields_skip:
  "ack_bitfields msgID f (replicate q 0x80 @ buf) d = ack_bitfields msgID f buf d"
  by (induction q) (simp_all add: Let_def split: option.splits)

lemma ack_byte:
  assumes "r < 7"
  shows "(push_bit r 0x01 :: byte) AND 0x80 = 0" "(push_bit r 0x01 :: byte) AND 0x7F = push_bit r 0x01"
    "(push_bit r 0x01 :: byte) \<noteq> 0" "i < 7 \<Longrightarrow> bit (push_bit r 0x01 :: byte) i \<longleftrightarrow> i = r"
proof -
  have "r \<in> {0, 1, 2, 3, 4, 5, 6}" using assms by auto
  then show "(push_bit r 0x01 :: byte) AND 0x80 = 0" "(push_bit r 0x01 :: byte) AND 0x7F = push_bit r 0x01"
    "(push_bit r 0x01 :: byte) \<noteq> 0" by auto
  show "i < 7 \<Longrightarrow> bit (push_bit r 0x01 :: byte) i \<longleftrightarrow> i = r"
    using assms by (auto simp: bit_simps)
qed

lemma be_read_4: "bufbe32toh (be_bytes 4 (unat (w :: 32 word)) @ rest) 0 = Some w"
proof -
  have "unat w < 4294967296" using unsigned_less [of w] by simp
  then show ?thesis by (simp add: bufbe32toh_be_val be_val_be_bytes)
qed

lemma ProcessAcks_fragment_ack:
  assumes "map_of (d_Sent d) msgID = Some sent"
  shows "ProcessAcks (fragment_ack msgID k @ rest) DATA_FLAG_ACK_BITFIELDS_INCLUDED d =
    Some (rest, d\<lparr>d_Sent := omap_put msgID (sent\<lparr>sm_fragments :=
      (if k mod 7 < length (sm_fragments sent) then (sm_fragments sent)[k mod 7 := None] else sm_fragments sent)\<rparr>) (d_Sent d)\<rparr>)"
proof -
  let ?b = "push_bit (k mod 7) 0x01 :: byte"
  have r: "k mod 7 < 7" by simp
  have "reset_bits 7 ?b 0 (sm_fragments sent) = (if k mod 7 < length (sm_fragments sent)
      then (sm_fragments sent)[k mod 7 := None] else sm_fragments sent)"
    using reset_bits_one [of 7 ?b "k mod 7" 0 "sm_fragments sent"] ack_byte(4) [OF r] by simp
  then have "ack_bitfields msgID 0 (?b # rest) d = Some (rest, d\<lparr>d_Sent := omap_put msgID (sent\<lparr>sm_fragments :=
      (if k mod 7 < length (sm_fragments sent) then (sm_fragments sent)[k mod 7 := None] else sm_fragments sent)\<rparr>) (d_Sent d)\<rparr>)"
    using assms ack_byte(1-3) [OF r] by simp
  moreover have "(DATA_FLAG_ACK_BITFIELDS_INCLUDED AND DATA_FLAG_EXPLICIT_ACKS_INCLUDED) = 0"
    "(DATA_FLAG_ACK_BITFIELDS_INCLUDED AND DATA_FLAG_ACK_BITFIELDS_INCLUDED) \<noteq> 0"
    by (simp_all add: ssu_defs)
  ultimately show ?thesis
    by (simp add: ProcessAcks_def fragment_ack_def read_byte_def mem_read_def be_read_4 ack_bitfields_skip
      )
qed


section \<open>The invariant of SSUData\<close>

definition sent_ok :: "sent_msg \<Rightarrow> bool" where
  "sent_ok m \<longleftrightarrow> sm_numResends m \<le> MAX_NUM_RESENDS"

definition incomplete_ok :: "incomplete_msg \<Rightarrow> bool" where
  "incomplete_ok im \<longleftrightarrow> sorted_wrt (<) (map fr_num (im_saved im)) \<and> (\<forall>f \<in> set (im_saved im). im_next im < fr_num f)"

definition data_ok :: "ssu_data \<Rightarrow> bool" where
  "data_ok d \<longleftrightarrow> omap_ok (d_Incomplete d) \<and> omap_ok (d_Sent d) \<and> distinct (d_Received d) \<and>
     (\<forall>kv \<in> set (d_Sent d). sent_ok (snd kv)) \<and> (\<forall>kv \<in> set (d_Incomplete d). incomplete_ok (snd kv)) \<and>
     (d_Sent d \<noteq> [] \<longrightarrow> WaitResend \<in> set (d_ResendTimer d)) \<and> count_list (d_ResendTimer d) WaitResend \<le> 1"

lemmas ok_defs = data_ok_def sent_ok_def

lemma data_of_upd [simp]: "data_of (upd_data f st) = f (data_of st)" "snd (upd_data f st) = snd st"
  "s_State (fst (upd_data f st)) = s_State (fst st)"
  by (simp_all add: data_of_def upd_data_def)

lemma data_of_encrypt: "session_encrypt t buf len st = Some (b, st') \<Longrightarrow> data_of st' = data_of st"
  by (auto simp: session_encrypt_def data_of_def rnd_block_def Let_def split: if_splits prod.splits)

lemma data_of_send: "session_send buf len st = Some st' \<Longrightarrow> data_of st' = data_of st"
  by (auto simp: session_send_def data_of_def bind_eq_Some_conv split: prod.splits)

lemma data_of_make: "make_fragment mid k l part st = Some (f, st') \<Longrightarrow> data_of st' = data_of st"
  by (auto simp: make_fragment_def bind_eq_Some_conv Let_def dest: data_of_encrypt)

lemma data_of_send_fragments: "send_fragments p mid buf pos len k fs st = Some r \<Longrightarrow> data_of (snd r) = data_of st"
proof (rule send_fragments.raw_induct [where P = "\<lambda>p mid buf pos len k fs st r. data_of (snd r) = data_of st", rotated])
  fix rec p mid buf pos len k fs st r
  assume IH: "\<And>p mid buf pos len k fs st r. rec p mid buf pos len k fs st = Some r \<Longrightarrow> data_of (snd r) = data_of st"
    and r: "(if 0 < len then let isLast = len \<le> p in mem_read buf pos (if isLast then len else p) \<bind>
        (\<lambda>part. make_fragment mid k isLast part st \<bind> (\<lambda>(f, st). session_send (fr_buf f) (fr_len f) st \<bind>
           rec p mid buf (pos + p) (if isLast then 0 else len - p) (k + 1) (fs @ [Some f]))) else Some (fs, st)) = Some r"
  show "data_of (snd r) = data_of st"
  proof (cases "len > 0")
    case True
    then obtain part f st1 st2 where "make_fragment mid k (len \<le> p) part st = Some (f, st1)" "session_send (fr_buf f) (fr_len f) st1 = Some st2"
      "rec p mid buf (pos + p) (if len \<le> p then 0 else len - p) (k + 1) (fs @ [Some f]) st2 = Some r"
      using r by (auto simp: bind_eq_Some_conv Let_def)
    then show ?thesis using IH data_of_make data_of_send by metis
  qed (use r in auto)
qed

lemma data_of_acks:
  "SendMsgAck mid st = Some st' \<Longrightarrow> data_of st' = data_of st"
  "SendFragmentAck mid k st = Some st' \<Longrightarrow> data_of st' = data_of st"
  by (auto simp: SendMsgAck_def SendFragmentAck_def bind_eq_Some_conv Let_def split: if_splits
      dest!: data_of_encrypt data_of_send)

lemma data_of_resend_fragments: "resend_fragments fs st = Some st' \<Longrightarrow> data_of st' = data_of st"
  by (induction fs st rule: resend_fragments.induct) (auto simp: bind_eq_Some_conv dest: data_of_send)

lemma set_omap_erase: "set (omap_erase k m) \<subseteq> set m"
  by (auto simp: omap_erase_def)

lemma omap_put_ne [simp]: "omap_put k v m \<noteq> []"
  using map_of_omap_put [of k v m k] by auto

lemma ball_omap_put: "\<forall>kv \<in> set m. P (snd kv) \<Longrightarrow> P v \<Longrightarrow> \<forall>kv \<in> set (omap_put k v m). P (snd kv)"
  using set_omap_put [of k v m] by auto

lemma ball_find: "\<forall>kv \<in> set m. P (snd kv) \<Longrightarrow> map_of m k = Some v \<Longrightarrow> P v"
  by (force dest: map_of_SomeD)

lemma data_ok_put_sent:
  "data_ok d \<Longrightarrow> sent_ok m \<Longrightarrow> WaitResend \<in> set (d_ResendTimer d) \<Longrightarrow> data_ok (d\<lparr>d_Sent := omap_put k m (d_Sent d)\<rparr>)"
  using ball_omap_put [of "d_Sent d" sent_ok m k] by (simp add: data_ok_def omap_put_ok)

lemma data_ok_new: "data_ok (SSUData_new v6 r)"
  by (auto simp: SSUData_new_def data_ok_def omap_ok_def AdjustPacketSize_def Let_def split: option.splits)

lemma data_ok_Adjust: "data_ok d \<Longrightarrow> data_ok (AdjustPacketSize v6 r d)"
  by (auto simp: AdjustPacketSize_def data_ok_def Let_def split: option.splits)

lemma SSUData_Send_ok:
  assumes "data_ok (data_of st)" and "SSUData_Send m st = Some st'"
  shows "data_ok (data_of st')"
proof -
  obtain m1 mid where m1: "ToSSU m = Some (m1, mid)" using assms(2) by (auto simp: SSUData_Send_def bind_eq_Some_conv)
  show ?thesis
  proof (cases "map_of (d_Sent (data_of st)) mid = None")
    case False
    then show ?thesis using assms m1 by (simp add: SSUData_Send_def)
  next
    case True
    let ?st = "if d_Sent (data_of st) = [] then upd_data ScheduleResend st else st"
    obtain p fs st1 where sf: "send_fragments p mid (msg_buf m1) (GetSSUHeader m1) (GetLength m1) 0 [] ?st = Some (fs, st1)"
      and st': "st' = upd_data (\<lambda>d. d\<lparr>d_Sent := omap_put mid \<lparr>sm_fragments = fs, sm_nextResend = now_s (snd ?st) + RESEND_INTERVAL, sm_numResends = 0\<rparr> (d_Sent d)\<rparr>) st1"
      using assms(2) m1 True by (auto simp: SSUData_Send_def bind_eq_Some_conv Let_def)
    have d1: "data_of st1 = data_of ?st" using data_of_send_fragments [OF sf] by simp
    have "data_ok (data_of ?st) \<and> WaitResend \<in> set (d_ResendTimer (data_of ?st))"
      using assms(1) by (auto simp: data_ok_def ScheduleResend_def)
    then show ?thesis unfolding st' by (auto simp: d1 sent_ok_def intro!: data_ok_put_sent)
  qed
qed

lemma ProcessSentMessageAck_ok: "data_ok d \<Longrightarrow> data_ok (ProcessSentMessageAck k d)"
  using set_omap_erase [of k "d_Sent d"] omap_erase_ok [of "d_Sent d" k]
  by (auto simp: ProcessSentMessageAck_def data_ok_def Let_def)

lemma explicit_acks_ok: "data_ok d \<Longrightarrow> explicit_acks i buf d = Some (b, d') \<Longrightarrow> data_ok d'"
  by (induction i buf d rule: explicit_acks.induct) (auto simp: bind_eq_Some_conv ProcessSentMessageAck_ok)

lemma ack_bitfields_ok: "data_ok d \<Longrightarrow> ack_bitfields k f buf d = Some (b, d') \<Longrightarrow> data_ok d'"
proof (induction k f buf d rule: ack_bitfields.induct)
  case (2 k f b buf d)
  let ?r = "case map_of (d_Sent d) k of
      Some sent \<Rightarrow> if b AND 0x7F \<noteq> 0 then (f + 7, d\<lparr>d_Sent := omap_put k (sent\<lparr>sm_fragments := reset_bits 7 (b AND 0x7F) f (sm_fragments sent)\<rparr>) (d_Sent d)\<rparr>)
        else (f, d) | None \<Rightarrow> (f, d)"
  have "data_ok (snd ?r)"
  proof (cases "map_of (d_Sent d) k")
    case (Some sent)
    then have "sent_ok sent" "WaitResend \<in> set (d_ResendTimer d)"
      using "2.prems"(1) ball_find [of "d_Sent d" sent_ok k sent] by (auto simp: data_ok_def)
    then show ?thesis using Some "2.prems"(1) by (auto simp: sent_ok_def intro: data_ok_put_sent)
  qed (use "2.prems" in simp)
  then show ?case
    using 2 by (cases ?r) (auto simp: Let_def split: if_splits)
qed simp

lemma bitfield_acks_ok: "data_ok d \<Longrightarrow> bitfield_acks i buf d = Some (b, d') \<Longrightarrow> data_ok d'"
  by (induction i buf d rule: bitfield_acks.induct) (auto simp: bind_eq_Some_conv dest: ack_bitfields_ok)

lemma ProcessAcks_ok: "data_ok d \<Longrightarrow> ProcessAcks buf flag d = Some (b, d') \<Longrightarrow> data_ok d'"
  by (auto simp: ProcessAcks_def bind_eq_Some_conv split: if_splits dest: explicit_acks_ok bitfield_acks_ok)


lemma data_ok_timer: "data_ok d \<Longrightarrow> data_ok (ScheduleResend d)" "data_ok d \<Longrightarrow> data_ok (ScheduleDecay d)"
  "data_ok (d\<lparr>d_CleanupTimer := b\<rparr>) = data_ok d"
  by (auto simp: data_ok_def ScheduleResend_def ScheduleDecay_def)

lemma insert_fragment_ok:
  "sorted_wrt (<) (map fr_num gs) \<Longrightarrow> sorted_wrt (<) (map fr_num (fst (insert_fragment f gs))) \<and>
     set (fst (insert_fragment f gs)) \<subseteq> insert f (set gs)"
proof (induction f gs rule: insert_fragment.induct)
  case (2 f g gs)
  then show ?case by (force split: prod.splits)
qed simp

lemma AttachNextFragment_fields: "AttachNextFragment a part im = Some im' \<Longrightarrow> im_next im' = im_next im + 1 \<and> im_saved im' = im_saved im"
  by (auto simp: AttachNextFragment_def bind_eq_Some_conv Let_def split: if_splits)

lemma attach_saved_ok:
  assumes "attach_saved addrs k fs l im = Some (im', l')" and "sorted_wrt (<) (map fr_num fs)" and "\<forall>f \<in> set fs. im_next im \<le> fr_num f"
  shows "incomplete_ok im'"
  using assms
proof (induction addrs k fs l im rule: attach_saved.induct)
  case (2 addrs k f fs l im)
  show ?case
  proof (cases "fr_num f = im_next im")
    case True
    then obtain part im1 where a: "AttachNextFragment (addrs k) part im = Some im1"
      "attach_saved addrs (k + 1) fs (fr_last f) im1 = Some (im', l')" "mem_read (fr_buf f) 0 (fr_len f) = Some part"
      using "2.prems"(1) by (auto simp: bind_eq_Some_conv)
    have "\<forall>g \<in> set fs. im_next im1 \<le> fr_num g"
      using "2.prems"(2) True AttachNextFragment_fields [OF a(1)] by force
    then show ?thesis using "2.IH" [OF True a(3,1,2)] "2.prems"(2) by simp
  next
    case False
    then show ?thesis using "2.prems" by (force simp: incomplete_ok_def)
  qed
next
  case (1 addrs k l im)
  then have "im' = im\<lparr>im_saved := []\<rparr>" by simp
  then show ?case by (simp add: incomplete_ok_def)
qed

lemma handle_fragment_ok:
  assumes "handle_fragment addrs k ts num l part im = Some (im', False)" and ok: "incomplete_ok im"
  shows "incomplete_ok im'"
proof -
  consider (here) "num = im_next im" | (old) "num < im_next im" | (new) "num > im_next im" by linarith
  then show ?thesis
  proof cases
    case here
    then obtain im1 where a: "AttachNextFragment (addrs k) part im = Some im1"
      and r: "(if \<not> l \<and> im_saved im1 \<noteq> [] then attach_saved addrs (k + 1) (im_saved im1) l im1 else Some (im1, l)) = Some (im', False)"
      using assms(1) by (auto simp: handle_fragment_def bind_eq_Some_conv)
    note f = AttachNextFragment_fields [OF a]
    have s: "sorted_wrt (<) (map fr_num (im_saved im1))" "\<forall>g \<in> set (im_saved im1). im_next im1 \<le> fr_num g"
      using ok f by (auto simp: incomplete_ok_def)
    show ?thesis
      using r s ok f attach_saved_ok [OF _ s] by (auto simp: incomplete_ok_def split: if_splits)
  next
    case old
    then show ?thesis using assms by (simp add: handle_fragment_def)
  next
    case new
    let ?f = "\<lparr>fr_num = num, fr_len = length part, fr_last = l, fr_buf = part\<rparr>"
    have "sorted_wrt (<) (map fr_num (im_saved im))" using ok by (simp add: incomplete_ok_def)
    note i = insert_fragment_ok [OF this, of ?f]
    show ?thesis using assms(1) new ok i by (auto simp: handle_fragment_def incomplete_ok_def Let_def split: prod.splits)
  qed
qed

lemma data_ok_incomplete:
  "data_ok d \<Longrightarrow> data_ok (d\<lparr>d_Incomplete := omap_erase k (d_Incomplete d)\<rparr>)"
  "data_ok d \<Longrightarrow> incomplete_ok im \<Longrightarrow> data_ok (d\<lparr>d_Incomplete := omap_put k im (d_Incomplete d)\<rparr>)"
  using set_omap_erase [of k "d_Incomplete d"] ball_omap_put [of "d_Incomplete d" incomplete_ok im k]
  by (auto simp: data_ok_def omap_put_ok omap_erase_ok)

lemma SendPeerTest_data: "SendPeerTest st = Some st' \<Longrightarrow> data_of st' = data_of st"
proof -
  have "SendPeerTest_to n a p k ta sa st = Some st' \<Longrightarrow> data_of st' = data_of st" for n a p k ta sa st st'
    by (cases st) (auto simp: SendPeerTest_to_def bind_eq_Some_conv Let_def data_of_def rnd_block_def
        split: if_splits prod.splits dest!: data_of_encrypt data_of_send [unfolded data_of_def] data_of_encrypt [unfolded data_of_def])
  then show "SendPeerTest st = Some st' \<Longrightarrow> data_of st' = data_of st"
    by (auto simp: SendPeerTest_def Let_def data_of_def split: option.splits prod.splits)
qed

lemma Established_ok:
  assumes "data_ok (data_of st)" and "Established st = Some st'"
  shows "data_ok (data_of st')"
proof -
  let ?s = "(fst st)\<lparr>s_ConfirmData := None, s_State := eSessionStateEstablished, s_DHKeysPair := None\<rparr>"
  let ?st = "upd_data SSUData_Start (?s, snd st)"
  obtain m1 m2 n st1 st2 st3 where e: "SSUData_Send m1 (fst ?st, n) = Some st1" "SSUData_Send m2 st1 = Some st2"
    "(if s_PeerTest (fst st2) \<and> (case s_RemoteRouter (fst st2) of Some r \<Rightarrow> IsPeerTesting r | None \<Rightarrow> False)
       then SendPeerTest (fst st2, emit PeerConnected (snd st2)) else Some (fst st2, emit PeerConnected (snd st2))) = Some st3"
    "st' = (ScheduleTermination (fst st3), snd st3)"
    using assms(2) by (auto simp: Established_def bind_eq_Some_conv Let_def)
  have "data_of (fst ?st, n) = SSUData_Start (data_of st)" by (simp add: data_of_def upd_data_def)
  then have "data_ok (data_of (fst ?st, n))"
    using assms(1) by (simp add: SSUData_Start_def ScheduleIncompleteMessagesCleanup_def data_ok_timer(3))
  then have "data_ok (data_of st2)" using SSUData_Send_ok e(1,2) by blast
  moreover have "data_of st3 = data_of st2"
    using e(3) by (auto simp: data_of_def dest: SendPeerTest_data [unfolded data_of_def] split: if_splits)
  ultimately show ?thesis unfolding e(4) by (simp add: data_of_def ScheduleTermination_def)
qed

lemma data_ok_received:
  assumes "data_ok d"
  shows "data_ok (d\<lparr>d_Received := List.insert k (d_Received d)\<rparr>)" "data_ok (d\<lparr>d_Received := []\<rparr>)"
    "k \<notin> set (d_Received d) \<Longrightarrow> data_ok (d\<lparr>d_Received := k # d_Received d\<rparr>)"
  using assms by (auto simp: data_ok_def)

lemma deliver_message_ok:
  assumes "data_ok (data_of st)" and "deliver_message k m st = Some st'"
  shows "data_ok (data_of st')"
proof -
  obtain st1 m1 where a: "SendMsgAck k st = Some st1" "FromSSU m k = Some m1"
    using assms(2) by (auto simp: deliver_message_def bind_eq_Some_conv)
  have d: "data_of st1 = data_of st" by (rule data_of_acks(1) [OF a(1)])
  have e: "data_of (fst x, n) = data_of x" for x :: ssu_st and n by (simp add: data_of_def)
  show ?thesis
  proof (cases "s_State (fst st1) = eSessionStateEstablished")
    case True
    let ?d = "if length (d_Received (data_of st)) > MAX_NUM_RECEIVED_MESSAGES then (data_of st)\<lparr>d_Received := []\<rparr> else ScheduleDecay (data_of st)"
    have "data_of st' = (if k \<in> set (d_Received (data_of st)) then data_of st else ?d\<lparr>d_Received := k # d_Received ?d\<rparr>)"
      using assms(2) a d True by (auto simp: deliver_message_def e Let_def)
    moreover have "data_ok (?d\<lparr>d_Received := k # d_Received ?d\<rparr>)" if "k \<notin> set (d_Received (data_of st))"
      using assms(1) that by (auto simp: data_ok_def ScheduleDecay_def)
    ultimately show ?thesis using assms(1) by (cases "k \<in> set (d_Received (data_of st))") (simp_all only: if_True if_False not_False_eq_True)
  next
    case False
    then obtain t where "GetTypeID m1 = Some t" and r: "(if t = eI2NPDeliveryStatus then Established st1
         else if t = eI2NPDatabaseStore then
           let st = upd_data (\<lambda>d. d\<lparr>d_Received := List.insert k (d_Received d)\<rparr>) st1
           in Some (fst st, emit (PutNextMessage m1) (snd st))
         else Some st1) = Some st'"
      using assms(2) a by (auto simp: deliver_message_def bind_eq_Some_conv)
    show ?thesis
      using r assms(1) d Established_ok [of st1 st'] by (auto simp: e Let_def data_ok_received(1) split: if_splits)
  qed
qed


lemma data_of_net [simp]: "data_of (fst x, n) = data_of x" for x :: ssu_st
  by (simp add: data_of_def)

lemma store_fragment_ok:
  assumes ok: "data_ok (data_of st)" and r: "store_fragment k num l part st = Some st'"
  shows "data_ok (data_of st')"
proof -
  let ?n = "snd st"
  let ?im = "case map_of (d_Incomplete (data_of st)) k of Some im \<Rightarrow> im | None \<Rightarrow> new_incomplete (n_alloc ?n (n_count ?n))"
  let ?st = "(fst st, ?n\<lparr>n_count := n_count ?n + 2 + length (im_saved ?im)\<rparr>)"
  obtain im l' where h: "handle_fragment (n_alloc ?n) (n_count ?n + 1) (now_s ?n) num l part ?im = Some (im, l')"
    and d: "(if l' then deliver_message k (im_msg im) (upd_data (\<lambda>d. d\<lparr>d_Incomplete := omap_erase k (d_Incomplete d)\<rparr>) ?st)
          else SendFragmentAck k num (upd_data (\<lambda>d. d\<lparr>d_Incomplete := omap_put k im (d_Incomplete d)\<rparr>) ?st)) = Some st'"
    using r unfolding store_fragment_def Let_def bind_eq_Some_conv by (auto split: prod.splits)
  have im0: "incomplete_ok ?im"
    using ok ball_find [of "d_Incomplete (data_of st)" incomplete_ok k]
    by (auto simp: data_ok_def new_incomplete_def incomplete_ok_def split: option.splits)
  show ?thesis
  proof (cases l')
    case True
    show ?thesis by (rule deliver_message_ok [OF _ d [unfolded if_P [OF True]]])
        (use ok in \<open>simp add: data_ok_incomplete(1)\<close>)
  next
    case False
    then have "incomplete_ok im" using handle_fragment_ok [OF _ im0] h by simp
    then show ?thesis
      using data_of_acks(2) [OF d [unfolded if_not_P [OF False]]] ok
      by (simp add: data_ok_incomplete(2))
  qed
qed

lemma process_fragments_ok:
  "data_ok (data_of st) \<Longrightarrow> process_fragments i buf st = Some st' \<Longrightarrow> data_ok (data_of st')"
proof (induction i arbitrary: buf st)
  case (Suc i)
  then show ?case
    by (auto simp: bind_eq_Some_conv Let_def dest: store_fragment_ok simp del: drop_drop split: if_splits)
qed simp

lemma ProcessMessage_ok:
  assumes "data_ok (data_of st)" and "ProcessMessage buf st = Some st'"
  shows "data_ok (data_of st')"
proof -
  have "\<exists>flag b st1. message_acks flag (drop 1 buf) st = Some (b, st1) \<and> (\<exists>b'. ProcessFragments b' st1 = Some st')"
    using assms(2) unfolding ProcessMessage_def bind_eq_Some_conv by (auto split: if_splits simp: bind_eq_Some_conv simp del: drop_drop) blast+
  then obtain flag b st1 where m: "message_acks flag (drop 1 buf) st = Some (b, st1)"
    and r: "\<exists>b'. ProcessFragments b' st1 = Some st'" by blast
  have "data_ok (data_of st1)"
    using m assms(1) by (auto simp: message_acks_def bind_eq_Some_conv dest: ProcessAcks_ok split: if_splits)
  with r show ?thesis by (auto simp: ProcessFragments_def bind_eq_Some_conv dest: process_fragments_ok)
qed

lemma omap_ok_Cons: "omap_ok ((k, v) # m) \<longleftrightarrow> (\<forall>k' \<in> fst ` set m. k < k') \<and> omap_ok m"
  by (auto simp: omap_ok_def)

lemma resend_messages_ok:
  assumes "resend_messages ts m st = Some (m', st')"
  shows "data_of st' = data_of st \<and> ((\<forall>kv \<in> set m. sent_ok (snd kv)) \<longrightarrow> (\<forall>kv \<in> set m'. sent_ok (snd kv))) \<and>
    fst ` set m' \<subseteq> fst ` set m \<and> (omap_ok m \<longrightarrow> omap_ok m')"
  using assms
proof (induction ts m st arbitrary: m' st' rule: resend_messages.induct)
  case (2 ts k sent rest st)
  consider (resend) "ts \<ge> sm_nextResend sent" "sm_numResends sent < MAX_NUM_RESENDS" |
    (drop) "ts \<ge> sm_nextResend sent" "\<not> sm_numResends sent < MAX_NUM_RESENDS" | (keep) "\<not> ts \<ge> sm_nextResend sent" by blast
  then show ?case
  proof cases
    case resend
    let ?s = "sent\<lparr>sm_numResends := sm_numResends sent + 1,
      sm_nextResend := sm_nextResend sent + word_of_nat (sm_numResends sent + 1) * RESEND_INTERVAL\<rparr>"
    obtain st1 r where a: "resend_fragments (sm_fragments sent) st = Some st1" "resend_messages ts rest st1 = Some (r, st')"
      "m' = (k, ?s) # r"
      using "2.prems" resend by (auto simp: bind_eq_Some_conv Let_def)
    have "sent_ok ?s" using resend(2) by (simp add: sent_ok_def)
    note IH = "2.IH"(1) [OF resend a(1) refl refl a(2)]
    have "omap_ok ((k, sent) # rest) \<longrightarrow> omap_ok m'" unfolding a(3) using IH by (auto simp only: omap_ok_Cons)
    then show ?thesis using IH data_of_resend_fragments [OF a(1)] \<open>sent_ok ?s\<close> unfolding a(3) by auto
  next
    case drop
    then have "resend_messages ts rest st = Some (m', st')" using "2.prems" by simp
    from "2.IH"(2) [OF drop this] show ?thesis by (auto simp: omap_ok_Cons)
  next
    case keep
    then obtain r where a: "resend_messages ts rest st = Some (r, st')" "m' = (k, sent) # r"
      using "2.prems" by (auto simp: bind_eq_Some_conv)
    note IH = "2.IH"(3) [OF keep a(1)]
    have "omap_ok ((k, sent) # rest) \<longrightarrow> omap_ok m'" unfolding a(2) using IH by (auto simp only: omap_ok_Cons)
    then show ?thesis using IH unfolding a(2) by auto
  qed
qed simp

lemma omap_ok_filter: "omap_ok m \<Longrightarrow> omap_ok (filter P m)"
  by (induction m) (auto simp: omap_ok_def)

text \<open>Without the handlers, which the expiry of the timer takes off.\<close>

definition data_ok' :: "ssu_data \<Rightarrow> bool" where
  "data_ok' d \<longleftrightarrow> data_ok (ScheduleResend d)"

lemma HandleResendTimer_ok:
  assumes "data_ok' (data_of st)" and "HandleResendTimer st = Some st'"
  shows "data_ok (data_of st')" "d_ResendTimer (data_of st') = [WaitResend]"
proof -
  obtain m st1 where a: "resend_messages (now_s (snd st)) (d_Sent (data_of st)) st = Some (m, st1)"
    "st' = upd_data (\<lambda>d. ScheduleResend (d\<lparr>d_Sent := m\<rparr>)) st1"
    using assms(2) by (auto simp: HandleResendTimer_def bind_eq_Some_conv)
  show "data_ok (data_of st')" "d_ResendTimer (data_of st') = [WaitResend]"
    unfolding a(2) using assms(1) resend_messages_ok [OF a(1)]
    by (simp_all add: data_ok'_def data_ok_def ScheduleResend_def)
qed

lemma ResendTimer_expires_ok:
  assumes "data_ok (data_of st)" and "ResendTimer_expires st = Some st'"
  shows "data_ok (data_of st')"
proof -
  have gen: "run_waiters ws s = Some s' \<Longrightarrow> count_list ws WaitResend \<le> 1 \<Longrightarrow>
      (if WaitResend \<in> set ws then data_ok' (data_of s) else data_ok (data_of s)) \<Longrightarrow> data_ok (data_of s')" for ws s s'
  proof (induction ws s rule: run_waiters.induct)
    case (2 ws s)
    then obtain s1 where s1: "HandleResendTimer s = Some s1" "run_waiters ws s1 = Some s'" by (auto simp: bind_eq_Some_conv)
    have "data_ok (data_of s1)" by (rule HandleResendTimer_ok(1) [OF _ s1(1)]) (use "2.prems"(3) in simp)
    moreover have "WaitResend \<notin> set ws" using "2.prems"(2) by (simp add: count_list_0_iff)
    ultimately show ?case using "2.IH" [OF s1(1,2)] "2.prems"(2) by simp
  next
    case (3 ws s)
    have "data_ok' d \<Longrightarrow> data_ok' (HandleDecayTimer d)" "data_ok d \<Longrightarrow> data_ok (HandleDecayTimer d)" for d
      by (auto simp: HandleDecayTimer_def data_ok'_def data_ok_def ScheduleResend_def)
    then show ?case using 3 by (auto split: if_splits)
  qed simp
  let ?st = "upd_data (\<lambda>d. d\<lparr>d_ResendTimer := []\<rparr>) st"
  have "run_waiters (d_ResendTimer (data_of st)) ?st = Some st'" using assms(2) by (simp add: ResendTimer_expires_def)
  then show ?thesis
    by (rule gen) (use assms(1) in \<open>auto simp: data_ok_def data_ok'_def ScheduleResend_def\<close>)
qed

lemma cleanup_ok: "data_ok d \<Longrightarrow> data_ok (HandleIncompleteMessagesCleanupTimer ts d)"
  by (auto simp: HandleIncompleteMessagesCleanupTimer_def ScheduleIncompleteMessagesCleanup_def data_ok_def omap_ok_filter)

section \<open>Steps\<close>

text \<open>Everything that happens to an \<open>SSUData\<close> until its session is closed; the clock moves freely.\<close>

inductive ssu_data_step :: "ssu_st \<Rightarrow> ssu_st \<Rightarrow> bool" where
  send: "SSUData_Send m st = Some st' \<Longrightarrow> ssu_data_step st st'"
| receive: "ProcessMessage buf st = Some st' \<Longrightarrow> ssu_data_step st st'"
| resend: "ResendTimer_expires st = Some st' \<Longrightarrow> ssu_data_step st st'"
| cleanup: "ssu_data_step st (upd_data (HandleIncompleteMessagesCleanupTimer (now_s (snd st))) st)"
| packet_size: "ssu_data_step st (UpdatePacketSize ident st)"
| clock: "ssu_data_step st (fst st, (snd st)\<lparr>n_env := (n_env (snd st))\<lparr>se_now := t\<rparr>\<rparr>)"

inductive_cases ssu_data_stepE: "ssu_data_step st st'"

lemma ssu_data_step_ok: "ssu_data_step st st' \<Longrightarrow> data_ok (data_of st) \<Longrightarrow> data_ok (data_of st')"
  by (erule ssu_data_stepE)
    (erule SSUData_Send_ok ProcessMessage_ok ResendTimer_expires_ok, assumption |
     simp add: cleanup_ok UpdatePacketSize_def data_ok_Adjust split: option.splits)+

lemma data_ok_facts:
  assumes "data_ok d"
  shows "\<forall>(k, m) \<in> set (d_Sent d). sm_numResends m \<le> 5"
    "\<forall>(k, im) \<in> set (d_Incomplete d). sorted_wrt (<) (map fr_num (im_saved im)) \<and> (\<forall>f \<in> set (im_saved im). im_next im < fr_num f)"
    "distinct (map fst (d_Sent d))" "distinct (map fst (d_Incomplete d))" "distinct (d_Received d)"
    "d_Sent d \<noteq> [] \<longrightarrow> count_list (d_ResendTimer d) WaitResend = 1"
proof -
  show "\<forall>(k, m) \<in> set (d_Sent d). sm_numResends m \<le> 5"
    using assms by (auto simp: data_ok_def sent_ok_def MAX_NUM_RESENDS_def)
  show "\<forall>(k, im) \<in> set (d_Incomplete d). sorted_wrt (<) (map fr_num (im_saved im)) \<and> (\<forall>f \<in> set (im_saved im). im_next im < fr_num f)"
    using assms by (auto simp: data_ok_def incomplete_ok_def)
  show "distinct (map fst (d_Sent d))" "distinct (map fst (d_Incomplete d))"
    using assms omap_distinct [of "d_Sent d"] omap_distinct [of "d_Incomplete d"] by (simp_all add: data_ok_def)
  show "distinct (d_Received d)" using assms by (simp add: data_ok_def)
  have "WaitResend \<in> set ws \<Longrightarrow> count_list ws WaitResend \<noteq> 0" for ws by (simp add: count_list_0_iff)
  then show "d_Sent d \<noteq> [] \<longrightarrow> count_list (d_ResendTimer d) WaitResend = 1"
    using assms unfolding data_ok_def by (metis le_neq_implies_less less_one)
qed



text \<open>A session and its surroundings for the examples.\<close>

definition test_net :: ssu_net where
  "test_net = \<lparr>n_env = test_ssu_env, n_i2np = sample_env, n_garbage = 170, n_rnd16 = (\<lambda>k. replicate 16 (word_of_nat k)),
     n_rnd32 = (\<lambda>k. word_of_nat k + 1), n_alloc = id, n_dh = (\<lambda>k. \<lparr>dh_publicKey = replicate 256 (word_of_nat k), dh_privateKey = replicate 256 2\<rparr>),
     n_count = 0, n_agree = (\<lambda>priv pub. Some (map2 (XOR) priv pub)), n_sigs = toy_sig_env, n_rienv = toy_ri_env,
     n_ctx = \<lparr>rc_ri = sample_ri, rc_keys = \<lparr>pk_public = fresh_identity, pk_privateKey = replicate 256 1, pk_signingKey = replicate 1024 9, pk_signer = Some (DSA, replicate 20 9)\<rparr>,
       rc_lastUpdate = 0, rc_acceptsTunnels = True, rc_isFloodfill = False, rc_startupTime = 0, rc_status = eRouterStatusTesting\<rparr>,
     n_netdb = (\<lambda>_. None), n_out = [], n_sessions = [], n_relays = (\<lambda>_. None), n_peerTests = [],
     n_introducers = []\<rparr>"

definition test_session :: ssu_session where
  "test_session = \<lparr>s_RemoteRouter = None, s_RemoteIdentity = fresh_identity, s_DHKeysPair = None, s_NumSentBytes = 0,
     s_NumReceivedBytes = 0, s_RemoteEndpoint = (V4 [10, 0, 0, 9], 4000), s_Timer = None, s_PeerTest = False,
     s_State = eSessionStateEstablished, s_IsSessionKey = True, s_RelayTag = 0, s_SessionKey = replicate 32 1,
     s_MacKey = replicate 32 5, s_CreationTime = 50, s_Data = SSUData_new False None, s_ConfirmData = None, s_IsDataReceived = False\<rparr>"


end
