(* ===== verification/SSU_Wire.thy ===== *)
theory SSU_Wire
  imports SSU_Server SSU_DataProps
begin

text \<open>
  SSU packets between two routers: what a sealed packet is to the peer that holds the keys, how
  \<open>ProcessNextMessage\<close> dispatches it, and what the code does with packets that no key opens.
\<close>


section \<open>Packets as the peer sees them\<close>

text \<open>
  \<open>pkt\<close> is a datagram that whoever holds the keys accepts, in whatever buffer it arrives, and that
  then reads as a packet of type \<open>t\<close> with this body.
\<close>

definition carries :: "aes_env \<Rightarrow> (bytes \<Rightarrow> bytes) \<Rightarrow> bytes \<Rightarrow> bytes \<Rightarrow> byte \<Rightarrow> bytes \<Rightarrow> bytes \<Rightarrow> bool" where
  "carries aes md5 key mac t body pkt \<longleftrightarrow> length pkt = 37 + length body \<and>
     (\<forall>env r. se_aes env = aes \<and> se_md5 env = md5 \<and> packet_size (length pkt) r \<and> take (length pkt) r = pkt \<longrightarrow>
       (\<exists>r1 r2. ssu_Validate env r (length pkt) mac = Some (r1, True) \<and> ssu_Decrypt env r1 (length pkt) key = Some r2 \<and>
          DecryptSessionKey env key r1 (length pkt) = Some r2 \<and> length r2 = length r \<and>
          take 16 (drop 16 r2) = take 16 (drop 16 pkt) \<and>
          pkt_Flag (SSUSessionPacket r2 (length pkt)) = Some (push_bit 4 t) \<and> take (length body) (drop 37 r2) = body))"

lemma window_take_drop: "window b i n = take n (drop i b)"
  by (simp add: window_def)

lemma mem_write_front: "mem_write buf i x = Some b \<Longrightarrow> n \<le> i \<Longrightarrow> take n b = take n buf"
  by (auto simp: mem_write_def min_def split: if_splits)

lemma ssu_Validate_front:
  assumes "ssu_Validate env r len mac = Some (r', ok)" and "n \<le> len"
  shows "take n r' = take n r"
proof (cases "len < SSU_HEADER_SIZE_MIN")
  case False
  then obtain iv b1 where "mem_write r len iv = Some b1" "htobe16buf b1 (len + 16) (word_of_nat (len - 32)) = Some r'"
    using assms(1) by (auto simp: ssu_Validate_def Let_def bind_eq_Some_conv)
  then show ?thesis using assms(2) mem_write_front by (metis htobe16buf_mem_write trans_le_add1)
qed (use assms in \<open>simp add: ssu_Validate_def\<close>)

lemma ssu_Decrypt_front:
  assumes "ssu_Decrypt env r len key = Some r'"
  shows "take 32 r' = take 32 r"
proof (cases "len < SSU_HEADER_SIZE_MIN")
  case False
  then obtain x where "mem_write r 32 x = Some r'"
    using assms by (auto simp: ssu_Decrypt_def Let_def bind_eq_Some_conv)
  then show ?thesis by (rule mem_write_front) simp
qed (use assms in \<open>simp add: ssu_Decrypt_def\<close>)

lemma FillHeaderAndEncrypt_carries:
  assumes env: "ssu_env_ok env" and iv: "length iv = 16" and mac: "length mac = 32" and size: "packet_size len buf"
    and b: "FillHeaderAndEncrypt env t buf len key iv mac = Some b"
  shows "carries (se_aes env) (se_md5 env) key mac t (take (len - 37) (drop 37 buf)) (take len b) \<and> take 16 (drop 16 b) = iv"
proof -
  have s: "37 \<le> len" "len + 18 \<le> length buf" "len \<le> 1998" using size by (auto simp: packet_size_def)
  obtain d where d: "length d = 16" "length b = length buf"
    "window b 0 (len + 18) = d @ iv @ tag_input (sealed_part env key iv (plain_part env t buf len)) iv"
    using FillHeaderAndEncrypt_sealed [OF env iv mac size, of t key] b by (metis option.inject)
  have iv': "take 16 (drop 16 b) = iv"
  proof -
    have "take 16 (drop 16 (window b 0 (len + 18))) = iv" unfolding d(3) using d(1) iv by simp
    then show ?thesis using s by (simp add: window_take_drop drop_take min_def split: if_splits)
  qed
  have l: "length (take len b) = len" "length (take (len - 37) (drop 37 buf)) = len - 37" using s d(2) by simp_all
  have "\<exists>r1 r2. ssu_Validate env' r len mac = Some (r1, True) \<and> ssu_Decrypt env' r1 len key = Some r2 \<and>
      DecryptSessionKey env' key r1 len = Some r2 \<and> length r2 = length r \<and> take 16 (drop 16 r2) = iv \<and>
      pkt_Flag (SSUSessionPacket r2 len) = Some (push_bit 4 t) \<and> take (len - 37) (drop 37 r2) = take (len - 37) (drop 37 buf)"
    if e: "se_aes env' = se_aes env" "se_md5 env' = se_md5 env" and p: "packet_size len r" "take len r = take len b" for env' r
  proof -
    have "window r 0 len = window b 0 len" using p(2) by (simp add: window_take_drop)
    from sealed_packet_opens [OF env iv mac size p(1) b this] obtain r1 r2 where
      r: "ssu_Validate env r len mac = Some (r1, True)" "ssu_Decrypt env r1 len key = Some r2"
      "DecryptSessionKey env key r1 len = Some r2" "length r1 = length r" "length r2 = length r"
      "window r2 32 (len - 32) = plain_part env t buf len" .
    have p2: "packet_size len r2" using p(1) r(5) by (simp add: packet_size_def)
    have "take 16 (drop 16 r2) = iv"
    proof -
      have 1: "take 32 r1 = take 32 r" by (rule ssu_Validate_front [OF r(1)]) (use s in simp)
      have 2: "take 32 r2 = take 32 r1" by (rule ssu_Decrypt_front [OF r(2)])
      have "take 32 (take len r) = take 32 (take len b)" using p(2) by simp
      then have 3: "take 32 r = take 32 b" using s by (simp add: min_def)
      have "take 16 (drop 16 r2) = drop 16 (take 32 r2)" by (simp add: drop_take)
      also have "\<dots> = drop 16 (take 32 b)" using 1 2 3 by simp
      also have "\<dots> = iv" using iv' by (simp add: drop_take)
      finally show ?thesis .
    qed
    moreover have "ssu_Validate env' = ssu_Validate env" "ssu_Decrypt env' = ssu_Decrypt env" "DecryptSessionKey env' = DecryptSessionKey env"
      by (intro ext; simp add: ssu_Validate_def ssu_Decrypt_def DecryptSessionKey_def e Let_def)+
    ultimately show ?thesis
      using r plain_part_reads(1,3) [OF p2 r(6)] unfolding window_take_drop by metis
  qed
  moreover have "take 16 (drop 16 (take len b)) = iv"
  proof -
    have "16 \<le> len - 16" using s by simp
    then show ?thesis using iv' by (simp add: drop_take min_def)
  qed
  ultimately show ?thesis
    using iv' s unfolding carries_def l by simp
qed

lemma parse_plain:
  assumes "pkt_Flag p = Some (push_bit 4 t)"
  shows "ParseHeader p = Some (p\<lparr>pkt_headerlen := 37, pkt_body := 37, pkt_bodylen := size_sub (pkt_datalen p) 37\<rparr>, True)"
proof -
  have "push_bit 4 t AND 0x08 = 0" "push_bit 4 t AND 0x04 = 0"
    by (rule bit_word_eqI; simp add: bit_simps; auto simp: less_Suc_eq numeral_eq_Suc)+
  then show ?thesis using assms
    by (simp add: ParseHeader_def ComputeHeaderSize_def pkt_Rekey_def pkt_HasExtendedOptions_def i2np_consts Let_def)
qed


section \<open>Dispatch\<close>

definition plain_packet :: "bytes \<Rightarrow> nat \<Rightarrow> ssu_packet" where
  "plain_packet r len = \<lparr>pkt_data = r, pkt_datalen = len, pkt_headerlen = 37, pkt_body = 37, pkt_bodylen = len - 37\<rparr>"

text \<open>What the arrival of a packet changes before it is looked at.\<close>

definition arrived :: "nat \<Rightarrow> nat \<Rightarrow> ssu_world \<Rightarrow> ssu_world" where
  "arrived a len w = upd_session a (\<lambda>s. (if s_State s = eSessionStateEstablished then ScheduleTermination else id)
     (s\<lparr>s_NumReceivedBytes := s_NumReceivedBytes s + len\<rparr>)) w"

lemma arrived_simps [simp]: "snd (arrived a len w) = snd w" "b \<noteq> a \<Longrightarrow> fst (arrived a len w) b = fst w b"
  "s_RemoteRouter (fst (arrived a len w) a) = s_RemoteRouter (fst w a)"
  "s_RemoteIdentity (fst (arrived a len w) a) = s_RemoteIdentity (fst w a)"
  "s_DHKeysPair (fst (arrived a len w) a) = s_DHKeysPair (fst w a)"
  "s_NumSentBytes (fst (arrived a len w) a) = s_NumSentBytes (fst w a)"
  "s_RemoteEndpoint (fst (arrived a len w) a) = s_RemoteEndpoint (fst w a)"
  "s_PeerTest (fst (arrived a len w) a) = s_PeerTest (fst w a)"
  "s_State (fst (arrived a len w) a) = s_State (fst w a)"
  "s_IsSessionKey (fst (arrived a len w) a) = s_IsSessionKey (fst w a)"
  "s_RelayTag (fst (arrived a len w) a) = s_RelayTag (fst w a)"
  "s_SessionKey (fst (arrived a len w) a) = s_SessionKey (fst w a)"
  "s_MacKey (fst (arrived a len w) a) = s_MacKey (fst w a)"
  "s_CreationTime (fst (arrived a len w) a) = s_CreationTime (fst w a)"
  "s_Data (fst (arrived a len w) a) = s_Data (fst w a)"
  "s_ConfirmData (fst (arrived a len w) a) = s_ConfirmData (fst w a)"
  "s_IsDataReceived (fst (arrived a len w) a) = s_IsDataReceived (fst w a)"
  by (simp_all add: arrived_def upd_session_def ScheduleTermination_def)

lemma open_packet_arrived: "open_packet buf len (fst (arrived a l w) a, n) = open_packet buf len (fst w a, n)"
proof -
  have "GetIntroKey (fst (arrived a l w) a, n) = GetIntroKey (fst w a, n)" by (simp add: GetIntroKey_def)
  then show ?thesis unfolding open_packet_def prod.case arrived_simps by (simp only:)
qed

lemma ProcessDecryptedMessage_plain:
  assumes "pkt_Flag (SSUSessionPacket r len) = Some (push_bit 4 t)" and "t < 16" and "48 \<le> len"
  shows "ProcessDecryptedMessage a r len sender w = process_payload a t (plain_packet r (len - len mod 16)) sender w"
proof -
  let ?l = "len - len mod 16"
  have l: "48 \<le> ?l" using whole_blocks_ge [of 3 len] assms(3) by simp
  have f: "pkt_Flag (SSUSessionPacket r ?l) = Some (push_bit 4 t)"
    using assms(1) by (simp add: pkt_Flag_def SSUSessionPacket_def)
  have t: "drop_bit 4 (push_bit 4 t) = t"
  proof (rule byte_bits_eqI)
    fix n :: nat assume n: "n \<in> {0, 1, 2, 3, 4, 5, 6, 7}"
    have "unat t < 2 ^ 4" using assms(2) by (simp add: word_less_nat_alt)
    then have "take_bit 4 t = t" by (metis take_bit_nat_eq_self unsigned_take_bit_eq word_unat_eq_iff)
    then have "\<not> bit t k" if "4 \<le> k" for k using that by (metis bit_take_bit_iff leD)
    then show "bit (drop_bit 4 (push_bit 4 t)) n = bit t n"
      using n by (auto simp: bit_simps dest: bit_imp_le_length)
  qed
  show ?thesis using l parse_plain [OF f] f t
    by (simp add: ProcessDecryptedMessage_def Let_def GetPayloadType_def SSU_HEADER_SIZE_MIN_def pkt_Flag_def
        SSUSessionPacket_def plain_packet_def size_sub_def)
qed

lemma ProcessNextMessage_open:
  assumes "s_State (fst w a) \<noteq> eSessionStateIntroduced" and "0 < len"
    and "open_packet buf len (fst w a, snd w) = Some (Process r)"
  shows "ProcessNextMessage a buf len sender w = ProcessDecryptedMessage a r len sender (arrived a len w)"
proof -
  let ?w = "upd_session a (\<lambda>s. s\<lparr>s_NumReceivedBytes := s_NumReceivedBytes s + len\<rparr>) w"
  have o: "open_packet buf len (fst (arrived a len w) a, snd w) = Some (Process r)"
    using assms(3) by (simp only: open_packet_arrived)
  have "(if s_State (fst ?w a) = eSessionStateEstablished then upd_session a ScheduleTermination ?w else ?w) = arrived a len w"
    by (auto simp: arrived_def upd_session_def)
  then show ?thesis using assms(1,2) o
    by (simp add: ProcessNextMessage_def Let_def) (simp add: upd_session_def)
qed

text \<open>A packet sealed with the session keys, or, before there are any, with the intro key.\<close>

lemma carried_dispatch:
  assumes c: "carries (se_aes (n_env (snd w))) (se_md5 (n_env (snd w))) key mac t body pkt" and t: "t < 16" and b: "11 \<le> length body"
    and r: "packet_size (length pkt) r" "take (length pkt) r = pkt"
    and st: "s_State (fst w a) \<noteq> eSessionStateIntroduced"
    and keys: "if s_IsSessionKey (fst w a) then key = s_SessionKey (fst w a) \<and> mac = s_MacKey (fst w a)
      else GetIntroKey (fst w a, snd w) = Some key \<and> mac = key"
  obtains r2 where "ProcessNextMessage a r (length pkt) sender w =
      process_payload a t (plain_packet r2 (length pkt - length pkt mod 16)) sender (arrived a (length pkt) w)"
    "length r2 = length r" "take (length body) (drop 37 r2) = body" "take 16 (drop 16 r2) = take 16 (drop 16 pkt)"
proof -
  have l: "length pkt = 37 + length body" using c by (simp add: carries_def)
  obtain r1 r2 where o: "ssu_Validate (n_env (snd w)) r (length pkt) mac = Some (r1, True)"
    "ssu_Decrypt (n_env (snd w)) r1 (length pkt) key = Some r2" "DecryptSessionKey (n_env (snd w)) key r1 (length pkt) = Some r2"
    "length r2 = length r" "take 16 (drop 16 r2) = take 16 (drop 16 pkt)"
    "pkt_Flag (SSUSessionPacket r2 (length pkt)) = Some (push_bit 4 t)" "take (length body) (drop 37 r2) = body"
    using c r unfolding carries_def by blast
  have "open_packet r (length pkt) (fst w a, snd w) = Some (Process r2)"
    using o(1-3) keys by (simp add: open_packet_def split: if_splits)
  from ProcessNextMessage_open [OF st _ this, of sender]
  have "ProcessNextMessage a r (length pkt) sender w = ProcessDecryptedMessage a r2 (length pkt) sender (arrived a (length pkt) w)"
    using l by simp
  also have "\<dots> = process_payload a t (plain_packet r2 (length pkt - length pkt mod 16)) sender (arrived a (length pkt) w)"
    by (rule ProcessDecryptedMessage_plain [OF o(6) t]) (use l b in simp)
  finally show thesis using that o(4,5,7) by blast
qed


section \<open>Sealing with the session key\<close>

definition net_ok :: "ssu_net \<Rightarrow> bool" where
  "net_ok n \<longleftrightarrow> ssu_env_ok (n_env n) \<and> (\<forall>k. length (n_rnd16 n k) = 16)"

lemma net_ok_upd [simp]: "net_ok (n\<lparr>n_count := c\<rparr>) = net_ok n" "net_ok (emit e n) = net_ok n"
  "net_ok (n\<lparr>n_sessions := m\<rparr>) = net_ok n"
  by (simp_all add: net_ok_def emit_def)

lemma session_encrypt_carries:
  assumes "net_ok n" and "length (s_MacKey s) = 32" and "packet_size len buf"
  obtains b where "session_encrypt t buf len (s, n) = Some (b, (s, n\<lparr>n_count := n_count n + 1\<rparr>))" "length b = length buf"
    "carries (se_aes (n_env n)) (se_md5 (n_env n)) (s_SessionKey s) (s_MacKey s) t (take (len - 37) (drop 37 buf)) (take len b)"
proof -
  let ?iv = "n_rnd16 n (n_count n)"
  have ok: "ssu_env_ok (n_env n)" "length ?iv = 16" using assms(1) by (simp_all add: net_ok_def)
  obtain b where b: "FillHeaderAndEncrypt (n_env n) t buf len (s_SessionKey s) ?iv (s_MacKey s) = Some b"
    "FillHeaderAndEncrypt_session (n_env n) (s_SessionKey s) (s_MacKey s) ?iv t buf len = Some b" "length b = length buf"
    using FillHeaderAndEncrypt_sealed [OF ok assms(2,3), of t "s_SessionKey s"] by metis
  have "\<not> len < SSU_HEADER_SIZE_MIN" using assms(3) by (simp add: packet_size_def SSU_HEADER_SIZE_MIN_def)
  then have "session_encrypt t buf len (s, n) = Some (b, (s, n\<lparr>n_count := n_count n + 1\<rparr>))"
    using b(2) by (simp add: session_encrypt_def rnd_block_def Let_def)
  then show thesis using that b(3) FillHeaderAndEncrypt_carries [OF ok assms(2,3) b(1)] by blast
qed

lemma session_send_defined:
  "len \<le> length buf \<Longrightarrow> session_send buf len (s, n) =
     Some (s\<lparr>s_NumSentBytes := s_NumSentBytes s + len\<rparr>, emit (SendTo (take len buf) (s_RemoteEndpoint s)) n)"
  by (simp add: session_send_def mem_read_def)

text \<open>A session that is deleted says so to its peer, closes, and leaves the table.\<close>

lemma DeleteSession_defined:
  assumes "net_ok n" and "length (s_MacKey s) = 32"
  obtains s' n' where "DeleteSession (s, n) = Some (s', n')" "s_State s' = eSessionStateClosed" "s_Timer s' = None"
    "s_RemoteEndpoint s' = s_RemoteEndpoint s" "n_sessions n' = omap_erase (s_RemoteEndpoint s) (n_sessions n)"
    "d_ResendTimer (s_Data s') = []"
proof -
  let ?s = "s\<lparr>s_State := eSessionStateClosed\<rparr>"
  have "\<exists>s1 n1. SendSesionDestroyed (?s, n) = Some (s1, n1) \<and> s_State s1 = eSessionStateClosed \<and>
    s_RemoteEndpoint s1 = s_RemoteEndpoint s \<and> n_sessions n1 = n_sessions n"
  proof (cases "s_IsSessionKey s")
    case True
    have "packet_size 48 (replicate 66 0 :: bytes)" by (simp add: packet_size_def)
    then obtain b where b: "session_encrypt PAYLOAD_TYPE_SESSION_DESTROYED (replicate 66 0) 48 (?s, n) = Some (b, (?s, n\<lparr>n_count := n_count n + 1\<rparr>))"
      "length b = 66"
      using session_encrypt_carries [OF assms(1), of ?s 48 "replicate 66 0" PAYLOAD_TYPE_SESSION_DESTROYED] assms(2) by auto
    show ?thesis using True b by (simp add: SendSesionDestroyed_def session_send_defined emit_def)
  qed (simp add: SendSesionDestroyed_def)
  then obtain s1 n1 where d: "SendSesionDestroyed (?s, n) = Some (s1, n1)" and f: "s_State s1 = eSessionStateClosed"
    "s_RemoteEndpoint s1 = s_RemoteEndpoint s" "n_sessions n1 = n_sessions n" by blast
  have "\<exists>s' n'. DeleteSession (s, n) = Some (s', n') \<and> s_State s' = eSessionStateClosed \<and> s_Timer s' = None \<and>
    s_RemoteEndpoint s' = s_RemoteEndpoint s \<and> n_sessions n' = omap_erase (s_RemoteEndpoint s) (n_sessions n) \<and>
    d_ResendTimer (s_Data s') = []"
    using d f by (simp add: DeleteSession_def SSUSession_Close_def upd_data_def emit_def SSUData_Stop_def)
  then show thesis using that by blast
qed

section \<open>Packets that no key opens\<close>



text \<open>Sixty-six bytes, forty-eight of them the packet, with a MAC that is not the digest.\<close>

definition forged_destroy :: bytes where "forged_destroy = replicate 32 0 @ [0x80] @ replicate 33 0"


end
