(* ===== verification/SSU_Handshake.thy ===== *)
theory SSU_Handshake
  imports SSU_Wire
begin

text \<open>
  The SSU handshake between two routers: what each of its three packets carries, and what the side
  that receives it makes of it. The routers share the algorithms (AES, MD5, SHA-256, Diffie-Hellman,
  the signature schemes); each has its own state, clock and random bytes.
\<close>


section \<open>Sealed packets\<close>

lemma write_mid: "length B' = length B \<Longrightarrow> i = length A \<Longrightarrow> mem_write (A @ B @ C) i B' = Some (A @ B' @ C)"
  by (simp add: mem_write_patch patch_def)

lemma read_mid: "n = length B \<Longrightarrow> i = length A \<Longrightarrow> mem_read (A @ B @ C) i n = Some B"
  by (simp add: mem_read_def)

text \<open>A buffer with a payload behind the header.\<close>

definition packet_buf :: "nat \<Rightarrow> bytes \<Rightarrow> bytes" where
  "packet_buf sz payload = replicate 37 0 @ payload @ replicate (sz - 37 - length payload) 0"

lemma write_packet_buf: "37 + length payload \<le> sz \<Longrightarrow> mem_write (replicate sz 0) SSU_HEADER_SIZE_MIN payload = Some (packet_buf sz payload)"
  by (simp add: mem_write_patch patch_def packet_buf_def SSU_HEADER_SIZE_MIN_def)

lemma length_packet_buf [simp]: "37 + length payload \<le> sz \<Longrightarrow> length (packet_buf sz payload) = sz"
  by (simp add: packet_buf_def)

lemma body_packet_buf: "37 + length payload \<le> len \<Longrightarrow> len \<le> sz \<Longrightarrow>
    take (len - 37) (drop 37 (packet_buf sz payload)) = payload @ replicate (len - 37 - length payload) 0"
  by (simp add: packet_buf_def min_def)

abbreviation net_carries :: "ssu_net \<Rightarrow> bytes \<Rightarrow> bytes \<Rightarrow> byte \<Rightarrow> bytes \<Rightarrow> bytes \<Rightarrow> bool" where
  "net_carries n \<equiv> carries (se_aes (n_env n)) (se_md5 (n_env n))"

lemma sealed_carries:
  assumes "net_ok n" and "length iv = 16" and "length key = 32" and "length mac = 32"
    and "37 + length payload \<le> len" and "len \<le> sz" and "len \<le> 1998"
  obtains b where "sealed t sz payload len key iv mac n = Some b" "length b = sz + 18"
    "net_carries n key mac t (payload @ replicate (len - 37 - length payload) 0) (take len b)"
proof -
  have e: "ssu_env_ok (n_env n)" using assms(1) by (simp add: net_ok_def)
  have size: "packet_size len (packet_buf (sz + 18) payload)" using assms(5-7) by (simp add: packet_size_def)
  obtain b where b: "FillHeaderAndEncrypt (n_env n) t (packet_buf (sz + 18) payload) len key iv mac = Some b"
    "length b = length (packet_buf (sz + 18) payload)"
    by (rule FillHeaderAndEncrypt_sealed [OF e assms(2,4) size, of t key])
  have "mem_read key 0 32 = Some key" "mem_read mac 0 32 = Some mac" using assms(3,4) by (simp_all add: mem_read_def)
  then have "sealed t sz payload len key iv mac n = Some b"
    using b(1) assms(5,6) by (simp add: sealed_def write_packet_buf)
  moreover have "length b = sz + 18" using b(2) assms(5,6) by simp
  moreover have "net_carries n key mac t (payload @ replicate (len - 37 - length payload) 0) (take len b)"
    using FillHeaderAndEncrypt_carries [OF e assms(2,4) size b(1)] body_packet_buf [OF assms(5), of "sz + 18"] assms(6) by simp
  ultimately show thesis using that by blast
qed

section \<open>Session request\<close>

definition endpoint_ok :: "endpoint \<Rightarrow> bool" where
  "endpoint_ok e \<longleftrightarrow> ip_ok (fst e)"

lemma endpoint_ok_length: "endpoint_ok e \<Longrightarrow> length (ip_bytes (fst e)) = (if is_v4 (fst e) then 4 else 16)"
  by (cases "fst e") (auto simp: endpoint_ok_def)

text \<open>The net after a packet has been sealed with a fresh IV and sent.\<close>

definition sent :: "bytes \<Rightarrow> endpoint \<Rightarrow> ssu_net \<Rightarrow> ssu_net" where
  "sent pkt e n = emit (SendTo pkt e) (n\<lparr>n_count := n_count n + 1\<rparr>)"

lemma sent_simps [simp]: "n_env (sent p e n) = n_env n" "n_ctx (sent p e n) = n_ctx n" "n_i2np (sent p e n) = n_i2np n"
  "n_agree (sent p e n) = n_agree n" "n_sigs (sent p e n) = n_sigs n" "n_sessions (sent p e n) = n_sessions n"
  "n_out (sent p e n) = n_out n @ [SendTo p e]" "net_ok (sent p e n) = net_ok n" "n_rnd16 (sent p e n) = n_rnd16 n"
  by (simp_all add: sent_def emit_def net_ok_def)

lemma rnd_block_eq: "rnd_block n = (n_rnd16 n (n_count n), n\<lparr>n_count := n_count n + 1\<rparr>)"
  by (rule rnd_block_def)

lemma SendSessionRequest_sends:
  assumes "net_ok n" and "GetIntroKey (s, n) = Some ik" and "length ik = 32" and "s_DHKeysPair s = Some dh"
    and "length (dh_publicKey dh) = 256" and "endpoint_ok (s_RemoteEndpoint s)"
  obtains pkt body where "SendSessionRequest (s, n) = Some (s, sent pkt (s_RemoteEndpoint s) n)"
    "net_carries n ik ik PAYLOAD_TYPE_SESSION_REQUEST (dh_publicKey dh @ body) pkt" "length pkt \<in> {304, 320}"
proof -
  let ?e = "s_RemoteEndpoint s" and ?n = "n\<lparr>n_count := n_count n + 1\<rparr>"
  let ?len = "if is_v4 (fst ?e) then 304 else 320 :: nat"
  let ?p = "dh_publicKey dh @ [ip_size (fst ?e)] @ ip_bytes (fst ?e)"
  have l: "37 + length ?p \<le> ?len" "?len \<le> 320" "?len \<le> 1998" using assms(5) endpoint_ok_length [OF assms(6)] by simp_all
  have n: "net_ok ?n" "length (n_rnd16 n (n_count n)) = 16" using assms(1) by (simp_all add: net_ok_def)
  obtain b where b: "sealed PAYLOAD_TYPE_SESSION_REQUEST 320 ?p ?len ik (n_rnd16 n (n_count n)) ik ?n = Some b" "length b = 320 + 18"
    "net_carries ?n ik ik PAYLOAD_TYPE_SESSION_REQUEST (?p @ replicate (?len - 37 - length ?p) 0) (take ?len b)"
    by (rule sealed_carries [OF n assms(3,3) l])
  have x: "mem_read (dh_publicKey dh) 0 256 = Some (dh_publicKey dh)" using assms(5) by (simp add: mem_read_def)
  have "server_Send b ?len ?e ?n = Some (sent (take ?len b) ?e n)"
    using b(2) l(2) by (simp add: server_Send_def mem_read_def sent_def)
  then have "SendSessionRequest (s, n) = Some (s, sent (take ?len b) ?e n)"
    using assms(2,4) b(1) x by (simp add: SendSessionRequest_def rnd_block_eq)
  then show thesis
    by (rule that [of _ "[ip_size (fst ?e)] @ ip_bytes (fst ?e) @ replicate (?len - 37 - length ?p) 0"]) (use b(2,3) in auto)
qed


section \<open>Keys\<close>

lemma skip_zeros_bound: "skip_zeros i bs = Some k \<Longrightarrow> i \<le> 32 \<Longrightarrow> k \<le> 32"
  by (induction i bs rule: skip_zeros.induct) (auto split: if_splits)

lemma session_keys_length:
  assumes "session_keys sha K = Some (k, m)" and "length K = 256" and "\<forall>x. length (sha x) = 32"
  shows "length k = 32 \<and> length m = 32"
  using assms skip_zeros_bound [of 1 "drop 1 K"] by (auto simp: session_keys_def split: if_splits)

lemma CreateAESandMacKey_agrees:
  assumes "256 \<le> length pubKey" and "s_DHKeysPair s = Some dh" and "n_agree n (dh_privateKey dh) (take 256 pubKey) = Some K"
    and "session_keys (env_sha256 (n_i2np n)) K = Some (k, m)"
  shows "CreateAESandMacKey pubKey (s, n) = Some (s\<lparr>s_SessionKey := k, s_MacKey := m, s_IsSessionKey := True\<rparr>, n)"
  using assms by (simp add: CreateAESandMacKey_def mem_read_def)

section \<open>Signatures in a packet\<close>

lemma write_packet_more:
  assumes "37 + length p + length q \<le> sz"
  shows "mem_write (packet_buf sz p) (37 + length p) q = Some (packet_buf sz (p @ q))"
proof -
  have "replicate (sz - 37 - length p) 0 = replicate (length q) 0 @ replicate (sz - 37 - length (p @ q)) (0 :: byte)"
    using assms by (simp flip: replicate_add)
  then have "packet_buf sz p = (replicate 37 0 @ p) @ replicate (length q) 0 @ replicate (sz - 37 - length (p @ q)) 0"
    by (simp add: packet_buf_def)
  then show ?thesis using write_mid [of q "replicate (length q) 0" "37 + length p" "replicate 37 0 @ p"]
    by (simp add: packet_buf_def)
qed

lemma packet_buf_pad:
  assumes "37 + length p + k \<le> sz" shows "packet_buf sz (p @ replicate k 0) = packet_buf sz p"
  using assms by (simp add: packet_buf_def flip: replicate_add)

lemma read_packet_buf:
  assumes "37 + length p + length q \<le> sz" and "i = 37 + length p"
  shows "mem_read (packet_buf sz (p @ q)) i (length q) = Some q"
  using assms by (simp add: packet_buf_def mem_read_def)

lemma rewrite_packet_buf:
  assumes "37 + length p + length q \<le> sz" and "length q' = length q"
  shows "mem_write (packet_buf sz (p @ q)) (37 + length p) q' = Some (packet_buf sz (p @ q'))"
  using assms write_mid [of q' q "37 + length p" "replicate 37 0 @ p" "replicate (sz - 37 - (length p + length q)) 0"]
  by (simp add: packet_buf_def)

text \<open>A router whose private keys make signatures that its public key of kind \<open>k\<close> verifies.\<close>

definition router_signs :: "ssu_net \<Rightarrow> sig_kind \<Rightarrow> bytes \<Rightarrow> bool" where
  "router_signs n k pub \<longleftrightarrow> (\<exists>priv. signs_with (n_keys n) k priv pub \<and>
     (\<forall>m. length (sig_sign (n_sigs n) k priv m) = signature_len k \<and> sig_verify (n_sigs n) k pub m (sig_sign (n_sigs n) k priv m)))"

lemma router_signs_facts:
  assumes "router_signs n k pub"
  obtains sig where "PrivateKeys_Sign (n_sigs n) (n_keys n) m = Some sig" "length sig = signature_len k" "sig_verify (n_sigs n) k pub m sig"
    "\<exists>ix. GetSignatureLen (pk_public (n_keys n)) = Some (ix, signature_len k)"
proof -
  obtain priv where p: "signs_with (n_keys n) k priv pub" "length (sig_sign (n_sigs n) k priv m) = signature_len k"
    "sig_verify (n_sigs n) k pub m (sig_sign (n_sigs n) k priv m)"
    using assms by (auto simp: router_signs_def)
  then have "verifies_with (pk_public (n_keys n)) \<lparr>v_kind = k, v_key = pub\<rparr>" "pk_signer (n_keys n) = Some (k, priv)"
    by (simp_all add: signs_with_def)
  then show thesis using that [of "sig_sign (n_sigs n) k priv m"] p(2,3) verifies_with_lazy(3) by (simp add: PrivateKeys_Sign_def)
qed

definition sealed_signature :: "ssu_net \<Rightarrow> bytes \<Rightarrow> bytes \<Rightarrow> bytes \<Rightarrow> bytes" where
  "sealed_signature n key iv sig = snd (CBCEncryption_Encrypt_buf (aes_enc (se_aes (n_env n)) key) iv
     (sig @ replicate (padded_16 (length sig) - length sig) 0))"

lemma length_sealed_signature:
  assumes "net_ok n" and "length iv = 16"
  shows "length (sealed_signature n key iv sig) = padded_16 (length sig)"
  using cbc_buf_any [OF assms(2), of "aes_enc (se_aes (n_env n)) key" "aes_dec (se_aes (n_env n)) key"] assms(1) padded_16_ge
  by (simp add: sealed_signature_def net_ok_def ssu_env_ok_def aes_ok_inverse)

lemma open_sealed_signature:
  assumes "net_ok n" and "length iv = 16"
  shows "take (length sig) (snd (CBCDecryption_Decrypt_buf (aes_dec (se_aes (n_env n)) key) iv (sealed_signature n key iv sig))) = sig"
  using cbc_buf_any [OF assms(2), of "aes_enc (se_aes (n_env n)) key" "aes_dec (se_aes (n_env n)) key"] assms(1)
  by (simp add: sealed_signature_def net_ok_def ssu_env_ok_def aes_ok_inverse)

lemma put_signature_eq:
  assumes "router_signs n k pub" and "net_ok n" and "length iv = 16" and "37 + length p + padded_16 (signature_len k) \<le> sz"
  obtains sig where "put_signature (s, n) (packet_buf sz p) (37 + length p) m iv =
      Some (packet_buf sz (p @ sealed_signature n (s_SessionKey s) iv sig), 37 + length p + padded_16 (signature_len k))"
    "length sig = signature_len k" "sig_verify (n_sigs n) k pub m sig"
proof -
  obtain sig ix where s: "PrivateKeys_Sign (n_sigs n) (n_keys n) m = Some sig" "length sig = signature_len k"
    "sig_verify (n_sigs n) k pub m sig" "GetSignatureLen (pk_public (n_keys n)) = Some (ix, signature_len k)"
    using router_signs_facts [OF assms(1), of m] by metis
  let ?pad = "replicate (padded_16 (length sig) - length sig) (0 :: byte)"
  have ge: "length sig \<le> padded_16 (length sig)" by (rule padded_16_ge)
  have "packet_buf sz (p @ sig) = packet_buf sz (p @ sig @ ?pad)"
    using packet_buf_pad [of "p @ sig" "padded_16 (length sig) - length sig" sz] assms(4) ge s(2) by simp
  moreover have "mem_write (packet_buf sz p) (37 + length p) sig = Some (packet_buf sz (p @ sig))"
    by (rule write_packet_more) (use assms(4) ge s(2) in simp)
  moreover have "mem_read (packet_buf sz (p @ sig @ ?pad)) (37 + length p) (padded_16 (signature_len k)) = Some (sig @ ?pad)"
    using read_packet_buf [of p "sig @ ?pad" sz "37 + length p"] assms(4) ge s(2) by simp
  moreover have "mem_write (packet_buf sz (p @ sig @ ?pad)) (37 + length p) (sealed_signature n (s_SessionKey s) iv sig) =
      Some (packet_buf sz (p @ sealed_signature n (s_SessionKey s) iv sig))"
    by (rule rewrite_packet_buf) (use assms(4) ge s(2) length_sealed_signature [OF assms(2,3), of "s_SessionKey s" sig] in simp_all)
  ultimately show thesis
    by (intro that [of sig]) (use s in \<open>simp_all add: put_signature_def sealed_signature_def\<close>)
qed

section \<open>Session created\<close>

lemma new_relay_tag_simps [simp]:
  "n_env (snd (new_relay_tag e n)) = n_env n" "n_ctx (snd (new_relay_tag e n)) = n_ctx n" "n_i2np (snd (new_relay_tag e n)) = n_i2np n"
  "n_agree (snd (new_relay_tag e n)) = n_agree n" "n_sigs (snd (new_relay_tag e n)) = n_sigs n"
  "n_sessions (snd (new_relay_tag e n)) = n_sessions n" "n_out (snd (new_relay_tag e n)) = n_out n"
  "n_rnd16 (snd (new_relay_tag e n)) = n_rnd16 n" "net_ok (snd (new_relay_tag e n)) = net_ok n"
  by (simp_all add: new_relay_tag_def rnd_word_def Let_def net_ok_def)

lemma length_bytes [simp]: "length (port_bytes p) = 2" "length (word_bytes v) = 4"
  by (simp_all add: port_bytes_def word_bytes_def)

definition created_data :: "bytes \<Rightarrow> bytes \<Rightarrow> endpoint \<Rightarrow> endpoint \<Rightarrow> 32 word \<Rightarrow> bytes" where
  "created_data x y alice bob tag = x @ y @ ip_bytes (fst alice) @ port_bytes (snd alice) @
     ip_bytes (fst bob) @ port_bytes (snd bob) @ word_bytes tag"

definition created_payload :: "bytes \<Rightarrow> endpoint \<Rightarrow> 32 word \<Rightarrow> 32 word \<Rightarrow> bytes" where
  "created_payload y alice tag time = y @ [ip_size (fst alice)] @ ip_bytes (fst alice) @ port_bytes (snd alice) @
     word_bytes tag @ word_bytes time"

lemma SendSessionCreated_sends:
  assumes n: "net_ok n" and ik: "GetIntroKey (s, n) = Some ik" "length ik = 32"
    and addr: "(if session_IsV6 s then GetSSUV6Address (n_ri n) else GetSSUAddress (n_ri n) True) = Some address"
    and x: "256 \<le> length x" and dh: "s_DHKeysPair s = Some dh" "length (dh_publicKey dh) = 256"
    and e: "endpoint_ok (s_RemoteEndpoint s)" and sig: "router_signs n k pub" "signature_len k \<le> 64"
  obtains pkt iv sig where
    "SendSessionCreated x (s, n) = Some (s\<lparr>s_ConfirmData := Some (created_data (take 256 x) (dh_publicKey dh) (s_RemoteEndpoint s)
        (address_endpoint address) (fst (new_relay_tag (s_RemoteEndpoint s) n))), s_NumSentBytes := s_NumSentBytes s + length pkt\<rparr>,
        sent pkt (s_RemoteEndpoint s) (snd (new_relay_tag (s_RemoteEndpoint s) n)))"
    "net_carries n ik ik PAYLOAD_TYPE_SESSION_CREATED (created_payload (dh_publicKey dh) (s_RemoteEndpoint s)
        (fst (new_relay_tag (s_RemoteEndpoint s) n)) (now_s n) @ sealed_signature n (s_SessionKey s) iv sig) pkt"
    "take 16 (drop 16 pkt) = iv" "length iv = 16" "length sig = signature_len k" "length pkt \<le> 384"
    "sig_verify (n_sigs n) k pub (created_data (take 256 x) (dh_publicKey dh) (s_RemoteEndpoint s)
        (address_endpoint address) (fst (new_relay_tag (s_RemoteEndpoint s) n)) @ word_bytes (now_s n)) sig"
proof -
  let ?e = "s_RemoteEndpoint s"
  let ?tag = "fst (new_relay_tag ?e n)" and ?n = "snd (new_relay_tag ?e n)"
  let ?n1 = "?n\<lparr>n_count := n_count ?n + 1\<rparr>" and ?iv = "n_rnd16 n (n_count ?n)"
  let ?y = "dh_publicKey dh" and ?p = "created_payload (dh_publicKey dh) ?e ?tag (now_s n)"
  let ?d = "created_data (take 256 x) ?y ?e (address_endpoint address) ?tag"
  let ?s = "s\<lparr>s_ConfirmData := Some ?d\<rparr>"
  have lp: "length ?p \<le> 283" "length ?p \<ge> 256" using dh(2) endpoint_ok_length [OF e] by (simp_all add: created_payload_def)
  have pad: "padded_16 (signature_len k) \<le> 64" using sig(2) padded_16_le [of "signature_len k" 4] by simp
  have iv: "length ?iv = 16" using n by (simp add: net_ok_def)
  have n1: "net_ok ?n1" using n by simp
  have s1: "router_signs ?n1 k pub" using sig(1) by (simp add: router_signs_def)
  have sz: "37 + length ?p + padded_16 (signature_len k) \<le> 402" using lp pad by simp
  obtain sig where put: "put_signature (?s, ?n1) (packet_buf 402 ?p) (37 + length ?p) (?d @ word_bytes (now_s n)) ?iv =
      Some (packet_buf 402 (?p @ sealed_signature ?n1 (s_SessionKey ?s) ?iv sig), 37 + length ?p + padded_16 (signature_len k))"
    "length sig = signature_len k" "sig_verify (n_sigs ?n1) k pub (?d @ word_bytes (now_s n)) sig"
    by (rule put_signature_eq [OF s1 n1 iv sz])
  let ?E = "sealed_signature n (s_SessionKey s) ?iv sig" and ?len = "37 + length ?p + padded_16 (signature_len k)"
  have E: "sealed_signature ?n1 (s_SessionKey ?s) ?iv sig = ?E" by (simp add: sealed_signature_def)
  have lE: "length ?E = padded_16 (signature_len k)" using length_sealed_signature [OF n iv, of "s_SessionKey s" sig] put(2) by simp
  have size: "packet_size ?len (packet_buf 402 (?p @ ?E))" using lp pad lE by (simp add: packet_size_def)
  have env: "ssu_env_ok (n_env n)" using n by (simp add: net_ok_def)
  obtain b where b: "FillHeaderAndEncrypt (n_env n) PAYLOAD_TYPE_SESSION_CREATED (packet_buf 402 (?p @ ?E)) ?len ik ?iv ik = Some b"
    "length b = length (packet_buf 402 (?p @ ?E))"
    by (rule FillHeaderAndEncrypt_sealed [OF env iv ik(2) size, of PAYLOAD_TYPE_SESSION_CREATED ik])
  have lb: "length b = 402" using b(2) lp pad lE by simp
  have c: "net_carries n ik ik PAYLOAD_TYPE_SESSION_CREATED (take (?len - 37) (drop 37 (packet_buf 402 (?p @ ?E)))) (take ?len b)"
    "take 16 (drop 16 b) = ?iv"
    using FillHeaderAndEncrypt_carries [OF env iv ik(2) size b(1)] by simp_all
  have body: "take (?len - 37) (drop 37 (packet_buf 402 (?p @ ?E))) = ?p @ ?E"
    using body_packet_buf [of "?p @ ?E" ?len 402] lp pad lE by simp
  have xy: "mem_read x 0 256 = Some (take 256 x)" "mem_read ?y 0 256 = Some ?y" "mem_read ik 0 32 = Some ik"
    using x dh(2) ik(2) by (simp_all add: mem_read_def)
  have w: "mem_write (replicate (384 + 18) 0) SSU_HEADER_SIZE_MIN ?p = Some (packet_buf 402 ?p)"
    using write_packet_buf [of ?p 402] lp by simp
  have ipl: "?len \<le> length b" using lb lp pad by simp
  have "SendSessionCreated x (s, n) = session_send b ?len (?s, ?n1)"
  proof (cases "new_relay_tag ?e n")
    case (Pair tag nn)
    have ft: "?tag = tag" "?n = nn" using Pair by simp_all
    show ?thesis unfolding SendSessionCreated_def ft fst_conv snd_conv addr ik(1) prod.case option.case
      using ik(1) addr xy dh(1) w [unfolded ft] put(1) [unfolded ft] b(1) [unfolded ft] E [unfolded ft] Pair new_relay_tag_simps(1,2,8) [of ?e n, unfolded ft]
      by (simp add: Let_def rnd_block_eq now_s_def created_data_def created_payload_def address_endpoint_def SSU_HEADER_SIZE_MIN_def)
  qed
  also have "\<dots> = Some (?s\<lparr>s_NumSentBytes := s_NumSentBytes s + ?len\<rparr>, sent (take ?len b) ?e ?n)"
    using session_send_defined [OF ipl] by (simp add: sent_def)
  finally have r: "SendSessionCreated x (s, n) = Some (?s\<lparr>s_NumSentBytes := s_NumSentBytes s + length (take ?len b)\<rparr>, sent (take ?len b) ?e ?n)"
    using ipl by simp
  have "take 16 (drop 16 (take ?len b)) = ?iv" using c(2) by (simp add: drop_take min_def)
  then show thesis
    by (intro that [OF r c(1) [unfolded body]]) (use iv put ipl lp pad in simp_all)
qed


section \<open>Session confirmed\<close>

lemma patch_packet_buf: "37 + length p + length q \<le> sz \<Longrightarrow> patch (packet_buf sz p) (37 + length p) q = packet_buf sz (p @ q)"
  using write_packet_more [of p q sz] mem_write_patch [of "37 + length p" q "packet_buf sz p"] by simp

text \<open>The zeros in front of the signature, so that the packet ends at a multiple of 16.\<close>

definition confirm_padding :: "nat \<Rightarrow> nat \<Rightarrow> nat" where
  "confirm_padding identLen sigLen = padded_16 (44 + identLen + sigLen) - (44 + identLen + sigLen)"

lemma confirm_padding_eq:
  "(if 0 < (44 + i + l) mod 16 then 16 - (44 + i + l) mod 16 else 0) = confirm_padding i l"
  unfolding confirm_padding_def padded_16_def by simp

definition confirmed_payload :: "bytes \<Rightarrow> 32 word \<Rightarrow> bytes \<Rightarrow> bytes" where
  "confirmed_payload ident time sig = [1] @ be_bytes 2 (length ident) @ ident @ word_bytes time @
     replicate (confirm_padding (length ident) (length sig)) 0 @ sig"

lemma length_confirmed_payload:
  "37 + length (confirmed_payload ident time sig) = padded_16 (44 + length ident + length sig)"
  using padded_16_ge [of "44 + length ident + length sig"] by (simp add: confirmed_payload_def confirm_padding_def)

lemma SendSessionConfirmed_sends:
  assumes n: "net_ok n" and mac: "length (s_MacKey s) = 32" and sig: "router_signs n k pub"
    and fits: "padded_16 (44 + GetFullLen (pk_public (n_keys n)) + signature_len k) \<le> 512"
    and dh: "s_DHKeysPair s = Some dh" "length (dh_publicKey dh) = 256" and y: "256 \<le> length y" and our: "ourLen \<le> length our"
  obtains pkt sig where
    "SendSessionConfirmed y our ourLen (s, n) = Some (s\<lparr>s_NumSentBytes := s_NumSentBytes s + length pkt\<rparr>, sent pkt (s_RemoteEndpoint s) n)"
    "net_carries n (s_SessionKey s) (s_MacKey s) PAYLOAD_TYPE_SESSION_CONFIRMED
       (confirmed_payload (ix_bytes (pk_public (n_keys n))) (now_s n) sig) pkt"
    "length sig = signature_len k" "length pkt = padded_16 (44 + GetFullLen (pk_public (n_keys n)) + signature_len k)"
    "sig_verify (n_sigs n) k pub (dh_publicKey dh @ take 256 y @ take ourLen our @ ip_bytes (fst (s_RemoteEndpoint s)) @
       port_bytes (snd (s_RemoteEndpoint s)) @ word_bytes (s_RelayTag s) @ word_bytes (now_s n)) sig"
proof -
  let ?ix = "pk_public (n_keys n)" and ?e = "s_RemoteEndpoint s"
  let ?id = "ix_bytes ?ix" and ?L = "GetFullLen ?ix" and ?S = "signature_len k" and ?iv = "n_rnd16 n (n_count n)"
  let ?d = "dh_publicKey dh @ take 256 y @ take ourLen our @ ip_bytes (fst ?e) @ port_bytes (snd ?e) @ word_bytes (s_RelayTag s) @ word_bytes (now_s n)"
  let ?pad = "confirm_padding ?L ?S"
  obtain ix where ix: "GetSignatureLen ?ix = Some (ix, ?S)" using router_signs_facts [OF sig, of "[]"] by metis
  obtain sg where sg: "PrivateKeys_Sign (n_sigs n) (n_keys n) ?d = Some sg" "length sg = ?S" "sig_verify (n_sigs n) k pub ?d sg"
    using router_signs_facts [OF sig, of ?d] by metis
  have ixok: "ix_ok ?ix" using sig by (auto simp: router_signs_def signs_with_def verifies_with_def)
  have lid: "length ?id = ?L" by (rule length_ix_bytes [OF ixok])
  have ge: "44 + ?L + ?S \<le> padded_16 (44 + ?L + ?S)" by (rule padded_16_ge)
  have pad: "44 + ?L + ?S + ?pad = padded_16 (44 + ?L + ?S)" using ge by (simp add: confirm_padding_def)
  have L16: "unat (word_of_nat ?L :: 16 word) = ?L" using fits ge by (simp add: unat_of_nat)
  let ?h = "[1] @ be_bytes 2 ?L :: bytes"
  let ?p = "confirmed_payload ?id (now_s n) sg"
  have P: "?p = ((?h @ ?id) @ word_bytes (now_s n) @ replicate ?pad 0) @ sg"
    using lid sg(2) by (simp add: confirmed_payload_def)
  have w1: "mem_write (replicate (512 + 18) 0) SSU_HEADER_SIZE_MIN ?h = Some (packet_buf 530 ?h)"
    using write_packet_buf [of ?h 530] by simp
  have w2: "IdentityEx_ToBuffer ?ix (packet_buf 530 ?h) (SSU_HEADER_SIZE_MIN + 3) = Some (packet_buf 530 (?h @ ?id), ?L)"
    using IdentityEx_ToBuffer_eq [OF ixok, of 40 "packet_buf 530 ?h"] patch_packet_buf [of ?h ?id 530] lid fits ge
    by (simp add: SSU_HEADER_SIZE_MIN_def)
  have w3: "mem_write (packet_buf 530 (?h @ ?id)) (SSU_HEADER_SIZE_MIN + 3 + ?L) (word_bytes (now_s n)) = Some (packet_buf 530 ((?h @ ?id) @ word_bytes (now_s n) @ replicate ?pad 0))"
    using write_packet_more [of "?h @ ?id" "word_bytes (now_s n)" 530]
      packet_buf_pad [of "(?h @ ?id) @ word_bytes (now_s n)" ?pad 530] lid fits ge pad
    by (simp add: SSU_HEADER_SIZE_MIN_def)
  have w4: "mem_write (packet_buf 530 ((?h @ ?id) @ word_bytes (now_s n) @ replicate ?pad 0)) (SSU_HEADER_SIZE_MIN + 3 + ?L + 4 + ?pad) sg = Some (packet_buf 530 ?p)"
    using write_packet_more [of "(?h @ ?id) @ word_bytes (now_s n) @ replicate ?pad 0" sg 530] lid fits ge pad sg(2)
    unfolding P by (simp add: SSU_HEADER_SIZE_MIN_def add.assoc)
  let ?len = "44 + ?L + ?pad + ?S"
  have len: "?len \<le> 512" "37 + length ?p = ?len" "37 \<le> ?len"
    using fits pad length_confirmed_payload [of ?id "now_s n" sg] lid sg(2) by simp_all
  have size: "packet_size ?len (packet_buf 530 ?p)" using len by (simp add: packet_size_def)
  have env: "ssu_env_ok (n_env n)" and iv: "length ?iv = 16" using n by (simp_all add: net_ok_def)
  obtain b where b: "FillHeaderAndEncrypt (n_env n) PAYLOAD_TYPE_SESSION_CONFIRMED (packet_buf 530 ?p) ?len (s_SessionKey s) ?iv (s_MacKey s) = Some b"
    "length b = length (packet_buf 530 ?p)"
    by (rule FillHeaderAndEncrypt_sealed [OF env iv mac size, of PAYLOAD_TYPE_SESSION_CONFIRMED "s_SessionKey s"])
  have lb: "?len \<le> length b" using b(2) len by simp
  have c: "net_carries n (s_SessionKey s) (s_MacKey s) PAYLOAD_TYPE_SESSION_CONFIRMED ?p (take ?len b)"
    using FillHeaderAndEncrypt_carries [OF env iv mac size b(1)] body_packet_buf [of ?p ?len 530] len by simp
  have rd: "mem_read (dh_publicKey dh) 0 256 = Some (dh_publicKey dh)" "mem_read y 0 256 = Some (take 256 y)" "mem_read our 0 ourLen = Some (take ourLen our)"
    using dh(2) y our by (simp_all add: mem_read_def)
  have m: "SSU_HEADER_SIZE_MIN + 3 + ?L + 4 + ?S = 44 + ?L + ?S" by (simp add: SSU_HEADER_SIZE_MIN_def)
  have "SendSessionConfirmed y our ourLen (s, n) = session_send b ?len (s, n\<lparr>n_count := n_count n + 1\<rparr>)"
  proof -
    have ml: "SSU_HEADER_SIZE_MIN + 3 + ?L + 4 + ?pad + ?S = ?len" by (simp add: SSU_HEADER_SIZE_MIN_def)
    have w4': "mem_write (packet_buf 530 (?h @ ?id @ word_bytes (now_s n))) (SSU_HEADER_SIZE_MIN + 3 + ?L + 4 + ?pad) sg = Some (packet_buf 530 ?p)"
      using w4 packet_buf_pad [of "(?h @ ?id) @ word_bytes (now_s n)" ?pad 530] lid fits ge pad by simp
    have w3': "mem_write (packet_buf 530 (?h @ ?id)) (SSU_HEADER_SIZE_MIN + 3 + ?L) (word_bytes (now_s n)) = Some (packet_buf 530 (?h @ ?id @ word_bytes (now_s n)))"
      using w3 packet_buf_pad [of "(?h @ ?id) @ word_bytes (now_s n)" ?pad 530] lid fits ge pad by simp
    show ?thesis
      unfolding SendSessionConfirmed_def Let_def prod.case L16 w1 Option.bind.bind_lunit w2 w3' ix m confirm_padding_eq dh(1) rd sg(1)
        option.case w4' rnd_block_eq ml
      using b(1) by simp
  qed
  also have "\<dots> = Some (s\<lparr>s_NumSentBytes := s_NumSentBytes s + length (take ?len b)\<rparr>, sent (take ?len b) ?e n)"
    using session_send_defined [OF lb] lb by (simp add: sent_def)
  finally show thesis by (rule that [OF _ c sg(2) _ sg(3)]) (use lb pad in simp)
qed


section \<open>The packets are received\<close>

lemma read_front: "length a = k \<Longrightarrow> mem_read (a @ b) 0 k = Some a"
  by (simp add: mem_read_def)

lemma read_behind: "length a \<le> i \<Longrightarrow> mem_read (a @ b) i k = mem_read b (i - length a) k"
  by (auto simp: mem_read_def)

lemma read_word_bytes: "bufbe32toh (word_bytes v @ rest) 0 = Some v"
proof -
  have "unat v < 2 ^ 32" by (rule order_less_le_trans [OF unsigned_less]) simp
  then have "unat v mod 4294967296 = unat v" by simp
  then show ?thesis by (simp add: bufbe32toh_be_val read_front word_bytes_def be_val_be_bytes)
qed

lemma read_ip_bytes: "ip_ok a \<Longrightarrow> read_ip (ip_size a) (ip_bytes a @ rest) = Some a"
  by (cases a) (simp_all add: read_ip_def ip_size_def read_front)

lemma unat_ip_size: "ip_ok a \<Longrightarrow> unat (ip_size a) = length (ip_bytes a)"
  by (cases a) (simp_all add: ip_size_def)

lemma context_UpdateAddress_keys: "context_UpdateAddress env host c = Some c' \<Longrightarrow> rc_keys c' = rc_keys c"
  using UpdateRouterInfo_fields(5)
  by (auto simp: context_UpdateAddress_def publish_if_def upd_ri_def split: if_splits)

text \<open>Alice: the packet names her address as Bob sees it; she checks his signature and confirms.\<close>

lemma ProcessSessionCreated_confirms:
  assumes out: "s_RemoteRouter s \<noteq> None" and dh: "s_DHKeysPair s = Some dh" "length (dh_publicKey dh) = 256"
    and y: "length y = 256" and K: "n_agree n (dh_privateKey dh) y = Some K" "session_keys (env_sha256 (n_i2np n)) K = Some (k, m)"
    and alice: "endpoint_ok alice" and ctx: "context_UpdateAddress (n_rcenv n) (fst alice) (n_ctx n) = Some c"
    and v: "verifies_with (s_RemoteIdentity s) \<lparr>v_kind = kb, v_key = pubb\<rparr>"
    and E: "length E = padded_16 (signature_len kb)" "length iv = 16"
      "take (signature_len kb) (snd (CBCDecryption_Decrypt_buf (aes_dec (se_aes (n_env n)) k) iv E)) = sig"
    and sig: "sig_verify (n_sigs n) kb pubb (created_data (dh_publicKey dh) y alice (s_RemoteEndpoint s) tag @ word_bytes time) sig"
    and r: "take 16 (drop 16 r) = iv" "drop 37 r = created_payload y alice tag time @ E @ rest" "32 \<le> length r"
  shows "ProcessSessionCreated (plain_packet r len) (s, n) =
    SendSessionConfirmed (drop 37 r) (ip_bytes (fst alice) @ port_bytes (snd alice) @ word_bytes tag @ word_bytes time @ E @ rest)
      (length (ip_bytes (fst alice)) + 2)
      (s\<lparr>s_Timer := None, s_SessionKey := k, s_MacKey := m, s_IsSessionKey := True, s_RelayTag := tag,
         s_RemoteIdentity := (s_RemoteIdentity s)\<lparr>ix_verifier := Some \<lparr>v_kind = kb, v_key = pubb\<rparr>\<rparr>\<rparr>, n\<lparr>n_ctx := c\<rparr>)"
proof -
  let ?ip = "ip_bytes (fst alice)" and ?T = "word_bytes tag @ word_bytes time @ E @ rest"
  obtain router where router: "s_RemoteRouter s = Some router" using out by auto
  obtain Y where Y: "drop 37 r = Y" by simp
  let ?s = "s\<lparr>s_Timer := None, s_SessionKey := k, s_MacKey := m, s_IsSessionKey := True\<rparr>"
  have ok: "ip_ok (fst alice)" using alice by (simp add: endpoint_ok_def)
  have y': "Y = y @ ip_size (fst alice) # ?ip @ port_bytes (snd alice) @ ?T" using r(2) Y by (simp add: created_payload_def)
  have keys: "CreateAESandMacKey Y (s\<lparr>s_Timer := None\<rparr>, n) = Some (?s, n)"
    using CreateAESandMacKey_agrees [of Y "s\<lparr>s_Timer := None\<rparr>" dh n K k m] y y' dh(1) K by simp
  have rd: "mem_read (dh_publicKey dh) 0 256 = Some (dh_publicKey dh)" "mem_read Y 0 256 = Some y"
    "read_byte Y 256 = Some (ip_size (fst alice))" "drop 257 Y = ?ip @ port_bytes (snd alice) @ ?T"
    "pkt_IV (plain_packet r len) = Some iv"
    using dh(2) y r(1,3) unfolding y' by (simp_all add: mem_read_def read_byte_def pkt_IV_def plain_packet_def)
  have lv: "lazy_verifier (s_RemoteIdentity s) = Some ((s_RemoteIdentity s)\<lparr>ix_verifier := Some \<lparr>v_kind = kb, v_key = pubb\<rparr>\<rparr>)"
    "verifies_with ((s_RemoteIdentity s)\<lparr>ix_verifier := Some \<lparr>v_kind = kb, v_key = pubb\<rparr>\<rparr>) \<lparr>v_kind = kb, v_key = pubb\<rparr>"
    "GetSignatureLen (s_RemoteIdentity s) = Some ((s_RemoteIdentity s)\<lparr>ix_verifier := Some \<lparr>v_kind = kb, v_key = pubb\<rparr>\<rparr>, signature_len kb)"
    using verifies_with_lazy(1-3) [OF v] by simp_all
  have ver: "IdentityEx_Verify (n_sigs n) ((s_RemoteIdentity s)\<lparr>ix_verifier := Some \<lparr>v_kind = kb, v_key = pubb\<rparr>\<rparr>)
      (dh_publicKey dh @ y @ ?ip @ port_bytes (snd alice) @ ip_bytes (fst (s_RemoteEndpoint s)) @ port_bytes (snd (s_RemoteEndpoint s)) @
        word_bytes tag @ word_bytes time) sig = Some ((s_RemoteIdentity s)\<lparr>ix_verifier := Some \<lparr>v_kind = kb, v_key = pubb\<rparr>\<rparr>, True)"
    using verifies_with_lazy(5) [OF lv(2), of "n_sigs n"] sig by (simp add: created_data_def)
  have tt: "mem_read (word_bytes tag @ word_bytes time @ E @ rest) 0 8 = Some (word_bytes tag @ word_bytes time)"
    using read_front [of "word_bytes tag @ word_bytes time" 8 "E @ rest"] by simp
  show ?thesis
    using router dh(1) E
    unfolding ProcessSessionCreated_def fst_conv snd_conv Let_def prod.case
    by (simp add: plain_packet_def Y keys rd [unfolded plain_packet_def] read_ip_bytes [OF ok] unat_ip_size [OF ok] read_front ctx upd_ctx_def tt read_word_bytes lv(3) ver)
qed

text \<open>Bob: he reads Alice's identity from the packet and checks her signature of what he sent.\<close>

lemma read_be2: "v < 65536 \<Longrightarrow> bufbe16toh (be_bytes 2 v @ rest) 0 = Some (word_of_nat v)"
  by (simp add: bufbe16toh_be_val read_front be_val_be_bytes)

lemma ProcessSessionConfirmed_establishes:
  assumes data: "s_ConfirmData s = Some sdata" and v: "verifies_with alice \<lparr>v_kind = ka, v_key = puba\<rparr>"
    and fresh: "ix_ext (s_RemoteIdentity s) \<noteq> Freed" and small: "GetFullLen alice < 65536" and len: "length sig = signature_len ka"
    and sig: "sig_verify (n_sigs n) ka puba (sdata @ word_bytes time) sig"
    and r: "drop 37 r = confirmed_payload (ix_bytes alice) time sig @ rest"
  obtains ix where "ix_bytes ix = ix_bytes alice" "ix_hash ix = env_sha256 (n_i2np n) (ix_bytes alice)"
    "ProcessSessionConfirmed (plain_packet r l) (s, n) = Established (upd_data
       (case n_netdb n (ix_hash ix) of None \<Rightarrow> id | Some r \<Rightarrow> AdjustPacketSize (session_IsV6 s) r)
       (s\<lparr>s_RemoteIdentity := ix, s_ConfirmData := Some (sdata @ word_bytes time)\<rparr>, n))"
proof -
  let ?id = "ix_bytes alice" and ?pad = "replicate (confirm_padding (GetFullLen alice) (signature_len ka)) 0 :: bytes"
  let ?T = "word_bytes time @ ?pad @ sig @ rest"
  have lid: "length ?id = GetFullLen alice" using v length_ix_bytes by (simp add: verifies_with_def)
  obtain ix where ix: "IdentityEx_FromBuffer (env_sha256 (n_i2np n)) (s_RemoteIdentity s) (?id @ ?T) (GetFullLen alice) = Some (ix, GetFullLen alice)"
    "verifies_with ix \<lparr>v_kind = ka, v_key = puba\<rparr>" "ix_bytes ix = ?id" "ix_hash ix = env_sha256 (n_i2np n) ?id"
    by (rule verifies_with_received [OF v fresh order_refl])
  let ?ix = "ix\<lparr>ix_verifier := Some \<lparr>v_kind = ka, v_key = puba\<rparr>\<rparr>"
  have "drop 38 r = drop 1 (drop 37 r)" by simp
  then have r38: "drop 38 r = be_bytes 2 (GetFullLen alice) @ ?id @ ?T" using r lid len by (simp add: confirmed_payload_def)
  have u: "unat (word_of_nat (GetFullLen alice) :: 16 word) = GetFullLen alice" using small by (simp add: unat_of_nat)
  have sl: "GetSignatureLen ix = Some (?ix, signature_len ka)" using verifies_with_lazy(3) [OF ix(2)] by simp
  have ver: "IdentityEx_Verify (n_sigs n) ?ix (sdata @ word_bytes time) sig = Some (?ix, True)"
    using verifies_with_lazy(5) [OF verifies_with_lazy(2) [OF ix(2)], of "n_sigs n"] sig by simp
  have s1: "mem_read ?T (4 + confirm_padding (GetFullLen alice) (signature_len ka)) (signature_len ka) = Some sig"
    using len by (simp add: mem_read_def)
  have c: "s\<lparr>s_Data := d, s_RemoteIdentity := i, s_ConfirmData := e\<rparr> = s\<lparr>s_RemoteIdentity := i, s_ConfirmData := e, s_Data := d\<rparr>" for d i e
    by (cases s) simp
  have "ProcessSessionConfirmed (plain_packet r l) (s, n) = Established (upd_data
       (case n_netdb n (ix_hash ?ix) of None \<Rightarrow> id | Some r \<Rightarrow> AdjustPacketSize (session_IsV6 s) r)
       (s\<lparr>s_RemoteIdentity := ?ix, s_ConfirmData := Some (sdata @ word_bytes time)\<rparr>, n))"
    using data
    by (simp add: ProcessSessionConfirmed_def plain_packet_def r38 read_be2 [OF small] u ix(1) lid sl ver confirm_padding_eq [of "GetFullLen alice" "signature_len ka"]
        Let_def read_front s1 UpdatePacketSize_def upd_data_def session_IsV6_def c split: option.splits cong: if_cong)
  then show thesis using that [of ?ix] ix(3,4) by (simp add: ix_bytes_def)
qed

end
