(* ===== verification/SSU_Transfer.thy ===== *)
theory SSU_Transfer
  imports SSU_Handshake
begin

text \<open>
  An I2NP message on its way over an SSU session: the fragments \<open>SSUData::Send\<close> makes of it, the packets
  that carry them, and the reassembly at the peer, in whatever order the packets arrive.
\<close>

section \<open>Sending a message\<close>

text \<open>The parts of a message: all of length \<open>p\<close> but the last.\<close>

function data_parts :: "nat \<Rightarrow> bytes \<Rightarrow> bytes list" where
  "data_parts p xs = (if xs = [] then [] else if length xs \<le> p \<or> p = 0 then [xs] else take p xs # data_parts p (drop p xs))"
  by pat_completeness auto
termination by (relation "measure (\<lambda>(p, xs). length xs)") auto

declare data_parts.simps [simp del]

lemma concat_data_parts: "concat (data_parts p xs) = xs"
proof (induction p xs rule: data_parts.induct)
  case (1 p xs)
  then show ?case by (subst data_parts.simps) auto
qed

lemma data_parts_Nil [simp]: "data_parts p [] = []" "data_parts p xs = [] \<longleftrightarrow> xs = []"
  by (subst data_parts.simps; simp)+

lemma data_parts_length: "\<lbrakk>x \<in> set (data_parts p xs); 0 < p\<rbrakk> \<Longrightarrow> 0 < length x \<and> length x \<le> p"
proof (induction p xs rule: data_parts.induct)
  case (1 p xs)
  then show ?case by (subst (asm) data_parts.simps) (auto split: if_splits)
qed

text \<open>A packet that carries a fragment, with zeros or rests of memory behind it.\<close>

definition data_packet :: "ssu_net \<Rightarrow> bytes \<Rightarrow> bytes \<Rightarrow> 32 word \<Rightarrow> nat \<Rightarrow> bool \<Rightarrow> bytes \<Rightarrow> bytes \<Rightarrow> bool" where
  "data_packet n key mac msgID k l part pkt \<longleftrightarrow> 48 \<le> length pkt \<and>
     (\<exists>pad. net_carries n key mac PAYLOAD_TYPE_DATA (fragment_header msgID (fragment_info k l (length part)) @ part @ pad) pkt)"

lemma length_fragment_header [simp]: "length (fragment_header msgID info) = 9"
  by (simp add: fragment_header_def)

lemma make_fragment_carries:
  assumes "net_ok n" and "length (s_MacKey s) = 32" and "length part \<le> 1410"
  obtains f where "make_fragment msgID k l part (s, n) = Some (f, (s, n\<lparr>n_count := n_count n + 1\<rparr>))"
    "fr_num f = k" "fr_last f = l" "fr_len f = padded_16 (length part + 46)" "fr_len f \<le> length (fr_buf f)"
    "data_packet n (s_SessionKey s) (s_MacKey s) msgID k l part (take (fr_len f) (fr_buf f))"
proof -
  let ?h = "fragment_header msgID (fragment_info k l (length part))" and ?g = "n_garbage n" and ?sz = "padded_16 (length part + 46)"
  have sz: "length part + 46 \<le> ?sz" "?sz \<le> 1456" "48 \<le> ?sz"
    using assms(3) padded_16_ge [of "length part + 46"] padded_16_le [of "length part + 46" 91] div_le_mono [of 48 "length part + 61" 16]
    by (simp_all add: padded_16_mult)
  have ps: "SSU_V4_MAX_PACKET_SIZE = 1456" by (simp add: ssu_defs SSU_MTU_V4_def)
  let ?b = "replicate 37 ?g @ ?h @ part @ replicate (1428 - length part) ?g"
  have r: "replicate 1474 ?g = replicate 37 ?g @ replicate 9 ?g @ replicate (length part) ?g @ replicate (1428 - length part) ?g"
    using assms(3) by (simp flip: replicate_add)
  have w1: "mem_write (replicate 1474 ?g) 37 ?h = Some (replicate 37 ?g @ ?h @ replicate (length part) ?g @ replicate (1428 - length part) ?g)"
    unfolding r by (rule write_mid) simp_all
  have w2: "mem_write (replicate 37 ?g @ ?h @ replicate (length part) ?g @ replicate (1428 - length part) ?g) 46 part = Some ?b"
    using write_mid [of part "replicate (length part) ?g" 46 "replicate 37 ?g @ ?h" "replicate (1428 - length part) ?g"] by simp
  have size: "packet_size ?sz ?b" using sz assms(3) by (simp add: packet_size_def)
  obtain b where b: "session_encrypt PAYLOAD_TYPE_DATA ?b ?sz (s, n) = Some (b, (s, n\<lparr>n_count := n_count n + 1\<rparr>))" "length b = length ?b"
    "net_carries n (s_SessionKey s) (s_MacKey s) PAYLOAD_TYPE_DATA (take (?sz - 37) (drop 37 ?b)) (take ?sz b)"
    by (rule session_encrypt_carries [OF assms(1,2) size])
  have body: "take (?sz - 37) (drop 37 ?b) = ?h @ part @ take (?sz - 46 - length part) (replicate (1428 - length part) ?g)"
    using sz by simp
  have "make_fragment msgID k l part (s, n) = Some (\<lparr>fr_num = k, fr_len = ?sz, fr_last = l, fr_buf = b\<rparr>, (s, n\<lparr>n_count := n_count n + 1\<rparr>))"
    using w1 w2 b(1) by (simp add: make_fragment_def ps SSU_HEADER_SIZE_MIN_def)
  then show thesis
    by (rule that) (use b(2) sz assms(3) b(3) [unfolded body] in \<open>auto simp: data_packet_def\<close>)
qed

text \<open>All fragments: the loop ends, and each packet it sends carries its part.\<close>

definition send_all :: "bytes list \<Rightarrow> ssu_st \<Rightarrow> ssu_st" where
  "send_all pkts st = (case st of (s, n) \<Rightarrow>
     (s\<lparr>s_NumSentBytes := s_NumSentBytes s + length (concat pkts)\<rparr>,
      n\<lparr>n_count := n_count n + length pkts, n_out := n_out n @ map (\<lambda>p. SendTo p (s_RemoteEndpoint s)) pkts\<rparr>))"

lemma data_packet_count [simp]: "data_packet (n\<lparr>n_count := c\<rparr>) = data_packet n" "data_packet (emit e n) = data_packet n"
  by (intro ext; simp add: data_packet_def emit_def)+

lemma send_fragments_total:
  assumes "net_ok n" and "length (s_MacKey s) = 32" and p: "0 < p" "p \<le> 1410" and "pos + len \<le> length msgBuf"
  shows "\<exists>pkts frags. send_fragments p msgID msgBuf pos len k fs (s, n) = Some (fs @ map Some frags, send_all pkts (s, n)) \<and>
    length pkts = length (data_parts p (take len (drop pos msgBuf))) \<and>
    (\<forall>i < length pkts. data_packet n (s_SessionKey s) (s_MacKey s) msgID (k + i) (i + 1 = length pkts)
       (data_parts p (take len (drop pos msgBuf)) ! i) (pkts ! i))"
  using assms(1,2,5)
proof (induction len arbitrary: pos k fs s n rule: less_induct)
  case (less len)
  show ?case
  proof (cases "len = 0")
    case True
    then show ?thesis by (subst send_fragments.simps) (auto simp: send_all_def intro!: exI [of _ "[]"])
  next
    case False
    let ?xs = "take len (drop pos msgBuf)" and ?l = "len \<le> p"
    let ?m = "if ?l then len else p" and ?len' = "if ?l then 0 else len - p"
    let ?part = "take ?m (drop pos msgBuf)"
    have rd: "mem_read msgBuf pos ?m = Some ?part" "length ?part = ?m" using less.prems(3) by (auto simp: mem_read_def)
    obtain f where f: "make_fragment msgID k ?l ?part (s, n) = Some (f, (s, n\<lparr>n_count := n_count n + 1\<rparr>))"
      "fr_len f \<le> length (fr_buf f)"
      "data_packet n (s_SessionKey s) (s_MacKey s) msgID k ?l ?part (take (fr_len f) (fr_buf f))"
      by (rule make_fragment_carries [OF less.prems(1,2), of ?part msgID k ?l]) (use rd(2) p in auto)
    let ?pkt = "take (fr_len f) (fr_buf f)"
    let ?s = "s\<lparr>s_NumSentBytes := s_NumSentBytes s + fr_len f\<rparr>" and ?n = "emit (SendTo ?pkt (s_RemoteEndpoint s)) (n\<lparr>n_count := n_count n + 1\<rparr>)"
    have sd: "session_send (fr_buf f) (fr_len f) (s, n\<lparr>n_count := n_count n + 1\<rparr>) = Some (?s, ?n)"
      by (rule session_send_defined [OF f(2)])
    have lt: "?len' < len" using False p(1) by simp
    have le: "pos + p + ?len' \<le> length msgBuf \<or> ?len' = 0" using less.prems(3) by auto
    have "\<exists>pkts frags. send_fragments p msgID msgBuf (pos + p) ?len' (k + 1) (fs @ [Some f]) (?s, ?n) =
        Some ((fs @ [Some f]) @ map Some frags, send_all pkts (?s, ?n)) \<and>
      length pkts = length (data_parts p (take ?len' (drop (pos + p) msgBuf))) \<and>
      (\<forall>i < length pkts. data_packet ?n (s_SessionKey ?s) (s_MacKey ?s) msgID (k + 1 + i) (i + 1 = length pkts)
        (data_parts p (take ?len' (drop (pos + p) msgBuf)) ! i) (pkts ! i))"
    proof (cases ?l)
      case True
      then show ?thesis by (subst send_fragments.simps) (auto simp: send_all_def intro!: exI [of _ "[]"])
    next
      case l: False
      show ?thesis by (rule less.IH [OF lt]) (use less.prems l in \<open>simp_all\<close>)
    qed
    then obtain pkts frags where IH: "send_fragments p msgID msgBuf (pos + p) ?len' (k + 1) (fs @ [Some f]) (?s, ?n) =
        Some ((fs @ [Some f]) @ map Some frags, send_all pkts (?s, ?n))"
      "length pkts = length (data_parts p (take ?len' (drop (pos + p) msgBuf)))"
      "\<And>i. i < length pkts \<Longrightarrow> data_packet n (s_SessionKey s) (s_MacKey s) msgID (k + 1 + i) (i + 1 = length pkts)
        (data_parts p (take ?len' (drop (pos + p) msgBuf)) ! i) (pkts ! i)"
      by auto
    have xs: "?xs \<noteq> []" "length ?xs = len" using less.prems(3) False by auto
    have parts: "data_parts p ?xs = ?part # data_parts p (take ?len' (drop (pos + p) msgBuf))"
    proof (cases ?l)
      case l: False
      have "drop p ?xs = take (len - p) (drop (pos + p) msgBuf)" by (simp add: drop_take add.commute)
      then show ?thesis using l xs p(1) by (subst data_parts.simps) (simp add: min_def)
    qed (use xs p(1) in \<open>subst data_parts.simps, simp\<close>)
    have empty: "pkts = [] \<longleftrightarrow> ?l" 
    proof -
      have "pkts = [] \<longleftrightarrow> data_parts p (take ?len' (drop (pos + p) msgBuf)) = []" using IH(2) by (metis length_0_conv)
      also have "\<dots> \<longleftrightarrow> ?l" using less.prems(3) by simp
      finally show ?thesis .
    qed
    have "send_fragments p msgID msgBuf pos len k fs (s, n) = Some (fs @ map Some (f # frags), send_all (?pkt # pkts) (s, n))"
    proof (subst send_fragments.simps)
      show "(if len > 0 then do {
        let isLast = len \<le> p;
        part \<leftarrow> mem_read msgBuf pos (if isLast then len else p);
        (fragment, st) \<leftarrow> make_fragment msgID k isLast part (s, n);
        st \<leftarrow> session_send (fr_buf fragment) (fr_len fragment) st;
        send_fragments p msgID msgBuf (pos + p) (if isLast then 0 else len - p) (k + 1) (fs @ [Some fragment]) st }
        else Some (fs, (s, n))) = Some (fs @ map Some (f # frags), send_all (?pkt # pkts) (s, n))"
      proof -
        have 1: "(0 < len) = True" using False by simp
        show ?thesis
          unfolding Let_def rd(1) f(1) sd Option.bind.bind_lunit prod.case IH(1) 1 if_True
          using f(2) by (simp add: send_all_def emit_def)
      qed
    qed
    moreover have "data_packet n (s_SessionKey s) (s_MacKey s) msgID (k + i) (i + 1 = length (?pkt # pkts)) (data_parts p ?xs ! i) ((?pkt # pkts) ! i)"
      if "i < length (?pkt # pkts)" for i
      using that f(3) IH(3) [of "i - 1"] empty unfolding parts by (cases i) auto
    ultimately show ?thesis using IH(2) parts by (intro exI [of _ "?pkt # pkts"] exI [of _ "f # frags"]) simp
  qed
qed


text \<open>The whole of \<open>Send\<close>, for a message that is not on its way already.\<close>

lemma SSUData_Send_sends:
  assumes n: "net_ok n" and mac: "length (s_MacKey s) = 32" and p: "46 < d_PacketSize (s_Data s)" "d_PacketSize (s_Data s) \<le> 1456"
    and m: "ToSSU m = Some (m1, msgID)" and ok: "GetSSUHeader m1 + GetLength m1 \<le> length (msg_buf m1)"
    and fresh: "map_of (d_Sent (s_Data s)) msgID = None"
  obtains pkts frags where
    "SSUData_Send m (s, n) = Some (upd_data (\<lambda>d. (if d_Sent d = [] then ScheduleResend d else d)\<lparr>d_Sent := omap_put msgID
        \<lparr>sm_fragments = map Some frags, sm_nextResend = now_s n + RESEND_INTERVAL, sm_numResends = 0\<rparr> (d_Sent d)\<rparr>) (send_all pkts (s, n)))"
    "length pkts = length (data_parts (nat (d_PacketSize (s_Data s) - 46)) (window (msg_buf m1) (GetSSUHeader m1) (GetLength m1)))"
    "\<And>i. i < length pkts \<Longrightarrow> data_packet n (s_SessionKey s) (s_MacKey s) msgID i (i + 1 = length pkts)
       (data_parts (nat (d_PacketSize (s_Data s) - 46)) (window (msg_buf m1) (GetSSUHeader m1) (GetLength m1)) ! i) (pkts ! i)"
proof -
  let ?P = "nat (d_PacketSize (s_Data s) - 46)"
  let ?s = "if d_Sent (s_Data s) = [] then s\<lparr>s_Data := ScheduleResend (s_Data s)\<rparr> else s"
  have P: "0 < ?P" "?P \<le> 1410" using p by auto
  have pp: "d_PacketSize (s_Data ?s) = d_PacketSize (s_Data s)" by (simp add: ScheduleResend_def)
  have ps: "nat ((d_PacketSize (s_Data s) - int SSU_HEADER_SIZE_MIN - 9) mod 2 ^ 64) = ?P"
  proof -
    have "0 \<le> d_PacketSize (s_Data s) - 46 \<and> d_PacketSize (s_Data s) - 46 < 2 ^ 64" using p by simp
    then have "(d_PacketSize (s_Data s) - 46) mod 2 ^ 64 = d_PacketSize (s_Data s) - 46" by (intro mod_pos_pos_trivial) simp_all
    moreover have "d_PacketSize (s_Data s) - int SSU_HEADER_SIZE_MIN - 9 = d_PacketSize (s_Data s) - 46" by (simp add: SSU_HEADER_SIZE_MIN_def)
    ultimately show ?thesis by (simp only:)
  qed
  have mac': "length (s_MacKey ?s) = 32" using mac by simp
  obtain pkts frags where f: "send_fragments ?P msgID (msg_buf m1) (GetSSUHeader m1) (GetLength m1) 0 [] (?s, n) = Some ([] @ map Some frags, send_all pkts (?s, n))"
    "length pkts = length (data_parts ?P (take (GetLength m1) (drop (GetSSUHeader m1) (msg_buf m1))))"
    "\<forall>i < length pkts. data_packet n (s_SessionKey ?s) (s_MacKey ?s) msgID (0 + i) (i + 1 = length pkts)
       (data_parts ?P (take (GetLength m1) (drop (GetSSUHeader m1) (msg_buf m1))) ! i) (pkts ! i)"
    using send_fragments_total [OF n mac' P ok, of msgID 0 "[]"] by blast
  have sk: "s_SessionKey ?s = s_SessionKey s" "s_MacKey ?s = s_MacKey s" by simp_all
  have st: "(if d_Sent (data_of (s, n)) = [] then upd_data ScheduleResend (s, n) else (s, n)) = (?s, n)"
    by (simp add: data_of_def upd_data_def)
  have pd: "d_PacketSize (data_of (?s, n)) = d_PacketSize (s_Data s)" using pp by (simp add: data_of_def)
  have fr: "map_of (d_Sent (data_of (s, n))) msgID = None" using fresh by (simp add: data_of_def)
  have "SSUData_Send m (s, n) = Some (upd_data (\<lambda>d. d\<lparr>d_Sent := omap_put msgID
        \<lparr>sm_fragments = map Some frags, sm_nextResend = now_s n + RESEND_INTERVAL, sm_numResends = 0\<rparr> (d_Sent d)\<rparr>) (send_all pkts (?s, n)))"
    unfolding SSUData_Send_def m Option.bind.bind_lunit prod.case fr st pd Let_def ps f(1) snd_conv by simp
  also have "\<dots> = Some (upd_data (\<lambda>d. (if d_Sent d = [] then ScheduleResend d else d)\<lparr>d_Sent := omap_put msgID
        \<lparr>sm_fragments = map Some frags, sm_nextResend = now_s n + RESEND_INTERVAL, sm_numResends = 0\<rparr> (d_Sent d)\<rparr>) (send_all pkts (s, n)))"
    by (simp add: upd_data_def send_all_def ScheduleResend_def)
  finally show thesis by (rule that) (use f(2) f(3) [unfolded sk] in \<open>simp_all add: window_take_drop\<close>)
qed


section \<open>Reading a fragment\<close>

lemma bit_small_nat: "v < 2 ^ n \<Longrightarrow> n \<le> k \<Longrightarrow> \<not> bit (word_of_nat v :: 'a::len word) k"
proof -
  assume "v < 2 ^ n" "n \<le> k"
  then have "v < 2 ^ k" by (meson less_le_trans one_le_numeral power_increasing)
  then have "\<not> bit v k" by (simp add: bit_iff_odd)
  then show ?thesis by (simp add: bit_simps)
qed

lemma fragment_info_fields:
  assumes "k < 128" and "len < 8192"
  shows "unat (fragment_info k l len AND 0x1FFF) = len" "fragment_info k l len AND 0x010000 \<noteq> 0 \<longleftrightarrow> l"
    "unat (ucast (drop_bit 17 (fragment_info k l len)) :: byte) = k" "unat (fragment_info k l len) < 2 ^ 24"
proof -
  let ?K = "word_of_nat k :: 32 word" and ?L = "word_of_nat len :: 32 word" and ?i = "fragment_info k l len"
  have L: "\<not> bit ?L j" if "13 \<le> j" for j using bit_small_nat [of len 13 j] assms(2) that by simp
  have K: "\<not> bit ?K j" if "7 \<le> j" for j using bit_small_nat [of k 7 j] assms(1) that by simp
  have "(0x010000 :: 32 word) = 2 ^ 16" by simp
  then have F: "bit (0x010000 :: 32 word) j \<longleftrightarrow> j = 16" for j
    by (simp only: bit_exp_iff) auto
  have i: "bit ?i j \<longleftrightarrow> (17 \<le> j \<and> j < 32 \<and> bit ?K (j - 17)) \<or> (l \<and> j = 16) \<or> bit ?L j" for j
    using F [of j] by (cases l) (auto simp: fragment_info_def Let_def bit_or_iff bit_push_bit_iff)
  have "?i AND 0x1FFF = ?L"
  proof (rule bit_word_eqI)
    fix j :: nat
    have e: "mask 13 = (0x1FFF :: 32 word)" by (simp add: mask_eq_exp_minus_1)
    have "bit (mask 13 :: 32 word) j \<longleftrightarrow> j < 13" if "j < 32" using that by (auto simp: bit_mask_iff)
    note b = this [unfolded e]
    assume "j < LENGTH(32)"
    then have "bit (0x1FFF :: 32 word) j \<longleftrightarrow> j < 13" using b by simp
    then have "bit (?i AND 0x1FFF) j \<longleftrightarrow> bit ?i j \<and> j < 13" by (simp only: bit_and_iff)
    then show "bit (?i AND 0x1FFF) j = bit ?L j" using L [of j] unfolding i by fastforce
  qed
  then show "unat (?i AND 0x1FFF) = len" using assms(2) by (simp add: unat_of_nat)
  show "?i AND 0x010000 \<noteq> 0 \<longleftrightarrow> l"
  proof -
    have b: "bit ?i 16 \<longleftrightarrow> l" using i [of 16] L [of 16] by simp
    then have "bit (?i AND 0x010000) j \<longleftrightarrow> l \<and> j = 16" for j by (metis F bit_and_iff)
    then show ?thesis by (metis bit_0_eq bot_apply bot_bool_def bit_eq_iff)
  qed
  have "(ucast (drop_bit 17 ?i) :: byte) = word_of_nat k"
  proof (rule bit_word_eqI)
    fix j :: nat assume "j < LENGTH(8)"
    then show "bit (ucast (drop_bit 17 ?i) :: byte) j = bit (word_of_nat k :: byte) j"
      using i [of "j + 17"] L [of "j + 17"] by (simp add: bit_ucast_iff bit_drop_bit_eq bit_of_nat_iff add.commute)
  qed
  then show "unat (ucast (drop_bit 17 ?i) :: byte) = k" using assms(1) by (simp add: unat_of_nat)
  have "take_bit 24 ?i = ?i"
  proof (rule bit_word_eqI)
    fix j :: nat
    have "j < 24" if "bit ?i j"
    proof -
      have "(17 \<le> j \<and> j - 17 < 7) \<or> j = 16 \<or> j < 13" using that K [of "j - 17"] L [of j] unfolding i by (meson not_le)
      then show ?thesis by auto
    qed
    then show "bit (take_bit 24 ?i) j = bit ?i j" by (auto simp: bit_take_bit_iff)
  qed
  then show "unat ?i < 2 ^ 24" by (metis take_bit_nat_less_exp unsigned_take_bit_eq)
qed

lemma read_fragment_info:
  assumes "unat (info :: 32 word) < 2 ^ 24"
  shows "bufbe32toh (0 # drop 1 (be_bytes 4 (unat info))) 0 = Some info"
proof -
  have "[0..<4] = [0, 1, 2, 3 :: nat]" by (simp add: upt_rec)
  then have "be_bytes 4 (unat info) = word_of_nat (unat info div 256 ^ 3) # drop 1 (be_bytes 4 (unat info))"
    by (simp add: be_bytes_def)
  then have "be_bytes 4 (unat info) = 0 # drop 1 (be_bytes 4 (unat info))" using assms by simp
  then show ?thesis using be_read_4 [of info "[]"] by simp
qed

lemma ProcessMessage_fragment:
  assumes "k < 128" and "length part < 1456"
  shows "ProcessMessage (fragment_header msgID (fragment_info k l (length part)) @ part @ rest) st = store_fragment msgID k l part st"
proof -
  let ?i = "fragment_info k l (length part)" and ?f = "drop 1 (be_bytes 4 (unat (fragment_info k l (length part))))"
  have i: "unat (?i AND 0x1FFF) = length part" "?i AND 0x010000 \<noteq> 0 \<longleftrightarrow> l" "unat (ucast (drop_bit 17 ?i) :: byte) = k"
    "bufbe32toh (0 # ?f) 0 = Some ?i"
    using fragment_info_fields [of k "length part" l] read_fragment_info [of ?i] assms by simp_all
  have r: "bufbe32toh (be_bytes 4 (unat msgID) @ ?f @ part @ rest) 0 = Some msgID" "mem_read (be_bytes 4 (unat msgID) @ ?f @ part @ rest) 4 3 = Some ?f"
    "drop 7 (be_bytes 4 (unat msgID) @ ?f @ part @ rest) = part @ rest" "mem_read (part @ rest) 0 (length part) = Some part"
    by (simp_all add: be_read_4 mem_read_def)
  have z: "SSU_V4_MAX_PACKET_SIZE \<le> length part \<longleftrightarrow> False" using assms(2) by (simp add: ssu_defs SSU_MTU_V4_def)
  have pf: "process_fragments (Suc 0) (be_bytes 4 (unat msgID) @ ?f @ part @ rest) st = store_fragment msgID k l part st"
    unfolding process_fragments.simps r Option.bind.bind_lunit i Let_def z if_False
    by (cases "store_fragment msgID k l part st") simp_all
  have fl: "DATA_FLAG_WANT_REPLY AND (DATA_FLAG_ACK_BITFIELDS_INCLUDED OR DATA_FLAG_EXPLICIT_ACKS_INCLUDED) = 0"
    "DATA_FLAG_WANT_REPLY AND DATA_FLAG_EXTENDED_DATA_INCLUDED = 0"
    by (simp_all add: ssu_defs)
  have "ProcessFragments (1 # be_bytes 4 (unat msgID) @ ?f @ part @ rest) st = store_fragment msgID k l part st"
    using pf by (simp add: ProcessFragments_def read_byte_def mem_read_def)
  then show ?thesis
    by (simp add: ProcessMessage_def fragment_header_def read_byte_def mem_read_def message_acks_def fl)
qed


section \<open>Reassembly in any order\<close>

text \<open>A message under construction holds the bytes \<open>got\<close> behind the place of the full header.\<close>

definition assembling :: "incomplete_msg \<Rightarrow> bytes \<Rightarrow> bool" where
  "assembling im got \<longleftrightarrow> (let m = im_msg im in msg_offset m = 2 \<and> msg_len m = 13 + length got \<and> msg_len m \<le> length (msg_buf m) \<and>
     window (msg_buf m) 13 (length got) = got \<and> msg_maxLen m = 4096 \<and> (length (msg_buf m) = 4112 \<or> length (msg_buf m) = 32784))"

lemma assembling_new: "assembling (new_incomplete addr) []"
  by (simp add: assembling_def new_incomplete_def NewI2NPShortMessage_def I2NPMessageBuffer_def i2np_consts Let_def window_def)

lemma assembling_upd [simp]: "assembling (im\<lparr>im_saved := f\<rparr>) got = assembling im got"
  "assembling (im\<lparr>im_lastInsert := t\<rparr>) got = assembling im got"
  by (simp_all add: assembling_def)

lemma assembling_attach:
  assumes a: "assembling im got" and len: "13 + length got + length part \<le> 32784"
  obtains im' where "AttachNextFragment addr part im = Some im'" "assembling im' (got @ part)" "im_next im' = im_next im + 1"
    "im_saved im' = im_saved im" "im_lastInsert im' = im_lastInsert im"
proof -
  let ?m = "im_msg im"
  have f: "msg_offset ?m = 2" "msg_len ?m = 13 + length got" "msg_len ?m \<le> length (msg_buf ?m)" "window (msg_buf ?m) 13 (length got) = got"
    "msg_maxLen ?m = 4096" "length (msg_buf ?m) = 4112 \<or> length (msg_buf ?m) = 32784"
    using a by (simp_all add: assembling_def Let_def)
  define m where "m = (if msg_len ?m + length part > msg_maxLen ?m then
      (NewI2NPMessage addr)\<lparr>msg_buf := patch (replicate 32784 0) 2 (window (msg_buf ?m) 2 (11 + length got)), msg_len := 13 + length got,
        msg_from := msg_from ?m, msg_maxLen := 4096\<rparr> else ?m)"
  have m: "(if msg_len ?m + length part > msg_maxLen ?m then msg_assign (NewI2NPMessage addr) ?m else Some ?m) = Some m"
    using f len by (simp add: m_def msg_assign_def NewI2NPMessage_def I2NPMessageBuffer_def i2np_consts GetLength_def mem_read_window mem_write_patch)
  have "window (patch (replicate 32784 0) 2 (window (msg_buf ?m) 2 (11 + length got))) 13 (length got) = got"
  proof -
    have "window (patch (replicate 32784 0) 2 (window (msg_buf ?m) 2 (11 + length got))) (2 + 11) (length got) =
        take (length got) (drop 11 (window (msg_buf ?m) 2 (11 + length got)))"
      by (rule window_patch_inside) (use f len in simp_all)
    also have "\<dots> = window (msg_buf ?m) 13 (length got)" by (simp add: window_def drop_take)
    finally show ?thesis using f(4) by simp
  qed
  then have w: "window (msg_buf m) 13 (length got) = got" using f(4) by (simp add: m_def)
  have g: "msg_offset m = 2" "msg_len m = 13 + length got" "13 + length got + length part \<le> length (msg_buf m)"
    "msg_maxLen m = 4096" "length (msg_buf m) = 4112 \<or> length (msg_buf m) = 32784"
    using f len by (auto simp: m_def NewI2NPMessage_def I2NPMessageBuffer_def)
  let ?b = "patch (msg_buf m) (13 + length got) part"
  have "window ?b 13 (length (got @ part)) = got @ part"
    using window_add [of ?b 13 "length got" "length part"] window_patch_before [of "13 + length got" part "msg_buf m" 13 "length got"]
      window_patch_same [of "13 + length got" part "msg_buf m" "length part"] w g(3) by simp
  moreover have "AttachNextFragment addr part im =
      Some (im\<lparr>im_msg := m\<lparr>msg_buf := ?b, msg_len := msg_len m + length part\<rparr>, im_next := im_next im + 1\<rparr>)"
    using g(2,3) unfolding AttachNextFragment_def Let_def m by (simp add: mem_write_patch)
  ultimately show thesis
    using g by (intro that [of "im\<lparr>im_msg := m\<lparr>msg_buf := ?b, msg_len := msg_len m + length part\<rparr>, im_next := im_next im + 1\<rparr>"])
      (simp_all add: assembling_def Let_def)
qed

definition fragment_of :: "bytes list \<Rightarrow> nat \<Rightarrow> ssu_fragment" where
  "fragment_of parts i = \<lparr>fr_num = i, fr_len = length (parts ! i), fr_last = (i + 1 = length parts), fr_buf = parts ! i\<rparr>"

lemma insert_fragment_sorted:
  "sorted_wrt (<) xs \<Longrightarrow> insert_fragment (fragment_of parts i) (map (fragment_of parts) xs) =
     (map (fragment_of parts) (if i \<in> set xs then xs else insort i xs), i \<notin> set xs)"
  by (induction xs) (auto simp: fragment_of_def)

lemma insert_fragment_set:
  assumes "finite A"
  shows "insert_fragment (fragment_of parts i) (map (fragment_of parts) (sorted_list_of_set A)) =
     (map (fragment_of parts) (sorted_list_of_set (insert i A)), i \<notin> A)"
  using insert_fragment_sorted [of "sorted_list_of_set A" parts i] assms
  by (cases "i \<in> A") (simp_all add: insert_absorb sorted_list_of_set_insert_remove)

lemma concat_take_Suc: "k < length parts \<Longrightarrow> concat (take k parts) @ parts ! k = concat (take (k + 1) parts)"
  by (simp add: take_Suc_conv_app_nth)

lemma length_concat_take: "length (concat (take k parts)) \<le> length (concat parts)"
  by (metis append_take_drop_id concat_append length_append le_add1)

lemma attach_saved_all:
  assumes "sorted_wrt (<) xs" and "\<forall>x \<in> set xs. im_next im \<le> x \<and> x < length parts"
    and "assembling im (concat (take (im_next im) parts))" and "length (concat parts) \<le> 32771"
  shows "\<exists>im' j. attach_saved addrs a (map (fragment_of parts) xs) l im = Some (im', if j = im_next im then l else j = length parts) \<and>
    im_next im' = j \<and> im_next im \<le> j \<and> {im_next im..<j} \<subseteq> set xs \<and> j \<notin> set xs \<and> assembling im' (concat (take j parts)) \<and>
    im_saved im' = map (fragment_of parts) (filter (\<lambda>x. j < x) xs)"
  using assms(1-3)
proof (induction xs arbitrary: im l a)
  case Nil
  then show ?case by (intro exI [of _ "im\<lparr>im_saved := []\<rparr>"] exI [of _ "im_next im"]) simp
next
  case (Cons x xs)
  show ?case
  proof (cases "x = im_next im")
    case True
    have x: "x < length parts" using Cons.prems(2) by simp
    have len: "13 + length (concat (take x parts)) + length (parts ! x) \<le> 32784"
      using length_concat_take [of "x + 1" parts] assms(4) unfolding concat_take_Suc [OF x, symmetric] by simp
    obtain im1 where im1: "AttachNextFragment (addrs a) (parts ! x) im = Some im1" "assembling im1 (concat (take (x + 1) parts))"
      "im_next im1 = x + 1"
      using assembling_attach [OF Cons.prems(3) [folded True] len] True concat_take_Suc [OF x] by metis
    have s: "sorted_wrt (<) xs" "\<forall>y \<in> set xs. im_next im1 \<le> y \<and> y < length parts" using Cons.prems(1,2) im1(3) by auto
    obtain im' j where IH: "attach_saved addrs (a + 1) (map (fragment_of parts) xs) (x + 1 = length parts) im1 =
        Some (im', if j = im_next im1 then x + 1 = length parts else j = length parts)" "im_next im' = j" "im_next im1 \<le> j"
      "{im_next im1..<j} \<subseteq> set xs" "j \<notin> set xs" "assembling im' (concat (take j parts))"
      "im_saved im' = map (fragment_of parts) (filter (\<lambda>x. j < x) xs)"
      using Cons.IH [OF s, of "a + 1" "x + 1 = length parts"] im1(2,3) by auto
    have rd: "mem_read (parts ! x) 0 (length (parts ! x)) = Some (parts ! x)" by (simp add: mem_read_def)
    have "attach_saved addrs a (map (fragment_of parts) (x # xs)) l im = Some (im', if j = im_next im then l else j = length parts)"
      using True im1 IH(1,3) rd by (simp add: fragment_of_def)
    moreover have "{im_next im..<j} \<subseteq> set (x # xs)"
    proof
      fix y assume "y \<in> {im_next im..<j}"
      then show "y \<in> set (x # xs)" using IH(4) im1(3) True by (cases "y = x") auto
    qed
    ultimately show ?thesis using IH im1(3) True by (intro exI [of _ im'] exI [of _ j]) auto
  next
    case False
    then have "im_next im < x" using Cons.prems(2) by fastforce
    moreover have "filter ((<) (im_next im)) (x # xs) = x # xs" using calculation Cons.prems(1) by (intro filter_True) auto
    moreover have "fr_num (fragment_of parts x) \<noteq> im_next im" using False by (simp add: fragment_of_def)
    ultimately show ?thesis using Cons.prems
      by (intro exI [of _ "im\<lparr>im_saved := map (fragment_of parts) (x # xs)\<rparr>"] exI [of _ "im_next im"]) auto
  qed
qed


text \<open>The fragments in \<open>S\<close> have arrived, and some are missing.\<close>

definition rx :: "bytes list \<Rightarrow> nat set \<Rightarrow> incomplete_msg \<Rightarrow> bool" where
  "rx parts S im \<longleftrightarrow> im_next im \<notin> S \<and> {0..<im_next im} \<subseteq> S \<and> assembling im (concat (take (im_next im) parts)) \<and>
     im_saved im = map (fragment_of parts) (sorted_list_of_set {i \<in> S. im_next im < i})"

lemma rx_new: "rx parts {} (new_incomplete addr)"
  using assembling_new [of addr] by (simp add: rx_def) (simp add: new_incomplete_def)

lemma sorted_list_filter: "finite A \<Longrightarrow> filter P (sorted_list_of_set A) = sorted_list_of_set {i \<in> A. P i}"
  by (rule sorted_distinct_set_unique) (auto simp: sorted_wrt_filter)

lemma handle_ahead:
  assumes "im_next im < i" and "insert_fragment \<lparr>fr_num = i, fr_len = length part, fr_last = l, fr_buf = part\<rparr> (im_saved im) = (saved, new)"
  shows "handle_fragment addrs a ts i l part im = Some (im\<lparr>im_saved := saved, im_lastInsert := (if new then ts else im_lastInsert im)\<rparr>, False)"
  using assms by (simp add: handle_fragment_def)

lemma handle_fragment_rx:
  assumes r: "rx parts S im" and S: "S \<subset> {0..<length parts}" and i: "i < length parts" and len: "length (concat parts) \<le> 32771"
  obtains im' where "handle_fragment addrs a ts i (i + 1 = length parts) (parts ! i) im = Some (im', insert i S = {0..<length parts})"
    "insert i S \<noteq> {0..<length parts} \<longrightarrow> rx parts (insert i S) im'"
    "insert i S = {0..<length parts} \<longrightarrow> assembling im' (concat parts)"
proof -
  let ?n = "length parts" and ?k = "im_next im" and ?A = "{x \<in> S. im_next im < x}"
  have f: "?k \<notin> S" "{0..<?k} \<subseteq> S" "assembling im (concat (take ?k parts))" "im_saved im = map (fragment_of parts) (sorted_list_of_set ?A)"
    using r by (simp_all add: rx_def)
  have fin: "finite S" using S finite_subset by blast
  have kn: "?k < ?n"
  proof (rule ccontr)
    assume "\<not> ?k < ?n"
    then have "{0..<?n} \<subseteq> S" using f(2) by auto
    then show False using S by auto
  qed
  consider (here) "i = ?k" | (old) "i < ?k" | (ahead) "?k < i" by linarith
  then show thesis
  proof cases
    case old
    then have "insert i S = S" using f(2) by auto
    moreover have "handle_fragment addrs a ts i (i + 1 = ?n) (parts ! i) im = Some (im, False)"
      using old by (simp add: handle_fragment_def)
    ultimately show thesis using that [of im] r S by auto
  next
    case ahead
    have "?k \<notin> insert i S" by (metis insert_iff less_irrefl f(1) ahead)
    then have ne: "insert i S \<noteq> {0..<?n}" using kn by (metis atLeastLessThan_iff zero_le)
    have A: "insert i ?A = {x \<in> insert i S. ?k < x}" using ahead by auto
    have "finite ?A" using fin by simp
    from insert_fragment_set [OF this, of parts i]
    have ins: "insert_fragment (fragment_of parts i) (im_saved im) =
        (map (fragment_of parts) (sorted_list_of_set {x \<in> insert i S. ?k < x}), i \<notin> ?A)"
      unfolding A f(4) .
    have fo: "\<lparr>fr_num = i, fr_len = length (parts ! i), fr_last = (i + 1 = ?n), fr_buf = parts ! i\<rparr> = fragment_of parts i"
      by (rule fragment_of_def [symmetric])
    let ?im = "im\<lparr>im_saved := map (fragment_of parts) (sorted_list_of_set {x \<in> insert i S. ?k < x}),
      im_lastInsert := (if i \<notin> ?A then ts else im_lastInsert im)\<rparr>"
    have "handle_fragment addrs a ts i (i + 1 = ?n) (parts ! i) im = Some (?im, False)"
      by (rule handle_ahead [OF ahead]) (unfold fo, rule ins)
    moreover have "rx parts (insert i S) ?im"
      using f(1-3) ahead unfolding rx_def by (simp only: incomplete_msg.simps assembling_upd) auto
    ultimately show thesis by (intro that [of ?im]) (use ne in simp_all)
  next
    case here
    have len1: "13 + length (concat (take ?k parts)) + length (parts ! i) \<le> 32784"
      using length_concat_take [of "?k + 1" parts] len here unfolding concat_take_Suc [OF kn, symmetric] by simp
    obtain im1 where im1: "AttachNextFragment (addrs a) (parts ! i) im = Some im1" "assembling im1 (concat (take (?k + 1) parts))"
      "im_next im1 = ?k + 1" "im_saved im1 = im_saved im"
      using assembling_attach [OF f(3) len1, of "addrs a"] here concat_take_Suc [OF kn] by metis
    let ?xs = "sorted_list_of_set ?A"
    have xs: "sorted_wrt (<) ?xs" "set ?xs = ?A" using fin by simp_all
    have x: "\<forall>x \<in> set ?xs. im_next im1 \<le> x \<and> x < ?n" using xs(2) S im1(3) by auto
    have a1: "assembling im1 (concat (take (im_next im1) parts))" using im1(2,3) by simp
    obtain im2 j where j: "attach_saved addrs (a + 1) (map (fragment_of parts) ?xs) (i + 1 = ?n) im1 =
        Some (im2, if j = im_next im1 then i + 1 = ?n else j = ?n)" "im_next im2 = j" "im_next im1 \<le> j" "{im_next im1..<j} \<subseteq> set ?xs"
      "j \<notin> set ?xs" "assembling im2 (concat (take j parts))" "im_saved im2 = map (fragment_of parts) (filter (\<lambda>x. j < x) ?xs)"
      using attach_saved_all [OF xs(1) x a1 len] by blast
    have "attach_saved addrs (a + 1) (im_saved im1) (i + 1 = ?n) im1 = Some (im2, j = ?n)"
      using j(1) im1(3,4) f(4) here by auto
    moreover have "(im1, i + 1 = ?n) = (im2, j = ?n)" if "i + 1 = ?n \<or> im_saved im1 = []"
    proof -
      have e: "?xs = []" using that x im1(3,4) f(4) here by (cases ?xs) auto
      then have "im1\<lparr>im_saved := []\<rparr> = im1" using im1(4) f(4) by (cases im1) simp
      then show ?thesis using j(1,2) im1(3) here unfolding e by auto
    qed
    ultimately have "handle_fragment addrs a ts i (i + 1 = ?n) (parts ! i) im = Some (im2, j = ?n)"
      using im1(1) here by (cases "i + 1 = ?n \<or> im_saved im1 = []") (simp_all add: handle_fragment_def, blast)
    moreover have "insert i S = {0..<?n} \<longleftrightarrow> j = ?n"
    proof
      assume "insert i S = {0..<?n}"
      moreover have "j \<notin> insert i S" using j(3,5) xs(2) im1(3) here f(1) by auto
      moreover have "j \<le> ?n"
      proof (cases "j = im_next im1")
        case False
        then have "j - 1 \<in> set ?xs" using j(3,4) by auto
        then show ?thesis using x by fastforce
      qed (use kn im1(3) in simp)
      ultimately show "j = ?n" by auto
    next
      assume "j = ?n"
      then have "{?k + 1..<?n} \<subseteq> S" using j(4) xs(2) im1(3) by auto
      moreover have "{0..<?n} \<subseteq> {0..<?k} \<union> {i} \<union> {?k + 1..<?n}" using here by auto
      ultimately have "{0..<?n} \<subseteq> insert i S" using f(2) by blast
      then show "insert i S = {0..<?n}" using S i by auto
    qed
    moreover have "rx parts (insert i S) im2" if "j \<noteq> ?n"
    proof -
      have "{0..<j} \<subseteq> {0..<?k} \<union> {i} \<union> {?k + 1..<j}" using here by auto
      then have "{0..<j} \<subseteq> insert i S" using f(2) j(4) xs(2) im1(3) by auto
      moreover have "{x \<in> ?A. j < x} = {x \<in> insert i S. j < x}" using j(3) im1(3) here by auto
      moreover have "j \<notin> insert i S" using j(3,5) xs(2) im1(3) here f(1) by auto
      ultimately show ?thesis using j(2,6,7) fin by (simp add: rx_def sorted_list_filter)
    qed
    moreover have "assembling im2 (concat parts)" if "j = ?n" using j(6) that by simp
    ultimately show thesis using that [of im2] by auto
  qed
qed


section \<open>One fragment at the receiver\<close>

text \<open>The messages handed to the I2NP handler.\<close>

fun put_next :: "ssu_event list \<Rightarrow> i2np_msg list" where
  "put_next [] = []"
| "put_next (PutNextMessage m # es) = m # put_next es"
| "put_next (_ # es) = put_next es"

lemma put_next_append [simp]: "put_next (xs @ ys) = put_next xs @ put_next ys"
  by (induction xs rule: put_next.induct) simp_all

text \<open>Sending bytes of a session.\<close>

definition sends_only :: "ssu_st \<Rightarrow> ssu_st \<Rightarrow> bool" where
  "sends_only st st' \<longleftrightarrow> (\<exists>b c out. st' = ((fst st)\<lparr>s_NumSentBytes := b\<rparr>, (snd st)\<lparr>n_count := c, n_out := n_out (snd st) @ out\<rparr>) \<and> put_next out = [])"

lemma sends_only_refl: "sends_only st st"
  unfolding sends_only_def
  by (rule exI [of _ "s_NumSentBytes (fst st)"], rule exI [of _ "n_count (snd st)"], rule exI [of _ "[]"]) (cases st; simp)

lemma sends_only_emit: "sends_only (s, n) (s\<lparr>s_NumSentBytes := b\<rparr>, emit (SendTo p e) (n\<lparr>n_count := c\<rparr>))"
  unfolding sends_only_def emit_def
  by (rule exI [of _ b], rule exI [of _ c], rule exI [of _ "[SendTo p e]"]) simp

lemma encrypt_and_send:
  assumes "net_ok n" and "length (s_MacKey s) = 32" and "packet_size len buf"
  obtains st' where "Option.bind (session_encrypt t buf len (s, n)) (\<lambda>(b, st). session_send b len st) = Some st'" "sends_only (s, n) st'"
proof -
  obtain b where b: "session_encrypt t buf len (s, n) = Some (b, (s, n\<lparr>n_count := n_count n + 1\<rparr>))" "length b = length buf"
    by (rule session_encrypt_carries [OF assms, of t])
  have "len \<le> length b" using b(2) assms(3) by (simp add: packet_size_def)
  from session_send_defined [OF this] show thesis
    using that sends_only_emit b(1) by simp
qed

lemma SendMsgAck_defined:
  assumes "net_ok n" and "length (s_MacKey s) = 32"
  obtains st' where "SendMsgAck msgID (s, n) = Some st'" "sends_only (s, n) st'"
proof -
  let ?p = "[DATA_FLAG_EXPLICIT_ACKS_INCLUDED, 1] @ be_bytes 4 (unat msgID) @ [0]"
  let ?b = "patch (replicate 66 (n_garbage n)) 37 ?p"
  have "packet_size 48 ?b" by (simp add: packet_size_def)
  from encrypt_and_send [OF assms this, of PAYLOAD_TYPE_DATA] obtain st' where
    "Option.bind (session_encrypt PAYLOAD_TYPE_DATA ?b 48 (s, n)) (\<lambda>(b, st). session_send b 48 st) = Some st'" "sends_only (s, n) st'" .
  then show thesis using that by (simp add: SendMsgAck_def mem_write_patch SSU_HEADER_SIZE_MIN_def)
qed

lemma SendFragmentAck_defined:
  assumes "net_ok n" and "length (s_MacKey s) = 32"
  obtains st' where "SendFragmentAck msgID k (s, n) = Some st'" "sends_only (s, n) st'"
proof (cases "k > 64")
  case True
  then show thesis using that sends_only_refl by (simp add: SendFragmentAck_def)
next
  case False
  let ?p = "[DATA_FLAG_ACK_BITFIELDS_INCLUDED, 1] @ be_bytes 4 (unat msgID) @ replicate (k div 7) 0x80 @ [push_bit (k mod 7) 0x01] @ [0]"
  let ?b = "patch (replicate 82 (n_garbage n)) 37 ?p" and ?l = "if k div 7 < 4 then 48 else 64 :: nat"
  have "k div 7 \<le> 9" using False by linarith
  then have l: "37 + length ?p \<le> 82" by simp
  have "packet_size ?l ?b" using l by (simp add: packet_size_def)
  from encrypt_and_send [OF assms this, of PAYLOAD_TYPE_DATA] obtain st' where
    "Option.bind (session_encrypt PAYLOAD_TYPE_DATA ?b ?l (s, n)) (\<lambda>(b, st). session_send b ?l st) = Some st'" "sends_only (s, n) st'" .
  then show thesis using that False l by (simp add: SendFragmentAck_def mem_write_patch SSU_HEADER_SIZE_MIN_def)
qed

lemma SendMsgAck_any:
  assumes "net_ok (snd st)" and "length (s_MacKey (fst st)) = 32"
  obtains st' where "SendMsgAck msgID st = Some st'" "sends_only st st'"
  using SendMsgAck_defined [OF assms, of msgID] by auto

lemma SendFragmentAck_any:
  assumes "net_ok (snd st)" and "length (s_MacKey (fst st)) = 32"
  obtains st' where "SendFragmentAck msgID k st = Some st'" "sends_only st st'"
  using SendFragmentAck_defined [OF assms, of msgID k] by auto

definition session_of :: "ssu_session \<Rightarrow> ssu_net \<Rightarrow> ssu_st \<Rightarrow> bool" where
  "session_of s0 n0 st \<longleftrightarrow> (let s = fst st in s_State s = eSessionStateEstablished \<and> s_IsSessionKey s \<and> s_SessionKey s = s_SessionKey s0 \<and>
       s_MacKey s = s_MacKey s0 \<and> s_RemoteEndpoint s = s_RemoteEndpoint s0) \<and>
     net_ok (snd st) \<and> n_env (snd st) = n_env n0 \<and> n_sessions (snd st) = n_sessions n0 \<and> length (s_MacKey s0) = 32"

lemma session_of_upd [simp]:
  "session_of s0 n0 (upd_data f st) = session_of s0 n0 st" "session_of s0 n0 (s, n\<lparr>n_count := c\<rparr>) = session_of s0 n0 (s, n)"
  "session_of s0 n0 (s, emit e n) = session_of s0 n0 (s, n)" "session_of s0 n0 (s\<lparr>s_IsDataReceived := b\<rparr>, n) = session_of s0 n0 (s, n)"
  "session_of s0 n0 (fst (upd_data f st), n) = session_of s0 n0 (fst st, n)"
  "session_of s0 n0 (fst (arrived a l w) a, n) = session_of s0 n0 (fst w a, n)"
  by (simp_all add: session_of_def upd_data_def emit_def Let_def net_ok_def)

lemma session_of_sends: "sends_only st st' \<Longrightarrow> session_of s0 n0 st' = session_of s0 n0 st"
  by (auto simp: sends_only_def session_of_def Let_def net_ok_def)

lemma sends_only_facts:
  assumes "sends_only st st'"
  shows "s_Data (fst st') = s_Data (fst st)" "put_next (n_out (snd st')) = put_next (n_out (snd st))"
  using assms by (auto simp: sends_only_def)

definition incoming :: "32 word \<Rightarrow> bytes list \<Rightarrow> nat set \<Rightarrow> 32 word list \<Rightarrow> i2np_msg list \<Rightarrow> ssu_st \<Rightarrow> bool" where
  "incoming msgID parts S received put st \<longleftrightarrow> d_Received (s_Data (fst st)) = received \<and> put_next (n_out (snd st)) = put \<and>
     (case map_of (d_Incomplete (s_Data (fst st))) msgID of None \<Rightarrow> S = {} | Some im \<Rightarrow> rx parts S im)"

lemma incoming_sends: "sends_only st st' \<Longrightarrow> incoming msgID parts S r p st' = incoming msgID parts S r p st"
  using sends_only_facts [of st st'] by (simp add: incoming_def)

lemma store_fragment_incoming:
  assumes s: "session_of s0 n0 st" and r: "incoming msgID parts S r p st" and S: "S \<subset> {0..<length parts}" and i: "i < length parts"
    and len: "length (concat parts) \<le> 32771" and new: "msgID \<notin> set r"
    and whole: "\<And>im. assembling im (concat parts) \<Longrightarrow> \<exists>m. FromSSU (im_msg im) msgID = Some m \<and> msg_content m = c"
  obtains st' where "store_fragment msgID i (i + 1 = length parts) (parts ! i) st = Some st'" "session_of s0 n0 st'"
    "insert i S \<noteq> {0..<length parts} \<longrightarrow> incoming msgID parts (insert i S) r p st'"
    "insert i S = {0..<length parts} \<longrightarrow> (\<exists>m. put_next (n_out (snd st')) = p @ [m] \<and> msg_content m = c)"
proof -
  obtain s n where st: "st = (s, n)" by (cases st)
  let ?im = "case map_of (d_Incomplete (data_of st)) msgID of Some im \<Rightarrow> im | None \<Rightarrow> new_incomplete (n_alloc n (n_count n))"
  have rxi: "rx parts S ?im" using r rx_new by (auto simp: incoming_def data_of_def split: option.splits)
  obtain im' where im': "handle_fragment (n_alloc n) (n_count n + 1) (now_s n) i (i + 1 = length parts) (parts ! i) ?im =
      Some (im', insert i S = {0..<length parts})" "insert i S \<noteq> {0..<length parts} \<longrightarrow> rx parts (insert i S) im'"
    "insert i S = {0..<length parts} \<longrightarrow> assembling im' (concat parts)"
    by (rule handle_fragment_rx [OF rxi S i len, of "n_alloc n" "n_count n + 1" "now_s n"])
  let ?n = "n\<lparr>n_count := n_count n + 2 + length (im_saved ?im)\<rparr>"
  have ok: "net_ok ?n" "length (s_MacKey s) = 32" using s st by (auto simp: session_of_def Let_def)
  show thesis
  proof (cases "insert i S = {0..<length parts}")
    case False
    let ?st = "upd_data (\<lambda>d. d\<lparr>d_Incomplete := omap_put msgID im' (d_Incomplete d)\<rparr>) (s, ?n)"
    have ok': "net_ok (snd ?st)" "length (s_MacKey (fst ?st)) = 32" using ok by (simp_all add: upd_data_def)
    obtain st' where a: "SendFragmentAck msgID i ?st = Some st'" "sends_only ?st st'"
      by (rule SendFragmentAck_any [OF ok'])
    have "store_fragment msgID i (i + 1 = length parts) (parts ! i) st = Some st'"
      using im'(1) False a(1) by (simp add: store_fragment_def st)
    moreover have "session_of s0 n0 st'"
      using s session_of_sends [OF a(2), of s0 n0] st by simp
    moreover have "incoming msgID parts (insert i S) r p st'"
      using incoming_sends [OF a(2)] r im'(2) False by (simp add: incoming_def upd_data_def st map_of_omap_put)
    ultimately show thesis using False by (intro that) auto
  next
    case True
    let ?st = "upd_data (\<lambda>d. d\<lparr>d_Incomplete := omap_erase msgID (d_Incomplete d)\<rparr>) (s, ?n)"
    have ok': "net_ok (snd ?st)" "length (s_MacKey (fst ?st)) = 32" using ok by (simp_all add: upd_data_def)
    obtain st1 where a: "SendMsgAck msgID ?st = Some st1" "sends_only ?st st1"
      by (rule SendMsgAck_any [OF ok'])
    obtain m where m: "FromSSU (im_msg im') msgID = Some m" "msg_content m = c" using whole im'(3) True by blast
    have s1: "session_of s0 n0 st1" using s session_of_sends [OF a(2), of s0 n0] st by simp
    then have e: "s_State (fst st1) = eSessionStateEstablished" by (simp add: session_of_def Let_def)
    have d: "d_Received (s_Data (fst st1)) = r" "put_next (n_out (snd st1)) = p"
      using sends_only_facts [OF a(2)] r by (simp_all add: incoming_def upd_data_def st)
    let ?st1 = "upd_data (\<lambda>d. d\<lparr>d_Received := msgID # d_Received d\<rparr>) (upd_data (\<lambda>d. if length (d_Received d) > MAX_NUM_RECEIVED_MESSAGES
                then d\<lparr>d_Received := []\<rparr> else ScheduleDecay d) st1)"
    have "deliver_message msgID (im_msg im') ?st = Some (fst ?st1, emit (PutNextMessage m) (snd ?st1))"
      using a(1) m(1) e new d(1) by (simp add: deliver_message_def data_of_def Let_def)
    then have "store_fragment msgID i (i + 1 = length parts) (parts ! i) st = Some (fst ?st1, emit (PutNextMessage m) (snd ?st1))"
      using im'(1) True by (simp add: store_fragment_def st)
    moreover have "session_of s0 n0 (fst ?st1, emit (PutNextMessage m) (snd ?st1))"
      using s1 by simp
    moreover have "insert i S \<noteq> {0..<length parts} \<longrightarrow> incoming msgID parts (insert i S) r p (fst ?st1, emit (PutNextMessage m) (snd ?st1))"
      using True by simp
    moreover have "put_next (n_out (emit (PutNextMessage m) (snd ?st1))) = p @ [m]" using d(2) by (simp add: emit_def upd_data_def)
    then have "insert i S = {0..<length parts} \<longrightarrow> (\<exists>m'. put_next (n_out (snd (fst ?st1, emit (PutNextMessage m) (snd ?st1)))) = p @ [m'] \<and> msg_content m' = c)"
      using m(2) by (auto simp only: snd_conv)
    ultimately show thesis by (rule that)
  qed
qed


section \<open>The packets of a message arrive\<close>

lemma process_data_packet:
  assumes p: "data_packet n0 (s_SessionKey s0) (s_MacKey s0) msgID k l part pkt" and k: "k < 128" "length part < 1456" "0 < length part"
    and s: "session_of s0 n0 (fst w a, snd w)" and buf: "packet_size (length pkt) r" "take (length pkt) r = pkt"
  shows "ProcessNextMessage a r (length pkt) sender w =
    finished (on_session a (\<lambda>st. map_option (\<lambda>st. ((fst st)\<lparr>s_IsDataReceived := True\<rparr>, snd st)) (store_fragment msgID k l part st)) (arrived a (length pkt) w))"
proof -
  obtain pad where c: "net_carries n0 (s_SessionKey s0) (s_MacKey s0) PAYLOAD_TYPE_DATA (fragment_header msgID (fragment_info k l (length part)) @ part @ pad) pkt"
    using p by (auto simp: data_packet_def)
  let ?body = "fragment_header msgID (fragment_info k l (length part)) @ part @ pad"
  have st: "s_State (fst w a) = eSessionStateEstablished" "s_IsSessionKey (fst w a)" "s_SessionKey (fst w a) = s_SessionKey s0"
    "s_MacKey (fst w a) = s_MacKey s0" "n_env (snd w) = n_env n0"
    using s by (simp_all add: session_of_def Let_def)
  have c': "carries (se_aes (n_env (snd w))) (se_md5 (n_env (snd w))) (s_SessionKey s0) (s_MacKey s0) PAYLOAD_TYPE_DATA ?body pkt"
    using c st(5) by simp
  have b: "11 \<le> length ?body" using p c by (simp add: data_packet_def carries_def)
  have t: "PAYLOAD_TYPE_DATA < 16" by (simp add: payload_types)
  have ks: "if s_IsSessionKey (fst w a) then s_SessionKey s0 = s_SessionKey (fst w a) \<and> s_MacKey s0 = s_MacKey (fst w a)
      else GetIntroKey (fst w a, snd w) = Some (s_SessionKey s0) \<and> s_MacKey s0 = s_SessionKey s0" using st by simp
  have ni: "s_State (fst w a) \<noteq> eSessionStateIntroduced" using st(1) by simp
  obtain r2 where r2: "ProcessNextMessage a r (length pkt) sender w =
      process_payload a PAYLOAD_TYPE_DATA (plain_packet r2 (length pkt - length pkt mod 16)) sender (arrived a (length pkt) w)"
    "take (length ?body) (drop 37 r2) = ?body"
    by (rule carried_dispatch [OF c' t b buf ni ks, of sender])
  have d: "drop 37 r2 = fragment_header msgID (fragment_info k l (length part)) @ part @ pad @ drop (length ?body) (drop 37 r2)"
    using append_take_drop_id [of "length ?body" "drop 37 r2"] unfolding r2(2) by simp
  have "ProcessData (plain_packet r2 (length pkt - length pkt mod 16)) = (\<lambda>st. map_option (\<lambda>st. ((fst st)\<lparr>s_IsDataReceived := True\<rparr>, snd st)) (store_fragment msgID k l part st))"
    using ProcessMessage_fragment [OF k(1,2), of msgID l "pad @ drop (length ?body) (drop 37 r2)"] unfolding d [symmetric]
    by (simp add: ProcessData_def plain_packet_def map_option_bind fun_eq_iff)
  then show ?thesis using r2(1) by (simp add: process_payload_def)
qed


definition arrives :: "bytes list \<Rightarrow> nat \<times> bytes \<Rightarrow> bool" where
  "arrives pkts x \<longleftrightarrow> fst x < length pkts \<and> packet_size (length (pkts ! fst x)) (snd x) \<and>
     take (length (pkts ! fst x)) (snd x) = pkts ! fst x"

definition datagram :: "bytes list \<Rightarrow> endpoint \<Rightarrow> nat \<times> bytes \<Rightarrow> bytes \<times> nat \<times> endpoint" where
  "datagram pkts from x = (snd x, length (pkts ! fst x), from)"

text \<open>What the receiver of a message holds against it: the parts, their packets, and what the whole becomes.\<close>

definition carried_message :: "ssu_net \<Rightarrow> ssu_session \<Rightarrow> 32 word \<Rightarrow> bytes list \<Rightarrow> bytes list \<Rightarrow> bytes \<Rightarrow> bool" where
  "carried_message n0 s0 msgID parts pkts c \<longleftrightarrow> length pkts = length parts \<and> length parts \<le> 128 \<and> length (concat parts) \<le> 32771 \<and>
     (\<forall>p \<in> set parts. 0 < length p \<and> length p < 1456) \<and>
     (\<forall>i < length pkts. data_packet n0 (s_SessionKey s0) (s_MacKey s0) msgID i (i + 1 = length pkts) (parts ! i) (pkts ! i)) \<and>
     (\<forall>im. assembling im (concat parts) \<longrightarrow> (\<exists>m. FromSSU (im_msg im) msgID = Some m \<and> msg_content m = c))"

lemma incoming_arrived [simp]: "incoming msgID parts S r p (fst (arrived a l w) a, n) = incoming msgID parts S r p (fst w a, n)"
  "incoming msgID parts S r p (s\<lparr>s_IsDataReceived := b\<rparr>, n) = incoming msgID parts S r p (s, n)"
  by (simp_all add: incoming_def)

lemma packet_incoming:
  assumes m: "carried_message n0 s0 msgID parts pkts c" and s: "session_of s0 n0 (fst w a, snd w)"
    and r: "incoming msgID parts S r p (fst w a, snd w)" and S: "S \<subset> {0..<length parts}" and x: "arrives pkts x" and new: "msgID \<notin> set r"
  obtains w' where "ProcessNextMessage a (snd x) (length (pkts ! fst x)) sender w = Some (True, w')" "session_of s0 n0 (fst w' a, snd w')"
    "insert (fst x) S \<noteq> {0..<length parts} \<longrightarrow> incoming msgID parts (insert (fst x) S) r p (fst w' a, snd w')"
    "insert (fst x) S = {0..<length parts} \<longrightarrow> (\<exists>m. put_next (n_out (snd w')) = p @ [m] \<and> msg_content m = c)"
proof -
  obtain i b where ib: "x = (i, b)" by (cases x)
  have i: "i < length parts" "i < length pkts" and l: "length pkts = length parts" using x m ib by (auto simp: arrives_def carried_message_def)
  have part: "0 < length (parts ! i)" "length (parts ! i) < 1456" "i < 128" "length (concat parts) \<le> 32771"
    using m i by (auto simp: carried_message_def)
  have dp: "data_packet n0 (s_SessionKey s0) (s_MacKey s0) msgID i (i + 1 = length parts) (parts ! i) (pkts ! i)"
    using m i(2) l by (auto simp: carried_message_def)
  have b: "packet_size (length (pkts ! i)) b" "take (length (pkts ! i)) b = pkts ! i" using x ib by (simp_all add: arrives_def)
  let ?w = "arrived a (length (pkts ! i)) w"
  have s': "session_of s0 n0 (fst ?w a, snd ?w)" and r': "incoming msgID parts S r p (fst ?w a, snd ?w)" using s r by simp_all
  have whole: "\<And>im. assembling im (concat parts) \<Longrightarrow> \<exists>m. FromSSU (im_msg im) msgID = Some m \<and> msg_content m = c"
    using m by (auto simp: carried_message_def)
  obtain s1 n1 where st: "store_fragment msgID i (i + 1 = length parts) (parts ! i) (fst ?w a, snd ?w) = Some (s1, n1)" "session_of s0 n0 (s1, n1)"
    "insert i S \<noteq> {0..<length parts} \<longrightarrow> incoming msgID parts (insert i S) r p (s1, n1)"
    "insert i S = {0..<length parts} \<longrightarrow> (\<exists>m. put_next (n_out n1) = p @ [m] \<and> msg_content m = c)"
    using store_fragment_incoming [OF s' r' S i(1) part(4) new whole] by (metis prod.collapse snd_conv)
  let ?w' = "((fst ?w)(a := s1\<lparr>s_IsDataReceived := True\<rparr>), n1)"
  have "ProcessNextMessage a b (length (pkts ! i)) sender w = Some (True, ?w')"
    using process_data_packet [OF dp part(3,2,1) s b, of sender] st(1) by (simp add: finished_def on_session_def)
  then show thesis by (rule that [of ?w', unfolded ib fst_conv snd_conv]) (use st(2-4) in simp_all)
qed

lemma session_for_same: "s_RemoteEndpoint (fst w a) = e \<Longrightarrow> session_for e fresh (Some a) w = (a, w)"
  by (simp add: session_for_def)

lemma receive_incoming:
  assumes m: "carried_message n0 s0 msgID parts pkts c" and new: "msgID \<notin> set r" and e: "s_RemoteEndpoint s0 = e"
    and "session_of s0 n0 (fst w a, snd w)" and "incoming msgID parts S r p (fst w a, snd w)"
    and "session_for e fresh ses w = (a, w)" and "xs \<noteq> []" and "\<forall>x \<in> set xs. arrives pkts x"
    and "S \<union> fst ` set (butlast xs) \<subset> {0..<length parts}" and "S \<union> fst ` set xs = {0..<length parts}"
  shows "\<exists>w' m. receive_packets fresh (map (datagram pkts e) xs) ses w = Some w' \<and> put_next (n_out (snd w')) = p @ [m] \<and> msg_content m = c"
  using assms(4-)
proof (induction xs arbitrary: S w ses)
  case (Cons x xs)
  have S: "S \<subset> {0..<length parts}" using Cons.prems(6) by blast
  have x: "arrives pkts x" using Cons.prems(5) by simp
  obtain w1 where w1: "ProcessNextMessage a (snd x) (length (pkts ! fst x)) e w = Some (True, w1)" "session_of s0 n0 (fst w1 a, snd w1)"
    "insert (fst x) S \<noteq> {0..<length parts} \<longrightarrow> incoming msgID parts (insert (fst x) S) r p (fst w1 a, snd w1)"
    "insert (fst x) S = {0..<length parts} \<longrightarrow> (\<exists>m. put_next (n_out (snd w1)) = p @ [m] \<and> msg_content m = c)"
    by (rule packet_incoming [OF m Cons.prems(1,2) S x new, of e])
  have step: "receive_packets fresh (map (datagram pkts e) (x # xs)) ses w = receive_packets fresh (map (datagram pkts e) xs) (Some a) w1"
    using Cons.prems(3) w1(1) by (simp add: datagram_def)
  show ?case
  proof (cases "xs = []")
    case True
    have "put_next (n_out (snd (flush_session (Some a) w1))) = put_next (n_out (snd w1))"
      by (simp add: flush_session_def FlushData_def FlushReceivedMessage_def emit_def Let_def split: prod.splits)
    then show ?thesis using step w1(4) Cons.prems(7) True by simp
  next
    case False
    have "s_RemoteEndpoint (fst w1 a) = e" using w1(2) e by (simp add: session_of_def Let_def)
    moreover have "insert (fst x) S \<union> fst ` set (butlast xs) \<subset> {0..<length parts}" using Cons.prems(6) False by simp
    moreover have "insert (fst x) S \<noteq> {0..<length parts}" using calculation(2) by blast
    ultimately show ?thesis
      using Cons.IH [of w1 "insert (fst x) S" "Some a"] w1(2,3) Cons.prems(5,7) False session_for_same step by simp
  qed
qed simp


section \<open>A message from one router to the other\<close>

lemma ToSSU_window:
  assumes hh: "has_header m" and sz: "unat sz = length (msg_payload m)" and h: "window (msg_buf m) (msg_offset m) 16 = i2np_header t mid e sz ck"
  obtains m1 where "ToSSU m = Some (m1, mid)" "GetLength m1 = 5 + length (msg_payload m)" "GetSSUHeader m1 + GetLength m1 \<le> length (msg_buf m1)"
proof -
  have l: "msg_offset m + 16 + length (msg_payload m) \<le> length (msg_buf m)" using hh by (auto simp: has_header_def msg_payload_def)
  let ?sh = "t # be_bytes 4 (unat (ucast (e div 1000) :: 32 word))"
  have "msg_offset m + 11 + length ?sh \<le> length (msg_buf m)" using l by simp
  from mem_write_total [OF this] obtain b where b: "mem_write (msg_buf m) (msg_offset m + 11) ?sh = Some b" by blast
  then have "ToSSU m = Some (m\<lparr>msg_buf := b, msg_len := msg_offset m + 5 + unat sz\<rparr>, mid)" by (simp add: ToSSU_eq [OF hh h])
  then show thesis
    by (rule that) (use l sz mem_write_length [OF b] in \<open>simp_all add: GetLength_def GetSSUHeader_def I2NP_SHORT_HEADER_SIZE_def\<close>)
qed

text \<open>A session of the receiver that can take messages of the sender's session.\<close>

definition peer_session :: "ssu_st \<Rightarrow> endpoint \<Rightarrow> nat \<Rightarrow> ssu_world \<Rightarrow> bool" where
  "peer_session st from a w \<longleftrightarrow> (let s = fst w a in s_State s = eSessionStateEstablished \<and> s_IsSessionKey s \<and>
     s_SessionKey s = s_SessionKey (fst st) \<and> s_MacKey s = s_MacKey (fst st) \<and> s_RemoteEndpoint s = from) \<and>
     net_ok (snd w) \<and> se_aes (n_env (snd w)) = se_aes (n_env (snd st)) \<and> se_md5 (n_env (snd w)) = se_md5 (n_env (snd st)) \<and>
     FindSession from w = Some a"



text \<open>Two routers with the same keys; the sender has nothing on its way.\<close>

definition peer_world :: ssu_world where
  "peer_world = ((\<lambda>_. test_session), test_net\<lparr>n_sessions := [(s_RemoteEndpoint test_session, 4)]\<rparr>)"


end
