(* ===== verification/SSU_Establish.thy ===== *)
theory SSU_Establish
  imports SSU_Transfer
begin

text \<open>
  The SSU handshake from end to end: the session request, created and confirmed packets of two routers
  that share the algorithms, and the state both have afterwards.
\<close>

section \<open>An established session\<close>

lemma CreateDatabaseStoreMsg_router_wire:
  assumes "length ident = 32" and "length (env_gzip env r) \<le> 4000"
  shows "\<exists>m. CreateDatabaseStoreMsg_router env rnd addr addr2 ident r 0 = Some m \<and>
    I2NP_Create.carries m eI2NPDatabaseStore rnd env (ident @ [0] @ be_bytes 4 0 @ be_bytes 2 (length (env_gzip env r)) @ env_gzip env r)"
proof -
  have "unat (word_of_nat (length (env_gzip env r)) :: 16 word) = length (env_gzip env r)" using assms(2) by (simp add: unat_of_nat)
  then show ?thesis
    using fill_patched [of "NewI2NPShortMessage addr" "ident @ [0] @ be_bytes 4 0 @ be_bytes 2 (length (env_gzip env r)) @ env_gzip env r" env rnd eI2NPDatabaseStore 0] assms
    by (auto simp: CreateDatabaseStoreMsg_router_def GetPayload_16 mem_simps add_len_def i2np_consts Let_def add.commute)
qed

definition store_ok :: "ssu_net \<Rightarrow> bool" where
  "store_ok n \<longleftrightarrow> (\<exists>b. ri_buffer (n_ri n) = Some b \<and> ri_bufferLen (n_ri n) \<le> length b \<and>
     length (env_gzip (n_i2np n) (take (ri_bufferLen (n_ri n)) b)) \<le> 4000) \<and> length (ix_hash (ri_identity (n_ri n))) = 32"

definition packet_size_ok :: "ssu_session \<Rightarrow> bool" where
  "packet_size_ok s \<longleftrightarrow> 46 < d_PacketSize (s_Data s) \<and> d_PacketSize (s_Data s) \<le> 1456"

text \<open>\<open>Send\<close> changes the messages on their way and the counters only.\<close>

definition sent_data :: "ssu_st \<Rightarrow> ssu_st \<Rightarrow> bool" where
  "sent_data st st' \<longleftrightarrow> (\<exists>b d t c out. st' = ((fst st)\<lparr>s_NumSentBytes := b, s_Data := (s_Data (fst st))\<lparr>d_Sent := d, d_ResendTimer := t\<rparr>\<rparr>,
     (snd st)\<lparr>n_count := c, n_out := n_out (snd st) @ out\<rparr>))"

lemma sent_data_refl: "sent_data st st"
  unfolding sent_data_def
  by (rule exI [of _ "s_NumSentBytes (fst st)"], rule exI [of _ "d_Sent (s_Data (fst st))"], rule exI [of _ "d_ResendTimer (s_Data (fst st))"],
      rule exI [of _ "n_count (snd st)"], rule exI [of _ "[]"]) (cases st; simp)

lemma SSUData_Send_defined:
  assumes n: "net_ok n" and mac: "length (s_MacKey s) = 32" and p: "packet_size_ok s"
    and m: "I2NP_Create.carries m t mid env bs" and len: "length bs < 65536"
  obtains st' where "SSUData_Send m (s, n) = Some st'" "sent_data (s, n) st'"
proof -
  have hh: "has_header m" "msg_payload m = bs" and c: "msg_content m = i2np_header t mid (env_now_ms env + 5000) (word_of_nat (length bs)) (hd (env_sha256 env bs)) @ bs"
    using m by (simp_all add: I2NP_Create.carries_def)
  have h: "window (msg_buf m) (msg_offset m) 16 = i2np_header t mid (env_now_ms env + 5000) (word_of_nat (length bs)) (hd (env_sha256 env bs))"
    using c msg_content_header_payload [OF hh(1)] hh(1) by (auto simp: hh(2) has_header_def)
  have sz: "unat (word_of_nat (length bs) :: 16 word) = length (msg_payload m)" using len hh(2) by (simp add: unat_of_nat)
  obtain m1 where m1: "ToSSU m = Some (m1, mid)" "GetLength m1 = 5 + length (msg_payload m)" "GetSSUHeader m1 + GetLength m1 \<le> length (msg_buf m1)"
    by (rule ToSSU_window [OF hh(1) sz h])
  show thesis
  proof (cases "map_of (d_Sent (s_Data s)) mid")
    case (Some x)
    then have "SSUData_Send m (s, n) = Some (s, n)" using m1(1) by (simp add: SSUData_Send_def data_of_def)
    then show thesis using that sent_data_refl by blast
  next
    case None
    obtain pkts frags where r: "SSUData_Send m (s, n) = Some (upd_data (\<lambda>d. (if d_Sent d = [] then ScheduleResend d else d)\<lparr>d_Sent := omap_put mid
        \<lparr>sm_fragments = map Some frags, sm_nextResend = now_s n + RESEND_INTERVAL, sm_numResends = 0\<rparr> (d_Sent d)\<rparr>) (send_all pkts (s, n)))"
      using SSUData_Send_sends [OF n mac _ _ m1(1,3) None] p unfolding packet_size_ok_def by metis
    let ?d = "omap_put mid \<lparr>sm_fragments = map Some frags, sm_nextResend = now_s n + RESEND_INTERVAL, sm_numResends = 0\<rparr> (d_Sent (s_Data s))"
    have "(if d_Sent d = [] then ScheduleResend d else d)\<lparr>d_Sent := x\<rparr> = d\<lparr>d_Sent := x, d_ResendTimer := (if d_Sent d = [] then [WaitResend] else d_ResendTimer d)\<rparr>" for d x
      by (cases d) (simp add: ScheduleResend_def)
    then have "sent_data (s, n) (upd_data (\<lambda>d. (if d_Sent d = [] then ScheduleResend d else d)\<lparr>d_Sent := omap_put mid
        \<lparr>sm_fragments = map Some frags, sm_nextResend = now_s n + RESEND_INTERVAL, sm_numResends = 0\<rparr> (d_Sent d)\<rparr>) (send_all pkts (s, n)))"
      unfolding sent_data_def
      by (intro exI [of _ "s_NumSentBytes s + length (concat pkts)"] exI [of _ ?d] exI [of _ "if d_Sent (s_Data s) = [] then [WaitResend] else d_ResendTimer (s_Data s)"]
          exI [of _ "n_count n + length pkts"] exI [of _ "map (\<lambda>p. SendTo p (s_RemoteEndpoint s)) pkts"]) (simp add: upd_data_def send_all_def)
    then show thesis using that r by blast
  qed
qed

lemma sent_data_facts:
  assumes "sent_data (s, n) (s', n')"
  shows "s_State s' = s_State s" "s_MacKey s' = s_MacKey s" "s_SessionKey s' = s_SessionKey s" "s_IsSessionKey s' = s_IsSessionKey s"
    "s_RemoteEndpoint s' = s_RemoteEndpoint s" "s_RemoteIdentity s' = s_RemoteIdentity s" "s_RemoteRouter s' = s_RemoteRouter s" "s_PeerTest s' = s_PeerTest s"
    "packet_size_ok s' = packet_size_ok s" "net_ok n' = net_ok n" "n_sessions n' = n_sessions n" "s_DHKeysPair s' = s_DHKeysPair s"
    "s_ConfirmData s' = s_ConfirmData s"
  using assms by (auto simp: sent_data_def packet_size_ok_def net_ok_def)

text \<open>A session that has no router info of its peer, or no peer test to make.\<close>

lemma Established_defined:
  assumes n: "net_ok n" and mac: "length (s_MacKey s) = 32" and p: "packet_size_ok s" and st: "store_ok n" and np: "\<not> s_PeerTest s"
  obtains s' n' where "Established (s, n) = Some (s', n')" "s_State s' = eSessionStateEstablished" "s_MacKey s' = s_MacKey s"
    "s_SessionKey s' = s_SessionKey s" "s_IsSessionKey s' = s_IsSessionKey s" "s_RemoteEndpoint s' = s_RemoteEndpoint s"
    "s_RemoteIdentity s' = s_RemoteIdentity s" "n_sessions n' = n_sessions n" "net_ok n'" "PeerConnected \<in> set (n_out n')" "s_ConfirmData s' = None"
    "s_DHKeysPair s' = None" "s_Timer s' = Some TerminationTimer"
proof -
  let ?s = "s\<lparr>s_ConfirmData := None, s_State := eSessionStateEstablished, s_DHKeysPair := None, s_Data := SSUData_Start (s_Data s)\<rparr>"
  obtain b where b: "ri_buffer (n_ri n) = Some b" "ri_bufferLen (n_ri n) \<le> length b"
    "length (env_gzip (n_i2np n) (take (ri_bufferLen (n_ri n)) b)) \<le> 4000" "length (ix_hash (ri_identity (n_ri n))) = 32"
    using st by (auto simp: store_ok_def)
  have "\<exists>m1 m2 c. established_messages n = Some (m1, m2, n\<lparr>n_count := c\<rparr>) \<and>
      (\<exists>i d. I2NP_Create.carries m1 eI2NPDeliveryStatus i (n_i2np n) d \<and> length d < 65536) \<and>
      (\<exists>i d. I2NP_Create.carries m2 eI2NPDatabaseStore i (n_i2np n) d \<and> length d < 65536)"
  proof -
    let ?c = "n_count n"
    obtain m1 where m1: "CreateDeliveryStatusMsg (n_i2np n) (n_rnd32 n (?c + 2)) (n_rnd32 n (?c + 1)) (n_alloc n ?c) 0 = Some m1"
      "I2NP_Create.carries m1 eI2NPDeliveryStatus (n_rnd32 n (?c + 2)) (n_i2np n) (be_bytes 4 (unat (n_rnd32 n (?c + 1))) @ be_bytes 8 2)"
      using CreateDeliveryStatusMsg_wire [of "n_i2np n" "n_rnd32 n (?c + 2)" "n_rnd32 n (?c + 1)" "n_alloc n ?c" 0] by auto
    let ?r = "take (ri_bufferLen (n_ri n)) b" and ?i = "ix_hash (ri_identity (n_ri n))"
    obtain m2 where m2: "CreateDatabaseStoreMsg_router (n_i2np n) (n_rnd32 n (?c + 5)) (n_alloc n (?c + 3)) (n_alloc n (?c + 4)) ?i ?r 0 = Some m2"
      "I2NP_Create.carries m2 eI2NPDatabaseStore (n_rnd32 n (?c + 5)) (n_i2np n) (?i @ [0] @ be_bytes 4 0 @ be_bytes 2 (length (env_gzip (n_i2np n) ?r)) @ env_gzip (n_i2np n) ?r)"
      using CreateDatabaseStoreMsg_router_wire [OF b(4,3)] by blast
    have "mem_read b 0 (ri_bufferLen (n_ri n)) = Some ?r" using b(2) by (simp add: mem_read_def)
    then have "established_messages n = Some (m1, m2, n\<lparr>n_count := ?c + 6\<rparr>)"
      using m1(1) m2(1) b(1) by (simp add: established_messages_def new_addr_def rnd_word_def Let_def numeral_eq_Suc)
    then show ?thesis using m1(2) m2(2) b(3,4) by (intro exI [of _ m1] exI [of _ m2] exI [of _ "?c + 6"] conjI) (simp, (intro exI conjI, assumption, simp)+)
  qed
  then obtain m1 m2 c i1 d1 i2 d2 where em: "established_messages n = Some (m1, m2, n\<lparr>n_count := c\<rparr>)"
    "I2NP_Create.carries m1 eI2NPDeliveryStatus i1 (n_i2np n) d1" "length d1 < 65536"
    "I2NP_Create.carries m2 eI2NPDatabaseStore i2 (n_i2np n) d2" "length d2 < 65536" by blast
  have ps: "packet_size_ok ?s" using p by (simp add: packet_size_ok_def SSUData_Start_def ScheduleIncompleteMessagesCleanup_def)
  have nc: "net_ok (n\<lparr>n_count := c\<rparr>)" and ms: "length (s_MacKey ?s) = 32" using n mac by simp_all
  obtain st1 where st1: "SSUData_Send m1 (?s, n\<lparr>n_count := c\<rparr>) = Some st1" "sent_data (?s, n\<lparr>n_count := c\<rparr>) st1"
    by (rule SSUData_Send_defined [OF nc ms ps em(2,3)])
  obtain s1 n1 where p1: "st1 = (s1, n1)" by (cases st1)
  note f1 = sent_data_facts [OF st1(2) [unfolded p1]]
  have s1: "net_ok n1" "length (s_MacKey s1) = 32" "packet_size_ok s1" using f1 nc ms ps by simp_all
  obtain st2 where st2: "SSUData_Send m2 (s1, n1) = Some st2" "sent_data (s1, n1) st2"
    by (rule SSUData_Send_defined [OF s1 em(4,5)])
  obtain s2 n2 where p2: "st2 = (s2, n2)" by (cases st2)
  note f2 = sent_data_facts [OF st2(2) [unfolded p2]]
  have "\<not> s_PeerTest s2" using f1 f2 np by simp
  then have "Established (s, n) = Some (ScheduleTermination s2, emit PeerConnected n2)"
    using em(1) st1(1) p1 st2(1) p2 by (simp add: Established_def upd_data_def)
  then show thesis
    by (rule that) (use f1 f2 n in \<open>simp_all add: ScheduleTermination_def\<close>, simp_all add: emit_def)
qed


section \<open>The handshake\<close>

definition arrives_as :: "bytes \<Rightarrow> bytes \<Rightarrow> bool" where
  "arrives_as pkt r \<longleftrightarrow> packet_size (length pkt) r \<and> take (length pkt) r = pkt"

text \<open>What two routers share: the algorithms, and the secret that their Diffie-Hellman keys agree on.\<close>

definition same_algorithms :: "ssu_net \<Rightarrow> ssu_net \<Rightarrow> bool" where
  "same_algorithms na nb \<longleftrightarrow> se_aes (n_env na) = se_aes (n_env nb) \<and> se_md5 (n_env na) = se_md5 (n_env nb) \<and>
     env_sha256 (n_i2np na) = env_sha256 (n_i2np nb) \<and> n_sigs na = n_sigs nb \<and> (\<forall>x. length (env_sha256 (n_i2np na) x) = 32)"

definition keys_agree :: "ssu_net \<Rightarrow> dh_pair \<Rightarrow> dh_pair \<Rightarrow> bytes \<Rightarrow> bytes \<Rightarrow> bool" where
  "keys_agree n own peer k m \<longleftrightarrow> length (dh_publicKey own) = 256 \<and> length (dh_publicKey peer) = 256 \<and>
     (\<exists>K. n_agree n (dh_privateKey own) (dh_publicKey peer) = Some K \<and> length K = 256 \<and> session_keys (env_sha256 (n_i2np n)) K = Some (k, m))"

lemma keys_agree_facts:
  assumes "keys_agree n own peer k m" and "\<forall>x. length (env_sha256 (n_i2np n) x) = 32" and "s_DHKeysPair s = Some own"
    and "take 256 y = dh_publicKey peer"
  shows "CreateAESandMacKey y (s, n) = Some (s\<lparr>s_SessionKey := k, s_MacKey := m, s_IsSessionKey := True\<rparr>, n)" "length k = 32" "length m = 32"
proof -
  obtain K where K: "n_agree n (dh_privateKey own) (dh_publicKey peer) = Some K" "length K = 256" "session_keys (env_sha256 (n_i2np n)) K = Some (k, m)"
    "length (dh_publicKey peer) = 256"
    using assms(1) by (auto simp: keys_agree_def)
  have "256 \<le> length y" using assms(4) K(4) by (metis length_take min.absorb_iff2 min.commute)
  then show "CreateAESandMacKey y (s, n) = Some (s\<lparr>s_SessionKey := k, s_MacKey := m, s_IsSessionKey := True\<rparr>, n)"
    by (rule CreateAESandMacKey_agrees [OF _ assms(3) _ K(3)]) (use K(1) assms(4) in simp)
  show "length k = 32" "length m = 32" using session_keys_length [OF K(3,2) assms(2)] by simp_all
qed

text \<open>Bob, before Alice's request, is a session that \<open>HandleReceivedPackets\<close> has just made.\<close>

definition bob_ready :: "ssu_world \<Rightarrow> nat \<Rightarrow> endpoint \<Rightarrow> Address \<Rightarrow> bytes \<Rightarrow> sig_kind \<Rightarrow> bytes \<Rightarrow> bool" where
  "bob_ready w b alice address ik kind pub \<longleftrightarrow> (let s = fst w b; n = snd w in
     net_ok n \<and> s_RemoteRouter s = None \<and> \<not> s_IsSessionKey s \<and> s_State s = eSessionStateUnknown \<and> s_DHKeysPair s = None \<and> \<not> s_PeerTest s \<and>
     packet_size_ok s \<and> ix_ext (s_RemoteIdentity s) \<noteq> Freed \<and> GetIntroKey (s, n) = Some ik \<and> length ik = 32 \<and> endpoint_ok alice \<and>
     (if is_v6 (fst alice) then GetSSUV6Address (n_ri n) else GetSSUAddress (n_ri n) True) = Some address \<and>
     router_signs n kind pub \<and> signature_len kind \<le> 64 \<and> store_ok n)"

lemma GetIntroKey_cong: "s_RemoteRouter s' = s_RemoteRouter s \<Longrightarrow> n_ctx n' = n_ctx n \<Longrightarrow> GetIntroKey (s', n') = GetIntroKey (s, n)"
  by (cases "s_RemoteRouter s") (simp_all add: GetIntroKey_def)

lemma count_irrelevant [simp]: "now_s (n\<lparr>n_count := c\<rparr>) = now_s n" "sealed_signature (n\<lparr>n_count := c\<rparr>) = sealed_signature n"
  "now_s (sent p e n) = now_s n"
  by (auto simp: now_s_def sealed_signature_def sent_def emit_def fun_eq_iff)

lemma sent_after_tag:
  "\<exists>c rel. sent p e (snd (new_relay_tag e (n\<lparr>n_count := c0\<rparr>))) = n\<lparr>n_count := c, n_relays := rel, n_out := n_out n @ [SendTo p e]\<rparr>"
  by (cases n) (auto simp: new_relay_tag_def sent_def emit_def rnd_word_def Let_def)

text \<open>Bob answers a request with a session created packet that carries his signature.\<close>

lemma bob_answers:
  assumes ready: "bob_ready w b alice address ik kind pub" and agree: "keys_agree (snd w) (n_dh (snd w) (n_count (snd w))) dha k m"
    and sha: "\<forall>x. length (env_sha256 (n_i2np (snd w)) x) = 32"
    and req: "net_carries (snd w) ik ik PAYLOAD_TYPE_SESSION_REQUEST (dh_publicKey dha @ body) p1" and r: "arrives_as p1 r1"
  obtains w' p2 tag time iv sig where "ProcessNextMessage b r1 (length p1) alice w = Some (True, w')" "n_out (snd w') = n_out (snd w) @ [SendTo p2 alice]"
    "net_carries (snd w) ik ik PAYLOAD_TYPE_SESSION_CREATED (created_payload (dh_publicKey (n_dh (snd w) (n_count (snd w)))) alice tag time @
        sealed_signature (snd w) k iv sig) p2" "take 16 (drop 16 p2) = iv" "length iv = 16" "length sig = signature_len kind"
    "sig_verify (n_sigs (snd w)) kind pub (created_data (dh_publicKey dha) (dh_publicKey (n_dh (snd w) (n_count (snd w)))) alice (address_endpoint address) tag @ word_bytes time) sig"
    "\<exists>d. fst w' b = (fst (arrived b (length p1) w) b)\<lparr>s_RemoteEndpoint := alice, s_DHKeysPair := d, s_SessionKey := k, s_MacKey := m, s_IsSessionKey := True,
        s_ConfirmData := Some (created_data (dh_publicKey dha) (dh_publicKey (n_dh (snd w) (n_count (snd w)))) alice (address_endpoint address) tag),
        s_NumSentBytes := s_NumSentBytes (fst w b) + length p2\<rparr>"
    "\<exists>c rel. snd w' = (snd w)\<lparr>n_count := c, n_relays := rel, n_out := n_out (snd w) @ [SendTo p2 alice]\<rparr>"
proof -
  let ?n = "snd w" and ?dh = "n_dh (snd w) (n_count (snd w))" and ?w = "arrived b (length p1) w"
  have bob: "net_ok ?n" "s_RemoteRouter (fst w b) = None" "\<not> s_IsSessionKey (fst w b)" "s_State (fst w b) = eSessionStateUnknown" "s_DHKeysPair (fst w b) = None"
    "GetIntroKey (fst w b, ?n) = Some ik" "length ik = 32" "endpoint_ok alice" "router_signs ?n kind pub" "signature_len kind \<le> 64"
    "(if is_v6 (fst alice) then GetSSUV6Address (n_ri ?n) else GetSSUAddress (n_ri ?n) True) = Some address"
    using ready by (simp_all add: bob_ready_def Let_def)
  have x: "length (dh_publicKey dha) = 256" "length (dh_publicKey ?dh) = 256" using agree by (simp_all add: keys_agree_def)
  have t: "PAYLOAD_TYPE_SESSION_REQUEST < 16" "11 \<le> length (dh_publicKey dha @ body)" using x by (simp_all add: payload_types)
  have pr: "packet_size (length p1) r1" "take (length p1) r1 = p1" using r by (simp_all add: arrives_as_def)
  obtain r2 where r2: "ProcessNextMessage b r1 (length p1) alice w =
      process_payload b PAYLOAD_TYPE_SESSION_REQUEST (plain_packet r2 (length p1 - length p1 mod 16)) alice ?w"
    "take (length (dh_publicKey dha @ body)) (drop 37 r2) = dh_publicKey dha @ body"
    by (rule carried_dispatch [OF req t pr, of b]) (use bob in simp_all)
  let ?s = "(fst ?w b)\<lparr>s_RemoteEndpoint := alice, s_DHKeysPair := Some ?dh\<rparr>" and ?n1 = "?n\<lparr>n_count := n_count ?n + 1\<rparr>"
  have tx: "take 256 (drop 37 r2) = dh_publicKey dha" using arg_cong [OF r2(2), of "take 256"] x(1) by (simp add: min_def)
  have l: "256 \<le> length (drop 37 r2)" using tx x(1) by (metis length_take min.absorb_iff2 min.commute)
  have agree1: "keys_agree ?n1 ?dh dha k m" using agree by (simp add: keys_agree_def)
  have sha1: "\<forall>x. length (env_sha256 (n_i2np ?n1) x) = 32" using sha by simp
  have dhs: "s_DHKeysPair ?s = Some ?dh" by simp
  note keys = keys_agree_facts(1) [OF agree1 sha1 dhs tx]
  let ?s2 = "?s\<lparr>s_SessionKey := k, s_MacKey := m, s_IsSessionKey := True\<rparr>"
  have n1: "net_ok ?n1" "router_signs ?n1 kind pub" using bob(1,9) by (simp_all add: router_signs_def)
  have ik2: "GetIntroKey (?s2, ?n1) = Some ik" using bob(6) GetIntroKey_cong [of ?s2 "fst w b" ?n1 ?n] by simp
  have ad: "(if session_IsV6 ?s2 then GetSSUV6Address (n_ri ?n1) else GetSSUAddress (n_ri ?n1) True) = Some address"
    using bob(11) by (auto simp: session_IsV6_def split: if_splits)
  have dh2: "s_DHKeysPair ?s2 = Some ?dh" and e2: "endpoint_ok (s_RemoteEndpoint ?s2)" using bob(8) by simp_all
  obtain p2 iv sig where c: "SendSessionCreated (drop 37 r2) (?s2, ?n1) = Some (?s2\<lparr>s_ConfirmData := Some (created_data (take 256 (drop 37 r2)) (dh_publicKey ?dh)
        (s_RemoteEndpoint ?s2) (address_endpoint address) (fst (new_relay_tag (s_RemoteEndpoint ?s2) ?n1))), s_NumSentBytes := s_NumSentBytes ?s2 + length p2\<rparr>,
        sent p2 (s_RemoteEndpoint ?s2) (snd (new_relay_tag (s_RemoteEndpoint ?s2) ?n1)))"
    "net_carries ?n1 ik ik PAYLOAD_TYPE_SESSION_CREATED (created_payload (dh_publicKey ?dh) (s_RemoteEndpoint ?s2)
        (fst (new_relay_tag (s_RemoteEndpoint ?s2) ?n1)) (now_s ?n1) @ sealed_signature ?n1 (s_SessionKey ?s2) iv sig) p2"
    "take 16 (drop 16 p2) = iv" "length iv = 16" "length sig = signature_len kind" "length p2 \<le> 384"
    "sig_verify (n_sigs ?n1) kind pub (created_data (take 256 (drop 37 r2)) (dh_publicKey ?dh) (s_RemoteEndpoint ?s2)
        (address_endpoint address) (fst (new_relay_tag (s_RemoteEndpoint ?s2) ?n1)) @ word_bytes (now_s ?n1)) sig"
    by (rule SendSessionCreated_sends [OF n1(1) ik2 bob(7) ad l dh2 x(2) e2 n1(2) bob(10)])
  let ?tag = "fst (new_relay_tag alice ?n1)" and ?n2 = "sent p2 alice (snd (new_relay_tag alice ?n1))"
  let ?s3 = "?s2\<lparr>s_ConfirmData := Some (created_data (dh_publicKey dha) (dh_publicKey ?dh) alice (address_endpoint address) ?tag), s_NumSentBytes := s_NumSentBytes ?s2 + length p2\<rparr>"
  have e: "s_RemoteEndpoint ?s2 = alice" by simp
  have "ProcessSessionRequest (plain_packet r2 (length p1 - length p1 mod 16)) alice (fst ?w b, snd ?w) = Some (?s3, ?n2)"
    using c(1) keys bob(2,5) unfolding e tx by (simp add: ProcessSessionRequest_def IsOutbound_def plain_packet_def GetNextDHKeysPair_def)
  then have pn: "ProcessNextMessage b r1 (length p1) alice w = Some (True, ((fst ?w)(b := ?s3), ?n2))"
    using r2(1) by (simp add: process_payload_def payload_types on_session_def finished_def)
  have n2: "\<exists>c rel. ?n2 = ?n\<lparr>n_count := c, n_relays := rel, n_out := n_out ?n @ [SendTo p2 alice]\<rparr>"
    by (rule sent_after_tag)
  show thesis
    by (rule that [OF pn _ _ c(3,4,5), of ?tag "now_s ?n"])
      (use c(2,7) n2 in \<open>simp_all add: e tx, auto\<close>)
qed


text \<open>Alice, who has sent her request.\<close>

definition alice_ready :: "ssu_session \<Rightarrow> ssu_net \<Rightarrow> dh_pair \<Rightarrow> endpoint \<Rightarrow> endpoint \<Rightarrow> bytes \<Rightarrow> sig_kind \<Rightarrow> bytes \<Rightarrow> sig_kind \<Rightarrow> bytes \<Rightarrow> bool" where
  "alice_ready s n dha alice bob ik ka puba kb pubb \<longleftrightarrow>
     net_ok n \<and> s_RemoteRouter s \<noteq> None \<and> \<not> s_IsSessionKey s \<and> s_State s = eSessionStateUnknown \<and> s_DHKeysPair s = Some dha \<and>
     s_RemoteEndpoint s = bob \<and> GetIntroKey (s, n) = Some ik \<and> length ik = 32 \<and> verifies_with (s_RemoteIdentity s) \<lparr>v_kind = kb, v_key = pubb\<rparr> \<and>
     router_signs n ka puba \<and> padded_16 (44 + GetFullLen (pk_public (n_keys n)) + signature_len ka) \<le> 512 \<and>
     context_UpdateAddress (n_rcenv n) (fst alice) (n_ctx n) \<noteq> None"

lemma same_algorithmsD:
  assumes "same_algorithms n n'"
  shows "se_aes (n_env n) = se_aes (n_env n')" "se_md5 (n_env n) = se_md5 (n_env n')" "n_sigs n = n_sigs n'"
    "\<forall>x. length (env_sha256 (n_i2np n) x) = 32" "\<forall>x. length (env_sha256 (n_i2np n') x) = 32"
proof -
  have *: "env_sha256 (n_i2np n) = env_sha256 (n_i2np n')" using assms by (simp add: same_algorithms_def)
  have "\<forall>x. length (env_sha256 (n_i2np n) x) = 32" using assms unfolding same_algorithms_def by (elim conjE)
  then show "\<forall>x. length (env_sha256 (n_i2np n) x) = 32" .
  then show "\<forall>x. length (env_sha256 (n_i2np n') x) = 32" unfolding * .
qed (use assms in \<open>simp_all add: same_algorithms_def\<close>)

lemma alice_confirms:
  assumes ready: "alice_ready (fst w a) (snd w) dha alice bob ik ka puba kb pubb" and agree: "keys_agree (snd w) dha dhb k m"
    and same: "same_algorithms (snd w) nb" "net_ok nb" and alice: "endpoint_ok alice"
    and c: "net_carries nb ik ik PAYLOAD_TYPE_SESSION_CREATED (created_payload (dh_publicKey dhb) alice tag time @ sealed_signature nb k iv sig) p2"
    and iv: "take 16 (drop 16 p2) = iv" "length iv = 16" "length sig = signature_len kb"
    and sig: "sig_verify (n_sigs nb) kb pubb (created_data (dh_publicKey dha) (dh_publicKey dhb) alice bob tag @ word_bytes time) sig"
    and r: "arrives_as p2 r2"
  obtains w' p3 t sg where "ProcessNextMessage a r2 (length p2) bob w = Some (True, w')" "n_out (snd w') = n_out (snd w) @ [SendTo p3 bob]"
    "net_carries nb k m PAYLOAD_TYPE_SESSION_CONFIRMED (confirmed_payload (ix_bytes (pk_public (n_keys (snd w)))) t sg) p3"
    "length sg = signature_len ka"
    "sig_verify (n_sigs nb) ka puba (created_data (dh_publicKey dha) (dh_publicKey dhb) alice bob tag @ word_bytes t) sg"
    "s_SessionKey (fst w' a) = k \<and> s_MacKey (fst w' a) = m \<and> s_IsSessionKey (fst w' a) \<and> s_RelayTag (fst w' a) = tag \<and> s_RemoteEndpoint (fst w' a) = bob"
    "\<exists>len. 48 \<le> len \<and> length p3 = len"
proof -
  let ?n = "snd w" and ?w = "arrived a (length p2) w"
  have al: "net_ok ?n" "s_RemoteRouter (fst w a) \<noteq> None" "\<not> s_IsSessionKey (fst w a)" "s_State (fst w a) = eSessionStateUnknown"
    "s_DHKeysPair (fst w a) = Some dha" "s_RemoteEndpoint (fst w a) = bob" "GetIntroKey (fst w a, ?n) = Some ik"
    "verifies_with (s_RemoteIdentity (fst w a)) \<lparr>v_kind = kb, v_key = pubb\<rparr>" "router_signs ?n ka puba"
    "padded_16 (44 + GetFullLen (pk_public (n_keys ?n)) + signature_len ka) \<le> 512"
    using ready by (simp_all add: alice_ready_def)
  obtain cx where cx: "context_UpdateAddress (n_rcenv ?n) (fst alice) (n_ctx ?n) = Some cx" using ready by (auto simp: alice_ready_def)
  note sa = same_algorithmsD [OF same(1)]
  obtain K where K: "n_agree ?n (dh_privateKey dha) (dh_publicKey dhb) = Some K" "session_keys (env_sha256 (n_i2np ?n)) K = Some (k, m)"
    and dl: "length (dh_publicKey dha) = 256" "length (dh_publicKey dhb) = 256" and km: "length m = 32"
    using agree session_keys_length sa(4) by (auto simp: keys_agree_def)
  let ?E = "sealed_signature nb k iv sig" and ?P = "created_payload (dh_publicKey dhb) alice tag time"
  have E: "length ?E = padded_16 (signature_len kb)" using length_sealed_signature [OF same(2) iv(2)] iv(3) by simp
  have op: "take (signature_len kb) (snd (CBCDecryption_Decrypt_buf (aes_dec (se_aes (n_env ?n)) k) iv ?E)) = sig"
    using open_sealed_signature [OF same(2) iv(2), of sig k] iv(3) sa(1) by simp
  have t: "PAYLOAD_TYPE_SESSION_CREATED < 16" "11 \<le> length (?P @ ?E)" using dl by (simp_all add: payload_types created_payload_def)
  have pr: "packet_size (length p2) r2" "take (length p2) r2 = p2" using r by (simp_all add: arrives_as_def)
  have c': "carries (se_aes (n_env ?n)) (se_md5 (n_env ?n)) ik ik PAYLOAD_TYPE_SESSION_CREATED (?P @ ?E) p2" using c sa by simp
  obtain q where q: "ProcessNextMessage a r2 (length p2) bob w =
      process_payload a PAYLOAD_TYPE_SESSION_CREATED (plain_packet q (length p2 - length p2 mod 16)) bob ?w" "length q = length r2"
    "take (length (?P @ ?E)) (drop 37 q) = ?P @ ?E" "take 16 (drop 16 q) = take 16 (drop 16 p2)"
    by (rule carried_dispatch [OF c' t pr, of a]) (use al in simp_all)
  obtain rest where dq: "drop 37 q = ?P @ ?E @ rest"
    using append_take_drop_id [of "length (?P @ ?E)" "drop 37 q"] unfolding q(3) by (metis append.assoc)
  have l: "32 \<le> length q" using q(2) pr(1) by (simp add: packet_size_def)
  let ?s0 = "fst ?w a"
  have s0: "s_RemoteRouter ?s0 \<noteq> None" "s_DHKeysPair ?s0 = Some dha" "verifies_with (s_RemoteIdentity ?s0) \<lparr>v_kind = kb, v_key = pubb\<rparr>"
    "s_RemoteEndpoint ?s0 = bob" using al by simp_all
  have sg0: "sig_verify (n_sigs ?n) kb pubb (created_data (dh_publicKey dha) (dh_publicKey dhb) alice (s_RemoteEndpoint ?s0) tag @ word_bytes time) sig"
    using sig sa(3) s0(4) by simp
  let ?s1 = "?s0\<lparr>s_Timer := None, s_SessionKey := k, s_MacKey := m, s_IsSessionKey := True, s_RelayTag := tag,
         s_RemoteIdentity := (s_RemoteIdentity ?s0)\<lparr>ix_verifier := Some \<lparr>v_kind = kb, v_key = pubb\<rparr>\<rparr>\<rparr>" and ?n1 = "?n\<lparr>n_ctx := cx\<rparr>"
  let ?our = "ip_bytes (fst alice) @ port_bytes (snd alice) @ word_bytes tag @ word_bytes time @ ?E @ rest"
  have pc: "ProcessSessionCreated (plain_packet q (length p2 - length p2 mod 16)) (?s0, ?n) =
      SendSessionConfirmed (drop 37 q) ?our (length (ip_bytes (fst alice)) + 2) (?s1, ?n1)"
    by (rule ProcessSessionCreated_confirms [OF s0(1,2) dl K alice cx s0(3) E iv(2) op sg0 _ dq l]) (use q(4) iv(1) in simp)
  have keys: "n_keys ?n1 = n_keys ?n" using context_UpdateAddress_keys [OF cx] by simp
  have n1: "net_ok ?n1" "router_signs ?n1 ka puba" using al(1,9) keys by (simp_all add: net_ok_def router_signs_def)
  have m1: "length (s_MacKey ?s1) = 32" "s_DHKeysPair ?s1 = Some dha" using km s0 by simp_all
  have fits: "padded_16 (44 + GetFullLen (pk_public (n_keys ?n1)) + signature_len ka) \<le> 512" using al(10) keys by simp
  have yl: "256 \<le> length (drop 37 q)" unfolding dq using dl by (simp add: created_payload_def)
  have ol: "length (ip_bytes (fst alice)) + 2 \<le> length ?our" by simp
  obtain p3 sg where p3: "SendSessionConfirmed (drop 37 q) ?our (length (ip_bytes (fst alice)) + 2) (?s1, ?n1) =
      Some (?s1\<lparr>s_NumSentBytes := s_NumSentBytes ?s1 + length p3\<rparr>, sent p3 (s_RemoteEndpoint ?s1) ?n1)"
    "net_carries ?n1 (s_SessionKey ?s1) (s_MacKey ?s1) PAYLOAD_TYPE_SESSION_CONFIRMED (confirmed_payload (ix_bytes (pk_public (n_keys ?n1))) (now_s ?n1) sg) p3"
    "length sg = signature_len ka" "length p3 = padded_16 (44 + GetFullLen (pk_public (n_keys ?n1)) + signature_len ka)"
    "sig_verify (n_sigs ?n1) ka puba (dh_publicKey dha @ take 256 (drop 37 q) @ take (length (ip_bytes (fst alice)) + 2) ?our @ ip_bytes (fst (s_RemoteEndpoint ?s1)) @
       port_bytes (snd (s_RemoteEndpoint ?s1)) @ word_bytes (s_RelayTag ?s1) @ word_bytes (now_s ?n1)) sg"
    by (rule SendSessionConfirmed_sends [OF n1(1) m1(1) n1(2) fits m1(2) dl(1) yl ol])
  have ty: "take 256 (drop 37 q) = dh_publicKey dhb" unfolding dq using dl by (simp add: created_payload_def)
  have v3: "sig_verify (n_sigs nb) ka puba (created_data (dh_publicKey dha) (dh_publicKey dhb) alice bob tag @ word_bytes (now_s ?n1)) sg"
    using p3(5) sa(3) s0(4) unfolding ty created_data_def by simp
  have pn: "ProcessNextMessage a r2 (length p2) bob w = Some (True, ((fst ?w)(a := ?s1\<lparr>s_NumSentBytes := s_NumSentBytes ?s1 + length p3\<rparr>), sent p3 (s_RemoteEndpoint ?s1) ?n1))"
    using q(1) pc p3(1) by (simp add: process_payload_def payload_types on_session_def finished_def)
  show thesis
  proof (rule that [OF pn _ _ p3(3) v3])
    show "\<exists>len. 48 \<le> len \<and> length p3 = len" using p3(4) padded_16_ge [of "44 + GetFullLen (pk_public (n_keys ?n1)) + signature_len ka"] by (cases ka) simp_all
  qed (use p3(2) sa keys s0(4) in simp_all)
qed


text \<open>Bob takes Alice's identity from the confirmation, and the session is established.\<close>

lemma upd_data_id [simp]: "upd_data id st = st"
  by (cases st) (simp add: upd_data_def)

lemma bob_establishes:
  assumes n: "net_ok (snd w)" "store_ok (snd w)" and s: "s_State (fst w b) = eSessionStateUnknown" "s_IsSessionKey (fst w b)"
      "s_SessionKey (fst w b) = k" "s_MacKey (fst w b) = m" "length m = 32" "\<not> s_PeerTest (fst w b)" "packet_size_ok (fst w b)"
      "ix_ext (s_RemoteIdentity (fst w b)) \<noteq> Freed" "s_ConfirmData (fst w b) = Some d"
    and v: "verifies_with ident \<lparr>v_kind = ka, v_key = puba\<rparr>" and small: "GetFullLen ident < 65536"
    and new: "n_netdb (snd w) (env_sha256 (n_i2np (snd w)) (ix_bytes ident)) = None"
    and c: "net_carries (snd w) k m PAYLOAD_TYPE_SESSION_CONFIRMED (confirmed_payload (ix_bytes ident) t sg) p3" "length sg = signature_len ka" "48 \<le> length p3"
    and sig: "sig_verify (n_sigs (snd w)) ka puba (d @ word_bytes t) sg" and r: "arrives_as p3 r3"
  obtains w' where "ProcessNextMessage b r3 (length p3) alice w = Some (True, w')" "s_State (fst w' b) = eSessionStateEstablished"
    "s_SessionKey (fst w' b) = k" "s_MacKey (fst w' b) = m" "s_IsSessionKey (fst w' b)" "ix_bytes (s_RemoteIdentity (fst w' b)) = ix_bytes ident"
    "s_RemoteEndpoint (fst w' b) = s_RemoteEndpoint (fst w b)" "PeerConnected \<in> set (n_out (snd w'))"
proof -
  let ?n = "snd w" and ?w = "arrived b (length p3) w" and ?P = "confirmed_payload (ix_bytes ident) t sg"
  have t: "PAYLOAD_TYPE_SESSION_CONFIRMED < 16" "11 \<le> length ?P" using c by (simp_all add: payload_types carries_def)
  have pr: "packet_size (length p3) r3" "take (length p3) r3 = p3" using r by (simp_all add: arrives_as_def)
  obtain q where q: "ProcessNextMessage b r3 (length p3) alice w =
      process_payload b PAYLOAD_TYPE_SESSION_CONFIRMED (plain_packet q (length p3 - length p3 mod 16)) alice ?w" "take (length ?P) (drop 37 q) = ?P"
    by (rule carried_dispatch [OF c(1) t pr, of b]) (use s in simp_all)
  obtain rest where dq: "drop 37 q = ?P @ rest" using q(2) by (metis append_take_drop_id)
  have cd: "s_ConfirmData (fst ?w b) = Some d" "ix_ext (s_RemoteIdentity (fst ?w b)) \<noteq> Freed" using s by simp_all
  obtain ix where ix: "ix_bytes ix = ix_bytes ident" "ix_hash ix = env_sha256 (n_i2np ?n) (ix_bytes ident)"
    "ProcessSessionConfirmed (plain_packet q (length p3 - length p3 mod 16)) (fst ?w b, ?n) = Established (upd_data
       (case n_netdb ?n (ix_hash ix) of None \<Rightarrow> id | Some r \<Rightarrow> AdjustPacketSize (session_IsV6 (fst ?w b)) r)
       ((fst ?w b)\<lparr>s_RemoteIdentity := ix, s_ConfirmData := Some (d @ word_bytes t)\<rparr>, ?n))"
    by (rule ProcessSessionConfirmed_establishes [OF cd(1) v cd(2) small c(2) sig dq])
  let ?s = "(fst ?w b)\<lparr>s_RemoteIdentity := ix, s_ConfirmData := Some (d @ word_bytes t)\<rparr>"
  have e: "ProcessSessionConfirmed (plain_packet q (length p3 - length p3 mod 16)) (fst ?w b, ?n) = Established (?s, ?n)"
    using ix(3) new ix(2) by simp
  have m: "length (s_MacKey ?s) = 32" "packet_size_ok ?s" "\<not> s_PeerTest ?s" using s by (simp_all add: packet_size_ok_def)
  obtain s' n' where r: "Established (?s, ?n) = Some (s', n')" "s_State s' = eSessionStateEstablished" "s_MacKey s' = s_MacKey ?s"
    "s_SessionKey s' = s_SessionKey ?s" "s_IsSessionKey s' = s_IsSessionKey ?s" "s_RemoteEndpoint s' = s_RemoteEndpoint ?s"
    "s_RemoteIdentity s' = s_RemoteIdentity ?s" "PeerConnected \<in> set (n_out n')"
    by (rule Established_defined [OF n(1) m(1,2) n(2) m(3)])
  show thesis
    by (rule that [of "((fst ?w)(b := s'), n')"])
      (use q(1) e r s ix(1) in \<open>simp_all add: process_payload_def payload_types on_session_def finished_def\<close>)
qed



text \<open>Two routers for an example: Bob publishes an address, Alice does not; every signature is seven times seven.\<close>

definition hs_sigs :: sig_env where
  "hs_sigs = \<lparr>sig_verify = (\<lambda>k pub m s. s = replicate (signature_len k) 7), sig_sign = (\<lambda>k priv m. replicate (signature_len k) 7)\<rparr>"

definition hs_ri :: RouterInfo where
  "hs_ri = sample_ri\<lparr>ri_identity := fresh_identity\<lparr>ix_hash := replicate 32 1\<rparr>, ri_buffer := Some (replicate 400 1), ri_bufferLen := 400\<rparr>"

definition hs_net :: "RouterInfo \<Rightarrow> ssu_net" where
  "hs_net ri = test_net\<lparr>n_sigs := hs_sigs, n_agree := (\<lambda>_ _. Some (replicate 256 0x81)), n_ctx := (n_ctx test_net)\<lparr>rc_ri := ri\<rparr>\<rparr>"

definition hs_alice :: endpoint where "hs_alice = (V4 [10, 0, 0, 9], 4000)"
definition hs_address :: Address where "hs_address = hd (ri_addresses hs_ri)"

definition hs_wa :: ssu_world where
  "hs_wa = (\<lambda>_. (SSUSession_new (address_endpoint hs_address) (Some hs_ri) False fresh_identity (hs_net hs_ri))\<lparr>s_DHKeysPair := Some (n_dh test_net 7)\<rparr>,
     hs_net (hs_ri\<lparr>ri_addresses := []\<rparr>))"

definition hs_wb :: ssu_world where
  "hs_wb = (\<lambda>_. SSUSession_new hs_alice None False fresh_identity (hs_net hs_ri), hs_net hs_ri)"

lemma hs_net_fields [simp]: "n_sigs (hs_net ri) = hs_sigs" "n_agree (hs_net ri) = (\<lambda>_ _. Some (replicate 256 0x81))" "rc_ri (n_ctx (hs_net ri)) = ri"
  "n_env (hs_net ri) = test_ssu_env" "n_i2np (hs_net ri) = sample_env" "n_rnd16 (hs_net ri) = (\<lambda>k. replicate 16 (word_of_nat k))"
  "n_dh (hs_net ri) = (\<lambda>k. \<lparr>dh_publicKey = replicate 256 (word_of_nat k), dh_privateKey = replicate 256 2\<rparr>)" "n_count (hs_net ri) = 0"
  "n_netdb (hs_net ri) = (\<lambda>_. None)" "n_out (hs_net ri) = []" "n_keys (hs_net ri) = n_keys test_net" "net_ok (hs_net ri)"
  by (simp_all add: hs_net_def test_net_def net_ok_def test_ssu_env_def ssu_env_ok_def xor_aes_ok)

lemma hs_signs: "router_signs (hs_net ri) DSA (replicate 128 0)"
  using fresh_verifies [of "[]"]
  by (auto simp: router_signs_def signs_with_def hs_sigs_def test_net_def fresh_identity_def)

lemma hs_addresses: "GetSSUAddress hs_ri True = Some hs_address" "ad_key hs_address = replicate 32 5" "address_endpoint hs_address = (V4 [10, 0, 0, 1], 9000)"
  by (simp_all add: hs_address_def hs_ri_def sample_ri_def new_address_def GetSSUAddress_def GetAddress_def address_endpoint_def)


lemma hs_alice_ready:
  "alice_ready (fst hs_wa 0) (snd hs_wa) (n_dh test_net 7) hs_alice (V4 [10, 0, 0, 1], 9000) (replicate 32 5) DSA (replicate 128 0) DSA (replicate 128 0)"
proof -
  have "ri_identity hs_ri = fresh_identity\<lparr>ix_hash := replicate 32 1\<rparr>" by (simp add: hs_ri_def)
  then have v: "verifies_with (s_RemoteIdentity (fst hs_wa 0)) \<lparr>v_kind = DSA, v_key = replicate 128 0\<rparr>"
    using fresh_verifies [of "replicate 32 1"] by (simp add: hs_wa_def SSUSession_new_def)
  have u: "context_UpdateAddress (n_rcenv (snd hs_wa)) (fst hs_alice) (n_ctx (snd hs_wa)) \<noteq> None"
    by (simp add: hs_wa_def context_UpdateAddress_def publish_if_def upd_ri_def n_rcenv_def rc_seconds_def)
      (simp add: hs_net_def test_net_def sample_env_def ROUTER_INFO_UPDATE_INTERVAL_def)
  have f: "padded_16 (44 + GetFullLen (pk_public (n_keys (snd hs_wa))) + signature_len DSA) \<le> 512"
    by (simp add: hs_wa_def test_net_def fresh_identity_def GetFullLen_def identity_defs padded_16_def)
  have i: "GetIntroKey (fst hs_wa 0, snd hs_wa) = Some (replicate 32 5)"
    using hs_addresses by (simp add: GetIntroKey_def hs_wa_def SSUSession_new_def)
  have e: "s_RemoteEndpoint (fst hs_wa 0) = (V4 [10, 0, 0, 1], 9000)" using hs_addresses by (simp add: hs_wa_def SSUSession_new_def)
  show ?thesis unfolding alice_ready_def
    using v u f i e hs_signs by (intro conjI) (simp_all add: hs_wa_def SSUSession_new_def)
qed

lemma hs_bob_ready: "bob_ready hs_wb 3 hs_alice hs_address (replicate 32 5) DSA (replicate 128 0)"
proof -
  have st: "store_ok (hs_net hs_ri)" by (simp add: store_ok_def) (simp add: hs_ri_def sample_env_def)
  have ps: "packet_size_ok (SSUSession_new hs_alice None False fresh_identity (hs_net hs_ri))"
    by (simp add: packet_size_ok_def SSUSession_new_def SSUData_new_def hs_alice_def ssu_defs SSU_MTU_V4_def Let_def)
  have i: "GetIntroKey (fst hs_wb 3, snd hs_wb) = Some (replicate 32 5)"
    using hs_addresses by (simp add: GetIntroKey_def hs_wb_def SSUSession_new_def)
  show ?thesis unfolding bob_ready_def Let_def
    using st ps i hs_signs hs_addresses
    by (intro conjI) (simp_all add: hs_wb_def SSUSession_new_def hs_alice_def endpoint_ok_def fresh_identity_def)
qed


end
