(* ===== verification/Proxy_SOCKS.thy ===== *)
theory Proxy_SOCKS
  imports Util_Endian
begin

text \<open>
  The SOCKS proxy, \<open>src/api/I2PTunnel/SOCKS.cpp\<close>: the handler of one connection, a state machine that
  reads a SOCKS 4, 4a or 5 request byte by byte, asks for a stream to the host it names and hands the
  connection over.

  The handler's record holds the members of \<open>SOCKSHandler\<close> and the asynchronous operations it has
  pending; \<open>h_out\<close> lists what it did outside. \<^term>\<open>None\<close> is an access outside a member, a failed
  assertion or the use of a socket that is gone. The address \<open>m_address\<close> is a union: 256 bytes of memory,
  read as an integer, as a host name with its size in front, or as an IPv6 address. A buffer that
  is written asynchronously is taken to be sent as it is when the write starts.
\<close>

named_theorems socks_defs \<open>constants and accessors of the SOCKS handler\<close>

section \<open>State\<close>

definition MAX_SOCKS_HOSTNAME_SIZE :: nat where [socks_defs]: "MAX_SOCKS_HOSTNAME_SIZE = 255"

datatype socks_state = GET_SOCKSV | GET_COMMAND | GET_PORT | GET_IPV4 | GET4_IDENT | GET4A_HOST |
  GET5_AUTHNUM | GET5_AUTH | GET5_REQUESTV | GET5_GETRSV | GET5_GETADDRTYPE | GET5_IPV6 |
  GET5_HOST_SIZE | GET5_HOST | DONE

text \<open>The members of the enumerations hold bytes of the client, so they are bytes here.\<close>

definition AUTH_NONE :: byte where [socks_defs]: "AUTH_NONE = 0"
definition AUTH_UNACCEPTABLE :: byte where [socks_defs]: "AUTH_UNACCEPTABLE = 0xff"
definition ADDR_IPV4 :: byte where [socks_defs]: "ADDR_IPV4 = 1"
definition ADDR_DNS :: byte where [socks_defs]: "ADDR_DNS = 3"
definition ADDR_IPV6 :: byte where [socks_defs]: "ADDR_IPV6 = 4"
definition SOCKS5_OK :: byte where [socks_defs]: "SOCKS5_OK = 0"
definition SOCKS5_GEN_FAIL :: byte where [socks_defs]: "SOCKS5_GEN_FAIL = 1"
definition SOCKS5_HOST_UNREACH :: byte where [socks_defs]: "SOCKS5_HOST_UNREACH = 4"
definition SOCKS5_CMD_UNSUP :: byte where [socks_defs]: "SOCKS5_CMD_UNSUP = 7"
definition SOCKS5_ADDR_UNSUP :: byte where [socks_defs]: "SOCKS5_ADDR_UNSUP = 8"
definition SOCKS4_OK :: byte where [socks_defs]: "SOCKS4_OK = 90"
definition SOCKS4_FAIL :: byte where [socks_defs]: "SOCKS4_FAIL = 91"
definition CMD_CONNECT :: byte where [socks_defs]: "CMD_CONNECT = 1"
definition CMD_BIND :: byte where [socks_defs]: "CMD_BIND = 2"
definition CMD_UDP :: byte where [socks_defs]: "CMD_UDP = 3"
definition SOCKS4 :: byte where [socks_defs]: "SOCKS4 = 4"
definition SOCKS5 :: byte where [socks_defs]: "SOCKS5 = 5"

datatype socks_callback = SentSocksFailed | SentSocksDone | SentSocksResponse

datatype socks_event =
    SockWrite bytes
  | SockClose
  | StreamClose
  | CreateStream bytes "16 word"
  | I2PConnect bytes
  | HandlerDone

record socks_handler =
  h_sock :: bool
  h_stream :: "32 word option"
  h_remaining_data :: bytes
  h_response :: bytes
  h_address :: bytes
  h_4aip :: "32 word"
  h_port :: "16 word"
  h_parseleft :: byte
  h_authchosen :: byte
  h_addrtype :: byte
  h_socksv :: byte
  h_cmd :: byte
  h_state :: socks_state
  h_dead :: bool
  h_reading :: bool
  h_writes :: "socks_callback list"
  h_creating :: bool
  h_out :: "socks_event list"

definition socks_emit :: "socks_event \<Rightarrow> socks_handler \<Rightarrow> socks_handler" where
  "socks_emit e h = h\<lparr>h_out := h_out h @ [e]\<rparr>"

text \<open>The members of the union \<open>address\<close>.\<close>

definition addr_ip :: "bytes \<Rightarrow> 32 word" where "addr_ip a = raw_value (take 4 a)"
definition set_ip :: "32 word \<Rightarrow> bytes \<Rightarrow> bytes" where "set_ip v a = raw_bytes v @ drop 4 a"
definition dns_size :: "bytes \<Rightarrow> byte" where "dns_size a = hd a"
definition set_dns_size :: "byte \<Rightarrow> bytes \<Rightarrow> bytes" where "set_dns_size n a = n # tl a"

definition dns_push_back :: "byte \<Rightarrow> bytes \<Rightarrow> bytes option" where
  "dns_push_back c a = map_option (set_dns_size (dns_size a + 1)) (mem_write a (1 + unat (dns_size a)) [c])"

definition dns_ToString :: "bytes \<Rightarrow> bytes option" where
  "dns_ToString a = mem_read a 1 (unat (dns_size a))"

definition dns_FromString :: "bytes \<Rightarrow> bytes \<Rightarrow> bytes option" where
  "dns_FromString str a =
     (let size = (if length str > MAX_SOCKS_HOSTNAME_SIZE then word_of_nat MAX_SOCKS_HOSTNAME_SIZE else word_of_nat (length str))
      in mem_write (set_dns_size size a) 1 (take (unat size) str))"

section \<open>Entering a state\<close>

definition EnterState :: "socks_state \<Rightarrow> byte \<Rightarrow> socks_handler \<Rightarrow> socks_handler" where
  "EnterState nstate parseleft h =
     (let (h, parseleft) = (case nstate of
          GET_PORT \<Rightarrow> (h, 2)
        | GET_IPV4 \<Rightarrow> (h\<lparr>h_addrtype := ADDR_IPV4, h_address := set_ip 0 (h_address h)\<rparr>, 4)
        | GET4_IDENT \<Rightarrow> (h\<lparr>h_4aip := addr_ip (h_address h)\<rparr>, parseleft)
        | GET4A_HOST \<Rightarrow> (h\<lparr>h_addrtype := ADDR_DNS, h_address := set_dns_size 0 (h_address h)\<rparr>, parseleft)
        | GET5_HOST \<Rightarrow> (h\<lparr>h_addrtype := ADDR_DNS, h_address := set_dns_size 0 (h_address h)\<rparr>, parseleft)
        | GET5_IPV6 \<Rightarrow> (h\<lparr>h_addrtype := ADDR_IPV6\<rparr>, 16)
        | _ \<Rightarrow> (h, parseleft))
      in h\<lparr>h_parseleft := parseleft, h_state := nstate\<rparr>)"

text \<open>\<open>EnterState\<close> without its second argument.\<close>

abbreviation Enter :: "socks_state \<Rightarrow> socks_handler \<Rightarrow> socks_handler" where
  "Enter nstate \<equiv> EnterState nstate 1"

text \<open>
  The constructor. \<open>g\<close> is the handler's memory as it was: the members the constructor does not set
  keep what they hold.
\<close>

definition SOCKSHandler_new :: "socks_handler \<Rightarrow> socks_handler" where
  "SOCKSHandler_new g = Enter GET_SOCKSV
     (g\<lparr>h_sock := True, h_stream := None, h_authchosen := AUTH_UNACCEPTABLE, h_addrtype := ADDR_IPV4,
        h_address := set_ip 0 (h_address g), h_dead := False, h_reading := False, h_writes := [], h_creating := False, h_out := []\<rparr>)"

definition AsyncSockRead :: "socks_handler \<Rightarrow> socks_handler" where
  "AsyncSockRead h = (if h_sock h then h\<lparr>h_reading := True\<rparr> else h)"

definition Terminate :: "socks_handler \<Rightarrow> socks_handler" where
  "Terminate h =
     (if h_dead h then h
      else
        let h = h\<lparr>h_dead := True\<rparr>;
            h = (if h_sock h then (socks_emit SockClose h)\<lparr>h_sock := False\<rparr> else h);
            h = (if h_stream h \<noteq> None then (socks_emit StreamClose h)\<lparr>h_stream := None\<rparr> else h)
        in socks_emit HandlerDone h)"

section \<open>Responses\<close>

definition GenerateSOCKS4Response :: "byte \<Rightarrow> 32 word \<Rightarrow> 16 word \<Rightarrow> socks_handler \<Rightarrow> (bytes \<times> socks_handler) option" where
  "GenerateSOCKS4Response error ip port h =
     (if error \<ge> SOCKS4_OK then do {
        r \<leftarrow> mem_write (h_response h) 0 [0, error];
        r \<leftarrow> htobe16buf r 2 port;
        r \<leftarrow> htobe32buf r 4 ip;
        response \<leftarrow> mem_read r 0 8;
        Some (response, h\<lparr>h_response := r\<rparr>) }
      else None)"

definition GenerateSOCKS5Response :: "byte \<Rightarrow> byte \<Rightarrow> bytes \<Rightarrow> 16 word \<Rightarrow> socks_handler \<Rightarrow> (bytes \<times> socks_handler) option" where
  "GenerateSOCKS5Response error type addr port h =
     (if error \<le> SOCKS5_ADDR_UNSUP then do {
        r \<leftarrow> mem_write (h_response h) 0 [5, error, 0, type];
        (r, size) \<leftarrow>
          (if type = ADDR_IPV4 then map_option (\<lambda>r. (r, 10)) (htobe32buf r 4 (addr_ip addr))
           else if type = ADDR_IPV6 then do {
             a \<leftarrow> mem_read addr 0 16;
             map_option (\<lambda>r. (r, 22)) (mem_write r 4 a) }
           else if type = ADDR_DNS then do {
             name \<leftarrow> mem_read addr 1 (unat (dns_size addr));
             map_option (\<lambda>r. (r, 7 + unat (dns_size addr))) (mem_write r 4 (dns_size addr # name)) }
           else Some (r, 6));
        r \<leftarrow> htobe16buf r (size - 2) port;
        response \<leftarrow> mem_read r 0 size;
        Some (response, h\<lparr>h_response := r\<rparr>) }
      else None)"

text \<open>\<open>async_write\<close> on \<open>*m_sock\<close>.\<close>

definition async_write :: "bytes \<Rightarrow> socks_callback \<Rightarrow> socks_handler \<Rightarrow> socks_handler option" where
  "async_write response callback h =
     (if h_sock h then Some ((socks_emit (SockWrite response) h)\<lparr>h_writes := h_writes h @ [callback]\<rparr>) else None)"

definition Socks5ChooseAuth :: "socks_handler \<Rightarrow> (bool \<times> socks_handler) option" where
  "Socks5ChooseAuth h = do {
     r \<leftarrow> mem_write (h_response h) 0 [5, h_authchosen h];
     let h = h\<lparr>h_response := r\<rparr>;
     (if h_authchosen h = AUTH_UNACCEPTABLE
      then map_option (Pair False) (async_write (take 2 r) SentSocksFailed h)
      else map_option (Pair True) (async_write (take 2 r) SentSocksResponse h)) }"

definition SocksRequestFailed :: "byte \<Rightarrow> socks_handler \<Rightarrow> socks_handler option" where
  "SocksRequestFailed error h =
     (if error \<noteq> SOCKS4_OK \<and> error \<noteq> SOCKS5_OK then do {
        (response, h) \<leftarrow>
          (if h_socksv h = SOCKS4
           then GenerateSOCKS4Response (if error < SOCKS4_OK then SOCKS4_FAIL else error) (h_4aip h) (h_port h) h
           else if h_socksv h = SOCKS5 then GenerateSOCKS5Response error (h_addrtype h) (h_address h) (h_port h) h
           else Some ([], h));
        async_write response SentSocksFailed h }
      else None)"

text \<open>
  \<open>own\<close> is the address of the local destination in the address book; \<open>addr\<close> is the memory of the
  local variable \<open>ad\<close>.
\<close>

definition SocksRequestSuccess :: "bytes \<Rightarrow> bytes \<Rightarrow> socks_handler \<Rightarrow> socks_handler option" where
  "SocksRequestSuccess own addr h = do {
     (response, h) \<leftarrow>
       (if h_socksv h = SOCKS4 then GenerateSOCKS4Response SOCKS4_OK (h_4aip h) (h_port h) h
        else if h_socksv h = SOCKS5 then do {
          ad \<leftarrow> dns_FromString own addr;
          recvStreamID \<leftarrow> h_stream h;
          GenerateSOCKS5Response SOCKS5_OK ADDR_DNS ad (ucast recvStreamID) h }
        else Some ([], h));
     async_write response SentSocksDone h }"

section \<open>Reading a request\<close>

text \<open>\<open>find(".i2p") != npos\<close>.\<close>

definition i2p_domain :: bytes where "i2p_domain = [0x2e, 0x69, 0x32, 0x70]"

fun contains :: "bytes \<Rightarrow> bytes \<Rightarrow> bool" where
  "contains p [] = (p = [])"
| "contains p (c # s) = (take (length p) (c # s) = p \<or> contains p s)"

definition ValidateSOCKSRequest :: "socks_handler \<Rightarrow> (bool \<times> socks_handler) option" where
  "ValidateSOCKSRequest h =
     (if h_cmd h \<noteq> CMD_CONNECT then map_option (Pair False) (SocksRequestFailed SOCKS5_CMD_UNSUP h)
      else if h_addrtype h \<noteq> ADDR_DNS then map_option (Pair False) (SocksRequestFailed SOCKS5_ADDR_UNSUP h)
      else do {
        host \<leftarrow> dns_ToString (h_address h);
        (if \<not> contains i2p_domain host then map_option (Pair False) (SocksRequestFailed SOCKS5_ADDR_UNSUP h)
         else Some (True, h)) })"

text \<open>One byte in each state; false if the request is given up.\<close>

definition get_socksv :: "byte \<Rightarrow> socks_handler \<Rightarrow> (bool \<times> socks_handler) option" where
  "get_socksv b h = (let h = h\<lparr>h_socksv := b\<rparr> in
     if b = SOCKS4 then Some (True, Enter GET_COMMAND h)
     else if b = SOCKS5 then Some (True, Enter GET5_AUTHNUM h)
     else Some (False, Terminate h))"

definition get5_auth :: "byte \<Rightarrow> socks_handler \<Rightarrow> (bool \<times> socks_handler) option" where
  "get5_auth b h =
     (let h = h\<lparr>h_parseleft := h_parseleft h - 1\<rparr>;
          h = (if b = AUTH_NONE then h\<lparr>h_authchosen := AUTH_NONE\<rparr> else h)
      in if h_parseleft h = 0 then do {
           (ok, h) \<leftarrow> Socks5ChooseAuth h;
           Some (if ok then (True, Enter GET5_REQUESTV h) else (False, h)) }
         else Some (True, h))"

definition get_command :: "byte \<Rightarrow> socks_handler \<Rightarrow> (bool \<times> socks_handler) option" where
  "get_command b h =
     (if b = CMD_CONNECT \<or> b = CMD_BIND \<or> (b = CMD_UDP \<and> h_socksv h = SOCKS5) then
        let h = h\<lparr>h_cmd := b\<rparr>
        in Some (True, if h_socksv h = SOCKS5 then Enter GET5_GETRSV h else if h_socksv h = SOCKS4 then Enter GET_PORT h else h)
      else map_option (Pair False) (SocksRequestFailed SOCKS5_GEN_FAIL h))"

definition get_port :: "byte \<Rightarrow> socks_handler \<Rightarrow> socks_handler" where
  "get_port b h =
     (let h = h\<lparr>h_port := push_bit 8 (h_port h) OR ucast b, h_parseleft := h_parseleft h - 1\<rparr>
      in if h_parseleft h = 0
         then if h_socksv h = SOCKS5 then Enter DONE h else if h_socksv h = SOCKS4 then Enter GET_IPV4 h else h
         else h)"

definition get_ipv4 :: "byte \<Rightarrow> socks_handler \<Rightarrow> socks_handler" where
  "get_ipv4 b h =
     (let h = h\<lparr>h_address := set_ip (push_bit 8 (addr_ip (h_address h)) OR ucast b) (h_address h), h_parseleft := h_parseleft h - 1\<rparr>
      in if h_parseleft h = 0
         then if h_socksv h = SOCKS5 then Enter GET_PORT h
              else if h_socksv h = SOCKS4 then (let h = Enter GET4_IDENT h in h\<lparr>h_4aip := addr_ip (h_address h)\<rparr>) else h
         else h)"

definition get4_ident :: "byte \<Rightarrow> socks_handler \<Rightarrow> socks_handler" where
  "get4_ident b h =
     (if b = 0 then if h_4aip h = 0 \<or> h_4aip h > 255 then Enter DONE h else Enter GET4A_HOST h else h)"

definition get4a_host :: "byte \<Rightarrow> socks_handler \<Rightarrow> (bool \<times> socks_handler) option" where
  "get4a_host b h =
     (if b = 0 then Some (True, Enter DONE h)
      else if unat (dns_size (h_address h)) \<ge> MAX_SOCKS_HOSTNAME_SIZE
      then map_option (Pair False) (SocksRequestFailed SOCKS4_FAIL h)
      else map_option (\<lambda>a. (True, h\<lparr>h_address := a\<rparr>)) (dns_push_back b (h_address h)))"

definition get5_addrtype :: "byte \<Rightarrow> socks_handler \<Rightarrow> (bool \<times> socks_handler) option" where
  "get5_addrtype b h =
     (if b = ADDR_IPV4 then Some (True, Enter GET_IPV4 h)
      else if b = ADDR_IPV6 then Some (True, Enter GET5_IPV6 h)
      else if b = ADDR_DNS then Some (True, Enter GET5_HOST_SIZE h)
      else map_option (Pair False) (SocksRequestFailed SOCKS5_GEN_FAIL h))"

definition get5_ipv6 :: "byte \<Rightarrow> socks_handler \<Rightarrow> (bool \<times> socks_handler) option" where
  "get5_ipv6 b h =
     (if 0 < unat (h_parseleft h) \<and> unat (h_parseleft h) \<le> 16 then do {
        a \<leftarrow> mem_write (h_address h) (16 - unat (h_parseleft h)) [b];
        let h = h\<lparr>h_address := a, h_parseleft := h_parseleft h - 1\<rparr>;
        Some (True, if h_parseleft h = 0 then Enter GET_PORT h else h) }
      else None)"

definition get5_host :: "byte \<Rightarrow> socks_handler \<Rightarrow> (bool \<times> socks_handler) option" where
  "get5_host b h = do {
     a \<leftarrow> dns_push_back b (h_address h);
     let h = h\<lparr>h_address := a, h_parseleft := h_parseleft h - 1\<rparr>;
     Some (True, if h_parseleft h = 0 then Enter GET_PORT h else h) }"

definition parse_byte :: "byte \<Rightarrow> socks_handler \<Rightarrow> (bool \<times> socks_handler) option" where
  "parse_byte b h = (case h_state h of
       GET_SOCKSV \<Rightarrow> get_socksv b h
     | GET5_AUTHNUM \<Rightarrow> Some (True, EnterState GET5_AUTH b h)
     | GET5_AUTH \<Rightarrow> get5_auth b h
     | GET_COMMAND \<Rightarrow> get_command b h
     | GET_PORT \<Rightarrow> Some (True, get_port b h)
     | GET_IPV4 \<Rightarrow> Some (True, get_ipv4 b h)
     | GET4_IDENT \<Rightarrow> Some (True, get4_ident b h)
     | GET4A_HOST \<Rightarrow> get4a_host b h
     | GET5_REQUESTV \<Rightarrow>
         if b \<noteq> SOCKS5 then map_option (Pair False) (SocksRequestFailed SOCKS5_GEN_FAIL h) else Some (True, Enter GET_COMMAND h)
     | GET5_GETRSV \<Rightarrow>
         if b \<noteq> 0 then map_option (Pair False) (SocksRequestFailed SOCKS5_GEN_FAIL h) else Some (True, Enter GET5_GETADDRTYPE h)
     | GET5_GETADDRTYPE \<Rightarrow> get5_addrtype b h
     | GET5_IPV6 \<Rightarrow> get5_ipv6 b h
     | GET5_HOST_SIZE \<Rightarrow> Some (True, EnterState GET5_HOST b h)
     | GET5_HOST \<Rightarrow> get5_host b h
     | DONE \<Rightarrow> Some (False, Terminate h))"

text \<open>The loop of \<open>HandleData\<close>.\<close>

fun parse_data :: "bytes \<Rightarrow> socks_handler \<Rightarrow> (bool \<times> socks_handler) option" where
  "parse_data [] h = Some (True, h)"
| "parse_data (b # bs) h = do {
     (ok, h) \<leftarrow> parse_byte b h;
     (if \<not> ok then Some (False, h)
      else if h_state h = DONE then ValidateSOCKSRequest (h\<lparr>h_remaining_data := bs\<rparr>)
      else parse_data bs h) }"

definition HandleData :: "bytes \<Rightarrow> socks_handler \<Rightarrow> (bool \<times> socks_handler) option" where
  "HandleData sock_buff h = (if sock_buff = [] then None else parse_data sock_buff h)"

section \<open>Completion handlers\<close>

text \<open>An operation completes with an error code (\<open>ecode\<close>) or without.\<close>

definition HandleSockRecv :: "bool \<Rightarrow> bytes \<Rightarrow> socks_handler \<Rightarrow> socks_handler option" where
  "HandleSockRecv ecode sock_buff h =
     (if ecode then Some (Terminate h)
      else do {
        (ok, h) \<leftarrow> HandleData sock_buff h;
        (if \<not> ok then Some h
         else if h_state h = DONE then do {
           host \<leftarrow> dns_ToString (h_address h);
           Some ((socks_emit (CreateStream host (h_port h)) h)\<lparr>h_creating := True\<rparr>) }
         else Some (AsyncSockRead h)) })"

definition socks_sent :: "socks_callback \<Rightarrow> bool \<Rightarrow> socks_handler \<Rightarrow> socks_handler" where
  "socks_sent callback ecode h = (case callback of
       SentSocksFailed \<Rightarrow> Terminate h
     | SentSocksDone \<Rightarrow>
         if \<not> ecode then
           if h_dead h then h
           else socks_emit HandlerDone (socks_emit (I2PConnect (h_remaining_data h)) (h\<lparr>h_dead := True\<rparr>))
         else Terminate h
     | SentSocksResponse \<Rightarrow> if ecode then Terminate h else h)"

definition HandleStreamRequestComplete :: "bytes \<Rightarrow> bytes \<Rightarrow> 32 word option \<Rightarrow> socks_handler \<Rightarrow> socks_handler option" where
  "HandleStreamRequestComplete own addr stream h = (case stream of
       Some recvStreamID \<Rightarrow> SocksRequestSuccess own addr (h\<lparr>h_stream := Some recvStreamID\<rparr>)
     | None \<Rightarrow> SocksRequestFailed SOCKS5_HOST_UNREACH h)"


section \<open>What an operation does outside\<close>

fun asks_nothing :: "socks_event \<Rightarrow> bool" where
  "asks_nothing (CreateStream host port) = False"
| "asks_nothing (I2PConnect bs) = False"
| "asks_nothing _ = True"

definition done_once :: "socks_handler \<Rightarrow> bool" where
  "done_once h \<longleftrightarrow> count_list (h_out h) HandlerDone = (if h_dead h then 1 else 0)"

definition quiet :: "socks_handler \<Rightarrow> socks_handler \<Rightarrow> bool" where
  "quiet h h' \<longleftrightarrow> (\<exists>es ws. h_out h' = h_out h @ es \<and> (\<forall>e \<in> set es. asks_nothing e) \<and> h_writes h' = h_writes h @ ws \<and>
     SentSocksDone \<notin> set ws) \<and> h_creating h' = h_creating h \<and> h_reading h' = h_reading h \<and> (done_once h \<longrightarrow> done_once h')"

lemma quiet_refl: "quiet h h"
  by (auto simp: quiet_def)

lemma quiet_trans: "quiet h1 h2 \<Longrightarrow> quiet h2 h3 \<Longrightarrow> quiet h1 h3"
  unfolding quiet_def by (elim conjE exE, intro conjI) (auto intro: exI [of _ "_ @ _"])

lemma quiet_upd:
  "h_out h' = h_out h \<Longrightarrow> h_writes h' = h_writes h \<Longrightarrow> h_creating h' = h_creating h \<Longrightarrow> h_reading h' = h_reading h \<Longrightarrow>
    h_dead h' = h_dead h \<Longrightarrow> quiet h h'"
  by (auto simp: quiet_def done_once_def)

lemma EnterState_fields [simp]:
  "h_state (EnterState s p h) = s" "h_out (EnterState s p h) = h_out h" "h_writes (EnterState s p h) = h_writes h"
  "h_creating (EnterState s p h) = h_creating h" "h_reading (EnterState s p h) = h_reading h" "h_dead (EnterState s p h) = h_dead h"
  "h_sock (EnterState s p h) = h_sock h" "h_socksv (EnterState s p h) = h_socksv h" "h_cmd (EnterState s p h) = h_cmd h"
  "h_port (EnterState s p h) = h_port h" "h_remaining_data (EnterState s p h) = h_remaining_data h" "h_response (EnterState s p h) = h_response h"
  "h_authchosen (EnterState s p h) = h_authchosen h" "h_stream (EnterState s p h) = h_stream h"
  by (simp_all add: EnterState_def split: socks_state.split)

lemma quiet_same [simp]:
  "quiet (h\<lparr>h_parseleft := a\<rparr>) h' = quiet h h'" "quiet h (h'\<lparr>h_parseleft := a\<rparr>) = quiet h h'"
  "quiet (h\<lparr>h_authchosen := a\<rparr>) h' = quiet h h'" "quiet h (h'\<lparr>h_authchosen := a\<rparr>) = quiet h h'"
  "quiet (h\<lparr>h_response := bs\<rparr>) h' = quiet h h'" "quiet h (h'\<lparr>h_response := bs\<rparr>) = quiet h h'"
  "quiet (h\<lparr>h_address := bs\<rparr>) h' = quiet h h'" "quiet h (h'\<lparr>h_address := bs\<rparr>) = quiet h h'"
  "quiet (h\<lparr>h_socksv := a\<rparr>) h' = quiet h h'" "quiet h (h'\<lparr>h_socksv := a\<rparr>) = quiet h h'"
  "quiet (h\<lparr>h_cmd := a\<rparr>) h' = quiet h h'" "quiet h (h'\<lparr>h_cmd := a\<rparr>) = quiet h h'"
  "quiet (h\<lparr>h_port := p16\<rparr>) h' = quiet h h'" "quiet h (h'\<lparr>h_port := p16\<rparr>) = quiet h h'"
  "quiet (h\<lparr>h_4aip := w\<rparr>) h' = quiet h h'" "quiet h (h'\<lparr>h_4aip := w\<rparr>) = quiet h h'"
  "quiet (h\<lparr>h_remaining_data := bs\<rparr>) h' = quiet h h'" "quiet h (h'\<lparr>h_remaining_data := bs\<rparr>) = quiet h h'"
  "quiet (h\<lparr>h_stream := sid\<rparr>) h' = quiet h h'" "quiet h (h'\<lparr>h_stream := sid\<rparr>) = quiet h h'"
  "quiet (h\<lparr>h_addrtype := a\<rparr>) h' = quiet h h'" "quiet h (h'\<lparr>h_addrtype := a\<rparr>) = quiet h h'"
  "quiet (h\<lparr>h_state := st\<rparr>) h' = quiet h h'" "quiet h (h'\<lparr>h_state := st\<rparr>) = quiet h h'"
  "quiet h (EnterState s p h') = quiet h h'" "quiet (EnterState s p h) h' = quiet h h'" "quiet h h"
  by (simp_all add: quiet_def done_once_def)

lemma Terminate_quiet: "quiet h (Terminate h)" "h_state (Terminate h) = h_state h"
  by (auto simp: quiet_def Terminate_def socks_emit_def done_once_def Let_def)

lemma async_write_quiet: "async_write r cb h = Some h' \<Longrightarrow> cb \<noteq> SentSocksDone \<Longrightarrow> quiet h h' \<and> h_state h' = h_state h \<and> h_sock h'"
  by (auto simp: async_write_def quiet_def socks_emit_def done_once_def split: if_splits)

lemma Generate_fields:
  "GenerateSOCKS4Response e ip p h = Some (r, h') \<Longrightarrow> \<exists>b. h' = h\<lparr>h_response := b\<rparr>"
  "GenerateSOCKS5Response e t a p h = Some (r, h') \<Longrightarrow> \<exists>b. h' = h\<lparr>h_response := b\<rparr>"
  by (auto simp: GenerateSOCKS4Response_def GenerateSOCKS5Response_def bind_eq_Some_conv split: if_splits)

lemma SocksRequestFailed_quiet: "SocksRequestFailed e h = Some h' \<Longrightarrow> quiet h h' \<and> h_state h' = h_state h"
  unfolding SocksRequestFailed_def
  by (auto simp: bind_eq_Some_conv split: if_splits dest!: Generate_fields async_write_quiet)

lemma Socks5ChooseAuth_quiet: "Socks5ChooseAuth h = Some (ok, h') \<Longrightarrow> quiet h h' \<and> h_state h' = h_state h \<and> h_sock h'"
  unfolding Socks5ChooseAuth_def Let_def
  by (auto simp: bind_eq_Some_conv split: if_splits dest!: async_write_quiet)

lemmas socks_parsers = get_socksv_def get5_auth_def get_command_def get_port_def get_ipv4_def get4_ident_def get4a_host_def
  get5_addrtype_def get5_ipv6_def get5_host_def

lemma parse_byte_quiet:
  assumes "parse_byte b h = Some (ok, h')"
  shows "quiet h h'"
  using assms
  by (cases "h_state h")
    (auto simp: parse_byte_def socks_parsers Let_def bind_eq_Some_conv Terminate_quiet quiet_trans [OF _ Terminate_quiet(1)] split: if_splits prod.splits
      dest!: SocksRequestFailed_quiet Socks5ChooseAuth_quiet)

lemma parse_byte_state:
  assumes "parse_byte b h = Some (False, h')"
  shows "h_state h' = h_state h"
  using assms
  by (cases "h_state h")
    (auto simp: parse_byte_def socks_parsers Let_def bind_eq_Some_conv Terminate_quiet split: if_splits prod.splits
      dest!: SocksRequestFailed_quiet Socks5ChooseAuth_quiet)

lemma parse_byte_sock:
  assumes "parse_byte b h = Some (True, h')" and "h_sock h"
  shows "h_sock h'"
  using assms
  by (cases "h_state h")
    (auto simp: parse_byte_def socks_parsers Let_def bind_eq_Some_conv split: if_splits prod.splits dest!: Socks5ChooseAuth_quiet)

text \<open>A request that is accepted names a host in the domain \<open>.i2p\<close>.\<close>

lemma ValidateSOCKSRequest_quiet: "ValidateSOCKSRequest h = Some (ok, h') \<Longrightarrow> quiet h h' \<and> h_state h' = h_state h"
  by (auto simp: ValidateSOCKSRequest_def bind_eq_Some_conv split: if_splits dest!: SocksRequestFailed_quiet)

definition i2p_host :: "bytes \<Rightarrow> bool" where
  "i2p_host host \<longleftrightarrow> contains i2p_domain host \<and> length host \<le> 255"

lemma ValidateSOCKSRequest_True:
  assumes "ValidateSOCKSRequest h = Some (True, h')"
  shows "h' = h" "h_cmd h = CMD_CONNECT" "\<exists>host. dns_ToString (h_address h) = Some host \<and> i2p_host host"
proof -
  have "\<exists>host. dns_ToString (h_address h) = Some host \<and> contains i2p_domain host"
    using assms by (auto simp: ValidateSOCKSRequest_def bind_eq_Some_conv split: if_splits)
  moreover have "length host \<le> 255" if "dns_ToString (h_address h) = Some host" for host
    using that unsigned_less [of "dns_size (h_address h)", where 'a = nat] mem_read_length by (fastforce simp: dns_ToString_def)
  ultimately show "\<exists>host. dns_ToString (h_address h) = Some host \<and> i2p_host host" by (auto simp: i2p_host_def)
qed (use assms in \<open>auto simp: ValidateSOCKSRequest_def bind_eq_Some_conv split: if_splits\<close>)

lemma parse_data_quiet:
  assumes "parse_data bs h = Some (ok, h')" and "h_state h \<noteq> DONE"
  shows "quiet h h' \<and> (ok \<and> h_state h' = DONE \<longrightarrow> h_cmd h' = CMD_CONNECT \<and> (\<exists>host. dns_ToString (h_address h') = Some host \<and> i2p_host host))"
  using assms
proof (induction bs arbitrary: h)
  case (Cons b bs)
  obtain ok1 h1 where p: "parse_byte b h = Some (ok1, h1)" using Cons.prems(1) by (auto simp: bind_eq_Some_conv)
  note q = parse_byte_quiet [OF p]
  consider "\<not> ok1" | "ok1" "h_state h1 = DONE" | "ok1" "h_state h1 \<noteq> DONE" by blast
  then show ?case
  proof cases
    case 1
    then show ?thesis using Cons.prems p q by simp
  next
    case 2
    then have v: "ValidateSOCKSRequest (h1\<lparr>h_remaining_data := bs\<rparr>) = Some (ok, h')" using Cons.prems(1) p by simp
    have "quiet h h'" using ValidateSOCKSRequest_quiet [OF v] quiet_trans [OF q] by simp
    then show ?thesis using ValidateSOCKSRequest_True [of "h1\<lparr>h_remaining_data := bs\<rparr>" h'] v by auto
  next
    case 3
    then have "parse_data bs h1 = Some (ok, h')" using Cons.prems(1) p by simp
    then show ?thesis using Cons.IH [of h1] 3(2) quiet_trans [OF q] by blast
  qed
qed simp


section \<open>The life of a connection\<close>

text \<open>
  The steps of a handler: a pending read, write or request for a stream completes. \<open>own\<close> is the
  address of the local destination.
\<close>

inductive socks_step :: "bytes \<Rightarrow> socks_handler \<Rightarrow> socks_handler \<Rightarrow> bool" for own where
  received: "h_reading h \<Longrightarrow> HandleSockRecv ecode sock_buff (h\<lparr>h_reading := False\<rparr>) = Some h' \<Longrightarrow> socks_step own h h'"
| written: "cb \<in> set (h_writes h) \<Longrightarrow> socks_step own h (socks_sent cb ecode (h\<lparr>h_writes := remove1 cb (h_writes h)\<rparr>))"
| stream: "h_creating h \<Longrightarrow> HandleStreamRequestComplete own addr result (h\<lparr>h_creating := False\<rparr>) = Some h' \<Longrightarrow> socks_step own h h'"

inductive_cases socks_stepE: "socks_step own h h'"

text \<open>What holds in every state.\<close>

definition is_create :: "socks_event \<Rightarrow> bool" where
  "is_create e \<longleftrightarrow> (\<exists>host port. e = CreateStream host port)"

definition asked :: "socks_handler \<Rightarrow> bool" where
  "asked h \<longleftrightarrow> (\<exists>e \<in> set (h_out h). is_create e)"

definition socks_inv :: "socks_handler \<Rightarrow> bool" where
  "socks_inv h \<longleftrightarrow>
     (h_reading h \<longrightarrow> \<not> asked h \<and> h_state h \<noteq> DONE) \<and>
     (h_creating h \<or> SentSocksDone \<in> set (h_writes h) \<or> (\<exists>bs. I2PConnect bs \<in> set (h_out h)) \<longrightarrow> asked h) \<and>
     length (filter is_create (h_out h)) \<le> 1 \<and>
     (\<forall>host port. CreateStream host port \<in> set (h_out h) \<longrightarrow> i2p_host host \<and> h_cmd h = CMD_CONNECT) \<and> done_once h"

lemma is_create_simps [simp]:
  "is_create (CreateStream host port)" "\<not> is_create (SockWrite bs)" "\<not> is_create SockClose" "\<not> is_create StreamClose"
  "\<not> is_create (I2PConnect bs)" "\<not> is_create HandlerDone"
  by (auto simp: is_create_def)

lemma asks_nothing_create: "asks_nothing e \<Longrightarrow> \<not> is_create e \<and> (\<forall>bs. e \<noteq> I2PConnect bs)"
  by (cases e) auto

lemma not_asked: "\<not> asked h \<longleftrightarrow> filter is_create (h_out h) = []"
  by (simp add: asked_def filter_empty_conv)

lemma quiet_facts:
  assumes "quiet h h'"
  shows "filter is_create (h_out h') = filter is_create (h_out h)" "asked h' = asked h"
    "I2PConnect bs \<in> set (h_out h') \<longleftrightarrow> I2PConnect bs \<in> set (h_out h)"
    "CreateStream host port \<in> set (h_out h') \<longleftrightarrow> CreateStream host port \<in> set (h_out h)"
    "SentSocksDone \<in> set (h_writes h') \<longleftrightarrow> SentSocksDone \<in> set (h_writes h)"
    "h_creating h' = h_creating h" "h_reading h' = h_reading h" "done_once h \<Longrightarrow> done_once h'"
proof -
  obtain es ws where o: "h_out h' = h_out h @ es" "h_writes h' = h_writes h @ ws" "SentSocksDone \<notin> set ws"
    and n: "\<forall>e \<in> set es. asks_nothing e"
    using assms by (auto simp: quiet_def)
  have e: "\<not> is_create e" "\<forall>bs. e \<noteq> I2PConnect bs" if "e \<in> set es" for e using n that asks_nothing_create by blast+
  then show f: "filter is_create (h_out h') = filter is_create (h_out h)" by (simp add: o)
  then show "asked h' = asked h" using not_asked by metis
  show "I2PConnect bs \<in> set (h_out h') \<longleftrightarrow> I2PConnect bs \<in> set (h_out h)" using e(2) o(1) by auto
  show "CreateStream host port \<in> set (h_out h') \<longleftrightarrow> CreateStream host port \<in> set (h_out h)"
    using e(1) [of "CreateStream host port"] o(1) by auto
qed (use assms in \<open>auto simp: quiet_def\<close>)

lemma Generate_quiet:
  "GenerateSOCKS4Response e ip p h = Some (r, h') \<Longrightarrow> quiet h h' \<and> h_cmd h' = h_cmd h"
  "GenerateSOCKS5Response e t a p h = Some (r, h') \<Longrightarrow> quiet h h' \<and> h_cmd h' = h_cmd h"
  using Generate_fields by fastforce+

text \<open>\<open>SocksRequestSuccess\<close> adds the one write that may hand the connection over.\<close>

lemma SocksRequestSuccess_writes:
  assumes "SocksRequestSuccess own addr h = Some h'"
  shows "\<exists>r h1. quiet h h1 \<and> h_cmd h1 = h_cmd h \<and> h_sock h1 \<and> h' = (socks_emit (SockWrite r) h1)\<lparr>h_writes := h_writes h1 @ [SentSocksDone]\<rparr>"
proof -
  obtain r h1 where w: "async_write r SentSocksDone h1 = Some h'" and q: "quiet h h1 \<and> h_cmd h1 = h_cmd h"
    using assms by (auto simp: SocksRequestSuccess_def bind_eq_Some_conv split: if_splits dest: Generate_quiet)
  then show ?thesis by (auto simp: async_write_def split: if_splits)
qed

lemma SocksRequestFailed_cmd: "SocksRequestFailed e h = Some h' \<Longrightarrow> h_cmd h' = h_cmd h"
  unfolding SocksRequestFailed_def
  by (auto simp: bind_eq_Some_conv async_write_def socks_emit_def split: if_splits dest!: Generate_quiet)

lemma quiet_inv: "quiet h h' \<Longrightarrow> h_cmd h' = h_cmd h \<Longrightarrow> h_state h' = h_state h \<Longrightarrow> socks_inv h \<Longrightarrow> socks_inv h'"
  using quiet_facts [of h h'] by (simp add: socks_inv_def)

lemma Terminate_cmd: "h_cmd (Terminate h) = h_cmd h"
  by (simp add: Terminate_def socks_emit_def Let_def)

lemma Terminate_inv: "socks_inv h \<Longrightarrow> socks_inv (Terminate h)"
  by (rule quiet_inv [OF Terminate_quiet(1) Terminate_cmd Terminate_quiet(2)])

lemma socks_inv_upd: "socks_inv h \<Longrightarrow> socks_inv (h\<lparr>h_reading := False\<rparr>)" "socks_inv h \<Longrightarrow> socks_inv (h\<lparr>h_creating := False\<rparr>)"
  "socks_inv h \<Longrightarrow> socks_inv (h\<lparr>h_stream := sid\<rparr>)" "socks_inv h \<Longrightarrow> socks_inv (h\<lparr>h_writes := remove1 cb (h_writes h)\<rparr>)"
  using set_remove1_subset [of cb "h_writes h"] by (auto simp: socks_inv_def asked_def done_once_def)

lemma socks_step_inv:
  assumes "socks_step own h h'" and "socks_inv h"
  shows "socks_inv h'"
  using assms(1)
proof (cases rule: socks_step.cases)
  case (received ecode sock_buff)
  let ?h = "h\<lparr>h_reading := False\<rparr>"
  have i: "socks_inv ?h" "\<not> asked h" "h_state h \<noteq> DONE" "\<not> h_creating h"
    using assms(2) received(1) socks_inv_upd(1) by (auto simp: socks_inv_def)
  show ?thesis
  proof (cases ecode)
    case True
    then show ?thesis using received(2) Terminate_inv [OF i(1)] by (simp add: HandleSockRecv_def)
  next
    case False
    then obtain ok h1 where p: "parse_data sock_buff ?h = Some (ok, h1)"
      using received(2) by (auto simp: HandleSockRecv_def HandleData_def bind_eq_Some_conv split: if_splits)
    have q: "quiet ?h h1" "ok \<and> h_state h1 = DONE \<longrightarrow> h_cmd h1 = CMD_CONNECT \<and> (\<exists>host. dns_ToString (h_address h1) = Some host \<and> i2p_host host)"
      using parse_data_quiet [OF p] i(3) by simp_all
    have na: "\<not> asked ?h" "\<not> asked h1" "filter is_create (h_out h1) = []" "\<not> h_reading h1" "\<not> h_creating h1" "done_once h1"
      using i q(1) quiet_facts [OF q(1)] by (simp_all add: asked_def socks_inv_def filter_empty_conv)
    have nd: "SentSocksDone \<notin> set (h_writes h1)" "I2PConnect bs \<notin> set (h_out h1)" "CreateStream host port \<notin> set (h_out h1)" for bs host port
      using i(1) na quiet_facts [OF q(1)] by (auto simp: socks_inv_def asked_def)
    have "h' = h1 \<or> (\<exists>host. dns_ToString (h_address h1) = Some host \<and> ok \<and> h_state h1 = DONE \<and> h' = (socks_emit (CreateStream host (h_port h1)) h1)\<lparr>h_creating := True\<rparr>) \<or>
        (h_state h1 \<noteq> DONE \<and> h' = AsyncSockRead h1)"
      using received(2) False p
      by (auto simp: HandleSockRecv_def HandleData_def bind_eq_Some_conv split: if_splits)
    moreover have "socks_inv h1" using na nd by (simp add: socks_inv_def)
    moreover have "socks_inv (AsyncSockRead h1)" if "h_state h1 \<noteq> DONE"
      using na nd that by (simp add: socks_inv_def AsyncSockRead_def asked_def done_once_def)
    moreover have "socks_inv ((socks_emit (CreateStream host (h_port h1)) h1)\<lparr>h_creating := True\<rparr>)"
      if "dns_ToString (h_address h1) = Some host" "ok" "h_state h1 = DONE" for host
      using na nd q(2) that by (simp add: socks_inv_def socks_emit_def asked_def done_once_def)
    ultimately show ?thesis by blast
  qed
next
  case (written cb ecode)
  let ?h = "h\<lparr>h_writes := remove1 cb (h_writes h)\<rparr>"
  have i: "socks_inv ?h" by (rule socks_inv_upd(4) [OF assms(2)])
  have a: "asked h" if "cb = SentSocksDone" using assms(2) written(2) that by (auto simp: socks_inv_def)
  show ?thesis
    unfolding written(1)
  proof (cases "cb = SentSocksDone \<and> \<not> ecode \<and> \<not> h_dead ?h")
    case True
    then show "socks_inv (socks_sent cb ecode ?h)"
      using i a by (simp add: socks_sent_def socks_inv_def socks_emit_def asked_def done_once_def)
  next
    case False
    then have "socks_sent cb ecode ?h \<in> {?h, Terminate ?h}" by (auto simp: socks_sent_def split: socks_callback.splits)
    then show "socks_inv (socks_sent cb ecode ?h)" using i Terminate_inv by auto
  qed
next
  case (stream addr result)
  let ?h = "h\<lparr>h_creating := False\<rparr>"
  have i: "socks_inv ?h" "asked h" "\<not> h_reading h" using assms(2) stream(1) socks_inv_upd(2) by (auto simp: socks_inv_def)
  show ?thesis
  proof (cases result)
    case None
    then have "SocksRequestFailed SOCKS5_HOST_UNREACH ?h = Some h'" using stream(2) by (simp add: HandleStreamRequestComplete_def)
    then have q: "quiet ?h h'" "h_state h' = h_state h" "h_cmd h' = h_cmd h"
      using SocksRequestFailed_quiet SocksRequestFailed_cmd by fastforce+
    show ?thesis by (rule quiet_inv [OF q(1)]) (use q i(1) in simp_all)
  next
    case (Some sid)
    then have "SocksRequestSuccess own addr (?h\<lparr>h_stream := Some sid\<rparr>) = Some h'"
      using stream(2) by (simp add: HandleStreamRequestComplete_def)
    from SocksRequestSuccess_writes [OF this] obtain r h1 where
      q: "quiet ?h h1" "h_cmd h1 = h_cmd h" "h' = (socks_emit (SockWrite r) h1)\<lparr>h_writes := h_writes h1 @ [SentSocksDone]\<rparr>"
      by auto
    have "asked ?h" using i(2) by (simp add: asked_def)
    then have "asked h1" "\<not> h_reading h1" using i(3) quiet_facts [OF q(1)] by simp_all
    moreover have "socks_inv h1"
      using i q(2) quiet_facts [OF q(1)] by (simp add: socks_inv_def)
    ultimately show ?thesis
      unfolding q(3) by (simp add: socks_inv_def socks_emit_def asked_def done_once_def)
  qed
qed

lemma SOCKSHandler_new_inv: "socks_inv (AsyncSockRead (SOCKSHandler_new g))"
  by (simp add: socks_inv_def AsyncSockRead_def SOCKSHandler_new_def asked_def done_once_def)

text \<open>
  C32: whatever a client sends, and however reads, writes and the request for the stream complete,
  the handler asks at most once for a stream, only after a CONNECT request and only to a host of at
  most 255 bytes whose name contains \<open>.i2p\<close>; it hands a connection over only after that, and it
  is taken off the service's list once, when it is dead.
\<close>

theorem socks_only_i2p:
  assumes "(socks_step own)\<^sup>*\<^sup>* (AsyncSockRead (SOCKSHandler_new g)) h"
  shows "length (filter is_create (h_out h)) \<le> 1 \<and>
    (\<forall>host port. CreateStream host port \<in> set (h_out h) \<longrightarrow> contains i2p_domain host \<and> length host \<le> 255 \<and> h_cmd h = CMD_CONNECT) \<and>
    (\<forall>bs. I2PConnect bs \<in> set (h_out h) \<longrightarrow> (\<exists>host port. CreateStream host port \<in> set (h_out h))) \<and>
    count_list (h_out h) HandlerDone = (if h_dead h then 1 else 0)"
proof -
  have "socks_inv h"
    using assms by (induction rule: rtranclp_induct) (auto simp: SOCKSHandler_new_inv socks_step_inv)
  then show ?thesis
    by (auto simp: socks_inv_def asked_def is_create_def i2p_host_def done_once_def)
qed


section \<open>Requests\<close>

definition socks5_connect :: "bytes \<Rightarrow> 16 word \<Rightarrow> bytes" where
  "socks5_connect host port = [5, 1, 0] @ [5, 1, 0, 3, word_of_nat (length host)] @ host @ be_bytes 2 (unat port)"

definition socks4a_connect :: "bytes \<Rightarrow> bytes \<Rightarrow> 16 word \<Rightarrow> bytes" where
  "socks4a_connect ident host port = [4, 1] @ be_bytes 2 (unat port) @ [0, 0, 0, 1] @ ident @ [0] @ host @ [0]"

text \<open>The host name the union holds.\<close>

definition dns_holds :: "bytes \<Rightarrow> bytes \<Rightarrow> bool" where
  "dns_holds a name \<longleftrightarrow> length a = 256 \<and> length name \<le> 255 \<and> dns_size a = word_of_nat (length name) \<and> take (length name) (tl a) = name"

lemma dns_size_unat: "length name \<le> 255 \<Longrightarrow> unat (word_of_nat (length name) :: byte) = length name"
  by (simp add: unat_of_nat)

lemma dns_holds_ToString: "dns_holds a name \<Longrightarrow> dns_ToString a = Some name"
  by (cases a) (auto simp: dns_holds_def dns_ToString_def dns_size_unat mem_read_def)

lemma dns_holds_empty: "length a = 256 \<Longrightarrow> dns_holds (set_dns_size 0 a) []"
  by (simp add: dns_holds_def set_dns_size_def dns_size_def)

lemma dns_push_back_holds:
  assumes "dns_holds a name" and "length name < 255"
  obtains a' where "dns_push_back c a = Some a'" "dns_holds a' (name @ [c])"
proof -
  obtain z t where a: "a = z # t" "length t = 255" using assms(1) by (cases a) (auto simp: dns_holds_def)
  have u: "unat (dns_size a) = length name" "take (length name) t = name"
    using assms by (simp_all add: dns_holds_def dns_size_unat a)
  let ?a = "take (length name) t @ c # drop (Suc (length name)) t"
  have "dns_push_back c a = Some (set_dns_size (dns_size a + 1) (z # ?a))"
    using u(1) assms(2) a by (simp add: dns_push_back_def mem_write_def)
  moreover have "dns_size a + 1 = word_of_nat (Suc (length name))"
    using assms(1) by (simp add: dns_holds_def)
  ultimately show thesis
    using that [of "set_dns_size (dns_size a + 1) (z # ?a)"] assms(2) u(2) a
    by (simp add: dns_holds_def set_dns_size_def dns_size_def)
qed

lemma port_of_bytes: "push_bit 8 (ucast b1) OR ucast (b2 :: byte) = (word_of_nat (be_val [b1, b2]) :: 16 word)"
proof -
  have "push_bit 8 (ucast b1) OR ucast b2 = push_bit 8 (ucast b1) + (ucast b2 :: 16 word)"
    by (rule disjunctive_add [symmetric]) (auto simp: bit_simps not_le dest: bit_imp_le_length)
  also have "\<dots> = word_of_nat (be_val [b1, b2])"
    by (simp add: be_val_def push_bit_eq_mult mult.commute)
  finally show ?thesis .
qed

lemma be_bytes_2: "\<exists>b1 b2. be_bytes 2 (unat (p :: 16 word)) = [b1, b2] \<and> push_bit 8 (ucast b1) OR ucast b2 = p"
proof -
  obtain b1 b2 where "be_bytes 2 (unat p) = [b1, b2]" by (simp add: numeral_2_eq_2 be_bytes_Suc)
  then show ?thesis using word_be_bytes_id(1) [of p] by (simp add: port_of_bytes)
qed

lemma parse_data_step:
  "parse_byte b h = Some (True, h') \<Longrightarrow> h_state h' \<noteq> DONE \<Longrightarrow> parse_data (b # bs) h = parse_data bs h'"
  "parse_byte b h = Some (True, h') \<Longrightarrow> h_state h' = DONE \<Longrightarrow> parse_data (b # bs) h = ValidateSOCKSRequest (h'\<lparr>h_remaining_data := bs\<rparr>)"
  by simp_all

lemma parse_host5:
  assumes "h_state h = GET5_HOST" and "dns_holds (h_address h) name" and "unat (h_parseleft h) = length bs" and "bs \<noteq> []"
    and "length name + length bs \<le> 255"
  shows "\<exists>a. dns_holds a (name @ bs) \<and> parse_data (bs @ rest) h = parse_data rest (Enter GET_PORT (h\<lparr>h_address := a, h_parseleft := 0\<rparr>))"
  using assms
proof (induction bs arbitrary: h name)
  case (Cons b bs)
  obtain a where a: "dns_push_back b (h_address h) = Some a" "dns_holds a (name @ [b])"
    using dns_push_back_holds [of "h_address h" name b] Cons.prems by auto
  let ?h = "h\<lparr>h_address := a, h_parseleft := h_parseleft h - 1\<rparr>"
  have u: "unat (h_parseleft h - 1) = length bs"
    using Cons.prems(3) by (metis diff_Suc_1 length_Cons unat_eq_zero unat_minus_one nat.simps(3))
  then have z: "h_parseleft h - 1 = 0 \<longleftrightarrow> bs = []" by (metis length_0_conv unat_eq_zero)
  show ?case
  proof (cases "bs = []")
    case True
    then have "parse_byte b h = Some (True, Enter GET_PORT (h\<lparr>h_address := a, h_parseleft := 0\<rparr>))"
      using Cons.prems(1) a(1) z by (simp add: parse_byte_def get5_host_def Let_def)
    from parse_data_step(1) [OF this] True a(2) show ?thesis by auto
  next
    case False
    then have "parse_byte b h = Some (True, ?h)"
      using Cons.prems(1) a(1) z by (simp add: parse_byte_def get5_host_def Let_def)
    from parse_data_step(1) [OF this] Cons.prems(1) have p: "parse_data (b # bs @ rest) h = parse_data (bs @ rest) ?h" by simp
    have "\<exists>a'. dns_holds a' ((name @ [b]) @ bs) \<and> parse_data (bs @ rest) ?h = parse_data rest (Enter GET_PORT (?h\<lparr>h_address := a', h_parseleft := 0\<rparr>))"
      by (rule Cons.IH) (use Cons.prems a(2) u False in simp_all)
    then show ?thesis using p by auto
  qed
qed simp

lemma parse_port:
  assumes "h_state h = GET_PORT" and "h_parseleft h = 2"
  shows "h_socksv h = SOCKS5 \<Longrightarrow> parse_data (be_bytes 2 (unat p) @ rest) h = ValidateSOCKSRequest ((Enter DONE (h\<lparr>h_port := p, h_parseleft := 0\<rparr>))\<lparr>h_remaining_data := rest\<rparr>)"
    and "h_socksv h = SOCKS4 \<Longrightarrow> parse_data (be_bytes 2 (unat p) @ rest) h = parse_data rest (Enter GET_IPV4 (h\<lparr>h_port := p, h_parseleft := 0\<rparr>))"
proof -
  obtain b1 b2 where b: "be_bytes 2 (unat p) = [b1, b2]" "push_bit 8 (ucast b1) OR ucast b2 = p" using be_bytes_2 by blast
  show "parse_data (be_bytes 2 (unat p) @ rest) h = ValidateSOCKSRequest ((Enter DONE (h\<lparr>h_port := p, h_parseleft := 0\<rparr>))\<lparr>h_remaining_data := rest\<rparr>)"
    if "h_socksv h = SOCKS5"
    using assms that by (simp add: b(1) parse_byte_def get_port_def Let_def b(2))
  show "parse_data (be_bytes 2 (unat p) @ rest) h = parse_data rest (Enter GET_IPV4 (h\<lparr>h_port := p, h_parseleft := 0\<rparr>))"
    if "h_socksv h = SOCKS4"
    using assms that by (simp add: b(1) parse_byte_def get_port_def Let_def b(2) socks_defs)
qed


lemma set_ip_length: "length a = 256 \<Longrightarrow> length (set_ip v a) = 256"
  by (simp add: set_ip_def raw_bytes_def)

lemma addr_ip_set_ip [simp]: "addr_ip (set_ip v a) = v"
proof -
  have l: "length (raw_bytes v) = 4" by (simp add: raw_bytes_def)
  have "be_val (be_bytes 4 (unat v)) = unat v" using unsigned_less [of v, where 'a = nat] by (simp add: be_val_be_bytes)
  then have "raw_value (raw_bytes v) = v" by (simp add: raw_value_def raw_bytes_def)
  then show ?thesis using l by (simp add: addr_ip_def set_ip_def)
qed

lemma set_dns_size_length: "length a = 256 \<Longrightarrow> length (set_dns_size n a) = 256"
  by (simp add: set_dns_size_def)

text \<open>What a request that names a host leaves behind.\<close>

definition named :: "bytes \<Rightarrow> 16 word \<Rightarrow> bytes \<Rightarrow> socks_handler \<Rightarrow> bool" where
  "named host port rest h \<longleftrightarrow> h_state h = DONE \<and> h_cmd h = CMD_CONNECT \<and> h_addrtype h = ADDR_DNS \<and> dns_holds (h_address h) host \<and>
     h_port h = port \<and> h_remaining_data h = rest \<and> h_sock h \<and> \<not> h_dead h \<and> length (h_response h) = 262"

lemma ValidateSOCKSRequest_named:
  "named host port rest h \<Longrightarrow> contains i2p_domain host \<Longrightarrow> ValidateSOCKSRequest h = Some (True, h)"
  using dns_holds_ToString [of "h_address h" host] by (simp add: ValidateSOCKSRequest_def named_def)

lemma HandleSockRecv_named:
  assumes "parse_data buf h = ValidateSOCKSRequest h1" and "buf \<noteq> []" and "named host port rest h1" and "contains i2p_domain host"
  shows "HandleSockRecv False buf h = Some ((socks_emit (CreateStream host port) h1)\<lparr>h_creating := True\<rparr>)"
  using assms ValidateSOCKSRequest_named [OF assms(3,4)] dns_holds_ToString [of "h_address h1" host]
  by (simp add: HandleSockRecv_def HandleData_def named_def)

lemma mem_write_262: "length r = 262 \<Longrightarrow> mem_write r 0 [a, b] = Some (a # b # drop 2 r)"
  by (simp add: mem_write_def numeral_2_eq_2)

lemma read_socks5:
  assumes g: "length (h_address g) = 256" "length (h_response g) = 262" and host: "host \<noteq> []" "length host \<le> 255"
  obtains h1 where "parse_data (socks5_connect host port @ rest) (SOCKSHandler_new g) = ValidateSOCKSRequest h1"
    "named host port rest h1" "h_socksv h1 = SOCKS5" "h_out h1 = [SockWrite [5, 0]]" "h_writes h1 = [SentSocksResponse]"
proof -
  let ?n = "SOCKSHandler_new g" and ?len = "word_of_nat (length host) :: byte"
  let ?r = "[5, 0] @ drop 2 (h_response g)"
  note new = SOCKSHandler_new_def EnterState_def
  obtain h0 where auth: "\<And>bs. parse_data ([5, 1, 0] @ bs) ?n = parse_data bs h0"
    and h0: "h_state h0 = GET5_REQUESTV" "h_socksv h0 = SOCKS5" "h_sock h0" "\<not> h_dead h0" "h_out h0 = [SockWrite [5, 0]]"
      "h_writes h0 = [SentSocksResponse]" "length (h_response h0) = 262" "length (h_address h0) = 256"
    using g by (simp add: new parse_byte_def get_socksv_def get5_auth_def Socks5ChooseAuth_def async_write_def socks_emit_def Let_def
        socks_defs mem_write_262 set_ip_length)
  have req: "parse_data ([5, 1, 0, 3, ?len] @ bs) h0 = parse_data bs (EnterState GET5_HOST ?len (h0\<lparr>h_cmd := CMD_CONNECT, h_parseleft := 1, h_state := GET5_HOST_SIZE\<rparr>))" for bs
    using h0 by (simp add: parse_byte_def get_command_def get5_addrtype_def Let_def socks_defs EnterState_def)
  let ?h = "EnterState GET5_HOST ?len (h0\<lparr>h_cmd := CMD_CONNECT, h_parseleft := 1, h_state := GET5_HOST_SIZE\<rparr>)"
  have e: "dns_holds (h_address ?h) []" "unat (h_parseleft ?h) = length host" "h_addrtype ?h = ADDR_DNS"
    using h0(8) host(2) by (simp_all add: EnterState_def dns_holds_empty dns_size_unat)
  have "\<exists>a. dns_holds a ([] @ host) \<and> parse_data (host @ be_bytes 2 (unat port) @ rest) ?h = parse_data (be_bytes 2 (unat port) @ rest) (Enter GET_PORT (?h\<lparr>h_address := a, h_parseleft := 0\<rparr>))"
    by (rule parse_host5) (use e host in simp_all)
  then obtain a where a: "dns_holds a host"
    "parse_data (host @ be_bytes 2 (unat port) @ rest) ?h = parse_data (be_bytes 2 (unat port) @ rest) (Enter GET_PORT (?h\<lparr>h_address := a, h_parseleft := 0\<rparr>))"
    by auto
  let ?p = "Enter GET_PORT (?h\<lparr>h_address := a, h_parseleft := 0\<rparr>)"
  let ?d = "(Enter DONE (?p\<lparr>h_port := port, h_parseleft := 0\<rparr>))\<lparr>h_remaining_data := rest\<rparr>"
  have "parse_data (be_bytes 2 (unat port) @ rest) ?p = ValidateSOCKSRequest ?d"
    by (rule parse_port(1)) (use h0 in \<open>simp_all add: EnterState_def\<close>)
  then have "parse_data (socks5_connect host port @ rest) ?n = ValidateSOCKSRequest ?d"
    using auth [of "[5, 1, 0, 3, ?len] @ host @ be_bytes 2 (unat port) @ rest"] req [of "host @ be_bytes 2 (unat port) @ rest"] a(2)
    by (simp add: socks5_connect_def)
  moreover have "named host port rest ?d"
    using h0 a(1) by (simp add: named_def EnterState_def)
  moreover have "h_socksv ?d = SOCKS5" "h_out ?d = [SockWrite [5, 0]]" "h_writes ?d = [SentSocksResponse]"
    using h0 by simp_all
  ultimately show thesis using that by blast
qed

section \<open>SOCKS 4a\<close>

lemma parse_ident:
  assumes "h_state h = GET4_IDENT" and "0 \<notin> set ident" and "h_4aip h = 1"
  shows "parse_data (ident @ 0 # rest) h = parse_data rest (Enter GET4A_HOST h)"
  using assms by (induction ident) (simp_all add: parse_byte_def get4_ident_def)

lemma parse_host4a:
  assumes "h_state h = GET4A_HOST" and "dns_holds (h_address h) name" and "0 \<notin> set bs" and "length name + length bs \<le> 255"
  shows "\<exists>a. dns_holds a (name @ bs) \<and> parse_data (bs @ 0 # rest) h = ValidateSOCKSRequest ((Enter DONE (h\<lparr>h_address := a\<rparr>))\<lparr>h_remaining_data := rest\<rparr>)"
  using assms
proof (induction bs arbitrary: h name)
  case Nil
  then show ?case
    by (intro exI [of _ "h_address h"]) (simp add: parse_byte_def get4a_host_def)
next
  case (Cons b bs)
  obtain a where a: "dns_push_back b (h_address h) = Some a" "dns_holds a (name @ [b])"
    using dns_push_back_holds [of "h_address h" name b] Cons.prems by auto
  have "unat (dns_size (h_address h)) = length name"
    using Cons.prems(2) by (simp add: dns_holds_def dns_size_unat)
  then have "parse_byte b h = Some (True, h\<lparr>h_address := a\<rparr>)"
    using Cons.prems a(1) by (auto simp: parse_byte_def get4a_host_def MAX_SOCKS_HOSTNAME_SIZE_def)
  from parse_data_step(1) [OF this] Cons.prems(1)
  have p: "parse_data (b # bs @ 0 # rest) h = parse_data (bs @ 0 # rest) (h\<lparr>h_address := a\<rparr>)" by simp
  have "\<exists>a'. dns_holds a' ((name @ [b]) @ bs) \<and> parse_data (bs @ 0 # rest) (h\<lparr>h_address := a\<rparr>) =
      ValidateSOCKSRequest ((Enter DONE ((h\<lparr>h_address := a\<rparr>)\<lparr>h_address := a'\<rparr>))\<lparr>h_remaining_data := rest\<rparr>)"
    by (rule Cons.IH) (use Cons.prems a(2) in simp_all)
  then show ?case using p by auto
qed

lemma read_socks4a:
  assumes g: "length (h_address g) = 256" "length (h_response g) = 262" and host: "length host \<le> 255" "0 \<notin> set host" "0 \<notin> set ident"
  obtains h1 where "parse_data (socks4a_connect ident host port @ rest) (SOCKSHandler_new g) = ValidateSOCKSRequest h1"
    "named host port rest h1" "h_socksv h1 = SOCKS4" "h_out h1 = []" "h_4aip h1 = 1" "h_writes h1 = []"
proof -
  let ?n = "SOCKSHandler_new g"
  note new = SOCKSHandler_new_def EnterState_def
  obtain h0 where cmd: "\<And>bs. parse_data ([4, 1] @ bs) ?n = parse_data bs h0"
    and h0: "h_state h0 = GET_PORT" "h_parseleft h0 = 2" "h_socksv h0 = SOCKS4" "h_cmd h0 = CMD_CONNECT" "h_sock h0" "\<not> h_dead h0" "h_out h0 = []"
      "h_writes h0 = []" "length (h_response h0) = 262" "length (h_address h0) = 256"
    using g by (simp add: new parse_byte_def get_socksv_def get_command_def Let_def socks_defs set_ip_length)
  let ?p = "Enter GET_IPV4 (h0\<lparr>h_port := port, h_parseleft := 0\<rparr>)"
  have port: "parse_data (be_bytes 2 (unat port) @ bs) h0 = parse_data bs ?p" for bs
    by (rule parse_port(2)) (use h0 in simp_all)
  obtain h2 where ip: "\<And>bs. parse_data ([0, 0, 0, 1] @ bs) ?p = parse_data bs h2"
    and h2: "h_state h2 = GET4_IDENT" "h_4aip h2 = 1" "h_socksv h2 = SOCKS4" "h_cmd h2 = CMD_CONNECT" "h_port h2 = port" "h_sock h2" "\<not> h_dead h2"
      "h_out h2 = []" "h_writes h2 = []" "length (h_response h2) = 262" "length (h_address h2) = 256"
    using h0 by (simp add: new parse_byte_def get_ipv4_def Let_def socks_defs set_ip_length)
  let ?h = "Enter GET4A_HOST h2"
  have e: "h_state ?h = GET4A_HOST" "dns_holds (h_address ?h) []" "h_addrtype ?h = ADDR_DNS"
    using h2(11) by (simp_all add: EnterState_def dns_holds_empty)
  have "\<exists>a. dns_holds a ([] @ host) \<and> parse_data (host @ 0 # rest) ?h = ValidateSOCKSRequest ((Enter DONE (?h\<lparr>h_address := a\<rparr>))\<lparr>h_remaining_data := rest\<rparr>)"
    by (rule parse_host4a) (use e host in simp_all)
  then obtain a where a: "dns_holds a host" "parse_data (host @ 0 # rest) ?h = ValidateSOCKSRequest ((Enter DONE (?h\<lparr>h_address := a\<rparr>))\<lparr>h_remaining_data := rest\<rparr>)"
    by auto
  let ?d = "(Enter DONE (?h\<lparr>h_address := a\<rparr>))\<lparr>h_remaining_data := rest\<rparr>"
  have "parse_data (ident @ 0 # host @ 0 # rest) h2 = parse_data (host @ 0 # rest) ?h"
    by (rule parse_ident) (use h2 host in simp_all)
  then have "parse_data (socks4a_connect ident host port @ rest) ?n = ValidateSOCKSRequest ?d"
    using cmd [of "be_bytes 2 (unat port) @ [0, 0, 0, 1] @ ident @ 0 # host @ 0 # rest"] port [of "[0, 0, 0, 1] @ ident @ 0 # host @ 0 # rest"]
      ip [of "ident @ 0 # host @ 0 # rest"] a(2)
    by (simp add: socks4a_connect_def)
  moreover have "named host port rest ?d"
    using h2 a(1) by (simp add: named_def EnterState_def)
  moreover have "h_socksv ?d = SOCKS4" "h_out ?d = []" "h_4aip ?d = 1" "h_writes ?d = []"
    using h2 by (simp_all add: EnterState_def)
  ultimately show thesis using that by blast
qed


section \<open>The whole conversation\<close>

lemma mem_write_fits: "off + length s \<le> length b \<Longrightarrow> \<exists>b'. mem_write b off s = Some b' \<and> length b' = length b"
  by (simp add: mem_write_def)

lemma dns_FromString_holds:
  assumes "length own \<le> 255" and "length a = 256"
  shows "\<exists>a'. dns_FromString own a = Some a' \<and> dns_holds a' own"
proof -
  let ?a = "set_dns_size (word_of_nat (length own)) a"
  have l: "length ?a = 256" using assms(2) by (rule set_dns_size_length)
  have u: "unat (word_of_nat (length own) :: byte) = length own" using assms(1) by (rule dns_size_unat)
  have "dns_FromString own a = mem_write ?a 1 own"
    using assms(1) u by (simp add: dns_FromString_def Let_def MAX_SOCKS_HOSTNAME_SIZE_def)
  moreover have "mem_write ?a 1 own = Some (word_of_nat (length own) # own @ drop (length own) (tl a))"
    using assms l by (simp add: mem_write_def set_dns_size_def)
  ultimately show ?thesis
    using assms by (simp add: dns_holds_def dns_size_def)
qed

lemma mem_read_patch_0: "length s = n \<Longrightarrow> n \<le> length b \<Longrightarrow> mem_read (patch b 0 s) 0 n = Some s"
  by (auto simp: mem_read_def patch_def)

lemma GenerateSOCKS5Response_name:
  assumes "dns_holds a name" and "length (h_response h) = 262" and "error \<le> SOCKS5_ADDR_UNSUP"
  shows "\<exists>r. GenerateSOCKS5Response error ADDR_DNS a port h =
    Some ([5, error, 0, ADDR_DNS, word_of_nat (length name)] @ name @ be_bytes 2 (unat port), h\<lparr>h_response := r\<rparr>)"
proof -
  have n: "unat (dns_size a) = length name" "dns_size a = word_of_nat (length name)" "length name \<le> 255"
    using assms(1) by (auto simp: dns_holds_def dns_size_unat)
  have m: "mem_read a 1 (length name) = Some name"
    using dns_holds_ToString [OF assms(1)] n(1) by (simp add: dns_ToString_def)
  let ?b = "[5, error, 0, ADDR_DNS]" and ?c = "dns_size a # name" and ?e = "be_bytes 2 (unat port)" and ?R = "h_response h"
  have w: "mem_write ?R 0 ?b = Some (patch ?R 0 ?b)" "mem_write (patch ?R 0 ?b) 4 ?c = Some (patch ?R 0 (?b @ ?c))"
    "mem_write (patch ?R 0 (?b @ ?c)) (5 + length name) ?e = Some (patch ?R 0 ((?b @ ?c) @ ?e))"
    using assms(2) n(3) by (simp_all add: mem_write_patch patch_patch)
  have "mem_read (patch ?R 0 ((?b @ ?c) @ ?e)) 0 (7 + length name) = Some ((?b @ ?c) @ ?e)"
    by (rule mem_read_patch_0) (use assms(2) n(3) in simp_all)
  then show ?thesis
    using w m n assms(3)
    by (intro exI [of _ "patch ?R 0 ((?b @ ?c) @ ?e)"])
      (simp add: GenerateSOCKS5Response_def ADDR_DNS_def ADDR_IPV4_def ADDR_IPV6_def htobe16buf_mem_write)
qed

lemma GenerateSOCKS4Response_eq:
  assumes "length (h_response h) = 262" and "error \<ge> SOCKS4_OK"
  shows "\<exists>r. GenerateSOCKS4Response error ip port h =
    Some ([0, error] @ be_bytes 2 (unat port) @ be_bytes 4 (unat ip), h\<lparr>h_response := r\<rparr>)"
proof -
  let ?b = "[0, error]" and ?c = "be_bytes 2 (unat port)" and ?e = "be_bytes 4 (unat ip)" and ?R = "h_response h"
  have w: "mem_write ?R 0 ?b = Some (patch ?R 0 ?b)" "mem_write (patch ?R 0 ?b) 2 ?c = Some (patch ?R 0 (?b @ ?c))"
    "mem_write (patch ?R 0 (?b @ ?c)) 4 ?e = Some (patch ?R 0 ((?b @ ?c) @ ?e))"
    using assms(1) by (simp_all add: mem_write_patch patch_patch)
  have "mem_read (patch ?R 0 ((?b @ ?c) @ ?e)) 0 8 = Some ((?b @ ?c) @ ?e)"
    using assms(1) by (simp add: mem_read_def patch_def)
  then show ?thesis
    using w assms(2)
    by (intro exI [of _ "patch ?R 0 ((?b @ ?c) @ ?e)"])
      (simp add: GenerateSOCKS4Response_def htobe16buf_mem_write htobe32buf_mem_write)
qed

lemma SocksRequestSuccess_reply:
  assumes "h_sock h" and "length (h_response h) = 262" and "length own \<le> 255" and "length addr = 256"
    and "h_socksv h = SOCKS5 \<and> h_stream h = Some sid \<and> reply = [5, 0, 0, 3, word_of_nat (length own)] @ own @ be_bytes 2 (unat (ucast sid :: 16 word)) \<or>
         h_socksv h = SOCKS4 \<and> reply = [0, 90] @ be_bytes 2 (unat (h_port h)) @ be_bytes 4 (unat (h_4aip h))"
  shows "\<exists>r. SocksRequestSuccess own addr h = Some ((socks_emit (SockWrite reply) h)\<lparr>h_response := r, h_writes := h_writes h @ [SentSocksDone]\<rparr>)"
proof -
  obtain ad where ad: "dns_FromString own addr = Some ad" "dns_holds ad own" using dns_FromString_holds assms(3,4) by blast
  have "\<exists>r. (if h_socksv h = SOCKS4 then GenerateSOCKS4Response SOCKS4_OK (h_4aip h) (h_port h) h
        else if h_socksv h = SOCKS5 then do {
          ad \<leftarrow> dns_FromString own addr;
          recvStreamID \<leftarrow> h_stream h;
          GenerateSOCKS5Response SOCKS5_OK ADDR_DNS ad (ucast recvStreamID) h }
        else Some ([], h)) = Some (reply, h\<lparr>h_response := r\<rparr>)"
    using assms(5)
  proof
    assume "h_socksv h = SOCKS5 \<and> h_stream h = Some sid \<and> reply = [5, 0, 0, 3, word_of_nat (length own)] @ own @ be_bytes 2 (unat (ucast sid :: 16 word))"
    then show ?thesis
      using GenerateSOCKS5Response_name [OF ad(2) assms(2), of SOCKS5_OK "ucast sid"] ad(1) by (simp add: socks_defs)
  next
    assume "h_socksv h = SOCKS4 \<and> reply = [0, 90] @ be_bytes 2 (unat (h_port h)) @ be_bytes 4 (unat (h_4aip h))"
    then show ?thesis
      using GenerateSOCKS4Response_eq [OF assms(2), of SOCKS4_OK "h_4aip h" "h_port h"] by (simp add: socks_defs)
  qed
  then obtain r where r: "(if h_socksv h = SOCKS4 then GenerateSOCKS4Response SOCKS4_OK (h_4aip h) (h_port h) h
        else if h_socksv h = SOCKS5 then do {
          ad \<leftarrow> dns_FromString own addr;
          recvStreamID \<leftarrow> h_stream h;
          GenerateSOCKS5Response SOCKS5_OK ADDR_DNS ad (ucast recvStreamID) h }
        else Some ([], h)) = Some (reply, h\<lparr>h_response := r\<rparr>)" ..
  show ?thesis
    unfolding SocksRequestSuccess_def r using assms(1)
    by (intro exI [of _ r]) (simp add: async_write_def socks_emit_def)
qed

text \<open>
  C33: a SOCKS 5 or 4a request for a host in the domain \<open>.i2p\<close>, whatever follows it, opens a stream to
  that host and port; once the stream is there the client gets the reply of its version, and
  exactly the bytes after the request go into the stream.
\<close>

theorem socks_connects:
  assumes "length (h_address g) = 256" and "length (h_response g) = 262" and "length addr = 256"
    and "host \<noteq> []" and "length host \<le> 255" and "length own \<le> 255" and "contains i2p_domain host"
    and "(request, greeting, reply) = (socks5_connect host port, [SockWrite [5, 0]],
           [5, 0, 0, 3, word_of_nat (length own)] @ own @ be_bytes 2 (unat (ucast sid :: 16 word))) \<or>
         (0 \<notin> set host \<and> 0 \<notin> set ident \<and> (request, greeting, reply) = (socks4a_connect ident host port, [],
           [0, 90] @ be_bytes 2 (unat port) @ [0, 0, 0, 1]))"
  shows "\<exists>h1 h2. HandleSockRecv False (request @ rest) (SOCKSHandler_new g) = Some h1 \<and>
    h_out h1 = greeting @ [CreateStream host port] \<and>
    HandleStreamRequestComplete own addr (Some sid) (h1\<lparr>h_creating := False\<rparr>) = Some h2 \<and>
    h_out (socks_sent SentSocksDone False h2) =
      greeting @ [CreateStream host port, SockWrite reply, I2PConnect rest, HandlerDone]"
proof -
  obtain h where h: "parse_data (request @ rest) (SOCKSHandler_new g) = ValidateSOCKSRequest h" "named host port rest h" "h_out h = greeting"
    "request \<noteq> []"
    "h_socksv h = SOCKS5 \<and> reply = [5, 0, 0, 3, word_of_nat (length own)] @ own @ be_bytes 2 (unat (ucast sid :: 16 word)) \<or>
     h_socksv h = SOCKS4 \<and> reply = [0, 90] @ be_bytes 2 (unat (h_port h)) @ be_bytes 4 (unat (h_4aip h))"
    using assms(8)
  proof
    assume r: "(request, greeting, reply) = (socks5_connect host port, [SockWrite [5, 0]],
           [5, 0, 0, 3, word_of_nat (length own)] @ own @ be_bytes 2 (unat (ucast sid :: 16 word)))"
    obtain h where "parse_data (socks5_connect host port @ rest) (SOCKSHandler_new g) = ValidateSOCKSRequest h"
      "named host port rest h" "h_socksv h = SOCKS5" "h_out h = [SockWrite [5, 0]]"
      by (rule read_socks5 [OF assms(1,2,4,5)])
    then show thesis using that r by (simp add: socks5_connect_def)
  next
    assume r: "0 \<notin> set host \<and> 0 \<notin> set ident \<and> (request, greeting, reply) = (socks4a_connect ident host port, [],
           [0, 90] @ be_bytes 2 (unat port) @ [0, 0, 0, 1])"
    then have z: "0 \<notin> set host" "0 \<notin> set ident" by simp_all
    obtain h where h: "parse_data (socks4a_connect ident host port @ rest) (SOCKSHandler_new g) = ValidateSOCKSRequest h"
      "named host port rest h" "h_socksv h = SOCKS4" "h_out h = []" "h_4aip h = 1"
      by (rule read_socks4a [OF assms(1,2,5) z])
    have b: "be_bytes 4 1 = [0, 0, 0, 1]" by (simp add: be_bytes_def upt_rec)
    show thesis using that [of h] r h b by (simp add: socks4a_connect_def named_def)
  qed
  let ?h1 = "(socks_emit (CreateStream host port) h)\<lparr>h_creating := True\<rparr>"
  have r: "HandleSockRecv False (request @ rest) (SOCKSHandler_new g) = Some ?h1"
    by (rule HandleSockRecv_named [OF h(1) _ h(2) assms(7)]) (use h(4) in simp)
  let ?s = "(?h1\<lparr>h_creating := False\<rparr>)\<lparr>h_stream := Some sid\<rparr>"
  have "\<exists>r. SocksRequestSuccess own addr ?s = Some ((socks_emit (SockWrite reply) ?s)\<lparr>h_response := r, h_writes := h_writes ?s @ [SentSocksDone]\<rparr>)"
    by (rule SocksRequestSuccess_reply [OF _ _ assms(6,3)])
      (use h(2) in \<open>simp add: named_def socks_emit_def\<close>, use h(2) in \<open>simp add: named_def socks_emit_def\<close>, use h(5) in \<open>auto simp: socks_emit_def\<close>)
  then obtain b where s: "HandleStreamRequestComplete own addr (Some sid) (?h1\<lparr>h_creating := False\<rparr>) =
      Some ((socks_emit (SockWrite reply) ?s)\<lparr>h_response := b, h_writes := h_writes ?s @ [SentSocksDone]\<rparr>)"
    by (auto simp: HandleStreamRequestComplete_def)
  show ?thesis
    by (intro exI conjI, rule r, simp add: socks_emit_def h(3), rule s)
      (use h(2,3) in \<open>simp add: socks_sent_def socks_emit_def named_def\<close>)
qed

text \<open>A handler whose memory is all zeros, and a client that asks for \<open>a.i2p\<close>.\<close>

definition blank_handler :: socks_handler where
  "blank_handler = \<lparr>h_sock = False, h_stream = None, h_remaining_data = [], h_response = replicate 262 0, h_address = replicate 256 0,
     h_4aip = 0, h_port = 0, h_parseleft = 0, h_authchosen = 0, h_addrtype = 0, h_socksv = 0, h_cmd = 0, h_state = DONE, h_dead = True,
     h_reading = False, h_writes = [], h_creating = False, h_out = []\<rparr>"

definition a_i2p :: bytes where "a_i2p = 0x61 # i2p_domain"

lemma blank_lengths: "length (h_address blank_handler) = 256" "length (h_response blank_handler) = 262"
  by (simp_all add: blank_handler_def)

theorem socks_connects_witness:
  "\<exists>h1. HandleSockRecv False (socks5_connect a_i2p 80 @ [1, 2]) (SOCKSHandler_new blank_handler) = Some h1 \<and>
    h_out h1 = [SockWrite [5, 0], CreateStream a_i2p 80]"
proof -
  have "contains i2p_domain a_i2p" "a_i2p \<noteq> []" "length a_i2p \<le> 255" by (simp_all add: a_i2p_def i2p_domain_def)
  with socks_connects [of blank_handler "replicate 256 0" a_i2p "[]" "socks5_connect a_i2p 80" "[SockWrite [5, 0]]"
      "[5, 0, 0, 3, 0] @ [] @ be_bytes 2 0" 80 0 "[]" "[1, 2]"] blank_lengths
  show ?thesis by auto
qed

theorem socks_only_i2p_witness:
  "\<exists>h. (socks_step [])\<^sup>*\<^sup>* (AsyncSockRead (SOCKSHandler_new blank_handler)) h \<and> CreateStream a_i2p 80 \<in> set (h_out h) \<and>
    contains i2p_domain a_i2p \<and> count_list (h_out h) HandlerDone \<le> 1"
proof -
  let ?h = "AsyncSockRead (SOCKSHandler_new blank_handler)"
  have i: "contains i2p_domain a_i2p" "a_i2p \<noteq> []" "length a_i2p \<le> 255" by (simp_all add: a_i2p_def i2p_domain_def)
  obtain h1 where h1: "parse_data (socks5_connect a_i2p 80 @ []) (SOCKSHandler_new blank_handler) = ValidateSOCKSRequest h1" "named a_i2p 80 [] h1"
    by (rule read_socks5 [of blank_handler a_i2p 80 "[]"]) (use i blank_lengths in simp_all)
  have e: "?h\<lparr>h_reading := False\<rparr> = SOCKSHandler_new blank_handler" "h_reading ?h"
    by (simp_all add: AsyncSockRead_def SOCKSHandler_new_def EnterState_def)
  have "HandleSockRecv False (socks5_connect a_i2p 80 @ []) (SOCKSHandler_new blank_handler) = Some ((socks_emit (CreateStream a_i2p 80) h1)\<lparr>h_creating := True\<rparr>)"
    by (rule HandleSockRecv_named [OF h1(1) _ h1(2) i(1)]) (simp add: socks5_connect_def)
  then have "socks_step [] ?h ((socks_emit (CreateStream a_i2p 80) h1)\<lparr>h_creating := True\<rparr>)"
    using socks_step.received [OF e(2)] unfolding e(1) by blast
  then have s: "(socks_step [])\<^sup>*\<^sup>* ?h ((socks_emit (CreateStream a_i2p 80) h1)\<lparr>h_creating := True\<rparr>)" by (rule r_into_rtranclp)
  show ?thesis
    using s socks_only_i2p [OF s] by (intro exI [of _ "(socks_emit (CreateStream a_i2p 80) h1)\<lparr>h_creating := True\<rparr>"]) (auto simp: socks_emit_def)
qed


section \<open>Segments\<close>

text \<open>The chunks the socket hands out, one read each, as long as the handler reads; what it did not read is returned.\<close>

fun receive_chunks :: "bytes list \<Rightarrow> socks_handler \<Rightarrow> (bytes list \<times> socks_handler) option" where
  "receive_chunks [] h = Some ([], h)"
| "receive_chunks (c # cs) h = do {
     h \<leftarrow> HandleSockRecv False c (h\<lparr>h_reading := False\<rparr>);
     (if h_reading h then receive_chunks cs h else Some (cs, h)) }"

definition keep_rest :: "bytes \<Rightarrow> socks_handler \<Rightarrow> socks_handler" where
  "keep_rest bs h = (if h_state h = DONE then h\<lparr>h_remaining_data := h_remaining_data h @ bs\<rparr> else h)"

lemma async_write_remaining:
  "async_write r cb (h\<lparr>h_remaining_data := bs\<rparr>) = map_option (\<lambda>h. h\<lparr>h_remaining_data := bs\<rparr>) (async_write r cb h)"
  by (simp add: async_write_def socks_emit_def)

lemma Generate_remaining:
  "GenerateSOCKS4Response e ip p (h\<lparr>h_remaining_data := bs\<rparr>) = map_option (\<lambda>(r, h). (r, h\<lparr>h_remaining_data := bs\<rparr>)) (GenerateSOCKS4Response e ip p h)"
  "GenerateSOCKS5Response e t a p (h\<lparr>h_remaining_data := bs\<rparr>) = map_option (\<lambda>(r, h). (r, h\<lparr>h_remaining_data := bs\<rparr>)) (GenerateSOCKS5Response e t a p h)"
  by (auto simp: GenerateSOCKS4Response_def GenerateSOCKS5Response_def map_option_bind comp_def case_prod_beta' intro!: Option.bind_cong)

lemma SocksRequestFailed_remaining:
  "SocksRequestFailed e (h\<lparr>h_remaining_data := bs\<rparr>) = map_option (\<lambda>h. h\<lparr>h_remaining_data := bs\<rparr>) (SocksRequestFailed e h)"
  by (auto simp: SocksRequestFailed_def Generate_remaining async_write_remaining map_option_bind bind_map_option comp_def case_prod_beta' intro!: Option.bind_cong)

lemma ValidateSOCKSRequest_remaining:
  "ValidateSOCKSRequest (h\<lparr>h_remaining_data := bs\<rparr>) = map_option (\<lambda>(ok, h). (ok, h\<lparr>h_remaining_data := bs\<rparr>)) (ValidateSOCKSRequest h)"
  by (auto simp: ValidateSOCKSRequest_def SocksRequestFailed_remaining map_option_bind comp_def option.map_comp intro!: Option.bind_cong)

lemma SocksRequestFailed_keeps: "SocksRequestFailed e h = Some h' \<Longrightarrow> h_remaining_data h' = h_remaining_data h"
  unfolding SocksRequestFailed_def
  by (auto simp: bind_eq_Some_conv async_write_def socks_emit_def split: if_splits dest!: Generate_fields)

lemma ValidateSOCKSRequest_keeps: "ValidateSOCKSRequest h = Some (ok, h') \<Longrightarrow> h_remaining_data h' = h_remaining_data h"
  by (auto simp: ValidateSOCKSRequest_def bind_eq_Some_conv split: if_splits dest: SocksRequestFailed_keeps)

lemma parse_data_append:
  assumes "h_state h \<noteq> DONE"
  shows "parse_data (a @ b) h = do {
     (ok, h') \<leftarrow> parse_data a h;
     (if ok \<and> h_state h' \<noteq> DONE then parse_data b h' else Some (ok, keep_rest b h')) }"
  using assms
proof (induction a arbitrary: h)
  case (Cons c a)
  show ?case
  proof (cases "parse_byte c h")
    case (Some r)
    obtain ok h1 where r: "r = (ok, h1)" by (cases r)
    consider "\<not> ok" | "ok" "h_state h1 = DONE" | "ok" "h_state h1 \<noteq> DONE" by blast
    then show ?thesis
    proof cases
      case 1
      then have "h_state h1 \<noteq> DONE" using parse_byte_state [of c h h1] Some r Cons.prems by simp
      then show ?thesis using 1 Some r by (simp add: keep_rest_def)
    next
      case 2
      let ?V = "\<lambda>bs. ValidateSOCKSRequest (h1\<lparr>h_remaining_data := bs\<rparr>)"
      have "?V (a @ b) = map_option (\<lambda>(ok, h). (ok, h\<lparr>h_remaining_data := a @ b\<rparr>)) (?V a)"
        using ValidateSOCKSRequest_remaining [of "a @ b" "h1\<lparr>h_remaining_data := a\<rparr>"] by simp
      also have "\<dots> = do { (ok, h') \<leftarrow> ?V a; (if ok \<and> h_state h' \<noteq> DONE then parse_data b h' else Some (ok, keep_rest b h')) }"
        using 2 ValidateSOCKSRequest_keeps [of "h1\<lparr>h_remaining_data := a\<rparr>"] ValidateSOCKSRequest_quiet [of "h1\<lparr>h_remaining_data := a\<rparr>"]
        by (cases "?V a") (auto simp: keep_rest_def)
      finally show ?thesis using 2 Some r by simp
    next
      case 3
      then show ?thesis using Cons.IH [OF 3(2)] Some r by simp
    qed
  qed simp
qed simp

lemma parse_data_sock:
  assumes "parse_data bs h = Some (True, h')" and "h_sock h" and "h_state h' \<noteq> DONE" and "h_state h \<noteq> DONE"
  shows "h_sock h'"
  using assms
proof (induction bs arbitrary: h)
  case (Cons b bs)
  obtain h1 where p: "parse_byte b h = Some (True, h1)"
    using Cons.prems(1) by (auto simp: bind_eq_Some_conv split: if_splits)
  have "h_state h1 \<noteq> DONE"
  proof
    assume d: "h_state h1 = DONE"
    then have "ValidateSOCKSRequest (h1\<lparr>h_remaining_data := bs\<rparr>) = Some (True, h')" using Cons.prems(1) p by simp
    then show False using ValidateSOCKSRequest_quiet d Cons.prems(3) by fastforce
  qed
  then show ?case using Cons.IH [of h1] Cons.prems p parse_byte_sock [OF p] by simp
qed simp

text \<open>
  C34: TCP may cut what the client sends anywhere: reading it in any chunks does what reading
  it at once does, except that the bytes of the chunks that were not read are not yet in
  \<open>m_remaining_data\<close>.
\<close>

theorem socks_segments:
  assumes "cs \<noteq> []" and "\<forall>c \<in> set cs. c \<noteq> []" and "h_state h \<noteq> DONE" and "h_sock h" and "\<not> h_reading h"
  shows "HandleSockRecv False (concat cs) h = map_option (\<lambda>(rest, h'). keep_rest (concat rest) h') (receive_chunks cs h)"
  using assms
proof (induction cs arbitrary: h)
  case (Cons c cs)
  have same: "h\<lparr>h_reading := False\<rparr> = h" using Cons.prems(5) by simp
  have ne: "c \<noteq> []" using Cons.prems(2) by simp
  show ?case
  proof (cases "parse_data c h")
    case None
    then show ?thesis
      using ne Cons.prems(3) by (simp add: same HandleSockRecv_def HandleData_def parse_data_append)
  next
    case (Some r)
    obtain ok h1 where r: "r = (ok, h1)" by (cases r)
    have p: "parse_data c h = Some (ok, h1)" using Some r by simp
    have nr: "\<not> h_reading h1" using parse_data_quiet [OF p Cons.prems(3)] Cons.prems(5) by (simp add: quiet_def)
    consider "\<not> ok" | "ok" "h_state h1 = DONE" | "ok" "h_state h1 \<noteq> DONE" by blast
    then show ?thesis
    proof cases
      case 1
      then show ?thesis
        using ne Cons.prems(3) p nr by (simp add: same HandleSockRecv_def HandleData_def parse_data_append)
    next
      case 2
      then show ?thesis
        using ne Cons.prems(3) p nr
        by (cases "dns_ToString (h_address h1)")
          (simp_all add: same HandleSockRecv_def HandleData_def parse_data_append keep_rest_def socks_emit_def)
    next
      case 3
      have s: "h_sock h1" by (rule parse_data_sock [of c h]) (use 3 p Cons.prems in simp_all)
      have one: "HandleSockRecv False c h = Some (h1\<lparr>h_reading := True\<rparr>)"
        using ne p 3 s by (simp add: HandleSockRecv_def HandleData_def AsyncSockRead_def)
      show ?thesis
      proof (cases "cs = []")
        case True
        then show ?thesis using one 3 by (simp add: same keep_rest_def)
      next
        case False
        have nc: "concat cs \<noteq> []" using False Cons.prems(2) by (cases cs) auto
        have "HandleSockRecv False (c @ concat cs) h = HandleSockRecv False (concat cs) h1"
          using ne nc Cons.prems(3) p 3 by (auto simp: HandleSockRecv_def HandleData_def parse_data_append)
        also have "\<dots> = map_option (\<lambda>(rest, h'). keep_rest (concat rest) h') (receive_chunks cs h1)"
          by (rule Cons.IH) (use False Cons.prems 3 s nr in simp_all)
        also have "receive_chunks cs h1 = receive_chunks cs (h1\<lparr>h_reading := True\<rparr>)"
          using nr False by (cases cs) simp_all
        finally show ?thesis using one by (simp add: same)
      qed
    qed
  qed
qed simp

theorem socks_segments_witness:
  "HandleSockRecv False ([4, 1] @ [0]) (SOCKSHandler_new blank_handler) =
    map_option (\<lambda>(rest, h'). keep_rest (concat rest) h') (receive_chunks [[4, 1], [0]] (SOCKSHandler_new blank_handler))"
  using socks_segments [of "[[4, 1], [0]]" "SOCKSHandler_new blank_handler"]
  by (simp add: SOCKSHandler_new_def EnterState_def)

section \<open>Bounds\<close>

text \<open>A handler in the middle of a request; a host name still fits the union.\<close>

definition socks_ok :: "socks_handler \<Rightarrow> bool" where
  "socks_ok h \<longleftrightarrow> length (h_address h) = 256 \<and> length (h_response h) = 262 \<and> h_sock h \<and>
     (h_state h \<in> {GET4_IDENT, GET4A_HOST} \<longrightarrow> h_socksv h = SOCKS4) \<and>
     (h_state h = GET5_HOST \<longrightarrow> 1 \<le> unat (h_parseleft h) \<and> unat (dns_size (h_address h)) + unat (h_parseleft h) \<le> 255) \<and>
     (h_state h = GET5_IPV6 \<longrightarrow> 1 \<le> unat (h_parseleft h) \<and> unat (h_parseleft h) \<le> 16)"

lemma dns_size_bound: "unat (dns_size a) \<le> 255"
  using unsigned_less [of "dns_size a", where 'a = nat] by simp

lemma Generate_total:
  assumes "length (h_response h) = 262" and "length a = 256"
  shows "error \<ge> SOCKS4_OK \<Longrightarrow> \<exists>r b. GenerateSOCKS4Response error ip port h = Some (r, h\<lparr>h_response := b\<rparr>)"
    and "error \<le> SOCKS5_ADDR_UNSUP \<Longrightarrow> \<exists>r b. GenerateSOCKS5Response error type a port h = Some (r, h\<lparr>h_response := b\<rparr>)"
  using assms dns_size_bound [of a]
  by (auto simp: GenerateSOCKS4Response_def GenerateSOCKS5Response_def htobe16buf_mem_write htobe32buf_mem_write mem_write_def mem_read_def)

lemma SocksRequestFailed_total:
  assumes "length (h_response h) = 262" and "length (h_address h) = 256" and "h_sock h" and "error \<noteq> SOCKS4_OK" "error \<noteq> SOCKS5_OK"
    and "h_socksv h = SOCKS5 \<longrightarrow> error \<le> SOCKS5_ADDR_UNSUP"
  shows "\<exists>h'. SocksRequestFailed error h = Some h'"
proof -
  have e: "(if error < SOCKS4_OK then SOCKS4_FAIL else error) \<ge> SOCKS4_OK" by (auto simp: socks_defs)
  have v: "h_socksv h = SOCKS5 \<Longrightarrow> h_socksv h \<noteq> SOCKS4" by (simp add: socks_defs)
  show ?thesis
    using Generate_total(1) [OF assms(1,2) e, of "h_4aip h" "h_port h"] Generate_total(2) [OF assms(1,2), of error "h_addrtype h" "h_port h"] assms v
    by (auto simp: SocksRequestFailed_def async_write_def)
qed

lemma EnterState_ok:
  assumes "length (h_address h) = 256" and "length (h_response h) = 262" and "h_sock h"
    and "s \<in> {GET4_IDENT, GET4A_HOST} \<longrightarrow> h_socksv h = SOCKS4" and "s = GET5_HOST \<longrightarrow> p \<noteq> 0"
  shows "socks_ok (EnterState s p h)"
proof -
  have "1 \<le> unat p" if "p \<noteq> 0" using that by (metis less_one not_le unat_eq_zero)
  moreover have "unat p \<le> 255" using unsigned_less [of p, where 'a = nat] by simp
  ultimately show ?thesis
    using assms by (cases s) (auto simp: socks_ok_def EnterState_def set_ip_length set_dns_size_length set_dns_size_def dns_size_def)
qed

lemma dns_push_back_total:
  assumes "length a = 256" and "unat (dns_size a) < 255"
  obtains a' where "dns_push_back c a = Some a'" "length a' = 256" "unat (dns_size a') = unat (dns_size a) + 1"
proof -
  have "unat (dns_size a + 1) = unat (dns_size a) + 1" using assms(2) by (simp add: unat_word_ariths)
  then show thesis using that assms
    by (simp add: dns_push_back_def mem_write_def set_dns_size_def dns_size_def)
qed

lemma unat_pred: "1 \<le> unat (p :: byte) \<Longrightarrow> unat (p - 1) = unat p - 1"
  by (metis not_one_le_zero unat_0 unat_minus_one)

lemma get5_host_ok:
  assumes "socks_ok h" and "h_state h = GET5_HOST"
  shows "\<exists>h'. get5_host b h = Some (True, h') \<and> socks_ok h'"
proof -
  have p: "1 \<le> unat (h_parseleft h)" "unat (dns_size (h_address h)) + unat (h_parseleft h) \<le> 255" "length (h_address h) = 256"
    using assms by (simp_all add: socks_ok_def)
  then have "unat (dns_size (h_address h)) < 255" by simp
  from dns_push_back_total [OF p(3) this] obtain a where a: "dns_push_back b (h_address h) = Some a" "length a = 256" "unat (dns_size a) = unat (dns_size (h_address h)) + 1" .
  let ?h = "h\<lparr>h_address := a, h_parseleft := h_parseleft h - 1\<rparr>"
  have u: "unat (h_parseleft h - 1) = unat (h_parseleft h) - 1" using p(1) by (rule unat_pred)
  have e: "socks_ok (Enter GET_PORT ?h)" by (rule EnterState_ok) (use a assms in \<open>simp_all add: socks_ok_def\<close>)
  show ?thesis
  proof (cases "h_parseleft h - 1 = 0")
    case True
    then show ?thesis using a e by (simp add: get5_host_def Let_def)
  next
    case False
    then have "1 \<le> unat (h_parseleft h - 1)" by (metis less_one not_le unat_eq_zero)
    then have "socks_ok ?h" using assms a p u by (simp add: socks_ok_def)
    then show ?thesis using a False by (simp add: get5_host_def Let_def)
  qed
qed

lemma get5_ipv6_ok:
  assumes "socks_ok h" and "h_state h = GET5_IPV6"
  shows "\<exists>h'. get5_ipv6 b h = Some (True, h') \<and> socks_ok h'"
proof -
  have p: "1 \<le> unat (h_parseleft h)" "unat (h_parseleft h) \<le> 16" "length (h_address h) = 256"
    using assms by (simp_all add: socks_ok_def)
  have i: "0 < unat (h_parseleft h)" "16 - unat (h_parseleft h) + 1 \<le> 256" using p by simp_all
  obtain a where a: "mem_write (h_address h) (16 - unat (h_parseleft h)) [b] = Some a" "length a = 256"
    using mem_write_fits [of "16 - unat (h_parseleft h)" "[b]" "h_address h"] i(2) p(3) by auto
  let ?h = "h\<lparr>h_address := a, h_parseleft := h_parseleft h - 1\<rparr>"
  have u: "unat (h_parseleft h - 1) = unat (h_parseleft h) - 1" using p(1) by (rule unat_pred)
  have e: "socks_ok (Enter GET_PORT ?h)" by (rule EnterState_ok) (use a assms in \<open>simp_all add: socks_ok_def\<close>)
  show ?thesis
  proof (cases "h_parseleft h - 1 = 0")
    case True
    then show ?thesis using a e i p(2) by (simp add: get5_ipv6_def Let_def)
  next
    case False
    then have "1 \<le> unat (h_parseleft h - 1)" by (metis less_one not_le unat_eq_zero)
    then have "socks_ok ?h" using assms a p u by (simp add: socks_ok_def)
    then show ?thesis using a False i p(2) by (simp add: get5_ipv6_def Let_def)
  qed
qed

lemma get4a_host_ok:
  assumes "socks_ok h" and "h_state h = GET4A_HOST"
  shows "\<exists>ok h'. get4a_host b h = Some (ok, h') \<and> (ok \<longrightarrow> socks_ok h')"
proof -
  have l: "length (h_address h) = 256" "length (h_response h) = 262" "h_sock h" "h_socksv h = SOCKS4"
    using assms by (simp_all add: socks_ok_def)
  consider "b = 0" | "b \<noteq> 0" "unat (dns_size (h_address h)) \<ge> 255" | "b \<noteq> 0" "unat (dns_size (h_address h)) < 255" by linarith
  then show ?thesis
  proof cases
    case 1
    have "socks_ok (Enter DONE h)" by (rule EnterState_ok) (use l in simp_all)
    then show ?thesis using 1 by (auto simp: get4a_host_def)
  next
    case 2
    have "\<exists>h'. SocksRequestFailed SOCKS4_FAIL h = Some h'"
      by (rule SocksRequestFailed_total) (use l in \<open>simp_all add: socks_defs\<close>)
    then show ?thesis using 2 by (auto simp: get4a_host_def MAX_SOCKS_HOSTNAME_SIZE_def)
  next
    case 3
    from dns_push_back_total [OF l(1) 3(2)] obtain a where a: "dns_push_back b (h_address h) = Some a" "length a = 256" .
    then show ?thesis using 3 assms by (auto simp: get4a_host_def MAX_SOCKS_HOSTNAME_SIZE_def socks_ok_def)
  qed
qed

lemma get5_auth_ok:
  assumes "socks_ok h" and "h_state h = GET5_AUTH"
  shows "\<exists>ok h'. get5_auth b h = Some (ok, h') \<and> (ok \<longrightarrow> socks_ok h')"
proof -
  let ?h = "if b = AUTH_NONE then h\<lparr>h_parseleft := h_parseleft h - 1, h_authchosen := AUTH_NONE\<rparr> else h\<lparr>h_parseleft := h_parseleft h - 1\<rparr>"
  have l: "length (h_address ?h) = 256" "length (h_response ?h) = 262" "h_sock ?h" "h_state ?h = GET5_AUTH" "h_parseleft ?h = h_parseleft h - 1"
    using assms by (simp_all add: socks_ok_def)
  have k: "\<exists>ok h'. Socks5ChooseAuth ?h = Some (ok, h') \<and> length (h_address h') = 256 \<and> length (h_response h') = 262 \<and> h_sock h' \<and> h_socksv h' = h_socksv ?h"
    using l by (auto simp: Socks5ChooseAuth_def mem_write_262 async_write_def socks_emit_def Let_def)
  then obtain ok h' where c: "Socks5ChooseAuth ?h = Some (ok, h')" "length (h_address h') = 256" "length (h_response h') = 262" "h_sock h'" by blast
  have e: "socks_ok (Enter GET5_REQUESTV h')" by (rule EnterState_ok) (use c in simp_all)
  have s: "socks_ok ?h" using assms by (auto simp: socks_ok_def)
  have "get5_auth b h = (if h_parseleft h - 1 = 0 then do {
           (ok, h) \<leftarrow> Socks5ChooseAuth ?h;
           Some (if ok then (True, Enter GET5_REQUESTV h) else (False, h)) }
         else Some (True, ?h))"
    by (simp add: get5_auth_def Let_def)
  then show ?thesis using c(1) e s by auto
qed

text \<open>An operation that does not fail leaves such a handler, if the request goes on.\<close>

definition goes_on :: "(bool \<times> socks_handler) option \<Rightarrow> bool" where
  "goes_on r \<longleftrightarrow> (\<exists>ok h. r = Some (ok, h) \<and> (ok \<longrightarrow> socks_ok h))"

lemma goes_on_simps [simp]: "goes_on (Some (True, h)) = socks_ok h" "goes_on (Some (False, h))" "\<not> goes_on None"
  by (auto simp: goes_on_def)

lemma parse_byte_ok:
  assumes ok: "socks_ok h" and host: "h_state h = GET5_HOST_SIZE \<longrightarrow> b \<noteq> 0"
  shows "goes_on (parse_byte b h)"
proof -
  have l: "length (h_address h) = 256" "length (h_response h) = 262" "h_sock h" using ok by (simp_all add: socks_ok_def)
  have fail: "\<exists>h'. SocksRequestFailed SOCKS5_GEN_FAIL h = Some h'"
    by (rule SocksRequestFailed_total) (use l in \<open>simp_all add: socks_defs\<close>)
  have enter: "socks_ok (EnterState s p h)" if "s \<notin> {GET4_IDENT, GET4A_HOST}" "s = GET5_HOST \<longrightarrow> p \<noteq> 0" for s p
    by (rule EnterState_ok) (use l that in simp_all)
  have v: "SOCKS5 \<noteq> SOCKS4" by (simp add: socks_defs)
  have reject: "goes_on (map_option (Pair False) (SocksRequestFailed SOCKS5_GEN_FAIL h))" using fail by auto
  show ?thesis
  proof (cases "h_state h")
    case GET_SOCKSV
    have e: "socks_ok (Enter GET_COMMAND (h\<lparr>h_socksv := b\<rparr>))" "socks_ok (Enter GET5_AUTHNUM (h\<lparr>h_socksv := b\<rparr>))"
      by (rule EnterState_ok; use l in simp)+
    have "goes_on (get_socksv b h)"
      unfolding get_socksv_def Let_def by (simp only: goes_on_simps e simp_thms split: if_split)
    then show ?thesis using GET_SOCKSV by (simp add: parse_byte_def)
  next
    case GET_COMMAND
    have e: "socks_ok (Enter GET5_GETRSV (h\<lparr>h_cmd := b\<rparr>))" "socks_ok (Enter GET_PORT (h\<lparr>h_cmd := b\<rparr>))"
      by (rule EnterState_ok; use l in simp)+
    have c: "socks_ok (h\<lparr>h_cmd := b\<rparr>)" using ok by (simp add: socks_ok_def)
    have "goes_on (get_command b h)"
      unfolding get_command_def Let_def by (simp only: goes_on_simps e c reject simp_thms split: if_split)
    then show ?thesis using GET_COMMAND by (simp add: parse_byte_def)
  next
    case GET_PORT
    let ?h = "h\<lparr>h_port := push_bit 8 (h_port h) OR ucast b, h_parseleft := h_parseleft h - 1\<rparr>"
    have e: "socks_ok (Enter DONE ?h)" "socks_ok (Enter GET_IPV4 ?h)" by (rule EnterState_ok; use l in simp)+
    have c: "socks_ok ?h" using ok GET_PORT by (simp add: socks_ok_def)
    have "socks_ok (get_port b h)"
      unfolding get_port_def Let_def by (simp only: e c simp_thms split: if_split)
    then show ?thesis using GET_PORT by (simp add: parse_byte_def)
  next
    case GET_IPV4
    let ?h = "h\<lparr>h_address := set_ip (push_bit 8 (addr_ip (h_address h)) OR ucast b) (h_address h), h_parseleft := h_parseleft h - 1\<rparr>"
    have e: "socks_ok (Enter GET_PORT ?h)" by (rule EnterState_ok) (use l in \<open>simp_all add: set_ip_length\<close>)
    have "socks_ok (Enter GET4_IDENT ?h)" if "h_socksv h = SOCKS4"
      by (rule EnterState_ok) (use l that in \<open>simp_all add: set_ip_length\<close>)
    then have i: "h_socksv h = SOCKS4 \<longrightarrow> socks_ok ((Enter GET4_IDENT ?h)\<lparr>h_4aip := ip\<rparr>)" for ip by (simp add: socks_ok_def)
    have c: "socks_ok ?h" using ok GET_IPV4 by (simp add: socks_ok_def set_ip_length)
    have v4: "h_socksv ?h = h_socksv h" by simp
    have "socks_ok (get_ipv4 b h)"
      unfolding get_ipv4_def Let_def by (simp only: e c v4 simp_thms split: if_split) (use i in blast)
    then show ?thesis using GET_IPV4 by (simp add: parse_byte_def)
  next
    case GET4_IDENT
    have "socks_ok (Enter s h)" if "s \<in> {DONE, GET4A_HOST}" for s
      by (rule EnterState_ok) (use l ok GET4_IDENT that in \<open>auto simp: socks_ok_def\<close>)
    then have "socks_ok (get4_ident b h)" using ok by (simp add: get4_ident_def)
    then show ?thesis using GET4_IDENT by (simp add: parse_byte_def)
  next
    case GET4A_HOST
    then show ?thesis using get4a_host_ok [OF ok] by (simp add: parse_byte_def goes_on_def)
  next
    case GET5_AUTH
    then show ?thesis using get5_auth_ok [OF ok] by (simp add: parse_byte_def goes_on_def)
  next
    case GET5_IPV6
    then show ?thesis using get5_ipv6_ok [OF ok, of b] by (auto simp: parse_byte_def)
  next
    case GET5_HOST
    then show ?thesis using get5_host_ok [OF ok, of b] by (auto simp: parse_byte_def)
  next
    case GET5_GETADDRTYPE
    have "socks_ok (Enter s h)" if "s \<in> {GET_IPV4, GET5_IPV6, GET5_HOST_SIZE}" for s by (rule enter) (use that in auto)
    then show ?thesis using GET5_GETADDRTYPE reject by (simp add: parse_byte_def get5_addrtype_def)
  next
    case GET5_HOST_SIZE
    then have "socks_ok (EnterState GET5_HOST b h)" using enter [of GET5_HOST b] host by simp
    then show ?thesis using GET5_HOST_SIZE by (simp add: parse_byte_def)
  next
    case GET5_AUTHNUM
    have "socks_ok (EnterState GET5_AUTH b h)" by (rule enter) simp_all
    then show ?thesis using GET5_AUTHNUM by (simp add: parse_byte_def)
  next
    case GET5_REQUESTV
    have "socks_ok (Enter GET_COMMAND h)" by (rule enter) simp_all
    then show ?thesis using GET5_REQUESTV reject by (simp add: parse_byte_def)
  next
    case GET5_GETRSV
    have "socks_ok (Enter GET5_GETADDRTYPE h)" by (rule enter) simp_all
    then show ?thesis using GET5_GETRSV reject by (simp add: parse_byte_def)
  next
    case DONE
    then show ?thesis by (simp add: parse_byte_def)
  qed
qed

lemma empty_host_overflow:
  assumes "h_state h = GET5_HOST" and "length (h_address h) = 256" and "unat (dns_size (h_address h)) + length bs = 256" and "bs \<noteq> []"
    and "h_parseleft h = - dns_size (h_address h)"
  shows "parse_data (bs @ rest) h = None"
  using assms
proof (induction bs arbitrary: h)
  case (Cons b bs)
  show ?case
  proof (cases "unat (dns_size (h_address h)) = 255")
    case True
    then have "dns_push_back b (h_address h) = None"
      using Cons.prems(2) by (simp add: dns_push_back_def mem_write_def)
    then show ?thesis using Cons.prems(1) by (simp add: parse_byte_def get5_host_def)
  next
    case False
    then have l: "unat (dns_size (h_address h)) < 255" using dns_size_bound [of "h_address h"] by simp
    obtain a where a: "dns_push_back b (h_address h) = Some a" "length a = 256" "unat (dns_size a) = unat (dns_size (h_address h)) + 1"
      by (rule dns_push_back_total [OF Cons.prems(2) l])
    have "dns_size a = dns_size (h_address h) + 1"
      using a(3) l by (simp add: word_unat_eq_iff unat_word_ariths)
    then have s: "h_parseleft h - 1 = - dns_size a" using Cons.prems(5) by simp
    have z: "- dns_size a \<noteq> 0" using a(3) by (metis Suc_eq_plus1 neg_equal_0_iff_equal nat.simps(3) unat_0)
    let ?h = "h\<lparr>h_address := a, h_parseleft := h_parseleft h - 1\<rparr>"
    have "parse_byte b h = Some (True, ?h)"
      using Cons.prems(1) a(1) s z by (simp add: parse_byte_def get5_host_def Let_def)
    from parse_data_step(1) [OF this] have "parse_data ((b # bs) @ rest) h = parse_data (bs @ rest) ?h" using Cons.prems(1) by simp
    moreover have "parse_data (bs @ rest) ?h = None"
      by (rule Cons.IH) (use Cons.prems a s l in auto)
    ultimately show ?thesis by simp
  qed
qed simp

lemma new_handler_ok: "length (h_address g) = 256 \<Longrightarrow> length (h_response g) = 262 \<Longrightarrow> socks_ok (SOCKSHandler_new g)"
  unfolding SOCKSHandler_new_def by (rule EnterState_ok) (simp_all add: set_ip_length)

text \<open>
  C35: reading a byte of a request stays inside the union and the response of the handler and keeps it
  so, with one exception: a SOCKS 5 request may announce a host name of length 0; the handler then
  takes 256 bytes for it, and the last of them is written behind the union.
\<close>

theorem socks_bounds:
  assumes "length (h_address g) = 256" and "length (h_response g) = 262"
  shows "socks_ok (SOCKSHandler_new g) \<and>
    (\<forall>h b. socks_ok h \<and> (h_state h = GET5_HOST_SIZE \<longrightarrow> b \<noteq> 0) \<longrightarrow> (\<exists>ok h'. parse_byte b h = Some (ok, h') \<and> (ok \<longrightarrow> socks_ok h'))) \<and>
    (\<forall>bs rest. length bs = 256 \<longrightarrow> HandleSockRecv False ([5, 1, 0, 5, 1, 0, 3, 0] @ bs @ rest) (SOCKSHandler_new g) = None)"
proof (intro conjI allI impI)
  show "socks_ok (SOCKSHandler_new g)" by (rule new_handler_ok [OF assms])
next
  fix h :: socks_handler and b :: byte
  assume "socks_ok h \<and> (h_state h = GET5_HOST_SIZE \<longrightarrow> b \<noteq> 0)"
  then show "\<exists>ok h'. parse_byte b h = Some (ok, h') \<and> (ok \<longrightarrow> socks_ok h')"
    using parse_byte_ok [of h b] by (auto simp: goes_on_def)
next
  fix bs rest :: bytes
  assume l: "length bs = 256"
  obtain h0 where h0: "\<And>bs. parse_data ([5, 1, 0, 5, 1, 0, 3, 0] @ bs) (SOCKSHandler_new g) = parse_data bs h0"
    "h_state h0 = GET5_HOST" "length (h_address h0) = 256" "dns_size (h_address h0) = 0" "h_parseleft h0 = 0"
    using assms by (simp add: SOCKSHandler_new_def EnterState_def parse_byte_def get_socksv_def get5_auth_def Socks5ChooseAuth_def async_write_def
        socks_emit_def Let_def socks_defs mem_write_262 set_ip_length get_command_def get5_addrtype_def set_dns_size_length set_dns_size_def dns_size_def)
  have "parse_data (bs @ rest) h0 = None"
    by (rule empty_host_overflow) (use h0 l in auto)
  then show "HandleSockRecv False ([5, 1, 0, 5, 1, 0, 3, 0] @ bs @ rest) (SOCKSHandler_new g) = None"
    using h0(1) [of "bs @ rest"] by (simp add: HandleSockRecv_def HandleData_def)
qed

theorem socks_bounds_witness:
  "socks_ok (SOCKSHandler_new blank_handler) \<and> HandleSockRecv False ([5, 1, 0, 5, 1, 0, 3, 0] @ replicate 256 7) (SOCKSHandler_new blank_handler) = None"
  using socks_bounds [OF blank_lengths] by (metis append_Nil2 length_replicate)

end
