(* ===== verification/Spec2Isabelle.thy ===== *)
theory Spec2Isabelle
  imports Tunnel_Dispatch Tunnel_BuildRun Crypto_ElGamal Util_Base64 SSU_Establish Proxy_SOCKS
begin

text \<open>
  Kovri, the I2P router of the repository, as an Isabelle library.
\<close>

end
